(* ===== verification/Prelude.thy ===== *)
theory Prelude
  imports Main "HOL-Library.AList"
begin

text \<open>
  Shared vocabulary of the development: the exceptions Python code raises, as values of a
  result type; Python's list indexing, slicing, insertion and removal with their treatment of
  negative positions; dictionaries as ordered association lists; integer parsing and ceiling
  division; and the lemmas about them that the component theories use.  Two fact collections
  carry the component proofs: \<open>res_simps\<close> (the result type) and \<open>dict_simps\<close> (dictionaries).
\<close>

named_theorems res_simps
named_theorems dict_simps


section \<open>Exceptions as values\<close>

datatype py_error =
    ValueError
  | KeyError
  | IndexError
  | TypeError
  | RuntimeError
  | NotImplementedError
  | ZeroDivisionError
  | AttributeError
  | OverflowError
  | StructError
  | AssertionError

type_synonym 'a res = "py_error + 'a"

text \<open>Sequencing: the first exception ends the computation.\<close>

definition res_bind :: "'a res \<Rightarrow> ('a \<Rightarrow> 'b res) \<Rightarrow> 'b res" where
  "res_bind m f = (case m of Inl e \<Rightarrow> Inl e | Inr x \<Rightarrow> f x)"

fun res_mapM :: "('a \<Rightarrow> 'b res) \<Rightarrow> 'a list \<Rightarrow> 'b list res" where
  "res_mapM f [] = Inr []"
| "res_mapM f (x # xs) = res_bind (f x) (\<lambda>y. res_bind (res_mapM f xs) (\<lambda>ys. Inr (y # ys)))"

fun res_foldM :: "('s \<Rightarrow> 'a \<Rightarrow> 's res) \<Rightarrow> 's \<Rightarrow> 'a list \<Rightarrow> 's res" where
  "res_foldM f s [] = Inr s"
| "res_foldM f s (x # xs) = res_bind (f s x) (\<lambda>s'. res_foldM f s' xs)"

definition res_of_option :: "py_error \<Rightarrow> 'a option \<Rightarrow> 'a res" where
  "res_of_option e m = (case m of None \<Rightarrow> Inl e | Some x \<Rightarrow> Inr x)"

definition is_ok :: "'a res \<Rightarrow> bool" where
  "is_ok m = (case m of Inl _ \<Rightarrow> False | Inr _ \<Rightarrow> True)"


section \<open>Python sequences\<close>

text \<open>Position \<open>i\<close> of a sequence of length \<open>n\<close>; negative positions count from the end.\<close>

definition py_pos :: "nat \<Rightarrow> int \<Rightarrow> nat option" where
  "py_pos n i = (let j = (if i < 0 then i + int n else i)
                 in if 0 \<le> j \<and> j < int n then Some (nat j) else None)"

definition py_index :: "'a list \<Rightarrow> int \<Rightarrow> 'a res" where
  "py_index xs i = (case py_pos (length xs) i of None \<Rightarrow> Inl IndexError | Some k \<Rightarrow> Inr (xs ! k))"

definition py_set :: "'a list \<Rightarrow> int \<Rightarrow> 'a \<Rightarrow> 'a list res" where
  "py_set xs i v = (case py_pos (length xs) i of None \<Rightarrow> Inl IndexError | Some k \<Rightarrow> Inr (xs[k := v]))"

text \<open>\<open>xs.insert(i, v)\<close>: out-of-range positions are clamped, as CPython does.\<close>

definition py_insert :: "'a list \<Rightarrow> int \<Rightarrow> 'a \<Rightarrow> 'a list" where
  "py_insert xs i v =
     (let j = (if i < 0 then max 0 (i + int (length xs)) else min i (int (length xs)))
      in take (nat j) xs @ v # drop (nat j) xs)"

text \<open>\<open>xs.pop(i)\<close>, the list that is left.\<close>

definition py_pop :: "'a list \<Rightarrow> int \<Rightarrow> 'a list res" where
  "py_pop xs i = (case py_pos (length xs) i of None \<Rightarrow> Inl IndexError
                  | Some k \<Rightarrow> Inr (take k xs @ drop (Suc k) xs))"

text \<open>\<open>xs[:-k]\<close> for a literal \<open>k\<close>.\<close>

definition drop_last :: "nat \<Rightarrow> 'a list \<Rightarrow> 'a list" where
  "drop_last k xs = take (length xs - k) xs"

text \<open>\<open>enumerate(xs, start)\<close>.\<close>

definition enum_from :: "nat \<Rightarrow> 'a list \<Rightarrow> (nat \<times> 'a) list" where
  "enum_from k xs = zip [k ..< k + length xs] xs"


section \<open>Numbers\<close>

text \<open>\<open>(a + b - 1) // b\<close>; \<open>div\<close> on \<open>int\<close> rounds down, as Python's \<open>//\<close> does.\<close>

definition ceil_div :: "nat \<Rightarrow> nat \<Rightarrow> nat" where
  "ceil_div a b = (a + b - 1) div b"

definition digit_val :: "char \<Rightarrow> int option" where
  "digit_val c = (let v = int (of_char c :: nat) - 48 in if 0 \<le> v \<and> v \<le> 9 then Some v else None)"

text \<open>
  \<open>int(s)\<close> of a string: surrounding blanks, an optional sign, decimal digits with single
  underscores between digits.
\<close>

fun int_digits :: "int \<Rightarrow> bool \<Rightarrow> string \<Rightarrow> int option" where
  "int_digits acc seen [] = (if seen then Some acc else None)"
| "int_digits acc seen (c # cs) =
     (case digit_val c of
        Some d \<Rightarrow> int_digits (10 * acc + d) True cs
      | None \<Rightarrow> if c = CHR ''_'' \<and> seen \<and> cs \<noteq> [] then int_digits acc False cs else None)"

definition is_blank :: "char \<Rightarrow> bool" where
  "is_blank c = ((of_char c :: nat) \<in> {9, 10, 11, 12, 13, 28, 29, 30, 31, 32})"

definition py_strip :: "string \<Rightarrow> string" where
  "py_strip s = rev (dropWhile is_blank (rev (dropWhile is_blank s)))"

definition int_of_string :: "string \<Rightarrow> int res" where
  "int_of_string s =
     (case py_strip s of
        [] \<Rightarrow> Inl ValueError
      | c # cs \<Rightarrow>
          (if c = CHR ''-'' then res_of_option ValueError (map_option uminus (int_digits 0 False cs))
           else if c = CHR ''+'' then res_of_option ValueError (int_digits 0 False cs)
           else res_of_option ValueError (int_digits 0 False (c # cs))))"


section \<open>Strings\<close>

fun starts_with :: "string \<Rightarrow> string \<Rightarrow> bool" where
  "starts_with s [] = True"
| "starts_with [] (p # ps) = False"
| "starts_with (c # cs) (p # ps) = (c = p \<and> starts_with cs ps)"

definition ends_with :: "string \<Rightarrow> string \<Rightarrow> bool" where
  "ends_with s p = starts_with (rev s) (rev p)"

text \<open>\<open>p in s\<close>\<close>

fun contains_str :: "string \<Rightarrow> string \<Rightarrow> bool" where
  "contains_str [] p = (p = [])"
| "contains_str (c # cs) p = (starts_with (c # cs) p \<or> contains_str cs p)"

text \<open>\<open>s.replace(p, "")\<close> for a non-empty \<open>p\<close>.\<close>

function remove_all :: "string \<Rightarrow> string \<Rightarrow> string" where
  "remove_all p [] = []"
| "remove_all p (c # cs) =
     (if p \<noteq> [] \<and> starts_with (c # cs) p then remove_all p (drop (length p) (c # cs))
      else c # remove_all p cs)"
  by pat_completeness auto
termination
proof (relation "measure (length \<circ> snd)", goal_cases)
  case (2 p c cs)
  then show ?case by (cases p) auto
qed auto

text \<open>\<open>s.split(d)\<close> for a one-character separator.\<close>

fun split_on :: "char \<Rightarrow> string \<Rightarrow> string list" where
  "split_on d [] = [[]]"
| "split_on d (c # cs) =
     (if c = d then [] # split_on d cs
      else (case split_on d cs of [] \<Rightarrow> [[c]] | p # ps \<Rightarrow> (c # p) # ps))"


section \<open>Dictionaries\<close>

text \<open>
  A Python dictionary keeps insertion order, and several loops of the program depend on it, so
  a dictionary is an association list.  \<open>d[k] = v\<close> is \<^const>\<open>AList.update\<close> (an existing
  key keeps its place), \<open>d.pop(k, None)\<close> is \<^const>\<open>AList.delete\<close>, \<open>d.get(k)\<close> is
  \<^const>\<open>map_of\<close>.
\<close>

type_synonym ('k, 'v) dict = "('k \<times> 'v) list"

definition dict_get :: "('k, 'v) dict \<Rightarrow> 'k \<Rightarrow> 'v \<Rightarrow> 'v" where
  "dict_get d k v = (case map_of d k of None \<Rightarrow> v | Some x \<Rightarrow> x)"

definition dict_index :: "('k, 'v) dict \<Rightarrow> 'k \<Rightarrow> 'v res" where
  "dict_index d k = res_of_option KeyError (map_of d k)"

definition dict_setdefault :: "('k, 'v) dict \<Rightarrow> 'k \<Rightarrow> 'v \<Rightarrow> ('k, 'v) dict" where
  "dict_setdefault d k v = (if map_of d k = None then AList.update k v d else d)"

abbreviation dict_has :: "('k, 'v) dict \<Rightarrow> 'k \<Rightarrow> bool" where
  "dict_has d k \<equiv> map_of d k \<noteq> None"

abbreviation dict_keys :: "('k, 'v) dict \<Rightarrow> 'k list" where
  "dict_keys d \<equiv> map fst d"


section \<open>Lemmas: results\<close>

lemma res_bind_Inl [simp, res_simps]: "res_bind (Inl e) f = Inl e"
  by (simp add: res_bind_def)

lemma res_bind_Inr [simp, res_simps]: "res_bind (Inr x) f = f x"
  by (simp add: res_bind_def)

lemma res_bind_eq_Inr [res_simps]: "(res_bind m f = Inr y) \<longleftrightarrow> (\<exists>x. m = Inr x \<and> f x = Inr y)"
  by (cases m) auto

lemma res_bind_eq_Inl [res_simps]:
  "(res_bind m f = Inl e) \<longleftrightarrow> (m = Inl e \<or> (\<exists>x. m = Inr x \<and> f x = Inl e))"
  by (cases m) auto

lemma res_bindE: "res_bind m f = Inr y \<Longrightarrow> (\<And>x. m = Inr x \<Longrightarrow> f x = Inr y \<Longrightarrow> thesis) \<Longrightarrow> thesis"
  by (cases m) auto

lemma res_caseE: "(case r of Inl _ \<Rightarrow> False | Inr x \<Rightarrow> P x) \<Longrightarrow> \<exists>x. r = Inr x \<and> P x"
  by (cases r) auto

lemma res_bind_cong [fundef_cong]:
  "m = m' \<Longrightarrow> (\<And>x. m' = Inr x \<Longrightarrow> f x = f' x) \<Longrightarrow> res_bind m f = res_bind m' f'"
  by (cases m') auto

lemma res_of_option_simps [simp, res_simps]:
  "res_of_option e (Some x) = Inr x" "res_of_option e None = Inl e"
  by (simp_all add: res_of_option_def)

lemma res_of_option_eq_Inr [res_simps]: "(res_of_option e m = Inr x) \<longleftrightarrow> m = Some x"
  by (cases m) auto

lemma is_ok_simps [simp, res_simps]: "is_ok (Inr x)" "\<not> is_ok (Inl e)"
  by (simp_all add: is_ok_def)

lemma is_ok_iff: "is_ok m \<longleftrightarrow> (\<exists>x. m = Inr x)"
  by (cases m) auto

lemma res_mapM_Inr: "res_mapM (\<lambda>x. Inr (f x)) xs = Inr (map f xs)"
  by (induction xs) auto

lemma res_mapM_cong_Inr:
  "(\<And>x. x \<in> set xs \<Longrightarrow> f x = Inr (g x)) \<Longrightarrow> res_mapM f xs = Inr (map g xs)"
  by (induction xs) auto

lemma res_mapM_length: "res_mapM f xs = Inr ys \<Longrightarrow> length ys = length xs"
  by (induction xs arbitrary: ys) (auto simp: res_simps)

lemma res_foldM_append:
  "res_foldM f s (xs @ ys) = res_bind (res_foldM f s xs) (\<lambda>s'. res_foldM f s' ys)"
proof (induction xs arbitrary: s)
  case (Cons x xs)
  then show ?case by (cases "f s x") auto
qed simp

lemma res_foldM_invariant:
  assumes "res_foldM f s xs = Inr s'" and "P s"
    and "\<And>x s1 s2. x \<in> set xs \<Longrightarrow> P s1 \<Longrightarrow> f s1 x = Inr s2 \<Longrightarrow> P s2"
  shows "P s'"
  using assms
proof (induction xs arbitrary: s)
  case (Cons x xs)
  then obtain s1 where s1: "f s x = Inr s1" "res_foldM f s1 xs = Inr s'"
    by (auto simp: res_simps)
  then have "P s1" using Cons.prems by (meson list.set_intros(1))
  with s1(2) show ?case using Cons.IH Cons.prems(3) by (meson list.set_intros(2))
qed simp


section \<open>Lemmas: sequences\<close>

lemma py_pos_nat [simp]: "i < n \<Longrightarrow> py_pos n (int i) = Some i"
  by (simp add: py_pos_def)

lemma py_pos_Some_less: "py_pos n i = Some k \<Longrightarrow> k < n"
  by (auto simp: py_pos_def Let_def split: if_splits)

lemma py_pos_0 [simp]: "py_pos n 0 = (if n = 0 then None else Some 0)"
  by (simp add: py_pos_def)

lemma py_index_nat [simp]: "i < length xs \<Longrightarrow> py_index xs (int i) = Inr (xs ! i)"
  by (simp add: py_index_def)

lemma py_index_Cons_0 [simp]: "py_index (x # xs) 0 = Inr x"
  by (simp add: py_index_def)

lemma py_index_Nil [simp]: "py_index [] i = Inl IndexError"
  by (simp add: py_index_def py_pos_def)

lemma length_py_set: "py_set xs i v = Inr ys \<Longrightarrow> length ys = length xs"
  by (auto simp: py_set_def split: option.splits)

lemma length_py_insert [simp]: "length (py_insert xs i v) = Suc (length xs)"
  by (auto simp: py_insert_def Let_def)

lemma length_py_pop: "py_pop xs i = Inr ys \<Longrightarrow> length ys = length xs - 1"
  by (auto simp: py_pop_def split: option.splits dest: py_pos_Some_less)

lemma length_drop_last [simp]: "length (drop_last k xs) = length xs - k"
  by (simp add: drop_last_def)

lemma length_enum_from [simp]: "length (enum_from k xs) = length xs"
  by (simp add: enum_from_def)

lemma nth_enum_from: "i < length xs \<Longrightarrow> enum_from k xs ! i = (k + i, xs ! i)"
  by (simp add: enum_from_def)

lemma enum_from_Nil [simp]: "enum_from k [] = []"
  by (simp add: enum_from_def)

lemma enum_from_Cons [simp]: "enum_from k (x # xs) = (k, x) # enum_from (Suc k) xs"
  by (simp add: enum_from_def upt_conv_Cons del: upt_Suc)

lemma enum_from_append: "enum_from k (xs @ ys) = enum_from k xs @ enum_from (k + length xs) ys"
  by (induction xs arbitrary: k) auto

lemma set_enum_from: "(i, x) \<in> set (enum_from k xs) \<longleftrightarrow> k \<le> i \<and> i < k + length xs \<and> x = xs ! (i - k)"
proof (induction xs arbitrary: k)
  case (Cons a xs)
  show ?case
  proof (cases "i = k")
    case True
    then show ?thesis using Cons.IH[of "Suc k"] by auto
  next
    case False
    then show ?thesis using Cons.IH[of "Suc k"] by (auto simp: nth_Cons' Suc_diff_Suc)
  qed
qed simp

lemma map_snd_enum_from [simp]: "map snd (enum_from k xs) = xs"
  by (simp add: enum_from_def)


section \<open>Lemmas: arithmetic\<close>

lemma ceil_div_le: "0 < b \<Longrightarrow> a \<le> b * ceil_div a b"
proof -
  assume b: "0 < b"
  have "a + b - 1 = b * ((a + b - 1) div b) + (a + b - 1) mod b" by simp
  moreover have "(a + b - 1) mod b < b" using b by simp
  ultimately show ?thesis unfolding ceil_div_def using b by linarith
qed

lemma ceil_div_upper: "0 < b \<Longrightarrow> b * ceil_div a b < a + b"
  unfolding ceil_div_def
  by (metis add_gr_0 diff_less le_less_trans less_numeral_extra(1) mult.commute
      div_times_less_eq_dividend)

lemma ceil_div_least: "0 < b \<Longrightarrow> a \<le> b * k \<Longrightarrow> ceil_div a b \<le> k"
proof -
  assume b: "0 < b" and "a \<le> b * k"
  then have "b * ceil_div a b < b * Suc k" using ceil_div_upper[OF b, of a] by simp
  then have "ceil_div a b < Suc k" using b by (simp only: nat_mult_less_cancel1)
  then show ?thesis by simp
qed

lemma ceil_div_0 [simp]: "ceil_div 0 b = 0"
  by (cases b) (auto simp: ceil_div_def)


section \<open>Lemmas: strings\<close>

lemma starts_with_iff: "starts_with s p \<longleftrightarrow> take (length p) s = p"
  by (induction s p rule: starts_with.induct) auto

lemma starts_with_refl [simp]: "starts_with s s"
  by (induction s) auto

lemma split_on_not_Nil [simp]: "split_on d s \<noteq> []"
  by (cases s) (auto split: list.splits)


section \<open>Lemmas: dictionaries\<close>

lemma map_of_update [simp, dict_simps]:
  "map_of (AList.update k v d) k' = (if k' = k then Some v else map_of d k')"
  by (simp add: update_conv')

lemma map_of_delete [simp, dict_simps]:
  "map_of (AList.delete k d) k' = (if k' = k then None else map_of d k')"
  by (simp add: delete_conv')

lemma dict_get_update [simp, dict_simps]:
  "dict_get (AList.update k v d) k' w = (if k' = k then v else dict_get d k' w)"
  by (simp add: dict_get_def)

lemma dict_setdefault_lookup [dict_simps]:
  "map_of (dict_setdefault d k v) k' = (if k' = k \<and> map_of d k = None then Some v else map_of d k')"
  by (auto simp: dict_setdefault_def)

lemma distinct_keys_update [simp]:
  "distinct (map fst d) \<Longrightarrow> distinct (map fst (AList.update k v d))"
  by (simp add: update_keys)

lemma update_length_existing: "map_of d k \<noteq> None \<Longrightarrow> length (AList.update k v d) = length d"
  by (induction d) auto

lemma update_fresh: "map_of d k = None \<Longrightarrow> AList.update k v d = d @ [(k, v)]"
  by (induction d) (auto split: if_splits)

lemma set_update_subset: "set (AList.update k v d) \<subseteq> insert (k, v) (set d)"
  by (induction d) auto

end
