(* ===== verification/Block_Manager.thy ===== *)
theory Block_Manager
  imports Prelude "HOL-Library.Multiset"
begin

text \<open>
  The KV block pool, \<open>runtime/src/cache/block.rs\<close>, which the Python engine drives through the
  \<open>PyBlockManager\<close> class of \<open>runtime/src/lib.rs\<close>.  A pool of numbered physical blocks
  carries a reference count per block, a stack of free block ids, a block table per request and
  the list of sharing owners per block.  The theory proves that the pool never hands out a block
  that is still referenced, and it states the part of that contract the prefix cache relies on
  as the locale \<open>ref_pool\<close>, interpreted on the pool itself.
\<close>


section \<open>State\<close>

text \<open>
  \<open>blocks\<close> maps a block id to its reference count (the tensor payload of a cached block is
  owned by the executor and never read here); \<open>free_blocks\<close> is a vector used as a stack, its
  last element on top.
\<close>

record block_manager =
  bm_block_size :: nat
  bm_num_blocks :: nat
  bm_blocks :: "nat \<rightharpoonup> nat"
  bm_free_blocks :: "nat list"
  bm_block_tables :: "string \<rightharpoonup> nat list"
  bm_shared_owners :: "nat \<rightharpoonup> string list"

text \<open>\<open>Panic\<close> stands for the \<open>expect\<close> calls of the source.\<close>

datatype bm_error = OutOfMemory nat nat nat | Panic | UnknownRequest | BadShare


section \<open>Operations\<close>

definition bm_new :: "nat \<Rightarrow> nat \<Rightarrow> block_manager res" where
  "bm_new num_blocks block_size =
     (if num_blocks = 0 then Inl ValueError
      else if block_size = 0 then Inl ValueError
      else Inr \<lparr>bm_block_size = block_size, bm_num_blocks = num_blocks,
                bm_blocks = (\<lambda>i. if i < num_blocks then Some 0 else None),
                bm_free_blocks = [0 ..< num_blocks],
                bm_block_tables = (\<lambda>_. None), bm_shared_owners = (\<lambda>_. None)\<rparr>)"

definition bm_ref_count :: "block_manager \<Rightarrow> nat \<Rightarrow> nat" where
  "bm_ref_count bm b = (case bm_blocks bm b of None \<Rightarrow> 0 | Some c \<Rightarrow> c)"

text \<open>The loop shared by \<open>allocate\<close> and \<open>ensure_blocks\<close>: pop a free block, count it, keep it.\<close>

fun pop_blocks :: "nat \<Rightarrow> block_manager \<Rightarrow> nat list \<Rightarrow> bm_error + block_manager \<times> nat list" where
  "pop_blocks 0 bm acc = Inr (bm, acc)"
| "pop_blocks (Suc n) bm acc =
     (if bm_free_blocks bm = [] then Inl Panic
      else let bid = last (bm_free_blocks bm);
               bm1 = bm\<lparr>bm_free_blocks := butlast (bm_free_blocks bm)\<rparr>
           in case bm_blocks bm1 bid of
                None \<Rightarrow> Inl Panic
              | Some c \<Rightarrow> pop_blocks n (bm1\<lparr>bm_blocks := (bm_blocks bm1)(bid \<mapsto> c + 1)\<rparr>) (acc @ [bid]))"

definition bm_allocate :: "string \<Rightarrow> nat \<Rightarrow> block_manager \<Rightarrow> bm_error + block_manager \<times> nat list" where
  "bm_allocate rid num_tokens bm =
     (if bm_block_tables bm rid \<noteq> None
      then Inl (OutOfMemory 0 (length (bm_free_blocks bm)) (bm_num_blocks bm))
      else let needed = ceil_div num_tokens (bm_block_size bm)
           in if needed > length (bm_free_blocks bm)
              then Inl (OutOfMemory needed (length (bm_free_blocks bm)) (bm_num_blocks bm))
              else case pop_blocks needed bm [] of
                     Inl e \<Rightarrow> Inl e
                   | Inr (bm', allocated) \<Rightarrow>
                       Inr (bm'\<lparr>bm_block_tables := (bm_block_tables bm')(rid \<mapsto> allocated)\<rparr>, allocated))"

text \<open>One iteration of the release loop of \<open>free\<close>; \<open>saturating_sub\<close> is subtraction on \<open>nat\<close>.\<close>

definition release_one :: "string \<Rightarrow> block_manager \<Rightarrow> nat \<Rightarrow> block_manager" where
  "release_one rid bm bid =
     (case bm_blocks bm bid of
        None \<Rightarrow> bm
      | Some c \<Rightarrow>
          let c' = c - 1;
              owners = (bm_shared_owners bm)(bid := map_option (filter (\<lambda>x. x \<noteq> rid)) (bm_shared_owners bm bid));
              bm1 = bm\<lparr>bm_blocks := (bm_blocks bm)(bid \<mapsto> c'), bm_shared_owners := owners\<rparr>
          in if c' = 0
             then bm1\<lparr>bm_free_blocks := bm_free_blocks bm1 @ [bid],
                      bm_shared_owners := (bm_shared_owners bm1)(bid := None)\<rparr>
             else bm1)"

definition bm_free :: "string \<Rightarrow> block_manager \<Rightarrow> block_manager" where
  "bm_free rid bm =
     (case bm_block_tables bm rid of
        None \<Rightarrow> bm
      | Some table \<Rightarrow>
          foldl (release_one rid) (bm\<lparr>bm_block_tables := (bm_block_tables bm)(rid := None)\<rparr>) table)"

definition bm_free_block :: "block_manager \<Rightarrow> nat \<Rightarrow> block_manager" where
  "bm_free_block bm bid =
     (case bm_blocks bm bid of
        None \<Rightarrow> bm
      | Some c \<Rightarrow>
          let c' = c - 1;
              bm1 = bm\<lparr>bm_blocks := (bm_blocks bm)(bid \<mapsto> c'),
                       bm_shared_owners := (bm_shared_owners bm)(bid := None)\<rparr>
          in if c' = 0 then bm1\<lparr>bm_free_blocks := bm_free_blocks bm1 @ [bid]\<rparr> else bm1)"

definition share_one :: "string \<Rightarrow> block_manager \<Rightarrow> nat \<Rightarrow> block_manager" where
  "share_one rid bm bid =
     (case bm_blocks bm bid of
        None \<Rightarrow> bm
      | Some c \<Rightarrow>
          bm\<lparr>bm_blocks := (bm_blocks bm)(bid \<mapsto> c + 1),
             bm_shared_owners := (bm_shared_owners bm)
               (bid \<mapsto> (case bm_shared_owners bm bid of None \<Rightarrow> [] | Some os \<Rightarrow> os) @ [rid])\<rparr>)"

definition bm_assign_cached_blocks :: "string \<Rightarrow> nat list \<Rightarrow> block_manager \<Rightarrow> block_manager" where
  "bm_assign_cached_blocks rid ids bm =
     (let bm1 = foldl (share_one rid) bm ids
      in bm1\<lparr>bm_block_tables := (bm_block_tables bm1)
               (rid \<mapsto> ids @ (case bm_block_tables bm1 rid of None \<Rightarrow> [] | Some t \<Rightarrow> t))\<rparr>)"

definition bm_ensure_blocks :: "string \<Rightarrow> nat \<Rightarrow> block_manager \<Rightarrow> bm_error + block_manager" where
  "bm_ensure_blocks rid target_tokens bm =
     (let existing = (case bm_block_tables bm rid of None \<Rightarrow> 0 | Some t \<Rightarrow> length t * bm_block_size bm)
      in if existing \<ge> target_tokens then Inr bm
         else let n_extra = ceil_div (target_tokens - existing) (bm_block_size bm)
              in if n_extra > length (bm_free_blocks bm)
                 then Inl (OutOfMemory n_extra (length (bm_free_blocks bm)) (bm_num_blocks bm))
                 else let table = (case bm_block_tables bm rid of None \<Rightarrow> [] | Some t \<Rightarrow> t)
                      in case pop_blocks n_extra bm table of
                           Inl e \<Rightarrow> Inl e
                         | Inr (bm', table') \<Rightarrow>
                             Inr (bm'\<lparr>bm_block_tables := (bm_block_tables bm')(rid \<mapsto> table')\<rparr>))"

text \<open>
  The sharing loop of \<open>share_prefix\<close> stops at the first unknown block, with the increments
  made so far in place; the flag says whether it reached the end.
\<close>

fun share_loop :: "string \<Rightarrow> block_manager \<Rightarrow> nat list \<Rightarrow> block_manager \<times> bool" where
  "share_loop rid bm [] = (bm, True)"
| "share_loop rid bm (b # bs) =
     (if bm_blocks bm b = None then (bm, False) else share_loop rid (share_one rid bm b) bs)"

definition bm_share_prefix :: "string \<Rightarrow> string \<Rightarrow> nat \<Rightarrow> block_manager \<Rightarrow> block_manager \<times> (bm_error + nat list)" where
  "bm_share_prefix src dst prefix_len bm =
     (case bm_block_tables bm src of
        None \<Rightarrow> (bm, Inl UnknownRequest)
      | Some src_blocks \<Rightarrow>
          if bm_block_tables bm dst \<noteq> None then (bm, Inl BadShare)
          else let n_blocks = ceil_div prefix_len (bm_block_size bm)
               in if n_blocks > length src_blocks then (bm, Inl BadShare)
                  else let shared = take n_blocks src_blocks
                       in case share_loop dst bm shared of
                            (bm1, False) \<Rightarrow> (bm1, Inl BadShare)
                          | (bm1, True) \<Rightarrow>
                              (bm1\<lparr>bm_block_tables := (bm_block_tables bm1)(dst \<mapsto> shared)\<rparr>, Inr shared))"

definition bm_get_blocks :: "block_manager \<Rightarrow> string \<Rightarrow> nat list res" where
  "bm_get_blocks bm rid = res_of_option KeyError (bm_block_tables bm rid)"

definition bm_num_free_blocks :: "block_manager \<Rightarrow> nat" where
  "bm_num_free_blocks bm = length (bm_free_blocks bm)"

definition bm_increment_ref_count :: "block_manager \<Rightarrow> nat \<Rightarrow> block_manager" where
  "bm_increment_ref_count bm bid =
     (case bm_blocks bm bid of None \<Rightarrow> bm | Some c \<Rightarrow> bm\<lparr>bm_blocks := (bm_blocks bm)(bid \<mapsto> c + 1)\<rparr>)"


section \<open>The pool invariant\<close>

text \<open>References to a block held by request tables.\<close>

definition table_refs :: "block_manager \<Rightarrow> nat \<Rightarrow> nat" where
  "table_refs bm b = (\<Sum>rid \<in> dom (bm_block_tables bm). count_list (the (bm_block_tables bm rid)) b)"

text \<open>
  The free stack holds exactly the blocks of count zero, once each; every table entry is
  counted.  References beyond the tables' belong to the prefix cache.
\<close>

definition bm_inv :: "block_manager \<Rightarrow> bool" where
  "bm_inv bm \<longleftrightarrow>
     0 < bm_block_size bm \<and> dom (bm_blocks bm) = {..< bm_num_blocks bm} \<and>
     distinct (bm_free_blocks bm) \<and>
     (\<forall>b. b \<in> set (bm_free_blocks bm) \<longleftrightarrow> bm_blocks bm b = Some 0) \<and>
     finite (dom (bm_block_tables bm)) \<and>
     (\<forall>b. table_refs bm b \<le> bm_ref_count bm b)"

lemmas bm_defs = bm_ref_count_def table_refs_def

lemma bm_inv_new: "bm_new n bs = Inr bm \<Longrightarrow> bm_inv bm"
  by (auto simp: bm_new_def bm_inv_def bm_defs dom_def split: if_splits)

lemma bm_ref_count_update [simp]:
  "bm_ref_count (bm\<lparr>bm_blocks := (bm_blocks bm)(b \<mapsto> c)\<rparr>) b' = (if b' = b then c else bm_ref_count bm b')"
  "bm_ref_count (bm\<lparr>bm_free_blocks := fs\<rparr>) b' = bm_ref_count bm b'"
  "bm_ref_count (bm\<lparr>bm_block_tables := ts\<rparr>) b' = bm_ref_count bm b'"
  "bm_ref_count (bm\<lparr>bm_shared_owners := os\<rparr>) b' = bm_ref_count bm b'"
  by (simp_all add: bm_ref_count_def)

lemma table_refs_frame [simp]:
  "table_refs (bm\<lparr>bm_blocks := bs\<rparr>) b = table_refs bm b"
  "table_refs (bm\<lparr>bm_free_blocks := fs\<rparr>) b = table_refs bm b"
  "table_refs (bm\<lparr>bm_shared_owners := os\<rparr>) b = table_refs bm b"
  by (simp_all add: table_refs_def)

lemma table_refs_insert:
  assumes "finite (dom (bm_block_tables bm))"
  shows "table_refs (bm\<lparr>bm_block_tables := (bm_block_tables bm)(rid \<mapsto> t)\<rparr>) b
       = table_refs (bm\<lparr>bm_block_tables := (bm_block_tables bm)(rid := None)\<rparr>) b + count_list t b"
proof -
  let ?T = "bm_block_tables bm"
  have "table_refs (bm\<lparr>bm_block_tables := ?T(rid \<mapsto> t)\<rparr>) b
      = (\<Sum>r \<in> insert rid (dom ?T - {rid}). count_list (the ((?T(rid \<mapsto> t)) r)) b)"
    by (simp add: table_refs_def insert_Diff_if insert_absorb)
  also have "\<dots> = count_list t b + (\<Sum>r \<in> dom ?T - {rid}. count_list (the ((?T(rid \<mapsto> t)) r)) b)"
    using assms by (subst sum.insert) auto
  also have "(\<Sum>r \<in> dom ?T - {rid}. count_list (the ((?T(rid \<mapsto> t)) r)) b)
           = table_refs (bm\<lparr>bm_block_tables := ?T(rid := None)\<rparr>) b"
    by (auto simp: table_refs_def intro!: sum.cong)
  finally show ?thesis by (simp only: add.commute)
qed

lemma table_refs_remove:
  assumes "finite (dom (bm_block_tables bm))" and "bm_block_tables bm rid = Some t"
  shows "table_refs bm b
       = table_refs (bm\<lparr>bm_block_tables := (bm_block_tables bm)(rid := None)\<rparr>) b + count_list t b"
proof -
  have "bm\<lparr>bm_block_tables := (bm_block_tables bm)(rid \<mapsto> t)\<rparr> = bm"
    using assms(2) by (simp add: fun_upd_idem)
  then show ?thesis using table_refs_insert[OF assms(1), of rid t b] by simp
qed


section \<open>Allocation\<close>

definition stack_ok :: "block_manager \<Rightarrow> bool" where
  "stack_ok bm \<longleftrightarrow> distinct (bm_free_blocks bm) \<and> (\<forall>b \<in> set (bm_free_blocks bm). bm_blocks bm b = Some 0)"

lemma bm_inv_stack_ok: "bm_inv bm \<Longrightarrow> stack_ok bm"
  by (simp add: bm_inv_def stack_ok_def)

text \<open>With enough free blocks the loop cannot panic, and it takes the top of the stack.\<close>

lemma pop_blocks_ok:
  assumes "stack_ok bm" and "n \<le> length (bm_free_blocks bm)"
  shows "\<exists>new. pop_blocks n bm acc = Inr (bm\<lparr>bm_free_blocks := take (length (bm_free_blocks bm) - n) (bm_free_blocks bm),
             bm_blocks := (\<lambda>b. if b \<in> set new then Some 1 else bm_blocks bm b)\<rparr>, acc @ new)
           \<and> length new = n \<and> mset new = mset (drop (length (bm_free_blocks bm) - n) (bm_free_blocks bm))"
  using assms
proof (induction n arbitrary: bm acc)
  case 0
  then show ?case by (auto intro!: exI[of _ "[]"])
next
  case (Suc n)
  let ?F = "bm_free_blocks bm" let ?b = "last ?F"
  let ?bm1 = "bm\<lparr>bm_free_blocks := butlast ?F, bm_blocks := (bm_blocks bm)(?b \<mapsto> 1)\<rparr>"
  have ne: "?F \<noteq> []" using Suc.prems by auto
  then have F: "butlast ?F @ [?b] = ?F" by simp
  have b0: "bm_blocks bm ?b = Some 0" using Suc.prems(1) ne by (simp add: stack_ok_def)
  have notin: "?b \<notin> set (butlast ?F)"
    using Suc.prems(1) F unfolding stack_ok_def by (metis distinct_append disjoint_iff list.set_intros(1))
  have "distinct (butlast ?F)" using Suc.prems(1) by (simp add: stack_ok_def distinct_butlast)
  then have ok1: "stack_ok ?bm1"
    using Suc.prems(1) notin by (auto simp: stack_ok_def dest: in_set_butlastD)
  have len1: "n \<le> length (bm_free_blocks ?bm1)" using Suc.prems(2) by simp
  from Suc.IH[OF ok1 len1, of "acc @ [?b]"] obtain new where new:
    "pop_blocks n ?bm1 (acc @ [?b]) = Inr (?bm1\<lparr>bm_free_blocks := take (length (butlast ?F) - n) (butlast ?F),
       bm_blocks := (\<lambda>b. if b \<in> set new then Some 1 else bm_blocks ?bm1 b)\<rparr>, (acc @ [?b]) @ new)"
    "length new = n" "mset new = mset (drop (length (butlast ?F) - n) (butlast ?F))"
    by auto
  have pop: "pop_blocks (Suc n) bm acc = pop_blocks n ?bm1 (acc @ [?b])"
    using ne b0 by (simp add: Let_def)
  have take_eq: "take (length (butlast ?F) - n) (butlast ?F) = take (length ?F - Suc n) ?F"
    using Suc.prems(2) by (simp add: take_butlast)
  have drop_eq: "drop (length ?F - Suc n) ?F = drop (length (butlast ?F) - n) (butlast ?F) @ [?b]"
    using Suc.prems(2) ne by (metis F drop_append diff_diff_eq plus_1_eq_Suc length_butlast
        diff_le_self diff_is_0_eq drop_0)
  show ?case
    using new take_eq drop_eq unfolding pop
    by (intro exI[of _ "?b # new"]) (auto simp: fun_eq_iff)
qed

text \<open>A request's table grown by blocks from the top of the stack keeps the invariant.\<close>

abbreviation table_of :: "block_manager \<Rightarrow> string \<Rightarrow> nat list" where
  "table_of bm rid \<equiv> (case bm_block_tables bm rid of None \<Rightarrow> [] | Some t \<Rightarrow> t)"

lemma table_refs_grow:
  assumes "finite (dom (bm_block_tables bm))"
  shows "table_refs (bm\<lparr>bm_block_tables := (bm_block_tables bm)(rid \<mapsto> t)\<rparr>) b + count_list (table_of bm rid) b
       = table_refs bm b + count_list t b"
proof (cases "bm_block_tables bm rid")
  case None
  then have "bm\<lparr>bm_block_tables := (bm_block_tables bm)(rid := None)\<rparr> = bm" by (simp add: fun_upd_idem)
  with None show ?thesis using table_refs_insert[OF assms, of rid t b] by simp
next
  case (Some t0)
  then show ?thesis using table_refs_insert[OF assms, of rid t b] table_refs_remove[OF assms Some, of b] by simp
qed

lemma table_refs_cong: "bm_block_tables bm = bm_block_tables bm' \<Longrightarrow> table_refs bm b = table_refs bm' b"
  by (simp add: table_refs_def)

lemma count_list_distinct: "distinct xs \<Longrightarrow> count_list xs x = (if x \<in> set xs then 1 else 0)"
  by (induction xs) auto

text \<open>
  The invariant with a list of references still to be given back (in \<open>free\<close>) or still to be
  entered in a table (in \<open>assign_cached_blocks\<close>).
\<close>

definition bm_pending :: "block_manager \<Rightarrow> nat list \<Rightarrow> bool" where
  "bm_pending bm ts \<longleftrightarrow>
     0 < bm_block_size bm \<and> dom (bm_blocks bm) = {..< bm_num_blocks bm} \<and>
     distinct (bm_free_blocks bm) \<and>
     (\<forall>b. b \<in> set (bm_free_blocks bm) \<longleftrightarrow> bm_blocks bm b = Some 0) \<and>
     finite (dom (bm_block_tables bm)) \<and>
     (\<forall>b. table_refs bm b + count_list ts b \<le> bm_ref_count bm b)"

lemma bm_inv_pending: "bm_inv bm \<longleftrightarrow> bm_pending bm []"
  by (simp add: bm_inv_def bm_pending_def)

lemma bm_pending_weaken: "bm_pending bm (ts @ us) \<Longrightarrow> bm_pending bm us"
  unfolding bm_pending_def by (auto intro: order_trans[rotated])

lemma bm_pending_inv: "bm_pending bm ts \<Longrightarrow> bm_inv bm"
  using bm_pending_weaken[of bm ts "[]"] by (simp add: bm_inv_pending)

lemma bm_pending_grow:
  assumes inv: "bm_pending bm ts" and F: "bm_free_blocks bm = F @ D" and D: "mset new = mset D"
  shows "bm_pending (bm\<lparr>bm_free_blocks := F, bm_blocks := (\<lambda>b. if b \<in> set new then Some 1 else bm_blocks bm b),
                    bm_block_tables := (bm_block_tables bm)(rid \<mapsto> table_of bm rid @ new)\<rparr>) ts"
    (is "bm_pending ?bm' ts")
proof -
  have sD: "set new = set D" using D by (rule mset_eq_setD)
  have dF: "distinct F" "distinct D" "set F \<inter> set D = {}" using inv F by (auto simp: bm_pending_def)
  have dn: "distinct new" using D dF(2) mset_eq_imp_distinct_iff by blast
  have fin: "finite (dom (bm_block_tables bm))" using inv by (simp add: bm_pending_def)
  have zero: "bm_blocks bm b = Some 0" if "b \<in> set new" for b
    using inv F sD that by (auto simp: bm_pending_def)
  have refs: "table_refs ?bm' b + count_list ts b \<le> bm_ref_count ?bm' b" for b
  proof -
    have "table_refs ?bm' b = table_refs (bm\<lparr>bm_block_tables := (bm_block_tables bm)(rid \<mapsto> table_of bm rid @ new)\<rparr>) b"
      by (rule table_refs_cong) simp
    then have eq: "table_refs ?bm' b = table_refs bm b + count_list new b"
      using table_refs_grow[OF fin, of rid "table_of bm rid @ new" b] by simp
    have le: "table_refs bm b + count_list ts b \<le> bm_ref_count bm b" using inv by (simp add: bm_pending_def)
    show ?thesis
      using eq le zero[of b] count_list_distinct[OF dn, of b] by (auto simp: bm_ref_count_def)
  qed
  have dom': "dom (bm_blocks ?bm') = {..< bm_num_blocks bm}"
    using inv zero by (auto simp: bm_pending_def dom_def)
  show ?thesis
    using inv refs dom' dF sD F fin unfolding bm_pending_def by auto
qed

theorem bm_allocate_spec:
  assumes "bm_pending bm ts" and "bm_allocate rid n bm = Inr (bm', new)"
  shows "bm_pending bm' ts \<and> bm_block_tables bm' = (bm_block_tables bm)(rid \<mapsto> new) \<and>
         length new = ceil_div n (bm_block_size bm) \<and> distinct new \<and>
         (\<forall>b \<in> set new. b < bm_num_blocks bm \<and> table_refs bm b = 0 \<and> bm_ref_count bm b = 0 \<and> bm_ref_count bm' b = 1)"
proof -
  have inv: "bm_inv bm" using assms(1) by (rule bm_pending_inv)
  let ?n = "ceil_div n (bm_block_size bm)" let ?F = "bm_free_blocks bm"
  from assms(2) have none: "bm_block_tables bm rid = None" and le: "?n \<le> length ?F"
    by (auto simp: bm_allocate_def Let_def split: if_splits)
  from pop_blocks_ok[OF bm_inv_stack_ok[OF inv] le, of "[]"] obtain nw where nw:
    "pop_blocks ?n bm [] = Inr (bm\<lparr>bm_free_blocks := take (length ?F - ?n) ?F,
       bm_blocks := (\<lambda>b. if b \<in> set nw then Some 1 else bm_blocks bm b)\<rparr>, nw)"
    "length nw = ?n" "mset nw = mset (drop (length ?F - ?n) ?F)" by auto
  have res: "new = nw" "bm' = bm\<lparr>bm_free_blocks := take (length ?F - ?n) ?F,
       bm_blocks := (\<lambda>b. if b \<in> set nw then Some 1 else bm_blocks bm b),
       bm_block_tables := (bm_block_tables bm)(rid \<mapsto> nw)\<rparr>"
    using assms(2) none le nw(1) by (auto simp: bm_allocate_def Let_def)
  have inv': "bm_pending bm' ts"
    using bm_pending_grow[OF assms(1), of "take (length ?F - ?n) ?F" "drop (length ?F - ?n) ?F" nw rid] nw(3) none res
    by simp
  have sub: "set nw \<subseteq> set ?F" using mset_eq_setD[OF nw(3)] set_drop_subset by metis
  have "distinct nw"
    using nw(3) inv by (metis bm_inv_def distinct_drop mset_eq_imp_distinct_iff)
  moreover have "b < bm_num_blocks bm \<and> table_refs bm b = 0 \<and> bm_ref_count bm b = 0 \<and> bm_ref_count bm' b = 1"
    if "b \<in> set nw" for b
  proof -
    have "bm_blocks bm b = Some 0" using inv sub that by (auto simp: bm_inv_def)
    moreover have "table_refs bm b \<le> bm_ref_count bm b" "dom (bm_blocks bm) = {..< bm_num_blocks bm}"
      using inv by (simp_all add: bm_inv_def)
    ultimately show ?thesis using res(2) that by (auto simp: bm_ref_count_def)
  qed
  ultimately show ?thesis using inv' res nw(2) by auto
qed

lemma bm_allocate_total:
  assumes "bm_inv bm"
  shows "bm_allocate rid n bm \<noteq> Inl Panic"
  using pop_blocks_ok[OF bm_inv_stack_ok[OF assms], of "ceil_div n (bm_block_size bm)" "[]"]
  by (auto simp: bm_allocate_def Let_def)

lemma bm_ensure_blocks_spec:
  assumes pend: "bm_pending bm ts" and ok: "bm_ensure_blocks rid target bm = Inr bm'"
  shows "bm_pending bm' ts \<and> target \<le> length (table_of bm' rid) * bm_block_size bm \<and>
         (\<exists>new. table_of bm' rid = table_of bm rid @ new) \<and>
         (\<forall>r. r \<noteq> rid \<longrightarrow> bm_block_tables bm' r = bm_block_tables bm r)"
proof -
  have inv: "bm_inv bm" using pend by (rule bm_pending_inv)
  let ?old = "table_of bm rid" let ?bs = "bm_block_size bm" let ?F = "bm_free_blocks bm"
  let ?ex = "length ?old * ?bs" let ?n = "ceil_div (target - ?ex) ?bs"
  have bs: "0 < ?bs" using inv by (simp add: bm_inv_def)
  have ex: "(case bm_block_tables bm rid of None \<Rightarrow> 0 | Some t \<Rightarrow> length t * ?bs) = ?ex"
    by (simp split: option.splits)
  show ?thesis
  proof (cases "target \<le> ?ex")
    case True
    then have "bm' = bm" using ok ex by (simp add: bm_ensure_blocks_def Let_def)
    with True pend show ?thesis by simp
  next
    case False
    then have le: "?n \<le> length ?F" using ok ex by (auto simp: bm_ensure_blocks_def Let_def split: if_splits)
    from pop_blocks_ok[OF bm_inv_stack_ok[OF inv] le, of ?old] obtain nw where nw:
      "pop_blocks ?n bm ?old = Inr (bm\<lparr>bm_free_blocks := take (length ?F - ?n) ?F,
         bm_blocks := (\<lambda>b. if b \<in> set nw then Some 1 else bm_blocks bm b)\<rparr>, ?old @ nw)"
      "length nw = ?n" "mset nw = mset (drop (length ?F - ?n) ?F)" by auto
    have bm': "bm' = bm\<lparr>bm_free_blocks := take (length ?F - ?n) ?F,
         bm_blocks := (\<lambda>b. if b \<in> set nw then Some 1 else bm_blocks bm b),
         bm_block_tables := (bm_block_tables bm)(rid \<mapsto> ?old @ nw)\<rparr>"
      using ok ex False le nw(1) by (auto simp: bm_ensure_blocks_def Let_def)
    have "bm_pending bm' ts"
      using bm_pending_grow[OF pend, of "take (length ?F - ?n) ?F" "drop (length ?F - ?n) ?F" nw rid] nw(3) bm' by simp
    moreover have "target \<le> length (?old @ nw) * ?bs"
      using ceil_div_le[OF bs, of "target - ?ex"] nw(2) False by (simp add: algebra_simps)
    ultimately show ?thesis using bm' by auto
  qed
qed


section \<open>Release and sharing\<close>

lemma ref_count_pos_iff: "0 < bm_ref_count bm b \<longleftrightarrow> (\<exists>c. bm_blocks bm b = Some (Suc c))"
  by (auto simp: bm_ref_count_def split: option.splits dest: gr0_implies_Suc)

lemma bm_pending_pos: "bm_pending bm (b # ts) \<Longrightarrow> 0 < bm_ref_count bm b"
  unfolding bm_pending_def by (metis add_gr_0 count_list.simps(2) less_le_trans zero_less_one)

lemma bm_pending_drop_ref:
  assumes inv: "bm_pending bm (b # ts)" and c: "bm_blocks bm b = Some (Suc c)"
    and bm': "bm_blocks bm' = (bm_blocks bm)(b \<mapsto> c)" "bm_block_tables bm' = bm_block_tables bm"
      "bm_block_size bm' = bm_block_size bm" "bm_num_blocks bm' = bm_num_blocks bm"
      "bm_free_blocks bm' = bm_free_blocks bm @ (if c = 0 then [b] else [])"
  shows "bm_pending bm' ts"
proof -
  have notin: "b \<notin> set (bm_free_blocks bm)" using inv c by (simp add: bm_pending_def)
  have dom': "dom (bm_blocks bm') = {..< bm_num_blocks bm'}"
    using inv c bm' by (auto simp: bm_pending_def)
  have "table_refs bm' x + count_list ts x \<le> bm_ref_count bm' x" for x
  proof -
    have "table_refs bm x + count_list (b # ts) x \<le> bm_ref_count bm x" using inv by (simp add: bm_pending_def)
    then show ?thesis using c bm' table_refs_cong[OF bm'(2), of x]
      by (auto simp: bm_ref_count_def split: if_splits)
  qed
  then show ?thesis
    using inv notin dom' bm' unfolding bm_pending_def by (auto split: if_splits)
qed

lemma release_one_pending:
  assumes "bm_pending bm (b # ts)"
  shows "bm_pending (release_one rid bm b) ts"
proof -
  obtain c where c: "bm_blocks bm b = Some (Suc c)"
    using bm_pending_pos[OF assms] ref_count_pos_iff by blast
  show ?thesis
    by (rule bm_pending_drop_ref[OF assms c]) (simp_all add: release_one_def c Let_def)
qed

lemma release_pending: "bm_pending bm (ts @ us) \<Longrightarrow> bm_pending (foldl (release_one rid) bm ts) us"
  by (induction ts arbitrary: bm) (auto dest: release_one_pending)

lemma bm_free_pending:
  assumes "bm_pending bm us"
  shows "bm_pending (bm_free rid bm) us"
proof (cases "bm_block_tables bm rid")
  case (Some t)
  have fin: "finite (dom (bm_block_tables bm))" using assms by (simp add: bm_pending_def)
  let ?bm1 = "bm\<lparr>bm_block_tables := (bm_block_tables bm)(rid := None)\<rparr>"
  have "bm_pending ?bm1 (t @ us)"
    using assms table_refs_remove[OF fin Some] by (simp add: bm_pending_def add.assoc)
  then have "bm_pending (foldl (release_one rid) ?bm1 t) us" by (rule release_pending)
  then show ?thesis using Some by (simp add: bm_free_def)
qed (use assms in \<open>simp add: bm_free_def\<close>)

lemma bm_free_block_pending:
  assumes "bm_pending bm (b # ts)"
  shows "bm_pending (bm_free_block bm b) ts"
proof -
  obtain c where c: "bm_blocks bm b = Some (Suc c)"
    using bm_pending_pos[OF assms] ref_count_pos_iff by blast
  show ?thesis
    by (rule bm_pending_drop_ref[OF assms c]) (simp_all add: bm_free_block_def c Let_def)
qed

lemma bm_pending_add_ref:
  assumes inv: "bm_pending bm ts" and c: "bm_blocks bm b = Some (Suc c)"
    and bm': "bm_blocks bm' = (bm_blocks bm)(b \<mapsto> Suc (Suc c))" "bm_block_tables bm' = bm_block_tables bm"
      "bm_block_size bm' = bm_block_size bm" "bm_num_blocks bm' = bm_num_blocks bm"
      "bm_free_blocks bm' = bm_free_blocks bm"
  shows "bm_pending bm' (ts @ [b])"
proof -
  have dom': "dom (bm_blocks bm') = {..< bm_num_blocks bm'}" using inv c bm' by (auto simp: bm_pending_def)
  have refs: "table_refs bm' x + count_list (ts @ [b]) x \<le> bm_ref_count bm' x" for x
  proof -
    have "table_refs bm x + count_list ts x \<le> bm_ref_count bm x" using inv by (simp add: bm_pending_def)
    then show ?thesis using c bm' table_refs_cong[OF bm'(2), of x] by (auto simp: bm_ref_count_def)
  qed
  have "b \<notin> set (bm_free_blocks bm)" using inv c by (simp add: bm_pending_def)
  then show ?thesis using inv dom' refs bm' unfolding bm_pending_def by auto
qed

lemma share_one_pending:
  assumes "bm_pending bm ts" and "0 < bm_ref_count bm b"
  shows "bm_pending (share_one rid bm b) (ts @ [b])"
proof -
  obtain c where c: "bm_blocks bm b = Some (Suc c)" using assms(2) ref_count_pos_iff by blast
  show ?thesis by (rule bm_pending_add_ref[OF assms(1) c]) (simp_all add: share_one_def c)
qed

lemma share_one_ref_count:
  "0 < bm_ref_count bm b \<Longrightarrow> bm_ref_count (share_one rid bm b) x = bm_ref_count bm x + (if x = b then 1 else 0)"
  by (auto simp: share_one_def bm_ref_count_def split: option.splits)

lemma share_pending:
  "bm_pending bm ts \<Longrightarrow> \<forall>b \<in> set us. 0 < bm_ref_count bm b \<Longrightarrow> bm_pending (foldl (share_one rid) bm us) (ts @ us)"
proof (induction us arbitrary: bm ts)
  case (Cons u us)
  have "bm_pending (share_one rid bm u) (ts @ [u])" using Cons.prems by (intro share_one_pending) auto
  moreover have "\<forall>b \<in> set us. 0 < bm_ref_count (share_one rid bm u) b"
    using Cons.prems by (auto simp: share_one_ref_count)
  ultimately show ?case using Cons.IH[of "share_one rid bm u" "ts @ [u]"] by simp
qed simp

lemma share_tables [simp]: "bm_block_tables (foldl (share_one rid) bm us) = bm_block_tables bm"
  by (induction us arbitrary: bm) (auto simp: share_one_def split: option.splits)

lemma bm_assign_cached_pending:
  assumes inv: "bm_pending bm ts" and live: "\<forall>b \<in> set ids. 0 < bm_ref_count bm b"
  shows "bm_pending (bm_assign_cached_blocks rid ids bm) ts"
    and "bm_block_tables (bm_assign_cached_blocks rid ids bm) rid = Some (ids @ table_of bm rid)"
proof -
  let ?bm1 = "foldl (share_one rid) bm ids"
  let ?bm2 = "?bm1\<lparr>bm_block_tables := (bm_block_tables ?bm1)(rid \<mapsto> ids @ table_of ?bm1 rid)\<rparr>"
  have pend: "bm_pending ?bm1 (ts @ ids)" using share_pending[OF inv live] .
  then have fin: "finite (dom (bm_block_tables ?bm1))" by (simp add: bm_pending_def)
  have "table_refs ?bm2 b = table_refs ?bm1 b + count_list ids b" for b
    using table_refs_grow[OF fin, of rid "ids @ table_of ?bm1 rid" b] by simp
  then have "bm_pending ?bm2 ts" using pend by (simp add: bm_pending_def ac_simps)
  then show "bm_pending (bm_assign_cached_blocks rid ids bm) ts" by (simp add: bm_assign_cached_blocks_def Let_def)
  show "bm_block_tables (bm_assign_cached_blocks rid ids bm) rid = Some (ids @ table_of bm rid)"
    by (simp add: bm_assign_cached_blocks_def Let_def)
qed

lemma bm_increment_pending:
  assumes "bm_pending bm ts" and "0 < bm_ref_count bm b"
  shows "bm_pending (bm_increment_ref_count bm b) (ts @ [b])"
proof -
  obtain c where c: "bm_blocks bm b = Some (Suc c)" using assms(2) ref_count_pos_iff by blast
  show ?thesis
    by (rule bm_pending_add_ref[OF assms(1) c]) (simp_all add: bm_increment_ref_count_def c)
qed

text \<open>No block of a request's table, and no block the prefix cache refers to, is on the free stack.\<close>

lemma bm_inv_not_free:
  assumes "bm_inv bm" and "0 < bm_ref_count bm b"
  shows "b \<notin> set (bm_free_blocks bm)"
  using assms by (auto simp: bm_inv_def ref_count_pos_iff)

lemma bm_table_live:
  assumes "bm_inv bm" and "bm_block_tables bm rid = Some t" and "b \<in> set t"
  shows "0 < bm_ref_count bm b"
proof -
  have fin: "finite (dom (bm_block_tables bm))" and le: "table_refs bm b \<le> bm_ref_count bm b"
    using assms(1) by (simp_all add: bm_inv_def)
  have "0 < count_list t b" using assms(3) by (simp add: count_list_0_iff flip: neq0_conv)
  then show ?thesis using table_refs_remove[OF fin assms(2), of b] le by simp
qed


section \<open>The contract the prefix cache relies on\<close>

locale ref_pool =
  fixes incr :: "'bm \<Rightarrow> nat \<Rightarrow> 'bm"
    and free1 :: "'bm \<Rightarrow> nat \<Rightarrow> 'bm"
    and rc :: "'bm \<Rightarrow> nat \<Rightarrow> nat"
  assumes rc_incr: "0 < rc m b \<Longrightarrow> rc (incr m b) x = rc m x + (if x = b then 1 else 0)"
    and rc_free1: "0 < rc m b \<Longrightarrow> rc (free1 m b) x = rc m x - (if x = b then 1 else 0)"
begin

lemma rc_incr_all:
  "\<forall>b \<in> set bs. 0 < rc m b \<Longrightarrow> rc (foldl incr m bs) x = rc m x + count_list bs x"
proof (induction bs arbitrary: m)
  case (Cons b bs)
  then have "\<forall>y \<in> set bs. 0 < rc (incr m b) y" by (auto simp: rc_incr)
  with Cons show ?case by (auto simp: rc_incr)
qed simp

lemma rc_free_all:
  "\<forall>y. count_list bs y \<le> rc m y \<Longrightarrow> rc (foldl free1 m bs) x = rc m x - count_list bs x"
proof (induction bs arbitrary: m)
  case (Cons b bs)
  have b: "0 < rc m b" using Cons.prems[rule_format, of b] by simp
  have "\<forall>y. count_list bs y \<le> rc (free1 m b) y"
    using Cons.prems by (auto simp: rc_free1[OF b] split: if_splits)
  then show ?case using Cons.IH b by (auto simp: rc_free1[OF b])
qed simp

end

interpretation pool: ref_pool bm_increment_ref_count bm_free_block bm_ref_count
  by unfold_locales
    (auto simp: bm_increment_ref_count_def bm_free_block_def bm_ref_count_def Let_def split: option.splits if_splits)


section \<open>Properties of the block manager\<close>

text \<open>C33: a successful allocation gives the request exactly as many blocks as its tokens need, all
  distinct, inside the pool and unused by any request or cache entry before, and keeps the pool
  consistent together with every reference held outside the tables.\<close>

theorem bm_allocate_fresh:
  assumes "bm_pending bm ts" and "bm_allocate rid n bm = Inr (bm', new)"
  shows "bm_pending bm' ts \<and> bm_block_tables bm' = (bm_block_tables bm)(rid \<mapsto> new) \<and>
         length new = ceil_div n (bm_block_size bm) \<and> distinct new \<and>
         (\<forall>b \<in> set new. b < bm_num_blocks bm \<and> table_refs bm b = 0 \<and> bm_ref_count bm b = 0 \<and> bm_ref_count bm' b = 1)"
  using bm_allocate_spec[OF assms] .

theorem bm_allocate_fresh_witness:
  "\<exists>bm bm' new. bm_pending bm [] \<and> bm_allocate ''r'' 3 bm = Inr (bm', new) \<and> length new = ceil_div 3 (bm_block_size bm)"
proof -
  have "case bm_new 4 2 of Inl _ \<Rightarrow> False | Inr bm \<Rightarrow> (case bm_allocate ''r'' 3 bm of Inl _ \<Rightarrow> False | Inr _ \<Rightarrow> True)"
    by code_simp
  then obtain bm bm' new where bm: "bm_new 4 2 = Inr bm" "bm_allocate ''r'' 3 bm = Inr (bm', new)"
    by (auto split: sum.splits)
  then have "bm_pending bm []" using bm_inv_new bm_inv_pending by blast
  with bm(2) bm_allocate_fresh[OF this bm(2)] show ?thesis by blast
qed

text \<open>\<open>ensure_blocks\<close> leaves the request with blocks for all its tokens, only appends to its
  table, touches no other request's table and keeps the pool consistent; freeing a request, too,
  keeps every reference held outside its table.\<close>

theorem bm_ensure_then_free:
  assumes "bm_pending bm ts" and "bm_ensure_blocks rid target bm = Inr bm'"
  shows "bm_pending bm' ts \<and> target \<le> length (table_of bm' rid) * bm_block_size bm \<and>
         (\<exists>new. table_of bm' rid = table_of bm rid @ new) \<and>
         (\<forall>r. r \<noteq> rid \<longrightarrow> bm_block_tables bm' r = bm_block_tables bm r) \<and>
         bm_pending (bm_free rid bm') ts"
  using bm_ensure_blocks_spec[OF assms] bm_free_pending by blast

theorem bm_ensure_then_free_witness:
  "\<exists>bm bm'. bm_pending bm [] \<and> bm_ensure_blocks ''r'' 5 bm = Inr bm' \<and> 5 \<le> length (table_of bm' ''r'') * bm_block_size bm"
proof -
  have "case bm_new 4 2 of Inl _ \<Rightarrow> False | Inr bm \<Rightarrow> (case bm_ensure_blocks ''r'' 5 bm of Inl _ \<Rightarrow> False | Inr _ \<Rightarrow> True)"
    by code_simp
  then obtain bm bm' where bm: "bm_new 4 2 = Inr bm" "bm_ensure_blocks ''r'' 5 bm = Inr bm'"
    by (auto split: sum.splits)
  then have "bm_pending bm []" using bm_inv_new bm_inv_pending by blast
  with bm(2) bm_ensure_then_free[OF this bm(2)] show ?thesis by blast
qed

end
