(* ===== verification/Radix_Cache.thy ===== *)
theory Radix_Cache
  imports Block_Manager "HOL-Library.Sublist"
begin

text \<open>
  The prefix cache, \<open>python_runtime/engine/cache/radix_cache.py\<close>: a radix tree over token
  sequences whose nodes carry the KV blocks of their tokens.  \<open>match_prefix\<close> walks the tree,
  \<open>insert\<close> splits nodes on a partial match and hangs a new leaf, \<open>evict\<close> removes nodes of
  reference count zero.  Python mutates the nodes in place; the model returns the new tree.  The
  block manager enters through the two operations the cache calls, \<open>increment_ref_count\<close> and
  \<open>free_block\<close>, and through its block size.
  The abstraction is the set of token sequences that are prefixes of a root-to-node path: an
  insertion adds exactly the prefixes of the new sequence to it, and a match returns the longest
  one.
\<close>


section \<open>The tree\<close>

datatype rnode = RNode (token_ids: "int list") (children: "(int, rnode) dict")
                       (kv_blocks: "nat list") (ref_count: int)

definition new_node :: "int list \<Rightarrow> rnode" where
  "new_node ts = RNode ts [] [] 0"

definition radix_init :: rnode where
  "radix_init = new_node []"

definition set_child :: "rnode \<Rightarrow> int \<Rightarrow> rnode \<Rightarrow> rnode" where
  "set_child n f c = RNode (token_ids n) (AList.update f c (children n)) (kv_blocks n) (ref_count n)"

fun common_prefix_len :: "int list \<Rightarrow> int list \<Rightarrow> nat" where
  "common_prefix_len (x # xs) (y # ys) = (if x \<noteq> y then 0 else Suc (common_prefix_len xs ys))"
| "common_prefix_len _ _ = 0"


section \<open>match_prefix\<close>

lemma child_size: "map_of cs f = Some c \<Longrightarrow> size c < Suc (size_list (size_prod (\<lambda>_. 0) size) cs)"
  by (induction cs) (auto split: if_splits)

function match_loop :: "nat \<Rightarrow> rnode \<Rightarrow> int list \<Rightarrow> nat list \<Rightarrow> nat \<Rightarrow> nat list \<times> nat" where
  "match_loop bs node remaining matched consumed =
     (case remaining of
        [] \<Rightarrow> (matched, consumed)
      | first # _ \<Rightarrow>
          (case map_of (children node) first of
             None \<Rightarrow> (matched, consumed)
           | Some child \<Rightarrow>
               let common = common_prefix_len remaining (token_ids child)
               in if common < length (token_ids child)
                  then (matched @ take (ceil_div common bs) (kv_blocks child), consumed + common)
                  else match_loop bs child (drop (length (token_ids child)) remaining)
                         (matched @ kv_blocks child) (consumed + length (token_ids child))))"
  by pat_completeness auto
termination
proof (relation "measure (\<lambda>(bs, node, _). size node)", goal_cases)
  case (2 bs node remaining matched consumed first rest child common)
  then show ?case by (cases node) (auto dest: child_size)
qed simp

declare match_loop.simps [simp del]

definition match_prefix :: "nat \<Rightarrow> rnode \<Rightarrow> int list \<Rightarrow> nat list \<times> nat" where
  "match_prefix bs root tokens = match_loop bs root tokens [] 0"


section \<open>insert\<close>

definition add_node :: "('bm \<Rightarrow> nat \<Rightarrow> 'bm) \<Rightarrow> 'bm \<Rightarrow> rnode \<Rightarrow> int list \<Rightarrow> nat list \<Rightarrow> rnode \<times> 'bm" where
  "add_node incr bm parent tokens blks =
     (set_child parent (hd tokens) (RNode tokens [] blks 1), foldl incr bm blks)"

text \<open>The interior node and the shortened child that replace a partially matched child.\<close>

definition split_node :: "nat \<Rightarrow> rnode \<Rightarrow> nat \<Rightarrow> rnode" where
  "split_node bs child common =
     (let n_shared = ceil_div common bs;
          rest = drop common (token_ids child);
          child' = RNode rest (children child) (drop n_shared (kv_blocks child)) (ref_count child)
      in RNode (take common (token_ids child)) [(hd rest, child')]
               (take n_shared (kv_blocks child)) (ref_count child))"

function insert_loop ::
  "('bm \<Rightarrow> nat \<Rightarrow> 'bm) \<Rightarrow> nat \<Rightarrow> 'bm \<Rightarrow> rnode \<Rightarrow> int list \<Rightarrow> nat list \<Rightarrow> nat \<Rightarrow> rnode \<times> 'bm" where
  "insert_loop incr bs bm node remaining blks off =
     (case remaining of
        [] \<Rightarrow> (node, bm)
      | first # _ \<Rightarrow>
          (case map_of (children node) first of
             None \<Rightarrow> add_node incr bm node remaining (drop off blks)
           | Some child \<Rightarrow>
               let common = common_prefix_len remaining (token_ids child)
               in if common = 0 then add_node incr bm node remaining (drop off blks)
                  else if common < length (token_ids child)
                  then (case insert_loop incr bs bm (split_node bs child common) (drop common remaining) blks off of
                          (n', bm') \<Rightarrow> (set_child node first n', bm'))
                  else (case insert_loop incr bs bm child (drop (length (token_ids child)) remaining) blks
                               (off + length (kv_blocks child)) of
                          (n', bm') \<Rightarrow> (set_child node first n', bm'))))"
  by pat_completeness auto
termination
proof (relation "measure (\<lambda>(incr, bs, bm, node, remaining, _). length remaining)", goal_cases)
  case (3 incr bs bm node remaining blks off first rest child common)
  then show ?case by (cases "token_ids child") auto
qed auto

declare insert_loop.simps [simp del]

definition radix_insert ::
  "('bm \<Rightarrow> nat \<Rightarrow> 'bm) \<Rightarrow> nat \<Rightarrow> 'bm \<Rightarrow> rnode \<Rightarrow> int list \<Rightarrow> nat list \<Rightarrow> rnode \<times> 'bm" where
  "radix_insert incr bs bm root tokens blks =
     (if tokens = [] then (root, bm) else insert_loop incr bs bm root tokens blks 0)"


section \<open>evict\<close>

text \<open>
  \<open>_dfs_evict\<close> returns its local count and updates the shared counter \<open>freed\<close>; \<open>None\<close> for
  the node means it has been deleted from its parent.
\<close>

fun dfs_evict :: "('bm \<Rightarrow> nat \<Rightarrow> 'bm) \<Rightarrow> int \<Rightarrow> rnode \<Rightarrow> nat \<Rightarrow> 'bm \<Rightarrow> rnode option \<times> nat \<times> nat \<times> 'bm"
and dfs_children :: "('bm \<Rightarrow> nat \<Rightarrow> 'bm) \<Rightarrow> int \<Rightarrow> (int, rnode) dict \<Rightarrow> nat \<Rightarrow> nat \<Rightarrow> 'bm
      \<Rightarrow> (int, rnode) dict \<times> nat \<times> nat \<times> 'bm" where
  "dfs_evict free1 target (RNode ts cs bl r) freed bm =
     (case dfs_children free1 target cs 0 freed bm of
        (cs', local, freed', bm') \<Rightarrow>
          if int local \<ge> target - int freed' then (Some (RNode ts cs' bl r), local, freed', bm')
          else if r = 0 then (None, local + length bl, freed' + length bl, foldl free1 bm' bl)
          else (Some (RNode ts cs' bl r), local, freed', bm'))"
| "dfs_children free1 target [] local freed bm = ([], local, freed, bm)"
| "dfs_children free1 target ((f, c) # cs) local freed bm =
     (case dfs_evict free1 target c freed bm of
        (c', l, freed', bm') \<Rightarrow>
          (case dfs_children free1 target cs (local + l) freed' bm' of
             (cs', local', freed'', bm'') \<Rightarrow>
               ((case c' of None \<Rightarrow> cs' | Some x \<Rightarrow> (f, x) # cs'), local', freed'', bm'')))"

fun evict_roots :: "('bm \<Rightarrow> nat \<Rightarrow> 'bm) \<Rightarrow> int \<Rightarrow> (int, rnode) dict \<Rightarrow> nat \<Rightarrow> 'bm
      \<Rightarrow> (int, rnode) dict \<times> nat \<times> 'bm" where
  "evict_roots free1 target [] freed bm = ([], freed, bm)"
| "evict_roots free1 target ((f, c) # cs) freed bm =
     (case dfs_evict free1 target c freed bm of
        (c', _, freed', bm') \<Rightarrow>
          let keep = (\<lambda>rest. case c' of None \<Rightarrow> rest | Some x \<Rightarrow> (f, x) # rest)
          in if int freed' \<ge> target then (keep cs, freed', bm')
             else (case evict_roots free1 target cs freed' bm' of
                     (cs', freed'', bm'') \<Rightarrow> (keep cs', freed'', bm'')))"

definition radix_evict :: "('bm \<Rightarrow> nat \<Rightarrow> 'bm) \<Rightarrow> rnode \<Rightarrow> int \<Rightarrow> 'bm \<Rightarrow> rnode \<times> nat \<times> 'bm" where
  "radix_evict free1 root target bm =
     (if target \<le> 0 then (root, 0, bm)
      else case evict_roots free1 target (children root) 0 bm of
             (cs', freed, bm') \<Rightarrow> (RNode (token_ids root) cs' (kv_blocks root) (ref_count root), freed, bm'))"


section \<open>Abstraction and well-formedness\<close>

inductive path :: "rnode \<Rightarrow> int list \<Rightarrow> bool" where
  path_here: "path n []"
| path_child: "map_of (children n) f = Some c \<Longrightarrow> path c p \<Longrightarrow> path n (token_ids c @ p)"

inductive_cases path_Cons_cases: "path n (x # xs)"

definition stored :: "rnode \<Rightarrow> int list set" where
  "stored n = {ys. \<exists>p. path n p \<and> prefix ys p}"

text \<open>Every child is filed under the first token of its non-empty token sequence.\<close>

inductive wf_node :: "rnode \<Rightarrow> bool" where
  wf_nodeI: "(\<And>f c. (f, c) \<in> set (children n) \<Longrightarrow> token_ids c \<noteq> [] \<and> hd (token_ids c) = f \<and> wf_node c)
    \<Longrightarrow> wf_node n"

lemma wf_node_entry:
  "wf_node n \<Longrightarrow> (f, c) \<in> set (children n) \<Longrightarrow> token_ids c \<noteq> [] \<and> hd (token_ids c) = f \<and> wf_node c"
  by (erule wf_node.cases) blast

lemma wf_node_child:
  assumes "wf_node n" and "map_of (children n) f = Some c"
  shows "wf_node c" and "\<exists>ts. token_ids c = f # ts"
  using assms by (auto elim!: wf_node.cases dest!: map_of_SomeD) (metis list.collapse)

lemma wf_radix_init: "wf_node radix_init"
  by (rule wf_nodeI) (simp add: radix_init_def new_node_def)

lemma stored_Nil [simp]: "[] \<in> stored n"
  by (auto simp: stored_def intro: path_here)

lemma stored_prefix_closed: "ys \<in> stored n \<Longrightarrow> prefix xs ys \<Longrightarrow> xs \<in> stored n"
  by (auto simp: stored_def intro: prefix_order.trans)

lemma stored_childless: "children n = [] \<Longrightarrow> stored n = {[]}"
  by (auto simp: stored_def elim: path.cases intro: path_here)

lemma prefix_append_iff:
  "prefix ys (ts @ p) \<longleftrightarrow> prefix ys ts \<or> (\<exists>zs. ys = ts @ zs \<and> prefix zs p)"
  by (auto simp: prefix_append)

text \<open>A stored sequence that starts with \<open>f\<close> runs through the child filed under \<open>f\<close>.\<close>

lemma stored_child:
  assumes "wf_node n" and "map_of (children n) f = Some c"
  shows "f # xs \<in> stored n \<longleftrightarrow>
         prefix (f # xs) (token_ids c) \<or> (\<exists>zs. f # xs = token_ids c @ zs \<and> zs \<in> stored c)"
proof
  assume "f # xs \<in> stored n"
  then obtain p where p: "path n p" "prefix (f # xs) p" by (auto simp: stored_def)
  from p(1) show "prefix (f # xs) (token_ids c) \<or> (\<exists>zs. f # xs = token_ids c @ zs \<and> zs \<in> stored c)"
  proof cases
    case path_here
    with p(2) show ?thesis by simp
  next
    case (path_child g c' q)
    obtain ts where "token_ids c' = g # ts" using wf_node_child(2)[OF assms(1) path_child(2)] by blast
    with p(2) path_child have "g = f" by simp
    with path_child assms(2) have "c' = c" by simp
    with p(2) path_child show ?thesis by (auto simp: prefix_append_iff stored_def)
  qed
next
  assume "prefix (f # xs) (token_ids c) \<or> (\<exists>zs. f # xs = token_ids c @ zs \<and> zs \<in> stored c)"
  then show "f # xs \<in> stored n"
  proof
    assume "prefix (f # xs) (token_ids c)"
    then show ?thesis using path_child[OF assms(2) path_here] by (auto simp: stored_def)
  next
    assume "\<exists>zs. f # xs = token_ids c @ zs \<and> zs \<in> stored c"
    then obtain zs q where "f # xs = token_ids c @ zs" "path c q" "prefix zs q" by (auto simp: stored_def)
    then show ?thesis using path_child[OF assms(2) \<open>path c q\<close>] by (auto simp: stored_def)
  qed
qed

lemma stored_no_child:
  assumes "wf_node n" and "map_of (children n) f = None"
  shows "f # xs \<notin> stored n"
proof
  assume "f # xs \<in> stored n"
  then obtain p where p: "path n p" "prefix (f # xs) p" by (auto simp: stored_def)
  from p(1) show False
  proof cases
    case path_here
    with p(2) show ?thesis by simp
  next
    case (path_child g c' q)
    obtain ts where "token_ids c' = g # ts" using wf_node_child(2)[OF assms(1) path_child(2)] by blast
    with p(2) path_child assms(2) show ?thesis by auto
  qed
qed


section \<open>Common prefixes\<close>

lemma common_prefix_len_le: "common_prefix_len xs ys \<le> length xs" "common_prefix_len xs ys \<le> length ys"
  by (induction xs ys rule: common_prefix_len.induct) auto

lemma common_prefix_len_take: "take (common_prefix_len xs ys) xs = take (common_prefix_len xs ys) ys"
  by (induction xs ys rule: common_prefix_len.induct) auto

lemma common_prefix_len_max: "prefix (take j xs) ys \<Longrightarrow> j \<le> length xs \<Longrightarrow> j \<le> common_prefix_len xs ys"
proof (induction xs ys arbitrary: j rule: common_prefix_len.induct)
  case (1 x xs y ys)
  then show ?case by (cases j) auto
qed auto

lemma common_prefix_len_Cons: "common_prefix_len (f # xs) (f # ys) = Suc (common_prefix_len xs ys)"
  by simp

lemma common_prefix_full:
  assumes "\<not> common_prefix_len xs ts < length ts"
  shows "xs = ts @ drop (length ts) xs"
proof -
  have "common_prefix_len xs ts = length ts" using assms common_prefix_len_le(2)[of xs ts] by simp
  then have "take (length ts) xs = ts" using common_prefix_len_take[of xs ts] by simp
  then show ?thesis by (metis append_take_drop_id)
qed


section \<open>Correctness of match_prefix\<close>

definition longest_stored :: "rnode \<Rightarrow> int list \<Rightarrow> nat \<Rightarrow> bool" where
  "longest_stored n xs k \<longleftrightarrow> k \<le> length xs \<and> take k xs \<in> stored n \<and>
     (\<forall>j. j \<le> length xs \<longrightarrow> take j xs \<in> stored n \<longrightarrow> j \<le> k)"

lemma longest_stored_Nil: "longest_stored n [] 0"
  by (simp add: longest_stored_def)

lemma longest_stored_no_child:
  assumes "wf_node n" and "map_of (children n) f = None"
  shows "longest_stored n (f # xs) 0"
  unfolding longest_stored_def
proof (intro conjI allI impI)
  fix j assume "j \<le> length (f # xs)" "take j (f # xs) \<in> stored n"
  then show "j \<le> 0" using stored_no_child[OF assms] by (cases j) auto
qed simp_all

lemma longest_stored_inside:
  assumes wf: "wf_node n" and c: "map_of (children n) f = Some c"
    and short: "common_prefix_len (f # xs) (token_ids c) < length (token_ids c)" (is "?k < _")
  shows "longest_stored n (f # xs) ?k"
  unfolding longest_stored_def
proof (intro conjI allI impI)
  show "?k \<le> length (f # xs)" by (rule common_prefix_len_le)
  obtain ts where ts: "token_ids c = f # ts" using wf_node_child(2)[OF wf c] by blast
  have "prefix (take ?k (f # xs)) (token_ids c)"
    unfolding common_prefix_len_take by (rule take_is_prefix)
  moreover obtain ys where "take ?k (f # xs) = f # ys" using ts by (simp add: common_prefix_len_Cons)
  ultimately show "take ?k (f # xs) \<in> stored n" using stored_child[OF wf c] by auto
next
  fix j assume j: "j \<le> length (f # xs)" "take j (f # xs) \<in> stored n"
  show "j \<le> ?k"
  proof (cases j)
    case (Suc i)
    with j(2) have "prefix (take j (f # xs)) (token_ids c) \<or> (\<exists>zs. take j (f # xs) = token_ids c @ zs)"
      using stored_child[OF wf c, of "take i xs"] by auto
    then show ?thesis
    proof
      assume "prefix (take j (f # xs)) (token_ids c)"
      then show ?thesis using j(1) by (rule common_prefix_len_max)
    next
      assume "\<exists>zs. take j (f # xs) = token_ids c @ zs"
      then obtain zs where zs: "take j (f # xs) = token_ids c @ zs" by blast
      let ?l = "length (token_ids c)"
      have "?l \<le> j" using zs j(1) by (metis length_append length_take le_add1 min.absorb2)
      then have "take ?l (f # xs) = token_ids c" using zs by (metis append_eq_conv_conj min.absorb1 take_take)
      then have "?l \<le> ?k" using j(1) \<open>?l \<le> j\<close> by (intro common_prefix_len_max) auto
      with short show ?thesis by simp
    qed
  qed simp
qed

lemma longest_stored_through:
  assumes wf: "wf_node n" and c: "map_of (children n) f = Some c"
    and full: "f # xs = token_ids c @ rest" and k: "longest_stored c rest k"
  shows "longest_stored n (f # xs) (length (token_ids c) + k)"
  unfolding longest_stored_def
proof (intro conjI allI impI)
  let ?l = "length (token_ids c)"
  show "?l + k \<le> length (f # xs)" using full k by (simp add: longest_stored_def)
  obtain ts where ts: "token_ids c = f # ts" using wf_node_child(2)[OF wf c] by blast
  have tk: "take (?l + j) (f # xs) = token_ids c @ take j rest" for j using full by simp
  have "take (?l + k) (f # xs) = f # ts @ take k rest" using tk[of k] ts by simp
  moreover have "take k rest \<in> stored c" using k by (simp add: longest_stored_def)
  ultimately show "take (?l + k) (f # xs) \<in> stored n" using stored_child[OF wf c] ts by auto
  fix j assume j: "j \<le> length (f # xs)" "take j (f # xs) \<in> stored n"
  show "j \<le> ?l + k"
  proof (cases "j \<le> ?l")
    case False
    then obtain i where i: "j = ?l + i" by (metis le_Suc_ex nat_le_linear)
    have tj: "take j (f # xs) = token_ids c @ take i rest" using tk i by simp
    have np: "\<not> prefix (token_ids c @ take i rest) (token_ids c)"
      using False i j(1) full by (auto dest: prefix_length_le)
    have "f # ts @ take i rest \<in> stored n" using j(2) tj ts by simp
    then have "take i rest \<in> stored c" using stored_child[OF wf c, of "ts @ take i rest"] np ts by auto
    moreover have "i \<le> length rest" using j(1) i full by (simp only: length_append)
    ultimately show ?thesis using k i by (simp add: longest_stored_def)
  qed simp
qed

lemma match_loop_longest:
  "wf_node n \<Longrightarrow> \<exists>k. snd (match_loop bs n xs m c) = c + k \<and> longest_stored n xs k"
proof (induction bs n xs m c rule: match_loop.induct)
  case (1 bs n xs m c)
  show ?case
  proof (cases xs)
    case Nil
    then show ?thesis by (simp add: match_loop.simps longest_stored_Nil)
  next
    case (Cons f ys)
    show ?thesis
    proof (cases "map_of (children n) f")
      case None
      with Cons show ?thesis using longest_stored_no_child[OF "1.prems" None, of ys]
        by (simp add: match_loop.simps)
    next
      case (Some ch)
      show ?thesis
      proof (cases "common_prefix_len xs (token_ids ch) < length (token_ids ch)")
        case True
        with Cons Some show ?thesis using longest_stored_inside[OF "1.prems" Some, of ys]
          by (auto simp: match_loop.simps Let_def)
      next
        case False
        let ?l = "length (token_ids ch)"
        have rec: "match_loop bs n xs m c = match_loop bs ch (drop ?l xs) (m @ kv_blocks ch) (c + ?l)"
          using Cons Some False by (subst match_loop.simps) (simp add: Let_def)
        obtain k where "snd (match_loop bs ch (drop ?l xs) (m @ kv_blocks ch) (c + ?l)) = c + ?l + k"
            "longest_stored ch (drop ?l xs) k"
          using "1.IH"[OF Cons Some refl False] wf_node_child(1)[OF "1.prems" Some] by auto
        then show ?thesis
          using longest_stored_through[OF "1.prems" Some, of ys "drop ?l xs" k] common_prefix_full[OF False] Cons rec
          by auto
      qed
    qed
  qed
qed

lemma match_prefix_longest:
  assumes "wf_node n"
  shows "longest_stored n xs (snd (match_prefix bs n xs))"
  using match_loop_longest[OF assms, of bs xs "[]" 0] by (auto simp: match_prefix_def)


section \<open>Correctness of insert\<close>

text \<open>The sequences that run into a node, and those of a parent that avoid a key.\<close>

definition through :: "rnode \<Rightarrow> int list set" where
  "through c = {ys. prefix ys (token_ids c) \<or> (\<exists>zs. ys = token_ids c @ zs \<and> zs \<in> stored c)}"

definition avoiding :: "int \<Rightarrow> int list set \<Rightarrow> int list set" where
  "avoiding f S = {ys \<in> S. ys = [] \<or> hd ys \<noteq> f}"

lemma through_hd: "token_ids c = f # ts \<Longrightarrow> ys \<in> through c \<Longrightarrow> ys = [] \<or> hd ys = f"
  by (cases ys) (auto simp: through_def)

lemma set_child_simps [simp]:
  "token_ids (set_child n f c) = token_ids n" "kv_blocks (set_child n f c) = kv_blocks n"
  "ref_count (set_child n f c) = ref_count n" "children (set_child n f c) = AList.update f c (children n)"
  by (simp_all add: set_child_def)

lemma entry_update_cases: "e \<in> set (AList.update f c cs) \<Longrightarrow> e = (f, c) \<or> e \<in> set cs"
  by (induction cs) (auto split: if_splits)

lemma wf_set_child:
  assumes "wf_node n" and "wf_node c" and "token_ids c = f # ts"
  shows "wf_node (set_child n f c)"
proof (rule wf_nodeI)
  fix g d assume "(g, d) \<in> set (children (set_child n f c))"
  then have "(g, d) = (f, c) \<or> (g, d) \<in> set (children n)" by (auto dest: entry_update_cases)
  then show "token_ids d \<noteq> [] \<and> hd (token_ids d) = g \<and> wf_node d"
    using assms(2,3) wf_node_entry[OF assms(1)] by auto
qed

lemma stored_as_child:
  assumes "wf_node n" and "map_of (children n) f = Some c"
  shows "stored n = avoiding f (stored n) \<union> through c"
proof (rule set_eqI)
  fix ys
  obtain ts where ts: "token_ids c = f # ts" using wf_node_child(2)[OF assms] by blast
  show "ys \<in> stored n \<longleftrightarrow> ys \<in> avoiding f (stored n) \<union> through c"
  proof (cases ys)
    case (Cons g xs)
    then show ?thesis
      using stored_child[OF assms, of xs] through_hd[OF ts, of ys]
      by (cases "g = f") (auto simp: avoiding_def through_def)
  qed (simp add: avoiding_def)
qed

lemma stored_avoiding_set_child:
  assumes "wf_node n" and "wf_node (set_child n f c)" and "g \<noteq> f"
  shows "g # xs \<in> stored (set_child n f c) \<longleftrightarrow> g # xs \<in> stored n"
proof (cases "map_of (children n) g")
  case None
  then show ?thesis
    using stored_no_child[OF assms(1) None] stored_no_child[OF assms(2), of g xs] assms(3) by simp
next
  case (Some d)
  then show ?thesis
    using stored_child[OF assms(1) Some] stored_child[OF assms(2), of g d xs] assms(3) by simp
qed

lemma stored_set_child:
  assumes "wf_node n" and "wf_node c" and "token_ids c = f # ts"
  shows "stored (set_child n f c) = avoiding f (stored n) \<union> through c"
proof -
  have wf: "wf_node (set_child n f c)" using assms by (rule wf_set_child)
  have "avoiding f (stored (set_child n f c)) = avoiding f (stored n)"
  proof (rule set_eqI)
    fix ys show "ys \<in> avoiding f (stored (set_child n f c)) \<longleftrightarrow> ys \<in> avoiding f (stored n)"
      using stored_avoiding_set_child[OF assms(1) wf] by (cases ys) (auto simp: avoiding_def)
  qed
  then show ?thesis using stored_as_child[OF wf, of f c] by simp
qed

lemma through_leaf: "children c = [] \<Longrightarrow> through c = {ys. prefix ys (token_ids c)}"
  by (auto simp: through_def stored_childless)

lemma through_extend:
  assumes "token_ids c' = token_ids c" and "stored c' = stored c \<union> {ys. prefix ys r}"
  shows "through c' = through c \<union> {ys. prefix ys (token_ids c @ r)}"
  using assms by (auto simp: through_def prefix_append_iff)

lemma split_node_sel [simp]:
  "token_ids (split_node bs c k) = take k (token_ids c)"
  "children (split_node bs c k) = [(hd (drop k (token_ids c)),
     RNode (drop k (token_ids c)) (children c) (drop (ceil_div k bs) (kv_blocks c)) (ref_count c))]"
  by (simp_all add: split_node_def Let_def)

lemma wf_node_children_cong:
  "children n = children m \<Longrightarrow> wf_node n \<Longrightarrow> wf_node m"
  by (rule wf_nodeI) (metis wf_node.cases)

lemma path_children_cong: "path n p \<Longrightarrow> children n = children m \<Longrightarrow> path m p"
  by (induction rule: path.induct) (auto intro: path.intros)

lemma stored_children_cong: "children n = children m \<Longrightarrow> stored n = stored m"
  unfolding stored_def using path_children_cong[of n] path_children_cong[of m] by metis

lemma wf_split_node:
  assumes "wf_node c" and "k < length (token_ids c)"
  shows "wf_node (split_node bs c k)"
proof (rule wf_nodeI)
  fix f d assume "(f, d) \<in> set (children (split_node bs c k))"
  then show "token_ids d \<noteq> [] \<and> hd (token_ids d) = f \<and> wf_node d"
    using assms wf_node_children_cong[of c d] by (auto split: if_splits)
qed

lemma through_split_node:
  assumes "wf_node c" and "k < length (token_ids c)"
  shows "through (split_node bs c k) = through c"
proof -
  let ?s = "split_node bs c k" let ?d = "snd (hd (children ?s))" let ?f = "fst (hd (children ?s))"
  have map: "map_of (children ?s) ?f = Some ?d" by simp
  have other: "avoiding ?f (stored ?s) = {[]}"
  proof -
    have "ys = []" if "ys \<in> avoiding ?f (stored ?s)" for ys
      using that stored_no_child[OF wf_split_node[OF assms], of bs "hd ys" "tl ys"]
      by (cases ys) (auto simp: avoiding_def)
    then show ?thesis by (auto simp: avoiding_def)
  qed
  have st: "stored ?s = through ?d"
    using stored_as_child[OF wf_split_node[OF assms] map] other by (auto simp: through_def)
  have sd: "stored ?d = stored c" by (rule stored_children_cong) simp
  have "ys \<in> through ?s \<longleftrightarrow> ys \<in> through c" for ys
  proof -
    have "ys \<in> through ?s \<longleftrightarrow> prefix ys (take k (token_ids c)) \<or>
        (\<exists>zs. ys = take k (token_ids c) @ zs \<and>
          (prefix zs (drop k (token_ids c)) \<or> (\<exists>us. zs = drop k (token_ids c) @ us \<and> us \<in> stored c)))"
      unfolding through_def[of ?s] st through_def[of ?d] sd by simp
    also have "\<dots> \<longleftrightarrow> prefix ys (take k (token_ids c) @ drop k (token_ids c)) \<or>
        (\<exists>us. ys = (take k (token_ids c) @ drop k (token_ids c)) @ us \<and> us \<in> stored c)"
      unfolding prefix_append_iff[of ys "take k (token_ids c)"] append_assoc by blast
    finally show ?thesis by (simp add: through_def)
  qed
  then show ?thesis by blast
qed

text \<open>Hanging a new leaf, and one round of the insertion loop, on the abstraction.\<close>

lemma add_node_spec:
  assumes "wf_node n" and "map_of (children n) f = None"
  shows "wf_node (fst (add_node incr bm n (f # xs) bl))"
    and "stored (fst (add_node incr bm n (f # xs) bl)) = stored n \<union> {ys. prefix ys (f # xs)}"
proof -
  let ?leaf = "RNode (f # xs) [] bl 1"
  have leaf: "wf_node ?leaf" by (rule wf_nodeI) simp
  show "wf_node (fst (add_node incr bm n (f # xs) bl))"
    using wf_set_child[OF assms(1) leaf] by (simp add: add_node_def)
  have "avoiding f (stored n) = stored n"
    using stored_no_child[OF assms] by (auto simp: avoiding_def) (metis list.collapse)
  then show "stored (fst (add_node incr bm n (f # xs) bl)) = stored n \<union> {ys. prefix ys (f # xs)}"
    using stored_set_child[OF assms(1) leaf] by (simp add: add_node_def through_leaf)
qed

lemma replace_child_spec:
  assumes "wf_node n" and "map_of (children n) f = Some c"
    and "wf_node d" and "token_ids d = f # ts" and "through d = through c \<union> {ys. prefix ys xs}"
  shows "wf_node (set_child n f d)" and "stored (set_child n f d) = stored n \<union> {ys. prefix ys xs}"
  using wf_set_child[OF assms(1,3,4)] stored_set_child[OF assms(1,3,4)] stored_as_child[OF assms(1,2)] assms(5)
  by auto

lemma common_prefix_split:
  "xs = take (common_prefix_len xs ys) ys @ drop (common_prefix_len xs ys) xs"
  unfolding common_prefix_len_take[symmetric] by simp

lemma insert_loop_spec:
  "wf_node n \<Longrightarrow> insert_loop incr bs bm n xs blks off = (n', bm') \<Longrightarrow>
     wf_node n' \<and> token_ids n' = token_ids n \<and> stored n' = stored n \<union> {ys. prefix ys xs}"
proof (induction incr bs bm n xs blks off arbitrary: n' bm' rule: insert_loop.induct)
  case (1 incr bs bm n xs blks off)
  show ?case
  proof (cases xs)
    case Nil
    with "1.prems" have "n' = n" by (simp add: insert_loop.simps)
    with Nil "1.prems"(1) show ?thesis by (auto simp: insert_absorb)
  next
    case (Cons f ys)
    show ?thesis
    proof (cases "map_of (children n) f")
      case None
      then have "(n', bm') = add_node incr bm n (f # ys) (drop off blks)"
        using Cons "1.prems"(2) by (simp add: insert_loop.simps)
      with add_node_spec[OF "1.prems"(1) None, of incr bm ys "drop off blks"] Cons
      show ?thesis by (metis add_node_def fst_conv set_child_simps(1))
    next
      case (Some c)
      let ?k = "common_prefix_len xs (token_ids c)"
      have wfc: "wf_node c" using wf_node_child[OF "1.prems"(1) Some] by simp
      obtain ts where ts: "token_ids c = f # ts" using wf_node_child[OF "1.prems"(1) Some] by blast
      have k: "?k \<noteq> 0" using ts Cons by simp
      show ?thesis
      proof (cases "?k < length (token_ids c)")
        case True
        let ?s = "split_node bs c ?k"
        obtain d bm1 where d: "insert_loop incr bs bm ?s (drop ?k xs) blks off = (d, bm1)" by fastforce
        have n': "n' = set_child n f d"
          using "1.prems"(2) Cons Some True k d by (subst (asm) insert_loop.simps) (simp add: Let_def)
        have ih: "wf_node d" "token_ids d = token_ids ?s" "stored d = stored ?s \<union> {ys. prefix ys (drop ?k xs)}"
          using "1.IH"(1)[OF Cons Some refl k True wf_split_node[OF wfc True] d] by auto
        have "through d = through c \<union> {ys. prefix ys xs}"
          using through_extend[OF ih(2,3)] through_split_node[OF wfc True] common_prefix_split[of xs "token_ids c"]
          by simp
        moreover obtain us where "token_ids d = f # us"
          using ih(2) ts k by (cases ?k) auto
        ultimately show ?thesis using replace_child_spec[OF "1.prems"(1) Some ih(1)] n' by simp
      next
        case False
        let ?r = "drop (length (token_ids c)) xs"
        obtain d bm1 where d: "insert_loop incr bs bm c ?r blks (off + length (kv_blocks c)) = (d, bm1)" by fastforce
        have n': "n' = set_child n f d"
          using "1.prems"(2) Cons Some False k d by (subst (asm) insert_loop.simps) (simp add: Let_def)
        have ih: "wf_node d" "token_ids d = token_ids c" "stored d = stored c \<union> {ys. prefix ys ?r}"
          using "1.IH"(2)[OF Cons Some refl k False wfc d] by auto
        have "through d = through c \<union> {ys. prefix ys xs}"
          using through_extend[OF ih(2,3)] common_prefix_full[OF False] by simp
        then show ?thesis using replace_child_spec[OF "1.prems"(1) Some ih(1)] n' ih(2) ts by simp
      qed
    qed
  qed
qed

lemma radix_insert_spec:
  assumes "wf_node n" and "radix_insert incr bs bm n xs blks = (n', bm')"
  shows "wf_node n'" and "stored n' = stored n \<union> {ys. prefix ys xs}"
  using assms insert_loop_spec[OF assms(1), of incr bs bm xs blks 0 n' bm']
  by (auto simp: radix_insert_def split: if_splits)


section \<open>The blocks the tree holds\<close>

fun tree_blocks :: "rnode \<Rightarrow> nat multiset" where
  "tree_blocks (RNode ts cs bl r) = mset bl + sum_list (map (\<lambda>e. tree_blocks (snd e)) cs)"

abbreviation dict_blocks :: "(int, rnode) dict \<Rightarrow> nat multiset" where
  "dict_blocks cs \<equiv> sum_list (map (\<lambda>e. tree_blocks (snd e)) cs)"

lemma tree_blocks_sel: "tree_blocks n = mset (kv_blocks n) + dict_blocks (children n)"
  by (cases n) simp

lemma dict_blocks_update:
  "dict_blocks (AList.update f d cs) + (case map_of cs f of None \<Rightarrow> {#} | Some c \<Rightarrow> tree_blocks c)
     = dict_blocks cs + tree_blocks d"
  by (induction cs) (auto simp: ac_simps split: option.splits)

lemma tree_blocks_set_child:
  "tree_blocks (set_child n f d) + (case map_of (children n) f of None \<Rightarrow> {#} | Some c \<Rightarrow> tree_blocks c)
     = tree_blocks n + tree_blocks d"
  using dict_blocks_update[of f d "children n"]
  unfolding tree_blocks_sel[of n] tree_blocks_sel[of "set_child n f d"] by (simp add: add.assoc)

lemma tree_blocks_replace_child:
  assumes "map_of (children n) f = Some c" and "tree_blocks d = tree_blocks c + new"
  shows "tree_blocks (set_child n f d) = tree_blocks n + new"
  using tree_blocks_set_child[of n f d] assms by (simp add: union_assoc[symmetric] union_commute[of "tree_blocks c"])

lemma tree_blocks_new_child:
  "map_of (children n) f = None \<Longrightarrow> tree_blocks (set_child n f d) = tree_blocks n + tree_blocks d"
  using tree_blocks_set_child[of n f d] by simp

lemma tree_blocks_split: "tree_blocks (split_node bs c k) = tree_blocks c"
proof -
  have "mset (take m (kv_blocks c)) + mset (drop m (kv_blocks c)) = mset (kv_blocks c)" for m
    by (metis append_take_drop_id mset_append)
  then show ?thesis unfolding split_node_def Let_def tree_blocks_sel[of c]
    by (simp flip: add.assoc)
qed

text \<open>
  The contract of a pool whose references are partly owned by a cache: \<open>pinned m T\<close> says that
  the pool is consistent and that \<open>T\<close> is covered by its reference counts on top of its own uses.
\<close>

locale cache_pool = ref_pool incr free1 rc for incr :: "'bm \<Rightarrow> nat \<Rightarrow> 'bm" and free1 and rc +
  fixes pinned :: "'bm \<Rightarrow> nat multiset \<Rightarrow> bool"
  assumes pinned_incr: "pinned m T \<Longrightarrow> 0 < rc m b \<Longrightarrow> pinned (incr m b) (add_mset b T)"
    and pinned_free1: "pinned m (add_mset b T) \<Longrightarrow> pinned (free1 m b) T"
    and pinned_live: "pinned m (add_mset b T) \<Longrightarrow> 0 < rc m b"
    and pinned_weaken: "pinned m (S + T) \<Longrightarrow> pinned m T"
begin

lemma pinned_incr_all:
  "pinned m T \<Longrightarrow> \<forall>b \<in> set bl. 0 < rc m b \<Longrightarrow> pinned (foldl incr m bl) (T + mset bl)"
proof (induction bl arbitrary: m T)
  case (Cons b bl)
  then have "\<forall>x \<in> set bl. 0 < rc (incr m b) x" by (auto simp: rc_incr)
  with Cons.IH[of "incr m b" "add_mset b T"] Cons.prems show ?case by (simp add: pinned_incr)
qed simp

lemma pinned_free_all: "pinned m (T + mset bl) \<Longrightarrow> pinned (foldl free1 m bl) T"
  by (induction bl arbitrary: m) (auto dest: pinned_free1)

text \<open>An insertion takes one reference for each block of the leaf it adds, and no other.\<close>

lemma insert_loop_blocks:
  "wf_node n \<Longrightarrow> \<forall>b \<in> set blks. 0 < rc m b \<Longrightarrow> insert_loop incr bs m n xs blks off = (n', m') \<Longrightarrow>
     \<exists>k. tree_blocks n' = tree_blocks n + mset (drop k blks) \<and> m' = foldl incr m (drop k blks)"
proof (induction incr bs m n xs blks off arbitrary: n' m' rule: insert_loop.induct)
  case (1 incr bs m n xs blks off)
  show ?case
  proof (cases xs)
    case Nil
    with "1.prems" show ?thesis by (auto simp: insert_loop.simps intro!: exI[of _ "length blks"])
  next
    case (Cons f ys)
    show ?thesis
    proof (cases "map_of (children n) f")
      case None
      with Cons "1.prems"(3) show ?thesis
        by (auto simp: insert_loop.simps add_node_def tree_blocks_new_child intro!: exI[of _ off])
    next
      case (Some c)
      let ?k = "common_prefix_len xs (token_ids c)"
      have wfc: "wf_node c" using wf_node_child[OF "1.prems"(1) Some] by simp
      have k: "?k \<noteq> 0" using wf_node_child(2)[OF "1.prems"(1) Some] Cons by auto
      show ?thesis
      proof (cases "?k < length (token_ids c)")
        case True
        obtain d m1 where d: "insert_loop incr bs m (split_node bs c ?k) (drop ?k xs) blks off = (d, m1)" by fastforce
        have n': "n' = set_child n f d" "m' = m1"
          using "1.prems"(3) Cons Some True k d by (simp_all add: insert_loop.simps[of _ _ _ n] Let_def)
        show ?thesis
          using "1.IH"(1)[OF Cons Some refl k True wf_split_node[OF wfc True] "1.prems"(2) d] n'
            tree_blocks_replace_child[OF Some] by (auto simp: tree_blocks_split)
      next
        case False
        obtain d m1 where d: "insert_loop incr bs m c (drop (length (token_ids c)) xs) blks
            (off + length (kv_blocks c)) = (d, m1)" by fastforce
        have n': "n' = set_child n f d" "m' = m1"
          using "1.prems"(3) Cons Some False k d by (simp_all add: insert_loop.simps[of _ _ _ n] Let_def)
        show ?thesis
          using "1.IH"(2)[OF Cons Some refl k False wfc "1.prems"(2) d] n' tree_blocks_replace_child[OF Some] by auto
      qed
    qed
  qed
qed

lemma radix_insert_pinned:
  assumes "wf_node n" and "\<forall>b \<in> set blks. 0 < rc m b" and "radix_insert incr bs m n xs blks = (n', m')"
    and "pinned m (T + tree_blocks n)"
  shows "pinned m' (T + tree_blocks n')"
proof (cases "xs = []")
  case False
  with assms(3) have "insert_loop incr bs m n xs blks 0 = (n', m')" by (simp add: radix_insert_def)
  from insert_loop_blocks[OF assms(1,2) this] obtain k where k:
    "tree_blocks n' = tree_blocks n + mset (drop k blks)" "m' = foldl incr m (drop k blks)" by blast
  have "\<forall>b \<in> set (drop k blks). 0 < rc m b" using assms(2) by (meson in_set_dropD)
  with k show ?thesis using pinned_incr_all[OF assms(4)] by (simp add: add.assoc)
qed (use assms in \<open>simp add: radix_insert_def\<close>)

text \<open>Eviction gives back one reference for each block it counts as freed.\<close>

lemma dfs_evict_pinned:
  "g = free1 \<Longrightarrow> pinned m (T + tree_blocks c) \<Longrightarrow> dfs_evict g t c fr m = (c', l, fr', m') \<Longrightarrow>
     pinned m' (T + (case c' of None \<Rightarrow> {#} | Some x \<Rightarrow> tree_blocks x)) \<and> fr' = fr + l"
  "g = free1 \<Longrightarrow> pinned m (T + dict_blocks cs) \<Longrightarrow> dfs_children g t cs l0 fr m = (cs', l, fr', m') \<Longrightarrow>
     pinned m' (T + dict_blocks cs') \<and> fr' + l0 = fr + l"
proof (induction g t c fr m and g t cs l0 fr m arbitrary: T c' l fr' m' and T cs' l fr' m'
    rule: dfs_evict_dfs_children.induct)
  case (1 g t ts cs bl r fr m)
  obtain cs1 l1 fr1 m1 where ch: "dfs_children g t cs 0 fr m = (cs1, l1, fr1, m1)" by (cases "dfs_children g t cs 0 fr m")
  have "pinned m ((T + mset bl) + dict_blocks cs)" using "1.prems"(2) by (simp add: add.assoc)
  from "1.IH"[OF "1.prems"(1) this ch] have p: "pinned m1 ((T + mset bl) + dict_blocks cs1)" and fr1: "fr1 = fr + l1" by auto
  have q: "pinned m1 (T + mset bl)" using p pinned_weaken[of m1 "dict_blocks cs1"] by (simp add: add.commute)
  show ?case
    using "1.prems"(1,3) ch p fr1 pinned_free_all[OF q]
    by (auto simp: add.assoc split: if_splits)
next
  case (3 g t f c cs l0 fr m)
  obtain c1 l1 fr1 m1 where c1: "dfs_evict g t c fr m = (c1, l1, fr1, m1)" by (cases "dfs_evict g t c fr m")
  obtain cs2 l2 fr2 m2 where cs2: "dfs_children g t cs (l0 + l1) fr1 m1 = (cs2, l2, fr2, m2)"
    by (cases "dfs_children g t cs (l0 + l1) fr1 m1")
  let ?b = "case c1 of None \<Rightarrow> {#} | Some x \<Rightarrow> tree_blocks x"
  have "pinned m ((T + dict_blocks cs) + tree_blocks c)" using "3.prems"(2) by (simp add: ac_simps)
  from "3.IH"(1)[OF "3.prems"(1) this c1] have p1: "pinned m1 ((T + ?b) + dict_blocks cs)" and fr1: "fr1 = fr + l1"
    by (auto simp: ac_simps)
  from "3.IH"(2)[OF c1[symmetric] refl refl "3.prems"(1) p1 cs2]
  have "pinned m2 ((T + ?b) + dict_blocks cs2)" "fr2 + (l0 + l1) = fr1 + l2" by auto
  with "3.prems"(3) c1 cs2 fr1 show ?case by (auto simp: ac_simps split: option.splits)
qed auto

lemma evict_roots_pinned:
  "pinned m (T + dict_blocks cs) \<Longrightarrow> evict_roots free1 t cs fr m = (cs', fr', m') \<Longrightarrow> pinned m' (T + dict_blocks cs')"
proof (induction cs arbitrary: T fr m cs' fr' m')
  case (Cons e cs)
  obtain f c where e: "e = (f, c)" by (cases e)
  obtain c1 l1 fr1 m1 where c1: "dfs_evict free1 t c fr m = (c1, l1, fr1, m1)" by (cases "dfs_evict free1 t c fr m")
  let ?b = "case c1 of None \<Rightarrow> {#} | Some x \<Rightarrow> tree_blocks x"
  have "pinned m ((T + dict_blocks cs) + tree_blocks c)" using Cons.prems(1) e by (simp add: ac_simps)
  from dfs_evict_pinned(1)[OF refl this c1] have p1: "pinned m1 ((T + ?b) + dict_blocks cs)" by (simp add: ac_simps)
  obtain cs2 fr2 m2 where cs2: "evict_roots free1 t cs fr1 m1 = (cs2, fr2, m2)" by (cases "evict_roots free1 t cs fr1 m1")
  show ?case
    using Cons.prems(2) e c1 cs2 p1 Cons.IH[OF p1 cs2]
    by (auto simp: Let_def ac_simps split: option.splits if_splits)
qed auto

lemma radix_evict_pinned:
  assumes "pinned m (T + tree_blocks n)" and "radix_evict free1 n t m = (n', k, m')"
  shows "pinned m' (T + tree_blocks n')"
proof (cases "t \<le> 0")
  case False
  obtain cs fr m1 where ev: "evict_roots free1 t (children n) 0 m = (cs, fr, m1)"
    by (cases "evict_roots free1 t (children n) 0 m")
  have "pinned m ((T + mset (kv_blocks n)) + dict_blocks (children n))"
    using assms(1) tree_blocks_sel[of n] by (simp add: add.assoc)
  from evict_roots_pinned[OF this ev] show ?thesis
    using assms(2) False ev by (auto simp: radix_evict_def add.assoc)
qed (use assms in \<open>simp add: radix_evict_def\<close>)

end

text \<open>The block manager keeps that contract.\<close>

definition bm_pinned :: "block_manager \<Rightarrow> nat multiset \<Rightarrow> bool" where
  "bm_pinned bm T \<longleftrightarrow> bm_inv bm \<and> (\<forall>b. table_refs bm b + count T b \<le> bm_ref_count bm b)"

lemma bm_pinned_mset: "bm_pinned bm (mset ts) \<longleftrightarrow> bm_pending bm ts"
  using bm_pending_inv[of bm ts] by (auto simp: bm_pinned_def bm_pending_def bm_inv_def count_mset)

lemma bm_pinned_ex: "bm_pinned bm T \<longleftrightarrow> (\<exists>ts. mset ts = T \<and> bm_pending bm ts)"
  using bm_pinned_mset by (metis ex_mset)

interpretation kv_pool: cache_pool bm_increment_ref_count bm_free_block bm_ref_count bm_pinned
proof
  fix m :: block_manager and T S :: "nat multiset" and b :: nat
  obtain ts where ts: "mset ts = T" using ex_mset by blast
  show "bm_pinned (bm_increment_ref_count m b) (add_mset b T)" if "bm_pinned m T" "0 < bm_ref_count m b"
    using bm_increment_pending[of m ts b] that bm_pinned_mset[of _ ts] bm_pinned_mset[of _ "ts @ [b]"] ts by simp
  show "bm_pinned (bm_free_block m b) T" if "bm_pinned m (add_mset b T)"
    using bm_free_block_pending[of m b ts] that bm_pinned_mset[of _ ts] bm_pinned_mset[of _ "b # ts"] ts by simp
  show "0 < bm_ref_count m b" if "bm_pinned m (add_mset b T)"
    using bm_pending_pos[of m b ts] that bm_pinned_mset[of _ "b # ts"] ts by simp
  show "bm_pinned m T" if "bm_pinned m (S + T)"
    using that unfolding bm_pinned_def by (auto intro: order_trans[rotated])
qed


section \<open>Eviction of a tree whose nodes are all referenced\<close>

fun all_referenced :: "rnode \<Rightarrow> bool" where
  "all_referenced (RNode ts cs bl r) = list_all (\<lambda>e. ref_count (snd e) \<noteq> 0 \<and> all_referenced (snd e)) cs"

lemma all_referenced_sel:
  "all_referenced n \<longleftrightarrow> (\<forall>e \<in> set (children n). ref_count (snd e) \<noteq> 0 \<and> all_referenced (snd e))"
  by (cases n) (simp add: list_all_iff)

lemma all_referenced_child:
  "all_referenced n \<Longrightarrow> map_of (children n) f = Some c \<Longrightarrow> ref_count c \<noteq> 0 \<and> all_referenced c"
  using all_referenced_sel[of n] map_of_SomeD[of "children n" f c] by fastforce

lemma all_referenced_set_child:
  "all_referenced n \<Longrightarrow> ref_count c \<noteq> 0 \<Longrightarrow> all_referenced c \<Longrightarrow> all_referenced (set_child n f c)"
  using all_referenced_sel[of n] all_referenced_sel[of "set_child n f c"] by (auto dest: entry_update_cases)

lemma all_referenced_split:
  "ref_count c \<noteq> 0 \<Longrightarrow> all_referenced c \<Longrightarrow> all_referenced (split_node bs c k) \<and> ref_count (split_node bs c k) \<noteq> 0"
  by (cases c) (simp add: split_node_def Let_def)

lemma insert_loop_referenced:
  "all_referenced n \<Longrightarrow> insert_loop incr bs m n xs blks off = (n', m') \<Longrightarrow>
     all_referenced n' \<and> ref_count n' = ref_count n"
proof (induction incr bs m n xs blks off arbitrary: n' m' rule: insert_loop.induct)
  case (1 incr bs m n xs blks off)
  have leaf: "all_referenced n' \<and> ref_count n' = ref_count n"
    if "add_node incr m n ys bl = (n', m')" for ys bl
    using that "1.prems"(1) by (auto simp: add_node_def intro!: all_referenced_set_child)
  show ?case
  proof (cases xs)
    case Nil
    with "1.prems" show ?thesis by (simp add: insert_loop.simps)
  next
    case (Cons f ys)
    show ?thesis
    proof (cases "map_of (children n) f")
      case None
      with Cons "1.prems"(2) leaf show ?thesis by (simp add: insert_loop.simps)
    next
      case (Some c)
      let ?k = "common_prefix_len xs (token_ids c)" and ?l = "length (token_ids c)"
      note rc = all_referenced_child[OF "1.prems"(1) Some]
      consider "?k = 0" | "?k \<noteq> 0" "?k < ?l" | "?k \<noteq> 0" "\<not> ?k < ?l" by blast
      then show ?thesis
      proof cases
        case 1
        then have "insert_loop incr bs m n xs blks off = add_node incr m n xs (drop off blks)"
          using Cons Some by (simp add: insert_loop.simps[of _ _ _ n] Let_def)
        then show ?thesis using leaf "1.prems"(2) by simp
      next
        case 2
        obtain d m1 where d: "insert_loop incr bs m (split_node bs c ?k) (drop ?k xs) blks off = (d, m1)" by fastforce
        have "n' = set_child n f d" using "1.prems"(2) Cons Some 2 d by (simp add: insert_loop.simps[of _ _ _ n] Let_def)
        then show ?thesis
          using "1.IH"(1)[OF Cons Some refl 2 _ d] rc all_referenced_split[of c] all_referenced_set_child[OF "1.prems"(1)]
          by simp
      next
        case 3
        obtain d m1 where d: "insert_loop incr bs m c (drop ?l xs) blks (off + length (kv_blocks c)) = (d, m1)" by fastforce
        have "n' = set_child n f d" using "1.prems"(2) Cons Some 3 d by (simp add: insert_loop.simps[of _ _ _ n] Let_def)
        then show ?thesis
          using "1.IH"(2)[OF Cons Some refl 3 _ d] rc all_referenced_set_child[OF "1.prems"(1)] by simp
      qed
    qed
  qed
qed

lemma dfs_evict_referenced:
  "ref_count c \<noteq> 0 \<Longrightarrow> all_referenced c \<Longrightarrow> dfs_evict free1 t c fr m = (Some c, 0, fr, m)"
  "\<forall>e \<in> set cs. ref_count (snd e) \<noteq> 0 \<and> all_referenced (snd e) \<Longrightarrow>
     dfs_children free1 t cs l0 fr m = (cs, l0, fr, m)"
  by (induction free1 t c fr m and free1 t cs l0 fr m rule: dfs_evict_dfs_children.induct)
     (auto simp: list_all_iff)

lemma evict_roots_referenced:
  "\<forall>e \<in> set cs. ref_count (snd e) \<noteq> 0 \<and> all_referenced (snd e) \<Longrightarrow> evict_roots free1 t cs fr m = (cs, fr, m)"
  by (induction cs) (auto simp: dfs_evict_referenced)

lemma radix_evict_referenced: "all_referenced n \<Longrightarrow> radix_evict free1 n t m = (n, 0, m)"
  using all_referenced_sel[of n] by (simp add: radix_evict_def evict_roots_referenced)


section \<open>The cache and the pool together\<close>

lemma tree_blocks_child: "map_of (children n) f = Some c \<Longrightarrow> tree_blocks c \<subseteq># tree_blocks n"
proof -
  have "map_of cs f = Some c \<Longrightarrow> tree_blocks c \<subseteq># dict_blocks cs" for cs :: "(int, rnode) dict"
    by (induction cs) (auto split: if_splits intro: subset_mset.add_increasing)
  then show "map_of (children n) f = Some c \<Longrightarrow> ?thesis"
    unfolding tree_blocks_sel[of n] by (auto intro: subset_mset.add_increasing)
qed

lemma match_loop_blocks:
  "set (fst (match_loop bs n xs m c)) \<subseteq> set m \<union> set_mset (tree_blocks n)"
proof (induction bs n xs m c rule: match_loop.induct)
  case (1 bs n xs m c)
  show ?case
  proof (cases xs)
    case (Cons f ys)
    show ?thesis
    proof (cases "map_of (children n) f")
      case None
      with Cons show ?thesis by (simp add: match_loop.simps)
    next
      case (Some ch)
      have sub: "set_mset (tree_blocks ch) \<subseteq> set_mset (tree_blocks n)"
        using tree_blocks_child[OF Some] by (rule set_mset_mono)
      have kv: "set (kv_blocks ch) \<subseteq> set_mset (tree_blocks ch)" by (simp add: tree_blocks_sel[of ch])
      show ?thesis
        using Cons Some sub kv set_take_subset[of "ceil_div (common_prefix_len xs (token_ids ch)) bs" "kv_blocks ch"]
          "1.IH"[OF Cons Some refl]
        by (subst match_loop.simps) (auto simp: Let_def)
    qed
  qed (simp add: match_loop.simps)
qed

text \<open>
  The states the engine's calls lead to: a request's blocks are allocated, extended and freed;
  a prefix hit assigns the matched blocks to a request; a request's blocks are stored in the
  cache; the cache is asked to evict.
\<close>

inductive kv_reach :: "block_manager \<Rightarrow> rnode \<Rightarrow> bool" where
  kv_init: "bm_new n bs = Inr bm \<Longrightarrow> kv_reach bm radix_init"
| kv_allocate: "kv_reach bm r \<Longrightarrow> bm_allocate rid n bm = Inr (bm', new) \<Longrightarrow> kv_reach bm' r"
| kv_ensure: "kv_reach bm r \<Longrightarrow> bm_ensure_blocks rid n bm = Inr bm' \<Longrightarrow> kv_reach bm' r"
| kv_hit: "kv_reach bm r \<Longrightarrow> match_prefix (bm_block_size bm) r xs = (ids, k) \<Longrightarrow>
            kv_reach (bm_assign_cached_blocks rid ids bm) r"
| kv_store: "kv_reach bm r \<Longrightarrow> bm_block_tables bm rid = Some blks \<Longrightarrow>
            radix_insert bm_increment_ref_count (bm_block_size bm) bm r xs blks = (r', bm') \<Longrightarrow> kv_reach bm' r'"
| kv_free: "kv_reach bm r \<Longrightarrow> kv_reach (bm_free rid bm) r"
| kv_evict: "kv_reach bm r \<Longrightarrow> radix_evict bm_free_block r t bm = (r', k, bm') \<Longrightarrow> kv_reach bm' r'"

lemma bm_pinned_lift:
  assumes "\<And>ts. bm_pending bm ts \<Longrightarrow> bm_pending bm' ts" and "bm_pinned bm T"
  shows "bm_pinned bm' T"
  using assms bm_pinned_ex by metis

lemma bm_pinned_live: "bm_pinned bm T \<Longrightarrow> b \<in># T \<Longrightarrow> 0 < bm_ref_count bm b"
  using kv_pool.pinned_live by (metis insert_DiffM)

lemma kv_reach_inv: "kv_reach bm r \<Longrightarrow> bm_pinned bm (tree_blocks r) \<and> wf_node r \<and> all_referenced r"
proof (induction rule: kv_reach.induct)
  case (kv_init n bs bm)
  then show ?case
    using bm_inv_new[OF kv_init] wf_radix_init
    by (simp add: bm_pinned_def bm_inv_def radix_init_def new_node_def)
next
  case (kv_allocate bm r rid n bm' new)
  then show ?case using bm_allocate_spec bm_pinned_lift[of bm bm'] by blast
next
  case (kv_ensure bm r rid n bm')
  then show ?case using bm_ensure_blocks_spec bm_pinned_lift[of bm bm'] by blast
next
  case (kv_hit bm r xs ids k rid)
  have "\<forall>b \<in> set ids. 0 < bm_ref_count bm b"
    using match_loop_blocks[of "bm_block_size bm" r xs "[]" 0] kv_hit bm_pinned_live
    by (auto simp: match_prefix_def)
  then show ?case using kv_hit bm_assign_cached_pending(1) bm_pinned_lift[of bm] by blast
next
  case (kv_store bm r rid blks xs r' bm')
  have live: "\<forall>b \<in> set blks. 0 < bm_ref_count bm b"
    using bm_table_live[of bm] kv_store by (auto simp: bm_pinned_def)
  have "bm_pinned bm' ({#} + tree_blocks r')"
    using kv_pool.radix_insert_pinned[OF _ live kv_store(3), of "{#}"] kv_store by simp
  moreover have "all_referenced r'"
    using kv_store insert_loop_referenced[of r _ _ _ xs blks 0 r' bm'] by (auto simp: radix_insert_def split: if_splits)
  ultimately show ?case using radix_insert_spec(1)[OF _ kv_store(3)] kv_store by simp
next
  case (kv_free bm r rid)
  then show ?case using bm_free_pending bm_pinned_lift[of bm] by blast
next
  case (kv_evict bm r t r' k bm')
  then show ?case by (simp add: radix_evict_referenced)
qed


section \<open>Properties of the prefix cache\<close>

text \<open>C16: in a well-formed tree, \<open>match_prefix\<close> consumes exactly the longest prefix of the query
  that is stored in the tree.\<close>

theorem radix_match_longest:
  assumes "wf_node r"
  shows "longest_stored r xs (snd (match_prefix bs r xs))"
  using assms by (rule match_prefix_longest)

definition demo_tree :: rnode where
  "demo_tree = fst (radix_insert (\<lambda>(m::nat) b. m) 2 0 (fst (radix_insert (\<lambda>(m::nat) b. m) 2 0 radix_init
     [1, 2, 3, 4] [10, 11])) [1, 2, 5, 6] [20, 21])"

lemma wf_demo_tree: "wf_node demo_tree"
  unfolding demo_tree_def
  by (rule radix_insert_spec(1)[OF radix_insert_spec(1)[OF wf_radix_init prod.collapse[symmetric]]
        prod.collapse[symmetric]])

theorem radix_match_longest_witness:
  "wf_node demo_tree \<and> longest_stored demo_tree [1, 2, 5, 7] (snd (match_prefix 2 demo_tree [1, 2, 5, 7]))"
  using wf_demo_tree radix_match_longest[OF wf_demo_tree] by blast

text \<open>C15: an insertion keeps the tree well-formed and adds exactly the prefixes of the inserted
  sequence to the stored ones, whether it splits a node, walks through nodes or hangs a leaf.\<close>

theorem radix_insert_refines:
  assumes "wf_node r" and "radix_insert incr bs bm r xs blks = (r', bm')"
  shows "wf_node r' \<and> stored r' = stored r \<union> {ys. prefix ys xs}"
  using radix_insert_spec[OF assms] by blast

theorem radix_insert_refines_witness:
  "\<exists>r' bm'. wf_node demo_tree \<and> radix_insert (\<lambda>(m::nat) b. m) 2 0 demo_tree [1, 9] [30] = (r', bm') \<and>
     wf_node r' \<and> stored r' = stored demo_tree \<union> {ys. prefix ys [1, 9]}"
proof -
  obtain r' bm' where r': "radix_insert (\<lambda>(m::nat) b. m) 2 0 demo_tree [1, 9] [30] = (r', bm')" by fastforce
  show ?thesis using wf_demo_tree r' radix_insert_refines[OF wf_demo_tree r'] by blast
qed

text \<open>After an insertion the whole inserted sequence is matched, and no query matches fewer
  tokens than before.\<close>

theorem radix_insert_then_match:
  assumes "wf_node r" and "radix_insert incr bs bm r xs blks = (r', bm')"
  shows "snd (match_prefix bs r' xs) = length xs \<and> snd (match_prefix bs r ys) \<le> snd (match_prefix bs r' ys)"
proof -
  note spec = radix_insert_spec[OF assms]
  have "longest_stored r' xs (snd (match_prefix bs r' xs))" using spec(1) by (rule match_prefix_longest)
  then have "snd (match_prefix bs r' xs) = length xs"
    using spec(2) unfolding longest_stored_def by (auto intro!: le_antisym)
  moreover have "longest_stored r ys (snd (match_prefix bs r ys))" "longest_stored r' ys (snd (match_prefix bs r' ys))"
    using assms(1) spec(1) by (auto intro: match_prefix_longest)
  then have "snd (match_prefix bs r ys) \<le> snd (match_prefix bs r' ys)"
    using spec(2) unfolding longest_stored_def by blast
  ultimately show ?thesis by blast
qed

theorem radix_insert_then_match_witness:
  "\<exists>r' bm'. radix_insert (\<lambda>(m::nat) b. m) 2 0 demo_tree [1, 9] [30] = (r', bm') \<and>
     snd (match_prefix 2 r' [1, 9]) = 2 \<and> snd (match_prefix 2 demo_tree [1, 2]) \<le> snd (match_prefix 2 r' [1, 2])"
proof -
  obtain r' bm' where r': "radix_insert (\<lambda>(m::nat) b. m) 2 0 demo_tree [1, 9] [30] = (r', bm')" by fastforce
  show ?thesis using r' radix_insert_then_match[OF wf_demo_tree r', of "[1, 2]"] by auto
qed

lemma kv_reach_safe:
  assumes "kv_reach bm r"
  shows "bm_inv bm \<and> wf_node r \<and>
         (\<forall>b \<in> set (fst (match_prefix (bm_block_size bm) r xs)).
            0 < bm_ref_count bm b \<and> b < bm_num_blocks bm \<and> b \<notin> set (bm_free_blocks bm))"
proof -
  have inv: "bm_pinned bm (tree_blocks r)" "wf_node r" using kv_reach_inv[OF assms] by auto
  then have bm: "bm_inv bm" by (simp add: bm_pinned_def)
  have "0 < bm_ref_count bm b" if "b \<in> set (fst (match_prefix (bm_block_size bm) r xs))" for b
    using that match_loop_blocks[of "bm_block_size bm" r xs "[]" 0] bm_pinned_live[OF inv(1)]
    by (auto simp: match_prefix_def)
  moreover have "b < bm_num_blocks bm" if "0 < bm_ref_count bm b" for b
    using that bm by (force simp: bm_inv_def ref_count_pos_iff)
  ultimately show ?thesis using bm inv(2) bm_inv_not_free[OF bm] by blast
qed

text \<open>C4: in every state the calls of the engine can produce, the pool is consistent, the tree is
  well-formed, and no block that \<open>match_prefix\<close> hands out is on the free list, also after the
  request that computed the block has been freed.\<close>

theorem radix_blocks_never_free:
  assumes "kv_reach bm r"
  shows "bm_inv bm \<and> wf_node r \<and>
         (\<forall>b \<in> set (fst (match_prefix (bm_block_size bm) r xs)).
            0 < bm_ref_count bm b \<and> b < bm_num_blocks bm \<and> b \<notin> set (bm_free_blocks bm))"
  using assms by (rule kv_reach_safe)

theorem radix_blocks_never_free_witness:
  "\<exists>bm r. kv_reach bm r \<and> match_prefix (bm_block_size bm) r [7, 8, 9] = ([3, 2], 3) \<and>
     bm_block_tables bm ''a'' = None \<and> (\<forall>b \<in> {2, 3}. b \<notin> set (bm_free_blocks bm))"
proof -
  have "case bm_new 4 2 of Inl _ \<Rightarrow> False | Inr bm0 \<Rightarrow> (case bm_allocate ''a'' 3 bm0 of Inl _ \<Rightarrow> False
      | Inr (bm1, new) \<Rightarrow> new = [3, 2] \<and> bm_block_tables bm1 ''a'' = Some new \<and> bm_block_size bm1 = 2)"
    by code_simp
  then obtain bm0 bm1 new where bm0: "bm_new 4 2 = Inr bm0" and bm1: "bm_allocate ''a'' 3 bm0 = Inr (bm1, new)"
      "new = [3, 2]" "bm_block_tables bm1 ''a'' = Some new" "bm_block_size bm1 = 2"
    by (auto split: sum.splits)
  obtain r bm2 where r: "radix_insert bm_increment_ref_count (bm_block_size bm1) bm1 radix_init [7, 8, 9] new = (r, bm2)"
    by fastforce
  have r': "r = RNode [] [(7, RNode [7, 8, 9] [] [3, 2] 1)] [] 0"
    using r bm1(2) by (simp add: radix_insert_def insert_loop.simps add_node_def set_child_def radix_init_def new_node_def)
  have bs: "bm_block_size (foldl bm_increment_ref_count m l) = bm_block_size m" for m l
    by (induction l arbitrary: m) (auto simp: bm_increment_ref_count_def split: option.splits)
  have bs2: "bm_block_size bm2 = 2"
    using r bm1(4) bs by (auto simp: radix_insert_def insert_loop.simps add_node_def radix_init_def new_node_def)
  have free: "bm_block_tables (bm_free ''a'' bm2) ''a'' = None" "bm_block_size (bm_free ''a'' bm2) = 2"
  proof -
    have "bm_block_tables (foldl (release_one ''a'') m l) = bm_block_tables m"
      "bm_block_size (foldl (release_one ''a'') m l) = bm_block_size m" for m l
      by (induction l arbitrary: m) (auto simp: release_one_def Let_def split: option.splits nat.splits)
    then show "bm_block_tables (bm_free ''a'' bm2) ''a'' = None" "bm_block_size (bm_free ''a'' bm2) = 2"
      using bs2 by (auto simp: bm_free_def split: option.splits)
  qed
  have reach: "kv_reach (bm_free ''a'' bm2) r"
    by (rule kv_free, rule kv_store[OF kv_allocate[OF kv_init[OF bm0] bm1(1)] bm1(3) r])
  have hit: "match_prefix 2 r [7, 8, 9] = ([3, 2], 3)"
    unfolding r' by (simp add: match_prefix_def match_loop.simps)
  show ?thesis
    using reach free hit radix_blocks_never_free[OF reach, of "[7, 8, 9]"]
    by (intro exI[of _ "bm_free ''a'' bm2"] exI[of _ r]) auto
qed

text \<open>A sequence inserted into the empty cache is matched with exactly its own blocks.\<close>

theorem radix_roundtrip_empty:
  assumes "xs \<noteq> []"
  shows "match_prefix bs (fst (radix_insert incr bs bm radix_init xs blks)) xs = (blks, length xs)"
proof -
  obtain f ys where xs: "xs = f # ys" using assms by (cases xs) auto
  have "radix_insert incr bs bm radix_init xs blks = (RNode [] [(f, RNode xs [] blks 1)] [] 0, foldl incr bm blks)"
    unfolding xs by (simp add: radix_insert_def insert_loop.simps radix_init_def new_node_def add_node_def set_child_def)
  moreover have "common_prefix_len xs xs = length xs" by (induction xs) auto
  ultimately show ?thesis using xs by (simp add: match_prefix_def match_loop.simps)
qed

theorem radix_roundtrip_empty_witness:
  "match_prefix 2 (fst (radix_insert (\<lambda>(m::nat) b. m) 2 0 radix_init [5, 6, 7] [4, 9])) [5, 6, 7] = ([4, 9], 3)"
  using radix_roundtrip_empty[of "[5, 6, 7]" 2 "\<lambda>(m::nat) b. m" 0 "[4, 9]"] by simp

text \<open>C38: \<open>_add_node\<close> starts every node with reference count one and no operation of the cache or
  of the engine lowers it, so in every reachable state \<open>evict\<close> frees nothing and changes
  nothing, whatever its target.\<close>

theorem radix_evict_never_frees:
  assumes "kv_reach bm r"
  shows "radix_evict bm_free_block r target bm = (r, 0, bm)"
  using kv_reach_inv[OF assms] by (simp add: radix_evict_referenced)

theorem radix_evict_never_frees_witness:
  "\<exists>bm r. kv_reach bm r \<and> radix_evict bm_free_block r 5 bm = (r, 0, bm)"
proof -
  have "\<exists>bm. bm_new 4 2 = Inr bm" by (simp add: bm_new_def)
  then obtain bm where bm: "bm_new 4 2 = Inr bm" by blast
  show ?thesis using kv_init[OF bm] radix_evict_never_frees[OF kv_init[OF bm]] by blast
qed

text \<open>After a split the new leaf receives the blocks of the whole inserted sequence and not
  only those of its own tokens: with two tokens per block, the four tokens \<open>[1,2,5,6]\<close> are then
  matched with three blocks.\<close>

theorem radix_split_extra_block:
  "match_prefix 2 demo_tree [1, 2, 5, 6] = ([10, 20, 21], 4)"
  by (simp add: demo_tree_def match_prefix_def match_loop.simps radix_insert_def insert_loop.simps radix_init_def
      new_node_def add_node_def set_child_def split_node_def ceil_div_def Let_def)

text \<open>With four one-block leaves of reference count zero under one node and a target of four,
  \<open>evict\<close> frees the leaves; with that node itself unreferenced and a target of five, the check in
  \<open>_dfs_evict\<close> counts the leaves twice and the node, which would have completed the target, is kept.\<close>

theorem radix_evict_stops_early:
  "let leaf = (\<lambda>t b. (t, RNode [t] [] [b] 0));
       mid = RNode [9] [leaf 1 11, leaf 2 12, leaf 3 13, leaf 4 14] [10] 0;
       root = RNode [] [(9, mid)] [] 0
   in radix_evict (\<lambda>m b. m @ [b]) root 5 [] = (RNode [] [(9, RNode [9] [] [10] 0)] [] 0, 4, [11, 12, 13, 14])"
  by (simp add: radix_evict_def Let_def)

end
