(* ===== verification/Json_Value.thy ===== *)
theory Json_Value
  imports Complex_Main Prelude "HOL-Library.Word"
begin

text \<open>
  Untyped Python values as configuration files and metadata carry them: JSON values, and
  attribute objects (the configuration classes of the model library).  The accessors follow the
  Python protocol they stand for, with the exceptions it raises on values of the wrong kind, and
  assignments to the \<open>string\<close> and \<open>uint32\<close> fields of the protobuf messages of
  \<open>include/sfa_abi.proto\<close> check kind and range.
\<close>

datatype json =
    JNull
  | JBool bool
  | JInt int
  | JFloat rat
  | JStr string
  | JList "json list"
  | JDict "(string \<times> json) list"
  | JObj "(string \<times> json) list"

definition py_trunc :: "rat \<Rightarrow> int" where
  "py_trunc r = (if r < 0 then - \<lfloor>- r\<rfloor> else \<lfloor>r\<rfloor>)"

text \<open>\<open>int(v)\<close>\<close>

fun json_int :: "json \<Rightarrow> int res" where
  "json_int (JInt i) = Inr i"
| "json_int (JBool b) = Inr (if b then 1 else 0)"
| "json_int (JFloat r) = Inr (py_trunc r)"
| "json_int (JStr s) = int_of_string s"
| "json_int _ = Inl TypeError"

fun json_truthy :: "json \<Rightarrow> bool" where
  "json_truthy JNull = False"
| "json_truthy (JBool b) = b"
| "json_truthy (JInt i) = (i \<noteq> 0)"
| "json_truthy (JFloat r) = (r \<noteq> 0)"
| "json_truthy (JStr s) = (s \<noteq> [])"
| "json_truthy (JList xs) = (xs \<noteq> [])"
| "json_truthy (JDict d) = (d \<noteq> [])"
| "json_truthy (JObj _) = True"

text \<open>\<open>v[key]\<close> with a string key, \<open>v.get(key, default)\<close> and iteration.\<close>

fun json_index :: "json \<Rightarrow> string \<Rightarrow> json res" where
  "json_index (JDict d) k = dict_index d k"
| "json_index _ k = Inl TypeError"

fun json_get :: "json \<Rightarrow> string \<Rightarrow> json \<Rightarrow> json res" where
  "json_get (JDict d) k v = Inr (dict_get d k v)"
| "json_get _ k v = Inl AttributeError"

fun json_iter :: "json \<Rightarrow> json list res" where
  "json_iter (JList xs) = Inr xs"
| "json_iter (JDict d) = Inr (map (JStr \<circ> fst) d)"
| "json_iter (JStr s) = Inr (map (\<lambda>c. JStr [c]) s)"
| "json_iter _ = Inl TypeError"

fun json_items :: "json \<Rightarrow> (string \<times> json) list res" where
  "json_items (JDict d) = Inr d"
| "json_items _ = Inl AttributeError"

text \<open>Assignment to protobuf fields.\<close>

fun proto_str :: "json \<Rightarrow> string res" where
  "proto_str (JStr s) = Inr s"
| "proto_str _ = Inl TypeError"

definition proto_u32 :: "int \<Rightarrow> 32 word res" where
  "proto_u32 i = (if 0 \<le> i \<and> i < 2 ^ 32 then Inr (word_of_int i) else Inl ValueError)"

lemma proto_u32_value: "proto_u32 i = Inr w \<Longrightarrow> uint w = i"
  by (auto simp: proto_u32_def uint_word_of_int_eq take_bit_eq_mod split: if_splits)

lemma proto_u32_ok: "is_ok (proto_u32 i) \<longleftrightarrow> 0 \<le> i \<and> i < 2 ^ 32"
  by (simp add: proto_u32_def)

lemma foldl_update_fresh:
  "distinct (map fst (acc @ kv)) \<Longrightarrow> foldl (\<lambda>d (k, v). AList.update k v d) acc kv = acc @ kv"
proof (induction kv arbitrary: acc)
  case (Cons e kv)
  obtain k v where e: "e = (k, v)" by (cases e)
  have "AList.update k v acc = acc @ [(k, v)]" using Cons.prems e by (intro update_fresh) (auto simp: map_of_eq_None_iff)
  moreover have "distinct (map fst ((acc @ [(k, v)]) @ kv))" using Cons.prems e by simp
  ultimately show ?case using Cons.IH[of "acc @ [(k, v)]"] e by simp
qed simp

end
