(* ===== verification/Shape_Pure.thy ===== *)
theory Shape_Pure
  imports Json_Value
begin

text \<open>
  Shape inference on plain tuples, \<open>compiler/shape/shape_inference_pure.py\<close>, with the
  broadcasting helper of \<open>compiler/shape/shape_inference_utils.py\<close>.  A dimension is a size, a
  dynamic size (Python's \<open>None\<close>) or the name of an SSA value (a string, which \<open>view\<close> copies
  out of its shape attribute).  A shape is \<open>None\<close> for an unranked tensor: the functions here
  receive such shapes from the MLIR-level ones and then raise \<open>TypeError\<close> wherever they take
  its length.  Operation attributes are the values the converter produces: \<open>None\<close>, integers,
  booleans, floats, strings, sequences of dimensions and torch dtypes.
\<close>


section \<open>Values\<close>

datatype dim = Dyn | Dim int | Sym string

type_synonym shp = "dim list option"
type_synonym sig = "shp \<times> string"

datatype attr = ANone | AInt int | ABool bool | AFloat rat | AStr string | ASeq "dim list" | ADtype string

type_synonym attrs = "(string, attr) dict"
type_synonym pure_fn = "shp list \<Rightarrow> string list \<Rightarrow> attrs \<Rightarrow> sig list res"

text \<open>\<open>int(v)\<close> of an attribute and of a sequence entry, and the truth value of an attribute.\<close>

fun attr_int :: "attr \<Rightarrow> int res" where
  "attr_int (AInt i) = Inr i"
| "attr_int (ABool b) = Inr (if b then 1 else 0)"
| "attr_int (AFloat r) = Inr (py_trunc r)"
| "attr_int (AStr s) = int_of_string s"
| "attr_int _ = Inl TypeError"

fun dim_int :: "dim \<Rightarrow> int res" where
  "dim_int (Dim i) = Inr i"
| "dim_int (Sym s) = int_of_string s"
| "dim_int Dyn = Inl TypeError"

fun truthy :: "attr \<Rightarrow> bool" where
  "truthy ANone = False"
| "truthy (AInt i) = (i \<noteq> 0)"
| "truthy (ABool b) = b"
| "truthy (AFloat r) = (r \<noteq> 0)"
| "truthy (AStr s) = (s \<noteq> [])"
| "truthy (ASeq ds) = (ds \<noteq> [])"
| "truthy (ADtype _) = True"

text \<open>Iterating over an attribute: strings give their characters, scalars raise.\<close>

fun attr_items :: "attr \<Rightarrow> dim list res" where
  "attr_items (ASeq ds) = Inr ds"
| "attr_items (AStr s) = Inr (map (\<lambda>c. Sym [c]) s)"
| "attr_items _ = Inl TypeError"

definition dims_of :: "shp \<Rightarrow> dim list res" where
  "dims_of s = res_of_option TypeError s"

definition elt0 :: "string list \<Rightarrow> string res" where
  "elt0 elts = py_index elts 0"

definition elt0_or_f32 :: "string list \<Rightarrow> string" where
  "elt0_or_f32 elts = (case elts of [] \<Rightarrow> ''f32'' | e # _ \<Rightarrow> e)"

abbreviation one_f32 :: sig where
  "one_f32 \<equiv> (Some [Dim 1], ''f32'')"

text \<open>\<open>return [(s, elts[0])]\<close>\<close>

definition with_elt0 :: "shp \<Rightarrow> string list \<Rightarrow> sig list res" where
  "with_elt0 s elts = res_bind (elt0 elts) (\<lambda>e. Inr [(s, e)])"


section \<open>Broadcasting\<close>

definition broadcast_dim :: "dim list \<Rightarrow> dim res" where
  "broadcast_dim ds =
     (let non_one = filter (\<lambda>d. d \<noteq> Dyn \<and> d \<noteq> Dim 1) ds;
          any_dynamic = (Dyn \<in> set ds)
      in case non_one of
           [] \<Rightarrow> Inr (if any_dynamic then Dyn else hd ds)
         | [d] \<Rightarrow> Inr d
         | d # _ \<Rightarrow> if length (remdups non_one) > 1 then Inl ValueError else Inr d)"

text \<open>The dimension of a shape at position \<open>i\<close> of the right-aligned result of rank \<open>r\<close>.\<close>

definition dim_at :: "nat \<Rightarrow> nat \<Rightarrow> dim list \<Rightarrow> dim" where
  "dim_at r i s = (if r \<le> length s + i then s ! (length s + i - r) else Dim 1)"

definition max_rank :: "'a list list \<Rightarrow> nat" where
  "max_rank ss = foldr max (map length ss) 0"

definition broadcast_dims :: "dim list list \<Rightarrow> dim list res" where
  "broadcast_dims ss =
     (let r = max_rank ss in res_mapM (\<lambda>i. broadcast_dim (map (dim_at r i) ss)) [0..<r])"

definition broadcast_shapes :: "shp list \<Rightarrow> dim list res" where
  "broadcast_shapes shapes = (if shapes = [] then Inr [] else res_bind (res_mapM dims_of shapes) broadcast_dims)"


section \<open>Element-wise operations and copies\<close>

definition infer_elementwise_pure :: pure_fn where
  "infer_elementwise_pure shapes elts kw =
     (if shapes = [] then Inr [one_f32]
      else res_bind (broadcast_shapes shapes) (\<lambda>b. with_elt0 (Some b) elts))"

definition torch_dtype_names :: "(string, string) dict" where
  "torch_dtype_names =
     [(''float32'', ''f32''), (''float16'', ''f16''), (''bfloat16'', ''bf16''), (''float64'', ''f64''),
      (''int32'', ''i32''), (''int64'', ''i64''), (''int8'', ''i8''), (''uint8'', ''ui8''), (''bool'', ''i1'')]"

definition infer_identity_pure :: pure_fn where
  "infer_identity_pure shapes elts kw =
     (case shapes of
        [] \<Rightarrow> Inr [one_f32]
      | s # _ \<Rightarrow> res_bind (elt0 elts) (\<lambda>e.
          Inr [(s, case dict_get kw ''dtype'' ANone of
                     AStr d \<Rightarrow> remove_all ''torch.'' d
                   | ADtype d \<Rightarrow> dict_get torch_dtype_names d e
                   | _ \<Rightarrow> e)]))"

definition infer_type_as_pure :: pure_fn where
  "infer_type_as_pure shapes elts kw =
     (case shapes of
        [] \<Rightarrow> Inr [one_f32]
      | s # _ \<Rightarrow> if length shapes \<ge> 2 \<and> length elts \<ge> 2 then Inr [(s, elts ! 1)] else with_elt0 s elts)"

definition infer_copy_pure :: pure_fn where
  "infer_copy_pure shapes elts kw = (case shapes of [] \<Rightarrow> Inr [one_f32] | s # _ \<Rightarrow> with_elt0 s elts)"

definition infer_index_pure :: pure_fn where
  "infer_index_pure shapes elts kw =
     (if length shapes < 2
      then Inr [(case shapes of [] \<Rightarrow> Some [Dim 1] | s # _ \<Rightarrow> s, elt0_or_f32 elts)]
      else let num_indices = length (tl shapes)
           in res_bind (res_mapM dims_of (tl shapes)) (\<lambda>index_shapes.
              res_bind (if list_all (\<lambda>s. length s = 1) index_shapes then Inr (map hd index_shapes)
                        else broadcast_shapes (tl shapes)) (\<lambda>index_out.
              res_bind (dims_of (hd shapes)) (\<lambda>data_shape.
              with_elt0 (Some (index_out @ drop num_indices data_shape)) elts))))"

definition infer_arange_pure :: pure_fn where
  "infer_arange_pure shapes elts kw = Inr [(Some [Dyn], ''i64'')]"

definition infer_new_ones_pure :: pure_fn where
  "infer_new_ones_pure shapes elts kw = (case shapes of [] \<Rightarrow> Inr [one_f32] | s # _ \<Rightarrow> Inr [(s, ''f32'')])"

definition infer_scalar_pure :: pure_fn where
  "infer_scalar_pure shapes elts kw = Inr [one_f32]"


section \<open>Matrix products\<close>

definition infer_matmul_pure :: pure_fn where
  "infer_matmul_pure shapes elts kw =
     (case shapes of
        [] \<Rightarrow> Inr [one_f32]
      | [s] \<Rightarrow> with_elt0 s elts
      | sa # sb # _ \<Rightarrow>
          res_bind (dims_of sa) (\<lambda>a.
            if length a < 2 then with_elt0 (Some a) elts
            else res_bind (dims_of sb) (\<lambda>b.
              if length a = 2 \<and> length b = 2 then with_elt0 (Some [a ! 0, b ! 1]) elts
              else if length a \<ge> 3 \<and> length b = 2 then with_elt0 (Some (butlast a @ [b ! 1])) elts
              else if length a = 2 \<and> length b \<ge> 3 then with_elt0 (Some (drop_last 2 b @ [a ! 0, last b])) elts
              else if length a \<ge> 3 \<and> length a = length b
              then res_bind (broadcast_shapes [Some (drop_last 2 a), Some (drop_last 2 b)]) (\<lambda>batch.
                     with_elt0 (Some (batch @ [a ! (length a - 2), last b])) elts)
              else with_elt0 (Some a) elts)))"

definition infer_linear_pure :: pure_fn where
  "infer_linear_pure shapes elts kw =
     (case shapes of
        [] \<Rightarrow> Inr [one_f32]
      | [s] \<Rightarrow> with_elt0 s elts
      | sa # sw # _ \<Rightarrow>
          res_bind (dims_of sa) (\<lambda>a.
            if length a < 2 then with_elt0 (Some [Dyn, Dyn]) elts
            else res_bind (dims_of sw) (\<lambda>w.
              if length w = 2 then with_elt0 (Some (butlast a @ [w ! 0])) elts
              else with_elt0 (Some [Dyn, Dyn]) elts)))"

definition conv1d_scalar :: "attr \<Rightarrow> int \<Rightarrow> int res" where
  "conv1d_scalar v dflt =
     (case v of
        ASeq [] \<Rightarrow> Inr dflt
      | ASeq (d # _) \<Rightarrow> dim_int d
      | ANone \<Rightarrow> Inr dflt
      | _ \<Rightarrow> attr_int v)"


section \<open>Tensor creation and padding\<close>

definition infer_zeros_pure :: pure_fn where
  "infer_zeros_pure shapes elts kw =
     (case dict_get kw ''shape'' ANone of
        ASeq ds \<Rightarrow> res_bind (res_mapM (\<lambda>d. if d = Dyn then Inr Dyn else res_bind (dim_int d) (\<lambda>n. Inr (Dim n))) ds)
                    (\<lambda>out. Inr [(Some out, ''f32'')])
      | _ \<Rightarrow> (case shapes of [] \<Rightarrow> Inr [one_f32] | s # _ \<Rightarrow> Inr [(s, ''f32'')]))"

definition infer_zeros_like_pure :: pure_fn where
  "infer_zeros_like_pure shapes elts kw =
     (case shapes of [] \<Rightarrow> Inr [one_f32] | s # _ \<Rightarrow> Inr [(s, elt0_or_f32 elts)])"

definition infer_eye_pure :: pure_fn where
  "infer_eye_pure shapes elts kw =
     res_bind (attr_int (dict_get kw ''n'' (AInt 1))) (\<lambda>n.
     res_bind (attr_int (dict_get kw ''m'' (AInt (if n = 0 then 1 else n)))) (\<lambda>m.
     Inr [(Some [Dim n, Dim m], elt0_or_f32 elts)]))"

text \<open>\<open>d + lo + hi\<close> of a dimension that is not dynamic.\<close>

fun dim_plus :: "dim \<Rightarrow> int \<Rightarrow> dim res" where
  "dim_plus (Dim n) k = Inr (Dim (n + k))"
| "dim_plus _ _ = Inl TypeError"

definition pad_one :: "dim list \<Rightarrow> dim list \<Rightarrow> nat \<Rightarrow> dim list res" where
  "pad_one pad parts i =
     (let k = length parts - 1 - i
      in res_bind (dim_int (pad ! (2 * i))) (\<lambda>lo.
         res_bind (dim_int (pad ! (2 * i + 1))) (\<lambda>hi.
         if parts ! k \<noteq> Dyn then res_bind (dim_plus (parts ! k) (lo + hi)) (\<lambda>d. Inr (parts[k := d])) else Inr parts)))"

definition infer_pad_pure :: pure_fn where
  "infer_pad_pure shapes elts kw =
     (case shapes of
        [] \<Rightarrow> Inr [one_f32]
      | s # _ \<Rightarrow>
          (case dict_get kw ''pad'' ANone of
             ASeq pad \<Rightarrow>
               if length pad mod 2 \<noteq> 0 then Inr [(s, elt0_or_f32 elts)]
               else res_bind (dims_of s) (\<lambda>parts.
                    res_bind (res_foldM (pad_one pad) parts [0 ..< min (length pad div 2) (length parts)]) (\<lambda>out.
                    Inr [(Some out, elt0_or_f32 elts)]))
           | _ \<Rightarrow> Inr [(s, elt0_or_f32 elts)]))"

definition infer_conv1d_pure :: pure_fn where
  "infer_conv1d_pure shapes elts kw =
     (case shapes of
        [] \<Rightarrow> Inr [one_f32]
      | [s] \<Rightarrow> Inr [(s, elt0_or_f32 elts)]
      | si # sw # _ \<Rightarrow>
          res_bind (dims_of si) (\<lambda>inp.
            if length inp < 3 then Inr [(si, elt0_or_f32 elts)]
            else res_bind (dims_of sw) (\<lambda>weight.
              if length weight < 3 then Inr [(si, elt0_or_f32 elts)]
              else res_bind (conv1d_scalar (dict_get kw ''stride'' ANone) 1) (\<lambda>stride.
                   res_bind (conv1d_scalar (dict_get kw ''padding'' ANone) 0) (\<lambda>padding.
                   res_bind (conv1d_scalar (dict_get kw ''dilation'' ANone) 1) (\<lambda>dilation.
                   res_bind (if inp ! 2 = Dyn then Inr Dyn
                             else res_bind (dim_int (inp ! 2)) (\<lambda>in_len.
                                  case weight ! 2 of
                                    Dim ker_len \<Rightarrow>
                                      let numerator = in_len + 2 * padding - dilation * (ker_len - 1) - 1
                                      in Inr (Dim (if stride > 0 then numerator div stride + 1 else in_len))
                                  | _ \<Rightarrow> Inl TypeError)) (\<lambda>out_len.
                   Inr [(Some [inp ! 0, weight ! 0, out_len], elt0_or_f32 elts)])))))))"


section \<open>Shape manipulation\<close>

definition infer_view_pure :: pure_fn where
  "infer_view_pure shapes elts kw =
     (let shape = dict_get kw ''shape'' ANone
      in if truthy shape then res_bind (attr_items shape) (\<lambda>ds. with_elt0 (Some ds) elts)
         else case shapes of [] \<Rightarrow> Inr [one_f32] | s # _ \<Rightarrow> with_elt0 s elts)"

definition infer_unsqueeze_pure :: pure_fn where
  "infer_unsqueeze_pure shapes elts kw =
     (case shapes of
        [] \<Rightarrow> Inr [(Some [Dim 1], elt0_or_f32 elts)]
      | s0 # _ \<Rightarrow>
          res_bind (dims_of s0) (\<lambda>s.
          res_bind (attr_int (dict_get kw ''dim'' (AInt 0))) (\<lambda>dim.
          let d = (if dim < 0 then int (length s) + 1 + dim else dim)
          in with_elt0 (Some (py_insert s d (Dim 1))) elts)))"

definition py_swap :: "'a list \<Rightarrow> int \<Rightarrow> int \<Rightarrow> 'a list res" where
  "py_swap s i j =
     res_bind (py_index s j) (\<lambda>x. res_bind (py_index s i) (\<lambda>y.
     res_bind (py_set s i x) (\<lambda>s'. py_set s' j y)))"

definition infer_transpose_pure :: pure_fn where
  "infer_transpose_pure shapes elts kw =
     (case shapes of
        [] \<Rightarrow> Inr [(Some [Dim 1], elt0_or_f32 elts)]
      | s0 # _ \<Rightarrow>
          res_bind (dims_of s0) (\<lambda>s.
          res_bind (attr_int (dict_get kw ''dim0'' (AInt 0))) (\<lambda>d0.
          res_bind (attr_int (dict_get kw ''dim1'' (AInt 1))) (\<lambda>d1.
          res_bind (if d0 < int (length s) \<and> d1 < int (length s) then py_swap s d0 d1 else Inr s) (\<lambda>s'.
          with_elt0 (Some s') elts)))))"

definition int64_max :: int where
  "int64_max = 9223372036854775807"

text \<open>\<open>end is not None and end >= 0 and end != INT64_MAX\<close>, with the comparison's \<open>TypeError\<close>.\<close>

fun slice_end_known :: "attr \<Rightarrow> bool res" where
  "slice_end_known ANone = Inr False"
| "slice_end_known (AInt e) = Inr (e \<ge> 0 \<and> e \<noteq> int64_max)"
| "slice_end_known (ABool _) = Inr True"
| "slice_end_known (AFloat r) = Inr (r \<ge> 0 \<and> r \<noteq> of_int int64_max)"
| "slice_end_known _ = Inl TypeError"

definition slice_len :: "attr \<Rightarrow> attr \<Rightarrow> attr \<Rightarrow> dim res" where
  "slice_len start end_v step =
     res_bind (if start = ANone then Inr 0 else attr_int start) (\<lambda>st.
     res_bind (slice_end_known end_v) (\<lambda>known.
       if known
       then res_bind (attr_int end_v) (\<lambda>en. res_bind (attr_int step) (\<lambda>sp.
              if sp = 0 then Inl ZeroDivisionError else Inr (Dim ((en - st + sp - 1) div sp))))
       else Inr Dyn))"

definition infer_slice_pure :: pure_fn where
  "infer_slice_pure shapes elts kw =
     (case shapes of
        [] \<Rightarrow> Inr [(Some [Dim 1], elt0_or_f32 elts)]
      | s0 # _ \<Rightarrow>
          res_bind (dims_of s0) (\<lambda>s.
          res_bind (attr_int (dict_get kw ''dim'' (AInt 0))) (\<lambda>dim.
          res_bind (if dim < int (length s)
                    then res_bind (py_index s dim) (\<lambda>v.
                         if v = Dyn then Inr s
                         else res_bind (slice_len (dict_get kw ''start'' (AInt 0)) (dict_get kw ''end'' (AInt (-1)))
                                          (dict_get kw ''step'' (AInt 1))) (\<lambda>d. py_set s dim d))
                    else Inr s) (\<lambda>s'.
          with_elt0 (Some s') elts))))"

definition infer_select_pure :: pure_fn where
  "infer_select_pure shapes elts kw =
     (case shapes of
        [] \<Rightarrow> Inr [(Some [Dim 1], elt0_or_f32 elts)]
      | s0 # _ \<Rightarrow>
          res_bind (dims_of s0) (\<lambda>s.
          res_bind (attr_int (dict_get kw ''dim'' (AInt 0))) (\<lambda>dim.
          res_bind (if dim < int (length s) then py_pop s dim else Inr s) (\<lambda>s'.
          with_elt0 (Some s') elts))))"

definition cat_step :: "int \<Rightarrow> int \<times> bool \<Rightarrow> shp \<Rightarrow> (int \<times> bool) res" where
  "cat_step d acc s0 =
     res_bind (dims_of s0) (\<lambda>s.
       if d < int (length s)
       then res_bind (py_index s d) (\<lambda>v.
              case v of Dim n \<Rightarrow> Inr (fst acc + n, snd acc) | Dyn \<Rightarrow> Inr (fst acc, True) | Sym _ \<Rightarrow> Inl TypeError)
       else Inr (fst acc, True))"

definition infer_cat_pure :: pure_fn where
  "infer_cat_pure shapes elts kw =
     (case shapes of
        [] \<Rightarrow> Inr [(Some [Dim 1], elt0_or_f32 elts)]
      | s0 # _ \<Rightarrow>
          res_bind (attr_int (dict_get kw ''dim'' (AInt 0))) (\<lambda>dim.
          res_bind (dims_of s0) (\<lambda>parts.
          res_bind (res_foldM (cat_step dim) (0, False) shapes) (\<lambda>(total, has_unknown).
          res_bind (if dim < int (length parts)
                    then py_set parts dim (if has_unknown then Dyn else if total > 0 then Dim total else Dyn)
                    else Inr parts) (\<lambda>out.
          with_elt0 (Some out) elts)))))"


section \<open>Reductions\<close>

definition norm_dim_step :: "nat \<Rightarrow> nat list \<Rightarrow> int res \<Rightarrow> nat list" where
  "norm_dim_step rank out d =
     (case d of
        Inl _ \<Rightarrow> out
      | Inr v \<Rightarrow> let dv = (if v < 0 then v + int rank else v)
                 in if 0 \<le> dv \<and> dv < int rank \<and> nat dv \<notin> set out then out @ [nat dv] else out)"

definition normalize_reduce_dims :: "attr \<Rightarrow> nat \<Rightarrow> nat list" where
  "normalize_reduce_dims dims rank =
     (case dims of
        ANone \<Rightarrow> if rank > 0 then [rank - 1] else []
      | ASeq ds \<Rightarrow> foldl (norm_dim_step rank) [] (map dim_int ds)
      | _ \<Rightarrow> foldl (norm_dim_step rank) [] [attr_int dims])"

definition reduce_dims :: "nat list \<Rightarrow> bool \<Rightarrow> dim list \<Rightarrow> dim list" where
  "reduce_dims reduced keepdim s =
     concat (map (\<lambda>(i, d). if i \<in> set reduced then (if keepdim then [Dim 1] else []) else [d]) (enum_from 0 s))"

definition infer_reduce_pure :: pure_fn where
  "infer_reduce_pure shapes elts kw =
     (case shapes of
        [] \<Rightarrow> Inr [(Some [Dim 1], elt0_or_f32 elts)]
      | s0 # _ \<Rightarrow>
          res_bind (dims_of s0) (\<lambda>s.
          with_elt0 (Some (reduce_dims (normalize_reduce_dims (dict_get kw ''dim'' (AInt (-1))) (length s))
                             (truthy (dict_get kw ''keepdim'' (ABool False))) s)) elts))"


section \<open>Expansion, embedding, comparison\<close>

definition expand_entry :: "dim list \<Rightarrow> int \<Rightarrow> nat \<times> dim \<Rightarrow> dim" where
  "expand_entry inp lead e =
     (case e of (i, d) \<Rightarrow>
        (case d of
           Sym _ \<Rightarrow> Dyn
         | Dim n \<Rightarrow> if n = -1
                    then (let k = int i - lead in if 0 \<le> k \<and> k < int (length inp) then inp ! nat k else Dyn)
                    else Dim n
         | Dyn \<Rightarrow> Dyn))"

definition infer_expand_pure :: pure_fn where
  "infer_expand_pure shapes elts kw =
     (case shapes of
        [] \<Rightarrow> Inr [(Some [Dim 1], elt0_or_f32 elts)]
      | s0 # _ \<Rightarrow>
          (let shape = dict_get kw ''shape'' ANone
           in if truthy shape
              then res_bind (attr_items shape) (\<lambda>ds. res_bind (dims_of s0) (\<lambda>inp.
                   with_elt0 (Some (map (expand_entry inp (int (length ds) - int (length inp))) (enum_from 0 ds))) elts))
              else with_elt0 s0 elts))"

definition infer_embedding_pure :: pure_fn where
  "infer_embedding_pure shapes elts kw =
     (case shapes of
        [] \<Rightarrow> Inr [one_f32]
      | [s] \<Rightarrow> with_elt0 s elts
      | sw # si # _ \<Rightarrow>
          res_bind (dims_of sw) (\<lambda>w.
            if length w \<ge> 2 then res_bind (dims_of si) (\<lambda>i. Inr [(Some (i @ [w ! 1]), elt0_or_f32 elts)])
            else Inr [(sw, elt0_or_f32 elts)]))"

definition infer_ones_like_pure :: pure_fn where
  "infer_ones_like_pure shapes elts kw =
     (let shape = dict_get kw ''shape'' ANone
      in if truthy shape
         then res_bind (attr_items shape) (\<lambda>ds.
              Inr [(Some (map (\<lambda>d. case d of Dim n \<Rightarrow> Dim n | _ \<Rightarrow> Dyn) ds), elt0_or_f32 elts)])
         else case shapes of [] \<Rightarrow> Inr [(Some [], ''f32'')] | s # _ \<Rightarrow> Inr [(s, elt0_or_f32 elts)])"

definition infer_compare_pure :: pure_fn where
  "infer_compare_pure shapes elts kw =
     (if shapes = [] then Inr [one_f32] else res_bind (broadcast_shapes shapes) (\<lambda>b. Inr [(Some b, ''f32'')]))"


section \<open>Dispatch\<close>

definition auto_pure_table :: "(string, pure_fn) dict" where
  "auto_pure_table =
     [(''elementwise'', infer_elementwise_pure), (''identity'', infer_identity_pure), (''type_as'', infer_type_as_pure),
      (''copy_'', infer_copy_pure), (''index'', infer_index_pure), (''arange'', infer_arange_pure),
      (''new_ones'', infer_new_ones_pure), (''scalar'', infer_scalar_pure), (''matmul'', infer_matmul_pure),
      (''linear'', infer_linear_pure), (''zeros'', infer_zeros_pure), (''zeros_like'', infer_zeros_like_pure),
      (''eye'', infer_eye_pure), (''pad'', infer_pad_pure), (''conv1d'', infer_conv1d_pure),
      (''view'', infer_view_pure), (''unsqueeze'', infer_unsqueeze_pure), (''transpose'', infer_transpose_pure),
      (''slice'', infer_slice_pure), (''select'', infer_select_pure), (''cat'', infer_cat_pure),
      (''reduce'', infer_reduce_pure), (''expand'', infer_expand_pure), (''embedding'', infer_embedding_pure),
      (''ones_like'', infer_ones_like_pure), (''compare'', infer_compare_pure)]"

definition elementwise_pure_ops :: "string list" where
  "elementwise_pure_ops =
     [''add'', ''mul'', ''sub'', ''div'', ''neg'', ''pow'', ''max'', ''relu'', ''gelu'', ''silu'', ''sigmoid'', ''softplus'',
      ''exp'', ''tanh'', ''sqrt'', ''clamp_min'', ''rsqrt'', ''cos'', ''sin'', ''softmax'', ''layer_norm'', ''rms_norm'',
      ''triu'', ''tril'', ''conv1d'', ''zeros_like'', ''diff'', ''scaled_dot_product_attention'', ''fused_silu_mul'',
      ''fused_attention_output'', ''fused_attention_block'', ''cumsum'', ''masked_fill'', ''zeros'', ''eye'', ''pad'',
      ''einsum'', ''stack'', ''view_as'', ''expand_as'', ''fused_rms_norm_matmul'', ''fused_qkv'', ''weight'', ''constant'',
      ''split'', ''chunk'']"

definition pure_table :: "(string, pure_fn) dict" where
  "pure_table =
     (let t = AList.update ''full_like'' infer_ones_like_pure (AList.update ''sym_size'' infer_scalar_pure auto_pure_table);
          t = foldl (\<lambda>t op. AList.update op infer_reduce_pure t) t [''mean'', ''sum'', ''var'', ''linalg_norm''];
          t = foldl (\<lambda>t op. AList.update op infer_compare_pure t) t [''gt'', ''lt'', ''eq'', ''ne'', ''le'', ''logical_and'']
      in foldl (\<lambda>t op. dict_setdefault t op infer_elementwise_pure) t elementwise_pure_ops)"

lemma map_of_foldl_update:
  "map_of (foldl (\<lambda>t op. AList.update op g t) t ops) k = (if k \<in> set ops then Some g else map_of t k)"
  by (induction ops arbitrary: t) auto

lemma map_of_foldl_setdefault:
  "map_of (foldl (\<lambda>t op. dict_setdefault t op g) t ops) k
     = (case map_of t k of Some f \<Rightarrow> Some f | None \<Rightarrow> if k \<in> set ops then Some g else None)"
  by (induction ops arbitrary: t) (auto simp: dict_setdefault_lookup split: option.splits)

lemma pure_table_lookup:
  "map_of pure_table k =
     (if k \<in> {''gt'', ''lt'', ''eq'', ''ne'', ''le'', ''logical_and''} then Some infer_compare_pure
      else if k \<in> {''mean'', ''sum'', ''var'', ''linalg_norm''} then Some infer_reduce_pure
      else if k = ''full_like'' then Some infer_ones_like_pure
      else if k = ''sym_size'' then Some infer_scalar_pure
      else case map_of auto_pure_table k of
             Some f \<Rightarrow> Some f
           | None \<Rightarrow> if k \<in> set elementwise_pure_ops then Some infer_elementwise_pure else None)"
  unfolding pure_table_def Let_def map_of_foldl_setdefault map_of_foldl_update map_of_update by simp

text \<open>A keyword that repeats a positional parameter of the callee is a \<open>TypeError\<close>.\<close>

definition infer_output_shape :: "string \<Rightarrow> shp list \<Rightarrow> string list \<Rightarrow> attrs \<Rightarrow> sig list res" where
  "infer_output_shape op_name shapes elts kw =
     (case map_of pure_table op_name of
        Some f \<Rightarrow> if dict_has kw ''shapes'' \<or> dict_has kw ''elts'' then Inl TypeError else f shapes elts kw
      | None \<Rightarrow> Inr [case shapes of [] \<Rightarrow> one_f32 | s # _ \<Rightarrow> (s, elt0_or_f32 elts)])"


section \<open>What an inferred shape says about run-time shapes\<close>

text \<open>A run-time size is described by a dimension; a dynamic or symbolic one describes any size.\<close>

fun describes :: "dim \<Rightarrow> nat \<Rightarrow> bool" where
  "describes (Dim k) n = (k = int n)"
| "describes _ n = True"

abbreviation describes_shape :: "dim list \<Rightarrow> nat list \<Rightarrow> bool" where
  "describes_shape \<equiv> list_all2 describes"

fun is_sym :: "dim \<Rightarrow> bool" where
  "is_sym (Sym _) = True"
| "is_sym _ = False"

definition no_sym :: "dim list \<Rightarrow> bool" where
  "no_sym ds = list_all (\<lambda>d. \<not> is_sym d) ds"

text \<open>
  NumPy broadcasting of run-time shapes: right-aligned, missing positions count as one, and at
  each position all sizes other than one agree with the result.
\<close>

definition size_at :: "nat \<Rightarrow> nat \<Rightarrow> nat list \<Rightarrow> nat" where
  "size_at r i s = (if r \<le> length s + i then s ! (length s + i - r) else 1)"

definition sizes_join :: "nat list \<Rightarrow> nat \<Rightarrow> bool" where
  "sizes_join ns r \<longleftrightarrow> (\<forall>n \<in> set ns. n = 1 \<or> n = r) \<and> (r = 1 \<or> r \<in> set ns)"

definition np_broadcasts :: "nat list list \<Rightarrow> nat list \<Rightarrow> bool" where
  "np_broadcasts ss rs \<longleftrightarrow>
     length rs = max_rank ss \<and> (\<forall>i < length rs. sizes_join (map (size_at (length rs) i) ss) (rs ! i))"

lemma max_rank_cong: "list_all2 (\<lambda>a b. length a = length b) ss ns \<Longrightarrow> max_rank ss = max_rank ns"
  unfolding max_rank_def by (induction rule: list_all2_induct) auto

lemma max_rank_ge: "s \<in> set ss \<Longrightarrow> length s \<le> max_rank ss"
  unfolding max_rank_def by (induction ss) auto

lemma non_one_static:
  assumes "no_sym ds" and "describes_shape ds ns" and "\<forall>n \<in> set ns. n = 1 \<or> n = r"
    and "d \<in> set ds" "d \<noteq> Dyn" "d \<noteq> Dim 1"
  shows "d = Dim (int r)"
proof -
  obtain k where d: "d = Dim k" using assms(1,4,5) by (cases d) (auto simp: no_sym_def list_all_iff)
  obtain j where j: "j < length ds" "ds ! j = d" using assms(4) by (auto simp: in_set_conv_nth)
  then have "describes d (ns ! j)" "ns ! j \<in> set ns"
    using assms(2) by (auto simp: list_all2_conv_all_nth)
  then show ?thesis using assms(3,6) d by auto
qed

lemma all_one_dims:
  assumes "describes_shape ds ns" and "\<forall>d \<in> set ds. d = Dim 1" and "n \<in> set ns"
  shows "n = 1"
proof -
  obtain j where j: "j < length ns" "ns ! j = n" using assms(3) by (auto simp: in_set_conv_nth)
  then have "describes (ds ! j) n" "ds ! j = Dim 1" using assms(1,2) by (auto simp: list_all2_conv_all_nth)
  then show ?thesis by simp
qed

lemma broadcast_dim_sound:
  assumes "no_sym ds" and "ds \<noteq> []" and "describes_shape ds ns" and "sizes_join ns r"
  shows "\<exists>d. broadcast_dim ds = Inr d \<and> describes d r"
proof -
  let ?non = "filter (\<lambda>d. d \<noteq> Dyn \<and> d \<noteq> Dim 1) ds"
  have all: "d = Dim (int r)" if "d \<in> set ?non" for d
    using that non_one_static[OF assms(1,3)] assms(4) by (auto simp: sizes_join_def)
  show ?thesis
  proof (cases ?non)
    case Nil
    show ?thesis
    proof (cases "Dyn \<in> set ds")
      case False
      with Nil have ones: "\<forall>d \<in> set ds. d = Dim 1" by (auto simp: filter_empty_conv)
      then have "r = 1" using assms(4) all_one_dims[OF assms(3) ones] by (auto simp: sizes_join_def)
      moreover have "hd ds = Dim 1" using ones assms(2) by simp
      ultimately show ?thesis using Nil False by (simp add: broadcast_dim_def)
    qed (use Nil in \<open>simp add: broadcast_dim_def\<close>)
  next
    case (Cons d rest)
    have d: "d = Dim (int r)" using all[of d] Cons by simp
    have "remdups (d # rest) = [d]"
    proof -
      have "set rest \<subseteq> {d}" using all Cons d by auto
      then show ?thesis by (induction rest) (auto split: if_splits)
    qed
    then have "broadcast_dim ds = Inr d"
      unfolding broadcast_dim_def Let_def Cons by (auto split: list.splits)
    then show ?thesis using d by simp
  qed
qed

lemma describes_dim_at: "describes_shape s n \<Longrightarrow> describes (dim_at r i s) (size_at r i n) \<or> i \<ge> r"
  by (auto simp: dim_at_def size_at_def list_all2_conv_all_nth)

lemma no_sym_dim_at: "no_sym s \<Longrightarrow> i < r \<Longrightarrow> \<not> is_sym (dim_at r i s)"
  unfolding no_sym_def dim_at_def list_all_length by auto

lemma res_mapM_total:
  assumes "\<And>i. i < length xs \<Longrightarrow> \<exists>y. f (xs ! i) = Inr y \<and> P (y) (zs ! i)" and "length zs = length xs"
  shows "\<exists>ys. res_mapM f xs = Inr ys \<and> list_all2 P ys zs"
  using assms
proof (induction xs arbitrary: zs)
  case (Cons x xs)
  then obtain z zs' where zs: "zs = z # zs'" by (cases zs) auto
  have "\<exists>y. f x = Inr y \<and> P y z" using Cons.prems(1)[of 0] zs by simp
  then obtain y where y: "f x = Inr y" "P y z" by blast
  have "\<exists>ys. res_mapM f xs = Inr ys \<and> list_all2 P ys zs'"
  proof (rule Cons.IH)
    fix i assume "i < length xs"
    then show "\<exists>y. f (xs ! i) = Inr y \<and> P y (zs' ! i)" using Cons.prems(1)[of "Suc i"] zs by simp
  qed (use Cons.prems(2) zs in simp)
  with y zs show ?case by auto
qed simp

lemma broadcast_dims_sound:
  assumes "list_all no_sym ss" and "list_all2 describes_shape ss ns" and "ss \<noteq> []" and "np_broadcasts ns rs"
  shows "\<exists>out. broadcast_dims ss = Inr out \<and> describes_shape out rs"
proof -
  have mr: "max_rank ss = max_rank ns"
    using assms(2) by (intro max_rank_cong) (auto elim!: list_all2_mono dest: list_all2_lengthD)
  let ?r = "max_rank ss"
  have r: "length rs = ?r" using assms(4) mr by (simp add: np_broadcasts_def)
  have "\<exists>d. broadcast_dim (map (dim_at ?r i) ss) = Inr d \<and> describes d (rs ! i)" if i: "i < ?r" for i
  proof (rule broadcast_dim_sound)
    show "no_sym (map (dim_at ?r i) ss)"
      using assms(1) no_sym_dim_at[OF _ i] by (auto simp: no_sym_def[of "map _ _"] list_all_iff)
    show "describes_shape (map (dim_at ?r i) ss) (map (size_at ?r i) ns)"
      using assms(2) describes_dim_at[of _ _ ?r i] i by (auto simp: list_all2_conv_all_nth)
    show "sizes_join (map (size_at ?r i) ns) (rs ! i)"
      using assms(4) i unfolding np_broadcasts_def r by blast
  qed (use assms(3) in simp)
  then show ?thesis
    using res_mapM_total[of "[0..<?r]" "\<lambda>i. broadcast_dim (map (dim_at ?r i) ss)" describes rs] r
    by (simp add: broadcast_dims_def Let_def)
qed

lemma res_mapM_dims_of [simp]: "res_mapM dims_of (map Some ss) = Inr ss"
  by (induction ss) (auto simp: dims_of_def)

lemma broadcast_shapes_ranked [simp]:
  "ss \<noteq> [] \<Longrightarrow> broadcast_shapes (map Some ss) = broadcast_dims ss"
  by (simp add: broadcast_shapes_def)


section \<open>Matrix products\<close>

text \<open>
  The run-time result shape of a matrix product of operands of rank at least two: batch
  dimensions broadcast, the inner sizes agree.
\<close>

definition mm_result :: "nat list \<Rightarrow> nat list \<Rightarrow> nat list \<Rightarrow> bool" where
  "mm_result a b r \<longleftrightarrow>
     2 \<le> length a \<and> 2 \<le> length b \<and> last a = b ! (length b - 2) \<and>
     (\<exists>batch. np_broadcasts [drop_last 2 a, drop_last 2 b] batch \<and> r = batch @ [a ! (length a - 2), last b])"

lemma size_at_full [simp]: "i < length s \<Longrightarrow> size_at (length s) i s = s ! i"
  by (simp add: size_at_def)

lemma size_at_Nil [simp]: "i < r \<Longrightarrow> size_at r i [] = 1"
  by (simp add: size_at_def)

lemma np_broadcasts_scalar_right: "np_broadcasts [s, []] r \<longleftrightarrow> r = s"
proof
  assume np: "np_broadcasts [s, []] r"
  then have len: "length r = length s" by (simp add: np_broadcasts_def max_rank_def)
  moreover have "r ! i = s ! i" if "i < length s" for i
    using np that len unfolding np_broadcasts_def sizes_join_def by force
  ultimately show "r = s" by (simp add: list_eq_iff_nth_eq)
qed (auto simp: np_broadcasts_def max_rank_def sizes_join_def)

lemma np_broadcasts_scalar_left: "np_broadcasts [[], s] r \<longleftrightarrow> r = s"
proof -
  have "np_broadcasts [[], s] r \<longleftrightarrow> np_broadcasts [s, []] r"
    unfolding np_broadcasts_def max_rank_def sizes_join_def by (auto simp: max.commute)
  then show ?thesis by (simp add: np_broadcasts_scalar_right)
qed

lemma drop_last_2_Nil: "length s = 2 \<Longrightarrow> drop_last 2 s = []"
  by (simp add: drop_last_def)

lemma describes_drop_last: "describes_shape ds ns \<Longrightarrow> describes_shape (drop_last k ds) (drop_last k ns)"
  unfolding drop_last_def using list_all2_lengthD[of describes ds ns] by (simp add: list_all2_takeI)

lemma no_sym_drop_last: "no_sym ds \<Longrightarrow> no_sym (drop_last k ds)"
  unfolding no_sym_def drop_last_def list_all_iff by (auto dest: in_set_takeD)

lemma describes_nth: "describes_shape ds ns \<Longrightarrow> i < length ds \<Longrightarrow> describes (ds ! i) (ns ! i)"
  by (simp add: list_all2_conv_all_nth)

lemma describes_last: "describes_shape ds ns \<Longrightarrow> ds \<noteq> [] \<Longrightarrow> describes (last ds) (last ns)"
  by (metis describes_nth diff_less last_conv_nth length_0_conv length_greater_0_conv less_numeral_extra(1) list_all2_lengthD)

lemma describes_append:
  "describes_shape a x \<Longrightarrow> describes_shape b y \<Longrightarrow> describes_shape (a @ b) (x @ y)"
  by (rule list_all2_appendI)

lemma butlast_drop_last: "2 \<le> length s \<Longrightarrow> butlast s = drop_last 2 s @ [s ! (length s - 2)]"
proof -
  assume "2 \<le> length s"
  then have "take (Suc (length s - 2)) s = take (length s - 2) s @ [s ! (length s - 2)]"
    by (intro take_Suc_conv_app_nth) simp
  moreover have "length s - 1 = Suc (length s - 2)" using \<open>2 \<le> length s\<close> by arith
  then have "butlast s = take (Suc (length s - 2)) s" by (simp add: butlast_conv_take)
  ultimately show ?thesis by (simp add: drop_last_def)
qed

lemma last_nth_1: "length s = 2 \<Longrightarrow> last s = s ! 1"
  by (cases s rule: rev_cases) (auto simp: nth_append)

lemma matmul_sound:
  assumes a: "describes_shape a na" "no_sym a" and b: "describes_shape b nb" "no_sym b"
    and mm: "mm_result na nb r" and ranks: "length a = length b \<or> length a = 2 \<or> length b = 2"
  shows "\<exists>out. infer_matmul_pure [Some a, Some b] (e # es) kw = Inr [(Some out, e)] \<and> describes_shape out r"
proof -
  have la: "length na = length a" "2 \<le> length a" and lb: "length nb = length b" "2 \<le> length b"
    using a b mm by (auto simp: mm_result_def dest: list_all2_lengthD)
  obtain batch where batch: "np_broadcasts [drop_last 2 na, drop_last 2 nb] batch"
    and r: "r = batch @ [na ! (length na - 2), last nb]" using mm by (auto simp: mm_result_def)
  have tail: "describes_shape [a ! (length a - 2), last b] [na ! (length na - 2), last nb]"
    using describes_nth[OF a(1), of "length a - 2"] describes_last[OF b(1)] la lb by (cases b) auto
  note simps = infer_matmul_pure_def dims_of_def with_elt0_def elt0_def
  consider (both) "length a = 2" "length b = 2" | (left) "3 \<le> length a" "length b = 2"
    | (right) "length a = 2" "3 \<le> length b" | (same) "3 \<le> length a" "length a = length b"
    using la(2) lb(2) ranks by linarith
  then show ?thesis
  proof cases
    case both
    then have "batch = []" using batch la lb by (simp add: drop_last_2_Nil np_broadcasts_scalar_right)
    then show ?thesis using both tail r last_nth_1[of b] by (auto simp: simps)
  next
    case left
    then have "batch = drop_last 2 na" using batch lb by (simp add: drop_last_2_Nil np_broadcasts_scalar_right)
    then show ?thesis
      using left describes_append[OF describes_drop_last[OF a(1), of 2] tail] r last_nth_1[of b]
      by (auto simp: simps butlast_drop_last)
  next
    case right
    then have "batch = drop_last 2 nb" using batch la by (simp add: drop_last_2_Nil np_broadcasts_scalar_left)
    then show ?thesis
      using right describes_append[OF describes_drop_last[OF b(1), of 2] tail] r by (auto simp: simps)
  next
    case same
    obtain out where "broadcast_dims [drop_last 2 a, drop_last 2 b] = Inr out" "describes_shape out batch"
      using broadcast_dims_sound[of "[drop_last 2 a, drop_last 2 b]" "[drop_last 2 na, drop_last 2 nb]" batch]
        batch a b by (auto simp: describes_drop_last no_sym_drop_last)
    then show ?thesis
      using same r describes_append[OF _ tail, of out batch] broadcast_shapes_ranked[of "[drop_last 2 a, drop_last 2 b]"]
      by (auto simp: simps)
  qed
qed


section \<open>Sound inference as an interface\<close>

text \<open>
  The contract between an inference function and the run-time operation it stands for: whenever
  the operation accepts operands the given shapes describe, inference succeeds and its shape
  describes the result.  It carries over to pipelines.
\<close>

locale sound_op =
  fixes f :: pure_fn and run :: "nat list list \<Rightarrow> nat list \<Rightarrow> bool"
  assumes sound: "list_all no_sym ss \<Longrightarrow> list_all2 describes_shape ss ns \<Longrightarrow> run ns r \<Longrightarrow>
    \<exists>out e'. f (map Some ss) (e # es) kw = Inr [(Some out, e')] \<and> no_sym out \<and> describes_shape out r"

locale sound_pipeline = first: sound_op f run_f + second: sound_op g run_g
  for f run_f g run_g
begin

lemma pipeline_sound:
  assumes "list_all no_sym ss" "list_all2 describes_shape ss ns" "run_f ns r"
    and "list_all no_sym extra" "list_all2 describes_shape extra ms" "run_g (r # ms) t"
  shows "\<exists>mid e1 out e2. f (map Some ss) (e # es) kw = Inr [(Some mid, e1)] \<and>
           g (Some mid # map Some extra) (e1 # es') kw' = Inr [(Some out, e2)] \<and> describes_shape out t"
proof -
  obtain mid e1 where mid: "f (map Some ss) (e # es) kw = Inr [(Some mid, e1)]" "no_sym mid" "describes_shape mid r"
    using first.sound[OF assms(1-3)] by blast
  obtain out e2 where "g (map Some (mid # extra)) (e1 # es') kw' = Inr [(Some out, e2)]" "describes_shape out t"
    using second.sound[of "mid # extra" "r # ms" t e1 es' kw'] assms(4-6) mid by auto
  with mid show ?thesis by auto
qed

end

lemma broadcast_dim_in: "broadcast_dim ds = Inr d \<Longrightarrow> ds \<noteq> [] \<Longrightarrow> d = Dyn \<or> d \<in> set ds"
proof -
  assume a: "broadcast_dim ds = Inr d" "ds \<noteq> []"
  show ?thesis
  proof (cases "filter (\<lambda>d. d \<noteq> Dyn \<and> d \<noteq> Dim 1) ds")
    case Nil
    with a show ?thesis by (auto simp: broadcast_dim_def Let_def split: if_splits)
  next
    case (Cons x xs)
    have "x \<in> set (filter (\<lambda>d. d \<noteq> Dyn \<and> d \<noteq> Dim 1) ds)" unfolding Cons by simp
    then have "x \<in> set ds" by auto
    with a Cons show ?thesis by (auto simp: broadcast_dim_def Let_def split: if_splits list.splits)
  qed
qed

lemma no_sym_iff: "no_sym ds \<longleftrightarrow> (\<forall>d \<in> set ds. \<not> is_sym d)"
  by (simp add: no_sym_def list_all_iff)

lemma res_mapM_all: "res_mapM f xs = Inr ys \<Longrightarrow> (\<And>x y. x \<in> set xs \<Longrightarrow> f x = Inr y \<Longrightarrow> P y) \<Longrightarrow> y \<in> set ys \<Longrightarrow> P y"
proof (induction xs arbitrary: ys)
  case (Cons x xs)
  then obtain z zs where "ys = z # zs" "f x = Inr z" "res_mapM f xs = Inr zs" by (auto simp: res_simps)
  with Cons show ?case by auto
qed simp

lemma broadcast_dims_no_sym:
  assumes "list_all no_sym ss" and "ss \<noteq> []" and "broadcast_dims ss = Inr out"
  shows "no_sym out"
  unfolding no_sym_iff
proof
  fix d assume d: "d \<in> set out"
  let ?r = "max_rank ss"
  show "\<not> is_sym d"
  proof (rule res_mapM_all[OF _ _ d])
    show "res_mapM (\<lambda>i. broadcast_dim (map (dim_at ?r i) ss)) [0..<?r] = Inr out"
      using assms(3) by (simp add: broadcast_dims_def Let_def)
    fix i y assume i: "i \<in> set [0..<?r]" and y: "broadcast_dim (map (dim_at ?r i) ss) = Inr y"
    have "no_sym (map (dim_at ?r i) ss)" using assms(1) i no_sym_dim_at by (auto simp: no_sym_iff list_all_iff)
    then show "\<not> is_sym y"
      using broadcast_dim_in[OF y] assms(2) unfolding no_sym_iff by auto
  qed
qed

definition broadcast_run :: "nat list list \<Rightarrow> nat list \<Rightarrow> bool" where
  "broadcast_run ns r \<longleftrightarrow> ns \<noteq> [] \<and> np_broadcasts ns r"

interpretation elementwise_op: sound_op infer_elementwise_pure broadcast_run
proof
  fix ss ns r e es kw
  assume a: "list_all no_sym ss" "list_all2 describes_shape ss ns" "broadcast_run ns r"
  then have ne: "ss \<noteq> []" by (auto simp: broadcast_run_def)
  obtain out where "broadcast_dims ss = Inr out" "describes_shape out r"
    using broadcast_dims_sound[OF a(1,2) ne] a(3) by (auto simp: broadcast_run_def)
  then show "\<exists>out e'. infer_elementwise_pure (map Some ss) (e # es) kw = Inr [(Some out, e')] \<and> no_sym out \<and> describes_shape out r"
    using ne broadcast_dims_no_sym[OF a(1) ne] by (auto simp: infer_elementwise_pure_def with_elt0_def elt0_def)
qed

interpretation compare_op: sound_op infer_compare_pure broadcast_run
proof
  fix ss ns r e es kw
  assume a: "list_all no_sym ss" "list_all2 describes_shape ss ns" "broadcast_run ns r"
  then have ne: "ss \<noteq> []" by (auto simp: broadcast_run_def)
  obtain out where "broadcast_dims ss = Inr out" "describes_shape out r"
    using broadcast_dims_sound[OF a(1,2) ne] a(3) by (auto simp: broadcast_run_def)
  then show "\<exists>out e'. infer_compare_pure (map Some ss) (e # es) kw = Inr [(Some out, e')] \<and> no_sym out \<and> describes_shape out r"
    using ne broadcast_dims_no_sym[OF a(1) ne] by (auto simp: infer_compare_pure_def)
qed

definition matmul_run :: "nat list list \<Rightarrow> nat list \<Rightarrow> bool" where
  "matmul_run ns r = (case ns of [a, b] \<Rightarrow> mm_result a b r \<and> (length a = length b \<or> length a = 2 \<or> length b = 2) | _ \<Rightarrow> False)"

lemma matmul_dims_from:
  assumes "2 \<le> length a" "2 \<le> length b" and "infer_matmul_pure [Some a, Some b] (e # es) kw = Inr [(Some out, e)]"
    and "\<And>x. broadcast_dims [drop_last 2 a, drop_last 2 b] = Inr x \<Longrightarrow> no_sym x"
  shows "d \<in> set out \<Longrightarrow> d \<in> set a \<or> d \<in> set b \<or> \<not> is_sym d"
proof -
  assume d: "d \<in> set out"
  have m: "a ! 0 \<in> set a" "a ! (length a - 2) \<in> set a" "b ! 1 \<in> set b" "last b \<in> set b"
    using assms(1,2) by (auto intro!: nth_mem last_in_set)
  have "broadcast_shapes [Some (drop_last 2 a), Some (drop_last 2 b)] = Inr x \<Longrightarrow> d \<in> set x \<Longrightarrow> \<not> is_sym d" for x
    using broadcast_shapes_ranked[of "[drop_last 2 a, drop_last 2 b]"] assms(4)[of x] by (simp add: no_sym_iff)
  with assms(3) d m show ?thesis
    by (auto simp: infer_matmul_pure_def dims_of_def with_elt0_def elt0_def res_simps drop_last_def
        dest: in_set_butlastD in_set_takeD split: if_splits)
qed

lemma matmul_no_sym:
  assumes "no_sym a" "no_sym b" "2 \<le> length a" "2 \<le> length b"
    and "infer_matmul_pure [Some a, Some b] (e # es) kw = Inr [(Some out, e)]"
  shows "no_sym out"
proof -
  have "no_sym x" if "broadcast_dims [drop_last 2 a, drop_last 2 b] = Inr x" for x
    using that broadcast_dims_no_sym[of "[drop_last 2 a, drop_last 2 b]" x] assms(1,2) by (simp add: no_sym_drop_last)
  from matmul_dims_from[OF assms(3-5) this] show ?thesis using assms(1,2) by (auto simp: no_sym_iff)
qed

interpretation matmul_op: sound_op infer_matmul_pure matmul_run
proof
  fix ss ns r e es kw
  assume a: "list_all no_sym ss" "list_all2 describes_shape ss ns" "matmul_run ns r"
  then obtain na nb where ns: "ns = [na, nb]" and mm: "mm_result na nb r"
    and ranks: "length na = length nb \<or> length na = 2 \<or> length nb = 2"
    by (auto simp: matmul_run_def split: list.splits)
  obtain x y where ss: "ss = [x, y]" "describes_shape x na" "describes_shape y nb" "no_sym x" "no_sym y"
    using a ns by (auto simp: list_all2_Cons2)
  have len: "length x = length na" "length y = length nb" using ss by (auto dest: list_all2_lengthD)
  obtain out where out: "infer_matmul_pure [Some x, Some y] (e # es) kw = Inr [(Some out, e)]" "describes_shape out r"
    using matmul_sound[OF ss(2,4) ss(3,5) mm] ranks len by metis
  then have "no_sym out" using matmul_no_sym[OF ss(4,5)] mm len by (simp add: mm_result_def)
  with out ss show "\<exists>out e'. infer_matmul_pure (map Some ss) (e # es) kw = Inr [(Some out, e')] \<and> no_sym out \<and> describes_shape out r"
    by auto
qed

interpretation matmul_bias: sound_pipeline infer_matmul_pure matmul_run infer_elementwise_pure broadcast_run
  by unfold_locales


section \<open>Lengths of slices and convolutions\<close>

lemma mult_le_iff_le_div: "0 < s \<Longrightarrow> t * s \<le> N \<longleftrightarrow> t \<le> N div s" for s t N :: int
proof
  assume s: "0 < s" and "t * s \<le> N"
  then have "(t * s) div s \<le> N div s" by (intro zdiv_mono1)
  with s show "t \<le> N div s" by simp
next
  assume s: "0 < s" and "t \<le> N div s"
  then have "t * s \<le> N div s * s" by (intro mult_right_mono) auto
  also have "\<dots> \<le> N" using s by (metis add.commute add_increasing div_mult_mod_eq order_refl pos_mod_sign)
  finally show "t * s \<le> N" .
qed

lemma card_multiples:
  fixes N s :: int
  assumes "0 < s" "0 \<le> N"
  shows "int (card {t::nat. int t * s \<le> N}) = N div s + 1"
proof -
  have "{t::nat. int t * s \<le> N} = {.. nat (N div s)}"
    using assms by (auto simp: mult_le_iff_le_div le_nat_iff pos_imp_zdiv_nonneg_iff)
  then show ?thesis using assms by (simp add: pos_imp_zdiv_nonneg_iff)
qed

text \<open>The positions a kernel window takes on the padded input.\<close>

definition window_positions :: "int \<Rightarrow> int \<Rightarrow> int \<Rightarrow> int \<Rightarrow> int \<Rightarrow> nat set" where
  "window_positions in_len ker stride padding dilation =
     {t. int t * stride + dilation * (ker - 1) < in_len + 2 * padding}"

text \<open>The indices \<open>start, start + step, ...\<close> below \<open>stop\<close>.\<close>

definition slice_positions :: "int \<Rightarrow> int \<Rightarrow> int \<Rightarrow> nat set" where
  "slice_positions start stop step = {j. start + int j * step < stop}"

lemma card_slice_positions:
  assumes "start \<le> stop" "0 < step"
  shows "int (card (slice_positions start stop step)) = (stop - start + step - 1) div step"
proof (cases "start = stop")
  case True
  then have "slice_positions start stop step = {}" using assms by (auto simp: slice_positions_def not_less)
  moreover have "(step - 1) div step = 0" using assms(2) by (simp add: div_pos_pos_trivial)
  ultimately show ?thesis using True by simp
next
  case False
  have "slice_positions start stop step = {t. int t * step \<le> stop - start - 1}"
    by (auto simp: slice_positions_def)
  then have "int (card (slice_positions start stop step)) = (stop - start - 1) div step + 1"
    using card_multiples[of step "stop - start - 1"] assms False by simp
  also have "\<dots> = (stop - start + step - 1) div step"
    using assms(2) div_add_self2[of step "stop - start - 1"] by (simp add: algebra_simps)
  finally show ?thesis .
qed


section \<open>Reduced dimensions\<close>

lemma norm_dim_step_set:
  "set (norm_dim_step rank out (Inr v)) = set out \<union> {i. i < rank \<and> (int i = v \<or> int i - int rank = v)}"
  by (auto simp: norm_dim_step_def Let_def) 

lemma norm_dims_fold:
  "set (foldl (norm_dim_step rank) out (map Inr ds))
     = set out \<union> {i. i < rank \<and> (\<exists>d \<in> set ds. int i = d \<or> int i - int rank = d)}"
  by (induction ds arbitrary: out) (auto simp: norm_dim_step_set)

lemma norm_dims_distinct: "distinct out \<Longrightarrow> distinct (foldl (norm_dim_step rank) out ds)"
proof (induction ds arbitrary: out)
  case (Cons d ds)
  then have "distinct (norm_dim_step rank out d)" by (auto simp: norm_dim_step_def Let_def split: sum.splits)
  with Cons show ?case by simp
qed simp

lemma reduce_dims_list:
  "concat (map (\<lambda>(i, d). if i \<in> R then (if k then [x] else []) else [d]) l)
     = (if k then map (\<lambda>(i, d). if i \<in> R then x else d) l else map snd (filter (\<lambda>(i, d). i \<notin> R) l))"
  by (induction l) auto

lemma reduce_dims_keep:
  "reduce_dims red True s = map (\<lambda>i. if i \<in> set red then Dim 1 else s ! i) [0..<length s]"
  unfolding reduce_dims_def reduce_dims_list by (rule nth_equalityI) (auto simp: nth_enum_from)

lemma reduce_dims_drop:
  "reduce_dims red False s = map (\<lambda>i. s ! i) (filter (\<lambda>i. i \<notin> set red) [0..<length s])"
proof -
  have e: "enum_from 0 s = map (\<lambda>i. (i, s ! i)) [0..<length s]" by (rule nth_equalityI) (auto simp: nth_enum_from)
  show ?thesis unfolding reduce_dims_def reduce_dims_list e by (simp add: filter_map comp_def)
qed


text \<open>The positions a list of dimensions names, counted from the front or from the back.\<close>

definition named_positions :: "int list \<Rightarrow> nat \<Rightarrow> nat set" where
  "named_positions ds n = {i. i < n \<and> (int i \<in> set ds \<or> int i - int n \<in> set ds)}"

lemma normalize_named_positions:
  "set (normalize_reduce_dims (ASeq (map Dim ds)) n) = named_positions ds n"
  "distinct (normalize_reduce_dims (ASeq (map Dim ds)) n)"
proof -
  have m: "map dim_int (map Dim ds) = map Inr ds" by simp
  have "normalize_reduce_dims (ASeq (map Dim ds)) n = foldl (norm_dim_step n) [] (map Inr ds)"
    unfolding normalize_reduce_dims_def attr.case m ..
  moreover have "named_positions ds n = {i. i < n \<and> (\<exists>d \<in> set ds. int i = d \<or> int i - int n = d)}"
    unfolding named_positions_def by blast
  ultimately show "set (normalize_reduce_dims (ASeq (map Dim ds)) n) = named_positions ds n"
    using norm_dims_fold[of n "[]" ds] by simp
  show "distinct (normalize_reduce_dims (ASeq (map Dim ds)) n)"
    by (simp add: normalize_reduce_dims_def norm_dims_distinct)
qed


section \<open>Positions of a Python list\<close>

lemma py_pos_range: "- int n \<le> i \<Longrightarrow> i < int n \<Longrightarrow> \<exists>k. py_pos n i = Some k \<and> k < n"
  by (auto simp: py_pos_def Let_def)

lemma py_swap_ok:
  assumes "py_pos (length s) i = Some a" "py_pos (length s) j = Some b"
  shows "py_swap s i j = Inr (s[a := s ! b, b := s ! a])"
  using assms py_pos_Some_less[OF assms(1)] py_pos_Some_less[OF assms(2)]
  by (simp add: py_swap_def py_index_def py_set_def)

lemma swap_swap: "a < length s \<Longrightarrow> b < length s \<Longrightarrow> (s[a := s ! b, b := s ! a])[a := s[a := s ! b, b := s ! a] ! b, b := s[a := s ! b, b := s ! a] ! a] = s"
  by (auto simp: list_eq_iff_nth_eq nth_list_update)

lemma py_insert_in: "0 \<le> d \<Longrightarrow> d \<le> int (length s) \<Longrightarrow> py_insert s d v = take (nat d) s @ v # drop (nat d) s"
  by (simp add: py_insert_def Let_def min_absorb1)


section \<open>Concatenation\<close>

text \<open>The run-time result of concatenating along position \<open>k\<close>.\<close>

definition cat_result :: "nat \<Rightarrow> nat list list \<Rightarrow> nat list \<Rightarrow> bool" where
  "cat_result k ns r \<longleftrightarrow> ns \<noteq> [] \<and> (\<forall>n \<in> set ns. k < length n) \<and> r = (hd ns)[k := sum_list (map (\<lambda>n. n ! k) ns)]"

lemma cat_fold:
  assumes "list_all2 describes_shape ss ns" and "list_all no_sym ss" and "\<forall>n \<in> set ns. k < length n"
  shows "\<exists>tot unk. res_foldM (cat_step (int k)) (t, u) (map Some ss) = Inr (tot, unk) \<and> (u \<longrightarrow> unk) \<and>
           (\<not> unk \<longrightarrow> tot = t + int (sum_list (map (\<lambda>n. n ! k) ns)))"
  using assms
proof (induction arbitrary: t u rule: list_all2_induct)
  case (Cons s ss n ns)
  have k: "k < length s" "k < length n" using Cons.hyps(1) Cons.prems(2) by (auto dest: list_all2_lengthD)
  have d: "describes (s ! k) (n ! k)" using describes_nth[OF Cons.hyps(1) k(1)] .
  have ns: "\<not> is_sym (s ! k)" using Cons.prems(1) k by (simp add: no_sym_iff)
  show ?case
  proof (cases "s ! k")
    case Dyn
    then have step: "cat_step (int k) (t, u) (Some s) = Inr (t, True)" using k by (simp add: cat_step_def dims_of_def)
    from Cons.IH[of t True] Cons.prems obtain tot
      where "res_foldM (cat_step (int k)) (t, True) (map Some ss) = Inr (tot, True)" by auto
    with step show ?thesis by auto
  next
    case (Dim v)
    then have step: "cat_step (int k) (t, u) (Some s) = Inr (t + int (n ! k), u)"
      using k d by (simp add: cat_step_def dims_of_def)
    from Cons.IH[of "t + int (n ! k)" u] Cons.prems obtain tot unk
      where "res_foldM (cat_step (int k)) (t + int (n ! k), u) (map Some ss) = Inr (tot, unk)" "u \<longrightarrow> unk"
        "\<not> unk \<longrightarrow> tot = t + int (n ! k) + int (sum_list (map (\<lambda>n. n ! k) ns))" by auto
    with step show ?thesis by auto
  next
    case (Sym x)
    with ns show ?thesis by simp
  qed
qed simp


section \<open>Properties of shape inference\<close>

text \<open>C19: broadcasting inference is sound and complete for success: when run-time shapes described by
  the operand shapes broadcast under the NumPy rules, \<open>_broadcast_shapes\<close> raises no error and
  its result describes the broadcast shape.\<close>

theorem broadcast_shapes_sound:
  assumes "list_all no_sym ss" and "list_all2 describes_shape ss ns" and "ss \<noteq> []" and "np_broadcasts ns rs"
  shows "\<exists>out. broadcast_shapes (map Some ss) = Inr out \<and> describes_shape out rs"
  using broadcast_dims_sound[OF assms] assms(3) by simp

theorem broadcast_shapes_sound_witness:
  "\<exists>out. broadcast_shapes [Some [Dyn, Dim 1, Dim 4], Some [Dim 3, Dyn]] = Inr out \<and> describes_shape out [2, 3, 4]"
  using broadcast_shapes_sound[of "[[Dyn, Dim 1, Dim 4], [Dim 3, Dyn]]" "[[2, 1, 4], [3, 4]]" "[2, 3, 4]"]
  by (simp add: no_sym_def np_broadcasts_def max_rank_def sizes_join_def size_at_def All_less_Suc numeral_eq_Suc)

text \<open>A matrix product followed by a broadcast addition (a linear layer with bias): when both
  operations run on operands the shapes describe, inference of the whole pipeline succeeds and
  describes the final result.\<close>

theorem matmul_bias_sound:
  assumes "list_all no_sym [a, b]" "list_all2 describes_shape [a, b] [na, nb]" "matmul_run [na, nb] r"
    and "list_all no_sym extra" "list_all2 describes_shape extra ms" "broadcast_run (r # ms) t"
  shows "\<exists>mid e1 out e2. infer_matmul_pure (map Some [a, b]) (e # es) kw = Inr [(Some mid, e1)] \<and>
           infer_elementwise_pure (Some mid # map Some extra) (e1 # es') kw' = Inr [(Some out, e2)] \<and> describes_shape out t"
  by (rule matmul_bias.pipeline_sound[OF assms])

theorem matmul_bias_sound_witness:
  "\<exists>mid e1 out e2. infer_matmul_pure (map Some [[Dyn, Dim 3], [Dim 3, Dim 4]]) [''f32'', ''f32''] [] = Inr [(Some mid, e1)] \<and>
     infer_elementwise_pure (Some mid # map Some [[Dim 4]]) [e1, ''f32''] [] = Inr [(Some out, e2)] \<and> describes_shape out [2, 4]"
proof (rule matmul_bias_sound)
  show "matmul_run [[2, 3], [3, 4]] [2, 4]"
    by (auto simp: matmul_run_def mm_result_def drop_last_def np_broadcasts_def max_rank_def intro!: exI[of _ "[]"])
  show "broadcast_run ([2, 4] # [[4]]) [2, 4]"
    by (simp add: broadcast_run_def np_broadcasts_def max_rank_def sizes_join_def size_at_def All_less_Suc numeral_eq_Suc)
qed (simp_all add: no_sym_def)

text \<open>For batched operands of different ranks the run-time product broadcasts the batch
  dimensions, but inference returns the left operand's shape unchanged: its last dimension is
  the contracted one.\<close>

theorem matmul_rank_mismatch_unsound:
  "mm_result [2, 3, 4, 5] [3, 5, 6] [2, 3, 4, 6] \<and>
   infer_matmul_pure [Some [Dim 2, Dim 3, Dim 4, Dim 5], Some [Dim 3, Dim 5, Dim 6]] [''f32'', ''f32''] []
     = Inr [(Some [Dim 2, Dim 3, Dim 4, Dim 5], ''f32'')] \<and>
   \<not> describes_shape [Dim 2, Dim 3, Dim 4, Dim 5] [2, 3, 4, 6]"
proof (intro conjI)
  show "mm_result [2, 3, 4, 5] [3, 5, 6] [2, 3, 4, 6]"
    unfolding mm_result_def
    by (auto simp: drop_last_def np_broadcasts_def max_rank_def sizes_join_def size_at_def All_less_Suc numeral_eq_Suc
        intro!: exI[of _ "[Suc (Suc 0), Suc (Suc (Suc 0))]"])
qed (simp_all add: infer_matmul_pure_def dims_of_def with_elt0_def elt0_def)

text \<open>The inferred length of a one-dimensional convolution is the number of kernel positions on
  the padded input.\<close>

theorem conv1d_length:
  assumes "0 < stride" and "0 \<le> in_len + 2 * padding - dilation * (ker - 1) - 1"
  shows "infer_conv1d_pure [Some [b, c, Dim in_len], Some [oc, c', Dim ker]] (e # es)
           [(''stride'', ASeq [Dim stride]), (''padding'', ASeq [Dim padding]), (''dilation'', ASeq [Dim dilation])]
       = Inr [(Some [b, oc, Dim (int (card (window_positions in_len ker stride padding dilation)))], e)]"
proof -
  have "window_positions in_len ker stride padding dilation
      = {t. int t * stride \<le> in_len + 2 * padding - dilation * (ker - 1) - 1}"
    by (auto simp: window_positions_def)
  then show ?thesis
    using card_multiples[OF assms] assms(1)
    by (simp add: infer_conv1d_pure_def dims_of_def conv1d_scalar_def dict_get_def elt0_or_f32_def Let_def)
qed

theorem conv1d_length_witness:
  "infer_conv1d_pure [Some [Dim 1, Dim 8, Dim 10], Some [Dim 16, Dim 8, Dim 3]] [''f32'']
     [(''stride'', ASeq [Dim 2]), (''padding'', ASeq [Dim 1]), (''dilation'', ASeq [Dim 1])]
   = Inr [(Some [Dim 1, Dim 16, Dim (int (card (window_positions 10 3 2 1 1)))], ''f32'')]"
  using conv1d_length[of 2 10 1 1 3 "Dim 1" "Dim 8" "Dim 16" "Dim 8" "''f32''" "[]"] by simp

text \<open>A slice with bounds inside the dimension gets exactly the number of selected indices; the
  other dimensions are unchanged.\<close>

theorem slice_length:
  assumes "k < length s" and "s ! k = Dim n" and "0 \<le> start" "start \<le> stop" "stop \<le> n" "stop < int64_max" and "0 < step"
  shows "infer_slice_pure [Some s] (e # es)
           [(''dim'', AInt (int k)), (''start'', AInt start), (''end'', AInt stop), (''step'', AInt step)]
       = Inr [(Some (s[k := Dim (int (card (slice_positions start stop step)))]), e)]"
  using assms card_slice_positions[OF assms(4,7)]
  by (simp add: infer_slice_pure_def dims_of_def dict_get_def slice_len_def with_elt0_def elt0_def py_set_def)

theorem slice_length_witness:
  "infer_slice_pure [Some [Dim 4, Dim 10]] [''f32'']
     [(''dim'', AInt (int 1)), (''start'', AInt 1), (''end'', AInt 8), (''step'', AInt 3)]
   = Inr [(Some ([Dim 4, Dim 10][1 := Dim (int (card (slice_positions 1 8 3)))]), ''f32'')]"
  by (rule slice_length[of 1 "[Dim 4, Dim 10]" 10 1 8 3]) (simp_all add: int64_max_def)

text \<open>A slice end past the dimension is not clamped: of a dimension of four, \<open>[0:10]\<close> is
  inferred to have ten elements.\<close>

theorem slice_not_clamped:
  "infer_slice_pure [Some [Dim 4]] [''f32''] [(''end'', AInt 10)] = Inr [(Some [Dim 10], ''f32'')]"
  by (simp add: infer_slice_pure_def dims_of_def dict_get_def slice_len_def with_elt0_def elt0_def py_set_def int64_max_def)

text \<open>Transposing twice over the same in-range dimensions, negative ones included, gives back the
  shape, and selecting the dimension \<open>unsqueeze\<close> inserted undoes it.\<close>

theorem transpose_unsqueeze_inverse:
  assumes "- int (length s) \<le> d0" "d0 < int (length s)" "- int (length s) \<le> d1" "d1 < int (length s)"
    and "0 \<le> d" "d \<le> int (length s)"
  shows "res_bind (infer_transpose_pure [Some s] [e] [(''dim0'', AInt d0), (''dim1'', AInt d1)])
           (\<lambda>out. infer_transpose_pure (map fst out) (map snd out) [(''dim0'', AInt d0), (''dim1'', AInt d1)])
         = Inr [(Some s, e)] \<and>
         res_bind (infer_unsqueeze_pure [Some s] [e] [(''dim'', AInt d)])
           (\<lambda>out. infer_select_pure (map fst out) (map snd out) [(''dim'', AInt d)])
         = Inr [(Some s, e)]"
proof
  obtain a b where ab: "py_pos (length s) d0 = Some a" "a < length s" "py_pos (length s) d1 = Some b" "b < length s"
    using py_pos_range assms(1-4) by metis
  show "res_bind (infer_transpose_pure [Some s] [e] [(''dim0'', AInt d0), (''dim1'', AInt d1)])
           (\<lambda>out. infer_transpose_pure (map fst out) (map snd out) [(''dim0'', AInt d0), (''dim1'', AInt d1)])
         = Inr [(Some s, e)]"
    using assms(2,4) ab swap_swap[of a s b]
    by (simp add: infer_transpose_pure_def dims_of_def dict_get_def with_elt0_def elt0_def py_swap_ok)
next
  have "py_pop (py_insert s d (Dim 1)) d = Inr s"
    using assms(5,6) by (simp add: py_insert_in py_pop_def py_pos_def Let_def min_absorb2)
  then show "res_bind (infer_unsqueeze_pure [Some s] [e] [(''dim'', AInt d)])
           (\<lambda>out. infer_select_pure (map fst out) (map snd out) [(''dim'', AInt d)])
         = Inr [(Some s, e)]"
    using assms(5,6)
    by (simp add: infer_unsqueeze_pure_def infer_select_pure_def dims_of_def dict_get_def with_elt0_def elt0_def Let_def)
qed

theorem transpose_unsqueeze_inverse_witness:
  "res_bind (infer_transpose_pure [Some [Dim 2, Dyn, Dim 4]] [''f32''] [(''dim0'', AInt (-1)), (''dim1'', AInt 0)])
      (\<lambda>out. infer_transpose_pure (map fst out) (map snd out) [(''dim0'', AInt (-1)), (''dim1'', AInt 0)])
    = Inr [(Some [Dim 2, Dyn, Dim 4], ''f32'')]"
  using transpose_unsqueeze_inverse[of "[Dim 2, Dyn, Dim 4]" "-1" 0 1 "''f32''"] by simp

text \<open>A reduction over a list of dimensions removes, or with \<open>keepdim\<close> sets to one, exactly the
  dimensions the list names, counted from the front or from the back, and nothing else.\<close>

theorem reduce_shape:
  "infer_reduce_pure [Some s] (e # es) [(''dim'', ASeq (map Dim ds)), (''keepdim'', ABool keep)]
     = Inr [(Some (if keep then map (\<lambda>i. if i \<in> named_positions ds (length s) then Dim 1 else s ! i) [0..<length s]
                   else map (\<lambda>i. s ! i) (filter (\<lambda>i. i \<notin> named_positions ds (length s)) [0..<length s])), e)]"
  using normalize_named_positions(1)[of ds "length s"]
  by (simp add: infer_reduce_pure_def dims_of_def dict_get_def with_elt0_def elt0_def reduce_dims_keep reduce_dims_drop)

text \<open>Concatenation along an in-range dimension: inference succeeds and its shape describes the
  run-time result, in which the sizes along that dimension add up.\<close>

theorem cat_sound:
  assumes "list_all2 describes_shape ss ns" and "list_all no_sym ss" and "cat_result k ns r"
  shows "\<exists>out. infer_cat_pure (map Some ss) (e # es) [(''dim'', AInt (int k))] = Inr [(Some out, e)] \<and> describes_shape out r"
proof -
  obtain s ss' n ns' where c: "ss = s # ss'" "ns = n # ns'" "describes_shape s n"
    using assms(1,3) by (cases ss; cases ns) (auto simp: cat_result_def)
  have k: "k < length s" using assms(3) c by (auto simp: cat_result_def dest: list_all2_lengthD)
  obtain tot unk where f: "res_foldM (cat_step (int k)) (0, False) (map Some ss) = Inr (tot, unk)"
      "\<not> unk \<longrightarrow> tot = int (sum_list (map (\<lambda>n. n ! k) ns))"
    using cat_fold[OF assms(1,2), of k 0 False] assms(3) by (auto simp: cat_result_def)
  let ?v = "if unk then Dyn else if tot > 0 then Dim tot else Dyn"
  have "infer_cat_pure (map Some ss) (e # es) [(''dim'', AInt (int k))] = Inr [(Some (s[k := ?v]), e)]"
    using f(1) k c(1) by (simp add: infer_cat_pure_def dict_get_def dims_of_def with_elt0_def elt0_def py_set_def)
  moreover have "describes ?v (sum_list (map (\<lambda>n. n ! k) ns))" using f(2) by auto
  then have "describes_shape (s[k := ?v]) r"
    using assms(3) c by (simp add: cat_result_def list_all2_update_cong)
  ultimately show ?thesis by blast
qed

theorem cat_sound_witness:
  "\<exists>out. infer_cat_pure (map Some [[Dim 2, Dim 3], [Dim 2, Dim 5]]) [''f32''] [(''dim'', AInt (int 1))] = Inr [(Some out, ''f32'')]
     \<and> describes_shape out [2, 8]"
  by (rule cat_sound[of _ "[[2, 3], [2, 5]]"]) (simp_all add: no_sym_def cat_result_def)

end
