(* ===== verification/Shape_MLIR.thy ===== *)
theory Shape_MLIR
  imports Shape_Pure
begin

text \<open>
  Shape inference on MLIR types: \<open>compiler/shape/shape_inference_activations.py\<close>,
  \<open>shape_inference_matmul.py\<close> and the type helpers of \<open>shape_inference_utils.py\<close>.
  The Python bindings of MLIR are not part of the repository; what the code uses of them is the
  record \<open>mlir\<close>, a parameter of every definition, and \<open>mlir_ok\<close> states what their
  documentation promises: a type built by \<open>RankedTensorType.get\<close> is ranked and has the element
  type and the sizes it was given, where a negative size only says dynamic; static sizes are
  accepted; the built-in element types print as their names.
\<close>


section \<open>The MLIR bindings\<close>

record ('t, 'e) mlir =
  is_ranked :: "'t \<Rightarrow> bool"
  is_unranked :: "'t \<Rightarrow> bool"
  type_shape :: "'t \<Rightarrow> int list"
  element_type :: "'t \<Rightarrow> 'e"
  elt_str :: "'e \<Rightarrow> string"
  ranked_get :: "int list \<Rightarrow> 'e \<Rightarrow> 't res"
  unranked_get :: "'e \<Rightarrow> 't"
  unranked_shape :: "'t \<Rightarrow> int list res"
  f32_type :: 'e
  f64_type :: 'e
  f16_type :: 'e
  bf16_type :: 'e
  int_type :: "nat \<Rightarrow> 'e"

definition mlir_ok :: "('t, 'e) mlir \<Rightarrow> bool" where
  "mlir_ok M \<longleftrightarrow>
     (\<forall>ds e t. ranked_get M ds e = Inr t \<longrightarrow>
        is_ranked M t \<and> element_type M t = e \<and> map (max (-1)) (type_shape M t) = map (max (-1)) ds) \<and>
     (\<forall>ds e. list_all (\<lambda>d. 0 \<le> d) ds \<longrightarrow> is_ok (ranked_get M ds e)) \<and>
     elt_str M (f32_type M) = ''f32'' \<and> elt_str M (f64_type M) = ''f64'' \<and> elt_str M (f16_type M) = ''f16'' \<and>
     elt_str M (bf16_type M) = ''bf16'' \<and> elt_str M (int_type M 8) = ''i8'' \<and> elt_str M (int_type M 32) = ''i32'' \<and>
     elt_str M (int_type M 64) = ''i64'' \<and> elt_str M (int_type M 1) = ''i1''"


section \<open>Type helpers\<close>

definition elt_names :: "string list" where
  "elt_names = [''f32'', ''f64'', ''f16'', ''bf16'', ''i32'', ''i64'', ''i8'', ''i1'', ''ui8'']"

definition elt_type_str :: "('t, 'e) mlir \<Rightarrow> 't \<Rightarrow> string" where
  "elt_type_str M tp =
     (if is_ranked M tp \<or> is_unranked M tp
      then (case find (contains_str (elt_str M (element_type M tp))) elt_names of Some s \<Rightarrow> s | None \<Rightarrow> ''f32'')
      else ''f32'')"

definition ranked_shape :: "('t, 'e) mlir \<Rightarrow> 't \<Rightarrow> shp" where
  "ranked_shape M tp =
     (if is_ranked M tp then Some (map (\<lambda>d. if d \<ge> 0 then Dim d else Dyn) (type_shape M tp)) else None)"

definition elt_type_map :: "('t, 'e) mlir \<Rightarrow> (string, 'e) dict" where
  "elt_type_map M =
     [(''f32'', f32_type M), (''f64'', f64_type M), (''f16'', f16_type M), (''bf16'', bf16_type M),
      (''i8'', int_type M 8), (''i32'', int_type M 32), (''i64'', int_type M 64), (''bool'', int_type M 1)]"

definition elt_from_str :: "('t, 'e) mlir \<Rightarrow> string \<Rightarrow> 'e" where
  "elt_from_str M s = dict_get (elt_type_map M) s (f32_type M)"

text \<open>A symbolic dimension reaches the bindings as a string, which they reject.\<close>

fun mlir_size :: "dim \<Rightarrow> int res" where
  "mlir_size Dyn = Inr (-1)"
| "mlir_size (Dim n) = Inr n"
| "mlir_size (Sym _) = Inl TypeError"

definition make_ranked_type :: "('t, 'e) mlir \<Rightarrow> shp \<Rightarrow> string \<Rightarrow> 't res" where
  "make_ranked_type M shape elt =
     res_bind (dims_of shape) (\<lambda>ds. res_bind (res_mapM mlir_size ds) (\<lambda>sizes. ranked_get M sizes (elt_from_str M elt)))"

abbreviation ranked1 :: "('t, 'e) mlir \<Rightarrow> dim list \<Rightarrow> string \<Rightarrow> 't list res" where
  "ranked1 M ds elt \<equiv> res_bind (make_ranked_type M (Some ds) elt) (\<lambda>t. Inr [t])"

definition infer_ir_via_pure :: "('t, 'e) mlir \<Rightarrow> pure_fn \<Rightarrow> 't list \<Rightarrow> attrs \<Rightarrow> 't list res" where
  "infer_ir_via_pure M f types kw =
     (if types = [] then Inr []
      else res_bind (f (map (ranked_shape M) types) (map (elt_type_str M) types) kw)
             (res_mapM (\<lambda>(s, e). make_ranked_type M s e)))"

fun broadcast_collect :: "('t, 'e) mlir \<Rightarrow> dim list list \<Rightarrow> 't list \<Rightarrow> dim list res" where
  "broadcast_collect M shapes [] = broadcast_shapes (map Some shapes)"
| "broadcast_collect M shapes (t # ts) =
     (case ranked_shape M t of
        None \<Rightarrow> Inr (replicate (max (length shapes + 1) 1) Dyn)
      | Some s \<Rightarrow> broadcast_collect M (shapes @ [s]) ts)"

definition broadcast_types :: "('t, 'e) mlir \<Rightarrow> 't list \<Rightarrow> dim list res" where
  "broadcast_types M types = broadcast_collect M [] types"


section \<open>Element-wise, normalisation, products\<close>

type_synonym ('t, 'e) ir_fn = "('t, 'e) mlir \<Rightarrow> 't list \<Rightarrow> attrs \<Rightarrow> 't list res"

definition infer_broadcast :: "('t, 'e) ir_fn" where
  "infer_broadcast M types kw =
     (case types of [] \<Rightarrow> Inr []
      | t # _ \<Rightarrow> res_bind (broadcast_types M types) (\<lambda>b. ranked1 M b (elt_type_str M t)))"

definition infer_elementwise :: "('t, 'e) ir_fn" where
  "infer_elementwise M types kw =
     (case types of [] \<Rightarrow> Inr []
      | t # _ \<Rightarrow> res_bind (broadcast_types M types) (\<lambda>b. ranked1 M b (elt_type_str M t)))"

definition infer_layer_norm :: "('t, 'e) ir_fn" where
  "infer_layer_norm M types kw =
     (case types of [] \<Rightarrow> Inr []
      | t # _ \<Rightarrow> res_bind (broadcast_types M [t]) (\<lambda>b. ranked1 M b (elt_type_str M t)))"

definition infer_rms_norm :: "('t, 'e) ir_fn" where
  "infer_rms_norm M types kw =
     (case types of [] \<Rightarrow> Inr []
      | t # _ \<Rightarrow> res_bind (broadcast_types M [t]) (\<lambda>b. ranked1 M b (elt_type_str M t)))"

definition infer_matmul :: "('t, 'e) ir_fn" where
  "infer_matmul M types kw = infer_ir_via_pure M infer_matmul_pure types kw"

definition infer_linear :: "('t, 'e) ir_fn" where
  "infer_linear M types kw = infer_ir_via_pure M infer_linear_pure types kw"


section \<open>Shape manipulation\<close>

text \<open>
  The delegating functions bind their named parameters and pass them on under the same names, so
  the attributes reach the pure function as they came, with the named parameters present.
\<close>

definition bind_kw :: "attrs \<Rightarrow> (string \<times> attr) list \<Rightarrow> attrs" where
  "bind_kw kw defaults = map (\<lambda>(k, d). (k, dict_get kw k d)) defaults @ filter (\<lambda>(k, _). k \<notin> fst ` set defaults) kw"

definition infer_view :: "('t, 'e) ir_fn" where
  "infer_view M types kw = infer_ir_via_pure M infer_view_pure types (bind_kw kw [(''shape'', ANone)])"

definition infer_unsqueeze :: "('t, 'e) ir_fn" where
  "infer_unsqueeze M types kw = infer_ir_via_pure M infer_unsqueeze_pure types (bind_kw kw [(''dim'', AInt 0)])"

text \<open>\<open>0 <= dim < len(parts)\<close> compares the attribute itself; a non-number raises.\<close>

fun attr_number :: "attr \<Rightarrow> int res" where
  "attr_number (AInt i) = Inr i"
| "attr_number (ABool b) = Inr (if b then 1 else 0)"
| "attr_number _ = Inl TypeError"

definition infer_squeeze :: "('t, 'e) ir_fn" where
  "infer_squeeze M types kw =
     (case types of [] \<Rightarrow> Inr []
      | inp # _ \<Rightarrow>
          let et = elt_type_str M inp
          in case ranked_shape M inp of
               None \<Rightarrow> ranked1 M [Dyn] et
             | Some s \<Rightarrow>
                 (let dim = dict_get kw ''dim'' ANone
                  in if dim = ANone then ranked1 M (filter (\<lambda>d. d \<noteq> Dim 1) s) et
                     else res_bind (attr_number dim) (\<lambda>d.
                          if 0 \<le> d \<and> d < int (length s) \<and> s ! nat d = Dim 1
                          then ranked1 M (take (nat d) s @ drop (Suc (nat d)) s) et
                          else ranked1 M s et)))"

definition infer_expand :: "('t, 'e) ir_fn" where
  "infer_expand M types kw = infer_ir_via_pure M infer_expand_pure types kw"

fun dim_index :: "dim list \<Rightarrow> dim \<Rightarrow> dim res" where
  "dim_index s (Dim d) = py_index s d"
| "dim_index s _ = Inl TypeError"

definition infer_permute :: "('t, 'e) ir_fn" where
  "infer_permute M types kw =
     (case types of [] \<Rightarrow> Inr []
      | inp # _ \<Rightarrow>
          let dims = dict_get kw ''dims'' ANone
          in case ranked_shape M inp of
               Some (x # xs) \<Rightarrow>
                 if truthy dims
                 then res_bind (attr_items dims) (\<lambda>ds. res_bind (res_mapM (dim_index (x # xs)) ds) (\<lambda>out.
                      ranked1 M out (elt_type_str M inp)))
                 else Inr [inp]
             | _ \<Rightarrow> Inr [inp])"

definition infer_transpose :: "('t, 'e) ir_fn" where
  "infer_transpose M types kw =
     infer_ir_via_pure M infer_transpose_pure types (bind_kw kw [(''dim0'', AInt 0), (''dim1'', AInt 1)])"

definition infer_slice :: "('t, 'e) ir_fn" where
  "infer_slice M types kw =
     infer_ir_via_pure M infer_slice_pure types
       (bind_kw kw [(''dim'', AInt 0), (''start'', AInt 0), (''end'', AInt (-1)), (''step'', AInt 1)])"

definition infer_select :: "('t, 'e) ir_fn" where
  "infer_select M types kw =
     infer_ir_via_pure M infer_select_pure types (bind_kw kw [(''dim'', AInt 0), (''index'', AInt 0)])"

definition infer_cat :: "('t, 'e) ir_fn" where
  "infer_cat M types kw = infer_ir_via_pure M infer_cat_pure types (bind_kw kw [(''dim'', AInt 0)])"

text \<open>\<open>parts[-(i + 1)]\<close> is position \<open>len - 1 - i\<close>, as in the pure function.\<close>

definition infer_pad :: "('t, 'e) ir_fn" where
  "infer_pad M types kw =
     (case types of [] \<Rightarrow> Inr []
      | inp # _ \<Rightarrow>
          (case (ranked_shape M inp, dict_get kw ''pad'' ANone) of
             (Some s, ASeq pad) \<Rightarrow>
               if length pad mod 2 = 0
               then res_bind (res_foldM (pad_one pad) s [0 ..< min (length pad div 2) (length s)]) (\<lambda>out.
                    ranked1 M out (elt_type_str M inp))
               else Inr [inp]
           | _ \<Rightarrow> Inr [inp]))"


section \<open>Reductions and comparisons\<close>

definition strict_dim_step :: "nat \<Rightarrow> nat list \<Rightarrow> int res \<Rightarrow> nat list res" where
  "strict_dim_step rank normal d =
     res_bind d (\<lambda>v. let dv = (if v < 0 then v + int rank else v)
                     in Inr (if 0 \<le> dv \<and> dv < int rank \<and> nat dv \<notin> set normal then normal @ [nat dv] else normal))"

definition infer_reduce :: "('t, 'e) ir_fn" where
  "infer_reduce M types kw =
     (case types of [] \<Rightarrow> Inr []
      | inp # _ \<Rightarrow>
          let et = elt_type_str M inp
          in case ranked_shape M inp of
               None \<Rightarrow> ranked1 M [Dyn] et
             | Some s \<Rightarrow>
                 (let raw = dict_get kw ''dim'' (AInt (-1));
                      ds = (case raw of ASeq xs \<Rightarrow> map dim_int xs | _ \<Rightarrow> [attr_int raw]);
                      keep = truthy (dict_get kw ''keepdim'' (ABool False))
                  in res_bind (res_foldM (strict_dim_step (length s)) [] ds) (\<lambda>normal.
                     ranked1 M (reduce_dims normal keep s) et)))"

definition infer_first :: "('t, 'e) ir_fn" where
  "infer_first M types kw = (case types of [] \<Rightarrow> Inr [] | t # _ \<Rightarrow> Inr [t])"

definition infer_compare :: "('t, 'e) ir_fn" where
  "infer_compare M types kw =
     (if types = [] then ranked1 M [Dyn] ''f32''
      else res_bind (broadcast_types M types) (\<lambda>b. ranked1 M b ''f32''))"


section \<open>Tensor creation and utilities\<close>

definition infer_embedding :: "('t, 'e) ir_fn" where
  "infer_embedding M types kw = infer_ir_via_pure M infer_embedding_pure types kw"

definition infer_type_as :: "('t, 'e) ir_fn" where
  "infer_type_as M types kw =
     (case types of
        inp # ref # _ \<Rightarrow>
          (case ranked_shape M inp of
             Some (x # xs) \<Rightarrow> ranked1 M (x # xs) (elt_type_str M ref)
           | _ \<Rightarrow> Inr [inp])
      | _ \<Rightarrow> Inr (take 1 types))"

text \<open>
  Only strings have \<open>replace\<close>.  An unranked type takes the first branch too, where reading its
  shape is what the bindings make of it.
\<close>

definition infer_identity :: "('t, 'e) ir_fn" where
  "infer_identity M types kw =
     (case types of [] \<Rightarrow> Inr []
      | t # _ \<Rightarrow>
          (case dict_get kw ''dtype'' ANone of
             ANone \<Rightarrow> Inr [t]
           | AStr d \<Rightarrow>
               let target = elt_from_str M (remove_all ''torch.'' d)
               in if is_ranked M t then res_bind (ranked_get M (type_shape M t) target) (\<lambda>r. Inr [r])
                  else if is_unranked M t
                  then res_bind (unranked_shape M t) (\<lambda>s. res_bind (ranked_get M s target) (\<lambda>r. Inr [r]))
                  else Inr [t]
           | _ \<Rightarrow> Inl AttributeError))"

definition infer_conv1d :: "('t, 'e) ir_fn" where
  "infer_conv1d M types kw = infer_ir_via_pure M infer_conv1d_pure types kw"

definition infer_arange :: "('t, 'e) ir_fn" where
  "infer_arange M types kw =
     (case map_of kw ''n'' of
        Some v \<Rightarrow> res_bind (attr_int v) (\<lambda>n. ranked1 M [Dim n] ''i64'')
      | None \<Rightarrow> ranked1 M [Dyn] ''i64'')"

definition infer_ones_like :: "('t, 'e) ir_fn" where
  "infer_ones_like M types kw =
     (let shape = dict_get kw ''shape'' ANone
      in if truthy shape then res_bind (attr_items shape) (\<lambda>ds. ranked1 M ds ''f32'')
         else case types of t # _ \<Rightarrow> Inr [t] | [] \<Rightarrow> ranked1 M [Dim 1, Dim 1] ''f32'')"

definition infer_full_like :: "('t, 'e) ir_fn" where
  "infer_full_like M types kw = infer_ones_like M types kw"

definition infer_zeros :: "('t, 'e) ir_fn" where
  "infer_zeros M types kw = infer_ones_like M types kw"

definition infer_new_ones :: "('t, 'e) ir_fn" where
  "infer_new_ones M types kw = (case types of t # _ \<Rightarrow> Inr [t] | [] \<Rightarrow> ranked1 M [Dim 1] ''f32'')"

definition infer_eye :: "('t, 'e) ir_fn" where
  "infer_eye M types kw =
     res_bind (attr_int (dict_get kw ''n'' (AInt 1))) (\<lambda>n.
     res_bind (attr_int (dict_get kw ''m'' (AInt n))) (\<lambda>m. ranked1 M [Dim n, Dim m] ''f32''))"

definition infer_sym_size :: "('t, 'e) ir_fn" where
  "infer_sym_size M types kw = ranked1 M [Dim 1] ''i64''"

definition infer_index :: "('t, 'e) ir_fn" where
  "infer_index M types kw =
     (if length types < 2 then Inr types
      else let data_type = hd types; idx_types = tl types; idx_shapes = map (ranked_shape M) idx_types
           in case ranked_shape M data_type of
                None \<Rightarrow> ranked1 M [Dyn] (elt_type_str M data_type)
              | Some data_shape \<Rightarrow>
                  if None \<in> set idx_shapes then ranked1 M [Dyn] (elt_type_str M data_type)
                  else res_bind (broadcast_shapes idx_shapes) (\<lambda>b.
                       ranked1 M (b @ drop (length idx_types) data_shape) (elt_type_str M data_type)))"

definition infer_einsum :: "('t, 'e) ir_fn" where
  "infer_einsum M types kw =
     (case types of t # _ \<Rightarrow> ranked1 M [Dyn, Dyn] (elt_type_str M t) | [] \<Rightarrow> ranked1 M [Dyn] ''f32'')"

definition infer_stack :: "('t, 'e) ir_fn" where
  "infer_stack M types kw =
     (case types of [] \<Rightarrow> Inr []
      | inp # _ \<Rightarrow>
          (case ranked_shape M inp of
             Some (x # xs) \<Rightarrow> ranked1 M (Dim (int (length types)) # x # xs) (elt_type_str M inp)
           | _ \<Rightarrow> ranked1 M [Dyn] (elt_type_str M inp)))"

definition infer_second :: "('t, 'e) ir_fn" where
  "infer_second M types kw = (case types of _ # t # _ \<Rightarrow> Inr [t] | [t] \<Rightarrow> Inr [t] | [] \<Rightarrow> Inr [])"

definition infer_fused_rms_norm_matmul :: "('t, 'e) ir_fn" where
  "infer_fused_rms_norm_matmul M types kw =
     (if length types \<ge> 3 then ranked1 M [Dyn, Dyn] (elt_type_str M (hd types)) else Inr [])"

definition infer_fused_qkv :: "('t, 'e) ir_fn" where
  "infer_fused_qkv M types kw =
     (if length types \<ge> 2
      then res_mapM (\<lambda>ds. make_ranked_type M (Some ds) (elt_type_str M (hd types))) [[Dyn, Dyn], [Dyn, Dyn], [Dyn, Dyn]]
      else Inr [])"

definition infer_weight :: "('t, 'e) ir_fn" where
  "infer_weight M types kw = ranked1 M [Dyn] ''f32''"

definition infer_constant :: "('t, 'e) ir_fn" where
  "infer_constant M types kw = ranked1 M [Dim 1] ''f32''"


section \<open>Dispatch\<close>

definition broadcast_ops :: "string list" where
  "broadcast_ops = [''add'', ''mul'', ''sub'', ''div'', ''neg'', ''pow'', ''max'']"

definition elementwise_ops :: "string list" where
  "elementwise_ops =
     [''relu'', ''gelu'', ''silu'', ''sigmoid'', ''softplus'', ''exp'', ''tanh'', ''sqrt'', ''clamp_min'', ''rsqrt'',
      ''cos'', ''sin'', ''softmax'', ''triu'', ''tril'']"

definition compare_ops :: "string list" where
  "compare_ops = [''gt'', ''lt'', ''eq'', ''ne'', ''le'', ''logical_and'']"

definition reduce_ops :: "string list" where
  "reduce_ops = [''mean'', ''sum'', ''var'', ''linalg_norm'']"

text \<open>
  The operations whose function returns its first operand type unchanged share \<open>infer_first\<close>
  (\<open>cumsum\<close>, \<open>masked_fill\<close>, \<open>copy_\<close>, \<open>zeros_like\<close>, \<open>diff\<close>, attention and the fused
  attention operations, \<open>split\<close>, \<open>chunk\<close>), those that return the second \<open>infer_second\<close>.
\<close>

definition inference_table :: "(string, ('t, 'e) ir_fn) dict" where
  "inference_table =
     map (\<lambda>op. (op, infer_broadcast)) broadcast_ops @ map (\<lambda>op. (op, infer_elementwise)) elementwise_ops @
     map (\<lambda>op. (op, infer_compare)) compare_ops @ map (\<lambda>op. (op, infer_reduce)) reduce_ops @
     map (\<lambda>op. (op, infer_first)) [''cumsum'', ''masked_fill'', ''copy_'', ''zeros_like'', ''diff'',
       ''scaled_dot_product_attention'', ''fused_silu_mul'', ''fused_attention_output'', ''fused_attention_block'',
       ''split'', ''chunk''] @
     map (\<lambda>op. (op, infer_second)) [''view_as'', ''expand_as''] @
     [(''layer_norm'', infer_layer_norm), (''rms_norm'', infer_rms_norm), (''matmul'', infer_matmul),
      (''linear'', infer_linear), (''view'', infer_view), (''unsqueeze'', infer_unsqueeze), (''squeeze'', infer_squeeze),
      (''expand'', infer_expand), (''permute'', infer_permute), (''transpose'', infer_transpose), (''slice'', infer_slice),
      (''select'', infer_select), (''cat'', infer_cat), (''pad'', infer_pad), (''embedding'', infer_embedding),
      (''type_as'', infer_type_as), (''identity'', infer_identity), (''conv1d'', infer_conv1d), (''arange'', infer_arange),
      (''ones_like'', infer_ones_like), (''full_like'', infer_full_like), (''zeros'', infer_zeros),
      (''new_ones'', infer_new_ones), (''eye'', infer_eye), (''sym_size'', infer_sym_size), (''index'', infer_index),
      (''einsum'', infer_einsum), (''stack'', infer_stack), (''fused_rms_norm_matmul'', infer_fused_rms_norm_matmul),
      (''fused_qkv'', infer_fused_qkv), (''weight'', infer_weight), (''constant'', infer_constant)]"

definition infer_output_type :: "('t, 'e) mlir \<Rightarrow> string \<Rightarrow> 't list \<Rightarrow> attrs \<Rightarrow> 't list res" where
  "infer_output_type M op_name types kw =
     (case map_of inference_table op_name of
        Some f \<Rightarrow> if dict_has kw ''input_types'' then Inl TypeError else f M types kw
      | None \<Rightarrow> Inr (take 1 types))"


section \<open>Agreement with the pure functions\<close>

text \<open>The pure result, wrapped into types, for operand types of known rank.\<close>

definition via_pure_table :: "('t, 'e) mlir \<Rightarrow> string \<Rightarrow> 't list \<Rightarrow> attrs \<Rightarrow> 't list res" where
  "via_pure_table M op types kw =
     res_bind (infer_output_shape op (map (ranked_shape M) types) (map (elt_type_str M) types) kw)
       (res_mapM (\<lambda>(s, e). make_ranked_type M s e))"

definition delegated_ops :: "string list" where
  "delegated_ops = [''matmul'', ''linear'', ''view'', ''unsqueeze'', ''expand'', ''transpose'', ''slice'', ''select'', ''cat'',
     ''embedding'', ''conv1d'']"

lemma dict_get_bind_kw:
  "dict_get (bind_kw kw defs) k d' = dict_get kw k (case map_of defs k of Some d \<Rightarrow> d | None \<Rightarrow> d')"
proof -
  have named: "map_of (map (\<lambda>(k, d). (k, dict_get kw k d)) defs) k = map_option (dict_get kw k) (map_of defs k)"
    by (induction defs) auto
  have rest: "map_of (filter (\<lambda>(k, _). k \<notin> S) kw) k = (if k \<in> S then None else map_of kw k)" for S
    by (induction kw) auto
  have app: "map_of (xs @ ys) k = (case map_of xs k of None \<Rightarrow> map_of ys k | Some v \<Rightarrow> Some v)" for xs ys :: attrs
    by (induction xs) auto
  have "map_of (bind_kw kw defs) k = (case map_of defs k of None \<Rightarrow> map_of kw k | Some d \<Rightarrow> Some (dict_get kw k d))"
    unfolding bind_kw_def app named rest
    by (cases "map_of defs k") (simp_all add: map_of_eq_None_iff[symmetric] map_of_eq_None_iff[THEN iffD1])
  then show ?thesis by (simp add: dict_get_def split: option.splits)
qed

lemma broadcast_collect_ranked:
  "list_all (is_ranked M) ts \<Longrightarrow>
     broadcast_collect M ss ts = broadcast_shapes (map Some ss @ map (ranked_shape M) ts)"
proof (induction ts arbitrary: ss)
  case (Cons t ts)
  then obtain s where "ranked_shape M t = Some s" by (auto simp: ranked_shape_def)
  with Cons.IH[of "ss @ [s]"] Cons.prems show ?case by simp
qed simp

lemma broadcast_types_ranked:
  "list_all (is_ranked M) ts \<Longrightarrow> broadcast_types M ts = broadcast_shapes (map (ranked_shape M) ts)"
  using broadcast_collect_ranked[of M ts "[]"] by (simp add: broadcast_types_def)

lemma bind_kw_named:
  "dict_get (bind_kw kw [(''shape'', ANone)]) ''shape'' d = dict_get kw ''shape'' ANone"
  "dict_get (bind_kw kw [(''dim'', AInt 0)]) ''dim'' d = dict_get kw ''dim'' (AInt 0)"
  "dict_get (bind_kw kw [(''dim0'', AInt 0), (''dim1'', AInt 1)]) ''dim0'' d = dict_get kw ''dim0'' (AInt 0)"
  "dict_get (bind_kw kw [(''dim0'', AInt 0), (''dim1'', AInt 1)]) ''dim1'' d = dict_get kw ''dim1'' (AInt 1)"
  "dict_get (bind_kw kw [(''dim'', AInt 0), (''index'', AInt 0)]) ''dim'' d = dict_get kw ''dim'' (AInt 0)"
  by (simp_all add: dict_get_bind_kw)

lemma bind_kw_slice:
  "dict_get (bind_kw kw [(''dim'', a), (''start'', b), (''end'', c), (''step'', e)]) ''dim'' d = dict_get kw ''dim'' a"
  "dict_get (bind_kw kw [(''dim'', a), (''start'', b), (''end'', c), (''step'', e)]) ''start'' d = dict_get kw ''start'' b"
  "dict_get (bind_kw kw [(''dim'', a), (''start'', b), (''end'', c), (''step'', e)]) ''end'' d = dict_get kw ''end'' c"
  "dict_get (bind_kw kw [(''dim'', a), (''start'', b), (''end'', c), (''step'', e)]) ''step'' d = dict_get kw ''step'' e"
  by (simp_all add: dict_get_bind_kw)

lemma pure_bind_kw:
  "infer_view_pure ss es (bind_kw kw [(''shape'', ANone)]) = infer_view_pure ss es kw"
  "infer_unsqueeze_pure ss es (bind_kw kw [(''dim'', AInt 0)]) = infer_unsqueeze_pure ss es kw"
  "infer_transpose_pure ss es (bind_kw kw [(''dim0'', AInt 0), (''dim1'', AInt 1)]) = infer_transpose_pure ss es kw"
  "infer_slice_pure ss es (bind_kw kw [(''dim'', AInt 0), (''start'', AInt 0), (''end'', AInt (-1)), (''step'', AInt 1)])
     = infer_slice_pure ss es kw"
  "infer_select_pure ss es (bind_kw kw [(''dim'', AInt 0), (''index'', AInt 0)]) = infer_select_pure ss es kw"
  "infer_cat_pure ss es (bind_kw kw [(''dim'', AInt 0)]) = infer_cat_pure ss es kw"
  unfolding infer_view_pure_def infer_unsqueeze_pure_def infer_transpose_pure_def infer_slice_pure_def
    infer_select_pure_def infer_cat_pure_def bind_kw_named bind_kw_slice
  by (rule refl)+

lemma pure_table_delegated:
  "map_of pure_table ''matmul'' = Some infer_matmul_pure" "map_of pure_table ''linear'' = Some infer_linear_pure"
  "map_of pure_table ''view'' = Some infer_view_pure" "map_of pure_table ''unsqueeze'' = Some infer_unsqueeze_pure"
  "map_of pure_table ''expand'' = Some infer_expand_pure" "map_of pure_table ''transpose'' = Some infer_transpose_pure"
  "map_of pure_table ''slice'' = Some infer_slice_pure" "map_of pure_table ''select'' = Some infer_select_pure"
  "map_of pure_table ''cat'' = Some infer_cat_pure" "map_of pure_table ''embedding'' = Some infer_embedding_pure"
  "map_of pure_table ''conv1d'' = Some infer_conv1d_pure" "map_of pure_table ''index'' = Some infer_index_pure"
  "map_of pure_table ''sym_size'' = Some infer_scalar_pure"
  by (simp_all add: pure_table_lookup auto_pure_table_def)

lemma elementwise_no_auto:
  "op \<in> set (broadcast_ops @ elementwise_ops) \<Longrightarrow> map_of pure_table op = Some infer_elementwise_pure"
  by (auto simp: broadcast_ops_def elementwise_ops_def pure_table_lookup auto_pure_table_def elementwise_pure_ops_def)

lemma map_of_same: "map_of (map (\<lambda>op. (op, f)) ops) k = (if k \<in> set ops then Some f else None)"
  by (induction ops) auto

lemma op_groups_disjoint:
  "set broadcast_ops \<inter> set elementwise_ops = {}" "set broadcast_ops \<inter> set compare_ops = {}"
  "set elementwise_ops \<inter> set compare_ops = {}"
  by code_simp+

lemma inference_table_ops:
  "op \<in> set broadcast_ops \<Longrightarrow> map_of inference_table op = Some infer_broadcast"
  "op \<in> set elementwise_ops \<Longrightarrow> map_of inference_table op = Some infer_elementwise"
  "op \<in> set compare_ops \<Longrightarrow> map_of inference_table op = Some infer_compare"
  using op_groups_disjoint unfolding inference_table_def map_of_append map_add_def map_of_same
  by (auto simp: disjoint_iff)

lemma inference_table_delegated:
  "map_of inference_table ''matmul'' = Some infer_matmul" "map_of inference_table ''linear'' = Some infer_linear"
  "map_of inference_table ''view'' = Some infer_view" "map_of inference_table ''unsqueeze'' = Some infer_unsqueeze"
  "map_of inference_table ''expand'' = Some infer_expand" "map_of inference_table ''transpose'' = Some infer_transpose"
  "map_of inference_table ''slice'' = Some infer_slice" "map_of inference_table ''select'' = Some infer_select"
  "map_of inference_table ''cat'' = Some infer_cat" "map_of inference_table ''embedding'' = Some infer_embedding"
  "map_of inference_table ''conv1d'' = Some infer_conv1d" "map_of inference_table ''index'' = Some infer_index"
  "map_of inference_table ''sym_size'' = Some infer_sym_size"
  unfolding inference_table_def map_of_append map_add_def map_of_same
  by (simp_all add: broadcast_ops_def elementwise_ops_def compare_ops_def reduce_ops_def)

text \<open>The operations whose MLIR-level and pure inference coincide on ranked operands.\<close>

definition no_reserved :: "attrs \<Rightarrow> bool" where
  "no_reserved kw \<longleftrightarrow> \<not> dict_has kw ''shapes'' \<and> \<not> dict_has kw ''elts'' \<and> \<not> dict_has kw ''input_types''"

lemma delegated_agrees:
  assumes "op \<in> set delegated_ops" and "types \<noteq> []" and "no_reserved kw"
  shows "infer_output_type M op types kw = via_pure_table M op types kw"
  using assms
  by (auto simp: delegated_ops_def infer_output_type_def via_pure_table_def infer_output_shape_def no_reserved_def
      inference_table_delegated pure_table_delegated infer_matmul_def infer_linear_def infer_view_def infer_unsqueeze_def
      infer_expand_def infer_transpose_def infer_slice_def infer_select_def infer_cat_def infer_embedding_def
      infer_conv1d_def infer_ir_via_pure_def pure_bind_kw)

lemma elementwise_agrees:
  assumes "op \<in> set (broadcast_ops @ elementwise_ops)" and "types \<noteq> []" and "list_all (is_ranked M) types" and "no_reserved kw"
  shows "infer_output_type M op types kw = via_pure_table M op types kw"
proof -
  have pure: "map_of pure_table op = Some infer_elementwise_pure" using assms(1) by (rule elementwise_no_auto)
  obtain t ts where types: "types = t # ts" using assms(2) by (cases types) auto
  have "infer_broadcast M types kw = infer_elementwise M types kw"
    by (simp add: infer_broadcast_def infer_elementwise_def)
  then have "infer_output_type M op types kw = infer_elementwise M types kw"
    using assms(1,4) by (auto simp: infer_output_type_def no_reserved_def inference_table_ops)
  also have "\<dots> = via_pure_table M op types kw"
    using pure assms(4) broadcast_types_ranked[OF assms(3)] types
    by (cases "broadcast_shapes (map (ranked_shape M) types)")
       (simp_all add: infer_elementwise_def via_pure_table_def infer_output_shape_def no_reserved_def infer_elementwise_pure_def
          with_elt0_def elt0_def)
  finally show ?thesis .
qed

lemma compare_agrees:
  assumes "op \<in> set compare_ops" and "types \<noteq> []" and "list_all (is_ranked M) types" and "no_reserved kw"
  shows "infer_output_type M op types kw = via_pure_table M op types kw"
proof -
  have pure: "map_of pure_table op = Some infer_compare_pure"
    using assms(1) by (auto simp: compare_ops_def pure_table_lookup)
  show ?thesis
    using pure assms(1,2,4) broadcast_types_ranked[OF assms(3)]
    by (cases "broadcast_shapes (map (ranked_shape M) types)")
       (simp_all add: inference_table_ops infer_output_type_def infer_compare_def via_pure_table_def infer_output_shape_def no_reserved_def
          infer_compare_pure_def)
qed


section \<open>Element types\<close>

definition known_dim :: "dim \<Rightarrow> dim" where
  "known_dim d = (case d of Dim n \<Rightarrow> if 0 \<le> n then Dim n else Dyn | _ \<Rightarrow> Dyn)"

lemma mlir_size_map:
  "res_mapM mlir_size ds = Inr sizes \<Longrightarrow> map (\<lambda>d. if d \<ge> 0 then Dim d else Dyn) sizes = map known_dim ds"
proof (induction ds arbitrary: sizes)
  case (Cons d ds)
  then show ?case by (cases d) (auto simp: res_simps known_dim_def)
qed simp

lemma known_of_clamped:
  "map (max (-1)) xs = map (max (-1)) (ys :: int list) \<Longrightarrow>
     map (\<lambda>d. if d \<ge> 0 then Dim d else Dyn) xs = map (\<lambda>d. if d \<ge> 0 then Dim d else Dyn) ys"
proof -
  assume eq: "map (max (-1)) xs = map (max (-1)) ys"
  have "map (\<lambda>d. if d \<ge> 0 then Dim d else Dyn) zs = map (\<lambda>d. if d \<ge> 0 then Dim d else Dyn) (map (max (-1)) zs)"
    for zs :: "int list" by simp
  then show ?thesis using eq by metis
qed

lemma make_ranked_type_shape:
  assumes "mlir_ok M" and "make_ranked_type M (Some ds) elt = Inr t"
  shows "is_ranked M t" "element_type M t = elt_from_str M elt" "ranked_shape M t = Some (map known_dim ds)"
proof -
  obtain sizes where sz: "res_mapM mlir_size ds = Inr sizes" "ranked_get M sizes (elt_from_str M elt) = Inr t"
    using assms(2) by (auto simp: make_ranked_type_def dims_of_def res_simps)
  then show r: "is_ranked M t" "element_type M t = elt_from_str M elt"
    using assms(1) unfolding mlir_ok_def by blast+
  have "map (max (-1)) (type_shape M t) = map (max (-1)) sizes"
    using assms(1) sz(2) unfolding mlir_ok_def by blast
  then show "ranked_shape M t = Some (map known_dim ds)"
    using known_of_clamped mlir_size_map[OF sz(1)] r(1) by (metis ranked_shape_def)
qed


section \<open>Properties of MLIR-level inference\<close>

text \<open>C20: for every element-wise, comparison and delegated operation, inference on ranked MLIR types is
  the pure inference on their shapes and element names, wrapped back into types, errors included.\<close>

theorem mlir_inference_agrees_with_pure:
  assumes "op \<in> set (broadcast_ops @ elementwise_ops @ compare_ops @ delegated_ops)"
    and "types \<noteq> []" and "list_all (is_ranked M) types" and "no_reserved kw"
  shows "infer_output_type M op types kw = via_pure_table M op types kw"
  using assms elementwise_agrees[of op types M kw] compare_agrees[of op types M kw] delegated_agrees[of op types kw M]
  by auto

text \<open>A concrete instance of the bindings: ranked types as pairs of sizes and element name.\<close>

definition toy_mlir :: "((int list \<times> string) option, string) mlir" where
  "toy_mlir = \<lparr>is_ranked = (\<lambda>t. t \<noteq> None), is_unranked = (\<lambda>t. t = None), type_shape = (\<lambda>t. fst (the t)),
     element_type = (\<lambda>t. snd (the t)), elt_str = (\<lambda>e. e), ranked_get = (\<lambda>ds e. Inr (Some (ds, e))),
     unranked_get = (\<lambda>e. None), unranked_shape = (\<lambda>t. Inl ValueError), f32_type = ''f32'', f64_type = ''f64'',
     f16_type = ''f16'', bf16_type = ''bf16'',
     int_type = (\<lambda>n. if n = 8 then ''i8'' else if n = 32 then ''i32'' else if n = 64 then ''i64'' else ''i1'')\<rparr>"

lemma toy_mlir_ok: "mlir_ok toy_mlir"
  by (simp add: mlir_ok_def toy_mlir_def)

theorem mlir_inference_agrees_with_pure_witness:
  "infer_output_type toy_mlir ''matmul'' [Some ([2, 3], ''f32''), Some ([3, 4], ''f32'')] []
     = via_pure_table toy_mlir ''matmul'' [Some ([2, 3], ''f32''), Some ([3, 4], ''f32'')] []"
  by (rule mlir_inference_agrees_with_pure) (simp_all add: delegated_ops_def toy_mlir_def no_reserved_def)

text \<open>A type built from a shape and an element name reads back with the same shape (symbolic and
  negative dimensions as dynamic) and the same name, for the names \<open>f32\<close>, \<open>f64\<close>, \<open>f16\<close>,
  \<open>i8\<close>, \<open>i32\<close> and \<open>i64\<close>.\<close>

theorem make_ranked_type_roundtrip:
  assumes "mlir_ok M" and "make_ranked_type M (Some ds) elt = Inr t"
    and "elt \<in> {''f32'', ''f64'', ''f16'', ''i8'', ''i32'', ''i64''}"
  shows "ranked_shape M t = Some (map known_dim ds) \<and> elt_type_str M t = elt"
proof -
  note t = make_ranked_type_shape[OF assms(1,2)]
  have "elt_str M (elt_from_str M elt) = elt"
    using assms(1,3) unfolding mlir_ok_def by (auto simp: elt_from_str_def elt_type_map_def dict_get_def)
  moreover have "list_all (\<lambda>e. find (contains_str e) elt_names = Some e) [''f32'', ''f64'', ''f16'', ''i8'', ''i32'', ''i64'']"
    by code_simp
  then have "find (contains_str elt) elt_names = Some elt"
    using assms(3) by (simp only: list_all_iff list.set)
  ultimately show ?thesis using t by (simp add: elt_type_str_def)
qed

theorem make_ranked_type_roundtrip_witness:
  "ranked_shape toy_mlir (Some ([2, -1], ''i64'')) = Some (map known_dim [Dim 2, Dyn]) \<and>
   elt_type_str toy_mlir (Some ([2, -1], ''i64'')) = ''i64''"
proof -
  have "make_ranked_type toy_mlir (Some [Dim 2, Dyn]) ''i64'' = Inr (Some ([2, -1], ''i64''))"
    by (simp add: make_ranked_type_def dims_of_def toy_mlir_def elt_from_str_def elt_type_map_def dict_get_def)
  from make_ranked_type_roundtrip[OF toy_mlir_ok this] show ?thesis by simp
qed

text \<open>\<open>bf16\<close> does not survive the round trip: the substring search finds \<open>f16\<close> first, so a
  bfloat16 tensor is treated as half precision; and the names \<open>i1\<close> and \<open>ui8\<close> build an
  \<open>f32\<close> type.\<close>

theorem bf16_read_as_f16:
  assumes "mlir_ok M"
  shows "(make_ranked_type M (Some ds) ''bf16'' = Inr t \<longrightarrow> elt_type_str M t = ''f16'') \<and>
         (make_ranked_type M (Some ds) ''i1'' = Inr t \<longrightarrow> elt_type_str M t = ''f32'') \<and>
         (make_ranked_type M (Some ds) ''ui8'' = Inr t \<longrightarrow> elt_type_str M t = ''f32'')"
proof -
  have s: "elt_str M (elt_from_str M ''bf16'') = ''bf16''" "elt_str M (elt_from_str M ''i1'') = ''f32''"
    "elt_str M (elt_from_str M ''ui8'') = ''f32''"
    using assms unfolding mlir_ok_def by (auto simp: elt_from_str_def elt_type_map_def dict_get_def)
  have f: "find (contains_str ''bf16'') elt_names = Some ''f16''" "find (contains_str ''f32'') elt_names = Some ''f32''"
    by code_simp+
  have read: "elt_type_str M t = x"
    if "make_ranked_type M (Some ds) e = Inr t" "find (contains_str (elt_str M (elt_from_str M e))) elt_names = Some x" for e x
    using make_ranked_type_shape(1,2)[OF assms that(1)] that(2) by (simp add: elt_type_str_def)
  show ?thesis using read[of "''bf16''"] read[of "''i1''"] read[of "''ui8''"] unfolding s f by blast
qed

theorem bf16_read_as_f16_witness: "elt_type_str toy_mlir (Some ([4], ''bf16'')) = ''f16''"
proof -
  have "make_ranked_type toy_mlir (Some [Dim 4]) ''bf16'' = Inr (Some ([4], ''bf16''))"
    by (simp add: make_ranked_type_def dims_of_def toy_mlir_def elt_from_str_def elt_type_map_def dict_get_def)
  with bf16_read_as_f16[OF toy_mlir_ok, of "[Dim 4]" "Some ([4], ''bf16'')"] show ?thesis by blast
qed

text \<open>The two levels disagree on \<open>index\<close> with several one-dimensional index tensors: the pure
  function gives each its own output dimension, the MLIR-level one broadcasts them.\<close>

theorem index_levels_disagree:
  "infer_output_type toy_mlir ''index'' [Some ([4, 5], ''f32''), Some ([3], ''i64''), Some ([3], ''i64'')] []
     = Inr [Some ([3], ''f32'')] \<and>
   via_pure_table toy_mlir ''index'' [Some ([4, 5], ''f32''), Some ([3], ''i64''), Some ([3], ''i64'')] []
     = Inr [Some ([3, 3], ''f32'')]"
proof
  show "infer_output_type toy_mlir ''index'' [Some ([4, 5], ''f32''), Some ([3], ''i64''), Some ([3], ''i64'')] []
     = Inr [Some ([3], ''f32'')]"
    unfolding infer_output_type_def inference_table_delegated by code_simp
  show "via_pure_table toy_mlir ''index'' [Some ([4, 5], ''f32''), Some ([3], ''i64''), Some ([3], ''i64'')] []
     = Inr [Some ([3, 3], ''f32'')]"
    unfolding via_pure_table_def infer_output_shape_def pure_table_delegated by code_simp
qed

end
