(* ===== verification/Type_Strings.thy ===== *)
theory Type_Strings
  imports Shape_Pure
begin

text \<open>
  MLIR type strings: the printer \<open>_shape_to_mlir_type\<close> of \<open>compiler/fx/utils.py\<close> and the
  parser \<open>parse_tensor_type\<close> of \<open>compiler/op_plan.py\<close>, with the decimal printing, joining
  and splitting of strings they use.  The main result is that the parser reads back what the
  printer wrote.
\<close>


section \<open>Decimal numbers and joined strings\<close>

definition digit_char :: "nat \<Rightarrow> char" where
  "digit_char d = char_of (48 + d)"

fun string_of_nat :: "nat \<Rightarrow> string" where
  "string_of_nat n = (if n < 10 then [digit_char n] else string_of_nat (n div 10) @ [digit_char (n mod 10)])"

declare string_of_nat.simps [simp del]

definition string_of_int :: "int \<Rightarrow> string" where
  "string_of_int i = (if i < 0 then CHR ''-'' # string_of_nat (nat (- i)) else string_of_nat (nat i))"

fun join_with :: "string \<Rightarrow> string list \<Rightarrow> string" where
  "join_with sep [] = []"
| "join_with sep [p] = p"
| "join_with sep (p # ps) = p @ sep @ join_with sep ps"


section \<open>The printer\<close>

definition elt_map :: "(string, string) dict" where
  "elt_map =
     [(''float32'', ''f32''), (''float16'', ''f16''), (''bfloat16'', ''bf16''), (''float64'', ''f64''), (''int32'', ''i32''),
      (''int64'', ''i64''), (''int8'', ''i8''), (''uint8'', ''ui8''), (''bool'', ''i1'')]"

definition dim_str :: "dim \<Rightarrow> string" where
  "dim_str d =
     (if d = Dyn then ''?''
      else case dim_int d of
             Inl _ \<Rightarrow> ''?''
           | Inr v \<Rightarrow> if v \<ge> 9223372036854775807 \<or> v \<le> 0 then ''?'' else string_of_int v)"

definition mlir_elt :: "string \<Rightarrow> string" where
  "mlir_elt elt =
     (case map_of elt_map elt of
        Some m \<Rightarrow> m
      | None \<Rightarrow> if elt \<in> snd ` set elt_map then elt else ''f32'')"

definition shape_to_mlir_type :: "dim list \<Rightarrow> string \<Rightarrow> string" where
  "shape_to_mlir_type shape elt =
     (let ds = join_with ''x'' (map dim_str shape)
      in if ds \<noteq> [] then ''tensor<'' @ ds @ ''x'' @ mlir_elt elt @ ''>'' else ''tensor<'' @ mlir_elt elt @ ''>'')"


section \<open>The parser\<close>

text \<open>The text after the first occurrence of a pattern.\<close>

fun text_after :: "string \<Rightarrow> string \<Rightarrow> string option" where
  "text_after p [] = (if p = [] then Some [] else None)"
| "text_after p (c # cs) = (if starts_with (c # cs) p then Some (drop (length p) (c # cs)) else text_after p cs)"

text \<open>The group of the first match of \<open>tensor<([^>]*)>\<close>.\<close>

definition tensor_inner :: "string \<Rightarrow> string option" where
  "tensor_inner s =
     (case text_after ''tensor<'' s of
        None \<Rightarrow> None
      | Some r \<Rightarrow> if CHR ''>'' \<in> set r then Some (takeWhile (\<lambda>c. c \<noteq> CHR ''>'') r) else None)"

definition canonical_dtypes :: "(string, string) dict" where
  "canonical_dtypes =
     [(''f32'', ''float32''), (''float'', ''float32''), (''f64'', ''float64''), (''double'', ''float64''), (''f16'', ''float16''),
      (''half'', ''float16''), (''bf16'', ''bfloat16''), (''i64'', ''int64''), (''i32'', ''int32''), (''i8'', ''int8''), (''i1'', ''bool'')]"

definition canonical_dtype :: "string \<Rightarrow> string" where
  "canonical_dtype d = dict_get canonical_dtypes d d"

definition parse_dim :: "string \<Rightarrow> int" where
  "parse_dim part =
     (if part = ''?'' \<or> part = ''dyn'' then 0 else case int_of_string part of Inr v \<Rightarrow> v | Inl _ \<Rightarrow> 0)"

definition parse_tensor_type :: "string \<Rightarrow> int list \<times> string" where
  "parse_tensor_type s =
     (case tensor_inner s of
        None \<Rightarrow> ([], ''float32'')
      | Some g \<Rightarrow>
          let inner = py_strip g
          in if inner = [] then ([], ''float32'')
             else let parts = map py_strip (split_on CHR ''x'' inner)
                  in if length parts = 1 then ([], canonical_dtype (hd parts))
                     else (map parse_dim (butlast parts), canonical_dtype (last parts)))"


section \<open>Printing and parsing numbers\<close>

definition is_digit :: "char \<Rightarrow> bool" where
  "is_digit c \<longleftrightarrow> 48 \<le> (of_char c :: nat) \<and> (of_char c :: nat) \<le> 57"

lemma digit_char_val: "d < 10 \<Longrightarrow> digit_val (digit_char d) = Some (int d)"
  by (simp add: digit_val_def digit_char_def Let_def)

lemma digit_char_is_digit: "d < 10 \<Longrightarrow> is_digit (digit_char d)"
  by (simp add: is_digit_def digit_char_def)

lemma string_of_nat_digits: "list_all is_digit (string_of_nat n)"
  by (induction n rule: string_of_nat.induct) (subst string_of_nat.simps, auto simp: digit_char_is_digit)

lemma string_of_nat_nonempty: "string_of_nat n \<noteq> []"
  by (subst string_of_nat.simps) auto

lemma is_digit_val: "is_digit c \<Longrightarrow> \<exists>v. digit_val c = Some v"
  by (auto simp: is_digit_def digit_val_def Let_def)

lemma int_digits_append:
  "list_all is_digit ds \<Longrightarrow> int_digits acc seen ds = Some v \<or> (ds = [] \<and> v = acc) \<Longrightarrow> digit_val c = Some d \<Longrightarrow>
     int_digits acc seen (ds @ [c]) = Some (10 * v + d)"
proof (induction ds arbitrary: acc seen)
  case (Cons b ds)
  obtain x where x: "digit_val b = Some x" using Cons.prems(1) is_digit_val by auto
  have "int_digits (10 * acc + x) True ds = Some v" using Cons.prems(2) x by simp
  then show ?case using Cons.IH[of "10 * acc + x" True] Cons.prems(1,3) x by simp
qed (auto split: if_splits)

lemma int_digits_string_of_nat: "int_digits 0 False (string_of_nat n) = Some (int n)"
proof (induction n rule: string_of_nat.induct)
  case (1 n)
  show ?case
  proof (cases "n < 10")
    case True
    then show ?thesis by (subst string_of_nat.simps) (simp add: digit_char_val)
  next
    case False
    have "int_digits 0 False (string_of_nat (n div 10) @ [digit_char (n mod 10)])
        = Some (10 * int (n div 10) + int (n mod 10))"
      using "1.IH"[OF False] by (intro int_digits_append string_of_nat_digits digit_char_val) auto
    moreover have "10 * int (n div 10) + int (n mod 10) = int n" by presburger
    ultimately show ?thesis using False by (subst string_of_nat.simps) simp
  qed
qed

text \<open>Characters that need no stripping and are not a separator.\<close>

definition plain_char :: "char \<Rightarrow> bool" where
  "plain_char c \<longleftrightarrow> \<not> is_blank c \<and> c \<noteq> CHR ''x'' \<and> c \<noteq> CHR ''>''"

lemma py_strip_plain: "list_all (\<lambda>c. \<not> is_blank c) s \<Longrightarrow> py_strip s = s"
proof -
  assume a: "list_all (\<lambda>c. \<not> is_blank c) s"
  have d: "dropWhile is_blank t = t" if "list_all (\<lambda>c. \<not> is_blank c) t" for t using that by (cases t) auto
  have "list_all (\<lambda>c. \<not> is_blank c) (rev s)" using a by (simp add: list_all_iff)
  with a show ?thesis by (simp add: py_strip_def d)
qed

lemma plain_digit: "is_digit c \<Longrightarrow> plain_char c"
  by (auto simp: is_digit_def plain_char_def is_blank_def)

lemma int_of_string_nat: "int_of_string (string_of_nat n) = Inr (int n)"
proof -
  have dig: "list_all is_digit (string_of_nat n)" by (rule string_of_nat_digits)
  have strip: "py_strip (string_of_nat n) = string_of_nat n"
    using dig plain_digit by (intro py_strip_plain) (auto simp: list_all_iff plain_char_def)
  obtain c cs where c: "string_of_nat n = c # cs" using string_of_nat_nonempty by (cases "string_of_nat n") auto
  then have "is_digit c" using dig by simp
  then have "c \<noteq> CHR ''-''" "c \<noteq> CHR ''+''" by (auto simp: is_digit_def)
  then show ?thesis using strip c int_digits_string_of_nat[of n] by (simp add: int_of_string_def)
qed


section \<open>Splitting joined strings\<close>

lemma split_on_prefix: "d \<notin> set p \<Longrightarrow> split_on d (p @ d # rest) = p # split_on d rest"
  by (induction p) auto

lemma split_on_single: "d \<notin> set p \<Longrightarrow> split_on d p = [p]"
  by (induction p) auto

lemma split_on_join:
  "\<forall>p \<in> set ps. d \<notin> set p \<Longrightarrow> ps \<noteq> [] \<Longrightarrow> split_on d (join_with [d] ps) = ps"
proof (induction ps)
  case (Cons p ps)
  then show ?case by (cases ps) (auto simp: split_on_single split_on_prefix)
qed simp

lemma join_with_snoc: "ps \<noteq> [] \<Longrightarrow> join_with sep ps @ sep @ e = join_with sep (ps @ [e])"
proof (induction ps)
  case (Cons p ps)
  then show ?case by (cases ps) auto
qed simp

lemma join_with_chars: "list_all P sep \<Longrightarrow> \<forall>p \<in> set ps. list_all P p \<Longrightarrow> list_all P (join_with sep ps)"
  by (induction sep ps rule: join_with.induct) auto

lemma join_with_empty: "\<forall>p \<in> set ps. p \<noteq> [] \<Longrightarrow> join_with sep ps = [] \<longleftrightarrow> ps = []"
  by (induction sep ps rule: join_with.induct) auto


section \<open>Round trip\<close>

text \<open>The size the parser recovers from a printed dimension: zero stands for dynamic.\<close>

definition printed_size :: "dim \<Rightarrow> int" where
  "printed_size d =
     (case dim_int d of Inl _ \<Rightarrow> 0 | Inr v \<Rightarrow> if v \<ge> 9223372036854775807 \<or> v \<le> 0 then 0 else v)"

lemma dim_str_cases: "dim_str d = ''?'' \<and> printed_size d = 0 \<or>
    (\<exists>n. dim_str d = string_of_nat n \<and> printed_size d = int n)"
  by (auto simp: dim_str_def printed_size_def string_of_int_def split: sum.splits if_splits intro!: exI[of _ "nat _"])

lemma dim_str_plain: "list_all plain_char (dim_str d)" "dim_str d \<noteq> []"
proof -
  have "plain_char CHR ''?''" by (simp add: plain_char_def is_blank_def)
  then show "list_all plain_char (dim_str d)" "dim_str d \<noteq> []"
    using dim_str_cases[of d] string_of_nat_digits string_of_nat_nonempty plain_digit by (auto simp: list_all_iff)
qed

lemma parse_dim_str: "parse_dim (dim_str d) = printed_size d"
proof -
  have "is_digit c \<Longrightarrow> c \<noteq> CHR ''?'' \<and> c \<noteq> CHR ''d''" for c by (auto simp: is_digit_def)
  then have ne: "string_of_nat n \<noteq> ''?''" "string_of_nat n \<noteq> ''dyn''" for n
    using string_of_nat_digits[of n] by (metis list.pred_inject(2))+
  from dim_str_cases[of d] show ?thesis
  proof
    assume "\<exists>n. dim_str d = string_of_nat n \<and> printed_size d = int n"
    then obtain n where "dim_str d = string_of_nat n" "printed_size d = int n" by blast
    then show ?thesis by (simp add: parse_dim_def int_of_string_nat ne)
  qed (simp add: parse_dim_def)
qed

lemma mlir_elt_range: "mlir_elt e \<in> set [''f32'', ''f16'', ''bf16'', ''f64'', ''i32'', ''i64'', ''i8'', ''ui8'', ''i1'']"
proof (cases "map_of elt_map e")
  case (Some m)
  then have "m \<in> snd ` set elt_map" by (metis image_eqI map_of_SomeD snd_conv)
  with Some show ?thesis by (auto simp: mlir_elt_def elt_map_def)
qed (auto simp: mlir_elt_def elt_map_def)

lemma mlir_elt_plain: "list_all plain_char (mlir_elt e)" "mlir_elt e \<noteq> []"
proof -
  have "list_all (\<lambda>s. list_all plain_char s \<and> s \<noteq> [])
      [''f32'', ''f16'', ''bf16'', ''f64'', ''i32'', ''i64'', ''i8'', ''ui8'', ''i1'']"
    by code_simp
  then show "list_all plain_char (mlir_elt e)" "mlir_elt e \<noteq> []"
    using mlir_elt_range[of e] unfolding list_all_iff[of "\<lambda>s. list_all plain_char s \<and> s \<noteq> []"] by blast+
qed

lemma shape_to_mlir_type_parts:
  "shape_to_mlir_type shape elt = ''tensor<'' @ join_with ''x'' (map dim_str shape @ [mlir_elt elt]) @ ''>''"
proof (cases "shape = []")
  case False
  then have "join_with ''x'' (map dim_str shape) \<noteq> []" using dim_str_plain(2) by (subst join_with_empty) auto
  then show ?thesis
    using join_with_snoc[of "map dim_str shape" "''x''" "mlir_elt elt"] False by (simp add: shape_to_mlir_type_def Let_def)
qed (simp add: shape_to_mlir_type_def)

lemma takeWhile_until: "c \<notin> set p \<Longrightarrow> takeWhile (\<lambda>x. x \<noteq> c) (p @ [c]) = p"
  by (induction p) auto

lemma tensor_inner_printed:
  "CHR ''>'' \<notin> set p \<Longrightarrow> tensor_inner (''tensor<'' @ p @ ''>'') = Some p"
  by (simp add: tensor_inner_def takeWhile_until)

text \<open>The op-plan parser reads back every type string the graph converter prints: one size per
  dimension, zero for the dimensions printed as dynamic (unknown, non-positive, symbolic or the
  sentinel), and the canonical name of the printed element type.\<close>

theorem type_string_roundtrip:
  "parse_tensor_type (shape_to_mlir_type shape elt) = (map printed_size shape, canonical_dtype (mlir_elt elt))"
proof -
  let ?ps = "map dim_str shape @ [mlir_elt elt]"
  have plain: "\<forall>p \<in> set ?ps. list_all plain_char p" "\<forall>p \<in> set ?ps. p \<noteq> []"
    using dim_str_plain mlir_elt_plain by auto
  have chars: "list_all (\<lambda>c. \<not> is_blank c \<and> c \<noteq> CHR ''>'') (join_with ''x'' ?ps)"
    using plain(1) by (intro join_with_chars) (auto simp: plain_char_def list_all_iff is_blank_def)
  then have inner: "tensor_inner (shape_to_mlir_type shape elt) = Some (join_with ''x'' ?ps)"
    unfolding shape_to_mlir_type_parts by (intro tensor_inner_printed) (auto simp: list_all_iff)
  have strip: "py_strip (join_with ''x'' ?ps) = join_with ''x'' ?ps"
    using chars by (intro py_strip_plain) (simp add: list_all_iff)
  have ne: "join_with ''x'' ?ps \<noteq> []" using plain(2) by (subst join_with_empty) auto
  have split: "split_on CHR ''x'' (join_with ''x'' ?ps) = ?ps"
    using plain(1) by (intro split_on_join) (auto simp: plain_char_def list_all_iff)
  have "py_strip p = p" if "p \<in> set ?ps" for p
    using plain(1) that by (intro py_strip_plain) (auto simp: plain_char_def list_all_iff)
  then have parts: "map py_strip (split_on CHR ''x'' (join_with ''x'' ?ps)) = ?ps"
    unfolding split by (intro map_idI)
  show ?thesis
    unfolding parse_tensor_type_def inner option.case Let_def strip parts
    using ne by (cases shape) (simp_all add: parse_dim_str)
qed

text \<open>An element type whose name contains the separator is taken apart: \<open>tensor<4xindex>\<close> parses
  as two dimensions and an empty element type.\<close>

theorem index_type_misparsed: "parse_tensor_type ''tensor<4xindex>'' = ([4, 0], [])"
  by code_simp

end
