(* ===== verification/Mlir_Module.thy ===== *)
theory Mlir_Module
  imports Type_Strings Json_Value
begin

text \<open>
  The module types of \<open>compiler/dialect/mlir_op_types.py\<close>, which the graph splitter produces and
  the plan generator reads.  Weight tensors are represented by their names: none of the modelled
  code looks at their values.
\<close>

record mlir_op =
  mo_name :: string
  mo_dialect :: string
  mo_op_name :: string
  mo_operands :: "string list"
  mo_results :: "string list"
  mo_attributes :: "(string, json) dict"
  mo_input_types :: "string list"
  mo_output_types :: "string list"

record mlir_function =
  mf_name :: string
  mf_inputs :: "(string \<times> string) list"
  mf_outputs :: "(string \<times> string \<times> bool) list"
  mf_ops :: "mlir_op list"
  mf_weights :: "string list"
  mf_param_weight_names :: "string list"
  mf_const_weight_names :: "string list"
  mf_weight_names :: "json list"

record mlir_module =
  mm_functions :: "mlir_function list"
  mm_metadata :: "(string, json) dict"
  mm_chain_order :: "string list"
  mm_exec_plan_data :: "int list"

text \<open>\<open>name.lstrip("%")\<close>, the form in which SSA names are compared, and the printed form.\<close>

definition ssa_key :: "string \<Rightarrow> string" where
  "ssa_key name = dropWhile (\<lambda>c. c = CHR ''%'') name"

definition ssa_format :: "string \<Rightarrow> string" where
  "ssa_format name = (if name = [] then name else if starts_with name ''%'' then name else CHR ''%'' # name)"

lemma ssa_key_idem [simp]: "ssa_key (ssa_key n) = ssa_key n"
  by (simp add: ssa_key_def)

lemma ssa_key_percent [simp]: "ssa_key (CHR ''%'' # ssa_key n) = ssa_key n"
  by (simp add: ssa_key_def)

lemma ssa_key_format [simp]: "ssa_key (ssa_format n) = ssa_key n"
  by (simp add: ssa_key_def ssa_format_def)

end
