(* ===== verification/Op_Plan.thy ===== *)
theory Op_Plan
  imports Mlir_Module
begin

text \<open>
  The op-level execution plan, \<open>compiler/op_plan.py\<close>, over the module types of
  \<open>compiler/dialect/mlir_op_types.py\<close>: which function pairs are covered, how operands resolve
  to producers, how nodes are built and their outputs projected onto cache bindings, and the
  validator.  The plan message (\<open>include/sfa_abi.proto\<close>) is a record; its byte encoding and the
  formatting of floats and of other objects by Python are parameters.
\<close>


section \<open>Formatting\<close>

text \<open>Formatting of values whose text Python defines: \<open>repr\<close> of a float and \<open>str\<close> of an object.\<close>

record py_format =
  repr_float :: "rat \<Rightarrow> string"
  str_other :: "json \<Rightarrow> string"


section \<open>The plan message\<close>

record tensor_spec =
  ts_rank :: nat
  ts_dims :: "int list"
  ts_dtype :: string

datatype plan_source =
    SrcWeight string
  | SrcSSA nat nat
  | SrcConstant string
  | SrcFuncOutput nat nat

record plan_input =
  pin_spec :: tensor_spec
  pin_source :: plan_source

record plan_output =
  po_spec :: tensor_spec
  po_lifetime :: nat
  po_cache :: "(string \<times> nat \<times> nat) option"

record plan_node =
  pn_index :: nat
  pn_op_name :: string
  pn_inputs :: "plan_input list"
  pn_outputs :: "plan_output list"
  pn_source_func_indices :: "nat list"
  pn_attributes :: "(string, string) dict"

record plan_func_output =
  fo_func_index :: nat
  fo_output_index :: nat
  fo_value :: "nat \<times> nat"
  fo_consumed :: bool

record op_plan =
  pl_global_inputs :: "string list"
  pl_nodes :: "plan_node list"
  pl_global_output :: "nat \<times> nat"
  pl_func_outputs :: "plan_func_output list"


section \<open>Names and attributes\<close>

definition canonical :: "(string, string) dict" where
  "canonical =
     [(''layer_norm'', ''layer_norm''), (''linear'', ''linear_transb''), (''scaled_dot_product_attention'', ''attention_causal''),
      (''add'', ''add''), (''relu'', ''relu''), (''mul'', ''mul''), (''view'', ''view''), (''transpose'', ''transpose''),
      (''identity'', ''identity'')]"

definition plan_op_names :: "string list" where
  "plan_op_names = map snd canonical"

fun attr_to_string :: "py_format \<Rightarrow> json \<Rightarrow> string" where
  "attr_to_string F (JBool b) = (if b then ''true'' else ''false'')"
| "attr_to_string F (JInt i) = string_of_int i"
| "attr_to_string F (JFloat r) = repr_float F r"
| "attr_to_string F (JList xs) = ''['' @ join_with '', '' (map (attr_to_string F) xs) @ '']''"
| "attr_to_string F (JStr s) = s"
| "attr_to_string F v = str_other F v"


section \<open>Coverage\<close>

definition is_decoder_pair :: "mlir_function \<Rightarrow> mlir_function \<Rightarrow> bool" where
  "is_decoder_pair a b \<longleftrightarrow>
     ends_with (mf_name a) ''a'' \<and> mf_name b = butlast (mf_name a) @ ''b'' \<and>
     (\<exists>op \<in> set (mf_ops a). mo_op_name op = ''layer_norm'') \<and> (\<exists>op \<in> set (mf_ops a). mo_op_name op = ''linear'') \<and>
     (case mf_ops b of [] \<Rightarrow> False | op # _ \<Rightarrow> mo_op_name op = ''scaled_dot_product_attention'')"

fun covered_pairs_from :: "nat \<Rightarrow> mlir_function list \<Rightarrow> (nat \<times> nat) list" where
  "covered_pairs_from i (a # b # rest) =
     (if is_decoder_pair a b then (i, i + 1) # covered_pairs_from (i + 2) rest
      else covered_pairs_from (i + 1) (b # rest))"
| "covered_pairs_from i _ = []"

definition covered_decoder_pairs :: "mlir_function list \<Rightarrow> (nat \<times> nat) list" where
  "covered_decoder_pairs functions = covered_pairs_from 0 functions"

definition build_ssa_to_func_output :: "mlir_function list \<Rightarrow> (string, nat \<times> nat) dict" where
  "build_ssa_to_func_output functions =
     foldl (\<lambda>out (fi, f). foldl (\<lambda>out (oi, nm, _, _). dict_setdefault out (ssa_key nm) (fi, oi)) out (enum_from 0 (mf_outputs f)))
       [] (enum_from 0 functions)"

definition type_map_op :: "(string, string) dict \<Rightarrow> mlir_op \<Rightarrow> (string, string) dict" where
  "type_map_op types op =
     foldl (\<lambda>types (idx, r).
              if idx < length (mo_output_types op) then AList.update (ssa_key r) (mo_output_types op ! idx) types
              else dict_setdefault types (ssa_key r) ''tensor<f32>'')
       types (enum_from 0 (mo_results op))"

definition build_type_map :: "mlir_function list \<Rightarrow> (string, string) dict" where
  "build_type_map functions = foldl (\<lambda>types f. foldl type_map_op types (mf_ops f)) [] functions"

definition make_spec :: "(string, string) dict \<Rightarrow> string \<Rightarrow> string \<Rightarrow> int list \<times> string" where
  "make_spec types nm fallback = parse_tensor_type (dict_get types (ssa_key nm) fallback)"

text \<open>The \<open>dims\<close> field is \<open>repeated uint64\<close>.\<close>

definition set_spec :: "int list \<Rightarrow> string \<Rightarrow> tensor_spec res" where
  "set_spec ds dt =
     (if list_all (\<lambda>d. 0 \<le> d \<and> d < 2 ^ 64) ds
      then Inr \<lparr>ts_rank = length ds, ts_dims = ds, ts_dtype = (if dt = [] then ''float32'' else dt)\<rparr>
      else Inl ValueError)"


section \<open>Nodes\<close>

definition resolve_input ::
  "string \<Rightarrow> mlir_function \<Rightarrow> (string, nat \<times> nat) dict \<Rightarrow> (string, nat \<times> nat) dict \<Rightarrow> string option \<Rightarrow> plan_input res" where
  "resolve_input operand func plan_map ssa_to_func_output input_type =
     (let key = ssa_key operand;
          fallback = (case input_type of Some t \<Rightarrow> if t = [] then ''tensor<f32>'' else t | None \<Rightarrow> ''tensor<f32>'')
      in case parse_tensor_type fallback of (ds, dt) \<Rightarrow>
         res_bind (set_spec ds dt) (\<lambda>spec.
           case map_of plan_map key of
             Some (n, k) \<Rightarrow> Inr \<lparr>pin_spec = spec, pin_source = SrcSSA n k\<rparr>
           | None \<Rightarrow>
               if key \<in> set (mf_param_weight_names func) \<or> key \<in> set (mf_weights func)
               then Inr \<lparr>pin_spec = spec, pin_source = SrcWeight key\<rparr>
               else if key \<in> set (mf_const_weight_names func)
               then Inr \<lparr>pin_spec = spec, pin_source = SrcConstant key\<rparr>
               else (case map_of ssa_to_func_output key of
                       Some (fi, oi) \<Rightarrow> Inr \<lparr>pin_spec = spec, pin_source = SrcFuncOutput fi oi\<rparr>
                     | None \<Rightarrow> Inl ValueError)))"

type_synonym build_state = "(string, nat \<times> nat) dict \<times> plan_node list"

definition build_node ::
  "py_format \<Rightarrow> mlir_function list \<Rightarrow> (string, nat \<times> nat) dict \<Rightarrow> build_state \<Rightarrow> nat \<times> mlir_op \<Rightarrow> build_state res" where
  "build_node F functions ssa_to_func_output st fop =
     (case st of (plan_map, nodes) \<Rightarrow> case fop of (fi, op) \<Rightarrow>
        (case map_of canonical (mo_op_name op) of
           None \<Rightarrow> Inl ValueError
         | Some cname \<Rightarrow>
             let index = length nodes;
                 attrs = foldl (\<lambda>m (k, v). AList.update k (attr_to_string F v) m) [] (mo_attributes op)
             in res_bind (res_mapM (\<lambda>(idx, operand).
                            resolve_input operand (functions ! fi) plan_map ssa_to_func_output
                              (if idx < length (mo_input_types op) then Some (mo_input_types op ! idx) else None))
                          (enum_from 0 (mo_operands op))) (\<lambda>inputs.
                case parse_tensor_type (case mo_output_types op of [] \<Rightarrow> ''tensor<f32>'' | t # _ \<Rightarrow> t) of (ds, dt) \<Rightarrow>
                res_bind (set_spec ds dt) (\<lambda>spec.
                Inr (foldl (\<lambda>m r. AList.update (ssa_key r) (index, 0) m) plan_map (mo_results op),
                     nodes @ [\<lparr>pn_index = index, pn_op_name = cname, pn_inputs = inputs,
                               pn_outputs = [\<lparr>po_spec = spec, po_lifetime = 2, po_cache = None\<rparr>],
                               pn_source_func_indices = [fi], pn_attributes = attrs\<rparr>])))))"

definition covered_ops :: "mlir_function list \<Rightarrow> nat list \<Rightarrow> (nat \<times> mlir_op) list" where
  "covered_ops functions covered = concat (map (\<lambda>fi. map (Pair fi) (mf_ops (functions ! fi))) covered)"

definition build_nodes ::
  "py_format \<Rightarrow> mlir_function list \<Rightarrow> nat list \<Rightarrow> (string, nat \<times> nat) dict \<Rightarrow> build_state res" where
  "build_nodes F functions covered ssa_to_func_output =
     res_foldM (build_node F functions ssa_to_func_output) ([], []) (covered_ops functions covered)"


section \<open>Consumers, outputs and cache projection\<close>

definition external_consumer_ssa :: "mlir_function list \<Rightarrow> nat list \<Rightarrow> string set" where
  "external_consumer_ssa functions covered =
     set (concat (map (\<lambda>(fi, f). if fi \<in> set covered then [] else concat (map (\<lambda>op. map ssa_key (mo_operands op)) (mf_ops f)))
                      (enum_from 0 functions)))"

definition consumer_counts :: "mlir_function list \<Rightarrow> nat list \<Rightarrow> (string, nat) dict" where
  "consumer_counts functions covered =
     foldl (\<lambda>c key. AList.update key (dict_get c key 0 + 1) c) []
       (concat (map (\<lambda>(_, op). map ssa_key (mo_operands op)) (covered_ops functions (remdups covered))))"

definition set_output :: "plan_node list \<Rightarrow> nat \<times> nat \<Rightarrow> (plan_output \<Rightarrow> plan_output) \<Rightarrow> plan_node list res" where
  "set_output nodes ref f =
     (case ref of (n, k) \<Rightarrow>
        if n < length nodes \<and> k < length (pn_outputs (nodes ! n))
        then Inr (nodes[n := (nodes ! n)\<lparr>pn_outputs := (pn_outputs (nodes ! n))[k := f (pn_outputs (nodes ! n) ! k)]\<rparr>])
        else Inl IndexError)"

type_synonym final_state = "plan_node list \<times> plan_func_output list \<times> (nat \<times> nat) list"

definition finalize_one ::
  "(string, nat \<times> nat) dict \<Rightarrow> (int \<times> int, string) dict \<Rightarrow> string set \<Rightarrow> (string, nat) dict \<Rightarrow> final_state
     \<Rightarrow> nat \<times> nat \<times> string \<times> string \<times> bool \<Rightarrow> final_state res" where
  "finalize_one plan_map binding_slab external counts st e =
     (case st of (nodes, fos, projected) \<Rightarrow> case e of (fi, oi, nm, _, consumed) \<Rightarrow>
        let key = ssa_key nm
        in case map_of plan_map key of
             None \<Rightarrow> Inl ValueError
           | Some ref \<Rightarrow>
               let fos' = fos @ [\<lparr>fo_func_index = fi, fo_output_index = oi, fo_value = ref, fo_consumed = consumed\<rparr>]
               in if consumed
                  then (case map_of binding_slab (int fi, int oi) of
                          None \<Rightarrow> Inl ValueError
                        | Some slab \<Rightarrow>
                            res_bind (set_output nodes ref (\<lambda>out. out\<lparr>po_lifetime := 3, po_cache := Some (slab, fi, oi)\<rparr>))
                              (\<lambda>nodes'. Inr (nodes', fos', projected @ [(fi, oi)])))
                  else res_bind (set_output nodes ref (\<lambda>out. out\<lparr>po_lifetime :=
                           (if key \<in> external then 2 else if dict_get counts key 0 = 1 then 0 else 1)\<rparr>))
                         (\<lambda>nodes'. Inr (nodes', fos', projected)))"

definition covered_outputs :: "mlir_function list \<Rightarrow> nat list \<Rightarrow> (nat \<times> nat \<times> string \<times> string \<times> bool) list" where
  "covered_outputs functions covered = concat (map (\<lambda>fi. map (Pair fi) (enum_from 0 (mf_outputs (functions ! fi)))) covered)"

text \<open>The cache entries of all node outputs, in node order.\<close>

definition plan_caches :: "plan_node list \<Rightarrow> (string \<times> nat \<times> nat) list" where
  "plan_caches nodes =
     concat (map (\<lambda>n. concat (map (\<lambda>out. case po_cache out of None \<Rightarrow> [] | Some c \<Rightarrow> [c]) (pn_outputs n))) nodes)"

definition caches_match :: "(int \<times> int, string) dict \<Rightarrow> plan_node list \<Rightarrow> bool" where
  "caches_match binding_slab nodes = list_all (\<lambda>(slab, fi, oi). map_of binding_slab (int fi, int oi) = Some slab) (plan_caches nodes)"

definition finalize_outputs ::
  "mlir_function list \<Rightarrow> nat list \<Rightarrow> plan_node list \<Rightarrow> (string, nat \<times> nat) dict \<Rightarrow> (int \<times> int, string) dict \<Rightarrow> string set
     \<Rightarrow> (string, nat) dict \<Rightarrow> (plan_node list \<times> plan_func_output list) res" where
  "finalize_outputs functions covered nodes plan_map binding_slab external counts =
     res_bind (res_foldM (finalize_one plan_map binding_slab external counts) (nodes, [], []) (covered_outputs functions covered))
       (\<lambda>(nodes', fos, projected).
          if list_all (\<lambda>(k, _). fst k \<in> int ` set covered \<longrightarrow> k \<in> (\<lambda>(fi, oi). (int fi, int oi)) ` set projected) binding_slab \<and>
             caches_match binding_slab nodes'
          then Inr (nodes', fos) else Inl ValueError)"

fun json_text :: "py_format \<Rightarrow> json \<Rightarrow> string" where
  "json_text F (JStr s) = s"
| "json_text F (JInt i) = string_of_int i"
| "json_text F v = str_other F v"

definition binding_entry :: "py_format \<Rightarrow> (int \<times> int, string) dict \<Rightarrow> json \<Rightarrow> (int \<times> int, string) dict res" where
  "binding_entry F out entry =
     (case entry of
        JList [a, b, c] \<Rightarrow> res_bind (json_int a) (\<lambda>i. res_bind (json_int b) (\<lambda>j. Inr (AList.update (i, j) (json_text F c) out)))
      | _ \<Rightarrow> Inr out)"

definition cache_binding_slab :: "py_format \<Rightarrow> json \<Rightarrow> (int \<times> int, string) dict res" where
  "cache_binding_slab F metadata =
     res_bind (json_get metadata ''cache_bindings'' JNull) (\<lambda>b.
       if json_truthy b then res_bind (json_iter b) (res_foldM (binding_entry F) []) else Inr [])"


section \<open>Validation\<close>

definition input_valid :: "mlir_function list \<Rightarrow> plan_node list \<Rightarrow> nat \<Rightarrow> plan_input \<Rightarrow> bool" where
  "input_valid functions nodes idx inp =
     (case pin_source inp of
        SrcFuncOutput fi oi \<Rightarrow> fi < length functions \<and> oi < length (mf_outputs (functions ! fi))
      | SrcSSA ni oi \<Rightarrow> ni < idx \<and> oi < length (pn_outputs (nodes ! ni))
      | _ \<Rightarrow> True)"

definition node_valid :: "mlir_function list \<Rightarrow> plan_node list \<Rightarrow> nat \<times> plan_node \<Rightarrow> bool" where
  "node_valid functions nodes e =
     (case e of (idx, node) \<Rightarrow>
        pn_index node = idx \<and> pn_op_name node \<in> set plan_op_names \<and> pn_source_func_indices node \<noteq> [] \<and>
        list_all (\<lambda>sfi. sfi < length functions) (pn_source_func_indices node) \<and>
        list_all (input_valid functions nodes idx) (pn_inputs node))"

definition validate_nodes :: "mlir_function list \<Rightarrow> plan_node list \<Rightarrow> bool" where
  "validate_nodes functions nodes \<longleftrightarrow> nodes \<noteq> [] \<and> list_all (node_valid functions nodes) (enum_from 0 nodes)"

definition validate_cache :: "(int \<times> int, string) dict \<Rightarrow> plan_node list \<Rightarrow> bool" where
  "validate_cache binding_slab nodes \<longleftrightarrow>
     caches_match binding_slab nodes \<and>
     list_all (\<lambda>(k, _). fst k \<in> int ` set (concat (map pn_source_func_indices nodes)) \<longrightarrow>
                        k \<in> (\<lambda>(_, fi, oi). (int fi, int oi)) ` set (plan_caches nodes)) binding_slab"

definition names_known :: "mlir_function list \<Rightarrow> plan_input \<Rightarrow> bool" where
  "names_known functions inp =
     (case pin_source inp of
        SrcWeight w \<Rightarrow> (\<exists>f \<in> set functions. w \<in> set (mf_param_weight_names f) \<or> w \<in> set (mf_weights f))
      | SrcConstant c \<Rightarrow> (\<exists>f \<in> set functions. c \<in> set (mf_const_weight_names f))
      | _ \<Rightarrow> True)"

definition validate_names :: "mlir_function list \<Rightarrow> plan_node list \<Rightarrow> bool" where
  "validate_names functions nodes = list_all (\<lambda>n. list_all (names_known functions) (pn_inputs n)) nodes"

definition or_empty :: "json \<Rightarrow> json" where
  "or_empty metadata = (if json_truthy metadata then metadata else JDict [])"

definition validate_op_plan :: "py_format \<Rightarrow> op_plan \<Rightarrow> mlir_function list \<Rightarrow> json \<Rightarrow> unit res" where
  "validate_op_plan F plan functions metadata =
     (if \<not> validate_nodes functions (pl_nodes plan) then Inl ValueError
      else res_bind (cache_binding_slab F (or_empty metadata)) (\<lambda>binding_slab.
           if validate_cache binding_slab (pl_nodes plan) \<and> validate_names functions (pl_nodes plan) then Inr ()
           else Inl ValueError))"


section \<open>Generation\<close>

definition weight_input :: "string list \<Rightarrow> mlir_op \<Rightarrow> string list res" where
  "weight_input gs op =
     (if mo_op_name op \<noteq> ''weight'' then Inr gs
      else let wname = dict_get (mo_attributes op) ''name'' (JStr [])
           in if \<not> json_truthy wname then Inr gs
              else case wname of
                     JStr w \<Rightarrow> Inr (if w \<notin> set gs \<and> \<not> starts_with w ''_const_'' then gs @ [w] else gs)
                   | _ \<Rightarrow> Inl AttributeError)"

definition global_output_ref :: "mlir_function \<Rightarrow> (string, nat \<times> nat) dict \<Rightarrow> nat \<times> nat" where
  "global_output_ref func plan_map =
     (case List.map_filter (\<lambda>(nm, _, consumed). if consumed then None else map_of plan_map (ssa_key nm)) (rev (mf_outputs func)) of
        [] \<Rightarrow> (0, 0) | ref # _ \<Rightarrow> ref)"

definition generate_op_plan :: "py_format \<Rightarrow> mlir_function list \<Rightarrow> json \<Rightarrow> op_plan option res" where
  "generate_op_plan F functions metadata0 =
     (let metadata = or_empty metadata0;
          pairs = covered_decoder_pairs functions;
          covered = concat (map (\<lambda>(a, b). [a, b]) pairs)
      in if pairs = [] then Inr None
         else res_bind (res_foldM weight_input (map fst (mf_inputs (functions ! 0))) (mf_ops (functions ! 0))) (\<lambda>globals.
              let ssa_to_func_output = build_ssa_to_func_output functions
              in res_bind (cache_binding_slab F metadata) (\<lambda>binding_slab.
                 res_bind (build_nodes F functions covered ssa_to_func_output) (\<lambda>(plan_map, nodes).
                 res_bind (finalize_outputs functions covered nodes plan_map binding_slab
                             (external_consumer_ssa functions covered) (consumer_counts functions covered)) (\<lambda>(nodes', fos).
                 let plan = \<lparr>pl_global_inputs = globals, pl_nodes = nodes',
                             pl_global_output = global_output_ref (functions ! last covered) plan_map,
                             pl_func_outputs = fos\<rparr>
                 in res_bind (validate_op_plan F plan functions metadata) (\<lambda>_. Inr (Some plan)))))))"


section \<open>Coverage lemmas\<close>

lemma covered_pairs_range:
  "(a, b) \<in> set (covered_pairs_from i fs) \<Longrightarrow> i \<le> a \<and> b = Suc a \<and> b < i + length fs \<and> is_decoder_pair (fs ! (a - i)) (fs ! (b - i))"
proof (induction i fs rule: covered_pairs_from.induct)
  case (1 i f g rest)
  show ?case
  proof (cases "is_decoder_pair f g \<and> (a, b) = (i, i + 1)")
    case False
    then show ?thesis
    proof (cases "is_decoder_pair f g")
      case True
      with False "1.prems" have "(a, b) \<in> set (covered_pairs_from (i + 2) rest)" by auto
      from "1.IH"(1)[OF True this] show ?thesis by (auto simp: Suc_diff_le numeral_2_eq_2 nth_Cons' split: nat.splits)
    next
      case ng: False
      with "1.prems" have "(a, b) \<in> set (covered_pairs_from (i + 1) (g # rest))" by simp
      from "1.IH"(2)[OF ng this] show ?thesis by (auto simp: Suc_diff_le nth_Cons' split: nat.splits)
    qed
  qed simp
qed auto

lemma covered_in_range:
  assumes "fi \<in> set (concat (map (\<lambda>(a, b). [a, b]) (covered_decoder_pairs functions)))"
  shows "fi < length functions"
proof -
  obtain a b where "(a, b) \<in> set (covered_decoder_pairs functions)" "fi = a \<or> fi = b" using assms by auto
  then show ?thesis using covered_pairs_range[of a b 0 "functions"] by (auto simp: covered_decoder_pairs_def)
qed

lemma covered_distinct: "distinct (concat (map (\<lambda>(a, b). [a, b]) (covered_pairs_from i fs)))"
proof (induction i fs rule: covered_pairs_from.induct)
  case (1 i f g rest)
  have "x \<notin> set (concat (map (\<lambda>(a, b). [a, b]) (covered_pairs_from (i + 2) rest)))" if x: "x < i + 2" for x
  proof
    assume "x \<in> set (concat (map (\<lambda>(a, b). [a, b]) (covered_pairs_from (i + 2) rest)))"
    then obtain a b where ab: "(a, b) \<in> set (covered_pairs_from (i + 2) rest)" "x = a \<or> x = b" by auto
    from covered_pairs_range[OF ab(1)] ab(2) x show False by linarith
  qed
  from this[of i] this[of "i + 1"] 1 show ?case by simp
qed auto

lemma foldl_invariant: "P s \<Longrightarrow> (\<And>s x. x \<in> set xs \<Longrightarrow> P s \<Longrightarrow> P (f s x)) \<Longrightarrow> P (foldl f s xs)"
  by (induction xs arbitrary: s) auto

definition refs_ok :: "('r \<Rightarrow> bool) \<Rightarrow> (string, 'r) dict \<Rightarrow> bool" where
  "refs_ok R d \<longleftrightarrow> (\<forall>k r. map_of d k = Some r \<longrightarrow> R r)"

lemma refs_ok_setdefault: "refs_ok R d \<Longrightarrow> R r \<Longrightarrow> refs_ok R (dict_setdefault d k r)"
  by (auto simp: refs_ok_def dict_setdefault_lookup)

lemma refs_ok_update: "refs_ok R d \<Longrightarrow> R r \<Longrightarrow> refs_ok R (AList.update k r d)"
  by (auto simp: refs_ok_def)

lemma ssa_to_func_output_range:
  "refs_ok (\<lambda>(fi, oi). fi < length functions \<and> oi < length (mf_outputs (functions ! fi))) (build_ssa_to_func_output functions)"
  unfolding build_ssa_to_func_output_def
proof (rule foldl_invariant)
  let ?R = "\<lambda>(fi, oi). fi < length functions \<and> oi < length (mf_outputs (functions ! fi))"
  show "refs_ok ?R []" by (simp add: refs_ok_def)
  fix out e assume e: "e \<in> set (enum_from 0 functions)" and ok: "refs_ok ?R out"
  obtain fi f where fif: "e = (fi, f)" by fastforce
  with e have fif': "fi < length functions" "f = functions ! fi" by (auto simp: set_enum_from)
  have "refs_ok ?R (foldl (\<lambda>out (oi, nm, _, _). dict_setdefault out (ssa_key nm) (fi, oi)) out (enum_from 0 (mf_outputs f)))"
    using ok by (rule foldl_invariant) (auto simp: set_enum_from fif' intro!: refs_ok_setdefault)
  then show "refs_ok ?R (case e of (fi, f) \<Rightarrow>
      foldl (\<lambda>out (oi, nm, _, _). dict_setdefault out (ssa_key nm) (fi, oi)) out (enum_from 0 (mf_outputs f)))"
    using fif by simp
qed


section \<open>Structure of built nodes\<close>

definition input_ok :: "mlir_function list \<Rightarrow> nat \<Rightarrow> plan_input \<Rightarrow> bool" where
  "input_ok functions idx inp \<longleftrightarrow> names_known functions inp \<and>
     (case pin_source inp of
        SrcSSA n k \<Rightarrow> n < idx \<and> k = 0
      | SrcFuncOutput fi oi \<Rightarrow> fi < length functions \<and> oi < length (mf_outputs (functions ! fi))
      | _ \<Rightarrow> True)"

definition node_ok :: "mlir_function list \<Rightarrow> nat \<Rightarrow> plan_node \<Rightarrow> bool" where
  "node_ok functions idx n \<longleftrightarrow>
     pn_index n = idx \<and> pn_op_name n \<in> set plan_op_names \<and> length (pn_outputs n) = 1 \<and>
     (\<exists>fi < length functions. pn_source_func_indices n = [fi]) \<and> (\<forall>inp \<in> set (pn_inputs n). input_ok functions idx inp)"

definition build_ok :: "mlir_function list \<Rightarrow> build_state \<Rightarrow> bool" where
  "build_ok functions st \<longleftrightarrow>
     refs_ok (\<lambda>(n, k). n < length (snd st) \<and> k = 0) (fst st) \<and> (\<forall>i < length (snd st). node_ok functions i (snd st ! i))"

lemma resolve_input_ok:
  assumes "resolve_input operand func plan_map ssa ty = Inr inp" and "func \<in> set functions"
    and "refs_ok (\<lambda>(n, k). n < idx \<and> k = 0) plan_map"
    and "refs_ok (\<lambda>(fi, oi). fi < length functions \<and> oi < length (mf_outputs (functions ! fi))) ssa"
  shows "input_ok functions idx inp"
  using assms
  by (auto simp: resolve_input_def Let_def res_simps input_ok_def names_known_def refs_ok_def
      split: prod.splits option.splits if_splits)

lemma res_mapM_in: "res_mapM f xs = Inr ys \<Longrightarrow> y \<in> set ys \<Longrightarrow> \<exists>x \<in> set xs. f x = Inr y"
proof (induction xs arbitrary: ys)
  case (Cons x xs)
  then obtain z zs where "ys = z # zs" "f x = Inr z" "res_mapM f xs = Inr zs" by (auto simp: res_simps)
  with Cons show ?case by auto
qed simp

lemma build_node_ok:
  assumes ok: "build_ok functions st" and step: "build_node F functions (build_ssa_to_func_output functions) st (fi, op) = Inr st'"
    and fi: "fi < length functions"
  shows "build_ok functions st'"
proof -
  obtain plan_map nodes where st: "st = (plan_map, nodes)" by (cases st)
  from step st obtain cname inputs node where
    c: "map_of canonical (mo_op_name op) = Some cname" and
    inputs: "res_mapM (\<lambda>(idx, operand). resolve_input operand (functions ! fi) plan_map (build_ssa_to_func_output functions)
        (if idx < length (mo_input_types op) then Some (mo_input_types op ! idx) else None)) (enum_from 0 (mo_operands op)) = Inr inputs" and
    st': "st' = (foldl (\<lambda>m r. AList.update (ssa_key r) (length nodes, 0) m) plan_map (mo_results op), nodes @ [node])" and
    node: "pn_index node = length nodes" "pn_op_name node = cname" "pn_inputs node = inputs" "length (pn_outputs node) = 1"
      "pn_source_func_indices node = [fi]"
    by (cases "parse_tensor_type (case mo_output_types op of [] \<Rightarrow> ''tensor<f32>'' | t # _ \<Rightarrow> t)")
       (auto simp: build_node_def Let_def res_simps split: option.splits)
  have refs: "refs_ok (\<lambda>(n, k). n < length nodes \<and> k = 0) plan_map" using ok st by (simp add: build_ok_def)
  have "input_ok functions (length nodes) inp" if "inp \<in> set inputs" for inp
    using res_mapM_in[OF inputs that] resolve_input_ok[OF _ nth_mem[OF fi] refs ssa_to_func_output_range] by auto
  moreover have "cname \<in> set plan_op_names" using map_of_SomeD[OF c] by (force simp: plan_op_names_def)
  ultimately have new: "node_ok functions (length nodes) node" using node fi by (auto simp: node_ok_def)
  have "refs_ok (\<lambda>(n, k). n < Suc (length nodes) \<and> k = 0) plan_map"
    using refs by (force simp: refs_ok_def)
  then have "refs_ok (\<lambda>(n, k). n < Suc (length nodes) \<and> k = 0)
      (foldl (\<lambda>m r. AList.update (ssa_key r) (length nodes, 0) m) plan_map (mo_results op))"
    by (rule foldl_invariant) (auto intro: refs_ok_update)
  then show ?thesis using ok st st' new by (auto simp: build_ok_def nth_append less_Suc_eq)
qed

lemma build_nodes_ok:
  assumes "build_nodes F functions covered (build_ssa_to_func_output functions) = Inr st"
    and "\<forall>fi \<in> set covered. fi < length functions"
  shows "build_ok functions st"
  using assms(1) unfolding build_nodes_def
proof (rule res_foldM_invariant)
  show "build_ok functions ([], [])" by (simp add: build_ok_def refs_ok_def)
  fix x s1 s2 assume "x \<in> set (covered_ops functions covered)" "build_ok functions s1"
    "build_node F functions (build_ssa_to_func_output functions) s1 x = Inr s2"
  then show "build_ok functions s2"
    using build_node_ok[of "functions" s1 F "fst x" "snd x" s2] assms(2) by (auto simp: covered_ops_def)
qed

text \<open>Finalizing changes lifetimes and cache entries only.\<close>

definition node_shape :: "plan_node \<Rightarrow> nat \<times> string \<times> plan_input list \<times> nat list \<times> nat" where
  "node_shape n = (pn_index n, pn_op_name n, pn_inputs n, pn_source_func_indices n, length (pn_outputs n))"

lemma set_output_shape: "set_output nodes ref f = Inr nodes' \<Longrightarrow> map node_shape nodes' = map node_shape nodes"
  by (auto simp: set_output_def map_update node_shape_def list_update_same_conv split: prod.splits if_splits)

lemma finalize_shape:
  assumes "finalize_outputs functions covered nodes pm bs ext cnt = Inr (nodes', fos)"
  shows "map node_shape nodes' = map node_shape nodes"
proof -
  obtain pr where f: "res_foldM (finalize_one pm bs ext cnt) (nodes, [], []) (covered_outputs functions covered) = Inr (nodes', fos, pr)"
    using assms by (auto simp: finalize_outputs_def res_simps split: prod.splits if_splits)
  have "map node_shape (fst (nodes', fos, pr)) = map node_shape nodes"
    using f
  proof (rule res_foldM_invariant)
    fix x s1 s2 assume "map node_shape (fst s1) = map node_shape nodes" "finalize_one pm bs ext cnt s1 x = Inr s2"
    then show "map node_shape (fst s2) = map node_shape nodes"
      using set_output_shape by (cases s1) (auto simp: finalize_one_def Let_def res_simps split: prod.splits option.splits if_splits)
  qed simp
  then show ?thesis by simp
qed

lemma node_ok_shape: "node_shape n = node_shape m \<Longrightarrow> node_ok functions i n \<Longrightarrow> node_ok functions i m"
  by (auto simp: node_shape_def node_ok_def)

lemma nodes_ok_valid:
  assumes "\<forall>i < length nodes. node_ok functions i (nodes ! i)" and "nodes \<noteq> []"
  shows "validate_nodes functions nodes" and "validate_names functions nodes"
proof -
  have len: "length (pn_outputs (nodes ! j)) = 1" if "j < length nodes" for j using assms(1) that by (simp add: node_ok_def)
  have "node_valid functions nodes (i, nodes ! i)" if i: "i < length nodes" for i
    using assms(1)[rule_format, OF i] len i
    by (auto simp: node_ok_def node_valid_def list_all_iff input_ok_def input_valid_def split: plan_source.splits)
  then show "validate_nodes functions nodes"
    using assms(2) by (auto simp: validate_nodes_def list_all_iff set_enum_from)
  have "list_all (names_known functions) (pn_inputs n)" if n: "n \<in> set nodes" for n
  proof -
    obtain i where "i < length nodes" "nodes ! i = n" using n by (auto simp: in_set_conv_nth)
    then show ?thesis using assms(1) by (auto simp: list_all_iff node_ok_def input_ok_def)
  qed
  then show "validate_names functions nodes" by (simp add: validate_names_def list_all_iff)
qed

lemma build_nodes_length:
  "res_foldM (build_node F functions ssa) st ops = Inr st' \<Longrightarrow> length (snd st') = length (snd st) + length ops"
proof (induction ops arbitrary: st)
  case (Cons x ops)
  then obtain s1 where s1: "build_node F functions ssa st x = Inr s1" "res_foldM (build_node F functions ssa) s1 ops = Inr st'"
    by (auto simp: res_simps)
  have "length (snd s1) = Suc (length (snd st))"
    using s1(1) by (cases st; cases x; cases "parse_tensor_type (case mo_output_types (snd x) of [] \<Rightarrow> ''tensor<f32>'' | t # _ \<Rightarrow> t)")
      (auto simp: build_node_def Let_def res_simps split: option.splits)
  with Cons.IH[OF s1(2)] show ?case by simp
qed simp

lemma covered_ops_nonempty:
  assumes "covered_decoder_pairs functions \<noteq> []"
  shows "covered_ops functions (concat (map (\<lambda>(a, b). [a, b]) (covered_decoder_pairs functions))) \<noteq> []"
proof -
  obtain a b ps where ab: "covered_decoder_pairs functions = (a, b) # ps" using assms by (cases "covered_decoder_pairs functions") auto
  then have "is_decoder_pair (functions ! a) (functions ! b)"
    using covered_pairs_range[of a b 0 "functions"] by (auto simp: covered_decoder_pairs_def)
  then have "mf_ops (functions ! a) \<noteq> []" by (auto simp: is_decoder_pair_def)
  then show ?thesis using ab by (simp add: covered_ops_def)
qed

lemma generated_nodes_ok:
  assumes "covered = concat (map (\<lambda>(a, b). [a, b]) (covered_decoder_pairs functions))" and "covered_decoder_pairs functions \<noteq> []"
    and "build_nodes F functions covered (build_ssa_to_func_output functions) = Inr (pm, nodes)"
    and "finalize_outputs functions covered nodes pm bs ext cnt = Inr (nodes', fos)"
  shows "nodes' \<noteq> [] \<and> (\<forall>i < length nodes'. node_ok functions i (nodes' ! i))"
proof -
  have ok: "build_ok functions (pm, nodes)"
    using build_nodes_ok[OF assms(3)] assms(1) covered_in_range by blast
  have sh: "map node_shape nodes' = map node_shape nodes" using finalize_shape[OF assms(4)] .
  then have len: "length nodes' = length nodes" by (metis length_map)
  have "nodes \<noteq> []"
    using build_nodes_length[of F "functions" _ _ _ "(pm, nodes)"] assms(3) covered_ops_nonempty[OF assms(2)] assms(1)
    unfolding build_nodes_def by (metis add_is_0 length_0_conv snd_conv)
  moreover have "node_ok functions i (nodes' ! i)" if "i < length nodes'" for i
  proof (rule node_ok_shape)
    show "node_shape (nodes ! i) = node_shape (nodes' ! i)" using sh that len by (metis nth_map)
    show "node_ok functions i (nodes ! i)" using ok that len by (simp add: build_ok_def)
  qed
  ultimately show ?thesis using len by auto
qed


section \<open>Where a name is defined\<close>

text \<open>The position of the last covered operation that has a name among its results.\<close>

definition op_defines :: "mlir_op \<Rightarrow> string \<Rightarrow> bool" where
  "op_defines op key \<longleftrightarrow> key \<in> ssa_key ` set (mo_results op)"

fun last_def_from :: "nat \<Rightarrow> (nat \<times> mlir_op) list \<Rightarrow> string \<Rightarrow> nat option" where
  "last_def_from i [] key = None"
| "last_def_from i ((fi, op) # ops) key =
     (case last_def_from (i + 1) ops key of Some n \<Rightarrow> Some n | None \<Rightarrow> if op_defines op key then Some i else None)"

definition last_def :: "(nat \<times> mlir_op) list \<Rightarrow> string \<Rightarrow> nat option" where
  "last_def ops key = last_def_from 0 ops key"

lemma last_def_from_range: "last_def_from i ops key = Some n \<Longrightarrow> i \<le> n \<and> n < i + length ops \<and> op_defines (snd (ops ! (n - i))) key"
proof (induction i ops key rule: last_def_from.induct)
  case (2 i fi op ops key)
  show ?case
  proof (cases "last_def_from (i + 1) ops key")
    case None
    then show ?thesis using "2.prems" by (auto split: if_splits)
  next
    case (Some m)
    then show ?thesis using 2 by (auto simp: nth_Cons' Suc_diff_le)
  qed
qed simp

lemma foldl_result_refs:
  "map_of (foldl (\<lambda>m r. AList.update (ssa_key r) (ref :: nat \<times> nat) m) d rs) key
     = (if key \<in> ssa_key ` set rs then Some ref else map_of d key)"
  by (induction rs arbitrary: d) (auto simp: update_conv')

lemma build_node_defs:
  assumes "build_node F functions ssa (pm, nodes) (fi, op) = Inr (pm', nodes')"
  shows "\<exists>n out. nodes' = nodes @ [n] \<and> pn_outputs n = [out] \<and> po_cache out = None \<and> po_lifetime out = 2 \<and>
     pn_source_func_indices n = [fi] \<and>
     (\<forall>key. map_of pm' key = (if op_defines op key then Some (length nodes, 0) else map_of pm key))"
  using assms
  by (cases "parse_tensor_type (case mo_output_types op of [] \<Rightarrow> ''tensor<f32>'' | t # _ \<Rightarrow> t)")
     (auto simp: build_node_def Let_def res_simps foldl_result_refs op_defines_def split: option.splits)

definition fresh_node :: "nat list \<Rightarrow> plan_node \<Rightarrow> bool" where
  "fresh_node covered n \<longleftrightarrow> (\<exists>out. pn_outputs n = [out] \<and> po_cache out = None \<and> po_lifetime out = 2) \<and>
     set (pn_source_func_indices n) \<subseteq> set covered"

lemma build_nodes_defs_from:
  assumes "res_foldM (build_node F functions ssa) (pm, nodes) ops = Inr (pm', nodes')" and "fst ` set ops \<subseteq> set covered"
    and "\<forall>n \<in> set nodes. fresh_node covered n"
  shows "length nodes' = length nodes + length ops \<and> (\<forall>n \<in> set nodes'. fresh_node covered n) \<and>
     (\<forall>key. map_of pm' key = (case last_def_from (length nodes) ops key of Some n \<Rightarrow> Some (n, 0) | None \<Rightarrow> map_of pm key))"
  using assms
proof (induction ops arbitrary: pm nodes)
  case (Cons x ops)
  obtain fi op where x: "x = (fi, op)" by (cases x)
  obtain pm1 nodes1 where s: "build_node F functions ssa (pm, nodes) (fi, op) = Inr (pm1, nodes1)"
    "res_foldM (build_node F functions ssa) (pm1, nodes1) ops = Inr (pm', nodes')"
    using Cons.prems(1) x by (auto simp: res_simps)
  obtain n out where n: "nodes1 = nodes @ [n]" "pn_outputs n = [out]" "po_cache out = None" "po_lifetime out = 2"
    "pn_source_func_indices n = [fi]" "\<And>key. map_of pm1 key = (if op_defines op key then Some (length nodes, 0) else map_of pm key)"
    using build_node_defs[OF s(1)] by blast
  have "fresh_node covered n" using n Cons.prems(2) x by (simp add: fresh_node_def)
  then have "\<forall>n \<in> set nodes1. fresh_node covered n" using Cons.prems(3) n(1) by simp
  from Cons.IH[OF s(2) _ this] Cons.prems(2) show ?case using n(1,6) x by (auto split: option.splits)
qed simp

lemma covered_ops_funcs: "fst ` set (covered_ops functions covered) \<subseteq> set covered"
  by (auto simp: covered_ops_def)

lemma build_nodes_defs:
  assumes "build_nodes F functions covered ssa = Inr (pm, nodes)"
  shows "length nodes = length (covered_ops functions covered)" and "\<forall>n \<in> set nodes. fresh_node covered n"
    and "map_of pm key = map_option (\<lambda>n. (n, 0)) (last_def (covered_ops functions covered) key)"
  using build_nodes_defs_from[OF assms[unfolded build_nodes_def] covered_ops_funcs]
  by (auto simp: last_def_def split: option.splits)


section \<open>What finalizing writes\<close>

text \<open>The update of one node output.\<close>

definition final_output ::
  "(int \<times> int, string) dict \<Rightarrow> string set \<Rightarrow> (string, nat) dict \<Rightarrow> nat \<times> nat \<times> string \<times> string \<times> bool \<Rightarrow> plan_output \<Rightarrow> plan_output" where
  "final_output bs ext cnt e out =
     (case e of (fi, oi, nm, _, consumed) \<Rightarrow>
        if consumed then out\<lparr>po_lifetime := 3, po_cache := Some (the (map_of bs (int fi, int oi)), fi, oi)\<rparr>
        else out\<lparr>po_lifetime := (if ssa_key nm \<in> ext then 2 else if dict_get cnt (ssa_key nm) 0 = 1 then 0 else 1)\<rparr>)"

definition set_node_output :: "(plan_output \<Rightarrow> plan_output) \<Rightarrow> plan_node \<Rightarrow> plan_node" where
  "set_node_output f n = n\<lparr>pn_outputs := map f (pn_outputs n)\<rparr>"

text \<open>A covered output can be projected when it has a node and, if consumed, a binding.\<close>

definition output_ok :: "(string \<Rightarrow> nat option) \<Rightarrow> (int \<times> int, string) dict \<Rightarrow> nat \<times> nat \<times> string \<times> string \<times> bool \<Rightarrow> bool" where
  "output_ok ld bs e =
     (case e of (fi, oi, nm, _, consumed) \<Rightarrow>
        ld (ssa_key nm) \<noteq> None \<and> (consumed \<longrightarrow> map_of bs (int fi, int oi) \<noteq> None))"

abbreviation out_name :: "nat \<times> nat \<times> string \<times> string \<times> bool \<Rightarrow> string" where
  "out_name e \<equiv> ssa_key (fst (snd (snd e)))"

abbreviation out_consumed :: "nat \<times> nat \<times> string \<times> string \<times> bool \<Rightarrow> bool" where
  "out_consumed e \<equiv> snd (snd (snd (snd e)))"

definition func_output :: "(string \<Rightarrow> nat option) \<Rightarrow> nat \<times> nat \<times> string \<times> string \<times> bool \<Rightarrow> plan_func_output" where
  "func_output ld e =
     \<lparr>fo_func_index = fst e, fo_output_index = fst (snd e), fo_value = (the (ld (out_name e)), 0), fo_consumed = out_consumed e\<rparr>"

lemma finalize_one_exact:
  assumes pm: "\<And>key. map_of pm key = map_option (\<lambda>n. (n, 0)) (ld key)"
    and rng: "\<And>key n. ld key = Some n \<Longrightarrow> n < length nodes" and one: "\<forall>n \<in> set nodes. length (pn_outputs n) = 1"
  shows "finalize_one pm bs ext cnt (nodes, fos, pr) e =
    (if output_ok ld bs e
     then Inr (nodes[the (ld (out_name e)) := set_node_output (final_output bs ext cnt e) (nodes ! the (ld (out_name e)))],
               fos @ [func_output ld e], pr @ (if out_consumed e then [(fst e, fst (snd e))] else []))
     else Inl ValueError)"
proof -
  obtain fi oi nm tp c where e: "e = (fi, oi, nm, tp, c)" by (cases e)
  show ?thesis
  proof (cases "ld (ssa_key nm)")
    case None
    then show ?thesis using e pm by (simp add: finalize_one_def output_ok_def Let_def)
  next
    case (Some n)
    from rng[OF Some] have n: "n < length nodes" .
    with one have "length (pn_outputs (nodes ! n)) = 1" by simp
    then obtain out where out: "pn_outputs (nodes ! n) = [out]" by (cases "pn_outputs (nodes ! n)") auto
    show ?thesis using e pm Some n out
      by (cases c; cases "map_of bs (int fi, int oi)")
        (simp_all add: finalize_one_def output_ok_def Let_def set_output_def set_node_output_def final_output_def func_output_def)
  qed
qed

lemma finalize_fold_exact:
  assumes pm: "\<And>key. map_of pm key = map_option (\<lambda>n. (n, 0)) (ld key)"
    and rng: "\<And>key n. ld key = Some n \<Longrightarrow> n < length nodes" and one: "\<forall>n \<in> set nodes. length (pn_outputs n) = 1"
  shows "res_foldM (finalize_one pm bs ext cnt) (nodes, fos, pr) es =
    (if list_all (output_ok ld bs) es
     then Inr (foldl (\<lambda>ns e. ns[the (ld (out_name e)) := set_node_output (final_output bs ext cnt e) (ns ! the (ld (out_name e)))]) nodes es,
               fos @ map (func_output ld) es, pr @ map (\<lambda>e. (fst e, fst (snd e))) (filter out_consumed es))
     else Inl ValueError)"
  using rng one
proof (induction es arbitrary: nodes fos pr)
  case (Cons e es)
  let ?n = "the (ld (out_name e))"
  let ?nodes = "nodes[?n := set_node_output (final_output bs ext cnt e) (nodes ! ?n)]"
  have one': "\<forall>n \<in> set ?nodes. length (pn_outputs n) = 1" if "?n < length nodes"
    using Cons.prems(2) that by (auto simp: set_node_output_def dest!: set_update_subset_insert[THEN subsetD])
  have "?n < length nodes" if "output_ok ld bs e"
    using that Cons.prems(1) by (cases e) (auto simp: output_ok_def)
  then show ?case
    using Cons.IH[of ?nodes] one' Cons.prems(1) finalize_one_exact[where bs = bs and e = e, OF pm Cons.prems] by auto
qed simp

text \<open>Updates at distinct positions.\<close>

lemma foldl_updates_other:
  "i \<notin> p ` set es \<Longrightarrow> foldl (\<lambda>xs e. xs[p e := g e (xs ! p e)]) xs es ! i = xs ! i"
  by (induction es arbitrary: xs) auto

lemma foldl_updates_length: "length (foldl (\<lambda>xs e. xs[p e := g e (xs ! p e)]) xs es) = length xs"
  by (induction es arbitrary: xs) auto

lemma foldl_updates_at:
  assumes "distinct (map p es)" and "e \<in> set es" and "p e < length xs"
  shows "foldl (\<lambda>xs e. xs[p e := g e (xs ! p e)]) xs es ! p e = g e (xs ! p e)"
  using assms
proof (induction es arbitrary: xs)
  case (Cons a es)
  show ?case
  proof (cases "e = a")
    case True
    then show ?thesis using Cons.prems foldl_updates_other[of "p a" p es g "xs[p a := g a (xs ! p a)]"] by simp
  next
    case False
    with Cons.prems have e: "e \<in> set es" by simp
    then have "p e \<in> p ` set es" by (rule imageI)
    moreover have "p a \<notin> p ` set es" using Cons.prems(1) by simp
    ultimately have "p e \<noteq> p a" by metis
    then show ?thesis using Cons.IH[of "xs[p a := g a (xs ! p a)]"] Cons.prems e by simp
  qed
qed simp


section \<open>The projection of a plan\<close>

definition out_key :: "nat \<times> nat \<times> string \<times> string \<times> bool \<Rightarrow> int \<times> int" where
  "out_key e = (int (fst e), int (fst (snd e)))"

text \<open>What the projection needs: every output of a covered function has a node, every consumed one a
  binding, and every binding of a covered function belongs to a consumed output.\<close>

definition projection_ok :: "mlir_function list \<Rightarrow> nat list \<Rightarrow> (int \<times> int, string) dict \<Rightarrow> bool" where
  "projection_ok functions covered bs \<longleftrightarrow>
     list_all (output_ok (last_def (covered_ops functions covered)) bs) (covered_outputs functions covered) \<and>
     list_all (\<lambda>(k, _). fst k \<in> int ` set covered \<longrightarrow> k \<in> out_key ` set (filter out_consumed (covered_outputs functions covered))) bs"

text \<open>A name some function off the plan reads, and the number of uses of a name on the plan.\<close>

definition read_outside :: "mlir_function list \<Rightarrow> nat list \<Rightarrow> string \<Rightarrow> bool" where
  "read_outside functions covered key \<longleftrightarrow>
     (\<exists>g < length functions. g \<notin> set covered \<and> (\<exists>op \<in> set (mf_ops (functions ! g)). key \<in> ssa_key ` set (mo_operands op)))"

definition plan_uses :: "mlir_function list \<Rightarrow> nat list \<Rightarrow> string \<Rightarrow> nat" where
  "plan_uses functions covered key =
     count_list (concat (map (\<lambda>(_, op). map ssa_key (mo_operands op)) (covered_ops functions covered))) key"

text \<open>The node output of a function output: owned by the cache slab it is bound to when it is consumed;
  else kept for the graph, the layer or not at all, by who reads it.\<close>

definition output_projected ::
  "mlir_function list \<Rightarrow> nat list \<Rightarrow> (int \<times> int, string) dict \<Rightarrow> plan_node list \<Rightarrow> nat \<times> nat \<times> string \<times> string \<times> bool \<Rightarrow> bool" where
  "output_projected functions covered bs nodes e =
     (case e of (fi, oi, nm, tp, consumed) \<Rightarrow>
        \<exists>n < length nodes. \<exists>out. last_def (covered_ops functions covered) (ssa_key nm) = Some n \<and> pn_outputs (nodes ! n) = [out] \<and>
          (if consumed then po_lifetime out = 3 \<and> (\<exists>slab. map_of bs (int fi, int oi) = Some slab \<and> po_cache out = Some (slab, fi, oi))
           else po_cache out = None \<and>
                po_lifetime out = (if read_outside functions covered (ssa_key nm) then 2
                                   else if plan_uses functions covered (ssa_key nm) = 1 then 0 else 1)))"

lemma external_consumers_exact: "key \<in> external_consumer_ssa functions covered \<longleftrightarrow> read_outside functions covered key"
proof
  assume "key \<in> external_consumer_ssa functions covered"
  then obtain g f where gf: "(g, f) \<in> set (enum_from 0 functions)" "g \<notin> set covered"
      "\<exists>op \<in> set (mf_ops f). key \<in> ssa_key ` set (mo_operands op)"
    by (auto simp: external_consumer_ssa_def split: if_splits)
  then show "read_outside functions covered key" by (auto simp: read_outside_def set_enum_from)
next
  assume "read_outside functions covered key"
  then obtain g where g: "g < length functions" "g \<notin> set covered"
      "\<exists>op \<in> set (mf_ops (functions ! g)). key \<in> ssa_key ` set (mo_operands op)" by (auto simp: read_outside_def)
  then have "(g, functions ! g) \<in> set (enum_from 0 functions)" by (simp add: set_enum_from)
  with g(2,3) show "key \<in> external_consumer_ssa functions covered"
    unfolding external_consumer_ssa_def by (force split: if_splits)
qed

lemma counting_fold: "dict_get (foldl (\<lambda>c key. AList.update key (dict_get c key 0 + 1) c) d ks) key (0 :: nat)
    = dict_get d key 0 + count_list ks key"
  by (induction ks arbitrary: d) (auto simp: dict_get_def update_conv')

lemma consumer_counts_exact: "distinct covered \<Longrightarrow> dict_get (consumer_counts functions covered) key 0 = plan_uses functions covered key"
  unfolding consumer_counts_def plan_uses_def counting_fold by (simp add: distinct_remdups_id dict_get_def)

text \<open>With distinct output names and at most one result per operation, outputs have distinct nodes.\<close>

lemma producers_distinct:
  assumes "distinct (map out_name es)" and "\<forall>(_, op) \<in> set ops. length (mo_results op) \<le> 1"
    and "\<forall>e \<in> set es. last_def ops (out_name e) \<noteq> None"
  shows "distinct (map (\<lambda>e. the (last_def ops (out_name e))) es)"
proof -
  have inj: "x = y" if "last_def ops x = Some n" "last_def ops y = Some n" for x y n
  proof -
    have n: "n < length ops" "op_defines (snd (ops ! n)) x" "op_defines (snd (ops ! n)) y"
      using that last_def_from_range[of 0 ops _ n] by (auto simp: last_def_def)
    have "(fst (ops ! n), snd (ops ! n)) \<in> set ops" using n(1) by simp
    then have "length (mo_results (snd (ops ! n))) \<le> 1" using assms(2) by blast
    then obtain r where "set (mo_results (snd (ops ! n))) \<subseteq> {r}"
      by (cases "mo_results (snd (ops ! n))") auto
    then show ?thesis using n(2,3) by (auto simp: op_defines_def)
  qed
  have "inj_on (\<lambda>e. the (last_def ops (out_name e))) (set es)"
  proof (rule inj_onI)
    fix a b assume ab: "a \<in> set es" "b \<in> set es" "the (last_def ops (out_name a)) = the (last_def ops (out_name b))"
    with assms(3) have "out_name a = out_name b" using inj by (metis option.exhaust_sel)
    then show "a = b" using ab(1,2) assms(1) by (auto simp: distinct_map dest: inj_onD)
  qed
  with assms(1) show ?thesis by (simp add: distinct_map)
qed


text \<open>The nodes after finalizing, each covered output with its own node.\<close>

lemma finalized_nodes:
  assumes fresh: "\<forall>n \<in> set nodes. fresh_node covered n" and dist: "distinct (map p es)" and rng: "\<forall>e \<in> set es. p e < length nodes"
    and nodes': "nodes' = foldl (\<lambda>ns e. ns[p e := set_node_output (final_output bs ext cnt e) (ns ! p e)]) nodes es"
  shows "length nodes' = length nodes"
    and "\<And>e. e \<in> set es \<Longrightarrow> \<exists>out. pn_outputs (nodes' ! p e) = [final_output bs ext cnt e out] \<and> po_cache out = None \<and> po_lifetime out = 2"
    and "\<And>n. n < length nodes \<Longrightarrow> n \<notin> p ` set es \<Longrightarrow> \<exists>out. pn_outputs (nodes' ! n) = [out] \<and> po_cache out = None \<and> po_lifetime out = 2"
    and "\<And>n. n < length nodes \<Longrightarrow> set (pn_source_func_indices (nodes' ! n)) \<subseteq> set covered"
proof -
  let ?g = "\<lambda>e. set_node_output (final_output bs ext cnt e)"
  show "length nodes' = length nodes" unfolding nodes' by (rule foldl_updates_length)
  have at: "nodes' ! p e = ?g e (nodes ! p e)" if "e \<in> set es" for e
    unfolding nodes' using foldl_updates_at[OF dist that, of nodes ?g] rng that by simp
  have other: "nodes' ! n = nodes ! n" if "n \<notin> p ` set es" for n
    unfolding nodes' using foldl_updates_other[OF that, of ?g nodes] by simp
  have fr: "fresh_node covered (nodes ! n)" if "n < length nodes" for n using fresh that by simp
  show "\<exists>out. pn_outputs (nodes' ! p e) = [final_output bs ext cnt e out] \<and> po_cache out = None \<and> po_lifetime out = 2"
    if e: "e \<in> set es" for e
  proof -
    obtain out where "pn_outputs (nodes ! p e) = [out]" "po_cache out = None" "po_lifetime out = 2"
      using fr[of "p e"] bspec[OF rng e] by (auto simp: fresh_node_def)
    then show ?thesis using at[OF e] by (intro exI[of _ out]) (simp add: set_node_output_def)
  qed
  show "\<exists>out. pn_outputs (nodes' ! n) = [out] \<and> po_cache out = None \<and> po_lifetime out = 2" if "n < length nodes" "n \<notin> p ` set es" for n
    using fr[OF that(1)] other[OF that(2)] by (simp add: fresh_node_def)
  show "set (pn_source_func_indices (nodes' ! n)) \<subseteq> set covered" if n: "n < length nodes" for n
  proof (cases "n \<in> p ` set es")
    case True
    then obtain e where "e \<in> set es" "n = p e" by auto
    then show ?thesis using at fr[OF n] by (simp add: set_node_output_def fresh_node_def)
  next
    case False
    then show ?thesis using other fr[OF n] by (simp add: fresh_node_def)
  qed
qed

text \<open>The cache entries of the finalized nodes are those of the consumed outputs.\<close>

lemma plan_caches_nth: "c \<in> set (plan_caches nodes) \<longleftrightarrow> (\<exists>n < length nodes. \<exists>out \<in> set (pn_outputs (nodes ! n)). po_cache out = Some c)"
proof -
  have "c \<in> set (plan_caches nodes) \<longleftrightarrow> (\<exists>n \<in> set nodes. \<exists>out \<in> set (pn_outputs n). po_cache out = Some c)"
  proof -
    have "c \<in> set (case po_cache out of None \<Rightarrow> [] | Some d \<Rightarrow> [d]) \<longleftrightarrow> po_cache out = Some c" for out
      by (cases "po_cache out") auto
    then show ?thesis unfolding plan_caches_def by (simp only: set_concat set_map UN_iff image_iff bex_simps) blast
  qed
  then show ?thesis by (metis in_set_conv_nth)
qed

lemma finalized_caches:
  assumes fresh: "\<forall>n \<in> set nodes. fresh_node covered n" and dist: "distinct (map p es)" and rng: "\<forall>e \<in> set es. p e < length nodes"
    and nodes': "nodes' = foldl (\<lambda>ns e. ns[p e := set_node_output (final_output bs ext cnt e) (ns ! p e)]) nodes es"
  shows "set (plan_caches nodes') = (\<lambda>e. (the (map_of bs (out_key e)), fst e, fst (snd e))) ` set (filter out_consumed es)"
proof -
  note fin = finalized_nodes[OF fresh dist rng nodes']
  have cache: "po_cache (final_output bs ext cnt e out)
      = (if out_consumed e then Some (the (map_of bs (out_key e)), fst e, fst (snd e)) else po_cache out)" for e out
    by (cases e) (simp add: final_output_def out_key_def)
  show ?thesis
  proof (intro set_eqI iffI)
    fix c assume "c \<in> set (plan_caches nodes')"
    then obtain n out where n: "n < length nodes" "out \<in> set (pn_outputs (nodes' ! n))" "po_cache out = Some c"
      unfolding plan_caches_nth using fin(1) by auto
    show "c \<in> (\<lambda>e. (the (map_of bs (out_key e)), fst e, fst (snd e))) ` set (filter out_consumed es)"
    proof (cases "n \<in> p ` set es")
      case True
      then obtain e where e: "e \<in> set es" "n = p e" by auto
      obtain out0 where o: "pn_outputs (nodes' ! p e) = [final_output bs ext cnt e out0]" "po_cache out0 = None"
        using fin(2)[OF e(1)] by blast
      have "po_cache (final_output bs ext cnt e out0) = Some c" using n(2,3) o(1) e(2) by simp
      then have "out_consumed e" "c = (the (map_of bs (out_key e)), fst e, fst (snd e))"
        unfolding cache using o(2) by (simp_all only: if_split option.inject) (metis option.distinct(1) option.inject)+
      then show ?thesis using e(1) by simp
    next
      case False
      then show ?thesis using fin(3)[OF n(1)] n(2,3) by auto
    qed
  next
    fix c assume "c \<in> (\<lambda>e. (the (map_of bs (out_key e)), fst e, fst (snd e))) ` set (filter out_consumed es)"
    then obtain e where e: "e \<in> set es" "out_consumed e" "c = (the (map_of bs (out_key e)), fst e, fst (snd e))" by auto
    obtain out where out: "pn_outputs (nodes' ! p e) = [final_output bs ext cnt e out]" using fin(2)[OF e(1)] by auto
    have "po_cache (final_output bs ext cnt e out) = Some c" unfolding cache using e(2,3) by simp
    moreover have "p e < length nodes'" using bspec[OF rng e(1)] fin(1) by simp
    ultimately show "c \<in> set (plan_caches nodes')" unfolding plan_caches_nth using out by (intro exI[of _ "p e"]) simp
  qed
qed


lemma or_empty_idem: "or_empty (or_empty m) = or_empty m"
  by (simp add: or_empty_def)

lemma fresh_nodes_single: "\<forall>n \<in> set nodes. fresh_node covered n \<Longrightarrow> \<forall>n \<in> set nodes. length (pn_outputs n) = 1"
  by (auto simp: fresh_node_def)

lemma last_def_range: "last_def ops key = Some n \<Longrightarrow> n < length ops"
  using last_def_from_range[of 0 ops key n] by (simp add: last_def_def)

text \<open>With distinct nodes, finalizing succeeds exactly when the projection can be made, and its own
  checks hold of what it wrote.\<close>

lemma finalize_outputs_exact:
  fixes bs :: "(int \<times> int, string) dict" and ext :: "string set" and cnt :: "(string, nat) dict"
  assumes b: "build_nodes F functions covered ssa = Inr (pm, nodes)"
    and dist: "distinct (map out_name (covered_outputs functions covered))"
    and one: "\<forall>(_, op) \<in> set (covered_ops functions covered). length (mo_results op) \<le> 1"
  defines "ld \<equiv> last_def (covered_ops functions covered)" and "es \<equiv> covered_outputs functions covered"
  defines "nodes' \<equiv> foldl (\<lambda>ns e. ns[the (ld (out_name e)) := set_node_output (final_output bs ext cnt e) (ns ! the (ld (out_name e)))]) nodes es"
  shows "finalize_outputs functions covered nodes pm bs ext cnt =
      (if projection_ok functions covered bs then Inr (nodes', map (func_output ld) es) else Inl ValueError)"
    and "projection_ok functions covered bs \<Longrightarrow>
      distinct (map (\<lambda>e. the (ld (out_name e))) es) \<and> (\<forall>e \<in> set es. the (ld (out_name e)) < length nodes) \<and> caches_match bs nodes'"
proof -
  note bd = build_nodes_defs[OF b, folded ld_def]
  have rng: "n < length nodes" if "ld key = Some n" for key n
    using last_def_range that bd(1) by (simp add: ld_def)
  have fold: "res_foldM (finalize_one pm bs ext cnt) (nodes, [], []) es =
      (if list_all (output_ok ld bs) es then Inr (nodes', map (func_output ld) es, map (\<lambda>e. (fst e, fst (snd e))) (filter out_consumed es))
       else Inl ValueError)"
    using finalize_fold_exact[where ld = ld and pr = "[]" and fos = "[]", OF bd(3) rng fresh_nodes_single[OF bd(2)]]
    by (simp add: nodes'_def)
  have props: "distinct (map (\<lambda>e. the (ld (out_name e))) es) \<and> (\<forall>e \<in> set es. the (ld (out_name e)) < length nodes) \<and> caches_match bs nodes'"
    if ok: "list_all (output_ok ld bs) es"
  proof -
    have def: "\<forall>e \<in> set es. ld (out_name e) \<noteq> None" using ok by (auto simp: list_all_iff output_ok_def)
    have d: "distinct (map (\<lambda>e. the (ld (out_name e))) es)"
      unfolding ld_def by (rule producers_distinct[OF dist[folded es_def] one def[unfolded ld_def]])
    have r: "\<forall>e \<in> set es. the (ld (out_name e)) < length nodes" using def rng by auto
    have "caches_match bs nodes'"
      unfolding caches_match_def list_all_iff finalized_caches[OF bd(2) d r nodes'_def[THEN meta_eq_to_obj_eq]]
      using ok by (force simp: list_all_iff output_ok_def out_key_def)
    with d r show ?thesis by blast
  qed
  have key: "(\<lambda>(fi, oi). (int fi, int oi)) ` set (map (\<lambda>e. (fst e, fst (snd e))) (filter out_consumed es)) = out_key ` set (filter out_consumed es)"
    by (simp add: image_image out_key_def)
  show "finalize_outputs functions covered nodes pm bs ext cnt =
      (if projection_ok functions covered bs then Inr (nodes', map (func_output ld) es) else Inl ValueError)"
    unfolding finalize_outputs_def fold[unfolded es_def] projection_ok_def
    using props key by (simp add: ld_def es_def)
  show "distinct (map (\<lambda>e. the (ld (out_name e))) es) \<and> (\<forall>e \<in> set es. the (ld (out_name e)) < length nodes) \<and> caches_match bs nodes'"
    if "projection_ok functions covered bs"
    using props that by (simp add: projection_ok_def ld_def es_def)
qed


lemma final_output_projected:
  assumes "po_cache out0 = None"
  shows "po_lifetime (final_output bs ext cnt e out0) = (if out_consumed e then 3 else if out_name e \<in> ext then 2
           else if dict_get cnt (out_name e) 0 = 1 then 0 else 1)"
    and "po_cache (final_output bs ext cnt e out0) = (if out_consumed e then Some (the (map_of bs (out_key e)), fst e, fst (snd e)) else None)"
  using assms(1) by (cases e; simp add: final_output_def out_key_def)+

text \<open>The validator accepts the projection.\<close>

lemma projection_valid:
  assumes ok: "projection_ok functions covered bs"
    and caches: "set (plan_caches nodes') = (\<lambda>e. (the (map_of bs (out_key e)), fst e, fst (snd e))) ` set (filter out_consumed (covered_outputs functions covered))"
    and src: "\<forall>n < length nodes'. set (pn_source_func_indices (nodes' ! n)) \<subseteq> set covered"
    and m: "caches_match bs nodes'"
  shows "validate_cache bs nodes'"
proof -
  have key: "(\<lambda>(_, fi, oi). (int fi, int oi)) ` set (plan_caches nodes') = out_key ` set (filter out_consumed (covered_outputs functions covered))"
    unfolding caches by (simp add: image_image out_key_def)
  have cov: "set (concat (map pn_source_func_indices nodes')) \<subseteq> set covered"
  proof -
    have "\<forall>n \<in> set nodes'. set (pn_source_func_indices n) \<subseteq> set covered" using src by (metis in_set_conv_nth)
    then show ?thesis by auto
  qed
  have used: "k \<in> out_key ` set (filter out_consumed (covered_outputs functions covered))"
    if "(k, slab) \<in> set bs" "fst k \<in> int ` set (concat (map pn_source_func_indices nodes'))" for k slab
  proof -
    have "fst k \<in> int ` set covered" using that(2) image_mono[OF cov] by (rule subsetD[rotated])
    then show ?thesis using ok that(1) unfolding projection_ok_def list_all_iff by blast
  qed
  show ?thesis unfolding validate_cache_def key list_all_iff
  proof (intro conjI m ballI)
    fix x assume x: "x \<in> set bs"
    obtain k slab where k: "x = (k, slab)" by (cases x)
    show "case x of (k, _) \<Rightarrow> fst k \<in> int ` set (concat (map pn_source_func_indices nodes')) \<longrightarrow>
        k \<in> out_key ` set (filter out_consumed (covered_outputs functions covered))"
      unfolding k prod.case using used[OF x[unfolded k]] by (rule impI)
  qed
qed

lemma output_projectedI:
  assumes ld: "last_def (covered_ops functions covered) (out_name e) = Some n" and n: "n < length nodes"
    and out: "\<exists>out0. pn_outputs (nodes ! n)
        = [final_output bs (external_consumer_ssa functions covered) (consumer_counts functions covered) e out0] \<and> po_cache out0 = None"
    and ok: "output_ok ld bs e" and d: "distinct covered"
  shows "output_projected functions covered bs nodes e"
proof -
  obtain out0 where o: "po_cache out0 = None" "pn_outputs (nodes ! n)
      = [final_output bs (external_consumer_ssa functions covered) (consumer_counts functions covered) e out0]" using out by blast
  obtain fi oi nm tp c where e: "e = (fi, oi, nm, tp, c)" by (cases e)
  note fo = final_output_projected[OF o(1), where bs = bs and e = e and ext = "external_consumer_ssa functions covered"
      and cnt = "consumer_counts functions covered", unfolded external_consumers_exact consumer_counts_exact[OF d]]
  show ?thesis
    unfolding output_projected_def e prod.case
    using ld n o(2) fo ok unfolding e
    by (intro exI[of _ n] conjI exI[of _ "final_output bs (external_consumer_ssa functions covered) (consumer_counts functions covered) (fi, oi, nm, tp, c) out0"])
      (auto simp: output_ok_def out_key_def)
qed

lemma consumed_caches:
  assumes "\<And>e. e \<in> set es \<Longrightarrow> output_ok ld bs e"
  shows "(\<lambda>e. (the (map_of bs (out_key e)), fst e, fst (snd e))) ` set (filter out_consumed es)
    = {(slab, fi, oi). \<exists>nm tp. (fi, oi, nm, tp, True) \<in> set es \<and> map_of bs (int fi, int oi) = Some slab}" (is "?f ` _ = ?R")
proof (intro set_eqI iffI)
  fix c assume "c \<in> ?f ` set (filter out_consumed es)"
  then obtain fi oi nm tp where e: "(fi, oi, nm, tp, True) \<in> set es" "c = ?f (fi, oi, nm, tp, True)" by force
  then show "c \<in> ?R" using assms[OF e(1)] by (auto simp: output_ok_def out_key_def)
next
  fix c assume "c \<in> ?R"
  then obtain slab fi oi nm tp where e: "c = (slab, fi, oi)" "(fi, oi, nm, tp, True) \<in> set es" "map_of bs (int fi, int oi) = Some slab" by auto
  show "c \<in> ?f ` set (filter out_consumed es)"
    by (rule image_eqI[of _ _ "(fi, oi, nm, tp, True)"]) (simp_all add: e out_key_def)
qed


section \<open>Properties of the op plan\<close>

text \<open>C5: whatever the module, once its nodes are built and its outputs projected, the structural and
  the name checks of the validator pass: node indices are consecutive, every SSA operand refers
  to output zero of a strictly earlier node, every function-output operand, weight and constant
  exists.  Only the cache projection can still be refused.\<close>

theorem generated_plan_structurally_valid:
  assumes "covered = concat (map (\<lambda>(a, b). [a, b]) (covered_decoder_pairs functions))" and "covered_decoder_pairs functions \<noteq> []"
    and "build_nodes F functions covered (build_ssa_to_func_output functions) = Inr (pm, nodes)"
    and "finalize_outputs functions covered nodes pm bs ext cnt = Inr (nodes', fos)"
  shows "validate_nodes functions nodes' \<and> validate_names functions nodes' \<and>
         (\<forall>i < length nodes'. \<forall>inp \<in> set (pn_inputs (nodes' ! i)). \<forall>n k. pin_source inp = SrcSSA n k \<longrightarrow> n < i \<and> k = 0)"
proof -
  note ok = generated_nodes_ok[OF assms]
  have "n < i \<and> k = 0" if "i < length nodes'" "inp \<in> set (pn_inputs (nodes' ! i))" "pin_source inp = SrcSSA n k" for i inp n k
    using ok that by (force simp: node_ok_def input_ok_def)
  with ok show ?thesis using nodes_ok_valid by blast
qed

definition plain_format :: py_format where
  "plain_format = \<lparr>repr_float = (\<lambda>r. ''0.0''), str_other = (\<lambda>v. ''None'')\<rparr>"

definition tiny_op :: "string \<Rightarrow> string list \<Rightarrow> string \<Rightarrow> mlir_op" where
  "tiny_op nm ops r = \<lparr>mo_name = ''sf.'' @ nm, mo_dialect = ''sf'', mo_op_name = nm, mo_operands = ops, mo_results = [r], mo_attributes = [(''eps'', JInt 1)],
     mo_input_types = [''tensor<4xf32>''], mo_output_types = [''tensor<?x4xf32>'']\<rparr>"

definition tiny_functions :: "mlir_function list" where
  "tiny_functions =
     [\<lparr>mf_name = ''main_0a'', mf_inputs = [(''x'', ''tensor<4xf32>'')], mf_outputs = [(''%k'', ''tensor<4xf32>'', True)],
       mf_ops = [tiny_op ''layer_norm'' [''%w''] ''%n'', tiny_op ''linear'' [''%n'', ''%w''] ''%k''], mf_weights = [],
       mf_param_weight_names = [''w''], mf_const_weight_names = [], mf_weight_names = []\<rparr>,
      \<lparr>mf_name = ''main_0b'', mf_inputs = [], mf_outputs = [(''%o'', ''tensor<4xf32>'', False)],
       mf_ops = [tiny_op ''scaled_dot_product_attention'' [''%n'', ''%k''] ''%o''], mf_weights = [],
       mf_param_weight_names = [], mf_const_weight_names = [], mf_weight_names = []\<rparr>]"

definition tiny_metadata :: json where
  "tiny_metadata = JDict [(''cache_bindings'', JList [JList [JInt 0, JInt 0, JStr ''k'']])]"

theorem generated_plan_structurally_valid_witness:
  "\<exists>pm nodes nodes' fos. build_nodes plain_format tiny_functions [0, 1] (build_ssa_to_func_output tiny_functions) = Inr (pm, nodes) \<and>
     finalize_outputs tiny_functions [0, 1] nodes pm [((0, 0), ''k'')] {} [] = Inr (nodes', fos) \<and>
     length nodes' = 3 \<and> validate_nodes tiny_functions nodes'"
proof -
  have "is_ok (res_bind (build_nodes plain_format tiny_functions [0, 1] (build_ssa_to_func_output tiny_functions)) (\<lambda>(pm, nodes).
      res_bind (finalize_outputs tiny_functions [0, 1] nodes pm [((0, 0), ''k'')] {} []) (\<lambda>(nodes', fos).
      if length nodes' = 3 then Inr () else Inl ValueError)))"
    by code_simp
  then obtain pm nodes nodes' fos where
    b: "build_nodes plain_format tiny_functions [0, 1] (build_ssa_to_func_output tiny_functions) = Inr (pm, nodes)" and
    f: "finalize_outputs tiny_functions [0, 1] nodes pm [((0, 0), ''k'')] {} [] = Inr (nodes', fos)" and l: "length nodes' = 3"
    by (auto simp: is_ok_iff elim!: res_bindE split: if_splits)
  have c: "[0, 1] = concat (map (\<lambda>(a, b). [a, b]) (covered_decoder_pairs tiny_functions))"
    "covered_decoder_pairs tiny_functions \<noteq> []" by code_simp+
  show ?thesis using generated_plan_structurally_valid[OF c b f] b f l by blast
qed

text \<open>C24: once the nodes of the covered functions are built (each operation with at most one result, the
  covered outputs with distinct names), generation succeeds exactly when every covered output has a
  node, every consumed one a binding, and every binding of a covered function belongs to a consumed
  output; else it raises \<open>ValueError\<close>.  The assertions that compare the projection with the bindings,
  at the end of finalizing and in the validator, never fire on what finalizing wrote.  The
  plan then lists every covered output with the node that defines its name; that node is owned
  by the slab the output is bound to when the output is consumed, and otherwise carries the
  lifetime its readers ask for; no other node has a cache entry.\<close>

theorem generated_plan_projection:
  assumes cov: "covered = concat (map (\<lambda>(a, b). [a, b]) (covered_decoder_pairs functions))" and pairs: "covered_decoder_pairs functions \<noteq> []"
    and globals: "res_foldM weight_input (map fst (mf_inputs (functions ! 0))) (mf_ops (functions ! 0)) = Inr globals"
    and bs: "cache_binding_slab F (or_empty metadata) = Inr bs"
    and build: "build_nodes F functions covered (build_ssa_to_func_output functions) = Inr (pm, nodes)"
    and dist: "distinct (map out_name (covered_outputs functions covered))"
    and one: "\<forall>(_, op) \<in> set (covered_ops functions covered). length (mo_results op) \<le> 1"
  shows "if projection_ok functions covered bs
    then \<exists>plan. generate_op_plan F functions metadata = Inr (Some plan) \<and>
           length (pl_nodes plan) = length (covered_ops functions covered) \<and>
           pl_func_outputs plan = map (func_output (last_def (covered_ops functions covered))) (covered_outputs functions covered) \<and>
           (\<forall>e \<in> set (covered_outputs functions covered). output_projected functions covered bs (pl_nodes plan) e) \<and>
           set (plan_caches (pl_nodes plan))
             = {(slab, fi, oi). \<exists>nm tp. (fi, oi, nm, tp, True) \<in> set (covered_outputs functions covered) \<and> map_of bs (int fi, int oi) = Some slab}
    else generate_op_plan F functions metadata = Inl ValueError"
proof -
  let ?ld = "last_def (covered_ops functions covered)" and ?es = "covered_outputs functions covered"
  let ?ext = "external_consumer_ssa functions covered" and ?cnt = "consumer_counts functions covered"
  let ?p = "\<lambda>e. the (?ld (out_name e))"
  let ?nodes' = "foldl (\<lambda>ns e. ns[?p e := set_node_output (final_output bs ?ext ?cnt e) (ns ! ?p e)]) nodes ?es"
  note fin = finalize_outputs_exact[OF build dist one, of bs ?ext ?cnt]
  let ?plan = "\<lparr>pl_global_inputs = globals, pl_nodes = ?nodes', pl_global_output = global_output_ref (functions ! last covered) pm,
                pl_func_outputs = map (func_output ?ld) ?es\<rparr>"
  have gen: "generate_op_plan F functions metadata =
     (if projection_ok functions covered bs then res_bind (validate_op_plan F ?plan functions (or_empty metadata)) (\<lambda>_. Inr (Some ?plan))
      else Inl ValueError)"
    using pairs cov[symmetric] globals bs build fin(1) by (simp add: generate_op_plan_def Let_def)
  show ?thesis
  proof (cases "projection_ok functions covered bs")
    case False
    then show ?thesis using gen by simp
  next
    case True
    note d = fin(2)[OF True, THEN conjunct1] and r = fin(2)[OF True, THEN conjunct2, THEN conjunct1]
      and m = fin(2)[OF True, THEN conjunct2, THEN conjunct2]
    note bd = build_nodes_defs[OF build]
    note fn = finalized_nodes[where bs = bs and ext = ?ext and cnt = ?cnt, OF bd(2) d r refl]
    note fc = finalized_caches[where bs = bs and ext = ?ext and cnt = ?cnt, OF bd(2) d r refl]
    have cache: "validate_cache bs ?nodes'"
      by (rule projection_valid[OF True fc _ m]) (use fn(1,4) in simp)
    have fo: "finalize_outputs functions covered nodes pm bs ?ext ?cnt = Inr (?nodes', map (func_output ?ld) ?es)"
      using fin(1) True by simp
    note ok = generated_nodes_ok[OF cov pairs build fo]
    have "validate_op_plan F ?plan functions (or_empty metadata) = Inr ()"
      using nodes_ok_valid[of ?nodes' "functions"] ok cache bs by (simp add: validate_op_plan_def or_empty_idem)
    then have g: "generate_op_plan F functions metadata = Inr (Some ?plan)" using gen True by simp
    have oks: "output_ok ?ld bs e" if "e \<in> set ?es" for e using True that by (auto simp: projection_ok_def list_all_iff)
    have distc: "distinct covered" using covered_distinct cov by (simp add: covered_decoder_pairs_def)
    have proj: "output_projected functions covered bs ?nodes' e" if e: "e \<in> set ?es" for e
    proof (rule output_projectedI)
      show "?ld (out_name e) = Some (?p e)" using oks[OF e] by (cases e) (auto simp: output_ok_def)
      show "?p e < length ?nodes'" using fn(1) bspec[OF r e] by simp
      show "\<exists>out0. pn_outputs (?nodes' ! ?p e) = [final_output bs ?ext ?cnt e out0] \<and> po_cache out0 = None" using fn(2)[OF e] by blast
      show "output_ok ?ld bs e" by (rule oks[OF e])
      show "distinct covered" by (rule distc)
    qed
    have caches: "set (plan_caches ?nodes')
        = {(slab, fi, oi). \<exists>nm tp. (fi, oi, nm, tp, True) \<in> set ?es \<and> map_of bs (int fi, int oi) = Some slab}"
      unfolding fc by (rule consumed_caches) (rule oks)
    show ?thesis using True g fn(1) bd(1) proj caches by (intro if_P[THEN iffD2]) simp_all
  qed
qed

theorem generated_plan_projection_witness:
  "\<exists>plan. generate_op_plan plain_format tiny_functions tiny_metadata = Inr (Some plan) \<and>
     plan_caches (pl_nodes plan) \<noteq> [] \<and> map fo_value (pl_func_outputs plan) = [(1, 0), (2, 0)]"
proof -
  have c: "[0, 1] = concat (map (\<lambda>(a, b). [a, b]) (covered_decoder_pairs tiny_functions))"
    "covered_decoder_pairs tiny_functions \<noteq> []" by code_simp+
  have g: "res_foldM weight_input (map fst (mf_inputs (tiny_functions ! 0))) (mf_ops (tiny_functions ! 0)) = Inr [''x'']" by code_simp
  have b: "cache_binding_slab plain_format (or_empty tiny_metadata) = Inr [((0, 0), ''k'')]" by code_simp
  have "is_ok (build_nodes plain_format tiny_functions [0, 1] (build_ssa_to_func_output tiny_functions))" by code_simp
  then obtain pm nodes where bn: "build_nodes plain_format tiny_functions [0, 1] (build_ssa_to_func_output tiny_functions) = Inr (pm, nodes)"
    by (auto simp: is_ok_iff)
  have d: "distinct (map out_name (covered_outputs tiny_functions [0, 1]))"
    "\<forall>(_, op) \<in> set (covered_ops tiny_functions [0, 1]). length (mo_results op) \<le> 1"
    "projection_ok tiny_functions [0, 1] [((0, 0), ''k'')]" by code_simp+
  obtain plan where plan: "generate_op_plan plain_format tiny_functions tiny_metadata = Inr (Some plan)"
    "pl_func_outputs plan = map (func_output (last_def (covered_ops tiny_functions [0, 1]))) (covered_outputs tiny_functions [0, 1])"
    "set (plan_caches (pl_nodes plan))
       = {(slab, fi, oi). \<exists>nm tp. (fi, oi, nm, tp, True) \<in> set (covered_outputs tiny_functions [0, 1]) \<and>
            map_of [((0, 0), ''k'')] (int fi, int oi) = Some slab}"
    using generated_plan_projection[OF c g b bn d(1,2)] unfolding if_P[OF d(3)] by blast
  have o: "covered_outputs tiny_functions [0, 1] = [(0, 0, ''%k'', ''tensor<4xf32>'', True), (1, 0, ''%o'', ''tensor<4xf32>'', False)]"
    by code_simp
  have "(''k'', 0, 0) \<in> set (plan_caches (pl_nodes plan))" unfolding plan(3) o by simp
  moreover have "map fo_value (map (func_output (last_def (covered_ops tiny_functions [0, 1]))) (covered_outputs tiny_functions [0, 1]))
      = [(1, 0), (2, 0)]" by code_simp
  ultimately show ?thesis using plan(1,2) by (intro exI[of _ plan] conjI) auto
qed

end
