(* ===== verification/Tensor.thy ===== *)
theory Tensor
  imports Prelude
begin

text \<open>
  The torch operations that the caches of the Python runtime call.  Torch is not part of the
  repository: its operations are a record \<open>'t torch\<close> that every definition using them takes as an
  argument, over an arbitrary type \<open>'t\<close> of tensors.  The locale \<open>torch_lib\<close> states the documented
  laws of indexing and assignment the caches rely on; assignments are only constrained for values
  of exactly the shape of their target.  \<open>fun_torch\<close> is one implementation of the laws, tensors as
  functions from index tuples, and is what concrete runs are evaluated with.
\<close>


section \<open>Operations\<close>

record 't torch =
  tc_zeros :: "string \<Rightarrow> int list \<Rightarrow> 't res"
  tc_shape :: "'t \<Rightarrow> nat list"
  tc_dtype :: "'t \<Rightarrow> string"
  tc_to :: "string \<Rightarrow> 't \<Rightarrow> 't"
  tc_get :: "'t \<Rightarrow> int list \<Rightarrow> 't res"
  tc_set :: "'t \<Rightarrow> int list \<Rightarrow> 't \<Rightarrow> 't res"
  tc_slice :: "'t \<Rightarrow> int list \<Rightarrow> int \<Rightarrow> int \<Rightarrow> 't res"
  tc_set_slice :: "'t \<Rightarrow> int list \<Rightarrow> int \<Rightarrow> int \<Rightarrow> 't \<Rightarrow> 't res"
  tc_squeeze0 :: "'t \<Rightarrow> 't"
  tc_permute102 :: "'t \<Rightarrow> 't res"
  tc_reshape3 :: "'t \<Rightarrow> int \<Rightarrow> int \<Rightarrow> 't res"

text \<open>The positions that an index path selects, when all its indices are in range.\<close>

fun t_path :: "nat list \<Rightarrow> int list \<Rightarrow> nat list option" where
  "t_path s [] = Some []"
| "t_path (n # s) (i # is) =
     (case py_pos n i of None \<Rightarrow> None | Some k \<Rightarrow> map_option (Cons k) (t_path s is))"
| "t_path [] (i # is) = None"

lemma t_path_length: "t_path s is = Some ks \<Longrightarrow> length ks = length is \<and> length is \<le> length s"
  by (induction s "is" arbitrary: ks rule: t_path.induct) (auto split: option.splits)

lemma t_path_append:
  "t_path s (is @ js) =
     (case t_path s is of None \<Rightarrow> None | Some ks \<Rightarrow> map_option ((@) ks) (t_path (drop (length is) s) js))"
  by (induction s "is" rule: t_path.induct) (auto simp: option.map_comp comp_def map_option_case split: option.splits)

lemma t_path_take: "t_path s (is @ js) = Some ks \<Longrightarrow> t_path s is = Some (take (length is) ks)"
  by (auto simp: t_path_append split: option.splits dest: t_path_length)


section \<open>Laws\<close>

locale torch_lib =
  fixes T :: "'t torch"
  assumes zeros_ok: "\<forall>m \<in> set dims. 0 \<le> m \<Longrightarrow>
      \<exists>t. tc_zeros T d dims = Inr t \<and> tc_shape T t = map nat dims \<and> tc_dtype T t = d"
    and get_zeros: "tc_zeros T d dims = Inr t \<Longrightarrow> t_path (tc_shape T t) is \<noteq> None \<Longrightarrow>
      tc_get T t is = tc_zeros T d (drop (length is) dims)"
    and get_ok: "t_path (tc_shape T t) is \<noteq> None \<Longrightarrow>
      \<exists>u. tc_get T t is = Inr u \<and> tc_shape T u = drop (length is) (tc_shape T t) \<and> tc_dtype T u = tc_dtype T t"
    and get_append: "tc_get T t (is @ js) = res_bind (tc_get T t is) (\<lambda>u. tc_get T u js)"
    and get_path: "t_path (tc_shape T t) is = Some ks \<Longrightarrow> tc_get T t is = tc_get T t (map int ks)"
    and to_shape: "tc_shape T (tc_to T d v) = tc_shape T v"
    and to_dtype: "tc_dtype T (tc_to T d v) = d"
    and to_same: "tc_to T (tc_dtype T v) v = v"
    and set_ok: "t_path (tc_shape T t) is \<noteq> None \<Longrightarrow> tc_shape T v = drop (length is) (tc_shape T t) \<Longrightarrow>
      \<exists>t'. tc_set T t is v = Inr t'"
    and set_shape: "tc_set T t is v = Inr t' \<Longrightarrow> tc_shape T t' = tc_shape T t"
    and set_dtype: "tc_set T t is v = Inr t' \<Longrightarrow> tc_dtype T t' = tc_dtype T t"
    and get_set_same: "tc_set T t is v = Inr t' \<Longrightarrow> tc_shape T v = drop (length is) (tc_shape T t) \<Longrightarrow>
      tc_get T t' is = Inr (tc_to T (tc_dtype T t) v)"
    and get_set_other: "tc_set T t is v = Inr t' \<Longrightarrow> tc_shape T v = drop (length is) (tc_shape T t) \<Longrightarrow>
      t_path (tc_shape T t) is = Some ks \<Longrightarrow> t_path (tc_shape T t) js = Some ls \<Longrightarrow> length js = length is \<Longrightarrow>
      ks \<noteq> ls \<Longrightarrow> tc_get T t' js = tc_get T t js"
    and slice_ok: "t_path (tc_shape T t) is \<noteq> None \<Longrightarrow> drop (length is) (tc_shape T t) = n # s \<Longrightarrow>
      0 \<le> a \<Longrightarrow> a \<le> b \<Longrightarrow> b \<le> int n \<Longrightarrow>
      \<exists>u. tc_slice T t is a b = Inr u \<and> tc_shape T u = nat (b - a) # s \<and> tc_dtype T u = tc_dtype T t \<and>
          (\<forall>j \<ge> 0. j < b - a \<longrightarrow> tc_get T u [j] = tc_get T t (is @ [a + j]))"
    and set_slice_ok: "t_path (tc_shape T t) is = Some ks \<Longrightarrow> drop (length is) (tc_shape T t) = n # s \<Longrightarrow>
      0 \<le> a \<Longrightarrow> a \<le> b \<Longrightarrow> b \<le> int n \<Longrightarrow> tc_shape T v = nat (b - a) # s \<Longrightarrow> tc_dtype T v = tc_dtype T t \<Longrightarrow>
      \<exists>t'. tc_set_slice T t is a b v = Inr t' \<and> tc_shape T t' = tc_shape T t \<and> tc_dtype T t' = tc_dtype T t \<and>
          (\<forall>js ls p. t_path (tc_shape T t) js = Some ls \<longrightarrow> length js = length is \<longrightarrow> 0 \<le> p \<longrightarrow> p < int n \<longrightarrow>
             tc_get T t' (js @ [p]) = (if ls = ks \<and> a \<le> p \<and> p < b then tc_get T v [p - a] else tc_get T t (js @ [p])))"
    and squeeze0_shape: "tc_shape T t = 1 # s \<Longrightarrow> tc_shape T (tc_squeeze0 T t) = s"
    and permute_ok: "tc_shape T t = [n1, n2, n3] \<Longrightarrow>
      \<exists>u. tc_permute102 T t = Inr u \<and> tc_shape T u = [n2, n1, n3] \<and>
          (\<forall>i j. i < n1 \<longrightarrow> j < n2 \<longrightarrow> tc_get T u [int j, int i] = tc_get T t [int i, int j])"
    and reshape_ok: "0 < h \<Longrightarrow> 0 < w \<Longrightarrow> prod_list (tc_shape T t) = n * (h * w) \<Longrightarrow>
      \<exists>u. tc_reshape3 T t (int h) (int w) = Inr u \<and> tc_shape T u = [n, h, w]"
begin

lemma set_same_dtype:
  assumes "t_path (tc_shape T t) is \<noteq> None" "tc_shape T v = drop (length is) (tc_shape T t)" "tc_dtype T v = tc_dtype T t"
  shows "\<exists>t'. tc_set T t is v = Inr t' \<and> tc_get T t' is = Inr v"
  using set_ok[OF assms(1,2)] get_set_same[OF _ assms(2)] to_same[of v] assms(3) by auto

text \<open>Reading below a written path, and below a different one.\<close>

lemma get_set_below:
  "tc_set T t is v = Inr t' \<Longrightarrow> tc_shape T v = drop (length is) (tc_shape T t) \<Longrightarrow>
   tc_get T t' (is @ js) = tc_get T (tc_to T (tc_dtype T t) v) js"
  by (simp add: get_append get_set_same)

lemma get_set_apart:
  assumes "tc_set T t is v = Inr t'" "tc_shape T v = drop (length is) (tc_shape T t)"
    and "t_path (tc_shape T t) is = Some ks" "t_path (tc_shape T t) js = Some ls" "length js = length is" "ks \<noteq> ls"
  shows "tc_get T t' (js @ ms) = tc_get T t (js @ ms)"
  using get_set_other[OF assms] by (simp add: get_append)

text \<open>\<open>d[r, start:fin] = t[path, :fin - start]\<close>, row by row.\<close>

lemma copy_rows:
  assumes t: "t_path (tc_shape T t) is \<noteq> None" "drop (length is) (tc_shape T t) = bs # s"
    and d: "tc_shape T d = nr # ms # s" "tc_dtype T d = tc_dtype T t"
    and r: "r < nr" "0 \<le> start" "start < fin" "fin \<le> int ms" "fin - start \<le> int bs"
  shows "\<exists>v d'. tc_slice T t is 0 (fin - start) = Inr v \<and> tc_set_slice T d [int r] start fin v = Inr d' \<and>
    tc_shape T d' = tc_shape T d \<and> tc_dtype T d' = tc_dtype T d \<and>
    (\<forall>r' q. r' < nr \<longrightarrow> 0 \<le> q \<longrightarrow> q < int ms \<longrightarrow>
       tc_get T d' [int r', q] = (if r' = r \<and> start \<le> q \<and> q < fin then tc_get T t (is @ [q - start]) else tc_get T d [int r', q]))"
proof -
  obtain v where v: "tc_slice T t is 0 (fin - start) = Inr v" "tc_shape T v = nat (fin - start) # s" "tc_dtype T v = tc_dtype T t"
    "\<And>j. 0 \<le> j \<Longrightarrow> j < fin - start \<Longrightarrow> tc_get T v [j] = tc_get T t (is @ [j])"
    using slice_ok[OF t, of 0 "fin - start"] r(3,5) by auto
  have rp: "t_path (tc_shape T d) [int k] = Some [k]" if "k < nr" for k using that d(1) by simp
  have dd: "drop (length [int r]) (tc_shape T d) = ms # s" using d(1) by simp
  have vd: "tc_dtype T v = tc_dtype T d" using v(3) d(2) by simp
  obtain d' where d': "tc_set_slice T d [int r] start fin v = Inr d'" "tc_shape T d' = tc_shape T d" "tc_dtype T d' = tc_dtype T d"
    and rows: "\<And>js ls q. t_path (tc_shape T d) js = Some ls \<Longrightarrow> length js = length [int r] \<Longrightarrow> 0 \<le> q \<Longrightarrow> q < int ms \<Longrightarrow>
      tc_get T d' (js @ [q]) = (if ls = [r] \<and> start \<le> q \<and> q < fin then tc_get T v [q - start] else tc_get T d (js @ [q]))"
    using set_slice_ok[OF rp[OF r(1)] dd r(2) less_imp_le[OF r(3)] r(4) v(2) vd] by blast
  have "tc_get T d' [int r', q] = (if r' = r \<and> start \<le> q \<and> q < fin then tc_get T t (is @ [q - start]) else tc_get T d [int r', q])"
    if "r' < nr" "0 \<le> q" "q < int ms" for r' q
    using rows[OF rp[OF that(1)] _ that(2,3)] v(4)[of "q - start"] by auto
  then show ?thesis using d' v(1) by blast
qed

end


section \<open>Tensors as functions\<close>

record 'v ftensor =
  ft_shape :: "nat list"
  ft_dtype :: string
  ft_elem :: "nat list \<Rightarrow> 'v"

definition ft_zeros :: "'v \<Rightarrow> string \<Rightarrow> int list \<Rightarrow> 'v ftensor res" where
  "ft_zeros z d s =
     (if \<forall>n \<in> set s. 0 \<le> n then Inr \<lparr>ft_shape = map nat s, ft_dtype = d, ft_elem = (\<lambda>_. z)\<rparr> else Inl RuntimeError)"

definition ft_to :: "string \<Rightarrow> 'v ftensor \<Rightarrow> 'v ftensor" where
  "ft_to d t = t\<lparr>ft_dtype := d\<rparr>"

definition ft_get :: "'v ftensor \<Rightarrow> int list \<Rightarrow> 'v ftensor res" where
  "ft_get t is =
     (case t_path (ft_shape t) is of
        None \<Rightarrow> Inl IndexError
      | Some ks \<Rightarrow> Inr \<lparr>ft_shape = drop (length is) (ft_shape t), ft_dtype = ft_dtype t, ft_elem = (\<lambda>js. ft_elem t (ks @ js))\<rparr>)"

definition ft_set :: "'v ftensor \<Rightarrow> int list \<Rightarrow> 'v ftensor \<Rightarrow> 'v ftensor res" where
  "ft_set t is v =
     (case t_path (ft_shape t) is of
        None \<Rightarrow> Inl IndexError
      | Some ks \<Rightarrow>
          if ft_shape v = drop (length is) (ft_shape t)
          then Inr (t\<lparr>ft_elem := (\<lambda>js. if take (length ks) js = ks then ft_elem v (drop (length ks) js) else ft_elem t js)\<rparr>)
          else Inl RuntimeError)"

fun shift_head :: "int \<Rightarrow> nat list \<Rightarrow> nat list" where
  "shift_head a (k # ks) = nat (int k + a) # ks"
| "shift_head a [] = []"

definition ft_slice :: "'v ftensor \<Rightarrow> int list \<Rightarrow> int \<Rightarrow> int \<Rightarrow> 'v ftensor res" where
  "ft_slice t is a b =
     (case t_path (ft_shape t) is of
        None \<Rightarrow> Inl IndexError
      | Some ks \<Rightarrow>
          (case drop (length is) (ft_shape t) of
             [] \<Rightarrow> Inl IndexError
           | n # s \<Rightarrow>
               if 0 \<le> a \<and> a \<le> b \<and> b \<le> int n
               then Inr \<lparr>ft_shape = nat (b - a) # s, ft_dtype = ft_dtype t, ft_elem = (\<lambda>js. ft_elem t (ks @ shift_head a js))\<rparr>
               else Inl RuntimeError))"

definition in_slice :: "nat list \<Rightarrow> int \<Rightarrow> int \<Rightarrow> nat list \<Rightarrow> bool" where
  "in_slice ks a b js =
     (take (length ks) js = ks \<and>
      (case drop (length ks) js of [] \<Rightarrow> False | p # ps \<Rightarrow> a \<le> int p \<and> int p < b))"

definition ft_set_slice :: "'v ftensor \<Rightarrow> int list \<Rightarrow> int \<Rightarrow> int \<Rightarrow> 'v ftensor \<Rightarrow> 'v ftensor res" where
  "ft_set_slice t is a b v =
     (case t_path (ft_shape t) is of
        None \<Rightarrow> Inl IndexError
      | Some ks \<Rightarrow>
          (case drop (length is) (ft_shape t) of
             [] \<Rightarrow> Inl IndexError
           | n # s \<Rightarrow>
               if 0 \<le> a \<and> a \<le> b \<and> b \<le> int n \<and> ft_shape v = nat (b - a) # s
               then Inr (t\<lparr>ft_elem := (\<lambda>js. if in_slice ks a b js
                                           then ft_elem v (shift_head (- a) (drop (length ks) js)) else ft_elem t js)\<rparr>)
               else Inl RuntimeError))"

definition ft_squeeze0 :: "'v ftensor \<Rightarrow> 'v ftensor" where
  "ft_squeeze0 t =
     (case ft_shape t of
        n # s \<Rightarrow> if n = 1 then t\<lparr>ft_shape := s, ft_elem := (\<lambda>js. ft_elem t (0 # js))\<rparr> else t
      | [] \<Rightarrow> t)"

definition ft_permute102 :: "'v ftensor \<Rightarrow> 'v ftensor res" where
  "ft_permute102 t =
     (case ft_shape t of
        [a, b, c] \<Rightarrow> Inr (t\<lparr>ft_shape := [b, a, c],
          ft_elem := (\<lambda>js. case js of i # j # ks \<Rightarrow> ft_elem t (j # i # ks) | _ \<Rightarrow> ft_elem t js)\<rparr>)
      | _ \<Rightarrow> Inl RuntimeError)"

text \<open>Row-major numbering of the index tuples of a shape, and its inverse.\<close>

fun flat_index :: "nat list \<Rightarrow> nat list \<Rightarrow> nat" where
  "flat_index (n # s) (k # ks) = k * prod_list s + flat_index s ks"
| "flat_index _ _ = 0"

fun unflatten :: "nat list \<Rightarrow> nat \<Rightarrow> nat list" where
  "unflatten (n # s) i = i div prod_list s # unflatten s (i mod prod_list s)"
| "unflatten [] i = []"

definition ft_reshape3 :: "'v ftensor \<Rightarrow> int \<Rightarrow> int \<Rightarrow> 'v ftensor res" where
  "ft_reshape3 t m n =
     (let total = prod_list (ft_shape t); inner = nat m * nat n
      in if m \<le> 0 \<or> n \<le> 0 \<or> total mod inner \<noteq> 0 then Inl RuntimeError
         else Inr (t\<lparr>ft_shape := [total div inner, nat m, nat n],
                ft_elem := (\<lambda>js. ft_elem t (unflatten (ft_shape t) (flat_index [total div inner, nat m, nat n] js)))\<rparr>))"

definition fun_torch :: "int ftensor torch" where
  "fun_torch = \<lparr>tc_zeros = ft_zeros 0, tc_shape = ft_shape, tc_dtype = ft_dtype, tc_to = ft_to, tc_get = ft_get,
     tc_set = ft_set, tc_slice = ft_slice, tc_set_slice = ft_set_slice, tc_squeeze0 = ft_squeeze0,
     tc_permute102 = ft_permute102, tc_reshape3 = ft_reshape3\<rparr>"


section \<open>The functions satisfy the laws\<close>

lemma fun_torch_simps [simp]:
  "tc_zeros fun_torch = ft_zeros 0" "tc_shape fun_torch = ft_shape" "tc_dtype fun_torch = ft_dtype"
  "tc_to fun_torch = ft_to" "tc_get fun_torch = ft_get" "tc_set fun_torch = ft_set"
  "tc_slice fun_torch = ft_slice" "tc_set_slice fun_torch = ft_set_slice" "tc_squeeze0 fun_torch = ft_squeeze0"
  "tc_permute102 fun_torch = ft_permute102" "tc_reshape3 fun_torch = ft_reshape3"
  by (simp_all add: fun_torch_def)

lemma t_path_map_int: "t_path s is = Some ks \<Longrightarrow> t_path s (map int ks) = Some ks"
  by (induction s "is" arbitrary: ks rule: t_path.induct) (auto split: option.splits dest: py_pos_Some_less)

lemma ft_get_append: "ft_get t (is @ js) = res_bind (ft_get t is) (\<lambda>u. ft_get u js)"
  by (auto simp: ft_get_def t_path_append drop_drop add.commute split: option.splits)

lemma ft_get_path:
  assumes "t_path (ft_shape t) is = Some ks"
  shows "ft_get t is = ft_get t (map int ks)"
  using assms t_path_map_int[OF assms] t_path_length[OF assms] by (simp add: ft_get_def)

lemma ft_get_set_same:
  assumes "ft_set t is v = Inr t'" "ft_shape v = drop (length is) (ft_shape t)"
  shows "ft_get t' is = Inr (ft_to (ft_dtype t) v)"
proof -
  obtain ks where ks: "t_path (ft_shape t) is = Some ks" using assms by (auto simp: ft_set_def split: option.splits)
  then show ?thesis using assms by (auto simp: ft_set_def ft_get_def ft_to_def)
qed

lemma ft_get_set_other:
  assumes "ft_set t is v = Inr t'" "t_path (ft_shape t) is = Some ks" "t_path (ft_shape t) js = Some ls"
    and "length js = length is" "ks \<noteq> ls"
  shows "ft_get t' js = ft_get t js"
  using assms t_path_length[OF assms(2)] t_path_length[OF assms(3)]
  by (auto simp: ft_set_def ft_get_def split: if_splits)

lemma ft_slice_get:
  assumes "t_path (ft_shape t) is \<noteq> None" "drop (length is) (ft_shape t) = n # s" "0 \<le> a" "a \<le> b" "b \<le> int n"
  shows "\<exists>u. ft_slice t is a b = Inr u \<and> ft_shape u = nat (b - a) # s \<and> ft_dtype u = ft_dtype t \<and>
          (\<forall>j \<ge> 0. j < b - a \<longrightarrow> ft_get u [j] = ft_get t (is @ [a + j]))"
proof -
  obtain ks where ks: "t_path (ft_shape t) is = Some ks" using assms(1) by auto
  have j: "py_pos (nat (b - a)) j = Some (nat j)" "py_pos n (a + j) = Some (nat (a + j))" "nat (j + a) = nat (a + j)"
    if "0 \<le> j" "j < b - a" for j using that assms by (auto simp: py_pos_def add.commute)
  have "drop (Suc (length is)) (ft_shape t) = s" using assms(2) by (metis drop_Suc list.sel(3) tl_drop)
  then show ?thesis using assms ks by (auto simp: ft_slice_def ft_get_def t_path_append j)
qed

lemma ft_set_slice_get:
  assumes "t_path (ft_shape t) is = Some ks" "drop (length is) (ft_shape t) = n # s" "0 \<le> a" "a \<le> b" "b \<le> int n"
    "ft_shape v = nat (b - a) # s" "ft_dtype v = ft_dtype t"
  shows "\<exists>t'. ft_set_slice t is a b v = Inr t' \<and> ft_shape t' = ft_shape t \<and> ft_dtype t' = ft_dtype t \<and>
          (\<forall>js ls p. t_path (ft_shape t) js = Some ls \<longrightarrow> length js = length is \<longrightarrow> 0 \<le> p \<longrightarrow> p < int n \<longrightarrow>
             ft_get t' (js @ [p]) = (if ls = ks \<and> a \<le> p \<and> p < b then ft_get v [p - a] else ft_get t (js @ [p])))"
proof -
  let ?t' = "t\<lparr>ft_elem := (\<lambda>js. if in_slice ks a b js then ft_elem v (shift_head (- a) (drop (length ks) js)) else ft_elem t js)\<rparr>"
  have len: "length ks = length is" using t_path_length[OF assms(1)] by simp
  have s: "drop (Suc (length is)) (ft_shape t) = s" using assms(2) by (metis drop_Suc list.sel(3) tl_drop)
  have "ft_get ?t' (js @ [p]) = (if ls = ks \<and> a \<le> p \<and> p < b then ft_get v [p - a] else ft_get t (js @ [p]))"
    if js: "t_path (ft_shape t) js = Some ls" "length js = length is" "0 \<le> p" "p < int n" for js ls p
  proof -
    have pp: "py_pos n p = Some (nat p)" using js by (simp add: py_pos_def)
    have ll: "length ls = length ks" using t_path_length[OF js(1)] js(2) len by simp
    have path: "t_path (ft_shape t) (js @ [p]) = Some (ls @ [nat p])"
      using js assms(2) pp by (simp add: t_path_append)
    have "in_slice ks a b (ls @ nat p # ms) = (ls = ks \<and> a \<le> p \<and> p < b)" for ms
      using ll js(3) by (auto simp: in_slice_def)
    moreover have "py_pos (nat (b - a)) (p - a) = Some (nat (p - a))" if "a \<le> p" "p < b"
      using that by (simp add: py_pos_def)
    moreover have "nat (int (nat p) - a) = nat (p - a)" using js(3) by simp
    ultimately show ?thesis using path ll s assms(6,7) js(2) by (auto simp: ft_get_def)
  qed
  moreover have "ft_set_slice t is a b v = Inr ?t'" using assms by (simp add: ft_set_slice_def)
  ultimately show ?thesis by fastforce
qed

interpretation fun_torch: torch_lib fun_torch
proof (unfold_locales, unfold fun_torch_simps, goal_cases)
  case (2 d s t "is")
  then show ?case by (auto simp: ft_zeros_def ft_get_def drop_map dest: in_set_dropD split: if_splits)
next
  case (5 t "is" ks) then show ?case by (rule ft_get_path)
next
  case (14 t "is" n s a b) then show ?case by (rule ft_slice_get)
next
  case (15 t "is" ks n s a b v) then show ?case by (rule ft_set_slice_get)
next
  case (18 h w t n)
  then have "prod_list (ft_shape t) div (h * w) = n" "prod_list (ft_shape t) mod (h * w) = 0" by simp_all
  then show ?case using 18 by (simp add: ft_reshape3_def Let_def)
qed (auto simp: ft_zeros_def ft_to_def ft_get_append ft_get_set_same ft_get_set_other,
     auto simp: ft_get_def ft_set_def ft_squeeze0_def ft_permute102_def split: option.splits if_splits)

end
