(* ===== verification/Paged_Store.thy ===== *)
theory Paged_Store
  imports Tensor "HOL-Library.Char_ord" "HOL-Library.List_Lexorder"
begin

text \<open>
  The paged addressing shared by the two key/value caches of the Python runtime: the loop of
  \<open>CacheManager.write_paged\<close> and \<open>_KVCacheMixin._write_kv_flat\<close> that scatters rows to the cells
  their positions name, and the loop of \<open>read_paged\<close> and \<open>_gather_kv_flat\<close> that copies the blocks
  of each request into one row per request.  The locale \<open>cell_store\<close> is the interface the write
  loop needs of the storage below it; it is interpreted by both caches.
\<close>

type_synonym tables = "(string, int list) dict"


section \<open>The write loop\<close>

text \<open>The first table, in dictionary order, that is long enough for a block index.\<close>

definition find_block :: "tables \<Rightarrow> int \<Rightarrow> int list option" where
  "find_block bt block_idx = find (\<lambda>blocks. block_idx < int (length blocks)) (map snd bt)"

definition write_one :: "('s \<Rightarrow> int \<Rightarrow> int \<Rightarrow> nat \<Rightarrow> 's res) \<Rightarrow> int \<Rightarrow> tables \<Rightarrow> 's \<Rightarrow> nat \<times> int \<Rightarrow> 's res" where
  "write_one put bs bt s = (\<lambda>(i, pos).
     if bs = 0 then Inl ZeroDivisionError
     else (case find_block bt (pos div bs) of
             None \<Rightarrow> Inr s
           | Some blocks \<Rightarrow> res_bind (py_index blocks (pos div bs)) (\<lambda>phys_id. put s phys_id (pos mod bs) i)))"

definition paged_write :: "('s \<Rightarrow> int \<Rightarrow> int \<Rightarrow> nat \<Rightarrow> 's res) \<Rightarrow> int \<Rightarrow> tables \<Rightarrow> int list \<Rightarrow> 's \<Rightarrow> 's res" where
  "paged_write put bs bt pos_list s = res_foldM (write_one put bs bt) s (enum_from 0 pos_list)"

text \<open>The cell a position is written to, and the last row of a batch written to a cell.\<close>

definition cell_of :: "tables \<Rightarrow> int \<Rightarrow> int \<Rightarrow> (int \<times> int) option" where
  "cell_of bt bs pos =
     (case find_block bt (pos div bs) of None \<Rightarrow> None | Some blocks \<Rightarrow> Some (blocks ! nat (pos div bs), pos mod bs))"

definition last_writer :: "tables \<Rightarrow> int \<Rightarrow> (nat \<times> int) list \<Rightarrow> int \<times> int \<Rightarrow> nat option" where
  "last_writer bt bs ips c =
     foldl (\<lambda>w (i, pos). if cell_of bt bs pos = Some c then Some i else w) None ips"

definition tables_in :: "int \<Rightarrow> tables \<Rightarrow> bool" where
  "tables_in nb bt \<longleftrightarrow> (\<forall>blocks \<in> set (map snd bt). \<forall>b \<in> set blocks. 0 \<le> b \<and> b < nb)"

lemma find_block_Some:
  "find_block bt k = Some blocks \<Longrightarrow> blocks \<in> set (map snd bt) \<and> k < int (length blocks)"
  by (auto simp: find_block_def find_Some_iff)

lemma cell_of_range:
  assumes "cell_of bt bs pos = Some (phys, off)" "tables_in nb bt" "0 < bs" "0 \<le> pos"
  shows "0 \<le> phys \<and> phys < nb \<and> 0 \<le> off \<and> off < bs"
proof -
  obtain blocks where b: "find_block bt (pos div bs) = Some blocks" "phys = blocks ! nat (pos div bs)" "off = pos mod bs"
    using assms(1) by (auto simp: cell_of_def split: option.splits)
  have "nat (pos div bs) < length blocks" "blocks \<in> set (map snd bt)"
    using find_block_Some[OF b(1)] assms(3,4) pos_imp_zdiv_nonneg_iff[of bs pos] by auto
  then show ?thesis using assms(2,3) b(2,3) nth_mem[of "nat (pos div bs)" blocks] unfolding tables_in_def by auto
qed

lemma write_one_cell:
  assumes "0 < bs" "0 \<le> pos"
  shows "write_one put bs bt s (i, pos) = (case cell_of bt bs pos of None \<Rightarrow> Inr s | Some (phys, off) \<Rightarrow> put s phys off i)"
proof (cases "find_block bt (pos div bs)")
  case (Some blocks)
  have "0 \<le> pos div bs" using assms pos_imp_zdiv_nonneg_iff by blast
  then have "py_index blocks (pos div bs) = Inr (blocks ! nat (pos div bs))"
    using find_block_Some[OF Some] py_index_nat[of "nat (pos div bs)" blocks] by (simp add: nat_less_iff)
  then show ?thesis using Some assms by (simp add: write_one_def cell_of_def)
qed (use assms in \<open>simp add: write_one_def cell_of_def\<close>)

locale cell_store =
  fixes put :: "'s \<Rightarrow> int \<Rightarrow> int \<Rightarrow> nat \<Rightarrow> 's res"
    and row :: "'s \<Rightarrow> int \<Rightarrow> int \<Rightarrow> 'r res"
    and src :: "nat \<Rightarrow> 'r res"
    and ok :: "'s \<Rightarrow> bool"
    and nb :: int and bs :: int and n :: nat
  assumes put_ok: "ok s \<Longrightarrow> 0 \<le> p \<Longrightarrow> p < nb \<Longrightarrow> 0 \<le> off \<Longrightarrow> off < bs \<Longrightarrow> i < n \<Longrightarrow> \<exists>s'. put s p off i = Inr s' \<and> ok s'"
    and row_same: "ok s \<Longrightarrow> 0 \<le> p \<Longrightarrow> p < nb \<Longrightarrow> 0 \<le> off \<Longrightarrow> off < bs \<Longrightarrow> i < n \<Longrightarrow>
      put s p off i = Inr s' \<Longrightarrow> row s' p off = src i"
    and row_other: "ok s \<Longrightarrow> 0 \<le> p \<Longrightarrow> p < nb \<Longrightarrow> 0 \<le> off \<Longrightarrow> off < bs \<Longrightarrow> i < n \<Longrightarrow>
      put s p off i = Inr s' \<Longrightarrow> 0 \<le> p' \<Longrightarrow> p' < nb \<Longrightarrow> 0 \<le> off' \<Longrightarrow> off' < bs \<Longrightarrow> (p', off') \<noteq> (p, off) \<Longrightarrow>
      row s' p' off' = row s p' off'"
begin

text \<open>The loop ends without an exception and every cell holds the last row written to it.\<close>

lemma foldM_write:
  assumes "ok s" "0 < bs" "tables_in nb bt" "\<forall>(i, pos) \<in> set ips. i < n \<and> 0 \<le> pos"
  shows "\<exists>s'. res_foldM (write_one put bs bt) s ips = Inr s' \<and> ok s' \<and>
    (\<forall>p off. 0 \<le> p \<and> p < nb \<and> 0 \<le> off \<and> off < bs \<longrightarrow>
       row s' p off = (case last_writer bt bs ips (p, off) of None \<Rightarrow> row s p off | Some i \<Rightarrow> src i))"
  using assms(4)
proof (induction ips rule: rev_induct)
  case Nil
  then show ?case using assms(1) by (simp add: last_writer_def)
next
  case (snoc x ips)
  obtain i pos where x: "x = (i, pos)" "i < n" "0 \<le> pos" using snoc.prems by (cases x) auto
  obtain s1 where s1: "res_foldM (write_one put bs bt) s ips = Inr s1" "ok s1"
    and rows: "\<And>p off. 0 \<le> p \<Longrightarrow> p < nb \<Longrightarrow> 0 \<le> off \<Longrightarrow> off < bs \<Longrightarrow>
       row s1 p off = (case last_writer bt bs ips (p, off) of None \<Rightarrow> row s p off | Some i \<Rightarrow> src i)"
    using snoc by auto
  have lw: "last_writer bt bs (ips @ [x]) c = (if cell_of bt bs pos = Some c then Some i else last_writer bt bs ips c)" for c
    by (simp add: last_writer_def x)
  show ?case
  proof (cases "cell_of bt bs pos")
    case None
    then have "res_foldM (write_one put bs bt) s (ips @ [x]) = Inr s1"
      using s1 x assms(2) by (simp add: res_foldM_append write_one_cell)
    then show ?thesis using s1 rows lw None by auto
  next
    case (Some c)
    obtain phys off where c: "c = (phys, off)" by (cases c)
    have r: "0 \<le> phys" "phys < nb" "0 \<le> off" "off < bs" using cell_of_range[of bt bs pos phys off nb] Some c assms x by auto
    obtain s2 where s2: "put s1 phys off i = Inr s2" "ok s2" using put_ok[OF s1(2) r x(2)] by blast
    have "res_foldM (write_one put bs bt) s (ips @ [x]) = Inr s2"
      using s1 s2 x assms(2) Some c by (simp add: res_foldM_append write_one_cell)
    moreover have "row s2 p off' = (case last_writer bt bs (ips @ [x]) (p, off') of None \<Rightarrow> row s p off' | Some i \<Rightarrow> src i)"
      if "0 \<le> p" "p < nb" "0 \<le> off'" "off' < bs" for p off'
      using row_same[OF s1(2) r x(2) s2(1)] row_other[OF s1(2) r x(2) s2(1) that] rows[OF that] lw Some c by auto
    ultimately show ?thesis using s2(2) by blast
  qed
qed

lemma paged_write_rows:
  assumes "ok s" "0 < bs" "tables_in nb bt" "\<forall>pos \<in> set ps. 0 \<le> pos" "length ps \<le> n"
  shows "\<exists>s'. paged_write put bs bt ps s = Inr s' \<and> ok s' \<and>
    (\<forall>p off. 0 \<le> p \<and> p < nb \<and> 0 \<le> off \<and> off < bs \<longrightarrow>
       row s' p off = (case last_writer bt bs (enum_from 0 ps) (p, off) of None \<Rightarrow> row s p off | Some i \<Rightarrow> src i))"
  unfolding paged_write_def
proof (rule foldM_write[OF assms(1-3)])
  show "\<forall>(i, pos) \<in> set (enum_from 0 ps). i < n \<and> 0 \<le> pos" using assms(4,5) by (auto simp: set_enum_from)
qed

end

lemma last_writer_None: "\<forall>(i, pos) \<in> set ips. cell_of bt bs pos \<noteq> Some c \<Longrightarrow> last_writer bt bs ips c = None"
  by (induction ips rule: rev_induct) (auto simp: last_writer_def)

lemma last_writer_unique:
  assumes "(i, pos) \<in> set ips" "cell_of bt bs pos = Some c"
    and "\<And>j q. (j, q) \<in> set ips \<Longrightarrow> cell_of bt bs q = Some c \<Longrightarrow> j = i"
  shows "last_writer bt bs ips c = Some i"
  using assms
proof (induction ips rule: rev_induct)
  case (snoc x ips)
  obtain j q where x: "x = (j, q)" by (cases x)
  show ?case
  proof (cases "cell_of bt bs q = Some c")
    case True
    then show ?thesis using snoc.prems(3)[of j q] x by (simp add: last_writer_def)
  next
    case False
    then have "(i, pos) \<in> set ips" using snoc.prems(1,2) x by auto
    then have "last_writer bt bs ips c = Some i"
    proof (rule snoc.IH[OF _ snoc.prems(2)])
      show "k = i" if "(k, q') \<in> set ips" "cell_of bt bs q' = Some c" for k q'
        using snoc.prems(3)[of k q'] that by auto
    qed
    then show ?thesis using False x by (simp add: last_writer_def)
  qed
qed simp


section \<open>The read loop\<close>

text \<open>One request: the blocks of its table in order, until \<open>max_seq_len\<close> is reached.\<close>

fun read_blocks :: "('d \<Rightarrow> int \<Rightarrow> int \<Rightarrow> int \<Rightarrow> 'd res) \<Rightarrow> int \<Rightarrow> int \<Rightarrow> nat \<Rightarrow> int list \<Rightarrow> 'd \<Rightarrow> 'd res" where
  "read_blocks copy bs max_seq_len k [] result = Inr result"
| "read_blocks copy bs max_seq_len k (phys_id # blocks) result =
     (let start = int k * bs; fin = min (start + bs) max_seq_len
      in if start \<ge> max_seq_len then Inr result
         else res_bind (copy result start fin phys_id) (read_blocks copy bs max_seq_len (Suc k) blocks))"

definition sorted_tables :: "tables \<Rightarrow> tables" where
  "sorted_tables bt = sort_key fst bt"

definition paged_read :: "('d \<Rightarrow> nat \<Rightarrow> int \<Rightarrow> int \<Rightarrow> int \<Rightarrow> 'd res) \<Rightarrow> int \<Rightarrow> int \<Rightarrow> tables \<Rightarrow> 'd \<Rightarrow> 'd res" where
  "paged_read copy bs max_seq_len bt result =
     res_foldM (\<lambda>result (req_idx, (_, blocks)). read_blocks (\<lambda>res. copy res req_idx) bs max_seq_len 0 blocks result)
       result (enum_from 0 (sorted_tables bt))"

text \<open>What one copy has to do to a result that is read by request and position.\<close>

locale row_copy =
  fixes copy :: "'d \<Rightarrow> nat \<Rightarrow> int \<Rightarrow> int \<Rightarrow> int \<Rightarrow> 'd res"
    and out :: "'d \<Rightarrow> nat \<Rightarrow> int \<Rightarrow> 'r res"
    and cell :: "int \<Rightarrow> int \<Rightarrow> 'r res"
    and ok :: "'d \<Rightarrow> bool"
    and nb :: int and bs :: int and num_reqs :: nat and max_seq_len :: int
  assumes copy_ok: "ok d \<Longrightarrow> r < num_reqs \<Longrightarrow> 0 \<le> p \<Longrightarrow> p < nb \<Longrightarrow> 0 \<le> start \<Longrightarrow> start < fin \<Longrightarrow> fin \<le> max_seq_len \<Longrightarrow> fin - start \<le> bs \<Longrightarrow>
      \<exists>d'. copy d r start fin p = Inr d' \<and> ok d' \<and>
        (\<forall>r' q. r' < num_reqs \<longrightarrow> 0 \<le> q \<longrightarrow> q < max_seq_len \<longrightarrow>
           out d' r' q = (if r' = r \<and> start \<le> q \<and> q < fin then cell p (q - start) else out d r' q))"
begin

lemma read_blocks_rows:
  assumes "0 < bs" "ok d" "r < num_reqs" "\<forall>b \<in> set blocks. 0 \<le> b \<and> b < nb"
  shows "\<exists>d'. read_blocks (\<lambda>res. copy res r) bs max_seq_len k blocks d = Inr d' \<and> ok d' \<and>
    (\<forall>r' q. r' < num_reqs \<longrightarrow> 0 \<le> q \<longrightarrow> q < max_seq_len \<longrightarrow>
       out d' r' q = (if r' = r \<and> int k * bs \<le> q \<and> q < int (k + length blocks) * bs
                      then cell (blocks ! nat (q div bs - int k)) (q mod bs) else out d r' q))"
  using assms(2,4)
proof (induction blocks arbitrary: k d)
  case Nil
  then show ?case by auto
next
  case (Cons b blocks)
  let ?start = "int k * bs" and ?fin = "min (int k * bs + bs) max_seq_len"
  show ?case
  proof (cases "?start \<ge> max_seq_len")
    case True
    then show ?thesis using Cons.prems(1) by (auto simp: Let_def)
  next
    case False
    have s0: "0 \<le> ?start" using assms(1) by simp
    obtain d1 where d1: "copy d r ?start ?fin b = Inr d1" "ok d1"
      and rows1: "\<And>r' q. r' < num_reqs \<Longrightarrow> 0 \<le> q \<Longrightarrow> q < max_seq_len \<Longrightarrow>
           out d1 r' q = (if r' = r \<and> ?start \<le> q \<and> q < ?fin then cell b (q - ?start) else out d r' q)"
    proof -
      have "0 \<le> b" "b < nb" "?start < ?fin" "?fin \<le> max_seq_len" "?fin - ?start \<le> bs"
        using Cons.prems(2) False assms(1) by auto
      then show ?thesis using copy_ok[OF Cons.prems(1) assms(3) _ _ s0, of b ?fin] that by blast
    qed
    obtain d' where d': "read_blocks (\<lambda>res. copy res r) bs max_seq_len (Suc k) blocks d1 = Inr d'" "ok d'"
      and rows: "\<And>r' q. r' < num_reqs \<Longrightarrow> 0 \<le> q \<Longrightarrow> q < max_seq_len \<Longrightarrow>
       out d' r' q = (if r' = r \<and> int (Suc k) * bs \<le> q \<and> q < int (Suc k + length blocks) * bs
                      then cell (blocks ! nat (q div bs - int (Suc k))) (q mod bs) else out d1 r' q)"
    proof -
      have "\<forall>b \<in> set blocks. 0 \<le> b \<and> b < nb" using Cons.prems(2) by simp
      then show ?thesis using Cons.IH[OF d1(2), of "Suc k"] that by blast
    qed
    have "out d' r' q = (if r' = r \<and> int k * bs \<le> q \<and> q < int (k + length (b # blocks)) * bs
                      then cell ((b # blocks) ! nat (q div bs - int k)) (q mod bs) else out d r' q)"
      if q: "r' < num_reqs" "0 \<le> q" "q < max_seq_len" for r' q
    proof -
      consider "q < int k * bs" | "int k * bs \<le> q" "q < int (Suc k) * bs" | "int (Suc k) * bs \<le> q" by linarith
      then show ?thesis
      proof cases
        case 1
        then show ?thesis using rows[OF q] rows1[OF q] assms(1) by (simp add: algebra_simps)
      next
        case 2
        have dv: "q div bs = int k" using 2 assms(1) by (intro int_div_pos_eq[of _ _ _ "q - int k * bs"]) (auto simp: algebra_simps)
        have md: "q mod bs = q - int k * bs" using dv by (simp add: minus_div_mult_eq_mod[symmetric])
        have "q < int (k + length (b # blocks)) * bs"
        proof -
          have "int (Suc k) * bs \<le> int (k + length (b # blocks)) * bs" using assms(1) by (intro mult_right_mono) auto
          then show ?thesis using 2(2) by linarith
        qed
        then show ?thesis using rows[OF q] rows1[OF q] 2 q(3) dv unfolding md by (auto simp: algebra_simps)
      next
        case 3
        have "int (Suc k) \<le> q div bs" using zdiv_mono1[OF 3, of bs] assms(1) by simp
        then have n: "nat (q div bs - int k) = Suc (nat (q div bs - int (Suc k)))" by simp
        have k: "int k * bs \<le> q" using 3 assms(1) by (simp add: algebra_simps)
        have "\<not> q < ?fin" using 3 by (simp add: algebra_simps)
        then have "out d1 r' q = out d r' q" using rows1[OF q] by (simp only: simp_thms if_False)
        then show ?thesis using rows[OF q] 3 k n by simp
      qed
    qed
    then show ?thesis using d1 d' False by (auto simp: Let_def)
  qed
qed

lemma foldM_rows:
  assumes "0 < bs" "ok d" "k + length ts \<le> num_reqs" "tables_in nb ts"
  shows "\<exists>d'. res_foldM (\<lambda>result (req_idx, (_, blocks)). read_blocks (\<lambda>res. copy res req_idx) bs max_seq_len 0 blocks result)
       d (enum_from k ts) = Inr d' \<and> ok d' \<and>
    (\<forall>r q. r < num_reqs \<longrightarrow> 0 \<le> q \<longrightarrow> q < max_seq_len \<longrightarrow>
       out d' r q = (if k \<le> r \<and> r < k + length ts \<and> q < int (length (snd (ts ! (r - k)))) * bs
                     then cell (snd (ts ! (r - k)) ! nat (q div bs)) (q mod bs) else out d r q))"
  using assms(2-4)
proof (induction ts arbitrary: k d)
  case Nil
  then show ?case by auto
next
  case (Cons t ts)
  obtain name blocks where t: "t = (name, blocks)" by (cases t)
  have blk: "\<forall>b \<in> set blocks. 0 \<le> b \<and> b < nb" and rest: "tables_in nb ts"
    using Cons.prems(3) t by (auto simp: tables_in_def)
  have kr: "k < num_reqs" using Cons.prems(2) by simp
  obtain d1 where d1: "read_blocks (\<lambda>res. copy res k) bs max_seq_len 0 blocks d = Inr d1" "ok d1"
    and rows1: "\<And>r' q. r' < num_reqs \<Longrightarrow> 0 \<le> q \<Longrightarrow> q < max_seq_len \<Longrightarrow>
       out d1 r' q = (if r' = k \<and> int 0 * bs \<le> q \<and> q < int (0 + length blocks) * bs
                      then cell (blocks ! nat (q div bs - int 0)) (q mod bs) else out d r' q)"
    using read_blocks_rows[OF assms(1) Cons.prems(1) kr blk, of 0] by blast
  obtain d' where d': "res_foldM (\<lambda>result (req_idx, (_, blocks)). read_blocks (\<lambda>res. copy res req_idx) bs max_seq_len 0 blocks result)
       d1 (enum_from (Suc k) ts) = Inr d'" "ok d'"
    and rows: "\<And>r q. r < num_reqs \<Longrightarrow> 0 \<le> q \<Longrightarrow> q < max_seq_len \<Longrightarrow>
       out d' r q = (if Suc k \<le> r \<and> r < Suc k + length ts \<and> q < int (length (snd (ts ! (r - Suc k)))) * bs
                     then cell (snd (ts ! (r - Suc k)) ! nat (q div bs)) (q mod bs) else out d1 r q)"
    using Cons.IH[OF d1(2) _ rest, of "Suc k"] Cons.prems(2) by auto
  have "out d' r q = (if k \<le> r \<and> r < k + length (t # ts) \<and> q < int (length (snd ((t # ts) ! (r - k)))) * bs
                     then cell (snd ((t # ts) ! (r - k)) ! nat (q div bs)) (q mod bs) else out d r q)"
    if q: "r < num_reqs" "0 \<le> q" "q < max_seq_len" for r q
    using rows[OF q] rows1[OF q] q(2) t by (cases "r = k") (auto simp: nth_Cons')
  then show ?case using d1 d' t by auto
qed

lemma paged_read_rows:
  assumes "0 < bs" "ok d" "length bt = num_reqs" "tables_in nb bt"
  shows "\<exists>d'. paged_read copy bs max_seq_len bt d = Inr d' \<and> ok d' \<and>
    (\<forall>r q. r < num_reqs \<longrightarrow> 0 \<le> q \<longrightarrow> q < max_seq_len \<longrightarrow>
       out d' r q = (if q < int (length (snd (sorted_tables bt ! r))) * bs
                     then cell (snd (sorted_tables bt ! r) ! nat (q div bs)) (q mod bs) else out d r q))"
proof -
  have t: "tables_in nb (sorted_tables bt)" using assms(4) by (simp add: tables_in_def sorted_tables_def)
  have l: "length (sorted_tables bt) = num_reqs" using assms(3) by (simp add: sorted_tables_def)
  show ?thesis
    using foldM_rows[OF assms(1,2), of 0 "sorted_tables bt"] t l unfolding paged_read_def add_0 diff_zero
    by (simp only: le_refl le0 simp_thms) (metis (no_types, lifting))
qed

end

end
