(* ===== verification/Cache_Policy.thy ===== *)
theory Cache_Policy
  imports Json_Value
begin

text \<open>
  The declarative cache policy, \<open>compiler/cache_policy.py\<close>, and the JSON fallback reader of
  \<open>python_runtime/engine/cache_manager.py\<close>.  Fields that the code copies from JSON without
  looking at them are JSON values here; the \<open>SfaCachePolicy\<close> message is a record over the field
  types of \<open>include/sfa_abi.proto\<close>, and its byte encoding (the protobuf library's) is a
  parameter.
\<close>


section \<open>Specifications\<close>

record slab_spec =
  slab_id :: json
  storage :: json
  dims :: "(string, int) dict"
  layout :: json
  dtype :: json

record intercept_spec =
  icpt_slab_id :: json
  op_name :: json
  direction :: json
  source :: json
  layer :: json
  func_index :: json
  output_index :: json

record cache_policy =
  slabs :: "slab_spec list"
  intercepts :: "intercept_spec list"
  block_size :: int
  max_requests :: int

definition slab_to_dict :: "slab_spec \<Rightarrow> json" where
  "slab_to_dict s = JDict [(''slab_id'', slab_id s), (''storage'', storage s),
     (''dims'', JDict (map (\<lambda>(k, v). (k, JInt v)) (dims s))), (''layout'', layout s), (''dtype'', dtype s)]"

definition int_dict :: "(string \<times> json) list \<Rightarrow> (string, int) dict res" where
  "int_dict kvs =
     res_bind (res_mapM (\<lambda>(k, v). res_bind (json_int v) (\<lambda>i. Inr (k, i))) kvs) (\<lambda>l.
     Inr (foldl (\<lambda>d (k, v). AList.update k v d) [] l))"

definition slab_from_dict :: "json \<Rightarrow> slab_spec res" where
  "slab_from_dict d =
     res_bind (json_index d ''slab_id'') (\<lambda>sid.
     res_bind (json_index d ''storage'') (\<lambda>st.
     res_bind (json_index d ''dims'') (\<lambda>dm.
     res_bind (json_items dm) (\<lambda>items.
     res_bind (int_dict items) (\<lambda>ints.
     res_bind (json_index d ''layout'') (\<lambda>lay.
     res_bind (json_get d ''dtype'' (JStr ''float32'')) (\<lambda>dt.
     Inr \<lparr>slab_id = sid, storage = st, dims = ints, layout = lay, dtype = dt\<rparr>)))))))"

definition intercept_to_dict :: "intercept_spec \<Rightarrow> json" where
  "intercept_to_dict i = JDict
     ([(''slab_id'', icpt_slab_id i), (''op_name'', op_name i), (''direction'', direction i), (''source'', source i),
       (''layer'', layer i)] @
      (if func_index i \<noteq> JNull then [(''func_index'', func_index i)] else []) @
      (if output_index i \<noteq> JNull then [(''output_index'', output_index i)] else []))"

definition intercept_from_dict :: "json \<Rightarrow> intercept_spec res" where
  "intercept_from_dict d =
     res_bind (json_index d ''slab_id'') (\<lambda>sid.
     res_bind (json_index d ''op_name'') (\<lambda>op.
     res_bind (json_index d ''direction'') (\<lambda>dir.
     res_bind (json_index d ''source'') (\<lambda>src.
     res_bind (json_get d ''layer'' (JStr ''sequential'')) (\<lambda>lay.
     res_bind (json_get d ''func_index'' JNull) (\<lambda>fi.
     res_bind (json_get d ''output_index'' JNull) (\<lambda>oi.
     Inr \<lparr>icpt_slab_id = sid, op_name = op, direction = dir, source = src, layer = lay, func_index = fi, output_index = oi\<rparr>)))))))"


section \<open>Policies\<close>

definition is_empty :: "cache_policy \<Rightarrow> bool" where
  "is_empty p = (length (slabs p) = 0)"

definition policy_none :: cache_policy where
  "policy_none = \<lparr>slabs = [], intercepts = [], block_size = 16, max_requests = 256\<rparr>"

definition policy_from_dict :: "json \<Rightarrow> cache_policy res" where
  "policy_from_dict d =
     (if d = JNull then Inr policy_none
      else res_bind (json_get d ''slabs'' (JList [])) (\<lambda>sl.
           res_bind (json_iter sl) (\<lambda>sl'.
           res_bind (res_mapM slab_from_dict sl') (\<lambda>ss.
           res_bind (json_get d ''intercepts'' (JList [])) (\<lambda>il.
           res_bind (json_iter il) (\<lambda>il'.
           res_bind (res_mapM intercept_from_dict il') (\<lambda>is.
           res_bind (json_get d ''block_size'' (JInt 16)) (\<lambda>b.
           res_bind (json_int b) (\<lambda>bs.
           res_bind (json_get d ''max_requests'' (JInt 256)) (\<lambda>m.
           res_bind (json_int m) (\<lambda>mr.
           Inr \<lparr>slabs = ss, intercepts = is, block_size = bs, max_requests = mr\<rparr>)))))))))))"

definition policy_to_dict :: "cache_policy \<Rightarrow> json" where
  "policy_to_dict p = JDict [(''slabs'', JList (map slab_to_dict (slabs p))),
     (''intercepts'', JList (map intercept_to_dict (intercepts p))),
     (''block_size'', JInt (block_size p)), (''max_requests'', JInt (max_requests p))]"

definition paged_slab :: "string \<Rightarrow> int \<Rightarrow> int \<Rightarrow> int \<Rightarrow> slab_spec" where
  "paged_slab sid layers heads head_dim =
     \<lparr>slab_id = JStr sid, storage = JStr ''paged'', dims = [(''layers'', layers), (''heads'', heads), (''dim'', head_dim)],
      layout = JStr ''BNLD'', dtype = JStr ''float32''\<rparr>"

definition rw_intercept :: "string \<Rightarrow> string \<Rightarrow> string \<Rightarrow> intercept_spec" where
  "rw_intercept sid op src =
     \<lparr>icpt_slab_id = JStr sid, op_name = JStr op, direction = JStr ''read_write'', source = JStr src,
      layer = JStr ''sequential'', func_index = JNull, output_index = JNull\<rparr>"

definition sdpa :: string where
  "sdpa = ''scaled_dot_product_attention''"

definition for_llama :: "int \<Rightarrow> int \<Rightarrow> int \<Rightarrow> int \<Rightarrow> cache_policy" where
  "for_llama num_layers num_kv_heads head_dim bs =
     \<lparr>slabs = [paged_slab ''k'' num_layers num_kv_heads head_dim, paged_slab ''v'' num_layers num_kv_heads head_dim],
      intercepts = [rw_intercept ''k'' sdpa ''operand[1]'', rw_intercept ''v'' sdpa ''operand[2]''],
      block_size = bs, max_requests = 256\<rparr>"

definition for_mixed_linear ::
  "int \<Rightarrow> int \<Rightarrow> int \<Rightarrow> int \<Rightarrow> int \<Rightarrow> int \<Rightarrow> int \<Rightarrow> int \<Rightarrow> int \<Rightarrow> int \<Rightarrow> int \<Rightarrow> cache_policy" where
  "for_mixed_linear num_layers num_full num_linear num_kv_heads head_dim key_heads value_heads key_dim value_dim conv_kernel bs =
     (let conv_channels = key_heads * key_dim * 2 + value_heads * value_dim
      in \<lparr>slabs = [paged_slab ''k'' num_full num_kv_heads head_dim, paged_slab ''v'' num_full num_kv_heads head_dim,
            \<lparr>slab_id = JStr ''recurrent_state'', storage = JStr ''fixed'',
             dims = [(''layers'', num_linear), (''heads'', value_heads), (''key_dim'', key_dim), (''value_dim'', value_dim)],
             layout = JStr ''BHKV'', dtype = JStr ''float32''\<rparr>,
            \<lparr>slab_id = JStr ''conv_state'', storage = JStr ''fixed'',
             dims = [(''layers'', num_linear), (''channels'', conv_channels), (''kernel'', conv_kernel)],
             layout = JStr ''BCK'', dtype = JStr ''float32''\<rparr>],
          intercepts = [rw_intercept ''k'' sdpa ''operand[1]'', rw_intercept ''v'' sdpa ''operand[2]'',
            rw_intercept ''recurrent_state'' ''linear_attn'' ''recurrent_state'',
            rw_intercept ''conv_state'' ''linear_attn'' ''conv_state''],
          block_size = bs, max_requests = 256\<rparr>)"

definition for_rwkv :: "int \<Rightarrow> int \<Rightarrow> int \<Rightarrow> cache_policy" where
  "for_rwkv num_layers state_dim mr =
     \<lparr>slabs = [\<lparr>slab_id = JStr ''state'', storage = JStr ''fixed'', dims = [(''layers'', num_layers), (''dim'', state_dim)],
         layout = JStr ''RLD'', dtype = JStr ''float32''\<rparr>],
      intercepts = [rw_intercept ''state'' ''state_evolve'' ''output''], block_size = 16, max_requests = mr\<rparr>"


section \<open>Policy of a model configuration\<close>

fun config_value :: "json \<Rightarrow> string \<Rightarrow> json \<Rightarrow> json" where
  "config_value (JDict d) name v = dict_get d name v"
| "config_value (JObj d) name v = dict_get d name v"
| "config_value _ name v = v"

definition py_or :: "json \<Rightarrow> json \<Rightarrow> json" where
  "py_or a b = (if json_truthy a then a else b)"

text \<open>\<open>int(_config_value(cfg, name, d) or d)\<close>\<close>

definition config_int_or :: "json \<Rightarrow> string \<Rightarrow> int \<Rightarrow> int res" where
  "config_int_or cfg name d = json_int (py_or (config_value cfg name (JInt d)) (JInt d))"

definition derived_head_dim :: "json \<Rightarrow> json \<Rightarrow> json \<Rightarrow> json res" where
  "derived_head_dim head_dim hidden_size heads =
     (if head_dim \<noteq> JNull then Inr head_dim
      else if hidden_size = JNull then Inl ValueError
      else res_bind (json_int hidden_size) (\<lambda>hs. res_bind (json_int heads) (\<lambda>n.
           if n = 0 then Inl ZeroDivisionError
           else if hs mod n \<noteq> 0 then Inl ValueError
           else Inr (JInt (hs div n)))))"

definition is_full_attention :: "json \<Rightarrow> bool" where
  "is_full_attention t = (t = JStr ''full_attention'')"

definition layer_type_list :: "json \<Rightarrow> json list res" where
  "layer_type_list lt = (case lt of JStr s \<Rightarrow> Inr [lt] | _ \<Rightarrow> json_iter lt)"

definition config_kv_heads :: "json \<Rightarrow> json" where
  "config_kv_heads cfg = py_or (config_value cfg ''num_key_value_heads'' JNull) (config_value cfg ''num_attention_heads'' JNull)"

definition config_llama :: "json \<Rightarrow> json \<Rightarrow> int \<Rightarrow> cache_policy res" where
  "config_llama cfg head_dim bs =
     res_bind (json_int (config_value cfg ''num_hidden_layers'' JNull)) (\<lambda>nl.
     res_bind (json_int (config_kv_heads cfg)) (\<lambda>nk.
     res_bind (json_int head_dim) (\<lambda>hd. Inr (for_llama nl nk hd bs))))"

definition config_mixed :: "json \<Rightarrow> json list \<Rightarrow> json \<Rightarrow> int \<Rightarrow> cache_policy res" where
  "config_mixed cfg types head_dim bs =
     res_bind (json_int (config_value cfg ''num_hidden_layers'' JNull)) (\<lambda>nl.
     res_bind (json_int (config_kv_heads cfg)) (\<lambda>nk.
     res_bind (json_int head_dim) (\<lambda>hd.
     res_bind (config_int_or cfg ''linear_num_key_heads'' 0) (\<lambda>kh.
     res_bind (config_int_or cfg ''linear_num_value_heads'' 0) (\<lambda>vh.
     res_bind (config_int_or cfg ''linear_key_head_dim'' 0) (\<lambda>kd.
     res_bind (config_int_or cfg ''linear_value_head_dim'' 0) (\<lambda>vd.
     res_bind (config_int_or cfg ''linear_conv_kernel_dim'' 4) (\<lambda>ck.
     Inr (for_mixed_linear nl (int (length (filter is_full_attention types)))
            (int (length (filter (\<lambda>t. \<not> is_full_attention t) types))) nk hd kh vh kd vd ck bs)))))))))"

definition config_layers :: "json \<Rightarrow> json \<Rightarrow> int \<Rightarrow> cache_policy res" where
  "config_layers cfg head_dim bs =
     (let layer_types = config_value cfg ''layer_types'' JNull
      in if layer_types = JNull then config_llama cfg head_dim bs
         else res_bind (layer_type_list layer_types) (\<lambda>types.
              if filter (\<lambda>t. \<not> is_full_attention t) types \<noteq> [] then config_mixed cfg types head_dim bs
              else res_bind (json_int (config_value cfg ''num_hidden_layers'' JNull)) (\<lambda>nl.
                   if int (length types) \<noteq> nl then Inl ValueError else config_llama cfg head_dim bs)))"

definition text_config :: "json \<Rightarrow> json" where
  "text_config config =
     (let nested = config_value config ''text_config'' JNull in if nested \<noteq> JNull then nested else config)"

definition for_config :: "json \<Rightarrow> int \<Rightarrow> cache_policy res" where
  "for_config config bs =
     (let cfg = text_config config;
          heads = config_value cfg ''num_attention_heads'' JNull
      in if config_value cfg ''num_hidden_layers'' JNull = JNull \<or> heads = JNull \<or> config_kv_heads cfg = JNull
         then Inl ValueError
         else res_bind (derived_head_dim (config_value cfg ''head_dim'' JNull) (config_value cfg ''hidden_size'' JNull) heads)
                (\<lambda>head_dim. config_layers cfg head_dim bs))"


section \<open>Binding intercepts to functions\<close>

definition is_sdpa :: "intercept_spec \<Rightarrow> bool" where
  "is_sdpa i = (op_name i = JStr sdpa)"

definition sdpa_templates :: "cache_policy \<Rightarrow> (json, intercept_spec) dict" where
  "sdpa_templates p = foldl (\<lambda>d i. AList.update (icpt_slab_id i) i d) [] (filter is_sdpa (intercepts p))"

definition bound_intercept :: "(json, intercept_spec) dict \<Rightarrow> int \<times> int \<times> string \<Rightarrow> intercept_spec" where
  "bound_intercept templates b =
     (case b of (fi, oi, sid) \<Rightarrow>
        let t = map_of templates (JStr sid)
        in \<lparr>icpt_slab_id = JStr sid, op_name = JStr sdpa,
            direction = (case t of Some i \<Rightarrow> direction i | None \<Rightarrow> JStr ''read_write''),
            source = (case t of Some i \<Rightarrow> source i | None \<Rightarrow> JStr ''operand[1]''),
            layer = (case t of Some i \<Rightarrow> layer i | None \<Rightarrow> JStr ''sequential''),
            func_index = JInt fi, output_index = JInt oi\<rparr>)"

definition bind_cache_policy :: "cache_policy \<Rightarrow> (int \<times> int \<times> string) list \<Rightarrow> cache_policy" where
  "bind_cache_policy p bindings =
     (if bindings = [] then p
      else p\<lparr>intercepts := filter (\<lambda>i. \<not> is_sdpa i) (intercepts p) @
                           map (bound_intercept (sdpa_templates p)) bindings\<rparr>)"


section \<open>The protobuf message\<close>

record proto_slab =
  ps_name :: string
  ps_slab_type :: string
  ps_layout :: string
  ps_dtype :: string
  ps_num_blocks :: "32 word"
  ps_block_size :: "32 word"
  ps_num_layers :: "32 word"
  ps_num_heads :: "32 word"
  ps_head_dim :: "32 word"

record proto_intercept =
  pi_slab_id :: string
  pi_op_name_pattern :: string
  pi_intercept_type :: string
  pi_source :: string
  pi_layer :: string
  pi_param_indices :: "32 word list"

record proto_policy =
  pp_slabs :: "proto_slab list"
  pp_intercepts :: "proto_intercept list"
  pp_block_size :: "32 word"
  pp_max_requests :: "32 word"

definition slab_to_proto :: "int \<Rightarrow> slab_spec \<Rightarrow> proto_slab res" where
  "slab_to_proto bs s =
     res_bind (proto_str (slab_id s)) (\<lambda>nm.
     res_bind (proto_str (storage s)) (\<lambda>st.
     res_bind (proto_str (layout s)) (\<lambda>lay.
     res_bind (proto_str (dtype s)) (\<lambda>dt.
     res_bind (proto_u32 (dict_get (dims s) ''blocks'' 0)) (\<lambda>nb.
     res_bind (proto_u32 bs) (\<lambda>b.
     res_bind (proto_u32 (dict_get (dims s) ''layers'' 0)) (\<lambda>nl.
     res_bind (proto_u32 (dict_get (dims s) ''heads'' 0)) (\<lambda>nh.
     res_bind (proto_u32 (dict_get (dims s) ''dim'' 0)) (\<lambda>hd.
     Inr \<lparr>ps_name = nm, ps_slab_type = st, ps_layout = lay, ps_dtype = dt, ps_num_blocks = nb, ps_block_size = b,
          ps_num_layers = nl, ps_num_heads = nh, ps_head_dim = hd\<rparr>)))))))))"

text \<open>\<open>if v is not None: indices.append(int(v))\<close>\<close>

definition proto_index :: "json \<Rightarrow> 32 word list res" where
  "proto_index v =
     (if v = JNull then Inr [] else res_bind (json_int v) (\<lambda>i. res_bind (proto_u32 i) (\<lambda>w. Inr [w])))"

definition intercept_to_proto :: "intercept_spec \<Rightarrow> proto_intercept res" where
  "intercept_to_proto i =
     res_bind (proto_str (icpt_slab_id i)) (\<lambda>sid.
     res_bind (proto_str (op_name i)) (\<lambda>op.
     res_bind (proto_str (direction i)) (\<lambda>dir.
     res_bind (proto_str (source i)) (\<lambda>src.
     res_bind (proto_str (layer i)) (\<lambda>lay.
     res_bind (proto_index (func_index i)) (\<lambda>fi.
     res_bind (proto_index (output_index i)) (\<lambda>oi.
     Inr \<lparr>pi_slab_id = sid, pi_op_name_pattern = op, pi_intercept_type = dir, pi_source = src, pi_layer = lay,
          pi_param_indices = fi @ oi\<rparr>)))))))"

definition policy_to_proto :: "cache_policy \<Rightarrow> proto_policy res" where
  "policy_to_proto p =
     res_bind (res_mapM (slab_to_proto (block_size p)) (slabs p)) (\<lambda>ss.
     res_bind (res_mapM intercept_to_proto (intercepts p)) (\<lambda>is.
     res_bind (proto_u32 (block_size p)) (\<lambda>bs.
     res_bind (proto_u32 (max_requests p)) (\<lambda>mr.
     Inr \<lparr>pp_slabs = ss, pp_intercepts = is, pp_block_size = bs, pp_max_requests = mr\<rparr>))))"

definition serialize_cache_policy :: "(proto_policy \<Rightarrow> 8 word list) \<Rightarrow> cache_policy \<Rightarrow> 8 word list res" where
  "serialize_cache_policy encode p = res_bind (policy_to_proto p) (\<lambda>m. Inr (encode m))"


section \<open>The JSON fallback of the runtime\<close>

definition raw_slab_to_proto :: "json \<Rightarrow> json \<Rightarrow> proto_slab res" where
  "raw_slab_to_proto raw s =
     res_bind (res_bind (json_index s ''slab_id'') proto_str) (\<lambda>nm.
     res_bind (res_bind (json_index s ''storage'') proto_str) (\<lambda>st.
     res_bind (res_bind (json_get s ''layout'' (JStr [])) proto_str) (\<lambda>lay.
     res_bind (res_bind (json_get s ''dtype'' (JStr ''float32'')) proto_str) (\<lambda>dt.
     res_bind (res_bind (res_bind (json_get raw ''block_size'' (JInt 16)) json_int) proto_u32) (\<lambda>b.
     res_bind (json_index s ''dims'') (\<lambda>dm.
     res_bind (res_bind (res_bind (json_get dm ''layers'' (JInt 0)) json_int) proto_u32) (\<lambda>nl.
     res_bind (res_bind (res_bind (json_get dm ''heads'' (JInt 0)) json_int) proto_u32) (\<lambda>nh.
     res_bind (res_bind (res_bind (json_get dm ''dim'' (JInt 0)) json_int) proto_u32) (\<lambda>hd.
     Inr \<lparr>ps_name = nm, ps_slab_type = st, ps_layout = lay, ps_dtype = dt, ps_num_blocks = 0, ps_block_size = b,
          ps_num_layers = nl, ps_num_heads = nh, ps_head_dim = hd\<rparr>)))))))))"

definition raw_intercept_to_proto :: "json \<Rightarrow> proto_intercept res" where
  "raw_intercept_to_proto i =
     res_bind (res_bind (json_index i ''slab_id'') proto_str) (\<lambda>sid.
     res_bind (res_bind (json_index i ''op_name'') proto_str) (\<lambda>op.
     res_bind (res_bind (json_index i ''direction'') proto_str) (\<lambda>dir.
     res_bind (res_bind (json_get i ''source'' (JStr [])) proto_str) (\<lambda>src.
     res_bind (res_bind (json_get i ''layer'' (JStr ''sequential'')) proto_str) (\<lambda>lay.
     res_bind (res_bind (json_get i ''func_index'' JNull) proto_index) (\<lambda>fi.
     res_bind (res_bind (json_get i ''output_index'' JNull) proto_index) (\<lambda>oi.
     Inr \<lparr>pi_slab_id = sid, pi_op_name_pattern = op, pi_intercept_type = dir, pi_source = src, pi_layer = lay,
          pi_param_indices = fi @ oi\<rparr>)))))))"

definition dict_to_proto_cache_policy :: "json \<Rightarrow> proto_policy res" where
  "dict_to_proto_cache_policy raw =
     res_bind (res_bind (res_bind (json_get raw ''block_size'' (JInt 16)) json_int) proto_u32) (\<lambda>bs.
     res_bind (res_bind (res_bind (json_get raw ''max_requests'' (JInt 256)) json_int) proto_u32) (\<lambda>mr.
     res_bind (res_bind (json_get raw ''slabs'' (JList [])) json_iter) (\<lambda>sl.
     res_bind (res_mapM (raw_slab_to_proto raw) sl) (\<lambda>ss.
     res_bind (res_bind (json_get raw ''intercepts'' (JList [])) json_iter) (\<lambda>il.
     res_bind (res_mapM raw_intercept_to_proto il) (\<lambda>is.
     Inr \<lparr>pp_slabs = ss, pp_intercepts = is, pp_block_size = bs, pp_max_requests = mr\<rparr>))))))"


section \<open>Round trips\<close>

definition wf_policy :: "cache_policy \<Rightarrow> bool" where
  "wf_policy p = list_all (\<lambda>s. distinct (map fst (dims s))) (slabs p)"

lemma int_dict_ints:
  "distinct (map fst d) \<Longrightarrow> int_dict (map (\<lambda>(k, v). (k, JInt v)) d) = Inr d"
proof -
  assume d: "distinct (map fst d)"
  have "res_mapM (\<lambda>(k, v). res_bind (json_int v) (\<lambda>i. Inr (k, i))) (map (\<lambda>(k, v). (k, JInt v)) d) = Inr d"
    by (induction d) auto
  then show ?thesis using foldl_update_fresh[of "[]" d] d by (simp add: int_dict_def)
qed

lemma slab_dict_roundtrip: "distinct (map fst (dims s)) \<Longrightarrow> slab_from_dict (slab_to_dict s) = Inr s"
  by (simp add: slab_from_dict_def slab_to_dict_def dict_index_def dict_get_def int_dict_ints)

lemma intercept_dict_roundtrip: "intercept_from_dict (intercept_to_dict i) = Inr i"
  by (simp add: intercept_from_dict_def intercept_to_dict_def dict_index_def dict_get_def)

lemma res_mapM_roundtrip: "(\<And>x. x \<in> set xs \<Longrightarrow> f (g x) = Inr x) \<Longrightarrow> res_mapM f (map g xs) = Inr xs"
  by (induction xs) auto


section \<open>The message of a policy and of its JSON form\<close>

lemma res_mapM_map: "res_mapM f (map g xs) = res_mapM (\<lambda>x. f (g x)) xs"
  by (induction xs) auto

lemma dict_get_ints: "dict_get (map (\<lambda>(k, v). (k, JInt v)) d) k (JInt x) = JInt (dict_get d k x)"
  by (induction d) (auto simp: dict_get_def)

lemma raw_intercept_agrees: "raw_intercept_to_proto (intercept_to_dict i) = intercept_to_proto i"
  unfolding raw_intercept_to_proto_def intercept_to_proto_def intercept_to_dict_def
  by (simp add: dict_index_def dict_get_def)


lemma res_mapM_combine:
  assumes "\<And>x y. f x = Inr y \<longleftrightarrow> (\<exists>b z. h x = Inr b \<and> g x = Inr z \<and> y = u b z)"
  shows "res_mapM f xs = Inr ys \<longleftrightarrow> (\<exists>bs zs. res_mapM h xs = Inr bs \<and> res_mapM g xs = Inr zs \<and> ys = map2 u bs zs)"
proof (induction xs arbitrary: ys)
  case (Cons x xs)
  show ?case by (simp add: res_simps Cons.IH assms) fastforce
qed auto

lemma proto_u32_zero: "proto_u32 i = Inr w \<Longrightarrow> w = 0 \<longleftrightarrow> i = 0"
  using proto_u32_value[of i w] by (auto simp: uint_0_iff)

text \<open>The fallback reads every field of a slab but its number of blocks.\<close>

lemma raw_slab_blocks:
  assumes "map_of raw ''block_size'' = Some (JInt bs)"
  shows "slab_to_proto bs s = Inr m \<longleftrightarrow>
    (\<exists>nb f. proto_u32 (dict_get (dims s) ''blocks'' 0) = Inr nb \<and> raw_slab_to_proto (JDict raw) (slab_to_dict s) = Inr f \<and>
            m = f\<lparr>ps_num_blocks := nb\<rparr>)"
  using assms unfolding raw_slab_to_proto_def slab_to_proto_def slab_to_dict_def
  by (auto simp: res_simps dict_index_def dict_get_def[of "[_, _, _, _, _]"] dict_get_def[of raw] dict_get_ints)

lemma raw_slab_no_blocks: "raw_slab_to_proto raw s = Inr f \<Longrightarrow> ps_num_blocks f = 0"
  by (auto simp: raw_slab_to_proto_def res_simps)

lemma res_mapM_set: "res_mapM f xs = Inr ys \<Longrightarrow> y \<in> set ys \<longleftrightarrow> (\<exists>x \<in> set xs. f x = Inr y)"
  by (induction xs arbitrary: ys) (auto simp: res_simps)

lemma res_mapM_defined: "res_mapM f xs = Inr ys \<Longrightarrow> x \<in> set xs \<Longrightarrow> \<exists>y. f x = Inr y"
  by (induction xs arbitrary: ys) (auto simp: res_simps)

lemma set_blocks_same:
  "length bs = length ss \<Longrightarrow> \<forall>s \<in> set ss. ps_num_blocks s = 0 \<Longrightarrow>
   map2 (\<lambda>nb s. s\<lparr>ps_num_blocks := nb\<rparr>) bs ss = ss \<longleftrightarrow> (\<forall>b \<in> set bs. b = 0)"
proof (induction bs ss rule: list_induct2)
  case (Cons b bs s ss)
  then show ?case by (cases s) auto
qed simp

text \<open>The fallback on the dictionary of a policy, field by field.\<close>

lemma fallback_of_policy:
  obtains raw where "map_of raw ''block_size'' = Some (JInt (block_size p))"
    and "dict_to_proto_cache_policy (policy_to_dict p) =
     res_bind (proto_u32 (block_size p)) (\<lambda>bs. res_bind (proto_u32 (max_requests p)) (\<lambda>mr.
     res_bind (res_mapM (\<lambda>s. raw_slab_to_proto (JDict raw) (slab_to_dict s)) (slabs p)) (\<lambda>ss.
     res_bind (res_mapM intercept_to_proto (intercepts p)) (\<lambda>is.
     Inr \<lparr>pp_slabs = ss, pp_intercepts = is, pp_block_size = bs, pp_max_requests = mr\<rparr>))))"
proof
  let ?raw = "[(''slabs'', JList (map slab_to_dict (slabs p))), (''intercepts'', JList (map intercept_to_dict (intercepts p))),
     (''block_size'', JInt (block_size p)), (''max_requests'', JInt (max_requests p))]"
  show "map_of ?raw ''block_size'' = Some (JInt (block_size p))" by simp
  show "dict_to_proto_cache_policy (policy_to_dict p) =
     res_bind (proto_u32 (block_size p)) (\<lambda>bs. res_bind (proto_u32 (max_requests p)) (\<lambda>mr.
     res_bind (res_mapM (\<lambda>s. raw_slab_to_proto (JDict ?raw) (slab_to_dict s)) (slabs p)) (\<lambda>ss.
     res_bind (res_mapM intercept_to_proto (intercepts p)) (\<lambda>is.
     Inr \<lparr>pp_slabs = ss, pp_intercepts = is, pp_block_size = bs, pp_max_requests = mr\<rparr>))))"
    unfolding dict_to_proto_cache_policy_def policy_to_dict_def
    by (simp add: dict_get_def res_mapM_map raw_intercept_agrees)
qed


section \<open>Referential integrity\<close>

text \<open>Every intercept names a slab of its policy.\<close>

definition policy_closed :: "cache_policy \<Rightarrow> bool" where
  "policy_closed p = list_all (\<lambda>i. icpt_slab_id i \<in> slab_id ` set (slabs p)) (intercepts p)"

lemma factories_closed:
  "policy_closed (for_llama a b c d)" "policy_closed (for_mixed_linear a b c d e f g h i j k)"
  "policy_closed (for_rwkv a b c)" "policy_closed policy_none"
  by (simp_all add: policy_closed_def for_llama_def for_mixed_linear_def for_rwkv_def policy_none_def
      paged_slab_def rw_intercept_def Let_def)

lemma factories_wf:
  "wf_policy (for_llama a b c d)" "wf_policy (for_mixed_linear a b c d e f g h i j k)" "wf_policy (for_rwkv a b c)"
  by (simp_all add: wf_policy_def for_llama_def for_mixed_linear_def for_rwkv_def paged_slab_def Let_def)

lemma factories_kv:
  "\<exists>nl nh h rest. slabs (for_llama a b c d) = paged_slab ''k'' nl nh h # paged_slab ''v'' nl nh h # rest"
  "\<exists>nl nh h rest. slabs (for_mixed_linear a b c d e f g h' i j k) = paged_slab ''k'' nl nh h # paged_slab ''v'' nl nh h # rest"
  "block_size (for_llama a b c d) = d" "block_size (for_mixed_linear a b c d e f g h' i j k) = k"
  unfolding for_llama_def for_mixed_linear_def Let_def cache_policy.simps
  by (rule exI[of _ a], rule exI[of _ b], rule exI[of _ c], simp)
     (rule exI[of _ b], rule exI[of _ d], rule exI[of _ e], simp, simp_all)


section \<open>What a configuration asks for\<close>

text \<open>The fields of a decoder configuration, absent or null fields as \<open>None\<close>.\<close>

record attention_config =
  ac_layers :: "int option"
  ac_heads :: "int option"
  ac_kv_heads :: "int option"
  ac_head_dim :: "int option"
  ac_hidden :: "int option"
  ac_types :: "string list option"
  ac_key_heads :: "int option"
  ac_value_heads :: "int option"
  ac_key_dim :: "int option"
  ac_value_dim :: "int option"
  ac_kernel :: "int option"

fun opt_json :: "int option \<Rightarrow> json" where
  "opt_json None = JNull"
| "opt_json (Some i) = JInt i"

definition config_reads :: "json \<Rightarrow> attention_config \<Rightarrow> bool" where
  "config_reads cfg c \<longleftrightarrow>
     (\<forall>(nm, v) \<in> set [(''num_hidden_layers'', ac_layers c), (''num_attention_heads'', ac_heads c),
        (''num_key_value_heads'', ac_kv_heads c), (''head_dim'', ac_head_dim c), (''hidden_size'', ac_hidden c),
        (''linear_num_key_heads'', ac_key_heads c), (''linear_num_value_heads'', ac_value_heads c),
        (''linear_key_head_dim'', ac_key_dim c), (''linear_value_head_dim'', ac_value_dim c),
        (''linear_conv_kernel_dim'', ac_kernel c)]. config_value cfg nm JNull = opt_json v) \<and>
     config_value cfg ''layer_types'' JNull = (case ac_types c of None \<Rightarrow> JNull | Some ts \<Rightarrow> JList (map JStr ts))"

text \<open>A field that is absent, null or zero counts as its default.\<close>

definition or_default :: "int option \<Rightarrow> int \<Rightarrow> int" where
  "or_default v d = (case v of Some i \<Rightarrow> if i = 0 then d else i | None \<Rightarrow> d)"

definition mixed_config :: "attention_config \<Rightarrow> bool" where
  "mixed_config c = (case ac_types c of None \<Rightarrow> False | Some ts \<Rightarrow> \<exists>t \<in> set ts. t \<noteq> ''full_attention'')"

text \<open>The exception a configuration is refused with.\<close>

definition config_error :: "attention_config \<Rightarrow> py_error option" where
  "config_error c =
     (case (ac_layers c, ac_heads c) of
        (Some nl, Some nh) \<Rightarrow>
          (if ac_head_dim c = None \<and> ac_hidden c = None then Some ValueError
           else if ac_head_dim c = None \<and> nh = 0 then Some ZeroDivisionError
           else if ac_head_dim c = None \<and> \<not> nh dvd the (ac_hidden c) then Some ValueError
           else if \<not> mixed_config c \<and> ac_types c \<noteq> None \<and> int (length (the (ac_types c))) \<noteq> nl then Some ValueError
           else None)
      | _ \<Rightarrow> Some ValueError)"

text \<open>The slabs of an accepted configuration: K and V over the full-attention layers, and the two
  state slabs over the others when there are any.\<close>

definition config_slabs :: "attention_config \<Rightarrow> int \<Rightarrow> (string \<times> string \<times> (string, int) dict) list" where
  "config_slabs c hdim =
     (let full = filter (\<lambda>t. t = ''full_attention'') (the (ac_types c));
          linear = filter (\<lambda>t. t \<noteq> ''full_attention'') (the (ac_types c));
          attn = (if mixed_config c then int (length full) else the (ac_layers c));
          kv = [(''layers'', attn), (''heads'', or_default (ac_kv_heads c) (the (ac_heads c))), (''dim'', hdim)];
          kh = or_default (ac_key_heads c) 0; vh = or_default (ac_value_heads c) 0;
          kd = or_default (ac_key_dim c) 0; vd = or_default (ac_value_dim c) 0
      in [(''k'', ''paged'', kv), (''v'', ''paged'', kv)] @
         (if mixed_config c
          then [(''recurrent_state'', ''fixed'',
                 [(''layers'', int (length linear)), (''heads'', vh), (''key_dim'', kd), (''value_dim'', vd)]),
                (''conv_state'', ''fixed'',
                 [(''layers'', int (length linear)), (''channels'', 2 * kh * kd + vh * vd), (''kernel'', or_default (ac_kernel c) 4)])]
          else []))"

definition config_intercepts :: "attention_config \<Rightarrow> (string \<times> string \<times> string) list" where
  "config_intercepts c =
     [(''k'', sdpa, ''operand[1]''), (''v'', sdpa, ''operand[2]'')] @
     (if mixed_config c
      then [(''recurrent_state'', ''linear_attn'', ''recurrent_state''), (''conv_state'', ''linear_attn'', ''conv_state'')] else [])"

lemma config_readsD:
  assumes "config_reads cfg c"
  shows "config_value cfg ''num_hidden_layers'' JNull = opt_json (ac_layers c)"
    and "config_value cfg ''num_attention_heads'' JNull = opt_json (ac_heads c)"
    and "config_value cfg ''num_key_value_heads'' JNull = opt_json (ac_kv_heads c)"
    and "config_value cfg ''head_dim'' JNull = opt_json (ac_head_dim c)"
    and "config_value cfg ''hidden_size'' JNull = opt_json (ac_hidden c)"
    and "config_value cfg ''linear_num_key_heads'' JNull = opt_json (ac_key_heads c)"
    and "config_value cfg ''linear_num_value_heads'' JNull = opt_json (ac_value_heads c)"
    and "config_value cfg ''linear_key_head_dim'' JNull = opt_json (ac_key_dim c)"
    and "config_value cfg ''linear_value_head_dim'' JNull = opt_json (ac_value_dim c)"
    and "config_value cfg ''linear_conv_kernel_dim'' JNull = opt_json (ac_kernel c)"
    and "config_value cfg ''layer_types'' JNull = (case ac_types c of None \<Rightarrow> JNull | Some ts \<Rightarrow> JList (map JStr ts))"
  using assms by (simp_all add: config_reads_def)

lemma config_value_default: "config_value cfg nm d = config_value cfg nm JNull \<or> (config_value cfg nm JNull = JNull \<and> config_value cfg nm d = d)"
  by (cases cfg) (auto simp: dict_get_def split: option.splits)

lemma config_int_or_reads: "config_value cfg nm JNull = opt_json v \<Longrightarrow> config_int_or cfg nm d = Inr (or_default v d)"
  using config_value_default[of cfg nm "JInt d"]
  by (cases v) (auto simp: config_int_or_def py_or_def or_default_def)

lemma opt_json_null [simp]: "opt_json v = JNull \<longleftrightarrow> v = None"
  by (cases v) auto

lemma kv_heads_reads:
  assumes "config_reads cfg c" and "ac_heads c = Some nh"
  shows "config_kv_heads cfg = JInt (or_default (ac_kv_heads c) nh)"
  using assms(2) config_readsD(2,3)[OF assms(1)]
  by (cases "ac_kv_heads c") (auto simp: config_kv_heads_def py_or_def or_default_def)

lemma derived_head_dim_reads:
  "derived_head_dim (opt_json hdim) (opt_json hs) (JInt nh) =
    (case (hdim, hs) of (Some h, _) \<Rightarrow> Inr (JInt h) | (None, None) \<Rightarrow> Inl ValueError
     | (None, Some s) \<Rightarrow> if nh = 0 then Inl ZeroDivisionError else if nh dvd s then Inr (JInt (s div nh)) else Inl ValueError)"
  by (cases hdim; cases hs) (auto simp: derived_head_dim_def dvd_eq_mod_eq_0)


lemma full_attention_split:
  "filter is_full_attention (map JStr ts) = map JStr (filter (\<lambda>t. t = ''full_attention'') ts)"
  "filter (\<lambda>t. \<not> is_full_attention t) (map JStr ts) = map JStr (filter (\<lambda>t. t \<noteq> ''full_attention'') ts)"
  by (induction ts) (auto simp: is_full_attention_def)

lemma config_llama_reads:
  assumes "config_reads cfg c" "ac_layers c = Some nl" "ac_heads c = Some nh"
  shows "config_llama cfg (JInt hdim) bs = Inr (for_llama nl (or_default (ac_kv_heads c) nh) hdim bs)"
  using config_readsD(1)[OF assms(1)] assms by (simp add: config_llama_def kv_heads_reads)

lemma config_mixed_reads:
  assumes "config_reads cfg c" "ac_layers c = Some nl" "ac_heads c = Some nh"
  shows "config_mixed cfg (map JStr ts) (JInt hdim) bs =
    Inr (for_mixed_linear nl (int (length (filter (\<lambda>t. t = ''full_attention'') ts)))
      (int (length (filter (\<lambda>t. t \<noteq> ''full_attention'') ts))) (or_default (ac_kv_heads c) nh) hdim
      (or_default (ac_key_heads c) 0) (or_default (ac_value_heads c) 0) (or_default (ac_key_dim c) 0)
      (or_default (ac_value_dim c) 0) (or_default (ac_kernel c) 4) bs)"
  using config_readsD[OF assms(1)] assms
  by (simp add: config_mixed_def kv_heads_reads config_int_or_reads full_attention_split)

lemma config_layers_reads:
  assumes "config_reads cfg c" "ac_layers c = Some nl" "ac_heads c = Some nh"
  shows "config_layers cfg (JInt hdim) bs =
    (if mixed_config c then config_mixed cfg (map JStr (the (ac_types c))) (JInt hdim) bs
     else if ac_types c \<noteq> None \<and> int (length (the (ac_types c))) \<noteq> nl then Inl ValueError
     else config_llama cfg (JInt hdim) bs)"
proof (cases "ac_types c")
  case None
  then show ?thesis using config_readsD(11)[OF assms(1)] by (simp add: config_layers_def mixed_config_def)
next
  case (Some ts)
  have "filter (\<lambda>t. t \<noteq> ''full_attention'') ts \<noteq> [] \<longleftrightarrow> mixed_config c"
    using Some by (simp add: mixed_config_def filter_empty_conv)
  then show ?thesis
    using config_readsD(1,11)[OF assms(1)] assms(2) Some
    by (simp add: config_layers_def layer_type_list_def full_attention_split del: filter_empty_conv)
qed

text \<open>The policy of an accepted configuration.\<close>

definition config_policy :: "attention_config \<Rightarrow> int \<Rightarrow> int \<Rightarrow> cache_policy" where
  "config_policy c hdim bs =
     (let kvh = or_default (ac_kv_heads c) (the (ac_heads c)); ts = the (ac_types c)
      in if mixed_config c
         then for_mixed_linear (the (ac_layers c)) (int (length (filter (\<lambda>t. t = ''full_attention'') ts)))
           (int (length (filter (\<lambda>t. t \<noteq> ''full_attention'') ts))) kvh hdim
           (or_default (ac_key_heads c) 0) (or_default (ac_value_heads c) 0) (or_default (ac_key_dim c) 0)
           (or_default (ac_value_dim c) 0) (or_default (ac_kernel c) 4) bs
         else for_llama (the (ac_layers c)) kvh hdim bs)"

lemma config_policy_contents:
  "map (\<lambda>s. (slab_id s, storage s, dims s)) (slabs (config_policy c hdim bs))
     = map (\<lambda>(i, st, d). (JStr i, JStr st, d)) (config_slabs c hdim)"
  "map (\<lambda>i. (icpt_slab_id i, op_name i, source i)) (intercepts (config_policy c hdim bs))
     = map (\<lambda>(i, op, src). (JStr i, JStr op, JStr src)) (config_intercepts c)"
  "block_size (config_policy c hdim bs) = bs" "policy_closed (config_policy c hdim bs)" "wf_policy (config_policy c hdim bs)"
proof -
  have comm: "a * b * 2 = 2 * a * b" for a b :: int by simp
  show "map (\<lambda>s. (slab_id s, storage s, dims s)) (slabs (config_policy c hdim bs))
     = map (\<lambda>(i, st, d). (JStr i, JStr st, d)) (config_slabs c hdim)"
    by (cases "mixed_config c")
      (simp_all only: config_policy_def config_slabs_def for_mixed_linear_def for_llama_def paged_slab_def Let_def if_True if_False
        cache_policy.simps slab_spec.simps list.map append.simps prod.case comm)
  show "map (\<lambda>i. (icpt_slab_id i, op_name i, source i)) (intercepts (config_policy c hdim bs))
     = map (\<lambda>(i, op, src). (JStr i, JStr op, JStr src)) (config_intercepts c)"
    by (cases "mixed_config c")
      (simp_all only: config_policy_def config_intercepts_def for_mixed_linear_def for_llama_def rw_intercept_def Let_def if_True if_False
        cache_policy.simps intercept_spec.simps list.map append.simps prod.case)
  show "block_size (config_policy c hdim bs) = bs" "policy_closed (config_policy c hdim bs)" "wf_policy (config_policy c hdim bs)"
    unfolding config_policy_def Let_def using factories_closed factories_wf factories_kv by simp_all
qed

lemma for_config_reads:
  assumes "config_reads (text_config cfg) c"
  shows "for_config cfg bs =
    (case config_error c of Some e \<Rightarrow> Inl e
     | None \<Rightarrow> Inr (config_policy c (case ac_head_dim c of Some h \<Rightarrow> h | None \<Rightarrow> the (ac_hidden c) div the (ac_heads c)) bs))"
proof (cases "ac_layers c = None \<or> ac_heads c = None")
  case True
  then have "config_error c = Some ValueError" by (cases "ac_layers c"; cases "ac_heads c") (simp_all add: config_error_def)
  moreover have "for_config cfg bs = Inl ValueError"
    using True config_readsD(1,2)[OF assms] by (elim disjE) (simp_all add: for_config_def Let_def)
  ultimately show ?thesis by simp
next
  case False
  then obtain nl nh where n: "ac_layers c = Some nl" "ac_heads c = Some nh" by auto
  note cl = config_layers_reads[OF assms n] config_llama_reads[OF assms n] config_mixed_reads[OF assms n]
  have "for_config cfg bs = res_bind (derived_head_dim (opt_json (ac_head_dim c)) (opt_json (ac_hidden c)) (JInt nh))
      (\<lambda>h. config_layers (text_config cfg) h bs)"
    using config_readsD(1,2,4,5)[OF assms] kv_heads_reads[OF assms n(2)] n by (simp add: for_config_def Let_def)
  note fc = this[unfolded derived_head_dim_reads]
  show ?thesis
    using n unfolding fc by (cases "ac_head_dim c"; cases "ac_hidden c"; cases "mixed_config c"; cases "ac_types c")
      (simp_all add: cl config_error_def config_policy_def Let_def mixed_config_def)
qed


section \<open>Properties of cache policies\<close>

text \<open>C25: reading back the dictionary of a policy gives the policy, whatever its slabs and intercepts
  (a dictionary has no duplicate keys).\<close>

theorem policy_dict_roundtrip:
  assumes "wf_policy p"
  shows "policy_from_dict (policy_to_dict p) = Inr p"
proof -
  have "res_mapM slab_from_dict (map slab_to_dict (slabs p)) = Inr (slabs p)"
    using assms by (intro res_mapM_roundtrip slab_dict_roundtrip) (auto simp: wf_policy_def list_all_iff)
  moreover have "res_mapM intercept_from_dict (map intercept_to_dict (intercepts p)) = Inr (intercepts p)"
    by (intro res_mapM_roundtrip intercept_dict_roundtrip)
  ultimately show ?thesis by (simp add: policy_from_dict_def policy_to_dict_def dict_get_def)
qed

theorem policy_dict_roundtrip_witness:
  "policy_from_dict (policy_to_dict (for_llama 16 8 64 16)) = Inr (for_llama 16 8 64 16)"
  by (rule policy_dict_roundtrip, rule factories_wf)

text \<open>C28: the runtime's JSON fallback and the compiler's serializer build the same message up to one
  field: the compiler's message is the fallback's with each slab's number of blocks set from the
  dimension \<open>blocks\<close>, which the fallback never reads (it succeeds even where that dimension does not
  fit the message), and the two messages are equal exactly when no slab has a non-zero \<open>blocks\<close>
  dimension.\<close>

theorem json_fallback_exact:
  "(policy_to_proto p = Inr m \<longleftrightarrow>
     (\<exists>nbs f. res_mapM (\<lambda>s. proto_u32 (dict_get (dims s) ''blocks'' 0)) (slabs p) = Inr nbs \<and>
              dict_to_proto_cache_policy (policy_to_dict p) = Inr f \<and>
              m = f\<lparr>pp_slabs := map2 (\<lambda>nb s. s\<lparr>ps_num_blocks := nb\<rparr>) nbs (pp_slabs f)\<rparr>)) \<and>
   (policy_to_proto p = Inr m \<longrightarrow>
     (dict_to_proto_cache_policy (policy_to_dict p) = Inr m \<longleftrightarrow> (\<forall>s \<in> set (slabs p). dict_get (dims s) ''blocks'' 0 = 0)))"
    (is "(_ \<longleftrightarrow> (\<exists>nbs f. ?blocks nbs \<and> _ \<and> _ nbs f)) \<and> _")
proof -
  obtain raw where raw: "map_of raw ''block_size'' = Some (JInt (block_size p))"
    and fb: "dict_to_proto_cache_policy (policy_to_dict p) =
     res_bind (proto_u32 (block_size p)) (\<lambda>bs. res_bind (proto_u32 (max_requests p)) (\<lambda>mr.
     res_bind (res_mapM (\<lambda>s. raw_slab_to_proto (JDict raw) (slab_to_dict s)) (slabs p)) (\<lambda>ss.
     res_bind (res_mapM intercept_to_proto (intercepts p)) (\<lambda>is.
     Inr \<lparr>pp_slabs = ss, pp_intercepts = is, pp_block_size = bs, pp_max_requests = mr\<rparr>))))"
    by (rule fallback_of_policy)
  let ?u = "\<lambda>nb s. s\<lparr>ps_num_blocks := nb\<rparr>"
  have eq: "policy_to_proto p = Inr m \<longleftrightarrow> (\<exists>nbs f. ?blocks nbs \<and> dict_to_proto_cache_policy (policy_to_dict p) = Inr f \<and>
      m = f\<lparr>pp_slabs := map2 ?u nbs (pp_slabs f)\<rparr>)" for m
    unfolding fb policy_to_proto_def by (auto simp: res_simps res_mapM_combine[OF raw_slab_blocks[OF raw]])
  have "dict_to_proto_cache_policy (policy_to_dict p) = Inr m \<longleftrightarrow> (\<forall>s \<in> set (slabs p). dict_get (dims s) ''blocks'' 0 = 0)"
    if m: "policy_to_proto p = Inr m"
  proof -
    obtain nbs f where nbs: "?blocks nbs" and f: "dict_to_proto_cache_policy (policy_to_dict p) = Inr f"
      "m = f\<lparr>pp_slabs := map2 ?u nbs (pp_slabs f)\<rparr>" using m eq by blast
    have ss: "res_mapM (\<lambda>s. raw_slab_to_proto (JDict raw) (slab_to_dict s)) (slabs p) = Inr (pp_slabs f)"
      using f(1) unfolding fb by (auto simp: res_simps)
    have "\<forall>s \<in> set (pp_slabs f). ps_num_blocks s = 0" using res_mapM_set[OF ss] raw_slab_no_blocks by blast
    then have "f = m \<longleftrightarrow> (\<forall>b \<in> set nbs. b = 0)"
      using set_blocks_same[of nbs "pp_slabs f"] res_mapM_length[OF nbs] res_mapM_length[OF ss] f(2)
      by (cases f) auto
    also have "\<dots> \<longleftrightarrow> (\<forall>s \<in> set (slabs p). dict_get (dims s) ''blocks'' 0 = 0)"
      using res_mapM_defined[OF nbs] res_mapM_set[OF nbs] proto_u32_zero by metis
    finally show ?thesis using f(1) by simp
  qed
  with eq show ?thesis by blast
qed


theorem json_fallback_exact_witness:
  "\<exists>m. policy_to_proto ((for_llama 16 8 64 16)\<lparr>slabs := [(paged_slab ''k'' 16 8 64)\<lparr>dims := [(''blocks'', 7)]\<rparr>]\<rparr>) = Inr m \<and>
       dict_to_proto_cache_policy (policy_to_dict ((for_llama 16 8 64 16)\<lparr>slabs := [(paged_slab ''k'' 16 8 64)\<lparr>dims := [(''blocks'', 7)]\<rparr>]\<rparr>)) \<noteq> Inr m"
proof -
  let ?p = "(for_llama 16 8 64 16)\<lparr>slabs := [(paged_slab ''k'' 16 8 64)\<lparr>dims := [(''blocks'', 7)]\<rparr>]\<rparr>"
  have "is_ok (policy_to_proto ?p)" by code_simp
  then obtain m where m: "policy_to_proto ?p = Inr m" by (auto simp: is_ok_iff)
  have "dict_to_proto_cache_policy (policy_to_dict ?p) = Inr m
      \<longleftrightarrow> (\<forall>s \<in> set (slabs ?p). dict_get (dims s) ''blocks'' 0 = 0)"
    using json_fallback_exact[of ?p m] m by (rule conjunct2[THEN mp])
  with m show ?thesis by (auto simp: dict_get_def)
qed

text \<open>C27: a configuration (a dictionary or an object, nested under \<open>text_config\<close> or not) whose fields are
  integers or absent is refused with the exception \<open>config_error\<close> names, or yields the policy it asks
  for: K and V slabs over the layers with full attention, with the key-value heads (the attention
  heads when they are not given) and the head dimension, which is the given one or the hidden size
  split exactly among the attention heads; a recurrent-state and a convolution slab over the other
  layers, if there are any; one intercept per slab; the requested block size; every intercept names
  a slab and no slab repeats a dimension.\<close>

theorem for_config_exact:
  assumes "config_reads (text_config cfg) c"
  shows "case config_error c of
      Some e \<Rightarrow> for_config cfg bs = Inl e
    | None \<Rightarrow> \<exists>p hdim. for_config cfg bs = Inr p \<and>
        (case ac_head_dim c of Some h \<Rightarrow> hdim = h | None \<Rightarrow> ac_hidden c = Some (hdim * the (ac_heads c))) \<and>
        map (\<lambda>s. (slab_id s, storage s, dims s)) (slabs p)
          = map (\<lambda>(i, st, d). (JStr i, JStr st, d)) (config_slabs c hdim) \<and>
        map (\<lambda>i. (icpt_slab_id i, op_name i, source i)) (intercepts p)
          = map (\<lambda>(i, op, src). (JStr i, JStr op, JStr src)) (config_intercepts c) \<and>
        block_size p = bs \<and> policy_closed p \<and> wf_policy p"
proof (cases "config_error c")
  case None
  let ?h = "case ac_head_dim c of Some h \<Rightarrow> h | None \<Rightarrow> the (ac_hidden c) div the (ac_heads c)"
  have "case ac_head_dim c of Some h \<Rightarrow> ?h = h | None \<Rightarrow> ac_hidden c = Some (?h * the (ac_heads c))"
    using None by (auto simp: config_error_def split: option.splits if_splits)
  moreover have "for_config cfg bs = Inr (config_policy c ?h bs)" using for_config_reads[OF assms] None by simp
  ultimately show ?thesis using None config_policy_contents[of c ?h bs] by auto
qed (simp add: for_config_reads[OF assms])

definition tiny_config :: attention_config where
  "tiny_config = \<lparr>ac_layers = Some 2, ac_heads = Some 4, ac_kv_heads = None, ac_head_dim = None, ac_hidden = Some 32,
     ac_types = Some [''linear_attention'', ''full_attention''], ac_key_heads = Some 2, ac_value_heads = Some 4,
     ac_key_dim = Some 8, ac_value_dim = Some 16, ac_kernel = None\<rparr>"

definition tiny_config_json :: json where
  "tiny_config_json = JDict [(''text_config'', JDict
     [(''num_hidden_layers'', JInt 2), (''num_attention_heads'', JInt 4), (''hidden_size'', JInt 32),
      (''layer_types'', JList [JStr ''linear_attention'', JStr ''full_attention'']), (''linear_num_key_heads'', JInt 2),
      (''linear_num_value_heads'', JInt 4), (''linear_key_head_dim'', JInt 8), (''linear_value_head_dim'', JInt 16)])]"

theorem for_config_exact_witness:
  "\<exists>p. for_config tiny_config_json 16 = Inr p \<and>
     map dims (slabs p) = [[(''layers'', 1), (''heads'', 4), (''dim'', 8)], [(''layers'', 1), (''heads'', 4), (''dim'', 8)],
       [(''layers'', 1), (''heads'', 4), (''key_dim'', 8), (''value_dim'', 16)],
       [(''layers'', 1), (''channels'', 96), (''kernel'', 4)]]"
proof -
  have r: "config_reads (text_config tiny_config_json) tiny_config" by code_simp
  have e: "config_error tiny_config = None" "ac_head_dim tiny_config = None" "ac_hidden tiny_config = Some 32" "ac_heads tiny_config = Some 4"
    by code_simp+
  obtain p hdim where p: "for_config tiny_config_json 16 = Inr p" "Some 32 = Some (hdim * 4)"
    "map (\<lambda>s. (slab_id s, storage s, dims s)) (slabs p) = map (\<lambda>(i, st, d). (JStr i, JStr st, d)) (config_slabs tiny_config hdim)"
    using for_config_exact[OF r, of 16] e by auto
  have h: "hdim = 8" using p(2) by simp
  have "map (snd \<circ> snd) (map (\<lambda>s. (slab_id s, storage s, dims s)) (slabs p)) = map (snd \<circ> snd) (config_slabs tiny_config 8)"
    unfolding p(3) h by (simp add: comp_def case_prod_beta)
  moreover have "map (snd \<circ> snd) (config_slabs tiny_config 8) = [[(''layers'', 1), (''heads'', 4), (''dim'', 8)], [(''layers'', 1), (''heads'', 4), (''dim'', 8)],
       [(''layers'', 1), (''heads'', 4), (''key_dim'', 8), (''value_dim'', 16)],
       [(''layers'', 1), (''channels'', 96), (''kernel'', 4)]]" by code_simp
  ultimately show ?thesis using p(1) by (auto simp: comp_def)
qed

text \<open>The length of \<open>layer_types\<close> is compared with the number of layers only when every entry is full
  attention: a mixed configuration of five layers that describes two is accepted.\<close>

theorem for_config_mixed_length_unchecked:
  "\<exists>p. for_config (JDict [(''num_hidden_layers'', JInt 5), (''num_attention_heads'', JInt 4), (''head_dim'', JInt 8),
          (''layer_types'', JList [JStr ''linear_attention'', JStr ''full_attention''])]) 16 = Inr p \<and>
       for_config (JDict [(''num_hidden_layers'', JInt 5), (''num_attention_heads'', JInt 4), (''head_dim'', JInt 8),
          (''layer_types'', JList [JStr ''full_attention'', JStr ''full_attention''])]) 16 = Inl ValueError"
proof -
  have "is_ok (for_config (JDict [(''num_hidden_layers'', JInt 5), (''num_attention_heads'', JInt 4), (''head_dim'', JInt 8),
          (''layer_types'', JList [JStr ''linear_attention'', JStr ''full_attention''])]) 16)" by code_simp
  moreover have "for_config (JDict [(''num_hidden_layers'', JInt 5), (''num_attention_heads'', JInt 4), (''head_dim'', JInt 8),
          (''layer_types'', JList [JStr ''full_attention'', JStr ''full_attention''])]) 16 = Inl ValueError" by code_simp
  ultimately show ?thesis by (auto simp: is_ok_iff)
qed

text \<open>A configuration with a layer type other than full attention yields the mixed policy with its
  state slabs; no \<open>NotImplementedError\<close> is raised, although the docstring announces one.\<close>

theorem for_config_mixed_accepted:
  "\<exists>p. for_config (JDict [(''num_hidden_layers'', JInt 2), (''num_attention_heads'', JInt 4), (''head_dim'', JInt 8),
          (''layer_types'', JList [JStr ''linear_attention'', JStr ''full_attention''])]) 16 = Inr p \<and>
       map slab_id (slabs p) = [JStr ''k'', JStr ''v'', JStr ''recurrent_state'', JStr ''conv_state'']"
proof -
  have "for_config (JDict [(''num_hidden_layers'', JInt 2), (''num_attention_heads'', JInt 4), (''head_dim'', JInt 8),
          (''layer_types'', JList [JStr ''linear_attention'', JStr ''full_attention''])]) 16
      = Inr (for_mixed_linear 2 1 1 4 8 0 0 0 0 4 16)" by code_simp
  then show ?thesis by (simp add: for_mixed_linear_def Let_def paged_slab_def)
qed

text \<open>Binding replaces the attention templates by one entry per binding, in order, with the
  function and output index the binding gives, and keeps every other intercept; the result is
  closed when every binding names a slab.\<close>

theorem bind_cache_policy_spec:
  assumes "bindings \<noteq> []" and "policy_closed p" and "\<forall>(fi, oi, sid) \<in> set bindings. JStr sid \<in> slab_id ` set (slabs p)"
  shows "filter (\<lambda>i. \<not> is_sdpa i) (intercepts (bind_cache_policy p bindings)) = filter (\<lambda>i. \<not> is_sdpa i) (intercepts p) \<and>
         map (\<lambda>i. (func_index i, output_index i, icpt_slab_id i)) (filter is_sdpa (intercepts (bind_cache_policy p bindings)))
           = map (\<lambda>(fi, oi, sid). (JInt fi, JInt oi, JStr sid)) bindings \<and>
         policy_closed (bind_cache_policy p bindings) \<and> slabs (bind_cache_policy p bindings) = slabs p"
proof -
  have all: "is_sdpa (bound_intercept t b)" for t b by (simp add: is_sdpa_def bound_intercept_def Let_def split: prod.splits)
  have "filter is_sdpa (map (bound_intercept t) bs) = map (bound_intercept t) bs"
    "filter (\<lambda>i. \<not> is_sdpa i) (map (bound_intercept t) bs) = []" for t bs using all by (auto simp: filter_empty_conv)
  moreover have "map (\<lambda>i. (func_index i, output_index i, icpt_slab_id i)) (map (bound_intercept t) bs)
      = map (\<lambda>(fi, oi, sid). (JInt fi, JInt oi, JStr sid)) bs" for t bs
    by (auto simp: bound_intercept_def Let_def)
  moreover have "policy_closed (bind_cache_policy p bindings)"
    using assms by (auto simp: policy_closed_def bind_cache_policy_def list_all_iff bound_intercept_def Let_def)
  ultimately show ?thesis using assms(1) by (simp add: bind_cache_policy_def)
qed

theorem bind_cache_policy_spec_witness:
  "map (\<lambda>i. (func_index i, output_index i, icpt_slab_id i))
     (filter is_sdpa (intercepts (bind_cache_policy (for_llama 2 4 8 16) [(1, 0, ''k''), (1, 1, ''v'')])))
   = [(JInt 1, JInt 0, JStr ''k''), (JInt 1, JInt 1, JStr ''v'')]"
  using bind_cache_policy_spec[of "[(1, 0, ''k''), (1, 1, ''v'')]" "for_llama 2 4 8 16"] factories_closed(1)
  by (simp add: for_llama_def paged_slab_def)

text \<open>The message drops the key, value, channel and kernel dimensions of the recurrent-state and
  convolution slabs: mixed policies that differ only there serialize to the same bytes.\<close>

theorem serialize_drops_state_dims:
  "serialize_cache_policy encode (for_mixed_linear nl nf nn nk h kh vh kd vd ck bs)
     = serialize_cache_policy encode (for_mixed_linear nl nf nn nk h kh vh kd' vd' ck' bs)"
  by (simp add: serialize_cache_policy_def policy_to_proto_def for_mixed_linear_def Let_def slab_to_proto_def paged_slab_def
      dict_get_def)

end
