(* ===== verification/Cache_Manager.thy ===== *)
theory Cache_Manager
  imports Paged_Store Cache_Policy
begin

text \<open>
  \<open>CacheManager\<close> of \<open>python_runtime/engine/cache_manager.py\<close>: slabs allocated from a cache policy,
  the layer counters of a step, paged reads and writes by position and the fixed-size state slots.
  A tensor of positions is its shape with its row-major elements.  The lemmas show what a write
  followed by a read returns, for one request and for several, and that layer numbers are handed
  out in order.
\<close>


section \<open>State\<close>

record 't cache_manager =
  cm_policy :: proto_policy
  cm_num_blocks :: int
  cm_block_size :: int
  cm_max_requests :: int
  cm_slabs :: "(string, 't) dict"
  cm_specs :: "(string, proto_slab) dict"
  cm_layer_counters :: "(string, int) dict"
  cm_block_tables :: tables

record pos_tensor =
  pt_shape :: "nat list"
  pt_data :: "int list"


section \<open>Construction\<close>

definition dtype_from_str :: "string \<Rightarrow> string" where
  "dtype_from_str name =
     dict_get [(''float32'', ''float32''), (''float16'', ''float16''), (''bfloat16'', ''bfloat16''), (''float64'', ''float64'')]
       name ''float32''"

definition slab_shape :: "int \<Rightarrow> int \<Rightarrow> int \<Rightarrow> proto_slab \<Rightarrow> int list res" where
  "slab_shape num_blocks bsz max_reqs spec =
     (if ps_slab_type spec = ''paged''
      then Inr [num_blocks, uint (ps_num_layers spec), bsz, uint (ps_num_heads spec), uint (ps_head_dim spec)]
      else if ps_slab_type spec = ''fixed''
      then Inr [max_reqs, uint (ps_num_layers spec), uint (ps_head_dim spec)]
      else Inl ValueError)"

definition allocate_slab :: "'t torch \<Rightarrow> int \<Rightarrow> int \<Rightarrow> int \<Rightarrow> proto_slab \<Rightarrow> 't res" where
  "allocate_slab T num_blocks bsz max_reqs spec =
     res_bind (slab_shape num_blocks bsz max_reqs spec) (\<lambda>shape.
     tc_zeros T (dtype_from_str (ps_dtype spec)) shape)"

definition add_slab :: "'t torch \<Rightarrow> 't cache_manager \<Rightarrow> proto_slab \<Rightarrow> 't cache_manager res" where
  "add_slab T cm spec =
     res_bind (allocate_slab T (cm_num_blocks cm) (cm_block_size cm) (cm_max_requests cm) spec) (\<lambda>t.
     Inr (cm\<lparr>cm_slabs := AList.update (ps_name spec) t (cm_slabs cm),
             cm_specs := AList.update (ps_name spec) spec (cm_specs cm),
             cm_layer_counters := AList.update (ps_name spec) 0 (cm_layer_counters cm)\<rparr>))"

definition cache_init :: "'t torch \<Rightarrow> proto_policy \<Rightarrow> int \<Rightarrow> 't cache_manager res" where
  "cache_init T policy num_blocks =
     res_foldM (add_slab T)
       \<lparr>cm_policy = policy, cm_num_blocks = num_blocks, cm_block_size = uint (pp_block_size policy),
        cm_max_requests = uint (pp_max_requests policy), cm_slabs = [], cm_specs = [], cm_layer_counters = [],
        cm_block_tables = []\<rparr>
       (pp_slabs policy)"


section \<open>Steps and layers\<close>

definition begin_step :: "'t cache_manager \<Rightarrow> tables \<Rightarrow> 't cache_manager" where
  "begin_step cm bt =
     cm\<lparr>cm_block_tables := bt, cm_layer_counters := map (\<lambda>(k, _). (k, 0)) (cm_layer_counters cm)\<rparr>"

definition resolve_layer :: "'t cache_manager \<Rightarrow> string \<Rightarrow> ('t cache_manager \<times> int) res" where
  "resolve_layer cm sid =
     res_bind (dict_index (cm_layer_counters cm) sid) (\<lambda>l.
     Inr (cm\<lparr>cm_layer_counters := AList.update sid (l + 1) (cm_layer_counters cm)\<rparr>, l))"


section \<open>Paged reads and writes\<close>

definition normalize_heads :: "'t torch \<Rightarrow> int \<Rightarrow> int \<Rightarrow> 't \<Rightarrow> 't res" where
  "normalize_heads T nkh hdim t =
     (let s = tc_shape T t
      in if length s = 3 \<and> int (s ! 0) = nkh \<and> int (last s) = hdim then tc_permute102 T t
         else if length s = 3 \<and> int (s ! 1) = nkh \<and> int (last s) = hdim then Inr t
         else if length s = 2 \<and> int (last s) = nkh * hdim then tc_reshape3 T t nkh hdim
         else if length s = 3 \<and> int (last s) = nkh * hdim then tc_reshape3 T t nkh hdim
         else Inr t)"

definition drop_batch :: "'t torch \<Rightarrow> 't \<Rightarrow> 't" where
  "drop_batch T t = (if length (tc_shape T t) \<ge> 4 \<and> tc_shape T t ! 0 = 1 then tc_squeeze0 T t else t)"

definition normalize_kv :: "'t torch \<Rightarrow> 't cache_manager \<Rightarrow> 't \<Rightarrow> string \<Rightarrow> 't res" where
  "normalize_kv T cm data sid =
     res_bind (dict_index (cm_specs cm) sid) (\<lambda>spec.
     normalize_heads T (uint (ps_num_heads spec)) (uint (ps_head_dim spec)) (drop_batch T data))"

definition pos_to_list :: "pos_tensor \<Rightarrow> int list" where
  "pos_to_list p = (if length (pt_shape p) \<ge> 1 then pt_data p else [pt_data p ! 0])"

definition slab_put :: "'t torch \<Rightarrow> 't \<Rightarrow> int \<Rightarrow> 't \<Rightarrow> int \<Rightarrow> int \<Rightarrow> nat \<Rightarrow> 't res" where
  "slab_put T data_norm layer_idx slab phys_id off i =
     res_bind (tc_get T data_norm [int i]) (\<lambda>r. tc_set T slab [phys_id, layer_idx, off] r)"

definition write_paged :: "'t torch \<Rightarrow> 't cache_manager \<Rightarrow> string \<Rightarrow> int \<Rightarrow> 't \<Rightarrow> pos_tensor \<Rightarrow> 't cache_manager res" where
  "write_paged T cm sid layer_idx data positions =
     res_bind (dict_index (cm_slabs cm) sid) (\<lambda>slab.
     if cm_block_tables cm = [] then Inr cm
     else res_bind (normalize_kv T cm data sid) (\<lambda>data_norm.
          res_bind (paged_write (slab_put T data_norm layer_idx) (cm_block_size cm) (cm_block_tables cm) (pos_to_list positions) slab) (\<lambda>slab'.
          Inr (cm\<lparr>cm_slabs := AList.update sid slab' (cm_slabs cm)\<rparr>))))"

definition slab_copy :: "'t torch \<Rightarrow> 't \<Rightarrow> int \<Rightarrow> 't \<Rightarrow> nat \<Rightarrow> int \<Rightarrow> int \<Rightarrow> int \<Rightarrow> 't res" where
  "slab_copy T slab layer_idx result req_idx start fin phys_id =
     res_bind (tc_slice T slab [phys_id, layer_idx] 0 (fin - start)) (\<lambda>v.
     tc_set_slice T result [int req_idx] start fin v)"

definition read_paged :: "'t torch \<Rightarrow> 't cache_manager \<Rightarrow> string \<Rightarrow> int \<Rightarrow> int \<Rightarrow> 't res" where
  "read_paged T cm sid layer_idx max_seq_len =
     res_bind (dict_index (cm_slabs cm) sid) (\<lambda>slab.
     if cm_block_tables cm = [] then Inl RuntimeError
     else res_bind (dict_index (cm_specs cm) sid) (\<lambda>spec.
          res_bind (tc_zeros T (tc_dtype T slab)
             [int (length (cm_block_tables cm)), max_seq_len, uint (ps_num_heads spec), uint (ps_head_dim spec)]) (\<lambda>result.
          paged_read (slab_copy T slab layer_idx) (cm_block_size cm) max_seq_len (cm_block_tables cm) result)))"


section \<open>Fixed state\<close>

definition write_fixed :: "'t torch \<Rightarrow> 't cache_manager \<Rightarrow> string \<Rightarrow> int \<Rightarrow> int \<Rightarrow> 't \<Rightarrow> 't cache_manager res" where
  "write_fixed T cm sid slot layer_idx data =
     res_bind (dict_index (cm_slabs cm) sid) (\<lambda>slab.
     res_bind (tc_set T slab [slot, layer_idx] (tc_to T ''float32'' data)) (\<lambda>slab'.
     Inr (cm\<lparr>cm_slabs := AList.update sid slab' (cm_slabs cm)\<rparr>)))"

definition read_fixed :: "'t torch \<Rightarrow> 't cache_manager \<Rightarrow> string \<Rightarrow> int \<Rightarrow> int \<Rightarrow> 't res" where
  "read_fixed T cm sid slot layer_idx =
     res_bind (dict_index (cm_slabs cm) sid) (\<lambda>slab. tc_get T slab [slot, layer_idx])"


section \<open>Configuration\<close>

definition has_paged_cache :: "'t cache_manager \<Rightarrow> bool" where
  "has_paged_cache cm = list_ex (\<lambda>s. ps_slab_type s = ''paged'') (pp_slabs (cm_policy cm))"

definition configured_kv_heads :: "'t cache_manager \<Rightarrow> int" where
  "configured_kv_heads cm =
     (case find (\<lambda>s. ps_slab_type s = ''paged'' \<and> uint (ps_num_heads s) > 0) (pp_slabs (cm_policy cm)) of
        None \<Rightarrow> 0 | Some s \<Rightarrow> uint (ps_num_heads s))"

definition configured_head_dim :: "'t cache_manager \<Rightarrow> int" where
  "configured_head_dim cm =
     (case find (\<lambda>s. ps_slab_type s = ''paged'' \<and> uint (ps_head_dim s) > 0) (pp_slabs (cm_policy cm)) of
        None \<Rightarrow> 0 | Some s \<Rightarrow> uint (ps_head_dim s))"

definition configured_num_layers :: "'t cache_manager \<Rightarrow> int" where
  "configured_num_layers cm =
     (case find (\<lambda>s. uint (ps_num_layers s) > 0) (pp_slabs (cm_policy cm)) of
        None \<Rightarrow> 0 | Some s \<Rightarrow> uint (ps_num_layers s))"


section \<open>A slab as a store of cells\<close>

text \<open>One layer of one paged slab, and normalised rows to be written to it.\<close>

locale slab_layer = torch_lib T for T :: "'t torch" +
  fixes layer_idx :: int and nb nl bs nkh hdim :: nat and dt :: string
  assumes layer_range: "0 \<le> layer_idx" "layer_idx < int nl"
begin

definition slab_ok :: "'t \<Rightarrow> bool" where
  "slab_ok slab \<longleftrightarrow> tc_shape T slab = [nb, nl, bs, nkh, hdim] \<and> tc_dtype T slab = dt"

lemma cell_path:
  assumes "slab_ok slab" "0 \<le> p" "p < int nb" "0 \<le> off" "off < int bs"
  shows "t_path (tc_shape T slab) [p, layer_idx, off] = Some [nat p, nat layer_idx, nat off]"
  using assms layer_range by (simp add: slab_ok_def py_pos_def)

end

locale slab_rows = slab_layer T layer_idx nb nl bs nkh hdim dt
  for T :: "'t torch" and layer_idx nb nl bs nkh hdim dt +
  fixes data :: 't and n :: nat
  assumes data_shape: "tc_shape T data = [n, nkh, hdim]"
begin

lemma data_row:
  assumes "i < n"
  shows "\<exists>r. tc_get T data [int i] = Inr r \<and> tc_shape T r = [nkh, hdim]"
  using get_ok[of data "[int i]"] data_shape assms by auto

lemma put_spec:
  assumes "slab_ok s" "0 \<le> p" "p < int nb" "0 \<le> off" "off < int bs" "i < n"
  shows "\<exists>r s'. tc_get T data [int i] = Inr r \<and> tc_shape T r = drop 3 (tc_shape T s) \<and>
     slab_put T data layer_idx s p off i = Inr s' \<and> tc_set T s [p, layer_idx, off] r = Inr s' \<and> slab_ok s' \<and>
     tc_get T s' [p, layer_idx, off] = Inr (tc_to T dt r)"
proof -
  obtain r where r: "tc_get T data [int i] = Inr r" "tc_shape T r = [nkh, hdim]" using data_row[OF assms(6)] by blast
  have sh: "tc_shape T r = drop (length [p, layer_idx, off]) (tc_shape T s)" using r(2) assms(1) by (simp add: slab_ok_def)
  obtain s' where s': "tc_set T s [p, layer_idx, off] r = Inr s'"
    using set_ok[of s "[p, layer_idx, off]" r] cell_path[OF assms(1-5)] sh by auto
  show ?thesis
    using r s' sh get_set_same[OF s' sh] set_shape[OF s'] set_dtype[OF s'] assms(1)
    by (auto simp: slab_put_def slab_ok_def)
qed

lemma put_other:
  assumes "slab_ok s" "0 \<le> p" "p < int nb" "0 \<le> off" "off < int bs" "i < n" "slab_put T data layer_idx s p off i = Inr s'"
    and "0 \<le> p'" "p' < int nb" "0 \<le> off'" "off' < int bs" "(p', off') \<noteq> (p, off)"
  shows "tc_get T s' [p', layer_idx, off'] = tc_get T s [p', layer_idx, off']"
proof -
  obtain r where r: "tc_shape T r = drop 3 (tc_shape T s)" "tc_set T s [p, layer_idx, off] r = Inr s'"
    using put_spec[OF assms(1-6)] assms(7) by auto
  have "[nat p, nat layer_idx, nat off] \<noteq> [nat p', nat layer_idx, nat off']" using assms by auto
  then show ?thesis
    using get_set_other[OF r(2) _ cell_path[OF assms(1-5)] cell_path[OF assms(1,8-11)]] r(1) by (simp add: numeral_3_eq_3)
qed

end

sublocale slab_rows \<subseteq> writes: cell_store "slab_put T data layer_idx" "\<lambda>s p off. tc_get T s [p, layer_idx, off]"
  "\<lambda>i. res_bind (tc_get T data [int i]) (\<lambda>r. Inr (tc_to T dt r))" slab_ok "int nb" "int bs" n
proof (unfold_locales, goal_cases)
  case (1 s p off i)
  then show ?case using put_spec by blast
next
  case (2 s p off i s')
  then show ?case using put_spec[of s p off i] by auto
next
  case (3 s p off i s' p' off')
  then show ?case using put_other by blast
qed

context slab_rows
begin

lemmas rows_written = writes.paged_write_rows

end

locale slab_gather = slab_layer T layer_idx nb nl bs nkh hdim dt
  for T :: "'t torch" and layer_idx nb nl bs nkh hdim dt +
  fixes slab :: 't and num_reqs :: nat and max_seq_len :: nat
  assumes slab_is_ok: "slab_ok slab"
begin

definition result_ok :: "'t \<Rightarrow> bool" where
  "result_ok d \<longleftrightarrow> tc_shape T d = [num_reqs, max_seq_len, nkh, hdim] \<and> tc_dtype T d = dt"

lemma copy_spec:
  assumes "result_ok d" "r < num_reqs" "0 \<le> p" "p < int nb" "0 \<le> start" "start < fin" "fin \<le> int max_seq_len" "fin - start \<le> int bs"
  shows "\<exists>d'. slab_copy T slab layer_idx d r start fin p = Inr d' \<and> result_ok d' \<and>
    (\<forall>r' q. r' < num_reqs \<longrightarrow> 0 \<le> q \<longrightarrow> q < int max_seq_len \<longrightarrow>
       tc_get T d' [int r', q] =
         (if r' = r \<and> start \<le> q \<and> q < fin then tc_get T slab [p, layer_idx, q - start] else tc_get T d [int r', q]))"
proof -
  have path: "t_path (tc_shape T slab) [p, layer_idx] \<noteq> None" "drop (length [p, layer_idx]) (tc_shape T slab) = bs # [nkh, hdim]"
    using slab_is_ok layer_range assms(3,4) by (simp_all add: slab_ok_def py_pos_def)
  have d: "tc_shape T d = num_reqs # max_seq_len # [nkh, hdim]" "tc_dtype T d = tc_dtype T slab"
    using assms(1) slab_is_ok by (simp_all add: result_ok_def slab_ok_def)
  show ?thesis
    using copy_rows[OF path d assms(2,5-8)] assms(1) by (auto simp: slab_copy_def result_ok_def)
qed

end

sublocale slab_gather \<subseteq> reads: row_copy "slab_copy T slab layer_idx" "\<lambda>d r q. tc_get T d [int r, q]"
  "\<lambda>p off. tc_get T slab [p, layer_idx, off]" result_ok "int nb" "int bs" num_reqs "int max_seq_len"
  by unfold_locales (rule copy_spec)

context slab_gather
begin

lemmas rows_read = reads.paged_read_rows

end


section \<open>What writes and reads do\<close>

text \<open>A paged slab of the manager has the shape its specification asks for.\<close>

definition paged_slab_ok :: "'t torch \<Rightarrow> 't cache_manager \<Rightarrow> string \<Rightarrow> 't \<Rightarrow> proto_slab \<Rightarrow> bool" where
  "paged_slab_ok T cm sid slab spec \<longleftrightarrow>
     map_of (cm_slabs cm) sid = Some slab \<and> map_of (cm_specs cm) sid = Some spec \<and>
     0 \<le> cm_num_blocks cm \<and> 0 < cm_block_size cm \<and>
     tc_shape T slab = [nat (cm_num_blocks cm), unat (ps_num_layers spec), nat (cm_block_size cm),
                        unat (ps_num_heads spec), unat (ps_head_dim spec)]"

definition layer_ok :: "proto_slab \<Rightarrow> int \<Rightarrow> bool" where
  "layer_ok spec layer_idx \<longleftrightarrow> 0 \<le> layer_idx \<and> layer_idx < uint (ps_num_layers spec)"

lemma slab_layerI:
  "torch_lib T \<Longrightarrow> layer_ok spec layer_idx \<Longrightarrow> slab_layer T layer_idx (unat (ps_num_layers spec))"
  by (simp add: slab_layer_def slab_layer_axioms_def layer_ok_def)

text \<open>A row of a batch as it is stored: converted to the element type of the slab.\<close>

definition stored_row :: "'t torch \<Rightarrow> 't \<Rightarrow> 't \<Rightarrow> nat \<Rightarrow> 't res" where
  "stored_row T slab data_norm i = res_bind (tc_get T data_norm [int i]) (\<lambda>r. Inr (tc_to T (tc_dtype T slab) r))"

lemma write_paged_cells:
  assumes T: "torch_lib T" and ok: "paged_slab_ok T cm sid slab spec" and layer: "layer_ok spec layer_idx"
    and bt: "cm_block_tables cm \<noteq> []" "tables_in (cm_num_blocks cm) (cm_block_tables cm)"
    and dn: "normalize_kv T cm data sid = Inr dn" "tc_shape T dn = [n, unat (ps_num_heads spec), unat (ps_head_dim spec)]"
    and ps: "\<forall>pos \<in> set (pos_to_list positions). 0 \<le> pos" "length (pos_to_list positions) \<le> n"
  shows "\<exists>slab'. write_paged T cm sid layer_idx data positions = Inr (cm\<lparr>cm_slabs := AList.update sid slab' (cm_slabs cm)\<rparr>) \<and>
    paged_slab_ok T (cm\<lparr>cm_slabs := AList.update sid slab' (cm_slabs cm)\<rparr>) sid slab' spec \<and> tc_dtype T slab' = tc_dtype T slab \<and>
    (\<forall>p off. 0 \<le> p \<and> p < cm_num_blocks cm \<and> 0 \<le> off \<and> off < cm_block_size cm \<longrightarrow>
       tc_get T slab' [p, layer_idx, off] =
         (case last_writer (cm_block_tables cm) (cm_block_size cm) (enum_from 0 (pos_to_list positions)) (p, off) of
            None \<Rightarrow> tc_get T slab [p, layer_idx, off] | Some i \<Rightarrow> stored_row T slab dn i))"
proof -
  let ?nb = "nat (cm_num_blocks cm)" and ?bs = "nat (cm_block_size cm)" and ?ps = "pos_to_list positions"
  have L: "slab_rows T layer_idx (unat (ps_num_layers spec)) (unat (ps_num_heads spec)) (unat (ps_head_dim spec)) dn n"
    using slab_layerI[OF T layer] dn(2) by (simp add: slab_rows_def slab_rows_axioms_def)
  have nb: "int ?nb = cm_num_blocks cm" "int ?bs = cm_block_size cm" "0 < cm_block_size cm"
    using ok by (auto simp: paged_slab_ok_def)
  have so: "slab_layer.slab_ok T ?nb (unat (ps_num_layers spec)) ?bs (unat (ps_num_heads spec)) (unat (ps_head_dim spec)) (tc_dtype T slab) s
      \<longleftrightarrow> tc_shape T s = tc_shape T slab \<and> tc_dtype T s = tc_dtype T slab" for s
    using ok slab_layer.slab_ok_def[OF slab_layerI[OF T layer]] by (simp add: paged_slab_ok_def)
  have tb: "tables_in (int ?nb) (cm_block_tables cm)" "0 < int ?bs" using bt(2) nb by simp_all
  obtain slab' where s': "paged_write (slab_put T dn layer_idx) (cm_block_size cm) (cm_block_tables cm) ?ps slab = Inr slab'"
    "tc_shape T slab' = tc_shape T slab" "tc_dtype T slab' = tc_dtype T slab"
    and rows: "\<forall>p off. 0 \<le> p \<and> p < cm_num_blocks cm \<and> 0 \<le> off \<and> off < cm_block_size cm \<longrightarrow>
       tc_get T slab' [p, layer_idx, off] = (case last_writer (cm_block_tables cm) (cm_block_size cm) (enum_from 0 ?ps) (p, off) of
            None \<Rightarrow> tc_get T slab [p, layer_idx, off] | Some i \<Rightarrow> stored_row T slab dn i)"
    using slab_rows.rows_written[OF L, of ?nb ?bs "tc_dtype T slab" slab, OF _ tb(2,1) ps]
    unfolding stored_row_def[symmetric] so nb(1,2) by blast
  have cm': "map_of (cm_slabs cm) sid = Some slab" using ok by (simp add: paged_slab_ok_def)
  then have "write_paged T cm sid layer_idx data positions = Inr (cm\<lparr>cm_slabs := AList.update sid slab' (cm_slabs cm)\<rparr>)"
    using s'(1) bt(1) dn(1) by (simp add: write_paged_def dict_index_def)
  moreover have "paged_slab_ok T (cm\<lparr>cm_slabs := AList.update sid slab' (cm_slabs cm)\<rparr>) sid slab' spec"
    using ok s'(2) by (simp add: paged_slab_ok_def)
  ultimately show ?thesis using rows s'(3) by blast
qed

lemma read_paged_rows:
  assumes T: "torch_lib T" and ok: "paged_slab_ok T cm sid slab spec" and layer: "layer_ok spec layer_idx"
    and bt: "cm_block_tables cm \<noteq> []" "tables_in (cm_num_blocks cm) (cm_block_tables cm)"
  shows "\<exists>res. read_paged T cm sid layer_idx (int msl) = Inr res \<and>
    (\<forall>r q. r < length (cm_block_tables cm) \<longrightarrow> 0 \<le> q \<longrightarrow> q < int msl \<longrightarrow>
       tc_get T res [int r, q] =
         (let blocks = snd (sorted_tables (cm_block_tables cm) ! r)
          in if q < int (length blocks) * cm_block_size cm
             then tc_get T slab [blocks ! nat (q div cm_block_size cm), layer_idx, q mod cm_block_size cm]
             else tc_zeros T (tc_dtype T slab) [uint (ps_num_heads spec), uint (ps_head_dim spec)]))"
proof -
  let ?nb = "nat (cm_num_blocks cm)" and ?bs = "nat (cm_block_size cm)" and ?bt = "cm_block_tables cm"
  let ?h = "unat (ps_num_heads spec)" and ?d = "unat (ps_head_dim spec)" and ?dt = "tc_dtype T slab"
  have lay: "slab_layer T layer_idx (unat (ps_num_layers spec))" by (rule slab_layerI[OF T layer])
  have L: "slab_gather T layer_idx ?nb (unat (ps_num_layers spec)) ?bs ?h ?d ?dt slab"
    using lay ok slab_layer.slab_ok_def[OF lay] by (simp add: slab_gather_def slab_gather_axioms_def paged_slab_ok_def)
  have nb: "int ?nb = cm_num_blocks cm" "int ?bs = cm_block_size cm" "0 < int ?bs"
    using ok by (auto simp: paged_slab_ok_def)
  obtain z where z: "tc_zeros T ?dt [int (length ?bt), int msl, uint (ps_num_heads spec), uint (ps_head_dim spec)] = Inr z"
    "tc_shape T z = [length ?bt, msl, ?h, ?d]" "tc_dtype T z = ?dt"
    using torch_lib.zeros_ok[OF T, of "[int (length ?bt), int msl, uint (ps_num_heads spec), uint (ps_head_dim spec)]" ?dt]
    by auto
  have zok: "slab_gather.result_ok T ?h ?d ?dt (length ?bt) msl z"
    using z(2,3) by (simp add: slab_gather.result_ok_def[OF L])
  have zrow: "tc_get T z [int r, q] = tc_zeros T ?dt [uint (ps_num_heads spec), uint (ps_head_dim spec)]"
    if "r < length ?bt" "0 \<le> q" "q < int msl" for r q
    using torch_lib.get_zeros[OF T z(1), of "[int r, q]"] that z(2) by (simp add: py_pos_def)
  have tb: "tables_in (int ?nb) ?bt" using bt(2) nb by simp
  obtain res where res: "paged_read (slab_copy T slab layer_idx) (cm_block_size cm) (int msl) ?bt z = Inr res"
    and rows: "\<forall>r q. r < length ?bt \<longrightarrow> 0 \<le> q \<longrightarrow> q < int msl \<longrightarrow>
       tc_get T res [int r, q] = (if q < int (length (snd (sorted_tables ?bt ! r))) * cm_block_size cm
         then tc_get T slab [snd (sorted_tables ?bt ! r) ! nat (q div cm_block_size cm), layer_idx, q mod cm_block_size cm]
         else tc_get T z [int r, q])"
    using slab_gather.rows_read[OF L nb(3) zok refl tb] unfolding nb(2) by blast
  have "read_paged T cm sid layer_idx (int msl) = Inr res"
    using ok bt(1) z(1) res by (simp add: read_paged_def dict_index_def paged_slab_ok_def)
  then show ?thesis using rows zrow by (auto simp: Let_def)
qed

lemma cell_of_first:
  assumes "0 < bs" "0 \<le> pos" "pos < int (length blocks) * bs"
  shows "cell_of ((r, blocks) # rest) bs pos = Some (blocks ! nat (pos div bs), pos mod bs)"
    and "nat (pos div bs) < length blocks"
proof -
  have "(pos div bs) * bs \<le> pos" using assms(1) by (simp add: mult.commute minus_mod_eq_mult_div[symmetric])
  then have "(pos div bs) * bs < int (length blocks) * bs" using assms(3) by linarith
  then have "pos div bs < int (length blocks)" using assms(1) by simp
  then show "cell_of ((r, blocks) # rest) bs pos = Some (blocks ! nat (pos div bs), pos mod bs)"
    "nat (pos div bs) < length blocks"
    using assms pos_imp_zdiv_nonneg_iff[of bs pos] by (auto simp: cell_of_def find_block_def)
qed

text \<open>Distinct positions of one table have distinct cells.\<close>

lemma cell_of_first_inj:
  assumes "0 < bs" "distinct blocks" "0 \<le> p" "p < int (length blocks) * bs" "0 \<le> q" "q < int (length blocks) * bs"
    and "cell_of ((r, blocks) # rest) bs p = cell_of ((r, blocks) # rest) bs q"
  shows "p = q"
proof -
  have "nat (p div bs) = nat (q div bs)" "p mod bs = q mod bs"
    using assms cell_of_first(1)[OF assms(1,3,4), of r rest] cell_of_first(1)[OF assms(1,5,6), of r rest]
      cell_of_first(2)[OF assms(1,3,4)] cell_of_first(2)[OF assms(1,5,6)]
    by (auto simp: nth_eq_iff_index_eq)
  moreover have "0 \<le> p div bs" "0 \<le> q div bs" using assms by (simp_all add: pos_imp_zdiv_nonneg_iff)
  ultimately have "p div bs = q div bs" "p mod bs = q mod bs" by simp_all
  then show ?thesis by (metis mult_div_mod_eq)
qed

lemma last_writer_at:
  assumes "0 < bs" "distinct blocks" "distinct ps" "i < length ps"
    and cov: "\<forall>p \<in> set ps. 0 \<le> p \<and> p < int (length blocks) * bs"
  shows "last_writer ((rid, blocks) # rest) bs (enum_from 0 ps) (blocks ! nat (ps ! i div bs), ps ! i mod bs) = Some i"
proof -
  have q: "0 \<le> ps ! i" "ps ! i < int (length blocks) * bs" using cov assms(4) by auto
  note c = cell_of_first(1)[OF assms(1) q, of rid rest]
  show ?thesis
  proof (rule last_writer_unique[OF _ c])
    show "(i, ps ! i) \<in> set (enum_from 0 ps)" using assms(4) by (simp add: set_enum_from)
    fix j p assume "(j, p) \<in> set (enum_from 0 ps)"
      "cell_of ((rid, blocks) # rest) bs p = Some (blocks ! nat (ps ! i div bs), ps ! i mod bs)"
    then show "j = i"
      using cell_of_first_inj[OF assms(1,2), of p "ps ! i" rid rest] c q cov assms(3,4) by (auto simp: set_enum_from nth_eq_iff_index_eq)
  qed
qed

lemma last_writer_disjoint:
  assumes "0 < bs" "\<forall>p \<in> set ps. 0 \<le> p \<and> p < int (length blocks) * bs" "phys \<notin> set blocks"
  shows "last_writer ((rid, blocks) # rest) bs (enum_from 0 ps) (phys, off) = None"
proof (rule last_writer_None, clarify)
  fix i p assume "(i, p) \<in> set (enum_from 0 ps)" and c: "cell_of ((rid, blocks) # rest) bs p = Some (phys, off)"
  then have p: "0 \<le> p" "p < int (length blocks) * bs" using assms(2) by (auto simp: set_enum_from)
  show False using c cell_of_first(1)[OF assms(1) p, of rid rest] nth_mem[OF cell_of_first(2)[OF assms(1) p]] assms(3) by simp
qed

lemma sorted_table_range:
  assumes "tables_in nb bt" "k < length bt" "b \<in> set (snd (sorted_tables bt ! k))"
  shows "0 \<le> b \<and> b < nb"
proof -
  have "sorted_tables bt ! k \<in> set bt" using nth_mem[of k "sorted_tables bt"] assms(2) by (simp add: sorted_tables_def)
  then show ?thesis using assms(1,3) unfolding tables_in_def by auto
qed


section \<open>Properties\<close>

text \<open>A manager with one paged slab, and a batch of two rows.\<close>

definition demo_policy :: proto_policy where
  "demo_policy = \<lparr>pp_slabs = [\<lparr>ps_name = ''kv'', ps_slab_type = ''paged'', ps_layout = [], ps_dtype = ''float16'',
       ps_num_blocks = 0, ps_block_size = 2, ps_num_layers = 2, ps_num_heads = 1, ps_head_dim = 2\<rparr>],
     pp_intercepts = [], pp_block_size = 2, pp_max_requests = 4\<rparr>"

definition demo_cm :: "tables \<Rightarrow> int ftensor cache_manager res" where
  "demo_cm bt = res_bind (cache_init fun_torch demo_policy 4) (\<lambda>cm. Inr (begin_step cm bt))"

definition demo_rows :: "int ftensor" where
  "demo_rows = \<lparr>ft_shape = [2, 1, 2], ft_dtype = ''float32'', ft_elem = (\<lambda>js. int (sum_list js))\<rparr>"

definition demo_check :: "tables \<Rightarrow> int ftensor cache_manager \<Rightarrow> bool" where
  "demo_check bt cm \<longleftrightarrow> cm_block_tables cm = bt \<and> cm_num_blocks cm = 4 \<and> cm_block_size cm = 2 \<and>
     cm_specs cm = [(''kv'', hd (pp_slabs demo_policy))] \<and> map fst (cm_slabs cm) = [''kv''] \<and>
     ft_shape (snd (hd (cm_slabs cm))) = [4, 2, 2, 1, 2]"

lemma demo_cm_ready:
  assumes "demo_cm bt = Inr cm" "demo_check bt cm"
  shows "\<exists>slab. paged_slab_ok fun_torch cm ''kv'' slab (hd (pp_slabs demo_policy))"
proof -
  obtain slab where "cm_slabs cm = [(''kv'', slab)]" using assms(2) by (auto simp: demo_check_def)
  then show ?thesis using assms(2) by (auto simp: demo_check_def paged_slab_ok_def demo_policy_def)
qed

lemma demo_normalize: "demo_check bt cm \<Longrightarrow> normalize_kv fun_torch cm demo_rows ''kv'' = Inr demo_rows"
  by (simp add: demo_check_def normalize_kv_def dict_index_def drop_batch_def demo_rows_def normalize_heads_def demo_policy_def)

lemma demo_shape: "tc_shape fun_torch demo_rows = [2, unat (ps_num_heads (hd (pp_slabs demo_policy))), unat (ps_head_dim (hd (pp_slabs demo_policy)))]"
  by (simp add: demo_rows_def demo_policy_def)

lemma demo_single: "case demo_cm [(''a'', [2, 0])] of Inl _ \<Rightarrow> False | Inr cm \<Rightarrow> demo_check [(''a'', [2, 0])] cm"
  by code_simp

lemma demo_two: "case demo_cm [(''a'', [2, 0]), (''b'', [1, 3])] of Inl _ \<Rightarrow> False | Inr cm \<Rightarrow> demo_check [(''a'', [2, 0]), (''b'', [1, 3])] cm"
  by code_simp

text \<open>C14: with one request, writing normalised rows at distinct positions its block table covers and
  then reading the layer back succeeds and returns, at each written position, the row written
  there in the element type of the slab.\<close>

theorem cache_write_then_read:
  assumes "torch_lib T" and ok: "paged_slab_ok T cm sid slab spec" and "layer_ok spec layer_idx"
    and bt: "cm_block_tables cm = [(rid, blocks)]" "distinct blocks" "\<forall>b \<in> set blocks. 0 \<le> b \<and> b < cm_num_blocks cm"
    and dn: "normalize_kv T cm data sid = Inr dn" "tc_shape T dn = [n, unat (ps_num_heads spec), unat (ps_head_dim spec)]"
    and ps: "pos_to_list positions = ps" "distinct ps" "length ps \<le> n" "\<forall>p \<in> set ps. 0 \<le> p \<and> p < int (length blocks) * cm_block_size cm"
  shows "\<exists>cm' res. write_paged T cm sid layer_idx data positions = Inr cm' \<and> read_paged T cm' sid layer_idx (int msl) = Inr res \<and>
    (\<forall>i < length ps. ps ! i < int msl \<longrightarrow> tc_get T res [0, ps ! i] = stored_row T slab dn i)"
proof -
  let ?bs = "cm_block_size cm"
  have tb: "tables_in (cm_num_blocks cm) (cm_block_tables cm)" "cm_block_tables cm \<noteq> []" using bt by (auto simp: tables_in_def)
  obtain slab' where w: "write_paged T cm sid layer_idx data positions = Inr (cm\<lparr>cm_slabs := AList.update sid slab' (cm_slabs cm)\<rparr>)"
      "paged_slab_ok T (cm\<lparr>cm_slabs := AList.update sid slab' (cm_slabs cm)\<rparr>) sid slab' spec"
    and cells: "\<And>p off. 0 \<le> p \<Longrightarrow> p < cm_num_blocks cm \<Longrightarrow> 0 \<le> off \<Longrightarrow> off < ?bs \<Longrightarrow> tc_get T slab' [p, layer_idx, off] =
         (case last_writer [(rid, blocks)] ?bs (enum_from 0 ps) (p, off) of
            None \<Rightarrow> tc_get T slab [p, layer_idx, off] | Some i \<Rightarrow> stored_row T slab dn i)"
    using write_paged_cells[OF assms(1-3) tb(2,1) dn, of positions] ps bt(1) by auto
  let ?cm = "cm\<lparr>cm_slabs := AList.update sid slab' (cm_slabs cm)\<rparr>"
  obtain res where r: "read_paged T ?cm sid layer_idx (int msl) = Inr res"
    and rows: "\<And>q. 0 \<le> q \<Longrightarrow> q < int msl \<Longrightarrow> q < int (length blocks) * ?bs \<Longrightarrow>
       tc_get T res [0, q] = tc_get T slab' [blocks ! nat (q div ?bs), layer_idx, q mod ?bs]"
    using read_paged_rows[OF assms(1) w(2) assms(3), of msl] tb bt(1)
    by (auto simp: sorted_tables_def Let_def split: if_splits)
  have bs: "0 < ?bs" using ok by (simp add: paged_slab_ok_def)
  have "tc_get T res [0, ps ! i] = stored_row T slab dn i" if i: "i < length ps" "ps ! i < int msl" for i
  proof -
    let ?q = "ps ! i"
    have q: "0 \<le> ?q" "?q < int (length blocks) * ?bs" using ps(4) i(1) by auto
    note c = cell_of_first(2)[OF bs q]
    have "last_writer [(rid, blocks)] ?bs (enum_from 0 ps) (blocks ! nat (?q div ?bs), ?q mod ?bs) = Some i"
      by (rule last_writer_at[OF bs bt(2) ps(2) i(1) ps(4)])
    then show ?thesis
      using rows[OF q(1) i(2) q(2)] cells[of "blocks ! nat (?q div ?bs)" "?q mod ?bs"] bt(3) nth_mem[OF c] bs by simp
  qed
  then show ?thesis using w(1) r by blast
qed

theorem cache_write_then_read_witness:
  "\<exists>cm slab cm' res. demo_cm [(''a'', [2, 0])] = Inr cm \<and>
     write_paged fun_torch cm ''kv'' 1 demo_rows \<lparr>pt_shape = [2], pt_data = [1, 2]\<rparr> = Inr cm' \<and>
     read_paged fun_torch cm' ''kv'' 1 (int 3) = Inr res \<and> tc_get fun_torch res [0, 2] = stored_row fun_torch slab demo_rows 1"
proof -
  obtain cm where cm: "demo_cm [(''a'', [2, 0])] = Inr cm" "demo_check [(''a'', [2, 0])] cm"
    using res_caseE[OF demo_single] by blast
  obtain slab where ok: "paged_slab_ok fun_torch cm ''kv'' slab (hd (pp_slabs demo_policy))" using demo_cm_ready[OF cm] by blast
  have bt: "cm_block_tables cm = [(''a'', [2, 0])]" "cm_num_blocks cm = 4" "cm_block_size cm = 2"
    using cm(2) by (simp_all add: demo_check_def)
  have "\<exists>cm' res. write_paged fun_torch cm ''kv'' 1 demo_rows \<lparr>pt_shape = [2], pt_data = [1, 2]\<rparr> = Inr cm' \<and>
      read_paged fun_torch cm' ''kv'' 1 (int 3) = Inr res \<and>
      (\<forall>i < length [1::int, 2]. [1, 2] ! i < int 3 \<longrightarrow> tc_get fun_torch res [0, [1, 2] ! i] = stored_row fun_torch slab demo_rows i)"
    by (rule cache_write_then_read[OF fun_torch.torch_lib_axioms ok _ bt(1) _ _ demo_normalize[OF cm(2)] demo_shape])
       (simp_all add: layer_ok_def demo_policy_def bt demo_rows_def pos_to_list_def)
  then obtain cm' res where "write_paged fun_torch cm ''kv'' 1 demo_rows \<lparr>pt_shape = [2], pt_data = [1, 2]\<rparr> = Inr cm'"
      "read_paged fun_torch cm' ''kv'' 1 (int 3) = Inr res"
      "\<forall>i < length [1::int, 2]. [1, 2] ! i < int 3 \<longrightarrow> tc_get fun_torch res [0, [1, 2] ! i] = stored_row fun_torch slab demo_rows i" by blast
  moreover from this(3) have "tc_get fun_torch res [0, 2] = stored_row fun_torch slab demo_rows 1"
    by (elim allE[of _ 1]) simp
  ultimately show ?thesis using cm(1) by blast
qed

text \<open>C36: with several requests, a position goes to the first table that is long enough, whatever
  request its row belongs to.  When the first request's table covers all positions of the batch,
  a request that shares no block with it reads after the write exactly what it read before.\<close>

theorem cache_write_serves_first_request:
  assumes "torch_lib T" and ok: "paged_slab_ok T cm sid slab spec" and "layer_ok spec layer_idx"
    and bt: "cm_block_tables cm = (rid, blocks) # rest" "tables_in (cm_num_blocks cm) (cm_block_tables cm)"
    and dn: "normalize_kv T cm data sid = Inr dn" "tc_shape T dn = [n, unat (ps_num_heads spec), unat (ps_head_dim spec)]"
    and ps: "length (pos_to_list positions) \<le> n" "\<forall>p \<in> set (pos_to_list positions). 0 \<le> p \<and> p < int (length blocks) * cm_block_size cm"
    and k: "k < length (cm_block_tables cm)" "set (snd (sorted_tables (cm_block_tables cm) ! k)) \<inter> set blocks = {}"
  shows "\<exists>cm' old new. write_paged T cm sid layer_idx data positions = Inr cm' \<and>
    read_paged T cm sid layer_idx (int msl) = Inr old \<and> read_paged T cm' sid layer_idx (int msl) = Inr new \<and>
    (\<forall>q. 0 \<le> q \<and> q < int msl \<longrightarrow> tc_get T new [int k, q] = tc_get T old [int k, q])"
proof -
  let ?bs = "cm_block_size cm" and ?tab = "snd (sorted_tables (cm_block_tables cm) ! k)"
  have ne: "cm_block_tables cm \<noteq> []" and bs: "0 < ?bs" using bt ok by (auto simp: paged_slab_ok_def)
  obtain slab' where w: "write_paged T cm sid layer_idx data positions = Inr (cm\<lparr>cm_slabs := AList.update sid slab' (cm_slabs cm)\<rparr>)"
      "paged_slab_ok T (cm\<lparr>cm_slabs := AList.update sid slab' (cm_slabs cm)\<rparr>) sid slab' spec" "tc_dtype T slab' = tc_dtype T slab"
    and cells: "\<And>p off. 0 \<le> p \<Longrightarrow> p < cm_num_blocks cm \<Longrightarrow> 0 \<le> off \<Longrightarrow> off < ?bs \<Longrightarrow> tc_get T slab' [p, layer_idx, off] =
         (case last_writer (cm_block_tables cm) ?bs (enum_from 0 (pos_to_list positions)) (p, off) of
            None \<Rightarrow> tc_get T slab [p, layer_idx, off] | Some i \<Rightarrow> stored_row T slab dn i)"
    using write_paged_cells[OF assms(1-3) ne bt(2) dn, of positions] ps by auto
  let ?cm = "cm\<lparr>cm_slabs := AList.update sid slab' (cm_slabs cm)\<rparr>"
  obtain old where old: "read_paged T cm sid layer_idx (int msl) = Inr old"
    and rold: "\<And>q. 0 \<le> q \<Longrightarrow> q < int msl \<Longrightarrow> tc_get T old [int k, q] =
       (if q < int (length ?tab) * ?bs then tc_get T slab [?tab ! nat (q div ?bs), layer_idx, q mod ?bs]
        else tc_zeros T (tc_dtype T slab) [uint (ps_num_heads spec), uint (ps_head_dim spec)])"
    using read_paged_rows[OF assms(1-3) ne bt(2), of msl] k(1) unfolding Let_def by blast
  obtain new where new: "read_paged T ?cm sid layer_idx (int msl) = Inr new"
    and rnew: "\<And>q. 0 \<le> q \<Longrightarrow> q < int msl \<Longrightarrow> tc_get T new [int k, q] =
       (if q < int (length ?tab) * ?bs then tc_get T slab' [?tab ! nat (q div ?bs), layer_idx, q mod ?bs]
        else tc_zeros T (tc_dtype T slab) [uint (ps_num_heads spec), uint (ps_head_dim spec)])"
    using read_paged_rows[OF assms(1) w(2) assms(3), of msl] ne bt(2) k(1) w(3) unfolding Let_def by auto
  have same: "tc_get T slab' [?tab ! nat (q div ?bs), layer_idx, q mod ?bs] = tc_get T slab [?tab ! nat (q div ?bs), layer_idx, q mod ?bs]"
    if q: "0 \<le> q" "q < int (length ?tab) * ?bs" for q
  proof -
    have mem: "?tab ! nat (q div ?bs) \<in> set ?tab" using nth_mem[OF cell_of_first(2)[OF bs q]] .
    have "last_writer (cm_block_tables cm) ?bs (enum_from 0 (pos_to_list positions)) (?tab ! nat (q div ?bs), q mod ?bs) = None"
      using last_writer_disjoint[OF bs ps(2)] mem k(2) bt(1) by (metis disjoint_iff)
    moreover have "0 \<le> ?tab ! nat (q div ?bs) \<and> ?tab ! nat (q div ?bs) < cm_num_blocks cm"
      by (rule sorted_table_range[OF bt(2) k(1) mem])
    ultimately show ?thesis using cells bs by simp
  qed
  then have "tc_get T new [int k, q] = tc_get T old [int k, q]" if "0 \<le> q" "q < int msl" for q
    using rold[OF that] rnew[OF that] same that by simp
  then show ?thesis using w(1) old new by blast
qed

theorem cache_write_serves_first_request_witness:
  "\<exists>cm cm' old new. demo_cm [(''a'', [2, 0]), (''b'', [1, 3])] = Inr cm \<and>
     write_paged fun_torch cm ''kv'' 1 demo_rows \<lparr>pt_shape = [2], pt_data = [1, 1]\<rparr> = Inr cm' \<and>
     read_paged fun_torch cm ''kv'' 1 (int 3) = Inr old \<and> read_paged fun_torch cm' ''kv'' 1 (int 3) = Inr new \<and>
     tc_get fun_torch new [int 1, 1] = tc_get fun_torch old [int 1, 1]"
proof -
  let ?bt = "[(''a'', [2, 0]), (''b'', [1, 3])] :: tables"
  obtain cm where cm: "demo_cm ?bt = Inr cm" "demo_check ?bt cm"
    using res_caseE[OF demo_two] by blast
  obtain slab where ok: "paged_slab_ok fun_torch cm ''kv'' slab (hd (pp_slabs demo_policy))" using demo_cm_ready[OF cm] by blast
  have bt: "cm_block_tables cm = ?bt" "cm_num_blocks cm = 4" "cm_block_size cm = 2"
    using cm(2) by (simp_all add: demo_check_def)
  have srt: "sorted_tables ?bt = ?bt" by (simp add: sorted_tables_def)
  have "\<exists>cm' old new. write_paged fun_torch cm ''kv'' 1 demo_rows \<lparr>pt_shape = [2], pt_data = [1, 1]\<rparr> = Inr cm' \<and>
      read_paged fun_torch cm ''kv'' 1 (int 3) = Inr old \<and> read_paged fun_torch cm' ''kv'' 1 (int 3) = Inr new \<and>
      (\<forall>q. 0 \<le> q \<and> q < int 3 \<longrightarrow> tc_get fun_torch new [int 1, q] = tc_get fun_torch old [int 1, q])"
    by (rule cache_write_serves_first_request[OF fun_torch.torch_lib_axioms ok _ bt(1) _ demo_normalize[OF cm(2)] demo_shape])
       (simp_all add: layer_ok_def demo_policy_def bt demo_rows_def pos_to_list_def tables_in_def srt)
  then show ?thesis using cm(1) by fastforce
qed

text \<open>The locales of a slab on the example.\<close>

interpretation demo_rows_io: slab_rows fun_torch 1 4 2 2 1 2 "''float16''" demo_rows 2
  by unfold_locales (simp_all add: demo_rows_def)

interpretation demo_gather: slab_gather fun_torch 1 4 2 2 1 2 "''float32''"
  "\<lparr>ft_shape = [4, 2, 2, 1, 2], ft_dtype = ''float32'', ft_elem = (\<lambda>_. 0)\<rparr>" 1 3
  by unfold_locales (simp add: slab_layer.slab_ok_def[OF demo_rows_io.slab_layer_axioms])

text \<open>The shapes that normalisation accepts.  Data of shape [heads, seq, dim] is transposed to one
  row per position, data of shape [seq, heads, dim] is kept unless seq = heads, and
  [seq, heads * dim] is regrouped.  Rows that are already in [seq, heads, dim] form with
  seq = heads match the first case and are transposed.\<close>

theorem normalize_kv_formats:
  assumes "torch_lib T" and "0 < nkh" and "0 < hdim"
  shows "(tc_shape T t = [nkh, sq, hdim] \<longrightarrow>
      (\<exists>u. normalize_heads T (int nkh) (int hdim) t = Inr u \<and> tc_shape T u = [sq, nkh, hdim] \<and>
         (\<forall>p < sq. \<forall>h < nkh. tc_get T u [int p, int h] = tc_get T t [int h, int p]))) \<and>
    (tc_shape T t = [sq, nkh, hdim] \<longrightarrow> sq \<noteq> nkh \<longrightarrow> normalize_heads T (int nkh) (int hdim) t = Inr t) \<and>
    (tc_shape T t = [sq, nkh * hdim] \<longrightarrow>
      (\<exists>u. normalize_heads T (int nkh) (int hdim) t = Inr u \<and> tc_shape T u = [sq, nkh, hdim]))"
proof (intro conjI impI)
  assume t: "tc_shape T t = [nkh, sq, hdim]"
  then have "normalize_heads T (int nkh) (int hdim) t = tc_permute102 T t" by (simp add: normalize_heads_def)
  then show "\<exists>u. normalize_heads T (int nkh) (int hdim) t = Inr u \<and> tc_shape T u = [sq, nkh, hdim] \<and>
         (\<forall>p < sq. \<forall>h < nkh. tc_get T u [int p, int h] = tc_get T t [int h, int p])"
    using torch_lib.permute_ok[OF assms(1) t] by auto
next
  assume "tc_shape T t = [sq, nkh, hdim]" "sq \<noteq> nkh"
  then show "normalize_heads T (int nkh) (int hdim) t = Inr t" by (simp add: normalize_heads_def)
next
  assume t: "tc_shape T t = [sq, nkh * hdim]"
  then have "normalize_heads T (int nkh) (int hdim) t = tc_reshape3 T t (int nkh) (int hdim)" by (simp add: normalize_heads_def)
  then show "\<exists>u. normalize_heads T (int nkh) (int hdim) t = Inr u \<and> tc_shape T u = [sq, nkh, hdim]"
    using torch_lib.reshape_ok[OF assms] t by simp
qed

theorem normalize_kv_formats_witness:
  "\<exists>u. normalize_heads fun_torch (int 2) (int 1) \<lparr>ft_shape = [2, 2, 1], ft_dtype = ''float32'', ft_elem = (\<lambda>js. int (js ! 0))\<rparr> = Inr u \<and>
     tc_get fun_torch u [int 0, int 1] = tc_get fun_torch \<lparr>ft_shape = [2, 2, 1], ft_dtype = ''float32'', ft_elem = (\<lambda>js. int (js ! 0))\<rparr> [int 1, int 0]"
proof -
  let ?t = "\<lparr>ft_shape = [2, 2, 1], ft_dtype = ''float32'', ft_elem = (\<lambda>js. int (js ! 0))\<rparr> :: int ftensor"
  have "tc_shape fun_torch ?t = [2, 2, 1]" by simp
  then obtain u where u: "normalize_heads fun_torch (int 2) (int 1) ?t = Inr u"
      "\<forall>p < 2. \<forall>h < 2. tc_get fun_torch u [int p, int h] = tc_get fun_torch ?t [int h, int p]"
    using normalize_kv_formats[OF fun_torch.torch_lib_axioms, of 2 1 ?t 2] by auto
  have "tc_get fun_torch u [int 0, int 1] = tc_get fun_torch ?t [int 1, int 0]"
    using u(2)[rule_format, of 0 1] by simp
  then show ?thesis using u(1) by blast
qed

text \<open>A sequence of \<open>resolve_layer\<close> calls.\<close>

fun resolve_all :: "'t cache_manager \<Rightarrow> string list \<Rightarrow> ('t cache_manager \<times> int list) res" where
  "resolve_all cm [] = Inr (cm, [])"
| "resolve_all cm (sid # sids) =
     res_bind (resolve_layer cm sid) (\<lambda>(cm', l). res_bind (resolve_all cm' sids) (\<lambda>(cm'', ls). Inr (cm'', l # ls)))"

lemma resolve_all_from:
  assumes "\<forall>sid \<in> set sids. dict_has (cm_layer_counters cm) sid"
  shows "\<exists>cm' ls. resolve_all cm sids = Inr (cm', ls) \<and> length ls = length sids \<and>
    (\<forall>i < length sids. ls ! i = the (map_of (cm_layer_counters cm) (sids ! i)) + int (count_list (take i sids) (sids ! i)))"
  using assms
proof (induction sids arbitrary: cm)
  case (Cons sid sids)
  obtain l where l: "map_of (cm_layer_counters cm) sid = Some l" using Cons.prems by auto
  let ?cm = "cm\<lparr>cm_layer_counters := AList.update sid (l + 1) (cm_layer_counters cm)\<rparr>"
  have r: "resolve_layer cm sid = Inr (?cm, l)" using l by (simp add: resolve_layer_def dict_index_def)
  obtain cm' ls where ih: "resolve_all ?cm sids = Inr (cm', ls)" "length ls = length sids"
    "\<forall>i < length sids. ls ! i = the (map_of (cm_layer_counters ?cm) (sids ! i)) + int (count_list (take i sids) (sids ! i))"
  proof -
    have "\<forall>sid' \<in> set sids. dict_has (cm_layer_counters ?cm) sid'" using Cons.prems by simp
    then show ?thesis using Cons.IH[of ?cm] that by blast
  qed
  have "(l # ls) ! i = the (map_of (cm_layer_counters cm) ((sid # sids) ! i)) + int (count_list (take i (sid # sids)) ((sid # sids) ! i))"
    if "i < length (sid # sids)" for i
  proof (cases i)
    case 0
    then show ?thesis using l by simp
  next
    case (Suc j)
    then show ?thesis using that l ih(3) by auto
  qed
  then show ?case using r ih(1,2) by auto
qed simp

text \<open>After \<open>begin_step\<close> every slab hands out its layers in order: the call for a slab returns the
  number of earlier calls for the same slab in this step, whatever calls for other slabs come in
  between.\<close>

theorem layers_resolved_in_order:
  assumes "\<forall>sid \<in> set sids. dict_has (cm_layer_counters cm) sid"
  shows "\<exists>cm' ls. resolve_all (begin_step cm bt) sids = Inr (cm', ls) \<and> length ls = length sids \<and>
    (\<forall>i < length sids. ls ! i = int (count_list (take i sids) (sids ! i)))"
proof -
  have zero: "map_of (cm_layer_counters (begin_step cm bt)) sid = (if dict_has (cm_layer_counters cm) sid then Some 0 else None)" for sid
    by (induction "cm_layer_counters cm" arbitrary: cm rule: list.induct)
       (auto simp: begin_step_def map_of_map[of "\<lambda>_. 0", simplified comp_def])
  then show ?thesis using resolve_all_from[of sids "begin_step cm bt"] assms nth_mem by fastforce
qed

theorem layers_resolved_in_order_witness:
  "\<exists>cm cm' ls. demo_cm [(''a'', [2, 0])] = Inr cm \<and> resolve_all (begin_step cm []) [''kv'', ''kv''] = Inr (cm', ls) \<and> ls ! 1 = 1"
proof -
  have "case demo_cm [(''a'', [2, 0])] of Inl _ \<Rightarrow> False | Inr cm \<Rightarrow> map_of (cm_layer_counters cm) ''kv'' = Some 0" by code_simp
  then obtain cm where cm: "demo_cm [(''a'', [2, 0])] = Inr cm" "map_of (cm_layer_counters cm) ''kv'' = Some 0"
    using res_caseE by blast
  then have "\<forall>sid \<in> set [''kv'', ''kv'']. dict_has (cm_layer_counters cm) sid" by simp
  from layers_resolved_in_order[OF this, of "[]"] show ?thesis using cm(1) by fastforce
qed

end
