(* ===== verification/Kv_Cache.thy ===== *)
theory Kv_Cache
  imports Cache_Manager
begin

text \<open>
  The key/value cache mixed into the executors, \<open>python_runtime/engine/_kv_cache.py\<close>: one tensor
  [blocks, layers, 2, block size, heads, dim] that holds keys at index 0 and values at index 1 of
  its third dimension.  Its loops are those of the paged store with pairs of rows.
\<close>


section \<open>State and operations\<close>

record 't kv_mixin =
  kv_cache :: "'t option"
  kv_block_tables :: tables
  kv_block_size :: int
  kv_num_kv_heads :: int
  kv_head_dim :: int

definition set_kv_cache ::
  "'t option \<Rightarrow> tables option \<Rightarrow> int \<Rightarrow> int \<Rightarrow> int \<Rightarrow> 't kv_mixin \<Rightarrow> 't kv_mixin" where
  "set_kv_cache cache bt bs nkh hdim m =
     m\<lparr>kv_cache := cache, kv_block_tables := (case bt of None \<Rightarrow> [] | Some t \<Rightarrow> t), kv_block_size := bs,
       kv_num_kv_heads := nkh, kv_head_dim := hdim\<rparr>"

definition prepare_kv_blocks :: "'t torch \<Rightarrow> int \<Rightarrow> int \<Rightarrow> int \<Rightarrow> int \<Rightarrow> int \<Rightarrow> string \<Rightarrow> 't res" where
  "prepare_kv_blocks T num_layers nkh hdim bs num_blocks dt =
     tc_zeros T dt [num_blocks, num_layers, 2, bs, nkh, hdim]"

definition max_seq_from_tables :: "'t kv_mixin \<Rightarrow> tables \<Rightarrow> int" where
  "max_seq_from_tables m bt = foldl (\<lambda>total blocks. max total (int (length blocks))) 0 (map snd bt) * kv_block_size m"

text \<open>\<open>positions.tolist()\<close> is nested for more than one dimension, and \<open>//\<close> on a list raises.\<close>

definition flat_positions :: "pos_tensor \<Rightarrow> int list res" where
  "flat_positions p =
     (if length (pt_shape p) = 0 then Inr [pt_data p ! 0]
      else if length (pt_shape p) = 1 then Inr (pt_data p)
      else if pt_shape p ! 0 = 0 then Inr []
      else Inl TypeError)"

definition kv_put :: "'t torch \<Rightarrow> 't \<Rightarrow> 't \<Rightarrow> int \<Rightarrow> 't \<Rightarrow> int \<Rightarrow> int \<Rightarrow> nat \<Rightarrow> 't res" where
  "kv_put T key val layer_idx cache phys_id off i =
     res_bind (tc_get T key [int i]) (\<lambda>k.
     res_bind (tc_set T cache [phys_id, layer_idx, 0, off] k) (\<lambda>cache.
     res_bind (tc_get T val [int i]) (\<lambda>v.
     tc_set T cache [phys_id, layer_idx, 1, off] v)))"

definition write_kv_flat :: "'t torch \<Rightarrow> 't kv_mixin \<Rightarrow> 't \<Rightarrow> 't \<Rightarrow> pos_tensor \<Rightarrow> tables \<Rightarrow> int \<Rightarrow> 't kv_mixin res" where
  "write_kv_flat T m key val positions bt layer_idx =
     (case kv_cache m of
        None \<Rightarrow> Inr m
      | Some cache \<Rightarrow>
          res_bind (flat_positions positions) (\<lambda>pos_list.
          res_bind (paged_write (kv_put T key val layer_idx) (kv_block_size m) bt pos_list cache) (\<lambda>cache'.
          Inr (m\<lparr>kv_cache := Some cache'\<rparr>))))"

definition kv_copy :: "'t torch \<Rightarrow> 't \<Rightarrow> int \<Rightarrow> 't \<times> 't \<Rightarrow> nat \<Rightarrow> int \<Rightarrow> int \<Rightarrow> int \<Rightarrow> ('t \<times> 't) res" where
  "kv_copy T cache layer_idx result req_idx start fin phys_id =
     res_bind (tc_slice T cache [phys_id, layer_idx, 0] 0 (fin - start)) (\<lambda>k.
     res_bind (tc_set_slice T (fst result) [int req_idx] start fin k) (\<lambda>key.
     res_bind (tc_slice T cache [phys_id, layer_idx, 1] 0 (fin - start)) (\<lambda>v.
     res_bind (tc_set_slice T (snd result) [int req_idx] start fin v) (\<lambda>val.
     Inr (key, val)))))"

definition gather_kv_flat :: "'t torch \<Rightarrow> 't kv_mixin \<Rightarrow> tables \<Rightarrow> int \<Rightarrow> int \<Rightarrow> ('t \<times> 't) res" where
  "gather_kv_flat T m bt max_seq_len layer_idx =
     (case kv_cache m of
        None \<Rightarrow> Inl RuntimeError
      | Some cache \<Rightarrow>
          if bt = [] then Inl RuntimeError
          else res_bind (tc_zeros T (tc_dtype T cache) [int (length bt), max_seq_len, kv_num_kv_heads m, kv_head_dim m]) (\<lambda>key.
               res_bind (tc_zeros T (tc_dtype T cache) [int (length bt), max_seq_len, kv_num_kv_heads m, kv_head_dim m]) (\<lambda>val.
               paged_read (kv_copy T cache layer_idx) (kv_block_size m) max_seq_len bt (key, val))))"

definition write_kv_to_cache :: "'t torch \<Rightarrow> 't kv_mixin \<Rightarrow> 't \<Rightarrow> 't \<Rightarrow> pos_tensor \<Rightarrow> tables \<Rightarrow> int \<Rightarrow> 't kv_mixin res" where
  "write_kv_to_cache T m key val positions bt layer_idx = write_kv_flat T m key val positions bt layer_idx"

definition gather_kv_from_cache :: "'t torch \<Rightarrow> 't kv_mixin \<Rightarrow> tables \<Rightarrow> int \<Rightarrow> int \<Rightarrow> ('t \<times> 't) res" where
  "gather_kv_from_cache T m bt max_seq_len layer_idx = gather_kv_flat T m bt max_seq_len layer_idx"

text \<open>The shape of the key decides what is done to both.\<close>

definition normalize_kv_for_cache :: "'t torch \<Rightarrow> 't \<Rightarrow> 't \<Rightarrow> int \<Rightarrow> int \<Rightarrow> ('t \<times> 't) res" where
  "normalize_kv_for_cache T k v nkh hdim =
     (let b = length (tc_shape T k) \<ge> 4 \<and> tc_shape T k ! 0 = 1;
          k = (if b then tc_squeeze0 T k else k); v = (if b then tc_squeeze0 T v else v);
          s = tc_shape T k;
          both = (\<lambda>f. res_bind (f k) (\<lambda>k'. res_bind (f v) (\<lambda>v'. Inr (k', v'))))
      in if length s = 3 \<and> int (s ! 0) = nkh \<and> int (last s) = hdim then both (tc_permute102 T)
         else if length s = 3 \<and> int (s ! 1) = nkh \<and> int (last s) = hdim then Inr (k, v)
         else if length s = 2 \<and> int (last s) = nkh * hdim then both (\<lambda>t. tc_reshape3 T t nkh hdim)
         else if length s = 3 \<and> int (last s) = nkh * hdim then both (\<lambda>t. tc_reshape3 T t nkh hdim)
         else Inr (k, v))"


section \<open>Pairs of rows as cells\<close>

locale kv_layer = torch_lib T for T :: "'t torch" +
  fixes layer_idx :: int and nb nl bs nkh hdim :: nat and dt :: string
  assumes kv_layer_range: "0 \<le> layer_idx" "layer_idx < int nl"
begin

definition kv_ok :: "'t \<Rightarrow> bool" where
  "kv_ok cache \<longleftrightarrow> tc_shape T cache = [nb, nl, 2, bs, nkh, hdim] \<and> tc_dtype T cache = dt"

definition kv_cell :: "'t \<Rightarrow> int \<Rightarrow> int \<Rightarrow> ('t res \<times> 't res) res" where
  "kv_cell s p off = Inr (tc_get T s [p, layer_idx, 0, off], tc_get T s [p, layer_idx, 1, off])"

lemma kv_path:
  assumes "kv_ok cache" "0 \<le> p" "p < int nb" "0 \<le> off" "off < int bs" "c = 0 \<or> c = 1"
  shows "t_path (tc_shape T cache) [p, layer_idx, c, off] = Some [nat p, nat layer_idx, nat c, nat off]"
  using assms kv_layer_range by (auto simp: kv_ok_def py_pos_def)

lemma kv_set:
  assumes "kv_ok s" "0 \<le> p" "p < int nb" "0 \<le> off" "off < int bs" "c = 0 \<or> c = 1" "tc_shape T r = [nkh, hdim]"
  shows "\<exists>s'. tc_set T s [p, layer_idx, c, off] r = Inr s' \<and> kv_ok s' \<and> tc_get T s' [p, layer_idx, c, off] = Inr (tc_to T dt r) \<and>
    (\<forall>p' c' off'. 0 \<le> p' \<longrightarrow> p' < int nb \<longrightarrow> 0 \<le> off' \<longrightarrow> off' < int bs \<longrightarrow> c' = 0 \<or> c' = 1 \<longrightarrow> (p', c', off') \<noteq> (p, c, off) \<longrightarrow>
       tc_get T s' [p', layer_idx, c', off'] = tc_get T s [p', layer_idx, c', off'])"
proof -
  have sh: "tc_shape T r = drop (length [p, layer_idx, c, off]) (tc_shape T s)" using assms(1,7) by (simp add: kv_ok_def)
  note path = kv_path[OF assms(1-6)]
  obtain s' where s': "tc_set T s [p, layer_idx, c, off] r = Inr s'" using set_ok[OF _ sh] path by auto
  have "tc_get T s' [p', layer_idx, c', off'] = tc_get T s [p', layer_idx, c', off']"
    if q: "0 \<le> p'" "p' < int nb" "0 \<le> off'" "off' < int bs" "c' = 0 \<or> c' = 1" "(p', c', off') \<noteq> (p, c, off)" for p' c' off'
  proof -
    have "[nat p, nat layer_idx, nat c, nat off] \<noteq> [nat p', nat layer_idx, nat c', nat off']" using q assms(2-6) by auto
    then show ?thesis using get_set_other[OF s' sh path kv_path[OF assms(1) q(1-5)]] by simp
  qed
  moreover have "kv_ok s'" using set_shape[OF s'] set_dtype[OF s'] assms(1) by (simp add: kv_ok_def)
  moreover have "tc_get T s' [p, layer_idx, c, off] = Inr (tc_to T dt r)" using get_set_same[OF s' sh] assms(1) by (simp add: kv_ok_def)
  ultimately show ?thesis using s' by blast
qed

end

locale kv_rows = kv_layer T layer_idx nb nl bs nkh hdim dt
  for T :: "'t torch" and layer_idx nb nl bs nkh hdim dt +
  fixes key val :: 't and n :: nat
  assumes kv_shapes: "tc_shape T key = [n, nkh, hdim]" "tc_shape T val = [n, nkh, hdim]"
begin

definition kv_src :: "nat \<Rightarrow> ('t res \<times> 't res) res" where
  "kv_src i = Inr (res_bind (tc_get T key [int i]) (\<lambda>r. Inr (tc_to T dt r)), res_bind (tc_get T val [int i]) (\<lambda>r. Inr (tc_to T dt r)))"

lemma kv_put_spec:
  assumes "kv_ok s" "0 \<le> p" "p < int nb" "0 \<le> off" "off < int bs" "i < n"
  shows "\<exists>s'. kv_put T key val layer_idx s p off i = Inr s' \<and> kv_ok s' \<and> kv_cell s' p off = kv_src i \<and>
    (\<forall>p' off'. 0 \<le> p' \<longrightarrow> p' < int nb \<longrightarrow> 0 \<le> off' \<longrightarrow> off' < int bs \<longrightarrow> (p', off') \<noteq> (p, off) \<longrightarrow>
       kv_cell s' p' off' = kv_cell s p' off')"
proof -
  obtain k v where kv: "tc_get T key [int i] = Inr k" "tc_shape T k = [nkh, hdim]" "tc_get T val [int i] = Inr v" "tc_shape T v = [nkh, hdim]"
    using get_ok[of key "[int i]"] get_ok[of val "[int i]"] kv_shapes assms(6) by auto
  obtain s1 where s1: "tc_set T s [p, layer_idx, 0, off] k = Inr s1" "kv_ok s1" "tc_get T s1 [p, layer_idx, 0, off] = Inr (tc_to T dt k)"
    and o1: "\<forall>p' c' off'. 0 \<le> p' \<longrightarrow> p' < int nb \<longrightarrow> 0 \<le> off' \<longrightarrow> off' < int bs \<longrightarrow> c' = 0 \<or> c' = 1 \<longrightarrow> (p', c', off') \<noteq> (p, 0, off) \<longrightarrow>
       tc_get T s1 [p', layer_idx, c', off'] = tc_get T s [p', layer_idx, c', off']"
    using kv_set[OF assms(1-5) _ kv(2), of 0] by auto
  obtain s2 where s2: "tc_set T s1 [p, layer_idx, 1, off] v = Inr s2" "kv_ok s2" "tc_get T s2 [p, layer_idx, 1, off] = Inr (tc_to T dt v)"
    and o2: "\<forall>p' c' off'. 0 \<le> p' \<longrightarrow> p' < int nb \<longrightarrow> 0 \<le> off' \<longrightarrow> off' < int bs \<longrightarrow> c' = 0 \<or> c' = 1 \<longrightarrow> (p', c', off') \<noteq> (p, 1, off) \<longrightarrow>
       tc_get T s2 [p', layer_idx, c', off'] = tc_get T s1 [p', layer_idx, c', off']"
    using kv_set[OF s1(2) assms(2-5) _ kv(4), of 1] by auto
  have "kv_put T key val layer_idx s p off i = Inr s2" using kv s1(1) s2(1) by (simp add: kv_put_def)
  moreover have "kv_cell s2 p off = kv_src i"
    using s1(3) s2(3) o2[rule_format, of p off 0] assms(2-5) kv by (simp add: kv_cell_def kv_src_def)
  moreover have "kv_cell s2 p' off' = kv_cell s p' off'"
    if "0 \<le> p'" "p' < int nb" "0 \<le> off'" "off' < int bs" "(p', off') \<noteq> (p, off)" for p' off'
    using o1 o2 that by (simp add: kv_cell_def)
  ultimately show ?thesis using s2(2) by blast
qed

end

sublocale kv_rows \<subseteq> kv_writes: cell_store "kv_put T key val layer_idx" kv_cell kv_src kv_ok "int nb" "int bs" n
proof (unfold_locales, goal_cases)
  case (1 s p off i)
  then show ?case using kv_put_spec[of s p off i] by blast
next
  case (2 s p off i s')
  then show ?case using kv_put_spec[of s p off i] by auto
next
  case (3 s p off i s' p' off')
  then show ?case using kv_put_spec[of s p off i] by auto
qed

context kv_rows
begin

lemmas kv_rows_written = kv_writes.paged_write_rows

end

locale kv_gather = kv_layer T layer_idx nb nl bs nkh hdim dt
  for T :: "'t torch" and layer_idx nb nl bs nkh hdim dt +
  fixes cache :: 't and num_reqs :: nat and max_seq_len :: nat
  assumes kv_cache_ok: "kv_ok cache"
begin

definition kv_result_ok :: "'t \<times> 't \<Rightarrow> bool" where
  "kv_result_ok d \<longleftrightarrow> (\<forall>x \<in> {fst d, snd d}. tc_shape T x = [num_reqs, max_seq_len, nkh, hdim] \<and> tc_dtype T x = dt)"

definition kv_out :: "'t \<times> 't \<Rightarrow> nat \<Rightarrow> int \<Rightarrow> ('t res \<times> 't res) res" where
  "kv_out d r q = Inr (tc_get T (fst d) [int r, q], tc_get T (snd d) [int r, q])"

lemma kv_copy_spec:
  assumes "kv_result_ok d" "r < num_reqs" "0 \<le> p" "p < int nb" "0 \<le> start" "start < fin" "fin \<le> int max_seq_len" "fin - start \<le> int bs"
  shows "\<exists>d'. kv_copy T cache layer_idx d r start fin p = Inr d' \<and> kv_result_ok d' \<and>
    (\<forall>r' q. r' < num_reqs \<longrightarrow> 0 \<le> q \<longrightarrow> q < int max_seq_len \<longrightarrow>
       kv_out d' r' q = (if r' = r \<and> start \<le> q \<and> q < fin then kv_cell cache p (q - start) else kv_out d r' q))"
proof -
  have path: "t_path (tc_shape T cache) [p, layer_idx, c] \<noteq> None" "drop (length [p, layer_idx, c]) (tc_shape T cache) = bs # [nkh, hdim]"
    if "c = 0 \<or> c = 1" for c using that kv_cache_ok kv_layer_range assms(3,4) by (auto simp: kv_ok_def py_pos_def)
  have d: "tc_shape T x = num_reqs # max_seq_len # [nkh, hdim]" "tc_dtype T x = tc_dtype T cache" if "x \<in> {fst d, snd d}" for x
    using that assms(1) kv_cache_ok by (auto simp: kv_result_ok_def kv_ok_def)
  note k = copy_rows[OF path(1)[of 0] path(2)[of 0] d(1)[of "fst d"] d(2)[of "fst d"] assms(2,5-8)]
    and v = copy_rows[OF path(1)[of 1] path(2)[of 1] d(1)[of "snd d"] d(2)[of "snd d"] assms(2,5-8)]
  show ?thesis
    using k v assms(1) by (auto simp: kv_copy_def kv_result_ok_def kv_out_def kv_cell_def)
qed

end

sublocale kv_gather \<subseteq> kv_reads: row_copy "kv_copy T cache layer_idx" kv_out "kv_cell cache" kv_result_ok "int nb" "int bs"
  num_reqs "int max_seq_len"
  by unfold_locales (rule kv_copy_spec)

context kv_gather
begin

lemmas kv_rows_read = kv_reads.paged_read_rows

end


section \<open>Properties\<close>

definition kv_mixin_ok :: "'t torch \<Rightarrow> 't kv_mixin \<Rightarrow> 't \<Rightarrow> nat \<Rightarrow> nat \<Rightarrow> bool" where
  "kv_mixin_ok T m cache nb nl \<longleftrightarrow>
     kv_cache m = Some cache \<and> 0 < kv_block_size m \<and> 0 \<le> kv_num_kv_heads m \<and> 0 \<le> kv_head_dim m \<and>
     tc_shape T cache = [nb, nl, 2, nat (kv_block_size m), nat (kv_num_kv_heads m), nat (kv_head_dim m)]"

lemma kv_layerI: "torch_lib T \<Longrightarrow> 0 \<le> l \<Longrightarrow> l < int nl \<Longrightarrow> kv_layer T l nl"
  by (simp add: kv_layer_def kv_layer_axioms_def)

lemma write_kv_flat_cells:
  assumes T: "torch_lib T" and ok: "kv_mixin_ok T m cache nb nl" and l: "0 \<le> l" "l < int nl"
    and bt: "tables_in (int nb) bt" and ps: "flat_positions positions = Inr ps" "\<forall>p \<in> set ps. 0 \<le> p" "length ps \<le> n"
    and kv: "tc_shape T key = [n, nat (kv_num_kv_heads m), nat (kv_head_dim m)]" "tc_shape T val = [n, nat (kv_num_kv_heads m), nat (kv_head_dim m)]"
  shows "\<exists>cache'. write_kv_flat T m key val positions bt l = Inr (m\<lparr>kv_cache := Some cache'\<rparr>) \<and>
    kv_mixin_ok T (m\<lparr>kv_cache := Some cache'\<rparr>) cache' nb nl \<and>
    (\<forall>p off. 0 \<le> p \<and> p < int nb \<and> 0 \<le> off \<and> off < kv_block_size m \<longrightarrow>
       (case last_writer bt (kv_block_size m) (enum_from 0 ps) (p, off) of
          None \<Rightarrow> tc_get T cache' [p, l, 0, off] = tc_get T cache [p, l, 0, off] \<and> tc_get T cache' [p, l, 1, off] = tc_get T cache [p, l, 1, off]
        | Some i \<Rightarrow> tc_get T cache' [p, l, 0, off] = stored_row T cache key i \<and> tc_get T cache' [p, l, 1, off] = stored_row T cache val i))"
proof -
  let ?bs = "nat (kv_block_size m)" and ?h = "nat (kv_num_kv_heads m)" and ?d = "nat (kv_head_dim m)" and ?dt = "tc_dtype T cache"
  have lay: "kv_layer T l nl" by (rule kv_layerI[OF T l])
  have L: "kv_rows T l nl ?h ?d key val n" using lay kv by (simp add: kv_rows_def kv_rows_axioms_def)
  have bs: "int ?bs = kv_block_size m" "0 < int ?bs" using ok by (auto simp: kv_mixin_ok_def)
  have so: "kv_layer.kv_ok T nb nl ?bs ?h ?d ?dt s \<longleftrightarrow> tc_shape T s = tc_shape T cache \<and> tc_dtype T s = ?dt" for s
    using ok kv_layer.kv_ok_def[OF lay] by (simp add: kv_mixin_ok_def)
  have src: "kv_rows.kv_src T ?dt key val i = Inr (stored_row T cache key i, stored_row T cache val i)" for i
    by (simp add: kv_rows.kv_src_def[OF L] stored_row_def)
  obtain c' where c': "paged_write (kv_put T key val l) (kv_block_size m) bt ps cache = Inr c'"
      "tc_shape T c' = tc_shape T cache" "tc_dtype T c' = ?dt"
    and rows: "\<forall>p off. 0 \<le> p \<and> p < int nb \<and> 0 \<le> off \<and> off < kv_block_size m \<longrightarrow>
       kv_layer.kv_cell T l c' p off = (case last_writer bt (kv_block_size m) (enum_from 0 ps) (p, off) of
            None \<Rightarrow> kv_layer.kv_cell T l cache p off | Some i \<Rightarrow> Inr (stored_row T cache key i, stored_row T cache val i))"
    using kv_rows.kv_rows_written[OF L, of nb ?bs ?dt cache, OF _ bs(2) bt ps(2,3)] unfolding so bs(1) src by blast
  have "write_kv_flat T m key val positions bt l = Inr (m\<lparr>kv_cache := Some c'\<rparr>)"
    using ok c'(1) ps(1) by (simp add: write_kv_flat_def kv_mixin_ok_def)
  moreover have "kv_mixin_ok T (m\<lparr>kv_cache := Some c'\<rparr>) c' nb nl" using ok c'(2) by (simp add: kv_mixin_ok_def)
  moreover have "case last_writer bt (kv_block_size m) (enum_from 0 ps) (p, off) of
          None \<Rightarrow> tc_get T c' [p, l, 0, off] = tc_get T cache [p, l, 0, off] \<and> tc_get T c' [p, l, 1, off] = tc_get T cache [p, l, 1, off]
        | Some i \<Rightarrow> tc_get T c' [p, l, 0, off] = stored_row T cache key i \<and> tc_get T c' [p, l, 1, off] = stored_row T cache val i"
    if "0 \<le> p \<and> p < int nb \<and> 0 \<le> off \<and> off < kv_block_size m" for p off
    using rows[rule_format, OF that] unfolding kv_layer.kv_cell_def[OF lay]
    by (cases "last_writer bt (kv_block_size m) (enum_from 0 ps) (p, off)") simp_all
  ultimately show ?thesis by blast
qed

lemma gather_kv_flat_rows:
  assumes T: "torch_lib T" and ok: "kv_mixin_ok T m cache nb nl" and l: "0 \<le> l" "l < int nl"
    and bt: "bt \<noteq> []" "tables_in (int nb) bt"
  shows "\<exists>k v. gather_kv_flat T m bt (int msl) l = Inr (k, v) \<and>
    (\<forall>r q. r < length bt \<longrightarrow> 0 \<le> q \<longrightarrow> q < int msl \<longrightarrow> q < int (length (snd (sorted_tables bt ! r))) * kv_block_size m \<longrightarrow>
       tc_get T k [int r, q] = tc_get T cache [snd (sorted_tables bt ! r) ! nat (q div kv_block_size m), l, 0, q mod kv_block_size m] \<and>
       tc_get T v [int r, q] = tc_get T cache [snd (sorted_tables bt ! r) ! nat (q div kv_block_size m), l, 1, q mod kv_block_size m])"
proof -
  let ?bs = "nat (kv_block_size m)" and ?h = "nat (kv_num_kv_heads m)" and ?d = "nat (kv_head_dim m)" and ?dt = "tc_dtype T cache"
  have lay: "kv_layer T l nl" by (rule kv_layerI[OF T l])
  have L: "kv_gather T l nb nl ?bs ?h ?d ?dt cache"
    using lay ok kv_layer.kv_ok_def[OF lay] by (simp add: kv_gather_def kv_gather_axioms_def kv_mixin_ok_def)
  have bs: "int ?bs = kv_block_size m" "0 < int ?bs" using ok by (auto simp: kv_mixin_ok_def)
  obtain z where z: "tc_zeros T ?dt [int (length bt), int msl, kv_num_kv_heads m, kv_head_dim m] = Inr z"
    "tc_shape T z = [length bt, msl, ?h, ?d]" "tc_dtype T z = ?dt"
    using torch_lib.zeros_ok[OF T, of "[int (length bt), int msl, kv_num_kv_heads m, kv_head_dim m]" ?dt] ok by (auto simp: kv_mixin_ok_def)
  have zok: "kv_gather.kv_result_ok T ?h ?d ?dt (length bt) msl (z, z)"
    using z(2,3) by (simp add: kv_gather.kv_result_ok_def[OF L])
  obtain d where d: "paged_read (kv_copy T cache l) (kv_block_size m) (int msl) bt (z, z) = Inr d"
    and rows: "\<forall>r q. r < length bt \<longrightarrow> 0 \<le> q \<longrightarrow> q < int msl \<longrightarrow>
       kv_gather.kv_out T d r q = (if q < int (length (snd (sorted_tables bt ! r))) * kv_block_size m
         then kv_layer.kv_cell T l cache (snd (sorted_tables bt ! r) ! nat (q div kv_block_size m)) (q mod kv_block_size m)
         else kv_gather.kv_out T (z, z) r q)"
    using kv_gather.kv_rows_read[OF L bs(2) zok refl bt(2)] unfolding bs(1) by blast
  have "gather_kv_flat T m bt (int msl) l = Inr (fst d, snd d)"
    using ok bt(1) z(1) d by (simp add: gather_kv_flat_def kv_mixin_ok_def)
  moreover have "tc_get T (fst d) [int r, q] = tc_get T cache [snd (sorted_tables bt ! r) ! nat (q div kv_block_size m), l, 0, q mod kv_block_size m] \<and>
       tc_get T (snd d) [int r, q] = tc_get T cache [snd (sorted_tables bt ! r) ! nat (q div kv_block_size m), l, 1, q mod kv_block_size m]"
    if "r < length bt" "0 \<le> q" "q < int msl" "q < int (length (snd (sorted_tables bt ! r))) * kv_block_size m" for r q
    using rows[rule_format, OF that(1-3)] that(4) unfolding kv_layer.kv_cell_def[OF lay] kv_gather.kv_out_def[OF L] by simp
  ultimately show ?thesis by blast
qed

text \<open>C34: with one request, writing key and value rows at distinct covered positions and gathering
  the layer returns the same key and value rows at those positions, in the cache's element type.\<close>

theorem kv_flat_write_then_gather:
  assumes "torch_lib T" and ok: "kv_mixin_ok T m cache nb nl" and l: "0 \<le> l" "l < int nl"
    and bt: "distinct blocks" "\<forall>b \<in> set blocks. 0 \<le> b \<and> b < int nb"
    and kv: "tc_shape T key = [n, nat (kv_num_kv_heads m), nat (kv_head_dim m)]" "tc_shape T val = [n, nat (kv_num_kv_heads m), nat (kv_head_dim m)]"
    and ps: "flat_positions positions = Inr ps" "distinct ps" "length ps \<le> n" "\<forall>p \<in> set ps. 0 \<le> p \<and> p < int (length blocks) * kv_block_size m"
  shows "\<exists>m' k v. write_kv_flat T m key val positions [(rid, blocks)] l = Inr m' \<and>
    gather_kv_flat T m' [(rid, blocks)] (int msl) l = Inr (k, v) \<and>
    (\<forall>i < length ps. ps ! i < int msl \<longrightarrow>
       tc_get T k [0, ps ! i] = stored_row T cache key i \<and> tc_get T v [0, ps ! i] = stored_row T cache val i)"
proof -
  let ?bs = "kv_block_size m" and ?bt = "[(rid, blocks)]"
  have tb: "tables_in (int nb) ?bt" using bt by (auto simp: tables_in_def)
  obtain c' where w: "write_kv_flat T m key val positions ?bt l = Inr (m\<lparr>kv_cache := Some c'\<rparr>)"
      "kv_mixin_ok T (m\<lparr>kv_cache := Some c'\<rparr>) c' nb nl"
    and cells: "\<And>p off i. 0 \<le> p \<Longrightarrow> p < int nb \<Longrightarrow> 0 \<le> off \<Longrightarrow> off < ?bs \<Longrightarrow> last_writer ?bt ?bs (enum_from 0 ps) (p, off) = Some i \<Longrightarrow>
       tc_get T c' [p, l, 0, off] = stored_row T cache key i \<and> tc_get T c' [p, l, 1, off] = stored_row T cache val i"
    using write_kv_flat_cells[OF assms(1) ok l tb ps(1) _ ps(3) kv] ps(4) by fastforce
  obtain k v where g: "gather_kv_flat T (m\<lparr>kv_cache := Some c'\<rparr>) ?bt (int msl) l = Inr (k, v)"
    and rows: "\<And>q. 0 \<le> q \<Longrightarrow> q < int msl \<Longrightarrow> q < int (length blocks) * ?bs \<Longrightarrow>
       tc_get T k [0, q] = tc_get T c' [blocks ! nat (q div ?bs), l, 0, q mod ?bs] \<and>
       tc_get T v [0, q] = tc_get T c' [blocks ! nat (q div ?bs), l, 1, q mod ?bs]"
    using gather_kv_flat_rows[OF assms(1) w(2) l, of ?bt msl] tb by (auto simp: sorted_tables_def)
  have bs: "0 < ?bs" using ok by (simp add: kv_mixin_ok_def)
  have "tc_get T k [0, ps ! i] = stored_row T cache key i \<and> tc_get T v [0, ps ! i] = stored_row T cache val i"
    if i: "i < length ps" "ps ! i < int msl" for i
  proof -
    have q: "0 \<le> ps ! i" "ps ! i < int (length blocks) * ?bs" using ps(4) i(1) by auto
    have "blocks ! nat (ps ! i div ?bs) \<in> set blocks" by (rule nth_mem[OF cell_of_first(2)[OF bs q]])
    then show ?thesis
      using rows[OF q(1) i(2) q(2)] cells[OF _ _ _ _ last_writer_at[OF bs bt(1) ps(2) i(1) ps(4), of rid "[]"]] bt(2) bs by simp
  qed
  then show ?thesis using w(1) g by blast
qed

definition demo_mixin :: "int ftensor kv_mixin" where
  "demo_mixin = set_kv_cache (case prepare_kv_blocks fun_torch 2 1 2 2 4 ''float16'' of Inl _ \<Rightarrow> None | Inr t \<Rightarrow> Some t)
     None 2 1 2 \<lparr>kv_cache = None, kv_block_tables = [], kv_block_size = 16, kv_num_kv_heads = 0, kv_head_dim = 0\<rparr>"

theorem kv_flat_write_then_gather_witness:
  "\<exists>cache m' k v. write_kv_flat fun_torch demo_mixin demo_rows demo_rows \<lparr>pt_shape = [2], pt_data = [3, 0]\<rparr> [(''a'', [2, 0])] 1 = Inr m' \<and>
     gather_kv_flat fun_torch m' [(''a'', [2, 0])] (int 4) 1 = Inr (k, v) \<and> tc_get fun_torch k [0, 3] = stored_row fun_torch cache demo_rows 0"
proof -
  have "kv_mixin_ok fun_torch demo_mixin (the (kv_cache demo_mixin)) 4 2"
    by (simp add: kv_mixin_ok_def demo_mixin_def set_kv_cache_def prepare_kv_blocks_def ft_zeros_def)
  then obtain cache where ok: "kv_mixin_ok fun_torch demo_mixin cache 4 2" by blast
  have hb: "kv_num_kv_heads demo_mixin = 1" "kv_head_dim demo_mixin = 2" "kv_block_size demo_mixin = 2"
    by (simp_all add: demo_mixin_def set_kv_cache_def)
  have sh: "tc_shape fun_torch demo_rows = [2, nat (kv_num_kv_heads demo_mixin), nat (kv_head_dim demo_mixin)]"
    by (simp add: hb demo_rows_def)
  have "\<exists>m' k v. write_kv_flat fun_torch demo_mixin demo_rows demo_rows \<lparr>pt_shape = [2], pt_data = [3, 0]\<rparr> [(''a'', [2, 0])] 1 = Inr m' \<and>
     gather_kv_flat fun_torch m' [(''a'', [2, 0])] (int 4) 1 = Inr (k, v) \<and>
     (\<forall>i < length [3::int, 0]. [3, 0] ! i < int 4 \<longrightarrow> tc_get fun_torch k [0, [3, 0] ! i] = stored_row fun_torch cache demo_rows i \<and>
        tc_get fun_torch v [0, [3, 0] ! i] = stored_row fun_torch cache demo_rows i)"
    by (rule kv_flat_write_then_gather[OF fun_torch.torch_lib_axioms ok _ _ _ _ sh sh]) (simp_all add: hb flat_positions_def)
  then show ?thesis by fastforce
qed

interpretation demo_kv_rows: kv_rows fun_torch 1 4 2 2 1 2 "''float16''" demo_rows demo_rows 2
  by unfold_locales (simp_all add: demo_rows_def)

interpretation demo_kv_gather: kv_gather fun_torch 1 4 2 2 1 2 "''float32''"
  "\<lparr>ft_shape = [4, 2, 2, 2, 1, 2], ft_dtype = ''float32'', ft_elem = (\<lambda>_. 0)\<rparr>" 1 3
  by unfold_locales (simp add: kv_layer.kv_ok_def[OF demo_kv_rows.kv_layer_axioms])

end
