(* ===== verification/Rwkv_State.thy ===== *)
theory Rwkv_State
  imports Tensor
begin

text \<open>
  The pool of fixed-size recurrent states, \<open>python_runtime/engine/rwkv_state_manager.py\<close>: slots
  are handed out from a free list, a dictionary maps requests to their slots, and one tensor
  holds the state of every slot and layer.  The lemmas show that slots are never shared, that a
  request reads back its own writes, and that a new request starts from a zero state.
\<close>


section \<open>State and operations\<close>

record 't rwkv =
  rw_num_layers :: int
  rw_hidden_size :: int
  rw_num_heads :: int
  rw_max_requests :: int
  rw_state_dim :: int
  rw_state_pool :: 't
  rw_free_slots :: "int list"
  rw_active_slots :: "(string, int) dict"

datatype slot_or_id = Slot int | ReqId string

definition rwkv_init :: "'t torch \<Rightarrow> int \<Rightarrow> int \<Rightarrow> int \<Rightarrow> int \<Rightarrow> 't rwkv res" where
  "rwkv_init T num_layers hidden_size num_heads max_requests =
     res_bind (tc_zeros T ''float32'' [max_requests, num_layers, hidden_size * num_heads]) (\<lambda>pool.
     Inr \<lparr>rw_num_layers = num_layers, rw_hidden_size = hidden_size, rw_num_heads = num_heads,
          rw_max_requests = max_requests, rw_state_dim = hidden_size * num_heads, rw_state_pool = pool,
          rw_free_slots = map int [0..<nat max_requests], rw_active_slots = []\<rparr>)"

text \<open>\<open>t[i].zero_()\<close>: the row is overwritten with zeros of its own shape and element type.\<close>

definition zero_row :: "'t torch \<Rightarrow> 't \<Rightarrow> int \<Rightarrow> 't res" where
  "zero_row T t i =
     res_bind (tc_get T t [i]) (\<lambda>row.
     res_bind (tc_zeros T (tc_dtype T row) (map int (tc_shape T row))) (\<lambda>z. tc_set T t [i] z))"

definition rwkv_allocate :: "'t torch \<Rightarrow> 't rwkv \<Rightarrow> string \<Rightarrow> ('t rwkv \<times> int) res" where
  "rwkv_allocate T m request_id =
     (if rw_free_slots m = [] then Inl RuntimeError
      else let slot = last (rw_free_slots m)
           in res_bind (zero_row T (rw_state_pool m) slot) (\<lambda>pool.
              Inr (m\<lparr>rw_free_slots := butlast (rw_free_slots m), rw_state_pool := pool,
                     rw_active_slots := AList.update request_id slot (rw_active_slots m)\<rparr>, slot)))"

definition rwkv_free :: "'t rwkv \<Rightarrow> string \<Rightarrow> 't rwkv" where
  "rwkv_free m request_id =
     (case map_of (rw_active_slots m) request_id of
        None \<Rightarrow> m
      | Some slot \<Rightarrow> m\<lparr>rw_active_slots := AList.delete request_id (rw_active_slots m),
                       rw_free_slots := rw_free_slots m @ [slot]\<rparr>)"

definition slot_of :: "'t rwkv \<Rightarrow> slot_or_id \<Rightarrow> int res" where
  "slot_of m x = (case x of Slot i \<Rightarrow> Inr i | ReqId r \<Rightarrow> dict_index (rw_active_slots m) r)"

definition rwkv_update_state :: "'t torch \<Rightarrow> 't rwkv \<Rightarrow> slot_or_id \<Rightarrow> int \<Rightarrow> 't \<Rightarrow> 't rwkv res" where
  "rwkv_update_state T m x layer_idx new_state =
     res_bind (slot_of m x) (\<lambda>slot.
     res_bind (tc_set T (rw_state_pool m) [slot, layer_idx] (tc_to T ''float32'' new_state)) (\<lambda>pool.
     Inr (m\<lparr>rw_state_pool := pool\<rparr>)))"

definition rwkv_get_state :: "'t torch \<Rightarrow> 't rwkv \<Rightarrow> slot_or_id \<Rightarrow> int \<Rightarrow> 't res" where
  "rwkv_get_state T m x layer_idx =
     res_bind (slot_of m x) (\<lambda>slot. tc_get T (rw_state_pool m) [slot, layer_idx])"

definition rwkv_get_all_states :: "'t torch \<Rightarrow> 't rwkv \<Rightarrow> slot_or_id \<Rightarrow> 't res" where
  "rwkv_get_all_states T m x = res_bind (slot_of m x) (\<lambda>slot. tc_get T (rw_state_pool m) [slot])"

definition rwkv_active_count :: "'t rwkv \<Rightarrow> nat" where
  "rwkv_active_count m = length (rw_active_slots m)"

definition rwkv_free_count :: "'t rwkv \<Rightarrow> nat" where
  "rwkv_free_count m = length (rw_free_slots m)"


section \<open>Invariant\<close>

definition rwkv_inv :: "'t torch \<Rightarrow> 't rwkv \<Rightarrow> bool" where
  "rwkv_inv T m \<longleftrightarrow>
     0 \<le> rw_max_requests m \<and> 0 \<le> rw_num_layers m \<and> 0 \<le> rw_state_dim m \<and>
     distinct (map fst (rw_active_slots m)) \<and>
     distinct (rw_free_slots m @ map snd (rw_active_slots m)) \<and>
     (\<forall>s \<in> set (rw_free_slots m @ map snd (rw_active_slots m)). 0 \<le> s \<and> s < rw_max_requests m) \<and>
     tc_shape T (rw_state_pool m) = [nat (rw_max_requests m), nat (rw_num_layers m), nat (rw_state_dim m)] \<and>
     tc_dtype T (rw_state_pool m) = ''float32''"

text \<open>States of the manager that calls of its methods can produce.\<close>

inductive rwkv_reach :: "'t torch \<Rightarrow> 't rwkv \<Rightarrow> bool" for T where
  init: "rwkv_init T nl hs nh mr = Inr m \<Longrightarrow> 0 \<le> nl \<Longrightarrow> 0 \<le> hs \<Longrightarrow> 0 \<le> nh \<Longrightarrow> 0 \<le> mr \<Longrightarrow> rwkv_reach T m"
| alloc: "rwkv_reach T m \<Longrightarrow> rwkv_allocate T m r = Inr (m', slot) \<Longrightarrow> rwkv_reach T m'"
| free: "rwkv_reach T m \<Longrightarrow> rwkv_reach T (rwkv_free m r)"
| update: "rwkv_reach T m \<Longrightarrow> rwkv_update_state T m x l v = Inr m' \<Longrightarrow> rwkv_reach T m'"

lemma map_of_active_unique:
  assumes "distinct (map snd d)" "map_of d a = Some s" "map_of d b = Some s"
  shows "a = b"
proof -
  have "(a, s) \<in> set d" "(b, s) \<in> set d" using assms by (auto dest: map_of_SomeD)
  then have "(a, s) = (b, s)" using assms(1) unfolding distinct_map by (intro inj_onD[of snd "set d"]) auto
  then show ?thesis by simp
qed

lemma snd_update_subset: "set (map snd (AList.update k v d)) \<subseteq> insert v (set (map snd d))"
  by (induction d) auto

lemma distinct_snd_update:
  "distinct (map snd d) \<Longrightarrow> v \<notin> set (map snd d) \<Longrightarrow> distinct (map snd (AList.update k v d))"
proof (induction d)
  case (Cons p d)
  then show ?case using snd_update_subset[of k v d] by (cases p) auto
qed simp

lemma snd_delete: "set (map snd (AList.delete k d)) \<subseteq> set (map snd d)"
  unfolding AList.delete_eq by auto

lemma distinct_snd_delete: "distinct (map snd d) \<Longrightarrow> distinct (map snd (AList.delete k d))"
  unfolding AList.delete_eq by (rule distinct_map_filter)

lemma delete_slot_gone:
  assumes "distinct (map snd d)" "map_of d k = Some s"
  shows "s \<notin> set (map snd (AList.delete k d))"
proof
  assume "s \<in> set (map snd (AList.delete k d))"
  then obtain k' where "(k', s) \<in> set (AList.delete k d)" by auto
  then have "(k', s) \<in> set d" "k' \<noteq> k" by (auto simp: AList.delete_eq)
  moreover have "(k, s) \<in> set d" using assms(2) by (rule map_of_SomeD)
  ultimately have "(k', s) = (k, s)" using assms(1) unfolding distinct_map by (intro inj_onD[of snd "set d"]) auto
  then show False using \<open>k' \<noteq> k\<close> by simp
qed

lemma distinct_last_butlast: "distinct xs \<Longrightarrow> xs \<noteq> [] \<Longrightarrow> last xs \<notin> set (butlast xs)"
  by (metis append_butlast_last_id distinct_append disjoint_iff list.set_intros(1))

lemma rwkv_allocate_slots:
  assumes "rwkv_allocate T m r = Inr (m', slot)" "rwkv_inv T m"
  shows "distinct (map fst (rw_active_slots m'))" "distinct (rw_free_slots m' @ map snd (rw_active_slots m'))"
    and "set (rw_free_slots m' @ map snd (rw_active_slots m')) \<subseteq> set (rw_free_slots m @ map snd (rw_active_slots m))"
proof -
  have ne: "rw_free_slots m \<noteq> []" and slot: "slot = last (rw_free_slots m)"
    and m': "rw_free_slots m' = butlast (rw_free_slots m)" "rw_active_slots m' = AList.update r slot (rw_active_slots m)"
    using assms(1) by (auto simp: rwkv_allocate_def Let_def res_simps split: if_splits)
  have inv: "distinct (map fst (rw_active_slots m))" "distinct (rw_free_slots m)" "distinct (map snd (rw_active_slots m))"
    "set (rw_free_slots m) \<inter> set (map snd (rw_active_slots m)) = {}"
    using assms(2) unfolding rwkv_inv_def by auto
  have last_in: "slot \<in> set (rw_free_slots m)" using ne slot by simp
  have sub: "set (butlast (rw_free_slots m)) \<subseteq> set (rw_free_slots m)" by (auto dest: in_set_butlastD)
  have fresh: "slot \<notin> set (butlast (rw_free_slots m))" using distinct_last_butlast[OF inv(2) ne] slot by simp
  show "distinct (map fst (rw_active_slots m'))" using m'(2) inv(1) by simp
  have "distinct (butlast (rw_free_slots m))" using inv(2) by (rule distinct_butlast)
  moreover have "distinct (map snd (AList.update r slot (rw_active_slots m)))"
    using distinct_snd_update[OF inv(3)] last_in inv(4) by blast
  ultimately show "distinct (rw_free_slots m' @ map snd (rw_active_slots m'))"
    using m' snd_update_subset[of r slot "rw_active_slots m"] sub fresh inv(4) by auto
  show "set (rw_free_slots m' @ map snd (rw_active_slots m')) \<subseteq> set (rw_free_slots m @ map snd (rw_active_slots m))"
    using m' snd_update_subset[of r slot "rw_active_slots m"] sub last_in by auto
qed

lemma rwkv_free_inv:
  assumes "rwkv_inv T m"
  shows "rwkv_inv T (rwkv_free m r)"
proof (cases "map_of (rw_active_slots m) r")
  case None
  then show ?thesis using assms by (simp add: rwkv_free_def)
next
  case (Some s)
  have inv: "distinct (map fst (rw_active_slots m))" "distinct (rw_free_slots m)" "distinct (map snd (rw_active_slots m))"
    "set (rw_free_slots m) \<inter> set (map snd (rw_active_slots m)) = {}"
    using assms unfolding rwkv_inv_def by auto
  have s_in: "s \<in> set (map snd (rw_active_slots m))" using map_of_SomeD[OF Some] by force
  have "set (rw_free_slots m) \<inter> set (map snd (AList.delete r (rw_active_slots m))) = {}" "s \<notin> set (rw_free_slots m)"
    using snd_delete[of r "rw_active_slots m"] inv(4) s_in by blast+
  then have "distinct ((rw_free_slots m @ [s]) @ map snd (AList.delete r (rw_active_slots m)))"
    using inv(2) distinct_snd_delete[OF inv(3), of r] delete_slot_gone[OF inv(3) Some] by auto
  moreover have "\<forall>x \<in> set ((rw_free_slots m @ [s]) @ map snd (AList.delete r (rw_active_slots m))). 0 \<le> x \<and> x < rw_max_requests m"
  proof -
    have "set ((rw_free_slots m @ [s]) @ map snd (AList.delete r (rw_active_slots m))) \<subseteq> set (rw_free_slots m @ map snd (rw_active_slots m))"
      using s_in snd_delete[of r "rw_active_slots m"] unfolding set_append by auto
    then show ?thesis using assms unfolding rwkv_inv_def by blast
  qed
  ultimately show ?thesis using assms Some distinct_delete[OF inv(1), of r] unfolding rwkv_inv_def rwkv_free_def by simp
qed

lemma active_slot_range:
  assumes "rwkv_inv T m" "map_of (rw_active_slots m) r = Some s"
  shows "0 \<le> s \<and> s < rw_max_requests m \<and> s \<notin> set (rw_free_slots m)"
proof -
  have "s \<in> set (map snd (rw_active_slots m))" using map_of_SomeD[OF assms(2)] by force
  moreover have "set (rw_free_slots m) \<inter> set (map snd (rw_active_slots m)) = {}"
    "\<forall>s \<in> set (rw_free_slots m @ map snd (rw_active_slots m)). 0 \<le> s \<and> s < rw_max_requests m"
    using assms(1) unfolding rwkv_inv_def distinct_append by blast+
  ultimately show ?thesis unfolding set_append by blast
qed

lemma length_delete_present:
  assumes "distinct (map fst d)" "map_of d k = Some v"
  shows "Suc (length (AList.delete k d)) = length d"
  using assms
proof (induction d)
  case (Cons p d)
  show ?case
  proof (cases "fst p = k")
    case True
    then have "AList.delete k d = d" using Cons.prems(1) by (intro delete_id) auto
    then show ?thesis using True by (cases p) simp
  next
    case False
    then show ?thesis using Cons by (cases p) (auto split: if_splits)
  qed
qed simp

context torch_lib
begin

lemma zero_row_spec:
  assumes "tc_shape T t = n # s" "0 \<le> i" "i < int n"
  shows "\<exists>t' z. zero_row T t i = Inr t' \<and> tc_zeros T (tc_dtype T t) (map int s) = Inr z \<and> tc_get T t' [i] = Inr z \<and>
     tc_set T t [i] z = Inr t' \<and> tc_shape T z = s"
proof -
  have path: "t_path (tc_shape T t) [i] = Some [nat i]" using assms by (simp add: py_pos_def)
  obtain row where row: "tc_get T t [i] = Inr row" "tc_shape T row = s" "tc_dtype T row = tc_dtype T t"
    using get_ok[of t "[i]"] path assms(1) by auto
  obtain z where z: "tc_zeros T (tc_dtype T t) (map int s) = Inr z" "tc_shape T z = s" "tc_dtype T z = tc_dtype T t"
    using zeros_ok[of "map int s" "tc_dtype T t"] by (auto simp: comp_def)
  obtain t' where t': "tc_set T t [i] z = Inr t'" "tc_get T t' [i] = Inr z"
    using set_same_dtype[of t "[i]" z] path assms(1) z by auto
  show ?thesis using row z t' by (auto simp: zero_row_def)
qed

lemma zero_row_shape: "zero_row T t i = Inr t' \<Longrightarrow> tc_shape T t' = tc_shape T t \<and> tc_dtype T t' = tc_dtype T t"
  using set_shape set_dtype by (auto simp: zero_row_def res_simps)

lemma rwkv_reach_inv: "rwkv_reach T m \<Longrightarrow> rwkv_inv T m"
proof (induction rule: rwkv_reach.induct)
  case (init nl hs nh mr m)
  then obtain pool where "tc_zeros T ''float32'' [mr, nl, hs * nh] = Inr pool" "tc_shape T pool = map nat [mr, nl, hs * nh]"
    "tc_dtype T pool = ''float32''" using zeros_ok[of "[mr, nl, hs * nh]" "''float32''"] by auto
  with init show ?case by (auto simp: rwkv_init_def rwkv_inv_def distinct_map)
next
  case (alloc m r m' slot)
  obtain pool where pool: "zero_row T (rw_state_pool m) (last (rw_free_slots m)) = Inr pool"
    and rest: "rw_state_pool m' = pool" "rw_max_requests m' = rw_max_requests m" "rw_num_layers m' = rw_num_layers m"
      "rw_state_dim m' = rw_state_dim m"
    using alloc.hyps(2) by (auto simp: rwkv_allocate_def Let_def res_simps split: if_splits)
  have old: "\<forall>s \<in> set (rw_free_slots m @ map snd (rw_active_slots m)). 0 \<le> s \<and> s < rw_max_requests m"
    using alloc.IH unfolding rwkv_inv_def by blast
  then have "\<forall>s \<in> set (rw_free_slots m' @ map snd (rw_active_slots m')). 0 \<le> s \<and> s < rw_max_requests m'"
    using rwkv_allocate_slots(3)[OF alloc.hyps(2) alloc.IH] unfolding rest(2) by blast
  then show ?case
    using alloc.IH rwkv_allocate_slots(1,2)[OF alloc.hyps(2) alloc.IH] rest zero_row_shape[OF pool] unfolding rwkv_inv_def by simp
next
  case (free m r)
  then show ?case by (simp add: rwkv_free_inv)
next
  case (update m x l v m')
  then obtain slot pool where "tc_set T (rw_state_pool m) [slot, l] (tc_to T ''float32'' v) = Inr pool" "m' = m\<lparr>rw_state_pool := pool\<rparr>"
    by (auto simp: rwkv_update_state_def res_simps)
  then show ?case using update.IH set_shape[of "rw_state_pool m"] set_dtype[of "rw_state_pool m"]
    unfolding rwkv_inv_def by simp
qed

lemma slot_path:
  assumes "rwkv_inv T m" "map_of (rw_active_slots m) r = Some s" "0 \<le> l" "l < rw_num_layers m"
  shows "t_path (tc_shape T (rw_state_pool m)) [s, l] = Some [nat s, nat l]"
proof -
  have "s \<in> set (map snd (rw_active_slots m))" using map_of_SomeD[OF assms(2)] by force
  then have "0 \<le> s" "s < rw_max_requests m" using assms(1) unfolding rwkv_inv_def by auto
  then show ?thesis using assms unfolding rwkv_inv_def by (simp add: py_pos_def)
qed

lemma active_slots_differ:
  assumes "rwkv_inv T m" "map_of (rw_active_slots m) a = Some s" "map_of (rw_active_slots m) b = Some s'" "a \<noteq> b"
  shows "nat s \<noteq> nat s'"
proof -
  have "s \<in> set (map snd (rw_active_slots m))" "s' \<in> set (map snd (rw_active_slots m))"
    using map_of_SomeD[OF assms(2)] map_of_SomeD[OF assms(3)] by force+
  then have "0 \<le> s" "0 \<le> s'" using assms(1) unfolding rwkv_inv_def by auto
  moreover have "s \<noteq> s'" using assms map_of_active_unique[of "rw_active_slots m" a s b] unfolding rwkv_inv_def by auto
  ultimately show ?thesis by simp
qed

lemma rwkv_update_get:
  assumes inv: "rwkv_inv T m" and a: "map_of (rw_active_slots m) a = Some s" and l: "0 \<le> l" "l < rw_num_layers m"
    and v: "tc_shape T v = [nat (rw_state_dim m)]"
  shows "\<exists>m'. rwkv_update_state T m (ReqId a) l v = Inr m' \<and>
      rwkv_get_state T m' (ReqId a) l = Inr (tc_to T ''float32'' v) \<and>
      (\<forall>b l'. dict_has (rw_active_slots m) b \<longrightarrow> 0 \<le> l' \<longrightarrow> l' < rw_num_layers m \<longrightarrow> (b, l') \<noteq> (a, l) \<longrightarrow>
         rwkv_get_state T m' (ReqId b) l' = rwkv_get_state T m (ReqId b) l')"
proof -
  let ?p = "rw_state_pool m" and ?v = "tc_to T ''float32'' v"
  have path: "t_path (tc_shape T ?p) [s, l] = Some [nat s, nat l]" by (rule slot_path[OF inv a l])
  have shape: "tc_shape T ?v = drop (length [s, l]) (tc_shape T ?p)" using inv v unfolding rwkv_inv_def by (simp add: to_shape)
  have dt: "tc_dtype T ?v = tc_dtype T ?p" using inv unfolding rwkv_inv_def by (simp add: to_dtype)
  obtain p' where p': "tc_set T ?p [s, l] ?v = Inr p'" "tc_get T p' [s, l] = Inr ?v"
    using set_same_dtype[OF _ shape dt] path by auto
  have other: "tc_get T p' [s', l'] = tc_get T ?p [s', l']"
    if b: "map_of (rw_active_slots m) b = Some s'" and l': "0 \<le> l'" "l' < rw_num_layers m" and ne: "(b, l') \<noteq> (a, l)" for b s' l'
  proof -
    have "[nat s, nat l] \<noteq> [nat s', nat l']"
      using active_slots_differ[OF inv a b] ne l(1) l'(1) by (cases "a = b") auto
    then show ?thesis using get_set_other[OF p'(1) shape path slot_path[OF inv b l']] by simp
  qed
  show ?thesis
    using p' a other by (auto simp: rwkv_update_state_def rwkv_get_state_def slot_of_def dict_index_def)
qed

lemma rwkv_allocate_error:
  assumes inv: "rwkv_inv T m" and al: "rwkv_allocate T m r = Inl e"
  shows "rw_free_slots m = [] \<and> e = RuntimeError"
proof (rule ccontr)
  assume no: "\<not> ?thesis"
  let ?slot = "last (rw_free_slots m)"
  have ne: "rw_free_slots m \<noteq> []" using no al by (auto simp: rwkv_allocate_def)
  then have "?slot \<in> set (rw_free_slots m @ map snd (rw_active_slots m))" by simp
  then have "0 \<le> ?slot" "?slot < rw_max_requests m" using inv unfolding rwkv_inv_def by blast+
  then have "is_ok (zero_row T (rw_state_pool m) ?slot)"
    using inv zero_row_spec[of "rw_state_pool m" "nat (rw_max_requests m)" _ ?slot] unfolding rwkv_inv_def by fastforce
  then show False using al ne by (auto simp: rwkv_allocate_def Let_def res_simps is_ok_iff)
qed

lemma rwkv_allocate_row:
  assumes inv: "rwkv_inv T m" and al: "rwkv_allocate T m r = Inr (m', slot)"
  shows "\<exists>z. tc_zeros T ''float32'' [rw_num_layers m, rw_state_dim m] = Inr z \<and> tc_get T (rw_state_pool m') [slot] = Inr z \<and>
     (\<forall>s. 0 \<le> s \<longrightarrow> s < rw_max_requests m \<longrightarrow> s \<noteq> slot \<longrightarrow> tc_get T (rw_state_pool m') [s] = tc_get T (rw_state_pool m) [s])"
proof -
  have free: "rw_free_slots m \<noteq> []" "slot = last (rw_free_slots m)" and z1: "zero_row T (rw_state_pool m) slot = Inr (rw_state_pool m')"
    using al by (auto simp: rwkv_allocate_def Let_def res_simps split: if_splits)
  have range: "0 \<le> slot" "slot < rw_max_requests m"
    using inv free unfolding rwkv_inv_def by (metis UnCI last_in_set set_append)+
  have shp: "tc_shape T (rw_state_pool m) = nat (rw_max_requests m) # [nat (rw_num_layers m), nat (rw_state_dim m)]"
    and nonneg: "0 \<le> rw_num_layers m" "0 \<le> rw_state_dim m" "0 \<le> rw_max_requests m" and dt: "tc_dtype T (rw_state_pool m) = ''float32''"
    using inv unfolding rwkv_inv_def by auto
  obtain z where z: "tc_zeros T ''float32'' [rw_num_layers m, rw_state_dim m] = Inr z" "tc_get T (rw_state_pool m') [slot] = Inr z"
      "tc_set T (rw_state_pool m) [slot] z = Inr (rw_state_pool m')" "tc_shape T z = [nat (rw_num_layers m), nat (rw_state_dim m)]"
    using zero_row_spec[OF shp range(1)] range(2) z1 nonneg dt by auto
  have "tc_get T (rw_state_pool m') [s] = tc_get T (rw_state_pool m) [s]" if "0 \<le> s" "s < rw_max_requests m" "s \<noteq> slot" for s
    using get_set_other[OF z(3), of "[nat slot]" "[s]" "[nat s]"] z(4) shp range that by (simp add: py_pos_def)
  then show ?thesis using z by blast
qed

end


section \<open>Properties\<close>

text \<open>C30: in every state the calls can reach, two active requests never have the same slot, no slot
  of an active request is free, every slot lies in the pool and the free list has no duplicates.\<close>

theorem rwkv_slots_disjoint:
  assumes "torch_lib T" and "rwkv_reach T m"
  shows "(\<forall>a b s. map_of (rw_active_slots m) a = Some s \<longrightarrow> map_of (rw_active_slots m) b = Some s \<longrightarrow> a = b) \<and>
    (\<forall>a s. map_of (rw_active_slots m) a = Some s \<longrightarrow> s \<notin> set (rw_free_slots m) \<and> 0 \<le> s \<and> s < rw_max_requests m) \<and>
    distinct (rw_free_slots m)"
proof -
  have inv: "rwkv_inv T m" using torch_lib.rwkv_reach_inv[OF assms] .
  then have d: "distinct (rw_free_slots m)" "distinct (map snd (rw_active_slots m))"
    unfolding rwkv_inv_def distinct_append by blast+
  show ?thesis using d(1) active_slot_range[OF inv] map_of_active_unique[OF d(2)] by auto
qed

definition rwkv_demo :: "int ftensor rwkv res" where
  "rwkv_demo =
     res_bind (rwkv_init fun_torch 2 3 1 4) (\<lambda>m. res_bind (rwkv_allocate fun_torch m ''a'') (\<lambda>(m, _).
     res_bind (rwkv_allocate fun_torch m ''b'') (\<lambda>(m, _). Inr m)))"

lemma rwkv_demo_reach:
  assumes "rwkv_demo = Inr m"
  shows "rwkv_reach fun_torch m"
proof -
  obtain m0 where m0: "rwkv_init fun_torch 2 3 1 4 = Inr m0"
    and rest: "res_bind (rwkv_allocate fun_torch m0 ''a'') (\<lambda>(m, _). res_bind (rwkv_allocate fun_torch m ''b'') (\<lambda>(m, _). Inr m)) = Inr m"
    using assms unfolding rwkv_demo_def by (rule res_bindE)
  from rest obtain m1 s1 where m1: "rwkv_allocate fun_torch m0 ''a'' = Inr (m1, s1)"
    and rest: "res_bind (rwkv_allocate fun_torch m1 ''b'') (\<lambda>(m, _). Inr m) = Inr m" by (rule res_bindE) auto
  from rest obtain s2 where m2: "rwkv_allocate fun_torch m1 ''b'' = Inr (m, s2)" by (rule res_bindE) auto
  show ?thesis
    using rwkv_reach.alloc[OF rwkv_reach.alloc[OF rwkv_reach.init[OF m0] m1] m2] by simp
qed

definition rwkv_demo_check :: "int ftensor rwkv \<Rightarrow> bool" where
  "rwkv_demo_check m \<longleftrightarrow> rw_active_slots m = [(''a'', 3), (''b'', 2)] \<and> rw_free_slots m = [0, 1] \<and>
     rw_num_layers m = 2 \<and> rw_state_dim m = 3"

lemma rwkv_demo_ok: "\<exists>m. rwkv_demo = Inr m \<and> rwkv_demo_check m"
  by (rule res_caseE) code_simp

theorem rwkv_slots_disjoint_witness:
  "\<exists>m. rwkv_demo = Inr m \<and> rwkv_reach fun_torch m \<and> distinct (rw_free_slots m)"
  using rwkv_demo_ok rwkv_demo_reach rwkv_slots_disjoint[OF fun_torch.torch_lib_axioms] by blast

text \<open>C29: in every reachable state an active request can write the state of a layer, reads back
  exactly what it wrote converted to float32, and no other layer and no other active request
  sees a change.\<close>

theorem rwkv_update_isolated:
  assumes "torch_lib T" and "rwkv_reach T m" and "dict_has (rw_active_slots m) a" and "0 \<le> l" and "l < rw_num_layers m"
    and "tc_shape T v = [nat (rw_state_dim m)]"
  shows "\<exists>m'. rwkv_update_state T m (ReqId a) l v = Inr m' \<and>
      rwkv_get_state T m' (ReqId a) l = Inr (tc_to T ''float32'' v) \<and>
      (\<forall>b l'. dict_has (rw_active_slots m) b \<longrightarrow> 0 \<le> l' \<longrightarrow> l' < rw_num_layers m \<longrightarrow> (b, l') \<noteq> (a, l) \<longrightarrow>
         rwkv_get_state T m' (ReqId b) l' = rwkv_get_state T m (ReqId b) l')"
proof -
  obtain s where "map_of (rw_active_slots m) a = Some s" using assms(3) by auto
  then show ?thesis
    using torch_lib.rwkv_update_get[OF assms(1) torch_lib.rwkv_reach_inv[OF assms(1,2)]] assms(4-6) by blast
qed

theorem rwkv_update_isolated_witness:
  "\<exists>m m'. rwkv_demo = Inr m \<and> rwkv_update_state fun_torch m (ReqId ''b'') 1 \<lparr>ft_shape = [3], ft_dtype = ''float16'', ft_elem = (\<lambda>js. int (sum_list js))\<rparr> = Inr m' \<and>
     rwkv_get_state fun_torch m' (ReqId ''a'') 1 = rwkv_get_state fun_torch m (ReqId ''a'') 1"
proof -
  obtain m where m: "rwkv_demo = Inr m" "rwkv_demo_check m" using rwkv_demo_ok by blast
  have a: "dict_has (rw_active_slots m) ''b''" "dict_has (rw_active_slots m) ''a''" "rw_num_layers m = 2" "rw_state_dim m = 3"
    using m(2) by (simp_all add: rwkv_demo_check_def)
  obtain m' where "rwkv_update_state fun_torch m (ReqId ''b'') 1 \<lparr>ft_shape = [3], ft_dtype = ''float16'', ft_elem = (\<lambda>js. int (sum_list js))\<rparr> = Inr m'"
    and "\<And>b l'. dict_has (rw_active_slots m) b \<Longrightarrow> 0 \<le> l' \<Longrightarrow> l' < 2 \<Longrightarrow> (b, l') \<noteq> (''b'', 1) \<Longrightarrow>
         rwkv_get_state fun_torch m' (ReqId b) l' = rwkv_get_state fun_torch m (ReqId b) l'"
    using rwkv_update_isolated[OF fun_torch.torch_lib_axioms rwkv_demo_reach[OF m(1)] a(1), of 1 "\<lparr>ft_shape = [3], ft_dtype = ''float16'', ft_elem = (\<lambda>js. int (sum_list js))\<rparr>"]
      a(3,4) by (simp only: fun_torch_simps) force
  moreover from this(2)[of "''a''" 1] have "rwkv_get_state fun_torch m' (ReqId ''a'') 1 = rwkv_get_state fun_torch m (ReqId ''a'') 1"
    using a(2) by simp
  ultimately show ?thesis using m(1) by blast
qed

text \<open>Allocation fails only when no slot is free; otherwise the request gets the last slot of the
  free list with an all-zero state for every layer, and the states of the other active requests
  are as before.\<close>

theorem rwkv_allocate_zeroed:
  assumes "torch_lib T" and "rwkv_reach T m"
  shows "case rwkv_allocate T m r of
      Inl e \<Rightarrow> e = RuntimeError \<and> rwkv_free_count m = 0
    | Inr (m', slot) \<Rightarrow> slot \<in> set (rw_free_slots m) \<and> is_ok (rwkv_get_all_states T m' (ReqId r)) \<and>
        rwkv_get_all_states T m' (ReqId r) = tc_zeros T ''float32'' [rw_num_layers m, rw_state_dim m] \<and>
        (\<forall>b. dict_has (rw_active_slots m) b \<and> b \<noteq> r \<longrightarrow>
           rwkv_get_all_states T m' (ReqId b) = rwkv_get_all_states T m (ReqId b))"
proof -
  have inv: "rwkv_inv T m" using torch_lib.rwkv_reach_inv[OF assms] .
  show ?thesis
  proof (cases "rwkv_allocate T m r")
    case (Inl e)
    then have "rw_free_slots m = [] \<and> e = RuntimeError"
      using torch_lib.rwkv_allocate_error[OF assms(1) inv] by blast
    then show ?thesis using Inl by (simp add: rwkv_free_count_def)
  next
    case (Inr q)
    obtain m' slot where q: "q = (m', slot)" by (cases q)
    then have al: "rwkv_allocate T m r = Inr (m', slot)" using Inr by simp
    have m': "slot \<in> set (rw_free_slots m)" "rw_active_slots m' = AList.update r slot (rw_active_slots m)"
      using al by (auto simp: rwkv_allocate_def Let_def res_simps split: if_splits)
    obtain z where z: "tc_zeros T ''float32'' [rw_num_layers m, rw_state_dim m] = Inr z" "tc_get T (rw_state_pool m') [slot] = Inr z"
      "\<And>s. 0 \<le> s \<Longrightarrow> s < rw_max_requests m \<Longrightarrow> s \<noteq> slot \<Longrightarrow> tc_get T (rw_state_pool m') [s] = tc_get T (rw_state_pool m) [s]"
      using torch_lib.rwkv_allocate_row[OF assms(1) inv al] by blast
    have "tc_get T (rw_state_pool m') [s] = tc_get T (rw_state_pool m) [s]" if "map_of (rw_active_slots m) b = Some s" for b s
      using z(3) active_slot_range[OF inv that] m'(1) by blast
    then show ?thesis using Inr q m' z
      by (auto simp: rwkv_get_all_states_def slot_of_def dict_index_def)
  qed
qed

theorem rwkv_allocate_zeroed_witness:
  "\<exists>m m' slot. rwkv_demo = Inr m \<and> rwkv_allocate fun_torch m ''c'' = Inr (m', slot) \<and> slot \<in> set (rw_free_slots m) \<and>
     rwkv_get_all_states fun_torch m' (ReqId ''c'') = tc_zeros fun_torch ''float32'' [2, 3]"
proof -
  obtain m where m: "rwkv_demo = Inr m" "rwkv_demo_check m" using rwkv_demo_ok by blast
  have "rwkv_free_count m \<noteq> 0" "rw_num_layers m = 2" "rw_state_dim m = 3"
    using m(2) by (simp_all add: rwkv_demo_check_def rwkv_free_count_def)
  then show ?thesis
    using rwkv_allocate_zeroed[OF fun_torch.torch_lib_axioms rwkv_demo_reach[OF m(1)], of "''c''"] m(1)
    by (auto split: sum.splits)
qed

text \<open>Slot accounting.  Allocating for a new request moves one slot from the free list to the
  active ones and freeing moves it back, but allocating again for an active request drops its
  old slot from both: the pool shrinks by one for good.\<close>

theorem rwkv_slot_accounting:
  assumes "torch_lib T" and "rwkv_reach T m"
  shows "(\<forall>r m' slot. rwkv_allocate T m r = Inr (m', slot) \<longrightarrow>
       rwkv_free_count m' + rwkv_active_count m' + (if dict_has (rw_active_slots m) r then 1 else 0) =
       rwkv_free_count m + rwkv_active_count m) \<and>
    (\<forall>r. rwkv_free_count (rwkv_free m r) + rwkv_active_count (rwkv_free m r) = rwkv_free_count m + rwkv_active_count m)"
proof (intro conjI allI impI)
  fix r m' slot assume al: "rwkv_allocate T m r = Inr (m', slot)"
  then have "rw_free_slots m \<noteq> []" "rw_free_slots m' = butlast (rw_free_slots m)" "rw_active_slots m' = AList.update r slot (rw_active_slots m)"
    by (auto simp: rwkv_allocate_def Let_def res_simps split: if_splits)
  then show "rwkv_free_count m' + rwkv_active_count m' + (if dict_has (rw_active_slots m) r then 1 else 0) =
       rwkv_free_count m + rwkv_active_count m"
    by (cases "map_of (rw_active_slots m) r")
       (auto simp: rwkv_free_count_def rwkv_active_count_def update_length_existing update_fresh neq_Nil_conv)
next
  fix r
  have "distinct (map fst (rw_active_slots m))"
    using torch_lib.rwkv_reach_inv[OF assms] unfolding rwkv_inv_def by blast
  then show "rwkv_free_count (rwkv_free m r) + rwkv_active_count (rwkv_free m r) = rwkv_free_count m + rwkv_active_count m"
    using length_delete_present[of "rw_active_slots m" r]
    by (auto simp: rwkv_free_count_def rwkv_active_count_def rwkv_free_def split: option.splits)
qed

theorem rwkv_slot_accounting_witness:
  "\<exists>m m' slot. rwkv_demo = Inr m \<and> rwkv_allocate fun_torch m ''a'' = Inr (m', slot) \<and>
     rwkv_free_count m' + rwkv_active_count m' = 3"
proof -
  obtain m where m: "rwkv_demo = Inr m" "rwkv_demo_check m" using rwkv_demo_ok by blast
  have r: "rwkv_reach fun_torch m" using rwkv_demo_reach[OF m(1)] .
  have "rwkv_free_count m = 2" "rwkv_active_count m = 2" "dict_has (rw_active_slots m) ''a''"
    using m(2) by (simp_all add: rwkv_demo_check_def rwkv_free_count_def rwkv_active_count_def)
  moreover obtain m' slot where "rwkv_allocate fun_torch m ''a'' = Inr (m', slot)"
    using fun_torch.rwkv_allocate_error[OF fun_torch.rwkv_reach_inv[OF r], of "''a''"] calculation(1)
    by (cases "rwkv_allocate fun_torch m ''a''") (auto simp: rwkv_free_count_def)
  ultimately show ?thesis
    using rwkv_slot_accounting[OF fun_torch.torch_lib_axioms r] m(1) by fastforce
qed

end
