(* ===== verification/Speculative.thy ===== *)
theory Speculative
  imports Complex_Main Prelude
begin

text \<open>
  Speculative decoding, \<open>python_runtime/engine/speculative/\<close>: draft proposers, the verifier, the
  adaptive draft length and the runner.  A [batch, k] tensor of draft tokens is the list of its
  k columns; logits are a list of positions, each a list with one row per batch entry.  The
  neural modules, \<open>argmax\<close>, \<open>softmax\<close> and the random draws are torch's and are parameters; rates
  and probabilities are elements of an ordered field.
\<close>


section \<open>Verification\<close>

text \<open>\<open>xs == ys\<close> of two vectors, with broadcasting of a vector of length one.\<close>

definition vec_eq :: "int list \<Rightarrow> int list \<Rightarrow> bool list res" where
  "vec_eq xs ys =
     (if length xs = length ys then Inr (map2 (=) xs ys)
      else if length xs = 1 then Inr (map (\<lambda>y. xs ! 0 = y) ys)
      else if length ys = 1 then Inr (map (\<lambda>x. x = ys ! 0) xs)
      else Inl RuntimeError)"

text \<open>The loop over the batch that overwrites mismatching entries of one column.\<close>

definition correct_column :: "bool list \<Rightarrow> int list \<Rightarrow> int list \<Rightarrow> int list res" where
  "correct_column ok target_tok draft_tok =
     res_foldM (\<lambda>d b. if ok ! b then Inr d else res_bind (py_index target_tok (int b)) (\<lambda>t. py_set d (int b) t))
       draft_tok [0..<length draft_tok]"

text \<open>\<open>target_logits[:, i, :].argmax(dim=-1)\<close>\<close>

definition target_column :: "('l \<Rightarrow> int) \<Rightarrow> 'l list list \<Rightarrow> nat \<Rightarrow> int list res" where
  "target_column argmax logits i = res_bind (py_index logits (int i)) (\<lambda>rows. Inr (map argmax rows))"

fun greedy_loop :: "('l \<Rightarrow> int) \<Rightarrow> 'l list list \<Rightarrow> nat \<Rightarrow> int list list \<Rightarrow> int list list \<Rightarrow> (int list list \<times> bool) res" where
  "greedy_loop argmax logits i [] accepted = Inr (accepted, True)"
| "greedy_loop argmax logits i (draft_tok # cols) accepted =
     res_bind (target_column argmax logits i) (\<lambda>target_tok.
     res_bind (vec_eq draft_tok target_tok) (\<lambda>ok.
     if \<not> list_all id ok
     then res_bind (correct_column ok target_tok draft_tok) (\<lambda>c. Inr (accepted @ [c], False))
     else greedy_loop argmax logits (Suc i) cols (accepted @ [draft_tok])))"

definition verify_greedy :: "('l \<Rightarrow> int) \<Rightarrow> int list list \<Rightarrow> 'l list list \<Rightarrow> (int list list \<times> bool) res" where
  "verify_greedy argmax draft_tokens target_logits = greedy_loop argmax target_logits 0 draft_tokens []"

text \<open>
  Rejection sampling.  \<open>softmax\<close> is the softmax of a row of logits divided by the temperature;
  \<open>rnd i\<close> is the i-th uniform draw of a whole batch and \<open>multinomial i b\<close> the draw made for batch
  entry b at position i.
\<close>

record ('l, 'p) sampling =
  sm_softmax :: "'l \<Rightarrow> 'p list"
  sm_rand :: "nat \<Rightarrow> 'p list"
  sm_multinomial :: "nat \<Rightarrow> nat \<Rightarrow> 'p list \<Rightarrow> int"

text \<open>\<open>gather\<close> of one probability per row, \<open>stretch\<close> for broadcasting a vector of length one.\<close>

definition gather_probs :: "'p list list \<Rightarrow> int list \<Rightarrow> 'p list res" where
  "gather_probs p_target draft_tok =
     (if length p_target < length draft_tok then Inl RuntimeError
      else res_mapM (\<lambda>(p, t). if 0 \<le> t \<and> t < int (length p) then Inr (p ! nat t) else Inl RuntimeError) (zip p_target draft_tok))"

definition stretch :: "nat \<Rightarrow> 'a list \<Rightarrow> 'a list" where
  "stretch n xs = (if length xs = 1 then replicate n (xs ! 0) else xs)"

definition accept_ratio :: "'p::linordered_field list \<Rightarrow> 'p list \<Rightarrow> 'p list res" where
  "accept_ratio probs q =
     (let n = (if length probs = 1 then length q else length probs)
      in if length q \<noteq> n \<and> length q \<noteq> 1 then Inl RuntimeError
         else Inr (map2 (\<lambda>p q. min 1 (p / (q + 1 / 10 ^ 12))) (stretch n probs) (stretch n q)))"

definition adjusted :: "'p::linordered_field list \<Rightarrow> int \<Rightarrow> 'p list res" where
  "adjusted p tok = res_bind (py_set p tok 0) (\<lambda>p0. Inr (map (\<lambda>x. x / sum_list p0) p0))"

definition resample_column :: "('l, 'p::linordered_field) sampling \<Rightarrow> nat \<Rightarrow> bool list \<Rightarrow> 'p list list \<Rightarrow> int list \<Rightarrow> int list res" where
  "resample_column S i acc_mask p_target draft_tok =
     res_foldM (\<lambda>d b. if acc_mask ! b then Inr d
        else res_bind (adjusted (p_target ! b) (d ! b)) (\<lambda>ap. py_set d (int b) (sm_multinomial S i b ap)))
       draft_tok [0..<length draft_tok]"

fun verify_loop :: "('l, 'p::linordered_field) sampling \<Rightarrow> 'l list list \<Rightarrow> 'p list list option \<Rightarrow> nat \<Rightarrow> int list list \<Rightarrow> int list list \<Rightarrow>
    (int list list \<times> bool) res" where
  "verify_loop S logits draft_probs i [] accepted = Inr (accepted, True)"
| "verify_loop S logits draft_probs i (draft_tok # cols) accepted =
     res_bind (py_index logits (int i)) (\<lambda>rows.
     let p_target = map (sm_softmax S) rows in
     res_bind (gather_probs p_target draft_tok) (\<lambda>target_probs.
     res_bind (case draft_probs of None \<Rightarrow> Inr (replicate (length draft_tok) 1) | Some ps \<Rightarrow> py_index ps (int i)) (\<lambda>q.
     res_bind (accept_ratio target_probs q) (\<lambda>ratio.
     let acc_mask = map2 (<) (stretch (length ratio) (sm_rand S i)) ratio in
     if \<not> list_all id acc_mask
     then res_bind (resample_column S i acc_mask p_target draft_tok) (\<lambda>c. Inr (accepted @ [c], False))
     else verify_loop S logits draft_probs (Suc i) cols (accepted @ [draft_tok])))))"

definition verify :: "('l, 'p::linordered_field) sampling \<Rightarrow> int list list \<Rightarrow> 'l list list \<Rightarrow> 'p list list option \<Rightarrow> (int list list \<times> bool) res" where
  "verify S draft_tokens target_logits draft_probs = verify_loop S target_logits draft_probs 0 draft_tokens []"


section \<open>Proposers\<close>

text \<open>\<open>torch.stack(drafts, dim=1)\<close>\<close>

definition stack_columns :: "int list list \<Rightarrow> int list list res" where
  "stack_columns drafts =
     (case drafts of
        [] \<Rightarrow> Inl RuntimeError
      | c # cs \<Rightarrow> if list_all (\<lambda>d. length d = length c) cs then Inr drafts else Inl RuntimeError)"

record ('h, 'l) mtp_proposer =
  mtp_vocab_size :: int
  num_mtp_layers :: int
  mtp_norms :: "('h \<Rightarrow> 'h) list"
  mtp_projections :: "('h \<Rightarrow> 'l list) list"

definition mtp_init :: "('h \<Rightarrow> 'h) \<Rightarrow> (nat \<Rightarrow> 'h \<Rightarrow> 'l list) \<Rightarrow> int \<Rightarrow> int \<Rightarrow> ('h, 'l) mtp_proposer" where
  "mtp_init normf proj vocab n =
     \<lparr>mtp_vocab_size = vocab, num_mtp_layers = n, mtp_norms = replicate (nat n) normf, mtp_projections = map proj [0..<nat n]\<rparr>"

definition mtp_propose :: "('l \<Rightarrow> int) \<Rightarrow> ('h, 'l) mtp_proposer \<Rightarrow> 'h \<Rightarrow> int list \<Rightarrow> int \<Rightarrow> int list list res" where
  "mtp_propose argmax P h input_ids num_tokens =
     res_bind (res_mapM (\<lambda>i.
        res_bind (py_index (mtp_norms P) (int i)) (\<lambda>normf.
        res_bind (py_index (mtp_projections P) (int i)) (\<lambda>proj.
        Inr (map argmax (proj (normf h)))))) [0..<nat (min num_tokens (num_mtp_layers P))]) stack_columns"

record ('h, 'l) eagle_proposer =
  eagle_vocab_size :: int
  num_spec_tokens :: int
  eagle_layers :: "('h \<Rightarrow> 'l list) list"

definition eagle_init :: "('h \<Rightarrow> 'h) \<Rightarrow> (nat \<Rightarrow> 'h \<Rightarrow> 'l list) \<Rightarrow> int \<Rightarrow> int \<Rightarrow> ('h, 'l) eagle_proposer" where
  "eagle_init normf proj vocab n =
     \<lparr>eagle_vocab_size = vocab, num_spec_tokens = n, eagle_layers = map (\<lambda>i h. proj i (normf h)) [0..<nat n]\<rparr>"

definition eagle_propose :: "('l \<Rightarrow> int) \<Rightarrow> ('h, 'l) eagle_proposer \<Rightarrow> 'h \<Rightarrow> int list \<Rightarrow> int \<Rightarrow> int list list res" where
  "eagle_propose argmax P h input_ids num_tokens =
     res_bind (res_mapM (\<lambda>i.
        res_bind (py_index (eagle_layers P) (int i)) (\<lambda>layer. Inr (map argmax (layer h))))
        [0..<nat (min num_tokens (num_spec_tokens P))]) stack_columns"


section \<open>Runner\<close>

text \<open>Accepted tokens: a vector per position, or the [batch, 1] matrix of the fallback.\<close>

datatype tok = TVec "int list" | TCol "int list"

definition get_first_token :: "('l \<Rightarrow> int) \<Rightarrow> 'l list list \<Rightarrow> int list res" where
  "get_first_token argmax target_logits = target_column argmax target_logits 0"

definition run_speculative_step ::
  "('l \<Rightarrow> int) \<Rightarrow> ('h \<Rightarrow> int list \<Rightarrow> int \<Rightarrow> int list list res) \<Rightarrow> bool \<Rightarrow> 'h \<Rightarrow> int list \<Rightarrow> 'l list list \<Rightarrow> int \<Rightarrow> (tok list \<times> bool \<times> nat) res" where
  "run_speculative_step argmax propose enabled h input_ids target_logits num =
     (if \<not> enabled
      then res_bind (target_column argmax target_logits 0) (\<lambda>first_tok. Inr ([TCol first_tok], True, 1))
      else res_bind (propose h input_ids num) (\<lambda>draft_tokens.
           res_bind (verify_greedy argmax draft_tokens target_logits) (\<lambda>(accepted, all_accepted).
           Inr (map TVec accepted, all_accepted, length accepted))))"


section \<open>Adaptive draft length\<close>

record 'p adaptive =
  min_accept_rate :: 'p
  max_spec_tokens :: int
  warmup_steps :: int
  window_size :: nat
  current_spec_tokens :: int
  accept_history :: "'p list"
  total_accepted :: nat
  total_drafted :: nat
  step_count :: int

definition adaptive_init :: "'p \<Rightarrow> int \<Rightarrow> int \<Rightarrow> int \<Rightarrow> 'p adaptive res" where
  "adaptive_init rate max_tokens warmup window =
     (if window < 0 then Inl ValueError
      else Inr \<lparr>min_accept_rate = rate, max_spec_tokens = max_tokens, warmup_steps = warmup, window_size = nat window,
                current_spec_tokens = max_tokens, accept_history = [], total_accepted = 0, total_drafted = 0, step_count = 0\<rparr>)"

text \<open>\<open>append\<close> to a deque of bounded length.\<close>

definition deque_append :: "nat \<Rightarrow> 'a list \<Rightarrow> 'a \<Rightarrow> 'a list" where
  "deque_append maxlen d x = drop (Suc (length d) - maxlen) (d @ [x])"

definition adapt_length :: "'p::linordered_field adaptive \<Rightarrow> int res" where
  "adapt_length A =
     (if step_count A > warmup_steps A \<and> int (length (accept_history A)) \<ge> warmup_steps A
      then if accept_history A = [] then Inl ZeroDivisionError
           else let rate = sum_list (accept_history A) / of_nat (length (accept_history A))
                in Inr (if rate < min_accept_rate A then max 1 (current_spec_tokens A - 1)
                        else if rate > 85 / 100 \<and> current_spec_tokens A < max_spec_tokens A then current_spec_tokens A + 1
                        else current_spec_tokens A)
      else Inr (current_spec_tokens A))"

definition adaptive_step ::
  "('l \<Rightarrow> int) \<Rightarrow> ('h \<Rightarrow> int list \<Rightarrow> int \<Rightarrow> int list list res) \<Rightarrow> (nat \<Rightarrow> 'l list list) \<Rightarrow> 'p::linordered_field adaptive \<Rightarrow> 'h \<Rightarrow> int list \<Rightarrow>
     ('p adaptive \<times> int list list \<times> bool) res" where
  "adaptive_step argmax propose randn A h input_ids =
     (let A = A\<lparr>step_count := step_count A + 1\<rparr>
      in res_bind (adapt_length A) (\<lambda>cur.
         res_bind (propose h input_ids cur) (\<lambda>draft_tokens.
         let n_drafted = length draft_tokens in
         res_bind (verify_greedy argmax draft_tokens (randn (1 + n_drafted))) (\<lambda>(accepted, all_accepted).
         let n_accepted = length accepted; rate = of_nat n_accepted / of_nat (max n_drafted 1)
         in Inr (A\<lparr>current_spec_tokens := cur,
                    accept_history := deque_append (window_size A) (accept_history A) rate,
                    total_accepted := total_accepted A + n_accepted, total_drafted := total_drafted A + n_drafted\<rparr>,
                 accepted, all_accepted)))))"

definition avg_acceptance_rate :: "'p::linordered_field adaptive \<Rightarrow> 'p" where
  "avg_acceptance_rate A = (if total_drafted A = 0 then 1 else of_nat (total_accepted A) / of_nat (total_drafted A))"

definition reset_stats :: "'p adaptive \<Rightarrow> 'p adaptive" where
  "reset_stats A = A\<lparr>accept_history := [], total_accepted := 0, total_drafted := 0, step_count := 0,
     current_spec_tokens := max_spec_tokens A\<rparr>"


section \<open>The verifier\<close>

lemma list_all_map2_eq: "length xs = length ys \<Longrightarrow> list_all id (map2 (=) xs ys) \<longleftrightarrow> xs = ys"
  by (induction xs ys rule: list_induct2) auto

text \<open>One iteration of the correction loop at a time; the entries below \<open>b\<close> are final.\<close>

lemma correct_prefix:
  assumes "length ok = length d" "length t = length d" "b \<le> length d"
  defines "F \<equiv> \<lambda>d b. if ok ! b then Inr d else res_bind (py_index t (int b)) (\<lambda>x. py_set d (int b) x)"
    and "D \<equiv> \<lambda>b. map (\<lambda>i. if ok ! i then d ! i else t ! i) [0..<b] @ drop b d"
  shows "res_foldM F d [0..<b] = Inr (D b)"
  using assms(3)
proof (induction b)
  case (Suc b)
  have split: "drop b d = d ! b # drop (Suc b) d" using Suc.prems by (simp add: Cons_nth_drop_Suc)
  let ?E = "\<lambda>x. map (\<lambda>i. if ok ! i then d ! i else t ! i) [0..<b] @ x # drop (Suc b) d"
  have Db: "D b = ?E (d ! b)" unfolding D_def split by (rule refl)
  have upd: "py_set (D b) (int b) (t ! b) = Inr (?E (t ! b))"
    unfolding Db using Suc.prems by (simp add: py_set_def list_update_append)
  have next_D: "D (Suc b) = ?E (if ok ! b then d ! b else t ! b)" by (simp add: D_def)
  have ind: "py_index t (int b) = Inr (t ! b)" using Suc.prems assms(2) by simp
  have step: "F (D b) b = Inr (D (Suc b))"
  proof (cases "ok ! b")
    case True
    then show ?thesis unfolding F_def next_D using Db by (simp only: if_True)
  next
    case False
    then show ?thesis unfolding F_def next_D by (simp only: if_False ind res_bind_Inr upd)
  qed
  have "res_foldM F d [0..<b] = Inr (D b)" using Suc.IH Suc.prems by linarith
  then show ?case by (simp only: upt_Suc_append[OF le0] res_foldM_append res_bind_Inr res_foldM.simps step)
qed (simp add: D_def)

lemma correct_column_target:
  assumes "length d = length t"
  shows "correct_column (map2 (=) d t) t d = Inr t"
proof -
  have "length (map2 (=) d t) = length d" "length t = length d" using assms by simp_all
  from correct_prefix[OF this le_refl]
  have "correct_column (map2 (=) d t) t d = Inr (map (\<lambda>i. if map2 (=) d t ! i then d ! i else t ! i) [0..<length d])"
    unfolding correct_column_def drop_all[OF le_refl] append_Nil2 .
  also have "map (\<lambda>i. if map2 (=) d t ! i then d ! i else t ! i) [0..<length d] = t"
    using assms by (intro nth_equalityI) auto
  finally show ?thesis .
qed

text \<open>The columns the target model would produce.\<close>

definition target_cols :: "('l \<Rightarrow> int) \<Rightarrow> 'l list list \<Rightarrow> nat \<Rightarrow> nat \<Rightarrow> int list list" where
  "target_cols argmax logits i n = map (\<lambda>j. map argmax (logits ! j)) [i..<i + n]"

lemma target_cols_Suc: "target_cols argmax logits i (Suc n) = map argmax (logits ! i) # target_cols argmax logits (Suc i) n"
  by (simp add: target_cols_def upt_conv_Cons del: upt_Suc)

text \<open>How many columns are returned: up to the first difference, that one included.\<close>

fun accepted_len :: "int list list \<Rightarrow> int list list \<Rightarrow> nat" where
  "accepted_len (c # cs) (t # ts) = (if c = t then Suc (accepted_len cs ts) else 1)"
| "accepted_len _ _ = 0"

lemma accepted_len_spec:
  assumes "length cs = length ts"
  shows "accepted_len cs ts \<le> length cs" "cs = ts \<Longrightarrow> accepted_len cs ts = length cs"
    and "cs \<noteq> ts \<Longrightarrow> 0 < accepted_len cs ts \<and> take (accepted_len cs ts - 1) cs = take (accepted_len cs ts - 1) ts \<and>
           cs ! (accepted_len cs ts - 1) \<noteq> ts ! (accepted_len cs ts - 1)"
  using assms
proof (induction cs ts rule: accepted_len.induct)
  case (1 c cs t ts)
  { case 1 then show ?case using "1.IH"(1) by simp }
  { case 2 then show ?case using "1.IH"(2) by simp }
  { case 3 then show ?case using "1.IH"(3) by (cases "accepted_len cs ts") auto }
qed auto

lemma greedy_loop_spec:
  assumes "\<forall>c \<in> set cols. length c = batch" "i + length cols \<le> length logits" "\<forall>rows \<in> set logits. length rows = batch"
    and "t = target_cols argmax logits i (length cols)"
  shows "greedy_loop argmax logits i cols acc = Inr (acc @ take (accepted_len cols t) t, cols = t)"
  using assms(1,2,4)
proof (induction cols arbitrary: i acc t)
  case Nil
  then show ?case by (simp add: target_cols_def)
next
  case (Cons c cols)
  let ?t = "map argmax (logits ! i)" and ?ts = "target_cols argmax logits (Suc i) (length cols)"
  have i: "i < length logits" using Cons.prems by simp
  have len: "length c = length ?t" using Cons.prems assms(3) nth_mem[OF i] by simp
  have tc: "target_column argmax logits i = Inr ?t" using i by (simp add: target_column_def)
  have eq: "vec_eq c ?t = Inr (map2 (=) c ?t)" using len by (simp add: vec_eq_def)
  have t: "t = ?t # ?ts" using Cons.prems(3) target_cols_Suc by (metis length_Cons)
  show ?case
  proof (cases "c = ?t")
    case True
    have "greedy_loop argmax logits i (c # cols) acc = greedy_loop argmax logits (Suc i) cols (acc @ [c])"
      using tc eq list_all_map2_eq[OF len] True by simp
    also have "\<dots> = Inr ((acc @ [c]) @ take (accepted_len cols ?ts) ?ts, cols = ?ts)"
      using Cons.prems by (intro Cons.IH) auto
    finally show ?thesis using True t by simp
  next
    case False
    then have "greedy_loop argmax logits i (c # cols) acc = Inr (acc @ [?t], False)"
      using tc eq list_all_map2_eq[OF len] correct_column_target[OF len] by simp
    then show ?thesis using False t by simp
  qed
qed

text \<open>C23: on well-shaped inputs greedy verification returns without an error.  Every accepted column is
  the target model's argmax at its position; all drafts are accepted exactly when they equal the
  target columns, and otherwise the loop stops at the first differing column, whose accepted
  replacement is the target's own.\<close>

theorem verify_greedy_exact:
  assumes "\<forall>c \<in> set drafts. length c = batch" and "length drafts \<le> length logits" and "\<forall>rows \<in> set logits. length rows = batch"
    and t: "t = target_cols argmax logits 0 (length drafts)"
  shows "\<exists>m \<le> length drafts. verify_greedy argmax drafts logits = Inr (take m t, drafts = t) \<and>
    (drafts = t \<longrightarrow> m = length drafts) \<and>
    (drafts \<noteq> t \<longrightarrow> 0 < m \<and> take (m - 1) drafts = take (m - 1) t \<and> drafts ! (m - 1) \<noteq> t ! (m - 1))"
proof -
  have len: "length drafts = length t" by (simp add: t target_cols_def)
  have "verify_greedy argmax drafts logits = Inr (take (accepted_len drafts t) t, drafts = t)"
    using greedy_loop_spec[OF assms(1) _ assms(3) t, of "[]"] assms(2) by (simp add: verify_greedy_def)
  then show ?thesis using accepted_len_spec[OF len] by blast
qed

theorem verify_greedy_exact_witness:
  "\<exists>m \<le> 2. verify_greedy id [[5, 6], [7, 9]] [[5, 6], [7, 8], [1, 1]] = Inr (take m [[5, 6], [7, 8]], False)"
proof -
  have t: "[[5, 6], [7, 8]] = target_cols id [[5, 6], [7, 8], [1, 1]] 0 (length [[5::int, 6], [7, 9]])"
    by (simp add: target_cols_def upt_rec)
  have "[[5, 6], [7, 9]] \<noteq> [[5, 6], [7, 8::int]]" by simp
  then show ?thesis using verify_greedy_exact[OF _ _ _ t, of 2] by (simp add: numeral_2_eq_2) blast
qed

lemma greedy_loop_length:
  "greedy_loop argmax logits i cols acc = Inr (acc', b) \<Longrightarrow> length acc' \<le> length acc + length cols"
  by (induction argmax logits i cols acc rule: greedy_loop.induct) (fastforce simp: res_simps split: if_splits)+

lemma greedy_loop_nonempty:
  "greedy_loop argmax logits i cols acc = Inr (acc', b) \<Longrightarrow> cols \<noteq> [] \<Longrightarrow> length acc < length acc'"
proof (induction argmax logits i cols acc rule: greedy_loop.induct)
  case (2 argmax logits i c cols acc)
  then show ?case by (cases cols) (fastforce simp: res_simps split: if_splits)+
qed simp


section \<open>Proposers and the runner\<close>

text \<open>What \<open>SpeculativeProposer\<close> promises: as many columns as asked for, up to a limit.\<close>

locale draft_proposer =
  fixes propose :: "'h \<Rightarrow> int list \<Rightarrow> int \<Rightarrow> int list list res"
    and limit :: int
    and batch :: "'h \<Rightarrow> nat"
  assumes propose_ok: "1 \<le> num \<Longrightarrow> 1 \<le> limit \<Longrightarrow>
      \<exists>cols. propose h ids num = Inr cols \<and> length cols = nat (min num limit) \<and> (\<forall>c \<in> set cols. length c = batch h)"
    and propose_none: "num \<le> 0 \<or> limit \<le> 0 \<Longrightarrow> propose h ids num = Inl RuntimeError"
begin

lemma propose_and_verify:
  assumes "1 \<le> num" "1 \<le> limit" "nat (min num limit) \<le> length logits" "\<forall>rows \<in> set logits. length rows = batch h"
  shows "\<exists>cols m. propose h ids num = Inr cols \<and> length cols = nat (min num limit) \<and> 0 < m \<and> m \<le> length cols \<and>
    verify_greedy argmax cols logits = Inr (take m (target_cols argmax logits 0 (length cols)), cols = target_cols argmax logits 0 (length cols))"
proof -
  obtain cols where cols: "propose h ids num = Inr cols" "length cols = nat (min num limit)" "\<forall>c \<in> set cols. length c = batch h"
    using propose_ok[OF assms(1,2)] by blast
  let ?t = "target_cols argmax logits 0 (length cols)"
  have len: "length cols = length ?t" by (simp add: target_cols_def)
  have v: "verify_greedy argmax cols logits = Inr (take (accepted_len cols ?t) ?t, cols = ?t)"
    using greedy_loop_spec[OF cols(3) _ assms(4) refl, of 0 argmax "[]"] assms(3) cols(2) by (simp add: verify_greedy_def)
  have "0 < length cols" using cols(2) assms(1,2) by simp
  then have "0 < accepted_len cols ?t" using accepted_len_spec(2,3)[OF len] by (cases "cols = ?t") auto
  then show ?thesis using cols(1,2) v accepted_len_spec(1)[OF len] by blast
qed

lemma run_step_tokens:
  assumes "1 \<le> num" "1 \<le> limit" "nat (min num limit) \<le> length logits" "\<forall>rows \<in> set logits. length rows = batch h"
  shows "\<exists>n accepted. run_speculative_step argmax propose True h ids logits num =
      Inr (map TVec (take n (target_cols argmax logits 0 (nat (min num limit)))), accepted, n) \<and> 0 < n \<and> n \<le> nat (min num limit)"
proof -
  obtain cols m where cm: "propose h ids num = Inr cols" "length cols = nat (min num limit)" "0 < m" "m \<le> length cols"
    "verify_greedy argmax cols logits = Inr (take m (target_cols argmax logits 0 (length cols)), cols = target_cols argmax logits 0 (length cols))"
    using propose_and_verify[OF assms] by blast
  then have "length (take m (target_cols argmax logits 0 (length cols))) = m" by (simp add: target_cols_def)
  then show ?thesis using cm by (auto simp: run_speculative_step_def)
qed

end

lemma stack_columns_ok: "cs \<noteq> [] \<Longrightarrow> \<forall>c \<in> set cs. length c = n \<Longrightarrow> stack_columns cs = Inr cs"
  by (cases cs) (auto simp: stack_columns_def list_all_iff)

lemma propose_heads:
  assumes "\<And>i. i < nat (min num limit) \<Longrightarrow> f i = Inr (map argmax (g i))" and "\<And>i. length (g i) = n"
  shows "1 \<le> num \<Longrightarrow> 1 \<le> limit \<Longrightarrow> \<exists>cols. res_bind (res_mapM f [0..<nat (min num limit)]) stack_columns = Inr cols \<and>
      length cols = nat (min num limit) \<and> (\<forall>c \<in> set cols. length c = n)"
    and "num \<le> 0 \<or> limit \<le> 0 \<Longrightarrow> res_bind (res_mapM f [0..<nat (min num limit)]) stack_columns = Inl RuntimeError"
proof -
  let ?cs = "map (\<lambda>i. map argmax (g i)) [0..<nat (min num limit)]"
  have m: "res_mapM f [0..<nat (min num limit)] = Inr ?cs" using assms(1) by (intro res_mapM_cong_Inr) simp
  show "\<exists>cols. res_bind (res_mapM f [0..<nat (min num limit)]) stack_columns = Inr cols \<and>
      length cols = nat (min num limit) \<and> (\<forall>c \<in> set cols. length c = n)" if "1 \<le> num" "1 \<le> limit"
  proof -
    have "stack_columns ?cs = Inr ?cs" using that assms(2) by (intro stack_columns_ok) auto
    then show ?thesis using m assms(2) by auto
  qed
  show "res_bind (res_mapM f [0..<nat (min num limit)]) stack_columns = Inl RuntimeError" if "num \<le> 0 \<or> limit \<le> 0"
    using that by (auto simp: stack_columns_def min_def)
qed

text \<open>The two proposers, with modules that return one row of logits per batch entry.\<close>

locale draft_heads =
  fixes normf :: "'h \<Rightarrow> 'h" and proj :: "nat \<Rightarrow> 'h \<Rightarrow> 'l list" and batch :: "'h \<Rightarrow> nat"
  assumes proj_rows: "length (proj i (normf h)) = batch h"

sublocale draft_heads \<subseteq> mtp: draft_proposer "mtp_propose argmax (mtp_init normf proj vocab n)" n batch
  for argmax vocab n
proof (unfold_locales, goal_cases)
  case (1 num h ids)
  then show ?case using propose_heads(1)[of num n _ argmax "\<lambda>i. proj i (normf h)"] proj_rows
    by (simp add: mtp_propose_def mtp_init_def)
next
  case (2 num h ids)
  then show ?case using propose_heads(2)[of num n _ argmax "\<lambda>i. proj i (normf h)"] proj_rows
    by (simp add: mtp_propose_def mtp_init_def)
qed

sublocale draft_heads \<subseteq> eagle: draft_proposer "eagle_propose argmax (eagle_init normf proj vocab n)" n batch
  for argmax vocab n
proof (unfold_locales, goal_cases)
  case (1 num h ids)
  then show ?case using propose_heads(1)[of num n _ argmax "\<lambda>i. proj i (normf h)"] proj_rows
    by (simp add: eagle_propose_def eagle_init_def)
next
  case (2 num h ids)
  then show ?case using propose_heads(2)[of num n _ argmax "\<lambda>i. proj i (normf h)"] proj_rows
    by (simp add: eagle_propose_def eagle_init_def)
qed

context draft_heads
begin

lemmas mtp_run = mtp.run_step_tokens
lemmas eagle_run = eagle.run_step_tokens

end

interpretation demo_heads: draft_heads "\<lambda>h. h" "\<lambda>i h. map (\<lambda>x. x + int i) h" length
  by unfold_locales simp

text \<open>C31: with either proposer and modules that give one row of logits per batch entry, an enabled step
  that may draft at least one token ends without an error; it returns between one and the
  permitted number of columns, each of them the target model's greedy choice at its position.\<close>

theorem speculative_step_greedy:
  assumes "\<And>i h. length (proj i (normf h)) = batch h"
    and "propose = mtp_propose argmax (mtp_init normf proj vocab limit) \<or> propose = eagle_propose argmax (eagle_init normf proj vocab limit)"
    and "1 \<le> num" and "1 \<le> limit" and "nat (min num limit) \<le> length logits" and "\<forall>rows \<in> set logits. length rows = batch h"
  shows "\<exists>n accepted. run_speculative_step argmax propose True h ids logits num =
      Inr (map TVec (take n (target_cols argmax logits 0 (nat (min num limit)))), accepted, n) \<and> 0 < n \<and> n \<le> nat (min num limit)"
proof -
  have L: "draft_heads normf proj batch" using assms(1) by unfold_locales
  from assms(2) show ?thesis
  proof
    assume "propose = mtp_propose argmax (mtp_init normf proj vocab limit)"
    then show ?thesis using draft_heads.mtp_run[OF L assms(3-6)] by simp
  next
    assume "propose = eagle_propose argmax (eagle_init normf proj vocab limit)"
    then show ?thesis using draft_heads.eagle_run[OF L assms(3-6)] by simp
  qed
qed

theorem speculative_step_greedy_witness:
  "\<exists>n accepted. run_speculative_step id (mtp_propose id (mtp_init (\<lambda>h. h) (\<lambda>i h. map (\<lambda>x. x + int i) h) 100 2)) True [4, 5] [] [[4, 5], [9, 9], [0, 0]] 3 =
      Inr (map TVec (take n (target_cols id [[4, 5], [9, 9], [0, 0]] 0 (nat (min 3 2)))), accepted, n) \<and> 0 < n \<and> n \<le> nat (min 3 2)"
  by (rule speculative_step_greedy[where batch = length and normf = "\<lambda>h. h" and proj = "\<lambda>i h. map (\<lambda>x. x + int i) h" and vocab = 100]) simp_all


section \<open>Rejection sampling\<close>

lemma resample_length: "resample_column S i m p d = Inr c \<Longrightarrow> length c = length d"
  unfolding resample_column_def
  by (rule res_foldM_invariant[where P = "\<lambda>c. length c = length d"])
     (auto simp: res_simps py_set_def split: if_splits option.splits)

lemma resample_keeps:
  assumes "resample_column S i m p d = Inr c" "b < length d" "m ! b"
  shows "c ! b = d ! b"
proof -
  have "c ! b = d ! b \<and> length c = length d"
    using assms(1) unfolding resample_column_def
  proof (rule res_foldM_invariant[where P = "\<lambda>c. c ! b = d ! b \<and> length c = length d"])
    fix x s1 s2
    assume x: "x \<in> set [0..<length d]" "s1 ! b = d ! b \<and> length s1 = length d"
      "(if m ! x then Inr s1 else res_bind (adjusted (p ! x) (s1 ! x)) (\<lambda>ap. py_set s1 (int x) (sm_multinomial S i x ap))) = Inr s2"
    then show "s2 ! b = d ! b \<and> length s2 = length d"
      using assms(3) by (cases "x = b") (auto simp: res_simps py_set_def split: if_splits)
  qed simp
  then show ?thesis by blast
qed

lemma verify_loop_prefix:
  assumes "verify_loop S logits dp i cols acc = Inr (acc', ok)"
  shows "\<exists>m \<le> length cols. if ok then acc' = acc @ cols
    else m < length cols \<and> (\<exists>c accept. acc' = acc @ take m cols @ [c] \<and> length c = length (cols ! m) \<and>
           (\<forall>b < length c. accept ! b \<longrightarrow> c ! b = cols ! m ! b) \<and> \<not> list_all id accept)"
  using assms
proof (induction S logits dp i cols acc rule: verify_loop.induct)
  case (2 S logits dp i d cols acc)
  obtain rows probs q ratio where r: "py_index logits (int i) = Inr rows"
    and probs: "gather_probs (map (sm_softmax S) rows) d = Inr probs"
    and q: "(case dp of None \<Rightarrow> Inr (replicate (length d) 1) | Some ps \<Rightarrow> py_index ps (int i)) = Inr q"
    and ratio: "accept_ratio probs q = Inr ratio"
    and rest: "(if \<not> list_all id (map2 (<) (stretch (length ratio) (sm_rand S i)) ratio)
       then res_bind (resample_column S i (map2 (<) (stretch (length ratio) (sm_rand S i)) ratio) (map (sm_softmax S) rows) d) (\<lambda>c. Inr (acc @ [c], False))
       else verify_loop S logits dp (Suc i) cols (acc @ [d])) = Inr (acc', ok)"
    using "2.prems" by (auto simp: Let_def res_simps split: if_splits)
  show ?case
  proof (cases "list_all id (map2 (<) (stretch (length ratio) (sm_rand S i)) ratio)")
    case True
    then have "verify_loop S logits dp (Suc i) cols (acc @ [d]) = Inr (acc', ok)" using rest by simp
    from "2.IH"[OF r refl probs q ratio refl _ this] True
    obtain m where m: "m \<le> length cols" "if ok then acc' = (acc @ [d]) @ cols
      else m < length cols \<and> (\<exists>c accept. acc' = (acc @ [d]) @ take m cols @ [c] \<and> length c = length (cols ! m) \<and>
           (\<forall>b < length c. accept ! b \<longrightarrow> c ! b = cols ! m ! b) \<and> \<not> list_all id accept)" by auto
    then show ?thesis by (intro exI[of _ "Suc m"]) (auto split: if_splits)
  next
    case False
    then obtain c where c: "resample_column S i (map2 (<) (stretch (length ratio) (sm_rand S i)) ratio) (map (sm_softmax S) rows) d = Inr c"
      "acc' = acc @ [c]" "\<not> ok" using rest by (auto simp: res_simps)
    have "\<forall>b < length c. map2 (<) (stretch (length ratio) (sm_rand S i)) ratio ! b \<longrightarrow> c ! b = d ! b"
      using resample_keeps[OF c(1)] resample_length[OF c(1)] by simp
    then show ?thesis
      using c False resample_length[OF c(1)]
      by (intro exI[of _ 0]) (auto intro!: exI[of _ c] exI[of _ "map2 (<) (stretch (length ratio) (sm_rand S i)) ratio"])
  qed
qed simp

text \<open>Rejection sampling accepts a prefix of the drafts.  When it reports that all were accepted it
  returns the drafts unchanged; otherwise it returns a proper prefix of them and one more column
  of the same batch size, which differs from the draft only in rejected batch entries.\<close>

theorem verify_accepts_prefix:
  assumes "verify S drafts logits dp = Inr (accepted, ok)"
  shows "if ok then accepted = drafts
    else \<exists>m c accept. m < length drafts \<and> accepted = take m drafts @ [c] \<and> length c = length (drafts ! m) \<and>
           (\<forall>b < length c. accept ! b \<longrightarrow> c ! b = drafts ! m ! b) \<and> \<not> list_all id accept"
proof (cases ok)
  case True
  then show ?thesis using verify_loop_prefix[OF assms[unfolded verify_def]] by auto
next
  case False
  then show ?thesis using verify_loop_prefix[OF assms[unfolded verify_def]] by (simp only: if_False append_Nil) blast
qed

definition demo_sampling :: "(rat list, rat) sampling" where
  "demo_sampling = \<lparr>sm_softmax = id, sm_rand = (\<lambda>i. [1 / 2]), sm_multinomial = (\<lambda>i b p. 0)\<rparr>"

theorem verify_accepts_prefix_witness:
  "verify demo_sampling [[1], [1]] [[[0, 1]], [[1, 0]]] None = Inr ([[1], [0]], False) \<and>
   (\<exists>m c accept. m < length [[1::int], [1]] \<and> [[1], [0]] = take m [[1::int], [1]] @ [c] \<and> length c = length ([[1::int], [1]] ! m) \<and>
      (\<forall>b < length c. accept ! b \<longrightarrow> c ! b = [[1], [1]] ! m ! b) \<and> \<not> list_all id accept)"
proof -
  have v: "verify demo_sampling [[1], [1]] [[[0, 1]], [[1, 0]]] None = Inr ([[1], [0]], False)"
    by code_simp
  show ?thesis using v verify_accepts_prefix[OF v] by simp
qed


section \<open>The adaptive draft length\<close>

definition adaptive_inv :: "'p::linordered_field adaptive \<Rightarrow> bool" where
  "adaptive_inv A \<longleftrightarrow>
     1 \<le> current_spec_tokens A \<and> current_spec_tokens A \<le> max_spec_tokens A \<and>
     length (accept_history A) \<le> window_size A \<and> (\<forall>r \<in> set (accept_history A). 0 \<le> r \<and> r \<le> 1) \<and>
     total_accepted A \<le> total_drafted A"

text \<open>States of a speculator with a given proposer, under any target logits.\<close>

inductive adaptive_reach :: "('l \<Rightarrow> int) \<Rightarrow> ('h \<Rightarrow> int list \<Rightarrow> int \<Rightarrow> int list list res) \<Rightarrow> 'p::linordered_field adaptive \<Rightarrow> bool"
  for argmax propose where
  start: "adaptive_init rate mx w win = Inr A \<Longrightarrow> 1 \<le> mx \<Longrightarrow> adaptive_reach argmax propose A"
| step: "adaptive_reach argmax propose A \<Longrightarrow> adaptive_step argmax propose randn A h ids = Inr (A', acc, ok) \<Longrightarrow> adaptive_reach argmax propose A'"
| reset: "adaptive_reach argmax propose A \<Longrightarrow> adaptive_reach argmax propose (reset_stats A)"

lemma verify_greedy_length: "verify_greedy argmax cols logits = Inr (acc, ok) \<Longrightarrow> length acc \<le> length cols"
  using greedy_loop_length[of argmax logits 0 cols "[]"] by (auto simp: verify_greedy_def)

lemma adapt_length_bounds:
  assumes "adapt_length A = Inr cur" "1 \<le> current_spec_tokens A" "current_spec_tokens A \<le> max_spec_tokens A"
  shows "1 \<le> cur \<and> cur \<le> max_spec_tokens A"
  using assms by (auto simp: adapt_length_def Let_def split: if_splits)

lemma set_deque_append: "set (deque_append n d x) \<subseteq> insert x (set d)"
  unfolding deque_append_def by (rule subset_trans[OF set_drop_subset]) simp

lemma length_deque_append: "length d \<le> n \<Longrightarrow> length (deque_append n d x) \<le> n"
  by (simp add: deque_append_def)

lemma adaptive_stepE:
  assumes "adaptive_step argmax propose randn A h ids = Inr (A', acc, ok)"
  obtains cur drafts where "adapt_length (A\<lparr>step_count := step_count A + 1\<rparr>) = Inr cur" "propose h ids cur = Inr drafts"
    "verify_greedy argmax drafts (randn (1 + length drafts)) = Inr (acc, ok)"
    "A' = A\<lparr>step_count := step_count A + 1, current_spec_tokens := cur,
       accept_history := deque_append (window_size A) (accept_history A) (of_nat (length acc) / of_nat (max (length drafts) 1)),
       total_accepted := total_accepted A + length acc, total_drafted := total_drafted A + length drafts\<rparr>"
  using assms by (auto simp: adaptive_step_def Let_def res_simps)

lemma adaptive_step_inv:
  fixes A :: "'p::linordered_field adaptive"
  assumes "adaptive_inv A" "adaptive_step argmax propose randn A h ids = Inr (A', acc, ok)"
  shows "adaptive_inv A'"
proof -
  obtain cur drafts where st: "adapt_length (A\<lparr>step_count := step_count A + 1\<rparr>) = Inr cur"
    "verify_greedy argmax drafts (randn (1 + length drafts)) = Inr (acc, ok)"
    "A' = A\<lparr>step_count := step_count A + 1, current_spec_tokens := cur,
       accept_history := deque_append (window_size A) (accept_history A) (of_nat (length acc) / of_nat (max (length drafts) 1)),
       total_accepted := total_accepted A + length acc, total_drafted := total_drafted A + length drafts\<rparr>"
    using adaptive_stepE[OF assms(2)] by metis
  have n: "length acc \<le> length drafts" by (rule verify_greedy_length[OF st(2)])
  have "(of_nat (length acc) :: 'p) \<le> of_nat (max (length drafts) 1)" using n by (intro of_nat_mono) simp
  then have rate: "0 \<le> (of_nat (length acc) :: 'p) / of_nat (max (length drafts) 1)"
      "(of_nat (length acc) :: 'p) / of_nat (max (length drafts) 1) \<le> 1"
    by (simp_all add: divide_le_eq_1 del: of_nat_max)
  have "1 \<le> cur \<and> cur \<le> max_spec_tokens A" using adapt_length_bounds[OF st(1)] assms(1) by (simp add: adaptive_inv_def)
  moreover have "\<forall>r \<in> set (accept_history A'). 0 \<le> r \<and> r \<le> 1"
    using set_deque_append rate assms(1) unfolding st(3) adaptive_inv_def by fastforce
  moreover have "length (accept_history A') \<le> window_size A'"
    using length_deque_append[of "accept_history A" "window_size A"] assms(1) unfolding st(3) adaptive_inv_def by simp
  ultimately show ?thesis using assms(1) n unfolding adaptive_inv_def by (simp add: st(3))
qed

lemma adaptive_reach_inv: "adaptive_reach argmax propose A \<Longrightarrow> adaptive_inv A"
proof (induction rule: adaptive_reach.induct)
  case (start rate mx w win A)
  then show ?case by (auto simp: adaptive_init_def adaptive_inv_def split: if_splits)
next
  case (step A randn h ids A' acc ok)
  then show ?case by (intro adaptive_step_inv[OF step.IH step.hyps(2)])
next
  case (reset A)
  then show ?case by (simp add: reset_stats_def adaptive_inv_def)
qed

text \<open>C32: after any steps and resets of a speculator created with a positive maximum, the draft length
  lies between one and the maximum, the history never exceeds its window, every recorded rate and
  the average acceptance rate lie between zero and one.\<close>

theorem adaptive_bounds:
  fixes A :: "'p::linordered_field adaptive"
  assumes "adaptive_reach argmax propose A"
  shows "1 \<le> current_spec_tokens A \<and> current_spec_tokens A \<le> max_spec_tokens A \<and> length (accept_history A) \<le> window_size A \<and>
    (\<forall>r \<in> set (accept_history A). 0 \<le> r \<and> r \<le> 1) \<and> 0 \<le> avg_acceptance_rate A \<and> avg_acceptance_rate A \<le> 1"
proof -
  have inv: "adaptive_inv A" by (rule adaptive_reach_inv[OF assms])
  then have "of_nat (total_accepted A) \<le> (of_nat (total_drafted A) :: 'p)" by (simp add: adaptive_inv_def)
  then show ?thesis using inv by (simp add: adaptive_inv_def avg_acceptance_rate_def divide_le_eq_1)
qed

definition demo_adaptive :: "rat adaptive" where
  "demo_adaptive = \<lparr>min_accept_rate = 6 / 10, max_spec_tokens = 5, warmup_steps = 10, window_size = 100,
     current_spec_tokens = 5, accept_history = [], total_accepted = 0, total_drafted = 0, step_count = 0\<rparr>"

lemma demo_adaptive_reach: "adaptive_reach argmax propose demo_adaptive"
  by (rule adaptive_reach.start[of "6 / 10" 5 10 100]) (simp_all add: adaptive_init_def demo_adaptive_def)

theorem adaptive_bounds_witness: "avg_acceptance_rate (reset_stats demo_adaptive) \<le> 1"
  using adaptive_bounds[OF adaptive_reach.reset[OF demo_adaptive_reach[of id "\<lambda>h ids n. Inr [[0]]"]]] by blast

text \<open>The corrected token of a rejected draft counts as accepted.  A step that drafts one token
  records the rate 1 even when the draft was wrong, and no step with drafts records less than
  one over the number of drafts.\<close>

theorem adaptive_rate_counts_correction:
  fixes A :: "'p::linordered_field adaptive"
  assumes "adaptive_step argmax propose randn A h ids = Inr (A', acc, ok)" and "propose h ids (current_spec_tokens A') = Inr drafts" and "drafts \<noteq> []"
    and "0 < window_size A"
  shows "1 / of_nat (length drafts) \<le> last (accept_history A') \<and> (length drafts = 1 \<longrightarrow> last (accept_history A') = 1)"
proof -
  obtain cur drafts' where st: "propose h ids cur = Inr drafts'"
    "verify_greedy argmax drafts' (randn (1 + length drafts')) = Inr (acc, ok)"
    "A' = A\<lparr>step_count := step_count A + 1, current_spec_tokens := cur,
       accept_history := deque_append (window_size A) (accept_history A) (of_nat (length acc) / of_nat (max (length drafts') 1)),
       total_accepted := total_accepted A + length acc, total_drafted := total_drafted A + length drafts'\<rparr>"
    using adaptive_stepE[OF assms(1)] by metis
  have d: "drafts' = drafts" using st(1,3) assms(2) by simp
  have acc: "0 < length acc" "length acc \<le> length drafts"
    using greedy_loop_nonempty[of argmax _ 0 drafts "[]"] assms(3) st(2) verify_greedy_length[OF st(2)] unfolding d verify_greedy_def by fastforce+
  have "last (deque_append (window_size A) (accept_history A) x) = x" for x :: 'p
    using assms(4) by (simp add: deque_append_def last_drop)
  then have r: "last (accept_history A') = of_nat (length acc) / of_nat (length drafts)"
    using st(3) d acc by simp
  have "(1 :: 'p) \<le> of_nat (length acc)" using acc(1) by (metis One_nat_def Suc_leI of_nat_1 of_nat_mono)
  then have "1 / of_nat (length drafts) \<le> last (accept_history A')" unfolding r by (rule divide_right_mono) simp
  moreover have "last (accept_history A') = 1" if "length drafts = 1"
  proof -
    have "length acc = 1" using acc that by linarith
    then show ?thesis using r that by simp
  qed
  ultimately show ?thesis by blast
qed

theorem adaptive_rate_counts_correction_witness:
  "\<exists>A'. adaptive_step id (\<lambda>h ids n. Inr [[3]]) (\<lambda>n. replicate n [4]) demo_adaptive () [] = Inr (A', [[4]], False) \<and> last (accept_history A') = 1"
proof -
  have ok: "case adaptive_step id (\<lambda>h ids n. Inr [[3]]) (\<lambda>n. replicate n [4]) demo_adaptive () [] of
      Inl _ \<Rightarrow> False | Inr r \<Rightarrow> snd r = ([[4]], False)" by code_simp
  obtain A' where A': "adaptive_step id (\<lambda>h ids n. Inr [[3]]) (\<lambda>n. replicate n [4]) demo_adaptive () [] = Inr (A', [[4]], False)"
    using res_caseE[OF ok] by (metis prod.collapse)
  show ?thesis using A' adaptive_rate_counts_correction[OF A', of "[[3]]"] by (simp add: demo_adaptive_def)
qed

context draft_proposer
begin

lemma adaptive_step_ok_iff:
  fixes A :: "'p::linordered_field adaptive"
  assumes "adaptive_inv A" "1 \<le> limit" "\<And>n. length (randn n) = n" "\<And>n rows. rows \<in> set (randn n) \<Longrightarrow> length rows = batch h"
  shows "is_ok (adaptive_step argmax propose randn A h ids) \<longleftrightarrow>
    \<not> (accept_history A = [] \<and> warmup_steps A \<le> step_count A \<and> warmup_steps A \<le> 0)"
proof (cases "adapt_length (A\<lparr>step_count := step_count A + 1\<rparr>)")
  case (Inl e)
  then have "accept_history A = [] \<and> warmup_steps A \<le> step_count A \<and> warmup_steps A \<le> 0"
    by (auto simp: adapt_length_def Let_def split: if_splits)
  then show ?thesis using Inl by (simp add: adaptive_step_def Let_def)
next
  case (Inr cur)
  then have no: "\<not> (accept_history A = [] \<and> warmup_steps A \<le> step_count A \<and> warmup_steps A \<le> 0)"
    by (auto simp: adapt_length_def Let_def split: if_splits)
  have "1 \<le> cur" using adapt_length_bounds[OF Inr] assms(1) by (simp add: adaptive_inv_def)
  let ?k = "nat (min cur limit)"
  obtain cols m where "propose h ids cur = Inr cols" "length cols = ?k"
    "verify_greedy argmax cols (randn (1 + ?k)) = Inr (take m (target_cols argmax (randn (1 + ?k)) 0 (length cols)), cols = target_cols argmax (randn (1 + ?k)) 0 (length cols))"
    using propose_and_verify[OF \<open>1 \<le> cur\<close> assms(2), of "randn (1 + ?k)" h ids argmax] assms(3,4) by auto
  then show ?thesis using Inr no by (simp add: adaptive_step_def Let_def)
qed

end

context draft_heads
begin

lemmas mtp_adaptive = mtp.adaptive_step_ok_iff

end

text \<open>C37: with the multi-token proposer, at least one prediction head and well-shaped target logits, a
  step of a reachable speculator raises in exactly one situation: no rate has been recorded yet
  and \<open>warmup_steps\<close> is not positive, when the average of an empty window divides by zero.\<close>

theorem adaptive_step_raises_iff:
  fixes A :: "'p::linordered_field adaptive"
  assumes "\<And>i h. length (proj i (normf h)) = batch h" and "1 \<le> limit"
    and "adaptive_reach argmax (mtp_propose argmax (mtp_init normf proj vocab limit)) A"
    and "\<And>n. length (randn n) = n" and "\<And>n rows. rows \<in> set (randn n) \<Longrightarrow> length rows = batch h"
  shows "is_ok (adaptive_step argmax (mtp_propose argmax (mtp_init normf proj vocab limit)) randn A h ids) \<longleftrightarrow>
    \<not> (accept_history A = [] \<and> warmup_steps A \<le> step_count A \<and> warmup_steps A \<le> 0)"
proof -
  have "draft_heads normf proj batch" using assms(1) by unfold_locales
  from draft_heads.mtp_adaptive[OF this adaptive_reach_inv[OF assms(3)] assms(2)] show ?thesis using assms(4,5) by blast
qed

theorem adaptive_step_raises_iff_witness:
  "is_ok (adaptive_step id (mtp_propose id (mtp_init (\<lambda>h. h) (\<lambda>i h. h) 9 2)) (\<lambda>n. replicate n [4, 4]) demo_adaptive [1, 2] []) \<and>
   \<not> is_ok (adaptive_step id (mtp_propose id (mtp_init (\<lambda>h. h) (\<lambda>i h. h) 9 2)) (\<lambda>n. replicate n [4, 4]) (demo_adaptive\<lparr>warmup_steps := 0\<rparr>) [1, 2] [])"
proof -
  let ?p = "mtp_propose id (mtp_init (\<lambda>h. h) (\<lambda>i h. h) 9 2)"
  have r: "adaptive_reach id ?p (demo_adaptive\<lparr>warmup_steps := 0\<rparr>)"
    by (rule adaptive_reach.start[of "6 / 10" 5 0 100]) (simp_all add: adaptive_init_def demo_adaptive_def)
  note iff = adaptive_step_raises_iff[where batch = length and proj = "\<lambda>i h. h" and normf = "\<lambda>h. h" and limit = 2 and vocab = 9
      and argmax = id and randn = "\<lambda>n. replicate n [4, 4]" and h = "[1, 2]" and ids = "[]"]
  show ?thesis using iff[OF _ _ demo_adaptive_reach] iff[OF _ _ r] by (simp add: demo_adaptive_def)
qed

end
