(* ===== verification/Func_Split.thy ===== *)
theory Func_Split
  imports Mlir_Module Cache_Policy "HOL-Library.Char_ord" "HOL-Library.List_Lexorder" "HOL-Library.Product_Lexorder"
begin

text \<open>
  The splitting of one operation list into a chain of functions, \<open>compiler/fx/split.py\<close>: where
  boundaries go, how operations are partitioned, which values cross function boundaries and in
  which order, which outputs belong to the key/value cache, and the execution plan that wires
  the functions together.  Python sets of names are lists without duplicates, in order of
  insertion; where the code iterates over a set, the parameter \<open>iter\<close> gives the order.  The
  result carries the \<open>ExecutionPlan\<close> message itself and not its bytes.  Progress messages are
  left out.
\<close>


text \<open>A set filled by adding the elements of a list in turn: its elements in order of insertion.\<close>

definition as_set :: "'a list \<Rightarrow> 'a list" where
  "as_set xs = rev (remdups (rev xs))"


section \<open>Attributes at function boundaries\<close>

definition dim_attr_names :: "string list" where
  "dim_attr_names = [''dim'', ''dim0'', ''dim1'', ''dimensions'', ''axis'']"

definition dim_list_attr_names :: "string list" where
  "dim_list_attr_names = [''dims'']"

text \<open>\<open>(rank - 1) if isinstance(v, int) and v >= rank else v\<close>; booleans are integers.\<close>

fun clamp_dim :: "int \<Rightarrow> json \<Rightarrow> json" where
  "clamp_dim rank (JInt v) = (if v \<ge> rank then JInt (rank - 1) else JInt v)"
| "clamp_dim rank (JBool b) = (if (if b then 1 else 0) \<ge> rank then JInt (rank - 1) else JBool b)"
| "clamp_dim rank v = v"

definition clamp_attr :: "int \<Rightarrow> string \<times> json \<Rightarrow> string \<times> json" where
  "clamp_attr rank = (\<lambda>(k, v).
     (k, if k \<in> set dim_attr_names then clamp_dim rank v
         else if k \<in> set dim_list_attr_names then (case v of JList vs \<Rightarrow> JList (map (clamp_dim rank) vs) | _ \<Rightarrow> v)
         else v))"

definition adjust_op_attributes :: "mlir_op \<Rightarrow> (string, int) dict \<Rightarrow> mlir_op" where
  "adjust_op_attributes op ranks =
     (if mo_op_name op \<in> {''weight'', ''constant'', ''_func_boundary''} then op
      else op\<lparr>mo_attributes :=
        foldl (\<lambda>attrs operand.
           (case map_of ranks (ssa_key operand) of
              None \<Rightarrow> attrs
            | Some rank \<Rightarrow> if rank \<le> 0 then attrs else map (clamp_attr rank) attrs))
          (mo_attributes op) (mo_operands op)\<rparr>)"


section \<open>Boundaries\<close>

definition sentinel :: mlir_op where
  "sentinel = \<lparr>mo_name = ''_sentinel'', mo_dialect = ''_sentinel'', mo_op_name = ''_func_boundary'', mo_operands = [],
     mo_results = [], mo_attributes = [], mo_input_types = [], mo_output_types = []\<rparr>"

definition is_boundary :: "mlir_op \<Rightarrow> bool" where
  "is_boundary op \<longleftrightarrow> mo_op_name op = ''_func_boundary''"

definition insert_sentinels :: "(nat \<Rightarrow> bool) \<Rightarrow> mlir_op list \<Rightarrow> mlir_op list" where
  "insert_sentinels here ops = concat (map (\<lambda>(i, op). if here i then [sentinel, op] else [op]) (enum_from 0 ops))"

definition split_into_functions :: "mlir_op list \<Rightarrow> int \<Rightarrow> int list \<Rightarrow> (mlir_op list \<times> int) res" where
  "split_into_functions ops ops_per_func boundaries =
     (if boundaries \<noteq> []
      then Inr (insert_sentinels (\<lambda>i. int i \<in> set boundaries) ops, int (length boundaries) + 1)
      else if int (length ops) \<le> ops_per_func then Inr (ops, 1)
      else if ops_per_func = 0 then Inl ZeroDivisionError
      else Inr (insert_sentinels (\<lambda>i. i > 0 \<and> int i mod ops_per_func = 0) ops,
                (int (length ops) + ops_per_func - 1) div ops_per_func))"


section \<open>Layers\<close>

text \<open>\<open>re.search(r"layers\.(\d+)", key)\<close>: the number of the leftmost match.\<close>

fun search_layer :: "string \<Rightarrow> int option" where
  "search_layer [] = None"
| "search_layer (c # cs) =
     (let ds = takeWhile (\<lambda>d. digit_val d \<noteq> None) (drop 7 (c # cs))
      in if starts_with (c # cs) ''layers.'' \<and> ds \<noteq> [] then int_digits 0 False ds else search_layer cs)"

definition lower_char :: "char \<Rightarrow> char" where
  "lower_char c = (let n = of_char c :: nat in if 65 \<le> n \<and> n \<le> 90 then char_of (n + 32) else c)"

definition layer_number :: "string list \<Rightarrow> int option" where
  "layer_number keys =
     foldl (\<lambda>best key. case search_layer key of
              None \<Rightarrow> best
            | Some n \<Rightarrow> (case best of None \<Rightarrow> Some n | Some b \<Rightarrow> if n > b then Some n else Some b)) None keys"

definition detect_layer :: "string list \<Rightarrow> string \<Rightarrow> string" where
  "detect_layer keys prev_layer =
     (if keys = [] then prev_layer
      else case layer_number keys of
             Some n \<Rightarrow> ''layer_'' @ string_of_int n
           | None \<Rightarrow>
               let low = join_with '' '' (map (map lower_char) keys)
               in if contains_str low ''lm_head'' \<or> contains_str low ''final_norm'' \<or> contains_str low ''final_layer_norm''
                  then ''output''
                  else if prev_layer \<noteq> [] \<and> starts_with prev_layer ''layer_'' then ''output''
                  else ''embed_prefix'')"


section \<open>Grouped-query chains\<close>

definition gqa_repeat_ops :: "string list" where
  "gqa_repeat_ops = [''unsqueeze'', ''expand'', ''view'']"

definition max_gqa_trace :: nat where
  "max_gqa_trace = 8"

definition producer_indices :: "mlir_op list \<Rightarrow> (string, nat) dict" where
  "producer_indices ops =
     foldl (\<lambda>d (i, op). foldl (\<lambda>d r. AList.update (ssa_key r) i d) d (mo_results op)) [] (enum_from 0 ops)"

fun gqa_trace :: "nat \<Rightarrow> mlir_op list \<Rightarrow> nat \<Rightarrow> (string, nat) dict \<Rightarrow> string \<Rightarrow> nat list" where
  "gqa_trace 0 ops sdpa_idx producers cur = []"
| "gqa_trace (Suc n) ops sdpa_idx producers cur =
     (case map_of producers cur of
        None \<Rightarrow> []
      | Some p \<Rightarrow>
          if p \<ge> sdpa_idx then []
          else let op = ops ! p
               in if mo_op_name op \<notin> set gqa_repeat_ops \<or> mo_operands op = [] then []
                  else p # (if mo_op_name op = ''unsqueeze'' then []
                            else gqa_trace n ops sdpa_idx producers (ssa_key (hd (mo_operands op)))))"

definition gqa_repeat_chain_start :: "mlir_op list \<Rightarrow> nat \<Rightarrow> nat \<Rightarrow> (string, nat) dict \<Rightarrow> nat option" where
  "gqa_repeat_chain_start ops sdpa_idx operand_idx producers =
     (let op = ops ! sdpa_idx
      in if operand_idx \<ge> length (mo_operands op) then None
         else let path = gqa_trace max_gqa_trace ops sdpa_idx producers (ssa_key (mo_operands op ! operand_idx))
              in if map (\<lambda>i. mo_op_name (ops ! i)) path = [''view'', ''expand'', ''unsqueeze''] then Some (last path) else None)"

definition sdpa_boundary :: "mlir_op list \<Rightarrow> (string, nat) dict \<Rightarrow> nat \<Rightarrow> nat" where
  "sdpa_boundary ops producers i =
     (case (gqa_repeat_chain_start ops i 1 producers, gqa_repeat_chain_start ops i 2 producers) of
        (Some k, Some v) \<Rightarrow> min k v
      | _ \<Rightarrow> i)"

definition sdpa_cache_boundary_indices :: "mlir_op list \<Rightarrow> nat list" where
  "sdpa_cache_boundary_indices ops =
     map (sdpa_boundary ops (producer_indices ops)) (filter (\<lambda>i. mo_op_name (ops ! i) = sdpa) [0..<length ops])"

fun trace_source :: "nat \<Rightarrow> mlir_op list \<Rightarrow> (string, nat) dict \<Rightarrow> string \<Rightarrow> string" where
  "trace_source 0 block producers cur = cur"
| "trace_source (Suc n) block producers cur =
     (case map_of producers cur of
        None \<Rightarrow> cur
      | Some p \<Rightarrow>
          let op = block ! p
          in if mo_op_name op \<notin> set gqa_repeat_ops \<or> mo_operands op = [] then cur
             else trace_source n block producers (ssa_key (hd (mo_operands op))))"

definition trace_sdpa_cache_source :: "mlir_op list \<Rightarrow> (string, nat) dict \<Rightarrow> string \<Rightarrow> string" where
  "trace_sdpa_cache_source block producers operand = trace_source max_gqa_trace block producers (ssa_key operand)"


section \<open>Partitioning\<close>

fun partition_blocks :: "mlir_op list \<Rightarrow> mlir_op list \<Rightarrow> mlir_op list list" where
  "partition_blocks current [] = (if current = [] then [] else [current])"
| "partition_blocks current (op # ops) =
     (if is_boundary op then (if current = [] then partition_blocks [] ops else current # partition_blocks [] ops)
      else partition_blocks (current @ [op]) ops)"

type_synonym blocks = "mlir_op list list"

text \<open>The results of a block, and the occurrences of results with their block and operation.\<close>

definition block_results :: "mlir_op list \<Rightarrow> string list" where
  "block_results block = concat (map (\<lambda>op. map ssa_key (mo_results op)) block)"

definition block_operands :: "mlir_op list \<Rightarrow> string list" where
  "block_operands block = concat (map (\<lambda>op. map ssa_key (mo_operands op)) block)"

definition result_types :: "mlir_op list \<Rightarrow> (string, string) dict" where
  "result_types ops =
     foldl (\<lambda>tm op. foldl (\<lambda>tm (idx, r). AList.update (ssa_key r)
         (if idx < length (mo_output_types op) then mo_output_types op ! idx else ''tensor<f32>'') tm)
       tm (enum_from 0 (mo_results op))) [] ops"

definition producer :: "blocks \<Rightarrow> (string, nat) dict" where
  "producer blocks =
     foldl (\<lambda>d (fi, block). foldl (\<lambda>d r. AList.update r fi d) d (block_results block)) [] (enum_from 0 blocks)"

definition weight_refs :: "string list \<Rightarrow> mlir_op list \<Rightarrow> string list" where
  "weight_refs weights block = as_set (filter (\<lambda>key. key \<in> set weights) (block_operands block))"

fun first_index :: "('a \<Rightarrow> bool) \<Rightarrow> 'a list \<Rightarrow> nat option" where
  "first_index P [] = None"
| "first_index P (x # xs) = (if P x then Some 0 else map_option Suc (first_index P xs))"

definition sdpa_position :: "mlir_op list \<Rightarrow> nat option" where
  "sdpa_position block = first_index (\<lambda>op. mo_op_name op = sdpa) block"

definition is_b_block :: "blocks \<Rightarrow> nat \<Rightarrow> bool" where
  "is_b_block blocks fi \<longleftrightarrow> 0 < fi \<and> fi < length blocks \<and>
     (case sdpa_position (blocks ! fi) of
        None \<Rightarrow> False
      | Some pos \<Rightarrow> list_all (\<lambda>op. mo_op_name op \<in> set gqa_repeat_ops) (take pos (blocks ! fi)))"

definition is_a_block :: "blocks \<Rightarrow> nat \<Rightarrow> bool" where
  "is_a_block blocks fi \<longleftrightarrow> is_b_block blocks (fi + 1)"

text \<open>The names \<open>(Q, K, V)\<close> that the attention operation of a "b" block reads; absent operands are empty names.\<close>

definition sdpa_kv_ssa :: "mlir_op list \<Rightarrow> string \<times> string \<times> string" where
  "sdpa_kv_ssa block =
     (case sdpa_position block of
        None \<Rightarrow> ([], [], [])
      | Some pos \<Rightarrow>
          let ops = mo_operands (block ! pos); prods = producer_indices block
          in (if length ops > 0 then ssa_key (ops ! 0) else [],
              if length ops > 1 then trace_sdpa_cache_source block prods (ops ! 1) else [],
              if length ops > 2 then trace_sdpa_cache_source block prods (ops ! 2) else []))"

text \<open>\<open>re.fullmatch(r"operand\[(\d+)\]", src)\<close>; a source that is not a string is a type error.\<close>

definition match_operand :: "string \<Rightarrow> int option" where
  "match_operand s =
     (let ds = takeWhile (\<lambda>d. digit_val d \<noteq> None) (drop 8 s)
      in if starts_with s ''operand['' \<and> ds \<noteq> [] \<and> drop (8 + length ds) s = '']'' then int_digits 0 False ds else None)"

definition operand_slab :: "cache_policy option \<Rightarrow> (int, json) dict res" where
  "operand_slab policy =
     (case policy of
        None \<Rightarrow> Inr []
      | Some p \<Rightarrow>
          res_foldM (\<lambda>d i. if \<not> is_sdpa i then Inr d
                          else case source i of
                                 JStr s \<Rightarrow> (case match_operand s of
                                             None \<Rightarrow> Inr d
                                           | Some k \<Rightarrow> Inr (AList.update k (icpt_slab_id i) d))
                               | _ \<Rightarrow> Inl TypeError)
            [] (intercepts p))"

definition name_block :: "string \<Rightarrow> blocks \<Rightarrow> string list \<times> nat \<Rightarrow> nat \<Rightarrow> string list \<times> nat" where
  "name_block base blocks st fi =
     (case st of (names, n) \<Rightarrow>
        let numbered = base @ ''_'' @ string_of_nat n
        in if is_b_block blocks fi then (names[fi - 1 := numbered @ ''a'', fi := numbered @ ''b''], n + 1)
           else if is_a_block blocks fi then (names, n)
           else (names[fi := numbered], n + 1))"

definition func_names :: "string \<Rightarrow> blocks \<Rightarrow> string list" where
  "func_names base blocks =
     fst (foldl (name_block base blocks) (replicate (length blocks) [], 0) [0..<length blocks])"


section \<open>Function inputs\<close>

definition needed :: "blocks \<Rightarrow> nat \<Rightarrow> string list" where
  "needed blocks fi =
     as_set (filter (\<lambda>key. case map_of (producer blocks) key of None \<Rightarrow> False | Some p \<Rightarrow> p \<noteq> fi)
       (block_operands (blocks ! fi)))"

definition prod_order :: "blocks \<Rightarrow> (string, nat \<times> nat) dict" where
  "prod_order blocks =
     foldl (\<lambda>d (fi, block). foldl (\<lambda>d (oi, op). foldl (\<lambda>d r. AList.update (ssa_key r) (fi, oi) d) d (mo_results op))
         d (enum_from 0 block)) [] (enum_from 0 blocks)"

definition typed_input :: "(string, string) dict \<Rightarrow> string \<Rightarrow> string \<times> string" where
  "typed_input types v = (CHR ''%'' # v, dict_get types v ''tensor<f32>'')"

definition sym_size_like :: "(string, string) dict \<Rightarrow> string \<Rightarrow> bool" where
  "sym_size_like types v = starts_with (dict_get types v []) ''tensor<1x''"

text \<open>
  The inputs of a later function: the earliest other value of the first function, the values of
  other functions in order of production, the remaining values of the first function, the
  weights by name, and last the values of the first function whose type begins with a unit
  dimension.
\<close>

definition later_input_names ::
    "(string list \<Rightarrow> string list) \<Rightarrow> blocks \<Rightarrow> (string, string) dict \<Rightarrow> string list \<Rightarrow> nat \<Rightarrow> string list" where
  "later_input_names iter blocks types weights fi =
     (let vs = iter (needed blocks fi);
          pos = (\<lambda>v. dict_get (prod_order blocks) v (999, 999));
          nw = sort_key (\<lambda>v. snd (pos v)) (filter (\<lambda>v. fst (pos v) = 0 \<and> v \<notin> set weights) vs);
          xfunc = sort_key pos (filter (\<lambda>v. fst (pos v) \<noteq> 0 \<and> v \<notin> set weights) vs);
          ws = sort (filter (\<lambda>v. v \<in> set weights) vs);
          rest = drop 1 nw
      in take 1 nw @ xfunc @ filter (\<lambda>v. \<not> sym_size_like types v) rest @ ws @ filter (sym_size_like types) rest)"

definition ordered_weight_inputs :: "(string list \<Rightarrow> string list) \<Rightarrow> blocks \<Rightarrow> string list \<Rightarrow> nat \<Rightarrow> string list" where
  "ordered_weight_inputs iter blocks weights fi = sort (filter (\<lambda>v. v \<in> set weights) (iter (needed blocks fi)))"

text \<open>The weight operations of the first function, by result.\<close>

definition ssa_to_wname :: "mlir_op list \<Rightarrow> (string, json) dict" where
  "ssa_to_wname block =
     foldl (\<lambda>d op. if mo_op_name op = ''weight'' \<and> mo_results op \<noteq> []
                     \<and> json_truthy (dict_get (mo_attributes op) ''name'' (JStr []))
                  then AList.update (ssa_key (hd (mo_results op))) (dict_get (mo_attributes op) ''name'' (JStr [])) d
                  else d) [] block"


section \<open>Function outputs\<close>

definition produced_here :: "blocks \<Rightarrow> nat \<Rightarrow> string list" where
  "produced_here blocks fi = as_set (block_results (blocks ! fi))"

definition exported :: "blocks \<Rightarrow> (string \<times> string \<times> bool) list \<Rightarrow> nat \<Rightarrow> string list" where
  "exported blocks global_outputs fi =
     filter (\<lambda>v. list_ex (\<lambda>block. v \<in> set (block_operands block)) (drop (fi + 1) blocks)
                \<or> v \<in> set (map (\<lambda>(n, _, _). ssa_key n) global_outputs))
       (produced_here blocks fi)"

definition kv_to_mark :: "blocks \<Rightarrow> nat \<Rightarrow> string list" where
  "kv_to_mark blocks fi =
     (if is_a_block blocks fi
      then case sdpa_kv_ssa (blocks ! (fi + 1)) of (q, k, v) \<Rightarrow> filter (\<lambda>s. s \<noteq> []) [k, v]
      else [])"

definition slab_for_ssa :: "blocks \<Rightarrow> (int, json) dict \<Rightarrow> nat \<Rightarrow> (string, json) dict" where
  "slab_for_ssa blocks by_operand fi =
     (if is_a_block blocks fi
      then case sdpa_kv_ssa (blocks ! (fi + 1)) of (q, k, v) \<Rightarrow>
        let d = (case map_of by_operand 1 of Some s \<Rightarrow> if k \<noteq> [] then [(k, s)] else [] | None \<Rightarrow> [])
        in (case map_of by_operand 2 of Some s \<Rightarrow> if v \<noteq> [] then AList.update v s d else d | None \<Rightarrow> d)
      else [])"

text \<open>
  In an "a" block the exported ones of Q, K and V come first, in this order and as often as the
  attention operation repeats a name, then the other exported values by name.
\<close>

definition ordered_outputs :: "blocks \<Rightarrow> (string \<times> string \<times> bool) list \<Rightarrow> nat \<Rightarrow> string list" where
  "ordered_outputs blocks global_outputs fi =
     (let ex = exported blocks global_outputs fi
      in if is_a_block blocks fi
         then case sdpa_kv_ssa (blocks ! (fi + 1)) of (q, k, v) \<Rightarrow>
           let qkv = filter (\<lambda>s. s \<noteq> [] \<and> s \<in> set ex) [q, k, v]
           in qkv @ filter (\<lambda>s. s \<notin> set qkv) (sort ex)
         else sort ex)"

definition func_outputs ::
    "(string list \<Rightarrow> string list) \<Rightarrow> blocks \<Rightarrow> (string, string) dict \<Rightarrow> (string \<times> string \<times> bool) list \<Rightarrow> nat
       \<Rightarrow> (string \<times> string \<times> bool) list res" where
  "func_outputs iter blocks types global_outputs fi =
     (let outs = map (\<lambda>v. (CHR ''%'' # v, dict_get types v ''tensor<f32>'', v \<in> set (kv_to_mark blocks fi)))
                   (ordered_outputs blocks global_outputs fi)
      in if outs \<noteq> [] then Inr outs
         else case iter (produced_here blocks fi) of
                [] \<Rightarrow> Inl IndexError
              | p # _ \<Rightarrow> Inr [(CHR ''%'' # p, dict_get types p ''tensor<f32>'', False)])"

definition func_bindings ::
    "blocks \<Rightarrow> (int, json) dict \<Rightarrow> (string \<times> string \<times> bool) list \<Rightarrow> nat \<Rightarrow> (nat \<times> nat \<times> json) list" where
  "func_bindings blocks by_operand global_outputs fi =
     List.map_filter (\<lambda>(oi, v).
         if v \<in> set (kv_to_mark blocks fi)
         then (case map_of (slab_for_ssa blocks by_operand fi) v of
                 None \<Rightarrow> None | Some s \<Rightarrow> if s = JNull then None else Some (fi, oi, s))
         else None)
       (enum_from 0 (ordered_outputs blocks global_outputs fi))"


section \<open>Building the functions\<close>

definition input_rank :: "string \<Rightarrow> int" where
  "input_rank tp = (if contains_str tp ''tensor<'' then max 1 (int (count_list tp (CHR ''x''))) else 0)"

definition input_rank_map :: "(string \<times> string) list \<Rightarrow> (string, int) dict" where
  "input_rank_map inputs = foldl (\<lambda>d (name, tp). AList.update (ssa_key name) (input_rank tp) d) [] inputs"

record split_args =
  sa_inputs :: "(string \<times> string) list"
  sa_outputs :: "(string \<times> string \<times> bool) list"
  sa_weights :: "string list"
  sa_params :: "string list"
  sa_consts :: "string list"
  sa_base :: string

definition func_inputs ::
    "(string list \<Rightarrow> string list) \<Rightarrow> split_args \<Rightarrow> blocks \<Rightarrow> (string, string) dict \<Rightarrow> nat \<Rightarrow> (string \<times> string) list" where
  "func_inputs iter args blocks types fi =
     (if fi = 0 then sa_inputs args
      else map (typed_input types) (later_input_names iter blocks types (sa_weights args) fi))"

definition func_weight_names :: "(string list \<Rightarrow> string list) \<Rightarrow> split_args \<Rightarrow> blocks \<Rightarrow> nat \<Rightarrow> json list" where
  "func_weight_names iter args blocks fi =
     (if fi = 0
      then let wn = ssa_to_wname (blocks ! 0);
               ex = filter (\<lambda>v. dict_has wn v) (sort (exported blocks (sa_outputs args) 0));
               consumed = filter (\<lambda>k. k \<notin> set ex) (dict_keys wn)
           in map (\<lambda>v. dict_get wn v JNull) (consumed @ ex)
      else map JStr (ordered_weight_inputs iter blocks (sa_weights args) fi))"

definition build_function ::
    "(string list \<Rightarrow> string list) \<Rightarrow> split_args \<Rightarrow> blocks \<Rightarrow> (string, string) dict \<Rightarrow> nat \<Rightarrow> mlir_function res" where
  "build_function iter args blocks types fi =
     res_bind (func_outputs iter blocks types (sa_outputs args) fi) (\<lambda>outs.
       let block = blocks ! fi; inputs = func_inputs iter args blocks types fi; refs = weight_refs (sa_weights args) block
       in Inr \<lparr>mf_name = func_names (sa_base args) blocks ! fi, mf_inputs = inputs, mf_outputs = outs,
               mf_ops = map (\<lambda>op. adjust_op_attributes op (input_rank_map inputs)) block,
               mf_weights = filter (\<lambda>k. k \<in> set refs) (sa_weights args),
               mf_param_weight_names = filter (\<lambda>k. k \<in> set refs) (sa_params args),
               mf_const_weight_names = filter (\<lambda>k. k \<in> set refs) (sa_consts args),
               mf_weight_names = func_weight_names iter args blocks fi\<rparr>)"


section \<open>The execution plan\<close>

record edge_input =
  ei_source :: nat
  ei_source_index :: nat
  ei_producer_step :: nat

record plan_step =
  ps_func_name :: string
  ps_inputs :: "edge_input list"

record execution_plan =
  ep_global_inputs :: "string list"
  ep_steps :: "plan_step list"

definition GLOBAL_INPUT :: nat where
  "GLOBAL_INPUT = 0"

definition STEP_OUTPUT :: nat where
  "STEP_OUTPUT = 1"

definition empty_execution_plan :: "(string \<times> string) list \<Rightarrow> mlir_function \<Rightarrow> execution_plan" where
  "empty_execution_plan global_inputs f =
     \<lparr>ep_global_inputs = map fst global_inputs,
      ep_steps = [\<lparr>ps_func_name = mf_name f,
        ps_inputs = map (\<lambda>_. \<lparr>ei_source = GLOBAL_INPUT, ei_source_index = 0, ei_producer_step = 0\<rparr>) (mf_inputs f)\<rparr>]\<rparr>"

definition flatten_execution_plan :: "execution_plan \<Rightarrow> nat list" where
  "flatten_execution_plan plan =
     [length (ep_steps plan), length (ep_global_inputs plan)] @
     concat (map (\<lambda>s. length (ps_inputs s) #
       concat (map (\<lambda>e. [ei_source e, ei_source_index e, ei_producer_step e]) (ps_inputs s))) (ep_steps plan))"

text \<open>A weight name that is no string has no \<open>startswith\<close>.\<close>

definition add_global_name :: "string list \<Rightarrow> mlir_op \<Rightarrow> string list res" where
  "add_global_name names op =
     (if mo_op_name op \<noteq> ''weight'' then Inr names
      else case dict_get (mo_attributes op) ''name'' (JStr []) of
             JStr w \<Rightarrow> Inr (if w \<noteq> [] \<and> w \<notin> set names \<and> \<not> starts_with w ''_const_'' then names @ [w] else names)
           | v \<Rightarrow> if json_truthy v then Inl AttributeError else Inr names)"

definition global_names :: "(string \<times> string) list \<Rightarrow> mlir_function \<Rightarrow> string list res" where
  "global_names global_inputs f = res_foldM add_global_name (map fst global_inputs) (mf_ops f)"

definition global_index :: "string list \<Rightarrow> string \<Rightarrow> nat res" where
  "global_index names name =
     (case first_index (\<lambda>n. n = ssa_key name) names of
        Some i \<Rightarrow> Inr i
      | None \<Rightarrow> res_of_option ValueError (first_index (\<lambda>n. n = name) names))"

definition output_index_of :: "mlir_function \<Rightarrow> string \<Rightarrow> nat option" where
  "output_index_of f key = first_index (\<lambda>(n, _, _). ssa_key n = key) (mf_outputs f)"

definition global_edge :: "string list \<Rightarrow> string \<Rightarrow> edge_input res" where
  "global_edge names name =
     res_bind (global_index names name) (\<lambda>gi. Inr \<lparr>ei_source = GLOBAL_INPUT, ei_source_index = gi, ei_producer_step = 0\<rparr>)"

definition step_edge :: "nat \<Rightarrow> nat \<Rightarrow> edge_input" where
  "step_edge s out_idx = \<lparr>ei_source = STEP_OUTPUT, ei_source_index = s, ei_producer_step = out_idx\<rparr>"

definition or_zero :: "nat option \<Rightarrow> nat" where
  "or_zero m = (case m of None \<Rightarrow> 0 | Some i \<Rightarrow> i)"

definition input_edge ::
    "string list \<Rightarrow> string list \<Rightarrow> (string, nat) dict \<Rightarrow> mlir_function list \<Rightarrow> nat \<Rightarrow> string \<Rightarrow> edge_input res" where
  "input_edge weights names prods funcs fi name =
     (let key = ssa_key name
      in if fi = 0 then global_edge names name
         else if key \<in> set weights
         then (case output_index_of (funcs ! 0) key of
                 Some oi \<Rightarrow> Inr (step_edge 0 oi)
               | None \<Rightarrow> global_edge names name)
         else (case map_of prods key of
                 Some p \<Rightarrow> if p > 0 then Inr (step_edge p (or_zero (output_index_of (funcs ! p) key)))
                          else Inr (step_edge 0 (or_zero (output_index_of (funcs ! 0) key)))
               | None \<Rightarrow> Inr (step_edge 0 (or_zero (output_index_of (funcs ! 0) key)))))"

definition step_inputs ::
    "string list \<Rightarrow> string list \<Rightarrow> (string, nat) dict \<Rightarrow> mlir_function list \<Rightarrow> edge_input list list res" where
  "step_inputs weights names prods funcs =
     res_mapM (\<lambda>(fi, f). res_mapM (\<lambda>(name, _). input_edge weights names prods funcs fi name) (mf_inputs f))
       (enum_from 0 funcs)"

definition build_plan :: "string list \<Rightarrow> mlir_function list \<Rightarrow> edge_input list list \<Rightarrow> execution_plan" where
  "build_plan names funcs sis =
     \<lparr>ep_global_inputs = names,
      ep_steps = map (\<lambda>(f, es). \<lparr>ps_func_name = mf_name f, ps_inputs = es\<rparr>) (zip funcs sis)\<rparr>"


section \<open>The whole split\<close>

record split_result =
  sr_functions :: "mlir_function list"
  sr_chain_order :: "string list"
  sr_exec_plan_data :: "nat list"
  sr_plan :: execution_plan
  sr_bindings :: "(nat \<times> nat \<times> json) list"

definition single_weight_names :: "mlir_op list \<Rightarrow> json list" where
  "single_weight_names ops =
     filter json_truthy (map (\<lambda>op. dict_get (mo_attributes op) ''name'' (JStr []))
       (filter (\<lambda>op. mo_op_name op = ''weight'') ops))"

definition single_function :: "split_args \<Rightarrow> mlir_op list \<Rightarrow> mlir_function" where
  "single_function args ops =
     \<lparr>mf_name = sa_base args, mf_inputs = sa_inputs args, mf_outputs = sa_outputs args, mf_ops = ops,
      mf_weights = sa_weights args, mf_param_weight_names = sa_params args, mf_const_weight_names = sa_consts args,
      mf_weight_names = single_weight_names ops\<rparr>"

definition make_multi_functions ::
    "(string list \<Rightarrow> string list) \<Rightarrow> mlir_op list \<Rightarrow> split_args \<Rightarrow> cache_policy option \<Rightarrow> split_result res" where
  "make_multi_functions iter ops args policy =
     (let blocks = partition_blocks [] ops
      in if length blocks \<le> 1
         then let f = single_function args ops
              in Inr \<lparr>sr_functions = [f], sr_chain_order = [sa_base args], sr_exec_plan_data = [],
                      sr_plan = empty_execution_plan (sa_inputs args) f, sr_bindings = []\<rparr>
         else
           res_bind (operand_slab policy) (\<lambda>by_operand.
           res_bind (res_mapM (build_function iter args blocks (result_types ops)) [0..<length blocks]) (\<lambda>funcs.
           res_bind (global_names (sa_inputs args) (funcs ! 0)) (\<lambda>names.
           res_bind (step_inputs (sa_weights args) names (producer blocks) funcs) (\<lambda>sis.
             let plan = build_plan names funcs sis
             in Inr \<lparr>sr_functions = funcs, sr_chain_order = map mf_name funcs,
                     sr_exec_plan_data = flatten_execution_plan plan, sr_plan = plan,
                     sr_bindings = concat (map (func_bindings blocks by_operand (sa_outputs args)) [0..<length blocks])\<rparr>)))))"


section \<open>Partitioning keeps every operation\<close>

lemma concat_partition: "concat (partition_blocks current ops) = current @ filter (\<lambda>op. \<not> is_boundary op) ops"
  by (induction current ops rule: partition_blocks.induct) auto

lemma partition_nonempty: "[] \<notin> set (partition_blocks current ops)"
  by (induction current ops rule: partition_blocks.induct) auto

lemma sentinel_boundary [simp]: "is_boundary sentinel"
  by (simp add: is_boundary_def sentinel_def)

text \<open>Sentinels before the operations at the positions \<open>here\<close>, counted from \<open>k\<close>.\<close>

definition sentinels_from :: "nat \<Rightarrow> (nat \<Rightarrow> bool) \<Rightarrow> mlir_op list \<Rightarrow> mlir_op list" where
  "sentinels_from k here ops = concat (map (\<lambda>(i, op). if here i then [sentinel, op] else [op]) (enum_from k ops))"

lemma sentinels_from_simps [simp]:
  "sentinels_from k here [] = []"
  "sentinels_from k here (op # ops) = (if here k then [sentinel, op] else [op]) @ sentinels_from (Suc k) here ops"
  by (simp_all add: sentinels_from_def)

lemma insert_sentinels_from: "insert_sentinels here ops = sentinels_from 0 here ops"
  by (simp add: insert_sentinels_def sentinels_from_def)

lemma filter_sentinels:
  "list_all (\<lambda>op. \<not> is_boundary op) ops \<Longrightarrow> filter (\<lambda>op. \<not> is_boundary op) (sentinels_from k here ops) = ops"
  by (induction ops arbitrary: k) auto

lemma partition_sentinels_length:
  assumes "list_all (\<lambda>op. \<not> is_boundary op) ops"
  shows "length (partition_blocks current (sentinels_from k here ops)) =
     (if current = [] \<and> ops = [] then 0
      else 1 + card {i. (if current = [] then k < i else k \<le> i) \<and> i < k + length ops \<and> here i})"
  using assms
proof (induction ops arbitrary: current k)
  case (Cons op ops)
  let ?S = "{i. Suc k \<le> i \<and> i < Suc k + length ops \<and> here i}"
  have fin: "finite ?S" by (rule finite_subset[of _ "{..<Suc k + length ops}"]) auto
  have rest: "length (partition_blocks [op] (sentinels_from (Suc k) here ops)) = 1 + card ?S"
    "length (partition_blocks (current @ [op]) (sentinels_from (Suc k) here ops)) = 1 + card ?S"
    using Cons by simp_all
  have here: "here k \<Longrightarrow> {i. k \<le> i \<and> i < k + length (op # ops) \<and> here i} = insert k ?S"
    and skip: "\<not> here k \<Longrightarrow> {i. k \<le> i \<and> i < k + length (op # ops) \<and> here i} = ?S"
    and strict: "{i. k < i \<and> i < k + length (op # ops) \<and> here i} = ?S"
    by (auto simp: le_less)
  show ?case using Cons.prems rest strict here skip fin by (cases "here k"; cases "current = []") auto
qed (simp add: card_eq_0_iff)

text \<open>Inserting function boundaries anywhere and partitioning at them keeps every operation, in order, and makes one block more than there are boundaries strictly inside the operation list; no block is empty.\<close>

theorem split_partition_exact:
  assumes "list_all (\<lambda>op. \<not> is_boundary op) ops"
  shows "concat (partition_blocks [] (insert_sentinels here ops)) = ops
       \<and> [] \<notin> set (partition_blocks [] (insert_sentinels here ops))
       \<and> length (partition_blocks [] (insert_sentinels here ops)) =
           (if ops = [] then 0 else 1 + card {i. 0 < i \<and> i < length ops \<and> here i})"
  using assms partition_sentinels_length[OF assms, of "[]" 0 here]
  by (simp add: concat_partition partition_nonempty insert_sentinels_from filter_sentinels)

lemma multiples_card: "0 < k \<Longrightarrow> card {i. 0 < i \<and> i < n \<and> i mod k = 0} = (n - 1) div (k::nat)"
proof -
  assume k: "0 < k"
  have "{i. 0 < i \<and> i < n \<and> i mod k = 0} = (\<lambda>j. j * k) ` {1..(n - 1) div k}" (is "?L = ?R")
  proof
    show "?L \<subseteq> ?R"
    proof
      fix i assume i: "i \<in> ?L"
      then obtain j where j: "i = j * k" by (auto simp: dvd_def mod_eq_0_iff_dvd mult.commute)
      have "j * k \<le> n - 1" using i j by auto
      then have "j \<le> (n - 1) div k" using k by (simp add: less_eq_div_iff_mult_less_eq)
      moreover have "1 \<le> j" using i j by (cases j) auto
      ultimately show "i \<in> ?R" using j by auto
    qed
    show "?R \<subseteq> ?L"
    proof
      fix i assume "i \<in> ?R"
      then obtain j where j: "i = j * k" "1 \<le> j" "j * k \<le> n - 1" using k by (auto simp: less_eq_div_iff_mult_less_eq)
      have "0 < j * k" using j k by simp
      then have "0 < i" "i < n" using j(1,3) by linarith+
      then show "i \<in> ?L" using j(1) by simp
    qed
  qed
  moreover have "inj_on (\<lambda>j. j * k) {1..(n - 1) div k}" using k by (auto simp: inj_on_def)
  ultimately show ?thesis by (simp add: card_image)
qed

lemma ceil_div_inside: "\<lbrakk>0 < k; 0 < n\<rbrakk> \<Longrightarrow> (n + k - 1) div k = 1 + (n - 1) div (k::nat)"
proof -
  assume k: "0 < k" and n: "0 < n"
  have "n + k - 1 = (n - 1) + k" using n by simp
  then have "(n + k - 1) div k = ((n - 1) + k) div k" by (rule arg_cong)
  also have "\<dots> = (n - 1) div k + 1" using k by (subst div_add_self2) simp_all
  finally show ?thesis by simp
qed

text \<open>The number of functions the splitter reports is the number of blocks its output is partitioned into: always for a split by a positive operation count, and for a split at given boundaries that are distinct and lie strictly inside a non-empty operation list.\<close>

theorem split_reports_block_count:
  assumes clean: "list_all (\<lambda>op. \<not> is_boundary op) ops" and ne: "ops \<noteq> []"
    and bs: "distinct boundaries" "\<forall>b \<in> set boundaries. 0 < b \<and> b < int (length ops)" and pos: "0 < per_func"
    and run: "split_into_functions ops per_func boundaries = Inr (ops', n)"
  shows "int (length (partition_blocks [] ops')) = n"
proof (cases "boundaries = []")
  case False
  have eq: "{i. 0 < i \<and> i < length ops \<and> int i \<in> set boundaries} = nat ` set boundaries"
    using bs(2) by (auto simp: image_iff) (metis nat_int)
  have "inj_on nat (set boundaries)" using bs(2) by (auto simp: inj_on_def)
  then have "card (nat ` set boundaries) = length boundaries" using bs(1) by (simp add: card_image distinct_card)
  then show ?thesis
    using run False ne partition_sentinels_length[OF clean, of "[]" 0 "\<lambda>i. int i \<in> set boundaries"] eq
    by (auto simp: split_into_functions_def insert_sentinels_from)
next
  case none: True
  show ?thesis
  proof (cases "int (length ops) \<le> per_func")
    case True
    have "sentinels_from 0 (\<lambda>_. False) ops = ops" by (simp add: sentinels_from_def enum_from_def case_prod_unfold map_zip_map2) 
    then show ?thesis using True none run ne partition_sentinels_length[OF clean, of "[]" 0 "\<lambda>_. False"]
      by (simp add: split_into_functions_def)
  next
    case False
    obtain k where k: "per_func = int k" "0 < k" using pos by (metis gr0I int_nat_eq less_le nat_0_iff not_le zero_less_nat_eq)
    have eq: "{i. 0 < i \<and> i < length ops \<and> 0 < i \<and> int i mod per_func = 0} = {i. 0 < i \<and> i < length ops \<and> i mod k = 0}"
      using k by (auto simp flip: of_nat_mod)
    have "n = int ((length ops + k - 1) div k)" using False none run k
      by (auto simp: split_into_functions_def of_nat_diff zdiv_int)
    then show ?thesis using False none run ne k eq multiples_card[OF k(2), of "length ops"] ceil_div_inside[OF k(2), of "length ops"]
      partition_sentinels_length[OF clean, of "[]" 0 "\<lambda>i. 0 < i \<and> int i mod per_func = 0"]
      by (auto simp: split_into_functions_def insert_sentinels_from)
  qed
qed


theorem split_partition_exact_witness:
  "concat (partition_blocks [] (insert_sentinels (\<lambda>i. i = 1) [sentinel\<lparr>mo_op_name := ''add''\<rparr>, sentinel\<lparr>mo_op_name := ''mul''\<rparr>]))
     = [sentinel\<lparr>mo_op_name := ''add''\<rparr>, sentinel\<lparr>mo_op_name := ''mul''\<rparr>]"
  using split_partition_exact[of "[sentinel\<lparr>mo_op_name := ''add''\<rparr>, sentinel\<lparr>mo_op_name := ''mul''\<rparr>]" "\<lambda>i. i = 1"]
  by (simp add: is_boundary_def)

theorem split_reports_block_count_witness:
  "\<exists>ops'. split_into_functions [sentinel\<lparr>mo_op_name := ''add''\<rparr>, sentinel\<lparr>mo_op_name := ''mul''\<rparr>] 500 [1] = Inr (ops', 2)
     \<and> int (length (partition_blocks [] ops')) = 2"
proof -
  let ?ops = "[sentinel\<lparr>mo_op_name := ''add''\<rparr>, sentinel\<lparr>mo_op_name := ''mul''\<rparr>]"
  obtain ops' where "split_into_functions ?ops 500 [1] = Inr (ops', 2)" by (simp add: split_into_functions_def)
  then show ?thesis using split_reports_block_count[of ?ops "[1]" 500 ops' 2] by (simp add: is_boundary_def)
qed


text \<open>Boundaries that repeat or lie at the ends are counted although they make no block.\<close>

lemma split_count_off:
  "case split_into_functions [sentinel\<lparr>mo_op_name := ''add''\<rparr>, sentinel\<lparr>mo_op_name := ''mul''\<rparr>] 500 [0, 1, 1] of
     Inl _ \<Rightarrow> False | Inr (ops', n) \<Rightarrow> n = 4 \<and> length (partition_blocks [] ops') = 2"
  by code_simp

text \<open>The plan of an unsplit module reads every input from the first global input.\<close>

lemma empty_plan_binds_first:
  "e \<in> set (ps_inputs (hd (ep_steps (empty_execution_plan ins f)))) \<Longrightarrow> ei_source_index e = 0"
  by (auto simp: empty_execution_plan_def)

end
