(* ===== verification/Split_Wiring.thy ===== *)
theory Split_Wiring
  imports Func_Split "HOL-Library.Multiset"
begin

text \<open>
  What the execution plan of a split promises: every input of a later function is wired to an
  output of an earlier step that carries the value of the same name, and the cache bindings are
  exactly the outputs marked as consumed by the cache.
\<close>

section \<open>Producers\<close>

lemma map_of_update_all: "map_of (foldl (\<lambda>d r. AList.update r x d) d rs) v = (if v \<in> set rs then Some x else map_of d v)"
  by (induction rs arbitrary: d) auto

definition producer_from :: "nat \<Rightarrow> (string, nat) dict \<Rightarrow> blocks \<Rightarrow> (string, nat) dict" where
  "producer_from k d blocks =
     foldl (\<lambda>d (fi, block). foldl (\<lambda>d r. AList.update r fi d) d (block_results block)) d (enum_from k blocks)"

lemma producer_from_simps [simp]:
  "producer_from k d [] = d"
  "producer_from k d (b # bs) = producer_from (Suc k) (foldl (\<lambda>d r. AList.update r k d) d (block_results b)) bs"
  by (simp_all add: producer_from_def)

lemma producer_from_Some:
  "map_of (producer_from k d blocks) v = Some p \<Longrightarrow>
     (map_of d v = Some p \<and> (\<forall>b \<in> set blocks. v \<notin> set (block_results b)))
     \<or> (k \<le> p \<and> p < k + length blocks \<and> v \<in> set (block_results (blocks ! (p - k))))"
proof (induction blocks arbitrary: k d)
  case (Cons b bs)
  from Cons.IH[OF Cons.prems[simplified]] show ?case
    by (auto simp: map_of_update_all nth_Cons' split: if_splits)
qed simp

lemma producer_from_None:
  "map_of (producer_from k d blocks) v = None \<longleftrightarrow> map_of d v = None \<and> (\<forall>b \<in> set blocks. v \<notin> set (block_results b))"
  by (induction blocks arbitrary: k d) (auto simp: map_of_update_all)

lemma producer_Some:
  "map_of (producer blocks) v = Some p \<Longrightarrow> p < length blocks \<and> v \<in> set (block_results (blocks ! p))"
  using producer_from_Some[of 0 "[]" blocks v p] by (simp add: producer_def producer_from_def)

lemma producer_None: "map_of (producer blocks) v = None \<longleftrightarrow> (\<forall>b \<in> set blocks. v \<notin> set (block_results b))"
  using producer_from_None[of 0 "[]" blocks v] by (simp add: producer_def producer_from_def)


section \<open>Definitions before uses\<close>

text \<open>No operation reads the result of a later one (weight operations name their own result).\<close>

fun ssa_ordered :: "mlir_op list \<Rightarrow> bool" where
  "ssa_ordered [] = True"
| "ssa_ordered (op # ops) =
     (list_all (\<lambda>v. ssa_key v \<notin> set (block_results ops)) (mo_operands op) \<and> ssa_ordered ops)"

lemma block_results_append [simp]: "block_results (xs @ ys) = block_results xs @ block_results ys"
  by (simp add: block_results_def)

lemma block_results_concat: "set (block_results (concat bs)) = (\<Union>b \<in> set bs. set (block_results b))"
  by (induction bs) (auto simp: block_results_def)

lemma block_operands_Cons: "block_operands (op # ops) = map ssa_key (mo_operands op) @ block_operands ops"
  by (simp add: block_operands_def)

lemma block_results_Cons: "block_results (op # ops) = map ssa_key (mo_results op) @ block_results ops"
  by (simp add: block_results_def)

lemma ssa_ordered_append:
  "ssa_ordered (xs @ ys) \<longleftrightarrow> ssa_ordered xs \<and> ssa_ordered ys \<and> set (block_operands xs) \<inter> set (block_results ys) = {}"
proof (induction xs)
  case (Cons op xs)
  have "set (block_operands (op # xs)) \<inter> set (block_results ys) = {} \<longleftrightarrow>
      (\<forall>v \<in> set (mo_operands op). ssa_key v \<notin> set (block_results ys)) \<and> set (block_operands xs) \<inter> set (block_results ys) = {}"
    by (auto simp: block_operands_Cons)
  with Cons show ?case by (auto simp: block_results_Cons list_all_iff)
qed (simp add: block_operands_def)

lemma ssa_ordered_blocks:
  assumes "ssa_ordered (concat blocks)" "fi < p" "p < length blocks" "v \<in> set (block_operands (blocks ! fi))"
  shows "v \<notin> set (block_results (blocks ! p))"
proof -
  have "concat blocks = concat (take fi blocks) @ blocks ! fi @ concat (drop (Suc fi) blocks)"
    using assms by (metis concat.simps(2) concat_append id_take_nth_drop less_trans)
  moreover have "blocks ! p \<in> set (drop (Suc fi) blocks)"
    using assms by (auto simp: in_set_conv_nth intro!: exI[of _ "p - Suc fi"])
  ultimately show ?thesis using assms(1,4) by (auto simp: ssa_ordered_append block_results_concat)
qed


section \<open>Inputs\<close>

lemma set_as_set [simp]: "set (as_set xs) = set xs"
  by (simp add: as_set_def)

lemma distinct_as_set [simp]: "distinct (as_set xs)"
  by (simp add: as_set_def)

lemma in_needed:
  "v \<in> set (needed blocks fi) \<longleftrightarrow>
     v \<in> set (block_operands (blocks ! fi)) \<and> (\<exists>p. map_of (producer blocks) v = Some p \<and> p \<noteq> fi)"
  by (auto simp: needed_def split: option.splits)

lemma mset_filter_split: "mset (filter P xs) + mset (filter (\<lambda>x. \<not> P x) xs) = mset xs"
  by (induction xs) auto

lemma later_input_names_mset:
  "mset (later_input_names iter blocks types weights fi) = mset (iter (needed blocks fi))"
proof -
  define vs where "vs = iter (needed blocks fi)"
  define Z where "Z = (\<lambda>v. fst (dict_get (prod_order blocks) v (999, 999)) = 0)"
  define nw where "nw = sort_key (\<lambda>v. snd (dict_get (prod_order blocks) v (999, 999))) (filter (\<lambda>v. Z v \<and> v \<notin> set weights) vs)"
  have parts: "mset (filter (\<lambda>v. Z v \<and> v \<notin> set weights) vs) + mset (filter (\<lambda>v. \<not> Z v \<and> v \<notin> set weights) vs)
      + mset (filter (\<lambda>v. v \<in> set weights) vs) = mset vs"
    by (induction vs) auto
  have nw: "mset (take 1 nw) + (mset (filter (\<lambda>v. \<not> sym_size_like types v) (drop 1 nw))
      + mset (filter (sym_size_like types) (drop 1 nw))) = mset (filter (\<lambda>v. Z v \<and> v \<notin> set weights) vs)"
  proof -
    have "mset (take 1 nw) + mset (drop 1 nw) = mset nw" by (metis append_take_drop_id mset_append)
    then show ?thesis using mset_filter_split[of "sym_size_like types" "drop 1 nw"] by (simp add: nw_def add.commute)
  qed
  have "mset (later_input_names iter blocks types weights fi) =
      mset (take 1 nw) + mset (filter (\<lambda>v. \<not> Z v \<and> v \<notin> set weights) vs)
      + mset (filter (\<lambda>v. \<not> sym_size_like types v) (drop 1 nw)) + mset (filter (\<lambda>v. v \<in> set weights) vs)
      + mset (filter (sym_size_like types) (drop 1 nw))"
    by (simp add: later_input_names_def Let_def vs_def[symmetric] nw_def Z_def)
  then show ?thesis unfolding vs_def[symmetric] parts[symmetric] nw[symmetric] by (simp only: ac_simps)
qed


section \<open>Outputs\<close>

lemma first_index_Some: "first_index P xs = Some i \<Longrightarrow> i < length xs \<and> P (xs ! i) \<and> (\<forall>j < i. \<not> P (xs ! j))"
proof (induction xs arbitrary: i)
  case (Cons x xs)
  show ?case
  proof (cases "P x")
    case False
    then obtain k where k: "first_index P xs = Some k" "i = Suc k" using Cons.prems by auto
    show ?thesis using Cons.IH[OF k(1)] k(2) False by (auto simp: less_Suc_eq_0_disj)
  qed (use Cons.prems in auto)
qed simp

lemma first_index_None: "first_index P xs = None \<longleftrightarrow> (\<forall>x \<in> set xs. \<not> P x)"
  by (induction xs) auto

lemma set_ordered_outputs [simp]: "set (ordered_outputs blocks gouts fi) = set (exported blocks gouts fi)"
proof -
  have front: "set (filter (\<lambda>s. s \<noteq> [] \<and> s \<in> set ex) ys @ filter (\<lambda>s. s \<notin> set (filter (\<lambda>s. s \<noteq> [] \<and> s \<in> set ex) ys)) (sort ex)) = set ex"
    for ex ys :: "string list" by auto
  obtain q k v where "sdpa_kv_ssa (blocks ! (fi + 1)) = (q, k, v)" by (cases "sdpa_kv_ssa (blocks ! (fi + 1))")
  then show ?thesis using front[of "exported blocks gouts fi" "[q, k, v]"]
    by (simp add: ordered_outputs_def Let_def del: filter.simps)
qed

lemma in_set_drop: "x \<in> set (drop (Suc k) xs) \<longleftrightarrow> (\<exists>q. k < q \<and> q < length xs \<and> x = xs ! q)"
proof
  assume "x \<in> set (drop (Suc k) xs)"
  then obtain i where "i < length xs - Suc k" "x = xs ! (Suc k + i)" by (auto simp: in_set_conv_nth)
  then show "\<exists>q. k < q \<and> q < length xs \<and> x = xs ! q" by (intro exI[of _ "Suc k + i"]) auto
next
  assume "\<exists>q. k < q \<and> q < length xs \<and> x = xs ! q"
  then obtain q where "k < q" "q < length xs" "x = xs ! q" by blast
  then show "x \<in> set (drop (Suc k) xs)" by (auto simp: in_set_conv_nth intro!: exI[of _ "q - Suc k"])
qed

lemma in_exported:
  "v \<in> set (exported blocks gouts fi) \<longleftrightarrow> v \<in> set (block_results (blocks ! fi)) \<and>
     ((\<exists>q. fi < q \<and> q < length blocks \<and> v \<in> set (block_operands (blocks ! q)))
      \<or> v \<in> set (map (\<lambda>(n, _, _). ssa_key n) gouts))"
proof -
  have "list_ex (\<lambda>block. v \<in> set (block_operands block)) (drop (Suc fi) blocks)
      \<longleftrightarrow> (\<exists>q. fi < q \<and> q < length blocks \<and> v \<in> set (block_operands (blocks ! q)))"
    unfolding list_ex_iff Bex_def in_set_drop by blast
  then show ?thesis by (simp add: exported_def produced_here_def)
qed

lemma result_key: "v \<in> set (block_results b) \<Longrightarrow> ssa_key v = v"
  by (auto simp: block_results_def)

lemma operand_key: "v \<in> set (block_operands b) \<Longrightarrow> ssa_key v = v"
  by (auto simp: block_operands_def)

lemma key_percent: "ssa_key v = v \<Longrightarrow> ssa_key (CHR ''%'' # v) = v"
  using ssa_key_percent[of v] by simp

lemma func_outputs_index:
  assumes outs: "func_outputs iter blocks types gouts fi = Inr outs" and ex: "v \<in> set (exported blocks gouts fi)"
  obtains oi where "first_index (\<lambda>(n, _, _). ssa_key n = v) outs = Some oi" "oi < length outs" "ssa_key (fst (outs ! oi)) = v"
proof -
  have ne: "ordered_outputs blocks gouts fi \<noteq> []" using ex by (metis empty_iff list.set(1) set_ordered_outputs)
  then have eq: "outs = map (\<lambda>v. (CHR ''%'' # v, dict_get types v ''tensor<f32>'', v \<in> set (kv_to_mark blocks fi)))
      (ordered_outputs blocks gouts fi)" using outs by (auto simp: func_outputs_def Let_def)
  have "ssa_key (CHR ''%'' # v) = v" using ex by (auto simp: in_exported intro: key_percent result_key)
  then have "\<exists>x \<in> set outs. case x of (n, _, _) \<Rightarrow> ssa_key n = v" using ex eq by force
  then obtain oi where "first_index (\<lambda>(n, _, _). ssa_key n = v) outs = Some oi"
    by (metis (no_types, lifting) first_index_None not_Some_eq)
  then show thesis using first_index_Some[of "\<lambda>(n, _, _). ssa_key n = v" outs oi] that by (auto split: prod.splits)
qed


section \<open>Edges\<close>

lemma res_mapM_nth: "res_mapM f xs = Inr ys \<Longrightarrow> i < length xs \<Longrightarrow> f (xs ! i) = Inr (ys ! i)"
proof (induction xs arbitrary: ys i)
  case (Cons x xs)
  obtain y zs where "f x = Inr y" "res_mapM f xs = Inr zs" "ys = y # zs" using Cons.prems(1) by (auto simp: res_bind_eq_Inr)
  then show ?case using Cons.IH[of zs "i - 1"] Cons.prems(2) by (cases i) auto
qed simp

lemma ssa_ordered_filter: "ssa_ordered ops \<Longrightarrow> ssa_ordered (filter P ops)"
proof (induction ops)
  case (Cons op ops)
  have "set (block_results (filter P ops)) \<subseteq> set (block_results ops)" by (auto simp: block_results_def)
  with Cons show ?case by (cases "P op") (auto simp: block_results_Cons list_all_iff)
qed simp

text \<open>The functions of a split module with at least two blocks, and the steps of its plan.\<close>

lemma multi_functionsE:
  assumes "make_multi_functions iter ops args policy = Inr r" "1 < length (sr_functions r)"
  obtains blocks names sis by_operand where
    "blocks = partition_blocks [] ops" "length blocks = length (sr_functions r)"
    "operand_slab policy = Inr by_operand"
    "\<And>i. i < length blocks \<Longrightarrow> build_function iter args blocks (result_types ops) i = Inr (sr_functions r ! i)"
    "global_names (sa_inputs args) (sr_functions r ! 0) = Inr names"
    "step_inputs (sa_weights args) names (producer blocks) (sr_functions r) = Inr sis"
    "sr_plan r = build_plan names (sr_functions r) sis"
    "sr_bindings r = concat (map (func_bindings blocks by_operand (sa_outputs args)) [0..<length blocks])"
proof -
  let ?b = "partition_blocks [] ops"
  have ne: "\<not> length ?b \<le> 1" using assms by (auto simp: make_multi_functions_def Let_def)
  obtain slab funcs names sis where run: "operand_slab policy = Inr slab"
      "res_mapM (build_function iter args ?b (result_types ops)) [0..<length ?b] = Inr funcs"
      "global_names (sa_inputs args) (funcs ! 0) = Inr names"
      "step_inputs (sa_weights args) names (producer ?b) funcs = Inr sis"
      "sr_plan r = build_plan names funcs sis" "sr_functions r = funcs"
      "sr_bindings r = concat (map (func_bindings ?b slab (sa_outputs args)) [0..<length ?b])"
    using assms(1) ne by (auto simp: make_multi_functions_def Let_def res_bind_eq_Inr)
  have built: "build_function iter args ?b (result_types ops) i = Inr (sr_functions r ! i)" if "i < length ?b" for i
    using res_mapM_nth[OF run(2), of i] that run(6) by simp
  show thesis using that[OF refl _ run(1) built] run res_mapM_length[OF run(2)] by simp
qed

lemma step_edges:
  assumes "step_inputs weights names prods funcs = Inr sis" "fi < length funcs"
  shows "length sis = length funcs" "length (sis ! fi) = length (mf_inputs (funcs ! fi))"
    "\<And>j. j < length (mf_inputs (funcs ! fi)) \<Longrightarrow>
       input_edge weights names prods funcs fi (fst (mf_inputs (funcs ! fi) ! j)) = Inr (sis ! fi ! j)"
proof -
  show "length sis = length funcs" using assms res_mapM_length by (fastforce simp: step_inputs_def)
  have *: "res_mapM (\<lambda>(name, _). input_edge weights names prods funcs fi name) (mf_inputs (funcs ! fi)) = Inr (sis ! fi)"
    using res_mapM_nth[OF assms(1)[unfolded step_inputs_def], of fi] assms(2) by (simp add: nth_enum_from)
  show "length (sis ! fi) = length (mf_inputs (funcs ! fi))" using res_mapM_length[OF *] .
  show "input_edge weights names prods funcs fi (fst (mf_inputs (funcs ! fi) ! j)) = Inr (sis ! fi ! j)"
    if "j < length (mf_inputs (funcs ! fi))" for j
    using res_mapM_nth[OF * that] by (simp add: case_prod_unfold)
qed

lemma build_functionE:
  assumes "build_function iter args blocks types fi = Inr f"
  obtains outs where "func_outputs iter blocks types (sa_outputs args) fi = Inr outs" "mf_outputs f = outs"
    "mf_inputs f = func_inputs iter args blocks types fi" "mf_name f = func_names (sa_base args) blocks ! fi"
  using assms unfolding build_function_def Let_def res_bind_eq_Inr by fastforce

lemma adjusted_ops [simp]:
  "mo_operands (adjust_op_attributes op ranks) = mo_operands op" "mo_results (adjust_op_attributes op ranks) = mo_results op"
  "mo_op_name (adjust_op_attributes op ranks) = mo_op_name op"
  by (simp_all add: adjust_op_attributes_def)

lemma built_ops:
  assumes "build_function iter args blocks types fi = Inr f"
  shows "block_operands (mf_ops f) = block_operands (blocks ! fi)" "block_results (mf_ops f) = block_results (blocks ! fi)"
  using assms unfolding build_function_def Let_def res_bind_eq_Inr
  by (auto simp: block_operands_def block_results_def comp_def intro!: arg_cong[of _ _ concat])

text \<open>An edge that reads, at an earlier step, an output that carries the value of the given name.\<close>

definition edge_wired :: "mlir_function list \<Rightarrow> nat \<Rightarrow> string \<Rightarrow> edge_input \<Rightarrow> bool" where
  "edge_wired funcs fi name e \<longleftrightarrow> ei_source e = STEP_OUTPUT \<and> ei_source_index e < fi
     \<and> ei_producer_step e < length (mf_outputs (funcs ! ei_source_index e))
     \<and> ssa_key (fst (mf_outputs (funcs ! ei_source_index e) ! ei_producer_step e)) = ssa_key name"

lemma needed_edge_wired:
  assumes built: "\<And>i. i < length blocks \<Longrightarrow> build_function iter args blocks types i = Inr (funcs ! i)"
    and ssa: "ssa_ordered (concat blocks)" and fi: "0 < fi" "fi < length blocks"
    and weights: "\<forall>b \<in> set (tl blocks). set (block_results b) \<inter> set (sa_weights args) = {}"
    and v: "v \<in> set (needed blocks fi)"
    and edge: "input_edge (sa_weights args) names (producer blocks) funcs fi (CHR ''%'' # v) = Inr e"
  shows "edge_wired funcs fi (CHR ''%'' # v) e"
proof -
  obtain p where p: "map_of (producer blocks) v = Some p" "p \<noteq> fi" and use: "v \<in> set (block_operands (blocks ! fi))"
    using v by (auto simp: in_needed)
  have res: "p < length blocks" "v \<in> set (block_results (blocks ! p))" using producer_Some[OF p(1)] by auto
  have "p < fi" using ssa_ordered_blocks[OF ssa _ res(1) use] res(2) p(2) by (meson linorder_neqE_nat)
  then have ex: "v \<in> set (exported blocks (sa_outputs args) p)" using res use fi by (auto simp: in_exported)
  have key: "ssa_key (CHR ''%'' # v) = v" using use by (intro key_percent operand_key)
  obtain outs where outs: "func_outputs iter blocks types (sa_outputs args) p = Inr outs" "mf_outputs (funcs ! p) = outs"
    using build_functionE[OF built[OF res(1)]] by metis
  obtain oi where oi: "output_index_of (funcs ! p) v = Some oi" "oi < length outs" "ssa_key (fst (outs ! oi)) = v"
    using func_outputs_index[OF outs(1) ex] outs(2) by (auto simp: output_index_of_def)
  have "p = 0" if "v \<in> set (sa_weights args)"
  proof (rule ccontr)
    assume "p \<noteq> 0"
    then have "blocks ! p \<in> set (tl blocks)" using res(1) by (cases blocks; cases p) auto
    then show False using weights res(2) that by blast
  qed
  then have "e = step_edge p oi" using edge p(1) oi(1) key fi by (auto simp: input_edge_def Let_def or_zero_def split: if_splits)
  then show ?thesis using \<open>p < fi\<close> oi outs(2) key by (simp add: edge_wired_def step_edge_def)
qed


lemma build_plan_step:
  "fi < length funcs \<Longrightarrow> length sis = length funcs \<Longrightarrow>
   ep_steps (build_plan names funcs sis) ! fi = \<lparr>ps_func_name = mf_name (funcs ! fi), ps_inputs = sis ! fi\<rparr>"
  by (simp add: build_plan_def)

lemma plan_inputs_wired:
  assumes run: "make_multi_functions iter ops args policy = Inr r"
    and order: "\<And>xs. mset (iter xs) = mset xs" and ssa: "ssa_ordered ops"
    and weights: "\<forall>b \<in> set (tl (partition_blocks [] ops)). set (block_results b) \<inter> set (sa_weights args) = {}"
    and fi: "0 < fi" "fi < length (sr_functions r)"
  shows "list_all2 (\<lambda>(name, _). edge_wired (sr_functions r) fi name)
     (mf_inputs (sr_functions r ! fi)) (ps_inputs (ep_steps (sr_plan r) ! fi))"
proof -
  have "1 < length (sr_functions r)" using fi by simp
  then obtain blocks names sis where split: "blocks = partition_blocks [] ops" "length blocks = length (sr_functions r)"
    "\<And>i. i < length blocks \<Longrightarrow> build_function iter args blocks (result_types ops) i = Inr (sr_functions r ! i)"
    "step_inputs (sa_weights args) names (producer blocks) (sr_functions r) = Inr sis"
    "sr_plan r = build_plan names (sr_functions r) sis"
    using multi_functionsE[OF run] by metis
  have ssa': "ssa_ordered (concat blocks)" using ssa by (simp add: split(1) concat_partition ssa_ordered_filter)
  have fi': "fi < length blocks" using fi split(2) by simp
  let ?ns = "later_input_names iter blocks (result_types ops) (sa_weights args) fi"
  have ins: "mf_inputs (sr_functions r ! fi) = map (typed_input (result_types ops)) ?ns"
    using build_functionE[OF split(3)[OF fi']] fi(1) by (auto simp: func_inputs_def)
  have "set ?ns = set (needed blocks fi)" using later_input_names_mset order by (metis set_mset_mset)
  then have wired: "edge_wired (sr_functions r) fi (CHR ''%'' # ?ns ! j) (sis ! fi ! j)" if "j < length ?ns" for j
    using needed_edge_wired[OF split(3) ssa' fi(1) fi' weights[folded split(1)]] step_edges(3)[OF split(4) fi(2), of j] that ins
    by (auto simp: typed_input_def) (metis nth_mem)
  show ?thesis
    using wired step_edges(1,2)[OF split(4) fi(2)] ins fi(2)
    by (simp add: list_all2_conv_all_nth split(5) build_plan_step typed_input_def)
qed

lemma plan_shape:
  assumes "make_multi_functions iter ops args policy = Inr r" "1 < length (sr_functions r)"
  shows "length (ep_steps (sr_plan r)) = length (sr_functions r)"
    "map ps_func_name (ep_steps (sr_plan r)) = sr_chain_order r"
    "sr_exec_plan_data r = flatten_execution_plan (sr_plan r)"
proof -
  obtain names sis blocks where plan: "sr_plan r = build_plan names (sr_functions r) sis"
    and "step_inputs (sa_weights args) names (producer blocks) (sr_functions r) = Inr sis"
    using multi_functionsE[OF assms] by metis
  then have len: "length sis = length (sr_functions r)" using step_edges(1) assms(2) by (metis less_trans zero_less_one)
  show "length (ep_steps (sr_plan r)) = length (sr_functions r)" using plan len by (simp add: build_plan_def)
  have chain: "sr_chain_order r = map mf_name (sr_functions r)" "sr_exec_plan_data r = flatten_execution_plan (sr_plan r)"
    using assms by (auto simp: make_multi_functions_def Let_def res_bind_eq_Inr split: if_splits)
  then show "sr_exec_plan_data r = flatten_execution_plan (sr_plan r)" by simp
  show "map ps_func_name (ep_steps (sr_plan r)) = sr_chain_order r"
    using plan len chain by (auto simp: build_plan_def intro!: nth_equalityI)
qed

text \<open>C9: In the execution plan of a split module, every input of every function but the first is an edge to an earlier step, to an output position that exists there and carries the value of that name; the operations must define names before they use them, weights must be defined in the first block, and Python's order of set elements is an arbitrary permutation.\<close>

theorem split_inputs_wired:
  assumes run: "make_multi_functions iter ops args policy = Inr r"
    and order: "\<And>xs. mset (iter xs) = mset xs" and ssa: "ssa_ordered ops"
    and weights: "\<forall>b \<in> set (tl (partition_blocks [] ops)). set (block_results b) \<inter> set (sa_weights args) = {}"
    and fi: "0 < fi" "fi < length (sr_functions r)"
  shows "list_all2 (\<lambda>(name, _). edge_wired (sr_functions r) fi name)
     (mf_inputs (sr_functions r ! fi)) (ps_inputs (ep_steps (sr_plan r) ! fi))"
  using assms by (rule plan_inputs_wired)

text \<open>A function of a split module is closed: every operand of its operations is a result of the function itself, one of its inputs, or a name that no operation of the module defines; and a later function takes each of its inputs exactly once.\<close>

theorem split_functions_closed:
  assumes run: "make_multi_functions iter ops args policy = Inr r"
    and order: "\<And>xs. mset (iter xs) = mset xs" and fi: "0 < fi" "fi < length (sr_functions r)"
  shows "distinct (map (ssa_key \<circ> fst) (mf_inputs (sr_functions r ! fi))) \<and>
     set (block_operands (mf_ops (sr_functions r ! fi))) \<subseteq>
       set (block_results (mf_ops (sr_functions r ! fi))) \<union> (ssa_key \<circ> fst) ` set (mf_inputs (sr_functions r ! fi))
       \<union> - set (block_results (filter (\<lambda>op. \<not> is_boundary op) ops))"
proof -
  have "1 < length (sr_functions r)" using fi by simp
  then obtain blocks where split: "blocks = partition_blocks [] ops" "length blocks = length (sr_functions r)"
    "\<And>i. i < length blocks \<Longrightarrow> build_function iter args blocks (result_types ops) i = Inr (sr_functions r ! i)"
    using multi_functionsE[OF run] by metis
  have fi': "fi < length blocks" using fi split(2) by simp
  let ?ns = "later_input_names iter blocks (result_types ops) (sa_weights args) fi"
  have ins: "mf_inputs (sr_functions r ! fi) = map (typed_input (result_types ops)) ?ns"
    using build_functionE[OF split(3)[OF fi']] fi(1) by (auto simp: func_inputs_def)
  have ns: "mset ?ns = mset (needed blocks fi)" using later_input_names_mset order by metis
  have keys: "map (ssa_key \<circ> fst) (mf_inputs (sr_functions r ! fi)) = ?ns"
    unfolding ins using mset_eq_setD[OF ns] in_needed[of _ blocks fi]
    by (auto simp: typed_input_def key_percent operand_key intro!: map_idI)
  have ops: "block_operands (mf_ops (sr_functions r ! fi)) = block_operands (blocks ! fi)"
    "block_results (mf_ops (sr_functions r ! fi)) = block_results (blocks ! fi)"
    using built_ops[OF split(3)[OF fi']] by simp_all
  have "distinct ?ns" using ns by (metis distinct_as_set mset_eq_imp_distinct_iff needed_def)
  moreover have "v \<in> set (block_results (blocks ! fi)) \<union> set ?ns \<union> - set (block_results (filter (\<lambda>op. \<not> is_boundary op) ops))"
    if "v \<in> set (block_operands (blocks ! fi))" for v
  proof (cases "map_of (producer blocks) v")
    case None
    have "concat blocks = filter (\<lambda>op. \<not> is_boundary op) ops" by (simp add: split(1) concat_partition)
    then have "set (block_results (filter (\<lambda>op. \<not> is_boundary op) ops)) = (\<Union>b \<in> set blocks. set (block_results b))"
      using block_results_concat[of blocks] by simp
    then show ?thesis using None by (simp add: producer_None)
  next
    case (Some p)
    then show ?thesis using that producer_Some[OF Some] mset_eq_setD[OF ns] by (auto simp: in_needed)
  qed
  ultimately show ?thesis using keys ops by (metis (mono_tags, lifting) list.set_map subsetI)
qed


section \<open>Cache bindings\<close>

lemma slab_for_ssa_marked:
  assumes "map_of by_operand 1 = Some s1" "map_of by_operand 2 = Some s2" "v \<in> set (kv_to_mark blocks fi)"
  shows "map_of (slab_for_ssa blocks by_operand fi) v = Some s1 \<or> map_of (slab_for_ssa blocks by_operand fi) v = Some s2"
proof -
  obtain q k w where qkv: "sdpa_kv_ssa (blocks ! (fi + 1)) = (q, k, w)" by (cases "sdpa_kv_ssa (blocks ! (fi + 1))")
  have a: "is_a_block blocks fi"
  proof (rule ccontr)
    assume "\<not> is_a_block blocks fi"
    then have "kv_to_mark blocks fi = []" by (simp add: kv_to_mark_def)
    then show False using assms(3) by simp
  qed
  then have "kv_to_mark blocks fi = filter (\<lambda>s. s \<noteq> []) [k, w]" using qkv by (simp add: kv_to_mark_def)
  then have "v \<in> {s \<in> {k, w}. s \<noteq> []}" using assms(3) by (metis list.set(1,2) set_filter)
  then have "v \<noteq> []" "v = k \<or> v = w" by auto
  moreover have "slab_for_ssa blocks by_operand fi =
      (let d = (if k \<noteq> [] then [(k, s1)] else []) in if w \<noteq> [] then AList.update w s2 d else d)"
    using a qkv assms(1,2) by (simp add: slab_for_ssa_def)
  ultimately show ?thesis by (cases "k = []"; cases "w = []"; cases "v = w") (simp_all add: Let_def)
qed

lemma in_map_filter: "y \<in> set (List.map_filter f xs) \<longleftrightarrow> (\<exists>x \<in> set xs. f x = Some y)"
proof (induction xs)
  case (Cons x xs)
  then show ?case by (cases "f x") (auto simp: map_filter_simps)
qed (simp add: map_filter_simps)

lemma in_func_bindings:
  "(i, oi, s) \<in> set (func_bindings blocks by_operand gouts fi) \<longleftrightarrow> i = fi \<and> s \<noteq> JNull \<and>
     (\<exists>v. (oi, v) \<in> set (enum_from 0 (ordered_outputs blocks gouts fi)) \<and> v \<in> set (kv_to_mark blocks fi)
        \<and> map_of (slab_for_ssa blocks by_operand fi) v = Some s)"
proof
  assume "(i, oi, s) \<in> set (func_bindings blocks by_operand gouts fi)"
  then show "i = fi \<and> s \<noteq> JNull \<and> (\<exists>v. (oi, v) \<in> set (enum_from 0 (ordered_outputs blocks gouts fi))
      \<and> v \<in> set (kv_to_mark blocks fi) \<and> map_of (slab_for_ssa blocks by_operand fi) v = Some s)"
    by (auto simp: func_bindings_def in_map_filter split: if_splits option.splits)
next
  assume "i = fi \<and> s \<noteq> JNull \<and> (\<exists>v. (oi, v) \<in> set (enum_from 0 (ordered_outputs blocks gouts fi))
      \<and> v \<in> set (kv_to_mark blocks fi) \<and> map_of (slab_for_ssa blocks by_operand fi) v = Some s)"
  then show "(i, oi, s) \<in> set (func_bindings blocks by_operand gouts fi)"
    by (auto simp: func_bindings_def in_map_filter intro!: bexI)
qed

lemma func_bindings_consumed:
  assumes slabs: "map_of by_operand 1 = Some s1" "map_of by_operand 2 = Some s2" "s1 \<noteq> JNull" "s2 \<noteq> JNull"
    and outs: "func_outputs iter blocks types gouts fi = Inr outs"
  shows "(\<exists>s. (fi, oi, s) \<in> set (func_bindings blocks by_operand gouts fi)) \<longleftrightarrow> oi < length outs \<and> snd (snd (outs ! oi))"
proof (cases "ordered_outputs blocks gouts fi = []")
  case True
  have "\<not> snd (snd (outs ! oi))" if "oi < length outs"
    using outs True that by (auto simp: func_outputs_def Let_def split: list.splits)
  then show ?thesis using True by (auto simp: in_func_bindings)
next
  case False
  then have eq: "outs = map (\<lambda>v. (CHR ''%'' # v, dict_get types v ''tensor<f32>'', v \<in> set (kv_to_mark blocks fi)))
      (ordered_outputs blocks gouts fi)" using outs by (auto simp: func_outputs_def Let_def)
  have hit: "\<exists>s. map_of (slab_for_ssa blocks by_operand fi) v = Some s \<and> s \<noteq> JNull" if "v \<in> set (kv_to_mark blocks fi)" for v
    using slab_for_ssa_marked[OF slabs(1,2) that] slabs(3,4) by auto
  show ?thesis
  proof
    assume "\<exists>s. (fi, oi, s) \<in> set (func_bindings blocks by_operand gouts fi)"
    then obtain v where "(oi, v) \<in> set (enum_from 0 (ordered_outputs blocks gouts fi))" "v \<in> set (kv_to_mark blocks fi)"
      by (auto simp: in_func_bindings)
    then show "oi < length outs \<and> snd (snd (outs ! oi))" by (auto simp: eq set_enum_from)
  next
    assume oi: "oi < length outs \<and> snd (snd (outs ! oi))"
    define v where "v = ordered_outputs blocks gouts fi ! oi"
    have "(oi, v) \<in> set (enum_from 0 (ordered_outputs blocks gouts fi))" "v \<in> set (kv_to_mark blocks fi)"
      using oi by (auto simp: eq set_enum_from v_def)
    then show "\<exists>s. (fi, oi, s) \<in> set (func_bindings blocks by_operand gouts fi)"
      using hit[of v] by (auto simp: in_func_bindings)
  qed
qed

lemma func_bindings_slabs:
  assumes "map_of by_operand 1 = Some s1" "map_of by_operand 2 = Some s2"
    and "(i, oi, s) \<in> set (func_bindings blocks by_operand gouts fi)"
  shows "s \<in> {s1, s2}"
proof -
  obtain v where "v \<in> set (kv_to_mark blocks fi)" "map_of (slab_for_ssa blocks by_operand fi) v = Some s"
    using assms(3) by (auto simp: in_func_bindings)
  then show ?thesis using slab_for_ssa_marked[OF assms(1,2)] by fastforce
qed


lemma operand_slab_llama:
  "operand_slab (Some (for_llama layers heads head_dim bs)) = Inr [(1, JStr ''k''), (2, JStr ''v'')]"
proof -
  have "match_operand ''operand[1]'' = Some 1" "match_operand ''operand[2]'' = Some 2" by code_simp+
  then show ?thesis by (simp add: operand_slab_def for_llama_def rw_intercept_def is_sdpa_def)
qed

lemma bindings_exact_llama:
  assumes run: "make_multi_functions iter ops args (Some (for_llama layers heads head_dim bs)) = Inr r"
    and fi: "fi < length (sr_functions r)" "1 < length (sr_functions r)"
  shows "((\<exists>s. (fi, oi, s) \<in> set (sr_bindings r)) \<longleftrightarrow>
           oi < length (mf_outputs (sr_functions r ! fi)) \<and> snd (snd (mf_outputs (sr_functions r ! fi) ! oi)))
       \<and> (\<forall>s. (fi, oi, s) \<in> set (sr_bindings r) \<longrightarrow> s = JStr ''k'' \<or> s = JStr ''v'')"
proof -
  obtain blocks by_operand where split: "length blocks = length (sr_functions r)"
    "operand_slab (Some (for_llama layers heads head_dim bs)) = Inr by_operand"
    "\<And>i. i < length blocks \<Longrightarrow> build_function iter args blocks (result_types ops) i = Inr (sr_functions r ! i)"
    "sr_bindings r = concat (map (func_bindings blocks by_operand (sa_outputs args)) [0..<length blocks])"
    using multi_functionsE[OF run fi(2)] by metis
  have slabs: "map_of by_operand 1 = Some (JStr ''k'')" "map_of by_operand 2 = Some (JStr ''v'')"
    using split(2)[symmetric] by (simp_all add: operand_slab_llama)
  have mem: "(fi, oi, s) \<in> set (sr_bindings r) \<longleftrightarrow> (fi, oi, s) \<in> set (func_bindings blocks by_operand (sa_outputs args) fi)" for s
    using fi split(1) by (auto simp: split(4) in_func_bindings)
  obtain outs where "func_outputs iter blocks (result_types ops) (sa_outputs args) fi = Inr outs" "mf_outputs (sr_functions r ! fi) = outs"
    using build_functionE[OF split(3)[of fi]] fi split(1) by metis
  then show ?thesis unfolding mem
    using func_bindings_consumed[OF slabs] func_bindings_slabs[OF slabs] by auto
qed

text \<open>C13: Under a Llama cache policy the binding table of a split module is complete and exact: an output of a function has a binding if and only if it is marked as consumed by the cache, and every binding names the key slab or the value slab.\<close>

theorem split_bindings_exact:
  assumes run: "make_multi_functions iter ops args (Some (for_llama layers heads head_dim bs)) = Inr r"
    and fi: "fi < length (sr_functions r)" "1 < length (sr_functions r)"
  shows "((\<exists>s. (fi, oi, s) \<in> set (sr_bindings r)) \<longleftrightarrow>
           oi < length (mf_outputs (sr_functions r ! fi)) \<and> snd (snd (mf_outputs (sr_functions r ! fi) ! oi)))
       \<and> (\<forall>s. (fi, oi, s) \<in> set (sr_bindings r) \<longrightarrow> s = JStr ''k'' \<or> s = JStr ''v'')"
  using assms by (rule bindings_exact_llama)


section \<open>A split attention layer\<close>

definition layer_op :: "string \<Rightarrow> string list \<Rightarrow> string \<Rightarrow> mlir_op" where
  "layer_op n operands result =
     \<lparr>mo_name = ''sf.'' @ n, mo_dialect = ''sf'', mo_op_name = n, mo_operands = operands, mo_results = [result],
      mo_attributes = (if n = ''weight'' then [(''name'', JStr ''w'')] else [(''dim'', JInt 3)]),
      mo_input_types = [], mo_output_types = [''tensor<2x4xf32>'']\<rparr>"

definition layer_ops :: "mlir_op list" where
  "layer_ops = [layer_op ''weight'' [''w''] ''%w'', layer_op ''linear'' [''%x'', ''%w''] ''%q'', layer_op ''linear'' [''%x'', ''%w''] ''%k'',
     layer_op ''linear'' [''%x'', ''%w''] ''%v'', sentinel, layer_op sdpa [''%q'', ''%k'', ''%v''] ''%a'',
     layer_op ''linear'' [''%a'', ''%w''] ''%y'']"

definition layer_args :: split_args where
  "layer_args = \<lparr>sa_inputs = [(''%x'', ''tensor<2x4xf32>'')], sa_outputs = [(''%y'', ''tensor<2x4xf32>'', False)],
     sa_weights = [''w''], sa_params = [''w''], sa_consts = [], sa_base = ''main''\<rparr>"

definition layer_edge :: "nat \<Rightarrow> nat \<Rightarrow> nat \<Rightarrow> edge_input" where
  "layer_edge a b c = \<lparr>ei_source = a, ei_source_index = b, ei_producer_step = c\<rparr>"

lemma layer_run:
  "case make_multi_functions id layer_ops layer_args (Some (for_llama 1 1 4 16)) of Inl _ \<Rightarrow> False
   | Inr r \<Rightarrow> length (sr_functions r) = 2 \<and>
       map mf_outputs (sr_functions r) = [[(''%q'', ''tensor<2x4xf32>'', False), (''%k'', ''tensor<2x4xf32>'', True),
          (''%v'', ''tensor<2x4xf32>'', True), (''%w'', ''tensor<2x4xf32>'', False)], [(''%y'', ''tensor<2x4xf32>'', False)]] \<and>
       map ps_inputs (ep_steps (sr_plan r)) = [[layer_edge 0 0 0], [layer_edge 1 0 0, layer_edge 1 0 1, layer_edge 1 0 2, layer_edge 1 0 3]]
       \<and> sr_chain_order r = [''main_0a'', ''main_0b'']"
  by code_simp


lemmas layer_result = res_caseE[OF layer_run]

lemma layer_ssa: "ssa_ordered layer_ops"
  by code_simp

lemma layer_weights: "\<forall>b \<in> set (tl (partition_blocks [] layer_ops)). set (block_results b) \<inter> set (sa_weights layer_args) = {}"
  by code_simp

theorem split_inputs_wired_witness:
  "\<exists>r. make_multi_functions id layer_ops layer_args (Some (for_llama 1 1 4 16)) = Inr r \<and>
     list_all2 (\<lambda>(name, _). edge_wired (sr_functions r) 1 name) (mf_inputs (sr_functions r ! 1)) (ps_inputs (ep_steps (sr_plan r) ! 1))"
proof -
  obtain r where r: "make_multi_functions id layer_ops layer_args (Some (for_llama 1 1 4 16)) = Inr r" "length (sr_functions r) = 2"
    using layer_result by blast
  have "1 < length (sr_functions r)" using r(2) by simp
  then show ?thesis using split_inputs_wired[OF r(1) _ layer_ssa layer_weights, of 1] r(1) by simp
qed

theorem split_functions_closed_witness:
  "\<exists>r. make_multi_functions id layer_ops layer_args (Some (for_llama 1 1 4 16)) = Inr r \<and>
     set (block_operands (mf_ops (sr_functions r ! 1))) \<subseteq>
       set (block_results (mf_ops (sr_functions r ! 1))) \<union> (ssa_key \<circ> fst) ` set (mf_inputs (sr_functions r ! 1))
       \<union> - set (block_results (filter (\<lambda>op. \<not> is_boundary op) layer_ops))"
proof -
  obtain r where r: "make_multi_functions id layer_ops layer_args (Some (for_llama 1 1 4 16)) = Inr r" "length (sr_functions r) = 2"
    using layer_result by blast
  have "1 < length (sr_functions r)" using r(2) by simp
  then show ?thesis using split_functions_closed[OF r(1), of 1] r(1) by auto
qed

theorem split_bindings_exact_witness:
  "\<exists>r s. make_multi_functions id layer_ops layer_args (Some (for_llama 1 1 4 16)) = Inr r \<and> (0, 1, s) \<in> set (sr_bindings r)
     \<and> (s = JStr ''k'' \<or> s = JStr ''v'')"
proof -
  obtain r where r: "make_multi_functions id layer_ops layer_args (Some (for_llama 1 1 4 16)) = Inr r" "length (sr_functions r) = 2"
    "map mf_outputs (sr_functions r) = [[(''%q'', ''tensor<2x4xf32>'', False), (''%k'', ''tensor<2x4xf32>'', True),
          (''%v'', ''tensor<2x4xf32>'', True), (''%w'', ''tensor<2x4xf32>'', False)], [(''%y'', ''tensor<2x4xf32>'', False)]]"
    using layer_result by (elim exE conjE) (rule that; assumption)
  have "mf_outputs (sr_functions r ! 0) = map mf_outputs (sr_functions r) ! 0" by (rule nth_map[symmetric]) (simp add: r(2))
  then have "mf_outputs (sr_functions r ! 0) ! 1 = (''%k'', ''tensor<2x4xf32>'', True)" "1 < length (mf_outputs (sr_functions r ! 0))"
    unfolding r(3) by simp_all
  then have "\<exists>s. (0, 1, s) \<in> set (sr_bindings r)" "\<forall>s. (0, 1, s) \<in> set (sr_bindings r) \<longrightarrow> s = JStr ''k'' \<or> s = JStr ''v''"
    using split_bindings_exact[OF r(1), of 0 1] r(2) by auto
  then show ?thesis using r(1) by blast
qed

end
