(* ===== verification/Split_Names.thy ===== *)
theory Split_Names
  imports Split_Wiring
begin

text \<open>
  The names of the functions of a split module: a closed form of the naming loop, and that no two
  functions share a name, so that the consumers that look functions up by name find the right
  one.  Also where the splitter puts the boundary of an attention operation.
\<close>

section \<open>Numbered names\<close>

definition numbered :: "string \<Rightarrow> nat \<Rightarrow> string \<Rightarrow> string" where
  "numbered base n suffix = base @ ''_'' @ string_of_nat n @ suffix"

definition suffixes :: "string set" where
  "suffixes = {[], ''a'', ''b''}"

lemma digits_takeWhile:
  "list_all is_digit ds \<Longrightarrow> s \<in> suffixes \<Longrightarrow> takeWhile is_digit (ds @ s) = ds \<and> dropWhile is_digit (ds @ s) = s"
  by (induction ds) (auto simp: suffixes_def is_digit_def)

lemma numbered_inj:
  assumes "numbered base n s = numbered base m t" "s \<in> suffixes" "t \<in> suffixes"
  shows "n = m" "s = t"
proof -
  have eq: "string_of_nat n @ s = string_of_nat m @ t" using assms(1) by (simp add: numbered_def)
  note n = digits_takeWhile[OF string_of_nat_digits[of n] assms(2)] and m = digits_takeWhile[OF string_of_nat_digits[of m] assms(3)]
  have "string_of_nat n = takeWhile is_digit (string_of_nat n @ s)" using n by simp
  also have "\<dots> = takeWhile is_digit (string_of_nat m @ t)" by (subst eq) (rule refl)
  also have "\<dots> = string_of_nat m" using m by simp
  finally have same: "string_of_nat n = string_of_nat m" .
  show "s = t" using eq unfolding same by simp
  have "Some (int n) = Some (int m)"
    unfolding int_digits_string_of_nat[symmetric] same by (rule refl)
  then show "n = m" by simp
qed


section \<open>The naming loop\<close>

text \<open>The layer number when block \<open>i\<close> is reached, and the name block \<open>i\<close> ends up with.\<close>

fun layer_count :: "blocks \<Rightarrow> nat \<Rightarrow> nat" where
  "layer_count blocks 0 = 0"
| "layer_count blocks (Suc i) = layer_count blocks i + (if is_a_block blocks i \<and> \<not> is_b_block blocks i then 0 else 1)"

definition block_label :: "blocks \<Rightarrow> nat \<Rightarrow> nat \<times> string" where
  "block_label blocks i =
     (if is_a_block blocks i then (layer_count blocks (Suc i), ''a'')
      else (layer_count blocks i, if is_b_block blocks i then ''b'' else []))"

lemma name_block_eq:
  "name_block base blocks (names, n) k =
     (if is_b_block blocks k then (names[k - 1 := numbered base n ''a'', k := numbered base n ''b''], n + 1)
      else if is_a_block blocks k then (names, n)
      else (names[k := numbered base n []], n + 1))"
  by (simp add: name_block_def numbered_def Let_def)

definition final_name :: "string \<Rightarrow> blocks \<Rightarrow> nat \<Rightarrow> string" where
  "final_name base blocks i = numbered base (fst (block_label blocks i)) (snd (block_label blocks i))"

text \<open>The names before block \<open>k\<close>: only the name of a pending "a" block just before it is missing.\<close>

definition named_below :: "string \<Rightarrow> blocks \<Rightarrow> nat \<Rightarrow> string list \<Rightarrow> bool" where
  "named_below base blocks k names \<longleftrightarrow> length names = length blocks
     \<and> (\<forall>i < k. Suc i < k \<or> \<not> is_a_block blocks i \<longrightarrow> names ! i = final_name base blocks i)"

lemma named_below_pair:
  assumes names: "named_below base blocks k names" and k: "k < length blocks" and b: "is_b_block blocks k"
  shows "named_below base blocks (Suc k)
     (names[k - 1 := numbered base (layer_count blocks k) ''a'', k := numbered base (layer_count blocks k) ''b''])"
proof -
  have "0 < k" using b by (simp add: is_b_block_def)
  then obtain j where j: "k = Suc j" by (cases k) auto
  have "is_a_block blocks j" using b j by (simp add: is_a_block_def)
  then have prev: "final_name base blocks j = numbered base (layer_count blocks k) ''a''"
    by (simp add: final_name_def block_label_def j)
  have here: "final_name base blocks k = numbered base (layer_count blocks k) ''b''" if "\<not> is_a_block blocks k"
    using that b by (simp add: final_name_def block_label_def)
  show ?thesis using names k prev here j by (auto simp: named_below_def nth_list_update less_Suc_eq)
qed

lemma named_below_single:
  assumes names: "named_below base blocks k names" and k: "k < length blocks" and nb: "\<not> is_b_block blocks k"
  shows "is_a_block blocks k \<Longrightarrow> named_below base blocks (Suc k) names"
    "\<not> is_a_block blocks k \<Longrightarrow> named_below base blocks (Suc k) (names[k := numbered base (layer_count blocks k) []])"
proof -
  have kept: "names ! i = final_name base blocks i" if "i < k" for i
  proof -
    have "Suc i < k \<or> \<not> is_a_block blocks i"
      using nb that by (metis Suc_eq_plus1 is_a_block_def less_antisym not_less_eq)
    then show ?thesis using names that by (auto simp: named_below_def)
  qed
  have here: "final_name base blocks k = numbered base (layer_count blocks k) []" if "\<not> is_a_block blocks k"
    using that nb by (simp add: final_name_def block_label_def)
  have len: "length names = length blocks" using names by (simp add: named_below_def)
  show "is_a_block blocks k \<Longrightarrow> named_below base blocks (Suc k) names"
    using kept len by (auto simp: named_below_def less_Suc_eq)
  show "\<not> is_a_block blocks k \<Longrightarrow> named_below base blocks (Suc k) (names[k := numbered base (layer_count blocks k) []])"
    using kept len k here by (auto simp: named_below_def less_Suc_eq nth_list_update)
qed

lemma name_block_loop:
  "k \<le> length blocks \<Longrightarrow> \<exists>names. foldl (name_block base blocks) (replicate (length blocks) [], 0) [0..<k]
     = (names, layer_count blocks k) \<and> named_below base blocks k names"
proof (induction k)
  case (Suc k)
  then obtain names where IH: "foldl (name_block base blocks) (replicate (length blocks) [], 0) [0..<k] = (names, layer_count blocks k)"
    "named_below base blocks k names" by auto
  have k: "k < length blocks" using Suc.prems by simp
  have "foldl (name_block base blocks) (replicate (length blocks) [], 0) [0..<Suc k] =
      name_block base blocks (names, layer_count blocks k) k" using IH(1) by simp
  then show ?case unfolding name_block_eq
    using named_below_pair[OF IH(2) k] named_below_single[OF IH(2) k]
    by (cases "is_b_block blocks k"; cases "is_a_block blocks k") auto
qed (simp add: named_below_def)

lemma func_names_named: "named_below base blocks (length blocks) (func_names base blocks)"
  using name_block_loop[of "length blocks" blocks base] by (auto simp: func_names_def)

lemma length_func_names [simp]: "length (func_names base blocks) = length blocks"
  using func_names_named by (simp add: named_below_def)

lemma func_names_label:
  assumes "i < length blocks"
  shows "func_names base blocks ! i = final_name base blocks i"
proof -
  have "Suc i < length blocks \<or> \<not> is_a_block blocks i" using assms by (auto simp: is_a_block_def is_b_block_def)
  then show ?thesis using func_names_named[of base blocks] assms by (auto simp: named_below_def)
qed

lemma layer_count_mono: "i \<le> j \<Longrightarrow> layer_count blocks i \<le> layer_count blocks j"
  by (rule lift_Suc_mono_le) auto

lemma label_count: "layer_count blocks i \<le> fst (block_label blocks i)"
  by (simp add: block_label_def)

lemma block_label_distinct:
  assumes "i < j"
  shows "block_label blocks i \<noteq> block_label blocks j"
proof (cases "is_a_block blocks i")
  case False
  have "fst (block_label blocks i) < layer_count blocks (Suc i)" using False by (simp add: block_label_def)
  also have "\<dots> \<le> fst (block_label blocks j)" using layer_count_mono[of "Suc i" j blocks] label_count[of blocks j] assms by linarith
  finally show ?thesis by auto
next
  case a: True
  then have b: "is_b_block blocks (Suc i)" by (simp add: is_a_block_def)
  then have up: "layer_count blocks (Suc (Suc i)) = layer_count blocks (Suc i) + 1" by simp
  show ?thesis
  proof (cases "j = Suc i")
    case True
    then show ?thesis using a b up by (auto simp: block_label_def)
  next
    case False
    have "layer_count blocks (Suc (Suc i)) \<le> layer_count blocks j" by (rule layer_count_mono) (use assms False in linarith)
    then show ?thesis using a up label_count[of blocks j] by (auto simp: block_label_def)
  qed
qed

lemma block_label_suffix: "snd (block_label blocks i) \<in> suffixes"
  by (simp add: block_label_def suffixes_def)

lemma func_names_distinct: "distinct (func_names base blocks)"
proof -
  have "func_names base blocks ! i \<noteq> func_names base blocks ! j" if "i < j" "j < length blocks" for i j
    using numbered_inj[OF _ block_label_suffix block_label_suffix] block_label_distinct[OF that(1)] that
      func_names_label[of i blocks base] func_names_label[of j blocks base] by (metis final_name_def less_trans prod.expand)
  then show ?thesis by (auto simp: distinct_conv_nth) (metis linorder_neqE_nat)
qed

lemma chain_names_distinct:
  assumes "make_multi_functions iter ops args policy = Inr r"
  shows "distinct (sr_chain_order r)"
proof (cases "1 < length (sr_functions r)")
  case True
  then obtain blocks where split: "length blocks = length (sr_functions r)"
    "\<And>i. i < length blocks \<Longrightarrow> build_function iter args blocks (result_types ops) i = Inr (sr_functions r ! i)"
    using multi_functionsE[OF assms] by metis
  have "mf_name (sr_functions r ! i) = func_names (sa_base args) blocks ! i" if "i < length blocks" for i
    using build_functionE[OF split(2)[OF that]] by metis
  moreover have "sr_chain_order r = map mf_name (sr_functions r)"
    using assms True by (auto simp: make_multi_functions_def Let_def res_bind_eq_Inr split: if_splits)
  ultimately have "sr_chain_order r = func_names (sa_base args) blocks"
    using split(1) by (intro nth_equalityI) auto
  then show ?thesis by (simp add: func_names_distinct)
next
  case False
  have "length (sr_chain_order r) = length (sr_functions r)"
    using assms by (auto simp: make_multi_functions_def Let_def res_bind_eq_Inr split: if_splits)
  then have "length (sr_chain_order r) \<le> 1" using False by linarith
  then show ?thesis by (cases "sr_chain_order r") auto
qed

text \<open>No two functions of a module share a name: the chain order of every split is free of duplicates, also where attention blocks follow each other directly.\<close>

theorem split_names_distinct:
  assumes "make_multi_functions iter ops args policy = Inr r"
  shows "distinct (sr_chain_order r)"
  using assms by (rule chain_names_distinct)

theorem split_names_distinct_witness:
  "\<exists>r. make_multi_functions id layer_ops layer_args (Some (for_llama 1 1 4 16)) = Inr r
     \<and> sr_chain_order r = [''main_0a'', ''main_0b''] \<and> distinct (sr_chain_order r)"
  using layer_result split_names_distinct[of id layer_ops layer_args "Some (for_llama 1 1 4 16)"] by blast


section \<open>Attention boundaries\<close>

lemma gqa_trace_below: "list_all (\<lambda>p. p < i) (gqa_trace n ops i producers cur)"
  by (induction n arbitrary: cur) (auto simp: Let_def split: option.split)

lemma gqa_chain_start:
  assumes "gqa_repeat_chain_start ops i operand producers = Some p"
  shows "p < i" "mo_op_name (ops ! p) = ''unsqueeze''"
proof -
  define path where "path = gqa_trace max_gqa_trace ops i producers (ssa_key (mo_operands (ops ! i) ! operand))"
  have path: "map (\<lambda>i. mo_op_name (ops ! i)) path = [''view'', ''expand'', ''unsqueeze'']" "p = last path"
    using assms by (auto simp: gqa_repeat_chain_start_def Let_def path_def split: if_splits)
  then obtain a b c where "path = [a, b, c]" by (auto simp: map_eq_Cons_conv)
  then show "p < i" "mo_op_name (ops ! p) = ''unsqueeze''" 
    using path gqa_trace_below[of i max_gqa_trace ops producers "ssa_key (mo_operands (ops ! i) ! operand)", folded path_def] by auto
qed

text \<open>There is one cache boundary per attention operation, in order; it is the attention operation itself, or an earlier unsqueeze operation that starts the repetition of key or value heads, and then both the key and the value operand have such a chain.\<close>

theorem sdpa_boundaries_sound:
  "list_all2 (\<lambda>i b. b = i \<or> b < i \<and> mo_op_name (ops ! b) = ''unsqueeze''
       \<and> b \<in> {p. gqa_repeat_chain_start ops i 1 (producer_indices ops) = Some p \<or> gqa_repeat_chain_start ops i 2 (producer_indices ops) = Some p})
     (filter (\<lambda>i. mo_op_name (ops ! i) = sdpa) [0..<length ops]) (sdpa_cache_boundary_indices ops)"
proof -
  have "sdpa_boundary ops pr i = i \<or> sdpa_boundary ops pr i < i \<and> mo_op_name (ops ! sdpa_boundary ops pr i) = ''unsqueeze''
      \<and> sdpa_boundary ops pr i \<in> {p. gqa_repeat_chain_start ops i 1 pr = Some p \<or> gqa_repeat_chain_start ops i 2 pr = Some p}" for i pr
    using gqa_chain_start[of ops i 1 pr] gqa_chain_start[of ops i 2 pr]
    by (auto simp: sdpa_boundary_def min_def split: option.splits)
  then show ?thesis by (auto simp: sdpa_cache_boundary_indices_def list_all2_conv_all_nth)
qed

end
