(* ===== verification/Chain_Wrapper.thy ===== *)
theory Chain_Wrapper
  imports Split_Wiring "HOL-Library.Word"
begin

text \<open>
  The consumer of the flat execution plan, \<open>sf-dialect/lib/Sf/SfChainWrapper.cpp\<close>: the pass reads
  the array back (its \<open>unsigned\<close> fields are 32-bit words) and resolves the arguments of the
  chained calls.  Attribute casts and the construction of the MLIR operations are left out; the
  array is a list of integers and the values of the generated function are named by where they
  come from.  Arrays are taken to have fewer than \<open>2 ^ 32\<close> entries, so that the read position
  does not wrap.
\<close>

section \<open>Reading the plan\<close>

record parsed_edge =
  pe_source :: "32 word"
  pe_source_idx :: "32 word"
  pe_output_idx :: "32 word"

record parsed_step =
  pt_func_name :: string
  pt_edges :: "parsed_edge list"

fun parse_edges :: "nat \<Rightarrow> int list \<Rightarrow> (parsed_edge list \<times> int list) option" where
  "parse_edges 0 data = Some ([], data)"
| "parse_edges (Suc n) (a # b # c # data) =
     (let e = \<lparr>pe_source = word_of_int a, pe_source_idx = word_of_int b, pe_output_idx = word_of_int c\<rparr>
      in if pe_source e > 1 then None
         else case parse_edges n data of None \<Rightarrow> None | Some (es, rest) \<Rightarrow> Some (e # es, rest))"
| "parse_edges (Suc n) _ = None"

fun parse_steps :: "string list \<Rightarrow> int list \<Rightarrow> parsed_step list option" where
  "parse_steps [] data = (if data = [] then Some [] else None)"
| "parse_steps (name # names) [] = None"
| "parse_steps (name # names) (n # data) =
     (case parse_edges (unat (word_of_int n :: 32 word)) data of
        None \<Rightarrow> None
      | Some (es, rest) \<Rightarrow>
          (case parse_steps names rest of
             None \<Rightarrow> None
           | Some steps \<Rightarrow> Some (\<lparr>pt_func_name = name, pt_edges = es\<rparr> # steps)))"

definition parse_exec_plan :: "int list \<Rightarrow> string list \<Rightarrow> parsed_step list option" where
  "parse_exec_plan data chain_order =
     (case data of
        n # _ # rest \<Rightarrow>
          if (word_of_int n :: 32 word) \<noteq> word_of_nat (length chain_order) then None
          else parse_steps (take (unat (word_of_int n :: 32 word)) chain_order) rest
      | _ \<Rightarrow> None)"


section \<open>Resolving the calls\<close>

datatype chain_value = MainArg nat | StepResult nat nat

definition resolve_edge :: "nat \<Rightarrow> nat list \<Rightarrow> parsed_edge \<Rightarrow> chain_value option" where
  "resolve_edge num_args step_results e =
     (let i = unat (pe_source_idx e)
      in if pe_source e = 0 then (if i \<ge> num_args then None else Some (MainArg i))
         else if i \<ge> length step_results \<or> unat (pe_output_idx e) \<ge> step_results ! i then None
         else Some (StepResult i (unat (pe_output_idx e))))"

text \<open>
  The arguments of the calls after the first, which gets the arguments of the generated function.
  The numbers of results of the chained functions are given; a call sees the results of the
  calls before it.
\<close>

fun resolve_steps :: "nat \<Rightarrow> nat list \<Rightarrow> nat list \<Rightarrow> parsed_step list \<Rightarrow> chain_value list list option" where
  "resolve_steps num_args seen [] steps = Some []"
| "resolve_steps num_args seen (k # ks) [] = Some []"
| "resolve_steps num_args seen (k # ks) (step # steps) =
     (case those (map (resolve_edge num_args seen) (pt_edges step)) of
        None \<Rightarrow> None
      | Some args \<Rightarrow>
          (case resolve_steps num_args (seen @ [k]) ks steps of
             None \<Rightarrow> None
           | Some rest \<Rightarrow> Some (args # rest)))"

definition chain_calls :: "nat \<Rightarrow> nat list \<Rightarrow> parsed_step list \<Rightarrow> chain_value list list option" where
  "chain_calls num_args results steps = resolve_steps num_args (take 1 results) (drop 1 results) (drop 1 steps)"


section \<open>Reading back what the splitter wrote\<close>

definition edge_words :: "edge_input \<Rightarrow> parsed_edge" where
  "edge_words e = \<lparr>pe_source = word_of_nat (ei_source e), pe_source_idx = word_of_nat (ei_source_index e),
     pe_output_idx = word_of_nat (ei_producer_step e)\<rparr>"

definition edge_small :: "edge_input \<Rightarrow> bool" where
  "edge_small e \<longleftrightarrow> ei_source e \<le> 1 \<and> ei_source_index e < 2 ^ 32 \<and> ei_producer_step e < 2 ^ 32"

definition plan_small :: "execution_plan \<Rightarrow> bool" where
  "plan_small plan \<longleftrightarrow> length (ep_steps plan) < 2 ^ 32
     \<and> list_all (\<lambda>s. length (ps_inputs s) < 2 ^ 32 \<and> list_all edge_small (ps_inputs s)) (ep_steps plan)"

lemma small_word: "n < 2 ^ 32 \<Longrightarrow> unat (word_of_nat n :: 32 word) = n"
  by (simp add: unsigned_of_nat take_bit_nat_eq_self)

lemma parse_edges_flatten:
  "list_all edge_small es \<Longrightarrow>
   parse_edges (length es) (map int (concat (map (\<lambda>e. [ei_source e, ei_source_index e, ei_producer_step e]) es)) @ rest)
     = Some (map edge_words es, rest)"
proof (induction es)
  case (Cons e es)
  have "\<not> (word_of_nat (ei_source e) :: 32 word) > 1"
  proof -
    have "ei_source e = 0 \<or> ei_source e = 1" using Cons.prems by (auto simp: edge_small_def)
    then show ?thesis by auto
  qed
  then show ?case using Cons by (simp add: edge_words_def)
qed simp

lemma parse_steps_flatten:
  "list_all (\<lambda>s. length (ps_inputs s) < 2 ^ 32 \<and> list_all edge_small (ps_inputs s)) steps \<Longrightarrow>
   parse_steps (map ps_func_name steps)
     (map int (concat (map (\<lambda>s. length (ps_inputs s) #
        concat (map (\<lambda>e. [ei_source e, ei_source_index e, ei_producer_step e]) (ps_inputs s))) steps)))
   = Some (map (\<lambda>s. \<lparr>pt_func_name = ps_func_name s, pt_edges = map edge_words (ps_inputs s)\<rparr>) steps)"
proof (induction steps)
  case (Cons s steps)
  then have "unat (word_of_nat (length (ps_inputs s)) :: 32 word) = length (ps_inputs s)" by (simp add: small_word)
  then show ?case using Cons parse_edges_flatten[of "ps_inputs s"] by simp
qed simp

lemma parse_flattened:
  assumes "plan_small plan"
  shows "parse_exec_plan (map int (flatten_execution_plan plan)) (map ps_func_name (ep_steps plan))
     = Some (map (\<lambda>s. \<lparr>pt_func_name = ps_func_name s, pt_edges = map edge_words (ps_inputs s)\<rparr>) (ep_steps plan))"
  using assms parse_steps_flatten[of "ep_steps plan"]
  by (simp add: parse_exec_plan_def flatten_execution_plan_def plan_small_def small_word)

text \<open>C35: The chain wrapper reads back exactly the plan that the splitter flattened, function names and edges, whenever counts and indices fit the 32 bits of the reader.\<close>

theorem exec_plan_roundtrip:
  assumes "plan_small plan"
  shows "parse_exec_plan (map int (flatten_execution_plan plan)) (map ps_func_name (ep_steps plan))
     = Some (map (\<lambda>s. \<lparr>pt_func_name = ps_func_name s, pt_edges = map edge_words (ps_inputs s)\<rparr>) (ep_steps plan))"
  using assms by (rule parse_flattened)


section \<open>Every chained call finds its arguments\<close>

lemma those_map_Some: "(\<And>x. x \<in> set xs \<Longrightarrow> f x = Some (g x)) \<Longrightarrow> those (map f xs) = Some (map g xs)"
  by (induction xs) auto

lemma resolve_steps_total:
  assumes "length steps = length ks"
    and "\<And>j e. j < length steps \<Longrightarrow> e \<in> set (pt_edges (steps ! j)) \<Longrightarrow> resolve_edge n (seen @ take j ks) e = Some (g e)"
  shows "resolve_steps n seen ks steps = Some (map (\<lambda>s. map g (pt_edges s)) steps)"
  using assms
proof (induction n seen ks steps rule: resolve_steps.induct)
  case (3 n seen k ks step steps)
  have "those (map (resolve_edge n seen) (pt_edges step)) = Some (map g (pt_edges step))"
    using 3(3)[of 0] by (intro those_map_Some) simp
  moreover have "resolve_edge n ((seen @ [k]) @ take j ks) e = Some (g e)"
    if "j < length steps" "e \<in> set (pt_edges (steps ! j))" for j e
    using 3(3)[of "Suc j" e] that by simp
  ultimately show ?case using 3(1,2) by simp
qed auto

definition step_result :: "parsed_edge \<Rightarrow> chain_value" where
  "step_result e = StepResult (unat (pe_source_idx e)) (unat (pe_output_idx e))"

lemma wired_edge_resolves:
  assumes "edge_wired funcs fi name e" "edge_small e" "fi \<le> length funcs"
  shows "resolve_edge n (take fi (map (length \<circ> mf_outputs) funcs)) (edge_words e) = Some (step_result (edge_words e))"
    "step_result (edge_words e) = StepResult (ei_source_index e) (ei_producer_step e)"
  using assms by (auto simp: resolve_edge_def edge_words_def step_result_def edge_wired_def edge_small_def STEP_OUTPUT_def small_word Let_def)


text \<open>C6: The splitter and the chain wrapper agree: the wrapper accepts the flat plan of a split module, resolves the arguments of every call after the first without an out-of-range reference, and hands each function, in the order of its inputs, results of earlier calls that carry the values of those names.\<close>

theorem chain_wrapper_resolves:
  assumes run: "make_multi_functions iter ops args policy = Inr r" and multi: "1 < length (sr_functions r)"
    and order: "\<And>xs. mset (iter xs) = mset xs" and ssa: "ssa_ordered ops"
    and weights: "\<forall>b \<in> set (tl (partition_blocks [] ops)). set (block_results b) \<inter> set (sa_weights args) = {}"
    and small: "plan_small (sr_plan r)"
  shows "\<exists>steps calls. parse_exec_plan (map int (sr_exec_plan_data r)) (sr_chain_order r) = Some steps
     \<and> chain_calls n (map (length \<circ> mf_outputs) (sr_functions r)) steps = Some calls
     \<and> length calls = length (sr_functions r) - 1
     \<and> (\<forall>fi. 0 < fi \<and> fi < length (sr_functions r) \<longrightarrow>
          list_all2 (\<lambda>(name, _) v. \<exists>p out. v = StepResult p out \<and> p < fi \<and> out < length (mf_outputs (sr_functions r ! p))
              \<and> ssa_key (fst (mf_outputs (sr_functions r ! p) ! out)) = ssa_key name)
            (mf_inputs (sr_functions r ! fi)) (calls ! (fi - 1)))"
proof -
  let ?fs = "sr_functions r" and ?ps = "ep_steps (sr_plan r)"
  let ?step = "\<lambda>s. \<lparr>pt_func_name = ps_func_name s, pt_edges = map edge_words (ps_inputs s)\<rparr>"
  have shape: "length ?ps = length ?fs" "map ps_func_name ?ps = sr_chain_order r"
    "sr_exec_plan_data r = flatten_execution_plan (sr_plan r)" using plan_shape[OF run multi] by auto
  have parsed: "parse_exec_plan (map int (sr_exec_plan_data r)) (sr_chain_order r) = Some (map ?step ?ps)"
    using parse_flattened[OF small] shape by simp
  have wired: "list_all2 (\<lambda>(name, _). edge_wired ?fs fi name) (mf_inputs (?fs ! fi)) (ps_inputs (?ps ! fi))"
    if "0 < fi" "fi < length ?fs" for fi using plan_inputs_wired[OF run order ssa weights that] .
  have sm: "edge_small e" if "e \<in> set (ps_inputs (?ps ! fi))" "fi < length ?ps" for e fi
    using small that by (auto simp: plan_small_def list_all_iff)
  have resolves: "resolve_edge n (take 1 (map (length \<circ> mf_outputs) ?fs) @ take j (drop 1 (map (length \<circ> mf_outputs) ?fs))) e
      = Some (step_result e)"
    if j: "j < length (drop 1 (map ?step ?ps))" and e: "e \<in> set (pt_edges (drop 1 (map ?step ?ps) ! j))" for j e
  proof -
    obtain e' where e': "e = edge_words e'" "e' \<in> set (ps_inputs (?ps ! Suc j))" using j e by auto
    have "list_all2 (\<lambda>(name, _). edge_wired ?fs (Suc j) name) (mf_inputs (?fs ! Suc j)) (ps_inputs (?ps ! Suc j))"
      using wired[of "Suc j"] j shape(1) by simp
    then have "\<exists>name. edge_wired ?fs (Suc j) name e'"
      using e'(2) by (induction rule: list_all2_induct) auto
    moreover have "take 1 (map (length \<circ> mf_outputs) ?fs) @ take j (drop 1 (map (length \<circ> mf_outputs) ?fs))
        = take (Suc j) (map (length \<circ> mf_outputs) ?fs)" using take_add[of 1 j "map (length \<circ> mf_outputs) ?fs"] by simp
    ultimately show ?thesis using wired_edge_resolves(1) sm[OF e'(2)] e'(1) j shape(1) by fastforce
  qed
  let ?calls = "map (\<lambda>s. map step_result (pt_edges s)) (drop 1 (map ?step ?ps))"
  have calls: "chain_calls n (map (length \<circ> mf_outputs) ?fs) (map ?step ?ps) = Some ?calls"
    unfolding chain_calls_def by (rule resolve_steps_total) (use shape(1) resolves in auto)
  have "list_all2 (\<lambda>(name, _) v. \<exists>p out. v = StepResult p out \<and> p < fi \<and> out < length (mf_outputs (?fs ! p))
              \<and> ssa_key (fst (mf_outputs (?fs ! p) ! out)) = ssa_key name) (mf_inputs (?fs ! fi)) (?calls ! (fi - 1))"
    if fi: "0 < fi" "fi < length ?fs" for fi
  proof -
    have "?calls ! (fi - 1) = map (step_result \<circ> edge_words) (ps_inputs (?ps ! fi))"
      using fi shape(1) nth_drop[of 1 "map ?step ?ps" "fi - 1"] by (cases ?ps) simp_all
    then show ?thesis using wired[OF fi] sm[of _ fi] fi shape(1) wired_edge_resolves(2)[of ?fs fi]
      by (auto simp: list_all2_conv_all_nth case_prod_unfold edge_wired_def)
  qed
  then show ?thesis using parsed calls shape(1) by (intro exI[of _ "map ?step ?ps"] exI[of _ ?calls]) auto
qed


lemma layer_plan_small:
  assumes "map ps_inputs (ep_steps plan) = [[layer_edge 0 0 0], [layer_edge 1 0 0, layer_edge 1 0 1, layer_edge 1 0 2, layer_edge 1 0 3]]"
  shows "plan_small plan"
proof -
  have "list_all (\<lambda>es. length es < 2 ^ 32 \<and> list_all edge_small es) (map ps_inputs (ep_steps plan))"
    unfolding assms by (simp add: layer_edge_def edge_small_def)
  moreover have "length (ep_steps plan) = 2" using arg_cong[OF assms, of length] by simp
  ultimately show ?thesis by (simp add: plan_small_def list_all_iff)
qed

theorem exec_plan_roundtrip_witness:
  "\<exists>plan. plan_small plan \<and> ep_steps plan \<noteq> [] \<and>
     parse_exec_plan (map int (flatten_execution_plan plan)) (map ps_func_name (ep_steps plan))
     = Some (map (\<lambda>s. \<lparr>pt_func_name = ps_func_name s, pt_edges = map edge_words (ps_inputs s)\<rparr>) (ep_steps plan))"
proof -
  obtain r :: split_result where r: "map ps_inputs (ep_steps (sr_plan r)) =
      [[layer_edge 0 0 0], [layer_edge 1 0 0, layer_edge 1 0 1, layer_edge 1 0 2, layer_edge 1 0 3]]"
    using layer_result by (elim exE conjE) (rule that; assumption)
  then show ?thesis using exec_plan_roundtrip[OF layer_plan_small[OF r]] layer_plan_small[OF r]
    by (intro exI[of _ "sr_plan r"]) auto
qed

theorem chain_wrapper_resolves_witness:
  "\<exists>r steps calls. make_multi_functions id layer_ops layer_args (Some (for_llama 1 1 4 16)) = Inr r
     \<and> parse_exec_plan (map int (sr_exec_plan_data r)) (sr_chain_order r) = Some steps
     \<and> chain_calls 2 (map (length \<circ> mf_outputs) (sr_functions r)) steps = Some calls \<and> length calls = 1"
proof -
  obtain r where r: "make_multi_functions id layer_ops layer_args (Some (for_llama 1 1 4 16)) = Inr r" "length (sr_functions r) = 2"
    "map ps_inputs (ep_steps (sr_plan r)) =
      [[layer_edge 0 0 0], [layer_edge 1 0 0, layer_edge 1 0 1, layer_edge 1 0 2, layer_edge 1 0 3]]"
    using layer_result by (elim exE conjE) (rule that; assumption)
  have "1 < length (sr_functions r)" using r(2) by simp
  then show ?thesis
    using chain_wrapper_resolves[OF r(1) _ _ layer_ssa layer_weights layer_plan_small[OF r(3)], where n = 2] r(1,2) by auto
qed

end
