(* ===== verification/Scheduler.thy ===== *)
theory Scheduler
  imports Radix_Cache
begin

text \<open>
  The continuous-batching scheduler, \<open>runtime/src/engine/scheduler.rs\<close> and
  \<open>runtime/src/engine/types.rs\<close>: waiting and running requests, admission with prefix-cache hits,
  chunked prefill and decode steps over the block manager.  The waiting queue is a
  \<open>BinaryHeap\<close>, whose documentation only says that \<open>pop\<close> returns a greatest entry: which of
  several is the parameter \<open>pick\<close>, a position in the list of waiting requests.  Token positions
  are taken to fit 32 bits.
\<close>

section \<open>State\<close>

datatype request_state = Waiting | Prefill | Decode | Finished

record request =
  rq_id :: string
  rq_prompt :: "int list"
  rq_output :: "int list"
  rq_state :: request_state
  rq_priority :: int
  rq_prefill_pos :: nat
  rq_max_tokens :: nat
  rq_stop :: "int list"

record scheduled =
  sq_id :: string
  sq_input_ids :: "int list"
  sq_positions :: "nat list"
  sq_state :: request_state
  sq_block_table :: "nat list"
  sq_use_kv :: bool
  sq_kv_table :: "nat list"
  sq_n_tokens :: nat

record scheduler =
  sc_max_batch_size :: nat
  sc_max_tokens_per_step :: nat
  sc_chunk_size :: nat
  sc_use_kv_cache :: bool
  sc_waiting :: "request list"
  sc_running :: "request list"

type_synonym cache_hit = "string \<times> nat list \<times> nat"

definition sched_new :: "nat \<Rightarrow> nat \<Rightarrow> nat \<Rightarrow> bool \<Rightarrow> scheduler res" where
  "sched_new max_batch_size max_tokens_per_step chunk_size use_kv_cache =
     (if max_batch_size = 0 then Inl ValueError
      else if chunk_size = 0 then Inl ValueError
      else Inr \<lparr>sc_max_batch_size = max_batch_size, sc_max_tokens_per_step = max_tokens_per_step,
                sc_chunk_size = chunk_size, sc_use_kv_cache = use_kv_cache, sc_waiting = [], sc_running = []\<rparr>)"

definition new_request :: "string \<Rightarrow> int list \<Rightarrow> int \<Rightarrow> nat \<Rightarrow> int list \<Rightarrow> request" where
  "new_request rid prompt priority max_tokens stop =
     \<lparr>rq_id = rid, rq_prompt = prompt, rq_output = [], rq_state = Waiting, rq_priority = priority,
      rq_prefill_pos = 0, rq_max_tokens = max_tokens, rq_stop = stop\<rparr>"

definition is_finished :: "request \<Rightarrow> bool" where
  "is_finished r \<longleftrightarrow> rq_state r = Finished"

definition tokens_remaining :: "request \<Rightarrow> nat" where
  "tokens_remaining r = length (rq_prompt r) - rq_prefill_pos r"

definition sched_add :: "scheduler \<Rightarrow> request \<Rightarrow> scheduler" where
  "sched_add sc r = sc\<lparr>sc_waiting := sc_waiting sc @ [r]\<rparr>"


section \<open>Admission\<close>

definition heap_pop :: "(request list \<Rightarrow> nat) \<Rightarrow> request list \<Rightarrow> request \<times> request list" where
  "heap_pop pick ws = (let i = (if pick ws < length ws then pick ws else 0) in (ws ! i, take i ws @ drop (Suc i) ws))"

definition admit_one :: "cache_hit list \<Rightarrow> block_manager \<Rightarrow> request \<Rightarrow> block_manager \<times> request" where
  "admit_one hits bm r =
     (case find (\<lambda>(rid, _, _). rid = rq_id r) hits of
        None \<Rightarrow> (bm, r\<lparr>rq_state := Prefill\<rparr>)
      | Some (_, blocks, matched) \<Rightarrow>
          if matched > 0
          then (bm_assign_cached_blocks (rq_id r) blocks bm,
                r\<lparr>rq_state := (if matched \<ge> length (rq_prompt r) then Decode else Prefill), rq_prefill_pos := matched\<rparr>)
          else (bm, r\<lparr>rq_state := Prefill\<rparr>))"

function admit ::
    "(request list \<Rightarrow> nat) \<Rightarrow> nat \<Rightarrow> cache_hit list \<Rightarrow> request list \<Rightarrow> request list \<Rightarrow> block_manager
       \<Rightarrow> request list \<times> request list \<times> block_manager" where
  "admit pick max_batch hits waiting running bm =
     (if waiting = [] then (waiting, running, bm)
      else case heap_pop pick waiting of (r, rest) \<Rightarrow>
        if length running \<ge> max_batch then (rest @ [r], running, bm)
        else (case admit_one hits bm r of (bm', r') \<Rightarrow> admit pick max_batch hits rest (running @ [r']) bm'))"
  by pat_completeness auto
termination
  by (relation "measure (\<lambda>(_, _, _, waiting, _, _). length waiting)") (auto simp: heap_pop_def Let_def split: if_splits)

declare admit.simps [simp del]


section \<open>Batches\<close>

text \<open>The blocks a prefill chunk needs: the table is extended or created; on failure nothing changes.\<close>

definition prefill_blocks :: "string \<Rightarrow> nat \<Rightarrow> block_manager \<Rightarrow> block_manager option" where
  "prefill_blocks rid n bm =
     (if bm_block_tables bm rid \<noteq> None
      then (case bm_ensure_blocks rid n bm of Inl _ \<Rightarrow> None | Inr bm' \<Rightarrow> Some bm')
      else (case bm_allocate rid n bm of Inl _ \<Rightarrow> None | Inr (bm', _) \<Rightarrow> Some bm'))"

record batch_state =
  bs_bm :: block_manager
  bs_prefill :: nat
  bs_decode :: nat

definition prefill_budget :: "scheduler \<Rightarrow> batch_state \<Rightarrow> nat" where
  "prefill_budget sc st = sc_max_tokens_per_step sc - bs_prefill st"

definition chunk_tokens :: "scheduler \<Rightarrow> batch_state \<Rightarrow> request \<Rightarrow> nat" where
  "chunk_tokens sc st r = min (min (tokens_remaining r) (sc_chunk_size sc)) (prefill_budget sc st)"

definition after_chunk :: "request \<Rightarrow> nat \<Rightarrow> request" where
  "after_chunk r n = r\<lparr>rq_prefill_pos := rq_prefill_pos r + n,
     rq_state := (if rq_prefill_pos r + n \<ge> length (rq_prompt r) then Decode else rq_state r)\<rparr>"

definition prefill_entry :: "request \<Rightarrow> nat \<Rightarrow> nat list \<Rightarrow> scheduled" where
  "prefill_entry r n blocks =
     \<lparr>sq_id = rq_id r, sq_input_ids = take n (drop (rq_prefill_pos r) (rq_prompt r)),
      sq_positions = [rq_prefill_pos r..<rq_prefill_pos r + n], sq_state = rq_state (after_chunk r n),
      sq_block_table = blocks, sq_use_kv = False, sq_kv_table = [], sq_n_tokens = n\<rparr>"

text \<open>The position moves on before the blocks are requested, also when there are none.\<close>

definition schedule_prefill :: "scheduler \<Rightarrow> batch_state \<Rightarrow> request \<Rightarrow> batch_state \<times> request \<times> scheduled option" where
  "schedule_prefill sc st r =
     (if tokens_remaining r = 0 then (st, r\<lparr>rq_state := Decode\<rparr>, None)
      else if prefill_budget sc st = 0 then (st, r, None)
      else let n = chunk_tokens sc st r; skipped = r\<lparr>rq_prefill_pos := rq_prefill_pos r + n\<rparr>
           in case prefill_blocks (rq_id r) (length (rq_prompt r)) (bs_bm st) of
                None \<Rightarrow> (st, skipped, None)
              | Some bm \<Rightarrow>
                  (case bm_get_blocks bm (rq_id r) of
                     Inl _ \<Rightarrow> (st\<lparr>bs_bm := bm\<rparr>, skipped, None)
                   | Inr blocks \<Rightarrow>
                       (st\<lparr>bs_bm := bm, bs_prefill := bs_prefill st + n\<rparr>, after_chunk r n, Some (prefill_entry r n blocks))))"

definition last_token :: "request \<Rightarrow> int" where
  "last_token r = (if rq_output r \<noteq> [] then last (rq_output r) else if rq_prompt r \<noteq> [] then last (rq_prompt r) else 0)"

definition decode_entry :: "bool \<Rightarrow> request \<Rightarrow> nat list \<Rightarrow> scheduled" where
  "decode_entry use_kv r blocks =
     (if use_kv
      then \<lparr>sq_id = rq_id r, sq_input_ids = [last_token r],
            sq_positions = [length (rq_prompt r) + length (rq_output r) - 1], sq_state = rq_state r,
            sq_block_table = blocks, sq_use_kv = True, sq_kv_table = blocks, sq_n_tokens = 1\<rparr>
      else \<lparr>sq_id = rq_id r, sq_input_ids = rq_prompt r @ rq_output r,
            sq_positions = [0..<length (rq_prompt r) + length (rq_output r)], sq_state = rq_state r,
            sq_block_table = blocks, sq_use_kv = False, sq_kv_table = [], sq_n_tokens = 1\<rparr>)"

definition schedule_decode :: "scheduler \<Rightarrow> batch_state \<Rightarrow> request \<Rightarrow> batch_state \<times> request \<times> scheduled option" where
  "schedule_decode sc st r =
     (if bs_prefill st + bs_decode st + 1 > sc_max_tokens_per_step sc then (st, r, None)
      else let st1 = st\<lparr>bs_decode := bs_decode st + 1\<rparr>
           in case (if sc_use_kv_cache sc
                    then bm_ensure_blocks (rq_id r) (length (rq_prompt r) + length (rq_output r) + 1) (bs_bm st)
                    else Inr (bs_bm st)) of
                Inl _ \<Rightarrow> (st1, r, None)
              | Inr bm \<Rightarrow>
                  (case bm_get_blocks bm (rq_id r) of
                     Inl _ \<Rightarrow> (st1\<lparr>bs_bm := bm\<rparr>, r, None)
                   | Inr blocks \<Rightarrow> (st1\<lparr>bs_bm := bm\<rparr>, r, Some (decode_entry (sc_use_kv_cache sc) r blocks))))"

definition schedule_one :: "scheduler \<Rightarrow> batch_state \<Rightarrow> request \<Rightarrow> batch_state \<times> request \<times> scheduled option" where
  "schedule_one sc st r =
     (case rq_state r of
        Prefill \<Rightarrow> schedule_prefill sc st r
      | Decode \<Rightarrow> schedule_decode sc st r
      | _ \<Rightarrow> (st, r, None))"

fun build_batch :: "scheduler \<Rightarrow> batch_state \<Rightarrow> request list \<Rightarrow> batch_state \<times> request list \<times> scheduled list" where
  "build_batch sc st [] = (st, [], [])"
| "build_batch sc st (r # rs) =
     (case schedule_one sc st r of (st1, r1, entry) \<Rightarrow>
        case build_batch sc st1 rs of (st2, rs2, entries) \<Rightarrow>
          (st2, r1 # rs2, (case entry of None \<Rightarrow> [] | Some e \<Rightarrow> [e]) @ entries))"

definition schedule ::
    "(request list \<Rightarrow> nat) \<Rightarrow> scheduler \<Rightarrow> block_manager \<Rightarrow> cache_hit list \<Rightarrow> scheduler \<times> block_manager \<times> scheduled list" where
  "schedule pick sc bm hits =
     (let finished = map rq_id (filter is_finished (sc_running sc));
          bm1 = foldl (\<lambda>b rid. bm_free rid b) bm finished
      in case admit pick (sc_max_batch_size sc) hits (sc_waiting sc) (filter (\<lambda>r. \<not> is_finished r) (sc_running sc)) bm1 of
           (waiting, running, bm2) \<Rightarrow>
             (case build_batch sc \<lparr>bs_bm = bm2, bs_prefill = 0, bs_decode = 0\<rparr> running of
                (st, running', batch) \<Rightarrow> (sc\<lparr>sc_waiting := waiting, sc_running := running'\<rparr>, bs_bm st, batch)))"

definition has_work :: "scheduler \<Rightarrow> bool" where
  "has_work sc \<longleftrightarrow> sc_waiting sc \<noteq> [] \<or> sc_running sc \<noteq> []"

text \<open>\<open>record_output\<close> changes the first running request with the identifier.\<close>

definition record_token :: "int \<Rightarrow> request \<Rightarrow> request" where
  "record_token t r =
     (let r1 = r\<lparr>rq_output := rq_output r @ [t]\<rparr>
      in if length (rq_output r1) \<ge> rq_max_tokens r1 \<or> t \<in> set (rq_stop r1) then r1\<lparr>rq_state := Finished\<rparr> else r1)"

fun record_running :: "string \<Rightarrow> int \<Rightarrow> request list \<Rightarrow> request list \<times> bool" where
  "record_running rid t [] = ([], False)"
| "record_running rid t (r # rs) =
     (if rq_id r = rid
      then (record_token t r # rs, length (rq_output r) + 1 \<ge> rq_max_tokens r \<or> t \<in> set (rq_stop r))
      else case record_running rid t rs of (rs', b) \<Rightarrow> (r # rs', b))"

definition record_output :: "scheduler \<Rightarrow> string \<Rightarrow> int \<Rightarrow> scheduler \<times> bool" where
  "record_output sc rid t = (case record_running rid t (sc_running sc) of (rs, b) \<Rightarrow> (sc\<lparr>sc_running := rs\<rparr>, b))"


section \<open>The block pool under scheduling\<close>

lemma pop_blocks_block_size: "pop_blocks n bm acc = Inr (bm', xs) \<Longrightarrow> bm_block_size bm' = bm_block_size bm"
  by (induction n bm acc rule: pop_blocks.induct) (auto simp: Let_def split: if_splits option.splits)

lemma bm_allocate_block_size: "bm_allocate rid n bm = Inr (bm', new) \<Longrightarrow> bm_block_size bm' = bm_block_size bm"
  by (auto simp: bm_allocate_def Let_def dest: pop_blocks_block_size split: if_splits sum.splits)

lemma bm_ensure_block_size: "bm_ensure_blocks rid n bm = Inr bm' \<Longrightarrow> bm_block_size bm' = bm_block_size bm"
  by (auto simp: bm_ensure_blocks_def Let_def dest: pop_blocks_block_size split: if_splits sum.splits)

lemma foldl_field: "(\<And>s x. f (g s x) = f s) \<Longrightarrow> f (foldl g s xs) = f s"
  by (induction xs arbitrary: s) auto

lemma release_one_block_size: "bm_block_size (release_one rid bm b) = bm_block_size bm"
  by (simp add: release_one_def Let_def split: option.split)

lemma share_one_block_size: "bm_block_size (share_one rid bm b) = bm_block_size bm"
  by (simp add: share_one_def split: option.split)

lemma bm_free_block_size [simp]: "bm_block_size (bm_free rid bm) = bm_block_size bm"
  using foldl_field[of bm_block_size "release_one rid", OF release_one_block_size]
  by (simp add: bm_free_def split: option.split)

lemma bm_assign_block_size [simp]: "bm_block_size (bm_assign_cached_blocks rid ids bm) = bm_block_size bm"
  using foldl_field[of bm_block_size "share_one rid", OF share_one_block_size]
  by (simp add: bm_assign_cached_blocks_def Let_def)

text \<open>Hits that a lookup in the tree has produced.\<close>

definition hits_ok :: "rnode \<Rightarrow> nat \<Rightarrow> cache_hit list \<Rightarrow> bool" where
  "hits_ok root bs hits \<longleftrightarrow> (\<forall>(rid, blocks, k) \<in> set hits. \<exists>xs m. match_prefix bs root xs = (blocks, m))"

text \<open>The engine's states: pool and tree reachable, with a given block size.\<close>

definition pool_at :: "rnode \<Rightarrow> nat \<Rightarrow> block_manager \<Rightarrow> bool" where
  "pool_at root bs bm \<longleftrightarrow> kv_reach bm root \<and> bm_block_size bm = bs"

lemma pool_at_free: "pool_at root bs bm \<Longrightarrow> pool_at root bs (bm_free rid bm)"
  by (auto simp: pool_at_def intro: kv_free)

lemma pool_at_free_all: "pool_at root bs bm \<Longrightarrow> pool_at root bs (foldl (\<lambda>b rid. bm_free rid b) bm rids)"
  by (induction rids arbitrary: bm) (auto intro: pool_at_free)

lemma pool_at_admit_one:
  assumes "pool_at root bs bm" "hits_ok root bs hits" "admit_one hits bm r = (bm', r')"
  shows "pool_at root bs bm'"
proof (cases "find (\<lambda>(rid, _, _). rid = rq_id r) hits")
  case None
  then show ?thesis using assms by (simp add: admit_one_def)
next
  case (Some h)
  obtain rid blocks k where h: "h = (rid, blocks, k)" by (cases h)
  have "h \<in> set hits" using Some by (metis find_Some_iff nth_mem)
  then obtain xs m where "match_prefix bs root xs = (blocks, m)" using assms(2) h by (fastforce simp: hits_ok_def)
  then have "pool_at root bs (bm_assign_cached_blocks (rq_id r) blocks bm)"
    using assms(1) by (auto simp: pool_at_def intro: kv_hit)
  then show ?thesis using assms(1,3) Some h by (auto simp: admit_one_def split: if_splits)
qed

lemma pool_at_admit:
  "admit pick mb hits ws rs bm = (ws', rs', bm') \<Longrightarrow> pool_at root bs bm \<Longrightarrow> hits_ok root bs hits \<Longrightarrow> pool_at root bs bm'"
proof (induction pick mb hits ws rs bm arbitrary: ws' rs' bm' rule: admit.induct)
  case (1 pick mb hits ws rs bm)
  show ?case
  proof (cases "ws = [] \<or> length rs \<ge> mb")
    case True
    then show ?thesis using 1(2,3) by (subst (asm) admit.simps) (auto split: prod.splits if_splits)
  next
    case False
    obtain r rest where pop: "heap_pop pick ws = (r, rest)" by (cases "heap_pop pick ws")
    obtain bm1 r1 where one: "admit_one hits bm r = (bm1, r1)" by (cases "admit_one hits bm r")
    have "admit pick mb hits rest (rs @ [r1]) bm1 = (ws', rs', bm')"
      using 1(2) False pop one by (subst (asm) admit.simps) auto
    then show ?thesis using 1(1)[OF _ pop[symmetric] _ one[symmetric]] False pool_at_admit_one[OF 1(3,4) one] 1(4) by auto
  qed
qed

lemma pool_at_ensure: "pool_at root bs bm \<Longrightarrow> bm_ensure_blocks rid n bm = Inr bm' \<Longrightarrow> pool_at root bs bm'"
  by (auto simp: pool_at_def bm_ensure_block_size intro: kv_ensure)

lemma pool_at_prefill: "pool_at root bs bm \<Longrightarrow> prefill_blocks rid n bm = Some bm' \<Longrightarrow> pool_at root bs bm'"
  by (auto simp: prefill_blocks_def pool_at_def bm_ensure_block_size bm_allocate_block_size
      intro: kv_ensure kv_allocate split: if_splits sum.splits)

lemma pool_at_one:
  "schedule_one sc st r = (st', r', e) \<Longrightarrow> pool_at root bs (bs_bm st) \<Longrightarrow> pool_at root bs (bs_bm st')"
  by (auto simp: schedule_one_def schedule_prefill_def schedule_decode_def Let_def
      intro: pool_at_prefill pool_at_ensure split: request_state.splits if_splits option.splits sum.splits)

lemma pool_at_batch:
  "build_batch sc st rs = (st', rs', es) \<Longrightarrow> pool_at root bs (bs_bm st) \<Longrightarrow> pool_at root bs (bs_bm st')"
  by (induction sc st rs arbitrary: st' rs' es rule: build_batch.induct) (auto split: prod.splits dest: pool_at_one)

lemma pool_at_schedule:
  assumes "schedule pick sc bm hits = (sc', bm', batch)" "pool_at root bs bm" "hits_ok root bs hits"
  shows "pool_at root bs bm'"
  using assms by (auto simp: schedule_def Let_def split: prod.splits
      dest!: pool_at_batch[where root = root and bs = bs] pool_at_admit[where root = root and bs = bs] intro: pool_at_free_all)


lemma admit_running_bound:
  "admit pick mb hits ws rs bm = (ws', rs', bm') \<Longrightarrow> length rs' \<le> max mb (length rs)"
proof (induction pick mb hits ws rs bm arbitrary: ws' rs' bm' rule: admit.induct)
  case (1 pick mb hits ws rs bm)
  show ?case
  proof (cases "ws = [] \<or> length rs \<ge> mb")
    case True
    then show ?thesis using 1(2) by (subst (asm) admit.simps) (auto split: prod.splits if_splits)
  next
    case False
    obtain r rest where pop: "heap_pop pick ws = (r, rest)" by (cases "heap_pop pick ws")
    obtain bm1 r1 where one: "admit_one hits bm r = (bm1, r1)" by (cases "admit_one hits bm r")
    have "admit pick mb hits rest (rs @ [r1]) bm1 = (ws', rs', bm')"
      using 1(2) False pop one by (subst (asm) admit.simps) auto
    then show ?thesis using 1(1)[OF _ pop[symmetric] _ one[symmetric]] False by fastforce
  qed
qed

text \<open>A request of the given ones, with state and prefill position as admission or a step left them.\<close>

definition admitted_from :: "request list \<Rightarrow> request \<Rightarrow> bool" where
  "admitted_from qs r \<longleftrightarrow> (\<exists>q \<in> set qs. rq_id r = rq_id q \<and> rq_prompt r = rq_prompt q \<and> rq_output r = rq_output q
     \<and> rq_max_tokens r = rq_max_tokens q \<and> rq_stop r = rq_stop q)"

lemma admitted_from_self: "q \<in> set qs \<Longrightarrow> admitted_from qs q"
  by (auto simp: admitted_from_def)

lemma admit_one_from: "admit_one hits bm q = (bm', r) \<Longrightarrow> q \<in> set qs \<Longrightarrow> admitted_from qs r"
  by (auto simp: admitted_from_def admit_one_def split: option.splits if_splits intro!: bexI[of _ q])

lemma heap_pop_set: "heap_pop pick ws = (r, rest) \<Longrightarrow> ws \<noteq> [] \<Longrightarrow> r \<in> set ws \<and> set rest \<subseteq> set ws"
  by (auto simp: heap_pop_def Let_def dest: in_set_takeD in_set_dropD split: if_splits)

lemma admitted_from_mono: "admitted_from qs r \<Longrightarrow> set qs \<subseteq> set qs' \<Longrightarrow> admitted_from qs' r"
  by (auto simp: admitted_from_def)

lemma admit_from:
  "admit pick mb hits ws rs bm = (ws', rs', bm') \<Longrightarrow> r \<in> set rs' \<Longrightarrow> r \<in> set rs \<or> admitted_from ws r"
proof (induction pick mb hits ws rs bm arbitrary: ws' rs' bm' rule: admit.induct)
  case (1 pick mb hits ws rs bm)
  show ?case
  proof (cases "ws = [] \<or> length rs \<ge> mb")
    case True
    then show ?thesis using 1(2,3) by (subst (asm) admit.simps) (auto split: prod.splits if_splits)
  next
    case False
    obtain q rest where pop: "heap_pop pick ws = (q, rest)" by (cases "heap_pop pick ws")
    obtain bm1 q1 where one: "admit_one hits bm q = (bm1, q1)" by (cases "admit_one hits bm q")
    have "admit pick mb hits rest (rs @ [q1]) bm1 = (ws', rs', bm')"
      using 1(2) False pop one by (subst (asm) admit.simps) auto
    then have "r \<in> set (rs @ [q1]) \<or> admitted_from rest r"
      using 1(1)[OF _ pop[symmetric] _ one[symmetric] _ 1(3)] False by auto
    then show ?thesis using admit_one_from[OF one] heap_pop_set[OF pop] False admitted_from_mono[of rest r ws] by auto
  qed
qed

lemma build_batch_length: "build_batch sc st rs = (st', rs', es) \<Longrightarrow> length rs' = length rs"
  by (induction sc st rs arbitrary: st' rs' es rule: build_batch.induct) (auto split: prod.splits)


section \<open>What a batch entry promises\<close>

lemma bm_ensure_table:
  assumes "pool_at root bs bm" "bm_ensure_blocks rid n bm = Inr bm'" "bm_get_blocks bm' rid = Inr t"
  shows "n \<le> length t * bs"
proof -
  have "bm_pending bm []" using assms(1) kv_reach_inv bm_pinned_def bm_inv_pending by (auto simp: pool_at_def)
  then have "n \<le> length (table_of bm' rid) * bm_block_size bm" using bm_ensure_blocks_spec assms(2) by blast
  then show ?thesis using assms(1,3) by (auto simp: pool_at_def bm_get_blocks_def res_of_option_eq_Inr)
qed

lemma bm_allocate_table:
  assumes "pool_at root bs bm" "bm_allocate rid n bm = Inr (bm', new)" "bm_get_blocks bm' rid = Inr t"
  shows "n \<le> length t * bs"
proof -
  have pend: "bm_pending bm []" using assms(1) kv_reach_inv bm_pinned_def bm_inv_pending by (auto simp: pool_at_def)
  have "length t = ceil_div n bs" using bm_allocate_spec[OF pend assms(2)] assms(1,3)
    by (auto simp: pool_at_def bm_get_blocks_def res_of_option_eq_Inr)
  moreover have "0 < bs" using pend assms(1) by (simp add: pool_at_def bm_pending_def)
  ultimately show ?thesis using ceil_div_le[of bs n] by (simp add: mult.commute)
qed

lemma prefill_blocks_table:
  assumes "pool_at root bs bm" "prefill_blocks rid n bm = Some bm'" "bm_get_blocks bm' rid = Inr t"
  shows "n \<le> length t * bs"
  using assms bm_ensure_table bm_allocate_table
  by (fastforce simp: prefill_blocks_def split: if_splits sum.splits)

text \<open>
  An entry for a request: a chunk of the prompt at the positions it has there, or one decode step;
  where the executor writes to the cache, the block table reaches every position of the entry.
\<close>

definition entry_ok :: "bool \<Rightarrow> nat \<Rightarrow> nat \<Rightarrow> request \<Rightarrow> scheduled \<Rightarrow> bool" where
  "entry_ok use_kv chunk bs r e \<longleftrightarrow> sq_id e = rq_id r \<and> length (sq_positions e) = length (sq_input_ids e)
     \<and> (\<forall>i < length (sq_positions e). sq_input_ids e ! i = (rq_prompt r @ rq_output r) ! (sq_positions e ! i)
          \<or> rq_prompt r @ rq_output r = [])
     \<and> (rq_state r = Prefill \<longrightarrow> 0 < sq_n_tokens e \<and> sq_n_tokens e \<le> chunk \<and>
          sq_positions e = [rq_prefill_pos r..<rq_prefill_pos r + sq_n_tokens e] \<and> rq_prefill_pos r + sq_n_tokens e \<le> length (rq_prompt r))
     \<and> (use_kv \<or> rq_state r = Prefill \<longrightarrow> (\<forall>p \<in> set (sq_positions e). p div bs < length (sq_block_table e)))"

lemma covered_position: "p < n \<Longrightarrow> n \<le> l * bs \<Longrightarrow> p div bs < (l::nat)"
  by (rule less_mult_imp_div_less) simp

lemma schedule_prefill_entry:
  assumes "schedule_prefill sc st r = (st', r', Some e)" "pool_at root bs (bs_bm st)" "rq_state r = Prefill" "0 < sc_chunk_size sc"
  shows "entry_ok (sc_use_kv_cache sc) (sc_chunk_size sc) bs r e"
proof -
  define n where "n = chunk_tokens sc st r"
  obtain bm t where run: "0 < tokens_remaining r" "0 < prefill_budget sc st"
      "prefill_blocks (rq_id r) (length (rq_prompt r)) (bs_bm st) = Some bm" "bm_get_blocks bm (rq_id r) = Inr t"
      "e = prefill_entry r n t"
    using assms(1) by (auto simp: schedule_prefill_def Let_def n_def split: if_splits option.splits sum.splits)
  have len: "rq_prefill_pos r + n \<le> length (rq_prompt r)" "0 < n" "n \<le> sc_chunk_size sc"
    using run(1,2) assms(4) by (auto simp: n_def chunk_tokens_def tokens_remaining_def)
  have "length (rq_prompt r) \<le> length t * bs" using prefill_blocks_table[OF assms(2) run(3,4)] .
  then have "\<forall>p \<in> set (sq_positions e). p div bs < length (sq_block_table e)"
    using run(5) len(1) by (auto simp: prefill_entry_def intro: covered_position)
  moreover have "sq_input_ids e ! i = (rq_prompt r @ rq_output r) ! (sq_positions e ! i)" if "i < length (sq_positions e)" for i
    using that len(1) unfolding run(5) by (simp add: nth_append prefill_entry_def)
  ultimately show ?thesis using run(5) len assms(3) by (simp add: entry_ok_def prefill_entry_def)
qed

lemma schedule_decode_entry:
  assumes "schedule_decode sc st r = (st', r', Some e)" "pool_at root bs (bs_bm st)" "rq_state r = Decode"
  shows "entry_ok (sc_use_kv_cache sc) (sc_chunk_size sc) bs r e"
proof (cases "sc_use_kv_cache sc")
  case True
  let ?n = "length (rq_prompt r) + length (rq_output r)"
  obtain bm t where run: "bm_ensure_blocks (rq_id r) (?n + 1) (bs_bm st) = Inr bm" "bm_get_blocks bm (rq_id r) = Inr t"
      "e = decode_entry True r t"
    using assms(1) True by (auto simp: schedule_decode_def Let_def split: if_splits sum.splits)
  have "(?n - 1) div bs < length t" using bm_ensure_table[OF assms(2) run(1,2)] by (intro covered_position[of _ "?n + 1"]) auto
  moreover have "last_token r = (rq_prompt r @ rq_output r) ! (?n - 1) \<or> rq_prompt r @ rq_output r = []"
    using last_conv_nth[of "rq_prompt r @ rq_output r"] by (auto simp: last_token_def)
  ultimately show ?thesis using assms(3) run(3) by (auto simp: entry_ok_def decode_entry_def)
next
  case False
  then obtain t where "e = decode_entry False r t"
    using assms(1) by (auto simp: schedule_decode_def Let_def split: if_splits sum.splits)
  then show ?thesis using assms(3) False by (auto simp: entry_ok_def decode_entry_def)
qed

lemma schedule_one_entry:
  assumes "schedule_one sc st r = (st', r', Some e)" "pool_at root bs (bs_bm st)" "0 < sc_chunk_size sc"
  shows "entry_ok (sc_use_kv_cache sc) (sc_chunk_size sc) bs r e"
  using assms schedule_prefill_entry schedule_decode_entry by (auto simp: schedule_one_def split: request_state.splits)

lemma build_batch_entries:
  "build_batch sc st rs = (st', rs', es) \<Longrightarrow> pool_at root bs (bs_bm st) \<Longrightarrow> 0 < sc_chunk_size sc \<Longrightarrow> e \<in> set es \<Longrightarrow>
     \<exists>r \<in> set rs. entry_ok (sc_use_kv_cache sc) (sc_chunk_size sc) bs r e"
proof (induction sc st rs arbitrary: st' rs' es rule: build_batch.induct)
  case (2 sc st r rs)
  obtain st1 r1 entry where one: "schedule_one sc st r = (st1, r1, entry)" by (cases "schedule_one sc st r")
  obtain st2 rs2 es2 where rest: "build_batch sc st1 rs = (st2, rs2, es2)" by (cases "build_batch sc st1 rs")
  have es: "es = (case entry of None \<Rightarrow> [] | Some e \<Rightarrow> [e]) @ es2" using 2(2) one rest by simp
  show ?case
  proof (cases "e \<in> set es2")
    case True
    then show ?thesis using 2(1)[OF one[symmetric] refl rest pool_at_one[OF one 2(3)] 2(4)] by auto
  next
    case False
    then have "entry = Some e" using es 2(5) by (cases entry) auto
    then show ?thesis using schedule_one_entry[OF _ 2(3,4)] one by auto
  qed
qed simp


text \<open>C3: Every entry of a scheduled batch belongs to an admitted request and is right for it: its tokens are those of the request's sequence at the entry's positions, a prefill entry is the next chunk of the prompt and at most one chunk long, and where keys and values are written, the block table of the entry reaches every position.\<close>

theorem schedule_entries_ok:
  assumes run: "schedule pick sc bm hits = (sc', bm', batch)" and pool: "kv_reach bm root"
    and hits: "hits_ok root (bm_block_size bm) hits" and chunk: "0 < sc_chunk_size sc" and e: "e \<in> set batch"
  shows "\<exists>r. admitted_from (sc_waiting sc @ sc_running sc) r
     \<and> entry_ok (sc_use_kv_cache sc) (sc_chunk_size sc) (bm_block_size bm) r e"
proof -
  have pool': "pool_at root (bm_block_size bm) bm" using pool by (simp add: pool_at_def)
  obtain ws rs bm2 st rs' where steps:
    "admit pick (sc_max_batch_size sc) hits (sc_waiting sc) (filter (\<lambda>r. \<not> is_finished r) (sc_running sc))
       (foldl (\<lambda>b rid. bm_free rid b) bm (map rq_id (filter is_finished (sc_running sc)))) = (ws, rs, bm2)"
    "build_batch sc \<lparr>bs_bm = bm2, bs_prefill = 0, bs_decode = 0\<rparr> rs = (st, rs', batch)"
    using run by (auto simp: schedule_def Let_def split: prod.splits)
  have "pool_at root (bm_block_size bm) bm2" using pool_at_admit[OF steps(1) pool_at_free_all[OF pool'] hits] .
  then obtain r where r: "r \<in> set rs" "entry_ok (sc_use_kv_cache sc) (sc_chunk_size sc) (bm_block_size bm) r e"
    using build_batch_entries[OF steps(2) _ chunk e] by auto
  have "r \<in> set (filter (\<lambda>r. \<not> is_finished r) (sc_running sc)) \<or> admitted_from (sc_waiting sc) r"
    using admit_from[OF steps(1) r(1)] .
  then have "admitted_from (sc_waiting sc @ sc_running sc) r"
    by (auto intro: admitted_from_self admitted_from_mono)
  then show ?thesis using r(2) by blast
qed


section \<open>The token budget\<close>

lemma schedule_one_budget:
  assumes "schedule_one sc st r = (st', r', entry)" "bs_prefill st \<le> sc_max_tokens_per_step sc" "bs_decode st \<le> sc_max_tokens_per_step sc"
  shows "bs_prefill st' \<le> sc_max_tokens_per_step sc \<and> bs_decode st' \<le> sc_max_tokens_per_step sc
     \<and> bs_prefill st \<le> bs_prefill st' \<and> bs_decode st \<le> bs_decode st'
     \<and> (case entry of None \<Rightarrow> 0 | Some e \<Rightarrow> sq_n_tokens e) \<le> (bs_prefill st' - bs_prefill st) + (bs_decode st' - bs_decode st)"
  using assms
  by (auto simp: schedule_one_def schedule_prefill_def schedule_decode_def Let_def chunk_tokens_def prefill_budget_def
      prefill_entry_def decode_entry_def split: request_state.splits if_splits option.splits sum.splits)

lemma build_batch_budget:
  assumes "build_batch sc st rs = (st', rs', es)" "bs_prefill st \<le> sc_max_tokens_per_step sc" "bs_decode st \<le> sc_max_tokens_per_step sc"
  shows "bs_prefill st' \<le> sc_max_tokens_per_step sc \<and> bs_decode st' \<le> sc_max_tokens_per_step sc
     \<and> bs_prefill st \<le> bs_prefill st' \<and> bs_decode st \<le> bs_decode st'
     \<and> sum_list (map sq_n_tokens es) \<le> (bs_prefill st' - bs_prefill st) + (bs_decode st' - bs_decode st)"
  using assms
proof (induction sc st rs arbitrary: st' rs' es rule: build_batch.induct)
  case (2 sc st r rs)
  obtain st1 r1 entry where one: "schedule_one sc st r = (st1, r1, entry)" by (cases "schedule_one sc st r")
  obtain st2 rs2 es2 where rest: "build_batch sc st1 rs = (st2, rs2, es2)" by (cases "build_batch sc st1 rs")
  have eq: "st' = st2" "es = (case entry of None \<Rightarrow> [] | Some e \<Rightarrow> [e]) @ es2" using 2(2) one rest by simp_all
  note b1 = schedule_one_budget[OF one 2(3,4)]
  then have b2: "bs_prefill st2 \<le> sc_max_tokens_per_step sc \<and> bs_decode st2 \<le> sc_max_tokens_per_step sc
     \<and> bs_prefill st1 \<le> bs_prefill st2 \<and> bs_decode st1 \<le> bs_decode st2
     \<and> sum_list (map sq_n_tokens es2) \<le> (bs_prefill st2 - bs_prefill st1) + (bs_decode st2 - bs_decode st1)"
    using 2(1)[OF one[symmetric] refl rest] by blast
  have "sum_list (map sq_n_tokens es) = (case entry of None \<Rightarrow> 0 | Some e \<Rightarrow> sq_n_tokens e) + sum_list (map sq_n_tokens es2)"
    using eq(2) by (cases entry) auto
  then show ?case using b1 b2 unfolding eq(1) by (intro conjI) linarith+
qed simp


text \<open>C39: A scheduled batch has at most twice the configured number of tokens per step: prefill chunks and decode steps each stay within the budget.\<close>

theorem schedule_token_budget:
  "schedule pick sc bm hits = (sc', bm', batch) \<Longrightarrow> sum_list (map sq_n_tokens batch) \<le> 2 * sc_max_tokens_per_step sc"
  by (auto simp: schedule_def Let_def split: prod.splits dest!: build_batch_budget)


section \<open>Concrete schedules\<close>

definition demo_request :: "string \<Rightarrow> request_state \<Rightarrow> nat \<Rightarrow> request" where
  "demo_request rid s pos = (new_request rid [5, 6, 7, 8] 0 3 [])\<lparr>rq_state := s, rq_prefill_pos := pos\<rparr>"

definition demo_sched :: "nat \<Rightarrow> request list \<Rightarrow> scheduler" where
  "demo_sched max_tokens running = \<lparr>sc_max_batch_size = 8, sc_max_tokens_per_step = max_tokens, sc_chunk_size = 4,
     sc_use_kv_cache = True, sc_waiting = [], sc_running = running\<rparr>"

lemma demo_pool: "case bm_new 8 2 of Inl _ \<Rightarrow> False | Inr bm \<Rightarrow> (case bm_allocate ''a'' 4 bm of Inl _ \<Rightarrow> False | Inr (bm1, _) \<Rightarrow>
    (case schedule (\<lambda>_. 0) (demo_sched 4 [demo_request ''a'' Decode 4, demo_request ''b'' Prefill 0]) bm1 [] of
       (sc, bm2, batch) \<Rightarrow> map sq_n_tokens batch = [1, 4] \<and> map sq_input_ids batch = [[8], [5, 6, 7, 8]]
         \<and> map sq_positions batch = [[3], [0, 1, 2, 3]]))"
  by code_simp

text \<open>
  The prefill budget does not count decode steps, so a batch can exceed the configured number of
  tokens: here four tokens per step are allowed and five are scheduled.
\<close>

lemma budget_exceeded:
  "\<exists>sc bm sc' bm' batch. schedule (\<lambda>_. 0) sc bm [] = (sc', bm', batch) \<and> sum_list (map sq_n_tokens batch) = 5
     \<and> sc_max_tokens_per_step sc = 4"
proof -
  let ?sc = "demo_sched 4 [demo_request ''a'' Decode 4, demo_request ''b'' Prefill 0]"
  obtain bm sc' bm' batch where "schedule (\<lambda>_. 0) ?sc bm [] = (sc', bm', batch)" "map sq_n_tokens batch = [1, 4]"
    using demo_pool by (auto split: sum.splits prod.splits)
  moreover from this have "sum_list (map sq_n_tokens batch) = 5" by simp
  moreover have "sc_max_tokens_per_step ?sc = 4" by (simp add: demo_sched_def)
  ultimately show ?thesis by blast
qed

text \<open>
  A chunk for which no blocks are free is skipped for good: the position has moved past it, so once
  blocks are available again, the prompt is processed from its third token on.
\<close>

lemma prefill_chunk_skipped:
  "case bm_new 2 2 of Inl _ \<Rightarrow> False | Inr bm \<Rightarrow> (case bm_allocate ''x'' 4 bm of Inl _ \<Rightarrow> False | Inr (full, _) \<Rightarrow>
    (case schedule (\<lambda>_. 0) ((demo_sched 2 [demo_request ''b'' Prefill 0])) full [] of
       (sc1, bm1, batch1) \<Rightarrow>
         (case schedule (\<lambda>_. 0) sc1 (bm_free ''x'' bm1) [] of
            (sc2, bm2, batch2) \<Rightarrow> batch1 = [] \<and> map sq_positions batch2 = [[2, 3]])))"
  by code_simp

theorem schedule_entries_ok_witness:
  "\<exists>sc bm sc' bm' batch e r. schedule (\<lambda>_. 0) sc bm [] = (sc', bm', batch) \<and> kv_reach bm radix_init \<and> e \<in> set batch
     \<and> admitted_from (sc_waiting sc @ sc_running sc) r \<and> entry_ok True 4 (bm_block_size bm) r e"
proof -
  let ?sc = "demo_sched 4 [demo_request ''a'' Decode 4, demo_request ''b'' Prefill 0]"
  obtain bm bm1 new sc' bm' batch where run: "bm_new 8 2 = Inr bm" "bm_allocate ''a'' 4 bm = Inr (bm1, new)"
    "schedule (\<lambda>_. 0) ?sc bm1 [] = (sc', bm', batch)" "map sq_n_tokens batch = [1, 4]"
    using demo_pool by (auto split: sum.splits prod.splits)
  have reach: "kv_reach bm1 radix_init" using run(1,2) by (auto intro: kv_init kv_allocate)
  obtain e where e: "e \<in> set batch" using run(4) by (cases batch) auto
  obtain r where "admitted_from (sc_waiting ?sc @ sc_running ?sc) r" "entry_ok True 4 (bm_block_size bm1) r e"
    using schedule_entries_ok[OF run(3) reach _ _ e] by (auto simp: hits_ok_def demo_sched_def)
  then show ?thesis using run(3) reach e by blast
qed

theorem schedule_token_budget_witness:
  "\<exists>sc bm sc' bm' batch. schedule (\<lambda>_. 0) sc bm [] = (sc', bm', batch) \<and> batch \<noteq> []
     \<and> sum_list (map sq_n_tokens batch) \<le> 2 * sc_max_tokens_per_step sc"
proof -
  let ?sc = "demo_sched 4 [demo_request ''a'' Decode 4, demo_request ''b'' Prefill 0]"
  obtain bm sc' bm' batch where run: "schedule (\<lambda>_. 0) ?sc bm [] = (sc', bm', batch)" "map sq_n_tokens batch = [1, 4]"
    using demo_pool by (auto split: sum.splits prod.splits)
  have "batch \<noteq> []" using run(2) by auto
  then show ?thesis using schedule_token_budget[OF run(1)] run(1) by blast
qed

end
