(* ===== verification/Engine.thy ===== *)
theory Engine
  imports Complex_Main Scheduler
begin

text \<open>
  The inference engine: \<open>SchedulingBridge\<close> (\<open>_scheduling_bridge.py\<close>), which owns the block
  manager, the scheduler and the prefix cache; \<open>InferenceLoop\<close> (\<open>_inference_loop.py\<close>), one step of
  which evicts, schedules, runs the executor, samples and records; and the request interface and
  the generation loop of \<open>LLMEngine\<close> (\<open>llm_engine.py\<close>).  The executor and the sampler are
  parameters: the executor has a state, and its two forward calls give logits; the sampler draws a
  token for a row of them.  Log messages and times are left out.  \<open>_write_kv_outputs\<close> does nothing
  on the paths of \<open>step\<close>: a cache is only prepared for executors with a cache manager, and for
  those it returns at once.
\<close>

section \<open>Parameters\<close>

record sampling_params =
  sp_temperature :: rat
  sp_top_p :: rat
  sp_top_k :: int
  sp_max_tokens :: nat
  sp_stop :: "int list"

definition sampling_new :: "rat \<Rightarrow> rat \<Rightarrow> int \<Rightarrow> nat \<Rightarrow> sampling_params res" where
  "sampling_new temperature top_p top_k max_tokens =
     (if temperature < 0 then Inl ValueError
      else if \<not> (0 \<le> top_p \<and> top_p \<le> 1) then Inl ValueError
      else Inr \<lparr>sp_temperature = temperature, sp_top_p = top_p, sp_top_k = top_k, sp_max_tokens = max_tokens, sp_stop = []\<rparr>)"

definition default_sampling :: sampling_params where
  "default_sampling = \<lparr>sp_temperature = 1, sp_top_p = 1, sp_top_k = 0, sp_max_tokens = 256, sp_stop = []\<rparr>"

text \<open>
  \<open>ex_rows\<close> is \<open>logits.shape[0]\<close> of logits with three or more dimensions, and nothing otherwise;
  \<open>ex_sample\<close> draws a token for one row.
\<close>

record ('x, 'l) executor =
  ex_uses_cache_manager :: bool
  ex_set_kv :: "'x \<Rightarrow> (string, nat list) dict \<Rightarrow> nat \<Rightarrow> 'x"
  ex_forward_kv :: "'x \<Rightarrow> int list list \<Rightarrow> nat list list \<Rightarrow> bool \<Rightarrow> ('l \<times> 'x) res"
  ex_forward :: "'x \<Rightarrow> int list list \<Rightarrow> nat list list \<Rightarrow> ('l \<times> 'x) res"
  ex_rows :: "'l \<Rightarrow> nat option"
  ex_sample :: "'x \<Rightarrow> 'l \<Rightarrow> nat \<Rightarrow> sampling_params \<Rightarrow> (int \<times> 'x) res"

record 'x engine =
  en_bm :: block_manager
  en_sched :: scheduler
  en_radix :: "rnode option"
  en_num_blocks :: nat
  en_block_size :: nat
  en_kv_cache :: bool
  en_sampling :: "(string, sampling_params) dict"
  en_prompts :: "(string, int list) dict"
  en_outputs :: "(string, int list) dict"
  en_step_id :: nat
  en_exec :: 'x

definition is_u32 :: "int \<Rightarrow> bool" where
  "is_u32 t \<longleftrightarrow> 0 \<le> t \<and> t < 2 ^ 32"


section \<open>The scheduling bridge\<close>

definition engine_new :: "nat \<Rightarrow> nat \<Rightarrow> nat \<Rightarrow> nat \<Rightarrow> nat \<Rightarrow> bool \<Rightarrow> bool \<Rightarrow> 'x \<Rightarrow> 'x engine res" where
  "engine_new num_blocks block_size max_batch_size max_tokens_per_step chunk_size enable_prefix_cache use_kv_cache x =
     res_bind (bm_new num_blocks block_size) (\<lambda>bm.
     res_bind (sched_new max_batch_size max_tokens_per_step chunk_size use_kv_cache) (\<lambda>sc.
     Inr \<lparr>en_bm = bm, en_sched = sc, en_radix = (if enable_prefix_cache then Some radix_init else None),
          en_num_blocks = num_blocks, en_block_size = block_size, en_kv_cache = False, en_sampling = [], en_prompts = [],
          en_outputs = [], en_step_id = 0, en_exec = x\<rparr>))"

definition bridge_add_request :: "'x engine \<Rightarrow> string \<Rightarrow> int list \<Rightarrow> nat \<Rightarrow> int list \<Rightarrow> 'x engine res" where
  "bridge_add_request en rid prompt max_tokens stop =
     (if \<not> list_all is_u32 prompt \<or> \<not> list_all is_u32 stop then Inl OverflowError
      else Inr (en\<lparr>en_sched := sched_add (en_sched en) (new_request rid prompt 0 max_tokens stop)\<rparr>))"

definition free_request :: "'x engine \<Rightarrow> string \<Rightarrow> 'x engine" where
  "free_request en rid = en\<lparr>en_bm := bm_free rid (en_bm en)\<rparr>"

definition build_cache_hits :: "'x engine \<Rightarrow> cache_hit list" where
  "build_cache_hits en =
     (case en_radix en of
        None \<Rightarrow> []
      | Some tree \<Rightarrow>
          List.map_filter (\<lambda>(rid, prompt).
              if (case map_of (en_outputs en) rid of None \<Rightarrow> True | Some out \<Rightarrow> length out = 0)
              then case match_prefix (bm_block_size (en_bm en)) tree prompt of
                     (blocks, matched) \<Rightarrow> if matched > 0 then Some (rid, blocks, matched) else None
              else None)
            (en_prompts en))"

text \<open>A failure to insert is caught and logged.\<close>

definition insert_finished_to_cache :: "'x engine \<Rightarrow> string \<Rightarrow> 'x engine" where
  "insert_finished_to_cache en rid =
     (case (en_radix en, map_of (en_prompts en) rid) of
        (Some tree, Some prompt) \<Rightarrow>
          (case bm_get_blocks (en_bm en) rid of
             Inl _ \<Rightarrow> en
           | Inr blocks \<Rightarrow>
               (case radix_insert bm_increment_ref_count (bm_block_size (en_bm en)) (en_bm en) tree
                       (prompt @ dict_get (en_outputs en) rid []) blocks of
                  (tree', bm') \<Rightarrow> en\<lparr>en_radix := Some tree', en_bm := bm'\<rparr>))
      | _ \<Rightarrow> en)"

definition evict_cache_if_needed :: "'x engine \<Rightarrow> 'x engine \<times> nat" where
  "evict_cache_if_needed en =
     (case en_radix en of
        None \<Rightarrow> (en, 0)
      | Some tree \<Rightarrow>
          let free = bm_num_free_blocks (en_bm en); low = max 1 (en_num_blocks en div 10)
          in if free < low
             then (case radix_evict bm_free_block tree (max 1 (int (en_num_blocks en div 10) - int free)) (en_bm en) of
                     (tree', n, bm') \<Rightarrow> (en\<lparr>en_radix := Some tree', en_bm := bm'\<rparr>, n))
             else (en, 0))"


section \<open>The inference loop\<close>

definition loop_add_request :: "'x engine \<Rightarrow> string \<Rightarrow> int list \<Rightarrow> sampling_params \<Rightarrow> 'x engine" where
  "loop_add_request en rid prompt sp =
     en\<lparr>en_sampling := AList.update rid sp (en_sampling en), en_prompts := AList.update rid prompt (en_prompts en)\<rparr>"

definition cleanup_request :: "'x engine \<Rightarrow> string \<Rightarrow> 'x engine" where
  "cleanup_request en rid =
     (free_request en rid)\<lparr>en_prompts := AList.delete rid (en_prompts en), en_outputs := AList.delete rid (en_outputs en),
        en_sampling := AList.delete rid (en_sampling en)\<rparr>"

record generation =
  ge_id :: string
  ge_new_tokens :: "int list"
  ge_finished :: bool

definition ensure_kv_cache :: "('x, 'l) executor \<Rightarrow> 'x engine \<Rightarrow> 'x engine" where
  "ensure_kv_cache X en = (if ex_uses_cache_manager X then en\<lparr>en_kv_cache := True\<rparr> else en)"

definition batch_tables :: "scheduled list \<Rightarrow> (string, nat list) dict" where
  "batch_tables batch = foldl (\<lambda>d e. AList.update (sq_id e) (sq_block_table e) d) [] batch"

definition can_batch_forward :: "('x, 'l) executor \<Rightarrow> scheduled list \<Rightarrow> bool" where
  "can_batch_forward X batch =
     (if length batch \<le> 1 then length batch = 1
      else if ex_uses_cache_manager X then False
      else list_all (\<lambda>e. length (sq_input_ids e) = length (sq_input_ids (hd batch))) (tl batch))"

text \<open>
  Sampling for one request of the batch, and the bookkeeping after it: a finished request enters
  the prefix cache with its blocks before they are released.
\<close>

definition sample_one ::
    "('x, 'l) executor \<Rightarrow> 'l \<Rightarrow> 'x engine \<times> generation list \<Rightarrow> nat \<times> scheduled \<Rightarrow> ('x engine \<times> generation list) res" where
  "sample_one X logits = (\<lambda>(en, results) (idx, e).
     if sq_state e = Prefill then Inr (en, results)
     else res_bind (ex_sample X (en_exec en) logits idx (dict_get (en_sampling en) (sq_id e) default_sampling)) (\<lambda>(t, x).
       let rid = sq_id e;
           en1 = en\<lparr>en_exec := x, en_outputs := AList.update rid (dict_get (en_outputs en) rid [] @ [t]) (en_outputs en)\<rparr>
       in if \<not> is_u32 t then Inl OverflowError
          else case record_output (en_sched en1) rid t of
                 (sc, finished) \<Rightarrow>
                   let en2 = en1\<lparr>en_sched := sc\<rparr>;
                       en3 = (if finished then cleanup_request (insert_finished_to_cache en2 rid) rid else en2)
                   in Inr (en3, results @ [\<lparr>ge_id = rid, ge_new_tokens = [t], ge_finished = finished\<rparr>])))"

definition sample_from_logits ::
    "('x, 'l) executor \<Rightarrow> 'l \<Rightarrow> scheduled list \<Rightarrow> nat option \<Rightarrow> 'x engine \<Rightarrow> ('x engine \<times> generation list) res" where
  "sample_from_logits X logits batch single en =
     (let bsz = (case ex_rows X logits of None \<Rightarrow> 1 | Some n \<Rightarrow> n);
          reqs = (case single of None \<Rightarrow> take bsz batch | Some i \<Rightarrow> take 1 (drop i batch))
      in res_foldM (sample_one X logits) (en, []) (enum_from 0 reqs))"

definition forward ::
    "('x, 'l) executor \<Rightarrow> bool \<Rightarrow> (string, nat list) dict \<Rightarrow> scheduled list \<Rightarrow> bool \<Rightarrow> 'x engine \<Rightarrow> ('l \<times> 'x engine) res" where
  "forward X use_kv tables reqs is_decode en =
     (let ids = map sq_input_ids reqs; pos = map sq_positions reqs
      in res_bind (if use_kv then ex_forward_kv X (ex_set_kv X (en_exec en) tables (en_block_size en)) ids pos is_decode
                   else ex_forward X (en_exec en) ids pos) (\<lambda>(logits, x). Inr (logits, en\<lparr>en_exec := x\<rparr>)))"

definition step_batch :: "('x, 'l) executor \<Rightarrow> scheduled list \<Rightarrow> bool \<Rightarrow> 'x engine \<Rightarrow> ('x engine \<times> generation list) res" where
  "step_batch X batch use_kv en =
     res_bind (forward X use_kv (batch_tables batch) batch (sq_n_tokens (hd batch) = 1) en) (\<lambda>(logits, en1).
     sample_from_logits X logits batch None en1)"

definition step_per_request :: "('x, 'l) executor \<Rightarrow> scheduled list \<Rightarrow> bool \<Rightarrow> 'x engine \<Rightarrow> ('x engine \<times> generation list) res" where
  "step_per_request X batch use_kv en =
     res_foldM (\<lambda>(en, results) (i, e).
         res_bind (forward X use_kv [(sq_id e, dict_get (batch_tables batch) (sq_id e) [])] [e] (sq_n_tokens e = 1) en) (\<lambda>(logits, en1).
         res_bind (sample_from_logits X logits batch (Some i) en1) (\<lambda>(en2, rs). Inr (en2, results @ rs))))
       (en, []) (enum_from 0 batch)"

definition engine_step ::
    "(request list \<Rightarrow> nat) \<Rightarrow> ('x, 'l) executor \<Rightarrow> 'x engine \<Rightarrow> ('x engine \<times> generation list) res" where
  "engine_step pick X en =
     (let en1 = fst (evict_cache_if_needed (en\<lparr>en_step_id := en_step_id en + 1\<rparr>))
      in case schedule pick (en_sched en1) (en_bm en1) (build_cache_hits en1) of
           (sc, bm, batch) \<Rightarrow>
             let en2 = en1\<lparr>en_sched := sc, en_bm := bm\<rparr>
             in if batch = [] then Inr (en2, [])
                else let en3 = ensure_kv_cache X en2;
                         use_kv = (en_kv_cache en3 \<and> batch_tables batch \<noteq> [])
                     in if can_batch_forward X batch then step_batch X batch use_kv en3 else step_per_request X batch use_kv en3)"


section \<open>The engine\<close>

text \<open>
  The sampling parameters are checked after the request has been queued: the state is returned
  with the error.
\<close>

definition add_request ::
    "'x engine \<Rightarrow> string \<Rightarrow> int list \<Rightarrow> nat \<Rightarrow> rat \<Rightarrow> rat \<Rightarrow> int \<Rightarrow> int list \<Rightarrow> 'x engine \<times> py_error option" where
  "add_request en rid prompt max_tokens temperature top_p top_k stop =
     (case bridge_add_request en rid prompt max_tokens stop of
        Inl err \<Rightarrow> (en, Some err)
      | Inr en1 \<Rightarrow>
          (case sampling_new temperature top_p top_k max_tokens of
             Inl err \<Rightarrow> (en1, Some err)
           | Inr sp \<Rightarrow> (loop_add_request en1 rid prompt sp, None)))"

definition is_idle :: "'x engine \<Rightarrow> bool" where
  "is_idle en \<longleftrightarrow> \<not> has_work (en_sched en)"

text \<open>
  The tokens of a request among the results of a step, up to the result that finishes it, and
  whether there is one.
\<close>

fun collect :: "string \<Rightarrow> generation list \<Rightarrow> int list \<times> bool" where
  "collect rid [] = ([], False)"
| "collect rid (g # gs) =
     (if ge_id g = rid
      then if ge_finished g then (ge_new_tokens g, True)
           else (case collect rid gs of (ts, b) \<Rightarrow> (ge_new_tokens g @ ts, b))
      else collect rid gs)"

text \<open>The loop of \<open>generate\<close>; a value is \<open>None\<close> while it has not returned after the given steps.\<close>

fun generate_loop ::
    "nat \<Rightarrow> (request list \<Rightarrow> nat) \<Rightarrow> ('x, 'l) executor \<Rightarrow> string \<Rightarrow> int list \<Rightarrow> 'x engine \<Rightarrow> (int list \<times> 'x engine) res option" where
  "generate_loop 0 pick X rid acc en = None"
| "generate_loop (Suc n) pick X rid acc en =
     (case engine_step pick X en of
        Inl err \<Rightarrow> Some (Inl err)
      | Inr (en1, results) \<Rightarrow>
          (case collect rid results of (ts, finished) \<Rightarrow>
             if finished \<or> is_idle en1 then Some (Inr (acc @ ts, en1))
             else generate_loop n pick X rid (acc @ ts) en1))"


section \<open>The pool in every state of the engine\<close>

definition tree_of :: "'x engine \<Rightarrow> rnode" where
  "tree_of en = (case en_radix en of None \<Rightarrow> radix_init | Some tree \<Rightarrow> tree)"

definition engine_inv :: "'x engine \<Rightarrow> bool" where
  "engine_inv en \<longleftrightarrow> kv_reach (en_bm en) (tree_of en)"

lemma engine_inv_update [simp]:
  "engine_inv (en\<lparr>en_step_id := a\<rparr>) = engine_inv en" "engine_inv (en\<lparr>en_sched := sc\<rparr>) = engine_inv en"
  "engine_inv (en\<lparr>en_exec := x\<rparr>) = engine_inv en" "engine_inv (en\<lparr>en_kv_cache := b\<rparr>) = engine_inv en"
  "engine_inv (en\<lparr>en_outputs := ds\<rparr>) = engine_inv en"
  by (simp_all add: engine_inv_def tree_of_def)

lemma engine_inv_new: "engine_new nb bs mb mt cs pc kv x = Inr en \<Longrightarrow> engine_inv en"
  by (auto simp: engine_new_def res_simps engine_inv_def tree_of_def intro: kv_init)

lemma engine_inv_add: "engine_inv en \<Longrightarrow> engine_inv (fst (add_request en rid prompt mt t p k stop))"
  by (auto simp: add_request_def bridge_add_request_def loop_add_request_def engine_inv_def tree_of_def split: sum.split)

lemma engine_inv_evict: "engine_inv en \<Longrightarrow> engine_inv (fst (evict_cache_if_needed en))"
  by (auto simp: evict_cache_if_needed_def engine_inv_def tree_of_def Let_def split: option.split prod.split intro: kv_evict)

lemma engine_inv_insert: "engine_inv en \<Longrightarrow> engine_inv (insert_finished_to_cache en rid)"
  by (auto simp: insert_finished_to_cache_def engine_inv_def tree_of_def bm_get_blocks_def res_of_option_eq_Inr
      split: option.split sum.split prod.split intro: kv_store)

lemma engine_inv_cleanup: "engine_inv en \<Longrightarrow> engine_inv (cleanup_request en rid)"
  by (auto simp: cleanup_request_def free_request_def engine_inv_def tree_of_def intro: kv_free)

lemma engine_inv_sample_one:
  "sample_one X logits (en, gs) (i, e) = Inr (en', gs') \<Longrightarrow> engine_inv en \<Longrightarrow> engine_inv en'"
  by (auto simp: sample_one_def res_bind_eq_Inr Let_def split: if_splits prod.splits
      intro!: engine_inv_cleanup engine_inv_insert)

lemma engine_inv_fold:
  assumes step: "\<And>en gs p en' gs'. f (en, gs) p = Inr (en', gs') \<Longrightarrow> engine_inv en \<Longrightarrow> engine_inv en'"
    and run: "res_foldM f (en, gs) ps = Inr (en', gs')" "engine_inv en"
  shows "engine_inv en'"
  using run
proof (induction ps arbitrary: en gs)
  case (Cons p ps)
  obtain en1 gs1 where "f (en, gs) p = Inr (en1, gs1)" "res_foldM f (en1, gs1) ps = Inr (en', gs')"
    using Cons.prems(1) by (auto simp: res_bind_eq_Inr)
  then show ?case using Cons.IH step Cons.prems(2) by blast
qed simp

lemma engine_inv_sample: "sample_from_logits X logits batch single en = Inr (en', gs) \<Longrightarrow> engine_inv en \<Longrightarrow> engine_inv en'"
  unfolding sample_from_logits_def Let_def by (rule engine_inv_fold) (auto dest: engine_inv_sample_one)

lemma engine_inv_forward: "forward X kv tables reqs d en = Inr (logits, en') \<Longrightarrow> engine_inv en' = engine_inv en"
  by (auto simp: forward_def Let_def res_bind_eq_Inr)

lemma engine_inv_batch: "step_batch X batch kv en = Inr (en', gs) \<Longrightarrow> engine_inv en \<Longrightarrow> engine_inv en'"
  by (auto simp: step_batch_def res_bind_eq_Inr dest: engine_inv_forward intro: engine_inv_sample)

lemma engine_inv_per_request: "step_per_request X batch kv en = Inr (en', gs) \<Longrightarrow> engine_inv en \<Longrightarrow> engine_inv en'"
  unfolding step_per_request_def
  by (rule engine_inv_fold) (auto simp: res_bind_eq_Inr split: prod.splits dest: engine_inv_forward engine_inv_sample)

lemma hits_from_tree: "hits_ok (tree_of en) (bm_block_size (en_bm en)) (build_cache_hits en)"
proof (cases "en_radix en")
  case (Some tree)
  show ?thesis unfolding hits_ok_def
  proof
    fix h assume "h \<in> set (build_cache_hits en)"
    then obtain rid prompt where "(rid, prompt) \<in> set (en_prompts en)"
      and "(case match_prefix (bm_block_size (en_bm en)) tree prompt of (blocks, matched) \<Rightarrow>
              if matched > 0 then Some (rid, blocks, matched) else None) = Some h"
      using Some by (auto simp: build_cache_hits_def map_filter_def split: if_splits)
    then show "case h of (rid, blocks, k) \<Rightarrow> \<exists>xs m. match_prefix (bm_block_size (en_bm en)) (tree_of en) xs = (blocks, m)"
      using Some by (auto simp: tree_of_def split: prod.splits if_splits)
  qed
qed (simp add: hits_ok_def build_cache_hits_def)

lemma engine_inv_step:
  assumes "engine_step pick X en = Inr (en', gs)" "engine_inv en"
  shows "engine_inv en'"
proof -
  define en1 where "en1 = fst (evict_cache_if_needed (en\<lparr>en_step_id := en_step_id en + 1\<rparr>))"
  have inv1: "engine_inv en1" using assms(2) by (simp add: en1_def engine_inv_evict)
  obtain sc bm batch where sched: "schedule pick (en_sched en1) (en_bm en1) (build_cache_hits en1) = (sc, bm, batch)"
    by (cases "schedule pick (en_sched en1) (en_bm en1) (build_cache_hits en1)")
  have "pool_at (tree_of en1) (bm_block_size (en_bm en1)) bm"
    using pool_at_schedule[OF sched _ hits_from_tree] inv1 by (simp add: pool_at_def engine_inv_def)
  then have inv2: "engine_inv (en1\<lparr>en_sched := sc, en_bm := bm\<rparr>)" by (simp add: engine_inv_def pool_at_def tree_of_def)
  then have "engine_inv (ensure_kv_cache X (en1\<lparr>en_sched := sc, en_bm := bm\<rparr>))" by (simp add: ensure_kv_cache_def engine_inv_def tree_of_def)
  then show ?thesis using assms(1) inv2 unfolding engine_step_def Let_def en1_def[symmetric] sched prod.case
    by (auto split: if_splits dest: engine_inv_batch engine_inv_per_request)
qed

text \<open>The states of an engine: requests may arrive between steps.\<close>

inductive engine_reach :: "('x, 'l) executor \<Rightarrow> 'x engine \<Rightarrow> bool" for X where
  er_new: "engine_new nb bs mb mt cs pc kv x = Inr en \<Longrightarrow> engine_reach X en"
| er_add: "engine_reach X en \<Longrightarrow> engine_reach X (fst (add_request en rid prompt max_tokens t p k stop))"
| er_step: "engine_reach X en \<Longrightarrow> engine_step pick X en = Inr (en', gs) \<Longrightarrow> engine_reach X en'"

text \<open>C1: In every state of the engine, for any executor, sampler and order of admission, the block pool is consistent, and no block that the prefix cache would hand to a request is free: requests are added and steps evict, match, admit, prefill, decode, finish and store in any order.\<close>

theorem engine_blocks_safe:
  assumes "engine_reach X en"
  shows "bm_inv (en_bm en) \<and> (\<forall>(rid, blocks, matched) \<in> set (build_cache_hits en). \<forall>b \<in> set blocks.
     0 < bm_ref_count (en_bm en) b \<and> b < bm_num_blocks (en_bm en) \<and> b \<notin> set (bm_free_blocks (en_bm en)))"
proof -
  have inv: "engine_inv en" using assms
    by (induction rule: engine_reach.induct) (auto intro: engine_inv_new engine_inv_add engine_inv_step)
  note safe = kv_reach_safe[OF inv[unfolded engine_inv_def]]
  have "\<forall>b \<in> set blocks. 0 < bm_ref_count (en_bm en) b \<and> b < bm_num_blocks (en_bm en) \<and> b \<notin> set (bm_free_blocks (en_bm en))"
    if hit: "(rid, blocks, matched) \<in> set (build_cache_hits en)" for rid blocks matched
  proof -
    obtain xs m where "match_prefix (bm_block_size (en_bm en)) (tree_of en) xs = (blocks, m)"
      using bspec[OF hits_from_tree[of en, unfolded hits_ok_def] hit] by auto
    then show ?thesis using safe[of xs] by simp
  qed
  then show ?thesis using safe by blast
qed

end
