(* ===== verification/Engine_Live.thy ===== *)
theory Engine_Live
  imports Engine
begin

text \<open>
  Progress of \<open>LLMEngine.generate\<close> (\<open>llm_engine.py\<close>) on an engine that serves one request: with
  enough blocks for prompt and output the loop returns, and with a prompt that does not fit the
  pool it never does.
\<close>

section \<open>Room in the pool\<close>

text \<open>The request can reach all blocks of the pool: those of its table and the free ones.\<close>

definition room :: "string \<Rightarrow> nat \<Rightarrow> nat \<Rightarrow> block_manager \<Rightarrow> bool" where
  "room rid bs nb bm \<longleftrightarrow> bm_inv bm \<and> bm_block_size bm = bs \<and> length (table_of bm rid) + length (bm_free_blocks bm) = nb"

lemma room_new: "bm_new nb bs = Inr bm \<Longrightarrow> room rid bs nb bm"
  using bm_inv_new[of nb bs bm] by (auto simp: room_def bm_new_def split: if_splits)

lemma room_pos: "room rid bs nb bm \<Longrightarrow> 0 < bs"
  by (auto simp: room_def bm_inv_def)

lemma room_allocate:
  assumes room: "room rid bs nb bm" and none: "bm_block_tables bm rid = None" and fits: "ceil_div n bs \<le> nb"
  shows "\<exists>bm' t. bm_allocate rid n bm = Inr (bm', t) \<and> room rid bs nb bm' \<and> bm_block_tables bm' rid = Some t"
proof -
  have inv: "bm_inv bm" "bm_block_size bm = bs" "length (bm_free_blocks bm) = nb" using room none by (auto simp: room_def)
  let ?n = "ceil_div n bs"
  have enough: "?n \<le> length (bm_free_blocks bm)" using fits inv(3) by simp
  obtain new where pop: "pop_blocks ?n bm [] = Inr (bm\<lparr>bm_free_blocks := take (length (bm_free_blocks bm) - ?n) (bm_free_blocks bm),
             bm_blocks := (\<lambda>b. if b \<in> set new then Some 1 else bm_blocks bm b)\<rparr>, [] @ new)" "length new = ?n"
    using pop_blocks_ok[OF bm_inv_stack_ok[OF inv(1)] enough, of "[]"] by blast
  define bm' where "bm' = bm\<lparr>bm_free_blocks := take (length (bm_free_blocks bm) - ?n) (bm_free_blocks bm),
     bm_blocks := (\<lambda>b. if b \<in> set new then Some 1 else bm_blocks bm b), bm_block_tables := (bm_block_tables bm)(rid \<mapsto> new)\<rparr>"
  have alloc: "bm_allocate rid n bm = Inr (bm', new)"
    using none enough inv(2) pop(1) by (simp add: bm_allocate_def Let_def bm'_def)
  then have "bm_inv bm'" using bm_allocate_spec[of bm "[]"] inv(1) by (auto simp: bm_inv_pending)
  then have "room rid bs nb bm'" using inv enough pop(2) by (simp add: room_def bm'_def)
  then show ?thesis using alloc by (auto simp: bm'_def)
qed

lemma room_ensure:
  assumes room: "room rid bs nb bm" and fits: "ceil_div n bs \<le> nb"
  shows "\<exists>bm'. bm_ensure_blocks rid n bm = Inr bm' \<and> room rid bs nb bm' \<and> (bm_block_tables bm rid \<noteq> None \<or> 0 < n \<longrightarrow> bm_block_tables bm' rid \<noteq> None)"
proof -
  have inv: "bm_inv bm" "bm_block_size bm = bs" "0 < bs" using room room_pos by (auto simp: room_def)
  let ?t = "table_of bm rid" and ?F = "bm_free_blocks bm"
  have ex: "(case bm_block_tables bm rid of None \<Rightarrow> 0 | Some t \<Rightarrow> length t * bm_block_size bm) = length ?t * bs"
    using inv(2) by (simp split: option.split)
  show ?thesis
  proof (cases "n \<le> length ?t * bs")
    case True
    have "bm_block_tables bm rid \<noteq> None" if "0 < n" using True that by (auto split: option.splits)
    moreover have "bm_ensure_blocks rid n bm = Inr bm" using True ex by (simp add: bm_ensure_blocks_def Let_def)
    ultimately show ?thesis using room by blast
  next
    case False
    let ?n = "ceil_div (n - length ?t * bs) bs"
    have "n \<le> bs * nb" using ceil_div_le[OF inv(3), of n] fits by (meson le_trans mult_le_mono2)
    then have "n - length ?t * bs \<le> bs * length ?F" using room by (auto simp: room_def add_mult_distrib2 mult.commute)
    then have enough: "?n \<le> length ?F" using ceil_div_least[OF inv(3)] by simp
    obtain new where pop: "pop_blocks ?n bm ?t = Inr (bm\<lparr>bm_free_blocks := take (length ?F - ?n) ?F,
               bm_blocks := (\<lambda>b. if b \<in> set new then Some 1 else bm_blocks bm b)\<rparr>, ?t @ new)" "length new = ?n"
      using pop_blocks_ok[OF bm_inv_stack_ok[OF inv(1)] enough, of ?t] by blast
    define bm' where "bm' = bm\<lparr>bm_free_blocks := take (length ?F - ?n) ?F,
       bm_blocks := (\<lambda>b. if b \<in> set new then Some 1 else bm_blocks bm b), bm_block_tables := (bm_block_tables bm)(rid \<mapsto> ?t @ new)\<rparr>"
    have ens: "bm_ensure_blocks rid n bm = Inr bm'"
      using False enough inv(2) ex pop(1) by (simp add: bm_ensure_blocks_def Let_def bm'_def)
    then have "bm_inv bm'" using bm_ensure_blocks_spec[of bm "[]"] inv(1) by (auto simp: bm_inv_pending)
    then have "room rid bs nb bm'" using room enough pop(2) by (simp add: room_def bm'_def)
    then show ?thesis using ens by (auto simp: bm'_def)
  qed
qed

lemma room_prefill:
  assumes "room rid bs nb bm" "ceil_div n bs \<le> nb" "0 < n"
  shows "\<exists>bm' t. prefill_blocks rid n bm = Some bm' \<and> room rid bs nb bm' \<and> bm_block_tables bm' rid = Some t"
proof (cases "bm_block_tables bm rid")
  case None
  then show ?thesis using room_allocate[OF assms(1) None assms(2)] by (auto simp: prefill_blocks_def)
next
  case (Some t)
  then show ?thesis using room_ensure[OF assms(1,2)] by (auto simp: prefill_blocks_def)
qed


section \<open>Scheduling one request\<close>

text \<open>An engine without prefix cache that serves one request.\<close>

definition single :: "string \<Rightarrow> nat \<Rightarrow> nat \<Rightarrow> 'x engine \<Rightarrow> request \<Rightarrow> bool" where
  "single rid bs nb en r \<longleftrightarrow> en_radix en = None \<and> 0 < sc_max_tokens_per_step (en_sched en) \<and> 0 < sc_chunk_size (en_sched en)
     \<and> sc_waiting (en_sched en) = [] \<and> sc_running (en_sched en) = [r] \<and> rq_id r = rid \<and> room rid bs nb (en_bm en)
     \<and> (rq_state r = Prefill \<and> rq_prefill_pos r < length (rq_prompt r)
        \<or> rq_state r = Decode \<and> bm_block_tables (en_bm en) rid \<noteq> None)"

definition fits :: "nat \<Rightarrow> nat \<Rightarrow> request \<Rightarrow> bool" where
  "fits bs nb r \<longleftrightarrow> ceil_div (length (rq_prompt r) + max 1 (rq_max_tokens r) + 1) bs \<le> nb
     \<and> length (rq_output r) < max 1 (rq_max_tokens r) \<and> set (rq_output r) \<inter> set (rq_stop r) = {}"

lemma ceil_div_mono: "m \<le> n \<Longrightarrow> ceil_div m b \<le> ceil_div n b"
  unfolding ceil_div_def by (intro div_le_mono) simp

lemma schedule_single:
  assumes "sc_waiting sc = []" "sc_running sc = [r]" "rq_state r \<noteq> Finished"
    and "schedule_one sc \<lparr>bs_bm = bm, bs_prefill = 0, bs_decode = 0\<rparr> r = (st, r', entry)"
  shows "schedule pick sc bm [] = (sc\<lparr>sc_waiting := [], sc_running := [r']\<rparr>, bs_bm st, case entry of None \<Rightarrow> [] | Some e \<Rightarrow> [e])"
  using assms by (simp add: schedule_def is_finished_def admit.simps split: option.split)

text \<open>One scheduling step: a chunk or a decode step for the request, with blocks for it.\<close>

lemma single_schedule:
  assumes s: "single rid bs nb en r" and f: "fits bs nb r"
  shows "\<exists>r' bm' e. schedule pick (en_sched en) (en_bm en) [] =
       ((en_sched en)\<lparr>sc_waiting := [], sc_running := [r']\<rparr>, bm', [e])
     \<and> room rid bs nb bm' \<and> bm_block_tables bm' rid \<noteq> None \<and> sq_id e = rid \<and> sq_state e = rq_state r'
     \<and> rq_id r' = rid \<and> rq_prompt r' = rq_prompt r \<and> rq_output r' = rq_output r \<and> rq_max_tokens r' = rq_max_tokens r \<and> rq_stop r' = rq_stop r
     \<and> tokens_remaining r' \<le> tokens_remaining r
     \<and> (rq_state r' = Decode \<or> rq_state r' = Prefill \<and> rq_prefill_pos r' < length (rq_prompt r') \<and> tokens_remaining r' < tokens_remaining r)"
proof -
  let ?sc = "en_sched en" and ?st = "\<lparr>bs_bm = en_bm en, bs_prefill = 0, bs_decode = 0\<rparr>"
  have room: "room rid bs nb (en_bm en)" and id: "rq_id r = rid" and pos: "0 < sc_max_tokens_per_step ?sc" "0 < sc_chunk_size ?sc"
    using s by (auto simp: single_def)
  have run: "sc_waiting ?sc = []" "sc_running ?sc = [r]" "rq_state r \<noteq> Finished" using s by (auto simp: single_def)
  consider "rq_state r = Prefill" "rq_prefill_pos r < length (rq_prompt r)" | "rq_state r = Decode" "bm_block_tables (en_bm en) rid \<noteq> None"
    using s by (auto simp: single_def)
  then show ?thesis
  proof cases
    case 1
    have "ceil_div (length (rq_prompt r)) bs \<le> nb"
      using f ceil_div_mono[of "length (rq_prompt r)" "length (rq_prompt r) + max 1 (rq_max_tokens r) + 1" bs] by (simp add: fits_def)
    then obtain bm' t where bm': "prefill_blocks rid (length (rq_prompt r)) (en_bm en) = Some bm'" "room rid bs nb bm'" "bm_block_tables bm' rid = Some t"
      using room_prefill[OF room] 1(2) by (metis gr_zeroI not_less_zero)
    define n where "n = chunk_tokens ?sc ?st r"
    have n: "0 < n" "n \<le> tokens_remaining r" using pos 1(2) by (auto simp: n_def chunk_tokens_def prefill_budget_def tokens_remaining_def)
    have one: "schedule_one ?sc ?st r = (?st\<lparr>bs_bm := bm', bs_prefill := n\<rparr>, after_chunk r n, Some (prefill_entry r n t))"
      using 1 pos(1) bm' id by (simp add: schedule_one_def schedule_prefill_def Let_def n_def tokens_remaining_def prefill_budget_def bm_get_blocks_def)
    show ?thesis
      using schedule_single[OF run one] bm' id n 1
      by (intro exI[of _ "after_chunk r n"] exI[of _ bm'] exI[of _ "prefill_entry r n t"])
         (auto simp: prefill_entry_def after_chunk_def tokens_remaining_def)
  next
    case 2
    let ?n = "length (rq_prompt r) + length (rq_output r) + 1"
    have "ceil_div ?n bs \<le> nb"
      using f ceil_div_mono[of ?n "length (rq_prompt r) + max 1 (rq_max_tokens r) + 1" bs] by (auto simp: fits_def)
    then obtain bm' where bm': "bm_ensure_blocks rid ?n (en_bm en) = Inr bm'" "room rid bs nb bm'" "bm_block_tables bm' rid \<noteq> None"
      using room_ensure[OF room] 2(2) by blast
    define bm2 where "bm2 = (if sc_use_kv_cache ?sc then bm' else en_bm en)"
    have "bm_block_tables bm2 rid \<noteq> None" "room rid bs nb bm2" using bm' 2(2) room by (auto simp: bm2_def)
    then obtain t where t: "bm_block_tables bm2 rid = Some t" "room rid bs nb bm2" by blast
    have one: "schedule_one ?sc ?st r = (?st\<lparr>bs_decode := 1, bs_bm := bm2\<rparr>, r, Some (decode_entry (sc_use_kv_cache ?sc) r t))"
      using 2 pos(1) bm'(1) id t(1) by (auto simp: schedule_one_def schedule_decode_def Let_def bm2_def bm_get_blocks_def)
    show ?thesis
      using schedule_single[OF run one] t id 2
      by (intro exI[of _ r] exI[of _ bm2] exI[of _ "decode_entry (sc_use_kv_cache ?sc) r t"]) (auto simp: decode_entry_def)
  qed
qed


section \<open>One step of the engine\<close>

definition executor_total :: "('x, 'l) executor \<Rightarrow> bool" where
  "executor_total X \<longleftrightarrow> (\<forall>x ids pos d. \<exists>l x'. ex_forward_kv X x ids pos d = Inr (l, x'))
     \<and> (\<forall>x ids pos. \<exists>l x'. ex_forward X x ids pos = Inr (l, x')) \<and> (\<forall>l. ex_rows X l \<noteq> Some 0)
     \<and> (\<forall>x l i sp. \<exists>t x'. ex_sample X x l i sp = Inr (t, x') \<and> is_u32 t)"

lemma forward_total:
  assumes "executor_total X"
  shows "\<exists>l x. forward X kv tables reqs d en = Inr (l, en\<lparr>en_exec := x\<rparr>)"
proof (cases kv)
  case True
  obtain l x where "ex_forward_kv X (ex_set_kv X (en_exec en) tables (en_block_size en)) (map sq_input_ids reqs) (map sq_positions reqs) d = Inr (l, x)"
    using assms unfolding executor_total_def by blast
  then show ?thesis using True by (auto simp: forward_def Let_def)
next
  case False
  obtain l x where "ex_forward X (en_exec en) (map sq_input_ids reqs) (map sq_positions reqs) = Inr (l, x)"
    using assms unfolding executor_total_def by blast
  then show ?thesis using False by (auto simp: forward_def Let_def)
qed

text \<open>The effect of sampling a token for the only running request.\<close>

definition sampled :: "string \<Rightarrow> int \<Rightarrow> bool \<Rightarrow> 'x engine \<Rightarrow> 'x engine \<Rightarrow> bool" where
  "sampled rid t finished en en' \<longleftrightarrow> (\<exists>x ds. let en1 = en\<lparr>en_exec := x, en_outputs := ds,
       en_sched := (en_sched en)\<lparr>sc_running := [record_token t (hd (sc_running (en_sched en)))]\<rparr>\<rparr>
     in en' = (if finished then cleanup_request (insert_finished_to_cache en1 rid) rid else en1))"

lemma executor_rows:
  assumes "executor_total X"
  shows "take (case ex_rows X l of None \<Rightarrow> 1 | Some n \<Rightarrow> n) [e] = [e]"
proof (cases "ex_rows X l")
  case (Some n)
  have "ex_rows X l \<noteq> Some 0" using assms unfolding executor_total_def by blast
  then have "0 < n" using Some by (cases n) auto
  then show ?thesis using Some by (simp add: take_Cons')
qed simp

lemma sample_prefill:
  "executor_total X \<Longrightarrow> sq_state e = Prefill \<Longrightarrow> sample_from_logits X l [e] None en = Inr (en, [])"
  using executor_rows[of X l e] by (simp add: sample_from_logits_def Let_def sample_one_def)

lemma sample_single:
  assumes X: "executor_total X" and e: "sq_id e = rid" "sq_state e \<noteq> Prefill"
    and r: "sc_running (en_sched en) = [r]" "rq_id r = rid"
  shows "\<exists>t en' finished. sample_from_logits X l [e] None en = Inr (en', [\<lparr>ge_id = rid, ge_new_tokens = [t], ge_finished = finished\<rparr>])
     \<and> sampled rid t finished en en' \<and> finished = (length (rq_output r) + 1 \<ge> rq_max_tokens r \<or> t \<in> set (rq_stop r))"
proof -
  obtain t x where t: "ex_sample X (en_exec en) l 0 (dict_get (en_sampling en) rid default_sampling) = Inr (t, x)" "is_u32 t"
    using X unfolding executor_total_def by blast
  have rows: "take (case ex_rows X l of None \<Rightarrow> 1 | Some n \<Rightarrow> n) [e] = [e]" using executor_rows[OF X] .
  define finished where "finished = (length (rq_output r) + 1 \<ge> rq_max_tokens r \<or> t \<in> set (rq_stop r))"
  define ds where "ds = AList.update rid (dict_get (en_outputs en) rid [] @ [t]) (en_outputs en)"
  define en1 where "en1 = en\<lparr>en_exec := x, en_outputs := ds, en_sched := (en_sched en)\<lparr>sc_running := [record_token t r]\<rparr>\<rparr>"
  have "sample_one X l (en, []) (0, e) =
      Inr (if finished then cleanup_request (insert_finished_to_cache en1 rid) rid else en1,
           [\<lparr>ge_id = rid, ge_new_tokens = [t], ge_finished = finished\<rparr>])"
    using e r t by (simp add: sample_one_def Let_def record_output_def en1_def ds_def finished_def)
  then have "sample_from_logits X l [e] None en = Inr (if finished then cleanup_request (insert_finished_to_cache en1 rid) rid else en1,
           [\<lparr>ge_id = rid, ge_new_tokens = [t], ge_finished = finished\<rparr>])"
    unfolding sample_from_logits_def Let_def option.case rows by simp
  moreover have "sampled rid t finished en (if finished then cleanup_request (insert_finished_to_cache en1 rid) rid else en1)"
    unfolding sampled_def Let_def r list.sel en1_def by blast
  ultimately show ?thesis using finished_def by blast
qed

text \<open>A step that schedules one entry runs the executor for it and samples.\<close>

lemma engine_step_entry:
  assumes X: "executor_total X" and radix: "en_radix en = None"
    and sched: "schedule pick (en_sched en) (en_bm en) [] = (sc, bm, [e])"
  shows "\<exists>l x kv. engine_step pick X en = sample_from_logits X l [e] None
     (en\<lparr>en_step_id := en_step_id en + 1, en_sched := sc, en_bm := bm, en_kv_cache := kv, en_exec := x\<rparr>)"
proof -
  define en1 where "en1 = en\<lparr>en_step_id := en_step_id en + 1\<rparr>"
  have ev: "fst (evict_cache_if_needed en1) = en1" "build_cache_hits en1 = []"
    using radix by (simp_all add: evict_cache_if_needed_def build_cache_hits_def en1_def)
  define en3 where "en3 = ensure_kv_cache X (en1\<lparr>en_sched := sc, en_bm := bm\<rparr>)"
  obtain kv where en3: "en3 = en1\<lparr>en_sched := sc, en_bm := bm, en_kv_cache := kv\<rparr>"
    by (rule that[of "en_kv_cache en3"]) (simp add: en3_def ensure_kv_cache_def)
  obtain l x where fwd: "forward X (en_kv_cache en3 \<and> batch_tables [e] \<noteq> []) (batch_tables [e]) [e] (sq_n_tokens (hd [e]) = 1) en3
      = Inr (l, en3\<lparr>en_exec := x\<rparr>)" using forward_total[OF X] by blast
  have "engine_step pick X en = sample_from_logits X l [e] None (en3\<lparr>en_exec := x\<rparr>)"
  proof -
    have sched1: "schedule pick (en_sched en1) (en_bm en1) [] = (sc, bm, [e])" using sched by (simp add: en1_def)
    have "engine_step pick X en = (if can_batch_forward X [e] then step_batch X [e] (en_kv_cache en3 \<and> batch_tables [e] \<noteq> []) en3
        else step_per_request X [e] (en_kv_cache en3 \<and> batch_tables [e] \<noteq> []) en3)"
      unfolding engine_step_def Let_def en1_def[symmetric] ev sched1 prod.case en3_def[symmetric] by simp
    then have "engine_step pick X en = step_batch X [e] (en_kv_cache en3 \<and> batch_tables [e] \<noteq> []) en3"
      by (simp add: can_batch_forward_def)
    then show ?thesis using fwd by (simp add: step_batch_def)
  qed
  then show ?thesis unfolding en3 en1_def by blast
qed


text \<open>
  A step of an engine with one request either processes a chunk of its prompt or yields one token,
  which finishes the request or leaves it decoding.
\<close>

lemma single_decode:
  assumes "sampled rid t False en en'" "sc_running (en_sched en) = [r]" "rq_id r = rid" "rq_state r = Decode"
    and "length (rq_output r) + 1 < rq_max_tokens r" "t \<notin> set (rq_stop r)"
    and "en_radix en = None" "0 < sc_max_tokens_per_step (en_sched en)" "0 < sc_chunk_size (en_sched en)"
    and "sc_waiting (en_sched en) = []" "room rid bs nb (en_bm en)" "bm_block_tables (en_bm en) rid \<noteq> None"
  shows "single rid bs nb en' (record_token t r)"
  using assms by (auto simp: sampled_def single_def record_token_def Let_def)

lemma engine_step_single:
  assumes X: "executor_total X" and s: "single rid bs nb en r" and f: "fits bs nb r"
  shows "(\<exists>en' r'. engine_step pick X en = Inr (en', []) \<and> single rid bs nb en' r' \<and> fits bs nb r' \<and> rq_output r' = rq_output r
       \<and> rq_max_tokens r' = rq_max_tokens r \<and> rq_stop r' = rq_stop r \<and> tokens_remaining r' < tokens_remaining r)
     \<or> (\<exists>en' r' t. engine_step pick X en = Inr (en', [\<lparr>ge_id = rid, ge_new_tokens = [t], ge_finished = False\<rparr>])
       \<and> single rid bs nb en' r' \<and> fits bs nb r' \<and> rq_output r' = rq_output r @ [t]
       \<and> rq_max_tokens r' = rq_max_tokens r \<and> rq_stop r' = rq_stop r \<and> tokens_remaining r' \<le> tokens_remaining r)
     \<or> (\<exists>en' t. engine_step pick X en = Inr (en', [\<lparr>ge_id = rid, ge_new_tokens = [t], ge_finished = True\<rparr>])
       \<and> (length (rq_output r) + 1 = max 1 (rq_max_tokens r) \<or> t \<in> set (rq_stop r)))"
proof -
  obtain r' bm' e where sched: "schedule pick (en_sched en) (en_bm en) [] =
       ((en_sched en)\<lparr>sc_waiting := [], sc_running := [r']\<rparr>, bm', [e])"
    and bm': "room rid bs nb bm'" "bm_block_tables bm' rid \<noteq> None" and e: "sq_id e = rid" "sq_state e = rq_state r'"
    and r': "rq_id r' = rid" "rq_prompt r' = rq_prompt r" "rq_output r' = rq_output r" "rq_max_tokens r' = rq_max_tokens r"
      "rq_stop r' = rq_stop r" "tokens_remaining r' \<le> tokens_remaining r"
    and st: "rq_state r' = Decode \<or> rq_state r' = Prefill \<and> rq_prefill_pos r' < length (rq_prompt r') \<and> tokens_remaining r' < tokens_remaining r"
    using single_schedule[OF s f, of pick] by blast
  have base: "en_radix en = None" "0 < sc_max_tokens_per_step (en_sched en)" "0 < sc_chunk_size (en_sched en)"
    using s by (simp_all add: single_def)
  have f': "fits bs nb r'" using f r' by (simp add: fits_def)
  obtain l x kv where step: "engine_step pick X en = sample_from_logits X l [e] None
     (en\<lparr>en_step_id := en_step_id en + 1, en_sched := (en_sched en)\<lparr>sc_waiting := [], sc_running := [r']\<rparr>, en_bm := bm',
         en_kv_cache := kv, en_exec := x\<rparr>)" (is "_ = sample_from_logits X l [e] None ?en1")
    using engine_step_entry[OF X base(1) sched] by blast
  show ?thesis
  proof (cases "rq_state r' = Prefill")
    case True
    then have "engine_step pick X en = Inr (?en1, [])" unfolding step by (intro sample_prefill[OF X]) (simp add: e(2))
    moreover have "single rid bs nb ?en1 r'" using base bm' r' st True by (simp add: single_def)
    ultimately show ?thesis using f' r' st True by (intro disjI1) auto
  next
    case False
    then have dec: "rq_state r' = Decode" using st by blast
    have run1: "sc_running (en_sched ?en1) = [r']" by simp
    have ne: "sq_state e \<noteq> Prefill" using False e(2) by simp
    obtain t en' fin where sam: "sample_from_logits X l [e] None ?en1 = Inr (en', [\<lparr>ge_id = rid, ge_new_tokens = [t], ge_finished = fin\<rparr>])"
      "sampled rid t fin ?en1 en'" "fin = (length (rq_output r') + 1 \<ge> rq_max_tokens r' \<or> t \<in> set (rq_stop r'))"
      using sample_single[OF X e(1) ne run1 r'(1), of l] by blast
    show ?thesis
    proof (cases fin)
      case True
      have "length (rq_output r) + 1 = max 1 (rq_max_tokens r) \<or> t \<in> set (rq_stop r)"
        using f r' True unfolding sam(3) fits_def by auto
      then show ?thesis using step sam(1) True by (intro disjI2) auto
    next
      case False
      then have more: "length (rq_output r') + 1 < rq_max_tokens r'" "t \<notin> set (rq_stop r')" using sam(3) by auto
      have "single rid bs nb en' (record_token t r')"
        using single_decode[OF _ run1 r'(1) dec more] sam(2) base bm' False by simp
      moreover have "fits bs nb (record_token t r')"
        using f' more by (auto simp: fits_def record_token_def Let_def)
      moreover have "rq_output (record_token t r') = rq_output r @ [t]" "rq_max_tokens (record_token t r') = rq_max_tokens r"
          "rq_stop (record_token t r') = rq_stop r" "tokens_remaining (record_token t r') \<le> tokens_remaining r"
        using r' by (simp_all add: record_token_def Let_def tokens_remaining_def)
      ultimately show ?thesis using step sam(1) False by (intro disjI2 disjI1) auto
    qed
  qed
qed


section \<open>The generation loop returns\<close>

lemma single_not_idle: "single rid bs nb en r \<Longrightarrow> \<not> is_idle en"
  by (simp add: single_def is_idle_def has_work_def)

text \<open>The tokens of a finished generation.\<close>

definition generated :: "nat \<Rightarrow> int list \<Rightarrow> int list \<Rightarrow> bool" where
  "generated max_tokens stop out \<longleftrightarrow> out \<noteq> [] \<and> length out \<le> max 1 max_tokens \<and> set (butlast out) \<inter> set stop = {}
     \<and> (length out = max 1 max_tokens \<or> last out \<in> set stop)"

lemma generate_single:
  assumes X: "executor_total X"
  shows "single rid bs nb en r \<Longrightarrow> fits bs nb r \<Longrightarrow> tokens_remaining r + (max 1 (rq_max_tokens r) - length (rq_output r)) \<le> n \<Longrightarrow>
    \<exists>out en'. generate_loop n pick X rid (rq_output r) en = Some (Inr (out, en')) \<and> generated (rq_max_tokens r) (rq_stop r) out"
proof (induction n arbitrary: en r)
  case 0
  then show ?case by (simp add: fits_def)
next
  case (Suc n)
  note s = Suc.prems(1) and f = Suc.prems(2)
  consider (chunk) en' r' where "engine_step pick X en = Inr (en', [])" "single rid bs nb en' r'" "fits bs nb r'"
      "rq_output r' = rq_output r" "rq_max_tokens r' = rq_max_tokens r" "rq_stop r' = rq_stop r" "tokens_remaining r' < tokens_remaining r"
    | (token) en' r' t where "engine_step pick X en = Inr (en', [\<lparr>ge_id = rid, ge_new_tokens = [t], ge_finished = False\<rparr>])"
      "single rid bs nb en' r'" "fits bs nb r'" "rq_output r' = rq_output r @ [t]"
      "rq_max_tokens r' = rq_max_tokens r" "rq_stop r' = rq_stop r" "tokens_remaining r' \<le> tokens_remaining r"
    | (last) en' t where "engine_step pick X en = Inr (en', [\<lparr>ge_id = rid, ge_new_tokens = [t], ge_finished = True\<rparr>])"
      "length (rq_output r) + 1 = max 1 (rq_max_tokens r) \<or> t \<in> set (rq_stop r)"
    using engine_step_single[OF X s f, of pick] by blast
  then show ?case
  proof cases
    case chunk
    have "tokens_remaining r' + (max 1 (rq_max_tokens r') - length (rq_output r')) \<le> n" using chunk(4,5,7) Suc.prems(3) by simp
    then show ?thesis using Suc.IH[OF chunk(2,3)] chunk(1,4-6) single_not_idle[OF chunk(2)] by simp
  next
    case token
    have "length (rq_output r) < max 1 (rq_max_tokens r)" using f by (simp add: fits_def)
    then have "tokens_remaining r' + (max 1 (rq_max_tokens r') - length (rq_output r')) \<le> n" using token(4,5,7) Suc.prems(3) by simp
    then show ?thesis using Suc.IH[OF token(2,3)] token(1,4-6) single_not_idle[OF token(2)] by simp
  next
    case last
    then show ?thesis using f by (auto simp: generated_def fits_def)
  qed
qed

text \<open>A new request is admitted by the first step.\<close>

lemma schedule_one_queues: "schedule_one (sc\<lparr>sc_waiting := ws, sc_running := rs\<rparr>) st r = schedule_one sc st r"
proof (cases sc)
  case (fields mb mt cs kv ws0 rs0)
  show ?thesis
    unfolding fields schedule_one_def schedule_prefill_def schedule_decode_def Let_def chunk_tokens_def prefill_budget_def scheduler.simps
    by (rule refl)
qed

lemma schedule_first:
  assumes "sc_waiting sc = [q]" "sc_running sc = []" "0 < sc_max_batch_size sc" "rq_state q = Waiting"
  shows "schedule pick sc bm [] = schedule pick (sc\<lparr>sc_waiting := [], sc_running := [q\<lparr>rq_state := Prefill\<rparr>]\<rparr>) bm []"
proof -
  have one: "admit_one [] bm q = (bm, q\<lparr>rq_state := Prefill\<rparr>)" by (simp add: admit_one_def)
  have "heap_pop pick [q] = (q, [])" by (simp add: heap_pop_def)
  then have "admit pick (sc_max_batch_size sc) [] [q] [] bm = ([], [q\<lparr>rq_state := Prefill\<rparr>], bm)"
    using assms(3) one by (subst admit.simps, simp, subst admit.simps, simp)
  moreover have "admit pick (sc_max_batch_size sc) [] [] [q\<lparr>rq_state := Prefill\<rparr>] bm = ([], [q\<lparr>rq_state := Prefill\<rparr>], bm)"
    by (subst admit.simps) simp
  moreover have "build_batch (sc\<lparr>sc_waiting := [], sc_running := [q\<lparr>rq_state := Prefill\<rparr>]\<rparr>) st rs = build_batch sc st rs" for st rs
    by (induction rs arbitrary: st) (simp_all add: schedule_one_queues split: prod.split)
  ultimately show ?thesis using assms by (simp add: schedule_def is_finished_def)
qed

lemma engine_step_first:
  assumes "en_radix en = None" "sc_waiting (en_sched en) = [q]" "sc_running (en_sched en) = []" "0 < sc_max_batch_size (en_sched en)"
    and "rq_state q = Waiting"
  shows "engine_step pick X en = engine_step pick X
     (en\<lparr>en_sched := (en_sched en)\<lparr>sc_waiting := [], sc_running := [q\<lparr>rq_state := Prefill\<rparr>]\<rparr>\<rparr>)"
proof -
  let ?sc = "(en_sched en)\<lparr>sc_waiting := [], sc_running := [q\<lparr>rq_state := Prefill\<rparr>]\<rparr>"
  obtain sc bm batch where run: "schedule pick ?sc (en_bm en) [] = (sc, bm, batch)" by (cases "schedule pick ?sc (en_bm en) []")
  then have "schedule pick (en_sched en) (en_bm en) [] = (sc, bm, batch)" using schedule_first[OF assms(2-5)] by simp
  then show ?thesis using assms(1) run by (simp add: engine_step_def evict_cache_if_needed_def build_cache_hits_def Let_def)
qed

lemma generate_first:
  assumes "en_radix en = None" "sc_waiting (en_sched en) = [q]" "sc_running (en_sched en) = []" "0 < sc_max_batch_size (en_sched en)"
    and "rq_state q = Waiting"
  shows "generate_loop n pick X rid acc en = generate_loop n pick X rid acc
     (en\<lparr>en_sched := (en_sched en)\<lparr>sc_waiting := [], sc_running := [q\<lparr>rq_state := Prefill\<rparr>]\<rparr>\<rparr>)"
  using engine_step_first[OF assms, of pick X] by (cases n) simp_all

lemma new_engine:
  assumes "engine_new nb bs mb mt cs False kv x = Inr en0" "add_request en0 rid prompt max_tokens temp p k stop = (en, None)"
  shows "en_radix en = None" "sc_waiting (en_sched en) = [new_request rid prompt 0 max_tokens stop]" "sc_running (en_sched en) = []"
    "0 < sc_max_batch_size (en_sched en)" "0 < sc_chunk_size (en_sched en)" "sc_max_tokens_per_step (en_sched en) = mt"
    "bm_new nb bs = Inr (en_bm en)" "sc_use_kv_cache (en_sched en) = kv"
  using assms
  by (auto simp: engine_new_def sched_new_def res_bind_eq_Inr add_request_def bridge_add_request_def loop_add_request_def sched_add_def
      split: if_splits sum.splits)

text \<open>C2: On a new engine without prefix cache, generation returns within one step per prompt token and per output token: a prompt that fits the pool together with its output is prefilled in chunks and decoded until the last allowed token or a stop token, and the tokens returned are at most max_tokens (one when that is zero), a stop token only as the last one.\<close>

theorem generate_returns:
  assumes new: "engine_new nb bs mb mt cs False kv x = Inr en0"
    and add: "add_request en0 rid prompt max_tokens temp p k stop = (en, None)"
    and X: "executor_total X" and pos: "0 < mt" "prompt \<noteq> []"
    and room: "ceil_div (length prompt + max 1 max_tokens + 1) bs \<le> nb"
  shows "\<exists>out en'. generate_loop (length prompt + max 1 max_tokens) pick X rid [] en = Some (Inr (out, en'))
    \<and> generated max_tokens stop out"
proof -
  note en = new_engine[OF new add]
  define q where "q = (new_request rid prompt 0 max_tokens stop)\<lparr>rq_state := Prefill\<rparr>"
  let ?en1 = "en\<lparr>en_sched := (en_sched en)\<lparr>sc_waiting := [], sc_running := [q]\<rparr>\<rparr>"
  have q: "rq_output q = []" "rq_max_tokens q = max_tokens" "rq_stop q = stop" "rq_id q = rid" "rq_prompt q = prompt" "rq_state q = Prefill"
    "rq_prefill_pos q = 0" by (simp_all add: q_def new_request_def)
  have s: "single rid bs nb ?en1 q" using en pos room_new[OF en(7), of rid] by (simp add: single_def q)
  have f: "fits bs nb q" using room by (simp add: fits_def q)
  have "\<exists>out en'. generate_loop (length prompt + max 1 max_tokens) pick X rid (rq_output q) ?en1 = Some (Inr (out, en')) \<and> generated max_tokens stop out"
    using generate_single[OF X s f, of "length prompt + max 1 max_tokens" pick] unfolding q tokens_remaining_def by simp
  moreover have "generate_loop n pick X rid [] en = generate_loop n pick X rid [] ?en1" for n
    unfolding q_def by (rule generate_first[OF en(1-4)]) (simp add: new_request_def)
  ultimately show ?thesis by (simp add: q)
qed


section \<open>A prompt that does not fit\<close>

text \<open>An engine whose only request has no blocks and cannot get any.\<close>

definition starved :: "string \<Rightarrow> nat \<Rightarrow> nat \<Rightarrow> 'x engine \<Rightarrow> bool" where
  "starved rid bs nb en \<longleftrightarrow> en_radix en = None \<and> sc_waiting (en_sched en) = []
     \<and> bm_block_tables (en_bm en) rid = None \<and> length (bm_free_blocks (en_bm en)) = nb \<and> bm_block_size (en_bm en) = bs
     \<and> (\<exists>r. sc_running (en_sched en) = [r] \<and> rq_id r = rid \<and> nb < ceil_div (length (rq_prompt r)) bs
          \<and> (rq_state r = Prefill \<or> rq_state r = Decode))"

lemma starved_one:
  assumes "bm_block_tables bm rid = None" "length (bm_free_blocks bm) = nb" "bm_block_size bm = bs"
    and "rq_id r = rid" "nb < ceil_div (length (rq_prompt r)) bs" "rq_state r = Prefill \<or> rq_state r = Decode"
  shows "\<exists>st r'. schedule_one sc \<lparr>bs_bm = bm, bs_prefill = 0, bs_decode = 0\<rparr> r = (st, r', None) \<and> bs_bm st = bm
     \<and> rq_id r' = rid \<and> rq_prompt r' = rq_prompt r \<and> (rq_state r' = Prefill \<or> rq_state r' = Decode)"
proof (cases "rq_state r = Prefill")
  case True
  have "prefill_blocks rid (length (rq_prompt r)) bm = None"
    using assms by (simp add: prefill_blocks_def bm_allocate_def Let_def)
  then show ?thesis using True assms(4) by (simp add: schedule_one_def schedule_prefill_def Let_def)
next
  case False
  let ?n = "length (rq_prompt r) + length (rq_output r) + 1"
  have "nb < ceil_div ?n bs" using assms(5) ceil_div_mono[of "length (rq_prompt r)" ?n bs] by simp
  moreover have "\<exists>e. bm_get_blocks bm rid = Inl e" using assms(1) by (simp add: bm_get_blocks_def)
  ultimately show ?thesis using False assms
    by (auto simp: schedule_one_def schedule_decode_def Let_def bm_ensure_blocks_def split: sum.splits)
qed

lemma starved_step:
  assumes "starved rid bs nb en"
  shows "\<exists>en'. engine_step pick X en = Inr (en', []) \<and> starved rid bs nb en'"
proof -
  obtain r where r: "sc_running (en_sched en) = [r]" "rq_id r = rid" "nb < ceil_div (length (rq_prompt r)) bs"
    "rq_state r = Prefill \<or> rq_state r = Decode" using assms by (auto simp: starved_def)
  have bm: "bm_block_tables (en_bm en) rid = None" "length (bm_free_blocks (en_bm en)) = nb" "bm_block_size (en_bm en) = bs"
    and rest: "en_radix en = None" "sc_waiting (en_sched en) = []" using assms by (simp_all add: starved_def)
  obtain st r' where one: "schedule_one (en_sched en) \<lparr>bs_bm = en_bm en, bs_prefill = 0, bs_decode = 0\<rparr> r = (st, r', None)" "bs_bm st = en_bm en"
    "rq_id r' = rid" "rq_prompt r' = rq_prompt r" "rq_state r' = Prefill \<or> rq_state r' = Decode"
    using starved_one[OF bm r(2-4)] by blast
  have live: "rq_state r \<noteq> Finished" using r(4) by auto
  have "schedule pick (en_sched en) (en_bm en) [] = ((en_sched en)\<lparr>sc_waiting := [], sc_running := [r']\<rparr>, en_bm en, [])"
    using schedule_single[OF rest(2) r(1) live one(1)] one(2) by simp
  then have "engine_step pick X en = Inr (en\<lparr>en_step_id := en_step_id en + 1,
      en_sched := (en_sched en)\<lparr>sc_waiting := [], sc_running := [r']\<rparr>, en_bm := en_bm en\<rparr>, [])"
    using rest(1) by (simp add: engine_step_def evict_cache_if_needed_def build_cache_hits_def Let_def)
  then show ?thesis using bm rest(1) one(3-5) r(3) by (simp add: starved_def)
qed

lemma starved_forever: "starved rid bs nb en \<Longrightarrow> generate_loop n pick X rid acc en = None"
proof (induction n arbitrary: en)
  case (Suc n)
  obtain en' where step: "engine_step pick X en = Inr (en', [])" "starved rid bs nb en'" using starved_step[OF Suc.prems] by blast
  have "\<not> is_idle en'" using step(2) by (auto simp: starved_def is_idle_def has_work_def)
  then show ?case using step Suc.IH[OF step(2)] by simp
qed simp

text \<open>C40: A prompt that needs more blocks than the engine has is accepted, and generation then never returns: each step schedules nothing, the engine is never idle, and no error is raised, for any executor and after any number of steps.\<close>

theorem generate_never_returns:
  assumes new: "engine_new nb bs mb mt cs False kv x = Inr en0"
    and add: "add_request en0 rid prompt max_tokens temp p k stop = (en, None)"
    and big: "nb < ceil_div (length prompt) bs"
  shows "generate_loop n pick X rid [] en = None"
proof -
  note en = new_engine[OF new add]
  have bm: "bm_block_tables (en_bm en) rid = None" "length (bm_free_blocks (en_bm en)) = nb" "bm_block_size (en_bm en) = bs"
    using en(7)[symmetric] by (auto simp: bm_new_def split: if_splits dest: sym)
  have "generate_loop n pick X rid [] en = generate_loop n pick X rid []
     (en\<lparr>en_sched := (en_sched en)\<lparr>sc_waiting := [], sc_running := [(new_request rid prompt 0 max_tokens stop)\<lparr>rq_state := Prefill\<rparr>]\<rparr>\<rparr>)"
    by (rule generate_first[OF en(1-4)]) (simp add: new_request_def)
  also have "\<dots> = None" using bm en(1) big by (intro starved_forever) (simp add: starved_def new_request_def)
  finally show ?thesis .
qed


section \<open>Concrete engines\<close>

definition demo_executor :: "(unit, unit) executor" where
  "demo_executor = \<lparr>ex_uses_cache_manager = True, ex_set_kv = (\<lambda>x _ _. x), ex_forward_kv = (\<lambda>x _ _ _. Inr ((), x)),
     ex_forward = (\<lambda>x _ _. Inr ((), x)), ex_rows = (\<lambda>_. None), ex_sample = (\<lambda>x _ _ _. Inr (7, x))\<rparr>"

definition demo_engine :: "nat \<Rightarrow> nat \<Rightarrow> unit engine res" where
  "demo_engine nb bs = engine_new nb bs 4 16 2 False True ()"

lemma demo_engine_ok:
  assumes "0 < nb" "0 < bs" "list_all is_u32 prompt"
  shows "\<exists>en0 en. demo_engine nb bs = Inr en0 \<and> add_request en0 ''a'' prompt 2 1 1 0 [] = (en, None)"
  using assms by (simp add: demo_engine_def engine_new_def bm_new_def sched_new_def add_request_def bridge_add_request_def sampling_new_def)

lemma demo_executor_total: "executor_total demo_executor"
  by (simp add: executor_total_def demo_executor_def is_u32_def)

theorem generate_returns_witness:
  "\<exists>en0 en out en'. demo_engine 4 2 = Inr en0 \<and> add_request en0 ''a'' [5, 6, 7] 2 1 1 0 [] = (en, None)
     \<and> generate_loop 5 (\<lambda>_. 0) demo_executor ''a'' [] en = Some (Inr (out, en')) \<and> generated 2 [] out"
proof -
  obtain en0 en where d: "demo_engine 4 2 = Inr en0" "add_request en0 ''a'' [5, 6, 7] 2 1 1 0 [] = (en, None)"
    using demo_engine_ok[of 4 2 "[5, 6, 7]"] by (auto simp: is_u32_def)
  have "ceil_div (length [5, 6, 7::int] + max 1 2 + 1) 2 \<le> 4" by (simp add: ceil_div_def)
  then obtain out en' where "generate_loop (length [5, 6, 7::int] + max 1 2) (\<lambda>_. 0) demo_executor ''a'' [] en = Some (Inr (out, en'))"
      "generated 2 [] out"
    using generate_returns[OF d(1)[unfolded demo_engine_def] d(2) demo_executor_total, of "\<lambda>_. 0"] by auto
  moreover have "length [5, 6, 7::int] + max 1 2 = 5" by simp
  ultimately show ?thesis using d by (metis (no_types, lifting))
qed

theorem generate_never_returns_witness:
  "\<exists>en0 en. demo_engine 1 2 = Inr en0 \<and> add_request en0 ''a'' [5, 6, 7] 2 1 1 0 [] = (en, None)
     \<and> (\<forall>n. generate_loop n (\<lambda>_. 0) demo_executor ''a'' [] en = None)"
proof -
  obtain en0 en where d: "demo_engine 1 2 = Inr en0" "add_request en0 ''a'' [5, 6, 7] 2 1 1 0 [] = (en, None)"
    using demo_engine_ok[of 1 2 "[5, 6, 7]"] by (auto simp: is_u32_def)
  show ?thesis using generate_never_returns[OF d(1)[unfolded demo_engine_def] d(2)] d by (auto simp: ceil_div_def)
qed

text \<open>
  An engine with prefix cache that has served one request, with a second request for the same
  prompt queued.
\<close>

definition demo_steps :: "unit engine \<Rightarrow> unit engine" where
  "demo_steps en = (case engine_step (\<lambda>_. 0) demo_executor en of Inl _ \<Rightarrow> en | Inr (en', _) \<Rightarrow> en')"

lemma demo_steps_reach: "engine_reach demo_executor en \<Longrightarrow> engine_reach demo_executor (demo_steps en)"
  by (auto simp: demo_steps_def intro: er_step split: sum.split)

definition demo_served :: "unit engine \<Rightarrow> unit engine" where
  "demo_served en = fst (add_request (demo_steps (demo_steps (demo_steps (fst (add_request en ''a'' [5, 6, 7] 2 1 1 0 [])))))
     ''b'' [5, 6, 7] 2 1 1 0 [])"

lemma demo_served_reach: "engine_reach demo_executor en \<Longrightarrow> engine_reach demo_executor (demo_served en)"
  unfolding demo_served_def by (intro er_add demo_steps_reach)

lemma demo_hits: "case engine_new 8 2 4 16 2 True True () of Inl _ \<Rightarrow> False | Inr en \<Rightarrow> build_cache_hits (demo_served en) = [(''b'', [7, 6], 3)]"
  by code_simp

theorem engine_blocks_safe_witness:
  "\<exists>en. engine_reach demo_executor en \<and> build_cache_hits en = [(''b'', [7, 6], 3)] \<and> 0 < bm_ref_count (en_bm en) 7"
proof -
  obtain en0 where d: "engine_new 8 2 4 16 2 True True () = Inr en0" "build_cache_hits (demo_served en0) = [(''b'', [7, 6], 3)]"
    using demo_hits by (auto split: sum.splits)
  have "engine_reach demo_executor (demo_served en0)" using demo_served_reach er_new[OF d(1)] by blast
  then show ?thesis using engine_blocks_safe[of demo_executor "demo_served en0"] d(2) by auto
qed


section \<open>Shared blocks that are written\<close>

text \<open>An executor that draws a new token each time, and the slots a batch writes keys and values to.\<close>

definition counting_executor :: "(nat, unit) executor" where
  "counting_executor = \<lparr>ex_uses_cache_manager = True, ex_set_kv = (\<lambda>x _ _. x), ex_forward_kv = (\<lambda>x _ _ _. Inr ((), x)),
     ex_forward = (\<lambda>x _ _. Inr ((), x)), ex_rows = (\<lambda>_. Some 2), ex_sample = (\<lambda>x _ _ _. Inr (int x, x + 1))\<rparr>"

definition written_slots :: "nat \<Rightarrow> scheduled \<Rightarrow> (nat \<times> nat \<times> int) list" where
  "written_slots bs e = map (\<lambda>(p, t). (sq_block_table e ! (p div bs), p mod bs, t)) (zip (sq_positions e) (sq_input_ids e))"

definition count_step :: "nat engine \<Rightarrow> nat engine" where
  "count_step en = (case engine_step (\<lambda>_. 0) counting_executor en of Inl _ \<Rightarrow> en | Inr (en', _) \<Rightarrow> en')"

definition ask :: "string \<Rightarrow> nat engine \<Rightarrow> nat engine" where
  "ask rid en = fst (add_request en rid [5, 6, 7] 3 1 1 0 [])"

definition next_batch :: "nat engine \<Rightarrow> scheduled list" where
  "next_batch en = (case schedule (\<lambda>_. 0) (en_sched en) (en_bm en) (build_cache_hits en) of (_, _, batch) \<Rightarrow> batch)"

text \<open>
  A hit may end inside a block, which the request then shares and goes on writing: after one request
  has been served, two others with its prompt write different tokens to the same slot of the same
  block in one batch.
\<close>

lemma shared_slot_written_twice:
  "case engine_new 8 2 4 16 4 True True 10 of Inl _ \<Rightarrow> False
   | Inr en \<Rightarrow> (let served = count_step (count_step (count_step (ask ''a'' en)));
                 later = count_step (ask ''c'' (ask ''b'' served))
             in map sq_id (next_batch later) = [''b'', ''c'']
                \<and> map (written_slots 2) (next_batch later) = [[(6, 1, 13)], [(6, 1, 14)]])"
  by code_simp

end
