(* ===== verification/Byte_Codec.thy ===== *)
theory Byte_Codec
  imports Prelude "HOL-Library.Word"
begin

text \<open>
  Bytes as the compiler writes them with \<open>struct.pack\<close> and the runtime reads them: little-endian
  unsigned integers, UTF-8 strings with a length in front, and lists with a count in front.  The
  reader follows the helpers of \<open>runtime/src/model/weight_loader.rs\<close>: it moves a position over
  the data and reports truncation.  A \<open>string\<close> holds characters up to code point 255; UTF-8 is
  written out for these.  The interface \<open>field_codec\<close> says that a field is read back from any
  place of the data it was written to; repetition is proved once for it.
\<close>

type_synonym byte = "8 word"


section \<open>Writing\<close>

fun le_bytes :: "nat \<Rightarrow> nat \<Rightarrow> byte list" where
  "le_bytes 0 n = []"
| "le_bytes (Suc k) n = word_of_nat (n mod 256) # le_bytes k (n div 256)"

definition pack_uint :: "nat \<Rightarrow> nat \<Rightarrow> byte list res" where
  "pack_uint k n = (if n < 256 ^ k then Inr (le_bytes k n) else Inl StructError)"

abbreviation "pack_u8 \<equiv> pack_uint 1"
abbreviation "pack_u32 \<equiv> pack_uint 4"
abbreviation "pack_u64 \<equiv> pack_uint 8"

definition utf8_char :: "char \<Rightarrow> byte list" where
  "utf8_char c = (let n = of_char c :: nat
     in if n < 128 then [word_of_nat n] else [word_of_nat (192 + n div 64), word_of_nat (128 + n mod 64)])"

definition utf8_encode :: "string \<Rightarrow> byte list" where
  "utf8_encode s = concat (map utf8_char s)"

definition pack_string :: "string \<Rightarrow> byte list res" where
  "pack_string s = res_bind (pack_u32 (length (utf8_encode s))) (\<lambda>n. Inr (n @ utf8_encode s))"

definition pack_all :: "('a \<Rightarrow> byte list res) \<Rightarrow> 'a list \<Rightarrow> byte list res" where
  "pack_all wr xs = res_bind (res_mapM wr xs) (\<lambda>bs. Inr (concat bs))"


section \<open>Reading\<close>

datatype load_error = Truncated | BadMagic | BadVersion | BadString | BadDtype | Panic

type_synonym 'a load = "load_error + 'a"

definition load_bind :: "'a load \<Rightarrow> ('a \<Rightarrow> 'b load) \<Rightarrow> 'b load" where
  "load_bind m f = (case m of Inl e \<Rightarrow> Inl e | Inr x \<Rightarrow> f x)"

fun le_nat :: "byte list \<Rightarrow> nat" where
  "le_nat [] = 0"
| "le_nat (b # bs) = unat b + 256 * le_nat bs"

definition read_uint :: "nat \<Rightarrow> byte list \<Rightarrow> nat \<Rightarrow> (nat \<times> nat) load" where
  "read_uint k data pos =
     (if pos + k > length data then Inl Truncated else Inr (le_nat (take k (drop pos data)), pos + k))"

abbreviation "read_u32 \<equiv> read_uint 4"
abbreviation "read_u64 \<equiv> read_uint 8"

text \<open>Sequences of code points above 255 are outside the strings of the model.\<close>

fun utf8_decode :: "byte list \<Rightarrow> string option" where
  "utf8_decode [] = Some []"
| "utf8_decode (b # bs) =
     (if unat b < 128 then map_option ((#) (char_of (unat b))) (utf8_decode bs)
      else case bs of
             [] \<Rightarrow> None
           | c # cs \<Rightarrow> if unat b \<in> {194, 195} \<and> 128 \<le> unat c \<and> unat c < 192
                        then map_option ((#) (char_of ((unat b - 192) * 64 + (unat c - 128)))) (utf8_decode cs) else None)"

definition read_string :: "byte list \<Rightarrow> nat \<Rightarrow> (string \<times> nat) load" where
  "read_string data pos = load_bind (read_u32 data pos) (\<lambda>(len, pos).
     if pos + len > length data then Inl Truncated
     else case utf8_decode (take len (drop pos data)) of None \<Rightarrow> Inl BadString | Some s \<Rightarrow> Inr (s, pos + len))"

fun read_many :: "(byte list \<Rightarrow> nat \<Rightarrow> ('a \<times> nat) load) \<Rightarrow> ('s \<Rightarrow> 'a \<Rightarrow> 's) \<Rightarrow> nat \<Rightarrow> 's \<Rightarrow> byte list \<Rightarrow> nat \<Rightarrow> ('s \<times> nat) load" where
  "read_many rd ins 0 acc data pos = Inr (acc, pos)"
| "read_many rd ins (Suc n) acc data pos = load_bind (rd data pos) (\<lambda>(x, pos). read_many rd ins n (ins acc x) data pos)"


section \<open>Numbers and characters are read back\<close>

lemma load_bind_simps [simp]: "load_bind (Inl e) f = Inl e" "load_bind (Inr x) f = f x"
  by (simp_all add: load_bind_def)

lemma load_bind_eq_Inr: "load_bind m f = Inr y \<longleftrightarrow> (\<exists>x. m = Inr x \<and> f x = Inr y)"
  by (cases m) auto

lemma length_le_bytes [simp]: "length (le_bytes k n) = k"
  by (induction k arbitrary: n) auto

lemma le_nat_le_bytes: "n < 256 ^ k \<Longrightarrow> le_nat (le_bytes k n) = n"
proof (induction k arbitrary: n)
  case (Suc k)
  have "n div 256 < 256 ^ k" using Suc.prems by (simp add: less_mult_imp_div_less mult.commute)
  moreover have "unat (word_of_nat (n mod 256) :: byte) = n mod 256" by (simp add: unat_of_nat)
  ultimately show ?case using Suc.IH by simp
qed simp

lemma utf8_char_decode: "utf8_decode (utf8_char c @ bs) = map_option ((#) c) (utf8_decode bs)"
proof -
  let ?n = "of_char c :: nat"
  have n: "?n < 256" by simp
  show ?thesis
  proof (cases "?n < 128")
    case True
    then have "unat (word_of_nat ?n :: byte) = ?n" by (simp add: unat_of_nat)
    then show ?thesis using True by (simp add: utf8_char_def Let_def)
  next
    case False
    define q r where "q = ?n div 64" and "r = ?n mod 64"
    have q: "q = 2 \<or> q = 3" using n False unfolding q_def by linarith
    have r: "r < 64" unfolding r_def by simp
    have sum: "q * 64 + r = ?n" unfolding q_def r_def by simp
    have "unat (word_of_nat (192 + q) :: byte) = 192 + q" using q by (auto simp: unat_of_nat)
    moreover have "unat (word_of_nat (128 + r) :: byte) = 128 + r" using r by (simp only: unat_of_nat) simp
    moreover have "utf8_char c = [word_of_nat (192 + q), word_of_nat (128 + r)]"
      using False by (simp add: utf8_char_def Let_def q_def r_def)
    moreover have "char_of (q * 64 + r) = c" unfolding sum by simp
    ultimately show ?thesis using q r by auto
  qed
qed

lemma utf8_roundtrip: "utf8_decode (utf8_encode s) = Some s"
  by (induction s) (simp_all add: utf8_encode_def utf8_char_decode)


section \<open>Fields\<close>

locale field_codec =
  fixes wr :: "'a \<Rightarrow> byte list res"
    and rd :: "byte list \<Rightarrow> nat \<Rightarrow> ('b \<times> nat) load"
    and view :: "'a \<Rightarrow> 'b"
  assumes read_written: "wr x = Inr bs \<Longrightarrow> length (pre @ bs @ rest) < 2 ^ 64 \<Longrightarrow> rd (pre @ bs @ rest) (length pre) = Inr (view x, length pre + length bs)"
begin

lemma read_all:
  "pack_all wr xs = Inr bs \<Longrightarrow> length (pre @ bs @ rest) < 2 ^ 64 \<Longrightarrow>
     read_many rd ins (length xs) acc (pre @ bs @ rest) (length pre) = Inr (foldl ins acc (map view xs), length pre + length bs)"
proof (induction xs arbitrary: pre bs acc)
  case Nil
  then show ?case by (simp add: pack_all_def)
next
  case (Cons x xs)
  obtain b bs' where split: "wr x = Inr b" "pack_all wr xs = Inr bs'" "bs = b @ bs'"
    using Cons.prems(1) by (auto simp: pack_all_def res_bind_eq_Inr)
  have "rd (pre @ b @ (bs' @ rest)) (length pre) = Inr (view x, length pre + length b)"
    using read_written[OF split(1), of pre "bs' @ rest"] Cons.prems(2) split(3) by simp
  moreover have "read_many rd ins (length xs) (ins acc (view x)) ((pre @ b) @ bs' @ rest) (length (pre @ b)) =
      Inr (foldl ins (ins acc (view x)) (map view xs), length (pre @ b) + length bs')"
    by (rule Cons.IH[OF split(2)]) (use Cons.prems(2) split(3) in simp)
  ultimately show ?case using split(3) by (simp add: add.assoc)
qed

text \<open>The same with the place given by equations.\<close>

lemma read_at:
  "wr x = Inr bs \<Longrightarrow> length data < 2 ^ 64 \<Longrightarrow> data = pre @ bs @ rest \<Longrightarrow> pos = length pre \<Longrightarrow> pos' = pos + length bs \<Longrightarrow>
     rd data pos = Inr (view x, pos')"
  using read_written by simp

lemma read_all_at:
  "pack_all wr xs = Inr bs \<Longrightarrow> length data < 2 ^ 64 \<Longrightarrow> data = pre @ bs @ rest \<Longrightarrow> pos = length pre \<Longrightarrow> pos' = pos + length bs \<Longrightarrow>
     read_many rd ins (length xs) acc data pos = Inr (foldl ins acc (map view xs), pos')"
  using read_all by simp

end

lemma read_uint_written:
  "pack_uint k n = Inr bs \<Longrightarrow> read_uint k (pre @ bs @ rest) (length pre) = Inr (n, length pre + length bs)"
  by (auto simp: pack_uint_def read_uint_def le_nat_le_bytes split: if_splits)

interpretation u32: field_codec pack_u32 read_u32 "\<lambda>n. n"
  by unfold_locales (rule read_uint_written)

interpretation u64: field_codec pack_u64 read_u64 "\<lambda>n. n"
  by unfold_locales (rule read_uint_written)

interpretation str: field_codec pack_string read_string "\<lambda>s. s"
proof unfold_locales
  fix s bs and pre rest :: "byte list"
  assume "pack_string s = Inr bs"
  then obtain n where n: "pack_u32 (length (utf8_encode s)) = Inr n" "bs = n @ utf8_encode s"
    by (auto simp: pack_string_def res_bind_eq_Inr)
  have "read_u32 (pre @ n @ (utf8_encode s @ rest)) (length pre) = Inr (length (utf8_encode s), length pre + length n)"
    using read_uint_written[OF n(1)] .
  then show "read_string (pre @ bs @ rest) (length pre) = Inr (s, length pre + length bs)"
    using n(2) by (simp add: read_string_def utf8_roundtrip)
qed

end
