(* ===== verification/Const_Binary.thy ===== *)
theory Const_Binary
  imports Byte_Codec Mlir_Module "HOL-Library.Char_ord" "HOL-Library.List_Lexorder"
begin

text \<open>
  The embedded constants of a compiled library: \<open>compiler/artifact/binary.py\<close>, which maps the
  names of weights to checkpoint keys and writes names, constant tensors and the call graph in
  the SFCF format, and \<open>load_registry_from_dylib\<close> of \<open>runtime/src/model/weight_loader.rs\<close>, which
  reads names and constants.  The keys found in the checkpoint file, the tensors (type, sizes and
  raw bytes) and the output of \<open>git\<close> are arguments; sets of names are lists in the order of
  iteration.
\<close>


section \<open>Names of weights\<close>

definition candidate_names :: "string \<Rightarrow> string list" where
  "candidate_names wname = (let parts = split_on CHR ''_'' wname
     in wname # map (\<lambda>i. join_with ''_'' (drop i parts)) [1..<min 4 (length parts)])"

definition clean_key :: "string \<Rightarrow> string" where
  "clean_key hf = map (\<lambda>c. if c = CHR ''.'' then CHR ''_'' else c) hf"

definition find_actual_hf_key :: "string \<Rightarrow> string list \<Rightarrow> string option" where
  "find_actual_hf_key short actual_keys =
     (case find (\<lambda>hf. clean_key hf = short) actual_keys of
        Some hf \<Rightarrow> Some hf
      | None \<Rightarrow> find (\<lambda>hf. short \<in> set (candidate_names (clean_key hf)) \<or> ends_with (clean_key hf) short) actual_keys)"

definition map_weight_name ::
    "(string, string) dict \<Rightarrow> (string, string) dict \<Rightarrow> string list \<Rightarrow> string \<Rightarrow> string option" where
  "map_weight_name hf_key_map tied actual_keys short =
     (let fallback = (case find_actual_hf_key short actual_keys of
            Some hf \<Rightarrow> Some hf
          | None \<Rightarrow> map_option snd (find (\<lambda>(full, hf). short \<in> set (candidate_names full) \<or> ends_with full short) hf_key_map))
      in case map_of tied short of
           None \<Rightarrow> fallback
         | Some survivor \<Rightarrow>
             (case find_actual_hf_key survivor actual_keys of
                Some hf \<Rightarrow> Some hf
              | None \<Rightarrow> (case map_of hf_key_map survivor of Some hf \<Rightarrow> Some hf | None \<Rightarrow> fallback)))"

text \<open>A name that is no string raises on the first comparison it is used in.\<close>

definition name_weight ::
    "(string, string) dict \<Rightarrow> (string, string) dict \<Rightarrow> string list \<Rightarrow> (string, string) dict \<Rightarrow> mlir_op \<Rightarrow> (string, string) dict res" where
  "name_weight hf_key_map tied actual_keys mapping op =
     (if mo_op_name op \<noteq> ''weight'' then Inr mapping
      else let short = dict_get (mo_attributes op) ''name'' (JStr [])
           in if \<not> json_truthy short then Inr mapping
              else case short of
                     JStr s \<Rightarrow> Inr (if dict_has mapping s then mapping
                                    else case map_weight_name hf_key_map tied actual_keys s of
                                           None \<Rightarrow> mapping | Some hf \<Rightarrow> AList.update s hf mapping)
                   | JList _ \<Rightarrow> Inl TypeError
                   | JDict _ \<Rightarrow> Inl TypeError
                   | _ \<Rightarrow> if actual_keys \<noteq> [] \<or> hf_key_map \<noteq> [] then Inl TypeError else Inr mapping)"

definition build_name_mapping ::
    "(string, string) dict \<Rightarrow> (string, string) dict \<Rightarrow> string list \<Rightarrow> mlir_function list \<Rightarrow> (string, string) dict res" where
  "build_name_mapping hf_key_map tied actual_keys functions =
     res_foldM (name_weight hf_key_map tied actual_keys) [] (concat (map mf_ops functions))"


section \<open>Constants\<close>

record const_tensor =
  ct_dtype :: string
  ct_shape :: "nat list"
  ct_data :: "byte list"

definition dtype_to_code :: "(string, nat) dict" where
  "dtype_to_code = [(''float32'', 0), (''float16'', 1), (''bfloat16'', 2), (''int64'', 3), (''int32'', 4), (''int8'', 5), (''uint8'', 6)]"

definition dtype_code :: "const_tensor \<Rightarrow> nat" where
  "dtype_code t = dict_get dtype_to_code (ct_dtype t) 0"

definition pack_constant :: "string \<times> const_tensor \<Rightarrow> byte list res" where
  "pack_constant = (\<lambda>(name, t).
     res_bind (pack_string name) (\<lambda>n.
     res_bind (pack_u8 (dtype_code t)) (\<lambda>d.
     res_bind (pack_u8 (length (ct_shape t))) (\<lambda>r.
     res_bind (pack_all pack_u64 (ct_shape t)) (\<lambda>dims.
     res_bind (pack_u64 (length (ct_data t))) (\<lambda>l.
     Inr (n @ d @ r @ dims @ l @ ct_data t)))))))"

definition pack_mapping :: "string \<times> string \<Rightarrow> byte list res" where
  "pack_mapping = (\<lambda>(short, full). res_bind (pack_string short) (\<lambda>s. res_bind (pack_string full) (\<lambda>f. Inr (s @ f))))"

text \<open>The tensors named as constants that the function has; \<open>tensors\<close> gives them.\<close>

definition const_tensors :: "(nat \<Rightarrow> string \<Rightarrow> const_tensor) \<Rightarrow> mlir_function list \<Rightarrow> (string \<times> const_tensor) list" where
  "const_tensors tensors functions =
     concat (map (\<lambda>(fi, f). map (\<lambda>w. (w, tensors fi w)) (filter (\<lambda>w. w \<in> set (mf_weights f)) (mf_const_weight_names f)))
       (enum_from 0 functions))"


section \<open>The call graph\<close>

text \<open>\<open>_parse_type_shape\<close>: sizes up to the first part that is no number, 0 for dynamic and negative ones.\<close>

fun leading_dims :: "string list \<Rightarrow> nat list" where
  "leading_dims [] = []"
| "leading_dims (p # ps) =
     (if starts_with (py_strip p) ''?'' then 0 # leading_dims ps
      else case int_of_string p of Inl _ \<Rightarrow> [] | Inr d \<Rightarrow> nat d # leading_dims ps)"

definition parse_type_shape :: "string \<Rightarrow> nat list" where
  "parse_type_shape type_str =
     (let s = py_strip type_str; mid = py_strip (butlast (drop 7 s))
      in if (starts_with s ''tensor<'' \<or> starts_with s ''memref<'') \<and> ends_with s ''>'' \<and> mid \<noteq> [] \<and> CHR 10 \<notin> set mid
         then leading_dims (split_on CHR ''x'' mid) else [])"

definition pack_dims :: "nat list \<Rightarrow> byte list res" where
  "pack_dims dims =
     res_bind (pack_u8 (length dims)) (\<lambda>r. res_bind (pack_u32 (length dims)) (\<lambda>n. res_bind (pack_all pack_u64 dims) (\<lambda>ds. Inr (r @ n @ ds))))"

definition graph_producers :: "mlir_function list \<Rightarrow> (string, nat) dict" where
  "graph_producers functions =
     foldl (\<lambda>d (fi, f). foldl (\<lambda>d (nm, _, _). AList.update (ssa_key nm) fi d) d (mf_outputs f)) [] (enum_from 0 functions)"

definition pack_graph_input :: "(string, nat) dict \<Rightarrow> nat \<Rightarrow> nat \<times> string \<times> string \<Rightarrow> byte list res" where
  "pack_graph_input producer fi = (\<lambda>(in_idx, nm, tp).
     res_bind (if fi = 0 \<and> in_idx < 2 then pack_u8 2
               else res_bind (pack_u8 1) (\<lambda>b. res_bind (pack_u32 (dict_get producer (ssa_key nm) 0)) (\<lambda>p.
                    res_bind (pack_u32 0) (\<lambda>o'. Inr (b @ p @ o'))))) (\<lambda>binding.
     res_bind (pack_dims (parse_type_shape tp)) (\<lambda>dims. Inr (binding @ dims))))"

definition weight_attr_name :: "mlir_op \<Rightarrow> string res" where
  "weight_attr_name op = (case dict_get (mo_attributes op) ''name'' (JStr []) of JStr s \<Rightarrow> Inr s | _ \<Rightarrow> Inl AttributeError)"

text \<open>Names and types of the weight operations that become arguments.\<close>

definition graph_weights :: "mlir_function \<Rightarrow> (string \<times> string) list res" where
  "graph_weights f =
     res_bind (res_mapM (\<lambda>op. res_bind (weight_attr_name op) (\<lambda>w. Inr (w, case mo_output_types op of [] \<Rightarrow> ''tensor<f32>'' | tp # _ \<Rightarrow> tp)))
         (filter (\<lambda>op. mo_op_name op = ''weight'') (mf_ops f)))
       (\<lambda>ws. Inr (filter (\<lambda>(w, _). \<not> starts_with w ''_const_'' \<and> w \<noteq> []) ws))"

definition pack_graph_weight :: "string \<times> string \<Rightarrow> byte list res" where
  "pack_graph_weight = (\<lambda>(w, tp). res_bind (pack_u8 0) (\<lambda>b. res_bind (pack_string w) (\<lambda>n.
     res_bind (pack_dims (parse_type_shape tp)) (\<lambda>dims. Inr (b @ n @ dims)))))"

definition pack_graph_function :: "(string, nat) dict \<Rightarrow> nat \<times> mlir_function \<Rightarrow> byte list res" where
  "pack_graph_function producer = (\<lambda>(fi, f).
     res_bind (pack_string (''_mlir_ciface_'' @ mf_name f)) (\<lambda>sym.
     res_bind (graph_weights f) (\<lambda>ws.
     res_bind (pack_u32 (length (mf_inputs f) + length ws)) (\<lambda>ni.
     res_bind (pack_u32 1) (\<lambda>no.
     res_bind (pack_all (pack_graph_input producer fi) (enum_from 0 (mf_inputs f))) (\<lambda>ins.
     res_bind (pack_all pack_graph_weight ws) (\<lambda>weights.
     res_bind (pack_u8 0) (\<lambda>consumed. res_bind (pack_dims [0, 0, 0]) (\<lambda>out.
     Inr (sym @ ni @ no @ ins @ weights @ consumed @ out))))))))))"

text \<open>With no function, the index of the last one is -1, which \<open>struct.pack\<close> rejects.\<close>

definition graph_section :: "mlir_function list \<Rightarrow> byte list res" where
  "graph_section functions =
     res_bind (pack_u32 (length functions)) (\<lambda>n.
     res_bind (pack_all (pack_graph_function (graph_producers functions)) (enum_from 0 functions)) (\<lambda>fs.
     res_bind (if functions = [] then Inl StructError else pack_all pack_u32 [0, 0, length functions - 1, 0]) (\<lambda>io.
     Inr (n @ fs @ io))))"

definition contract_section :: "string \<Rightarrow> mlir_function list \<Rightarrow> byte list res" where
  "contract_section compiler_version functions =
     (case functions of
        [] \<Rightarrow> Inl IndexError
      | f # _ \<Rightarrow>
          let names = map (ssa_key \<circ> fst) (take 2 (mf_inputs f));
              entries = [(''sfcf_version'', ''4''), (''num_global_inputs'', string_of_nat (length names)),
                         (''global_input_names'', join_with '','' names), (''compiler_version'', compiler_version)]
          in res_bind (pack_u32 (length entries)) (\<lambda>n. res_bind (pack_all pack_mapping entries) (\<lambda>es. Inr (n @ es))))"

definition graph_and_contract :: "string \<Rightarrow> mlir_function list \<Rightarrow> bool \<Rightarrow> byte list res" where
  "graph_and_contract compiler_version functions skip_compute_graph =
     res_bind (if skip_compute_graph then Inr [] else graph_section functions) (\<lambda>g.
     res_bind (contract_section compiler_version functions) (\<lambda>c. Inr (g @ c)))"

definition sfcf_magic :: "byte list" where
  "sfcf_magic = map (\<lambda>c. word_of_nat (of_char c)) ''SFCF''"

definition build_constants_binary ::
    "(nat \<Rightarrow> string \<Rightarrow> const_tensor) \<Rightarrow> string \<Rightarrow> mlir_function list \<Rightarrow> (string, string) dict \<Rightarrow> bool \<Rightarrow> byte list res" where
  "build_constants_binary tensors compiler_version functions name_mapping skip_compute_graph =
     res_bind (pack_u32 4) (\<lambda>version.
     res_bind (pack_u32 (length name_mapping)) (\<lambda>n.
     res_bind (pack_all pack_mapping (sort_key fst name_mapping)) (\<lambda>names.
     res_bind (pack_u32 (length (const_tensors tensors functions))) (\<lambda>k.
     res_bind (pack_all pack_constant (const_tensors tensors functions)) (\<lambda>cbytes.
     res_bind (graph_and_contract compiler_version functions skip_compute_graph) (\<lambda>rest.
     Inr (sfcf_magic @ version @ n @ names @ k @ cbytes @ rest)))))))"


section \<open>The reader of the runtime\<close>

datatype dtype = F32 | F16 | BF16 | I64 | I32 | I8 | U8

definition dtype_from_code :: "nat \<Rightarrow> dtype option" where
  "dtype_from_code code = (if code < 7 then Some ([F32, F16, BF16, I64, I32, I8, U8] ! code) else None)"

record rust_constant =
  rc_dtype :: dtype
  rc_shape :: "nat list"
  rc_data :: "byte list"

record weight_registry =
  wr_name_mapping :: "(string, string) dict"
  wr_constants :: "(string, rust_constant) dict"

definition read_mapping :: "byte list \<Rightarrow> nat \<Rightarrow> ((string \<times> string) \<times> nat) load" where
  "read_mapping data pos =
     load_bind (read_string data pos) (\<lambda>(compiled, pos). load_bind (read_string data pos) (\<lambda>(hf_key, pos). Inr ((compiled, hf_key), pos)))"

text \<open>The rank is indexed without a check of its own: at the end of the data that is a panic.\<close>

definition read_constant :: "byte list \<Rightarrow> nat \<Rightarrow> ((string \<times> rust_constant) \<times> nat) load" where
  "read_constant data pos =
     load_bind (read_string data pos) (\<lambda>(name, pos).
     if pos \<ge> length data then Inl Truncated
     else case dtype_from_code (unat (data ! pos)) of
            None \<Rightarrow> Inl BadDtype
          | Some dt \<Rightarrow>
              if pos + 1 \<ge> length data then Inl Panic
              else load_bind (read_many read_u64 (\<lambda>ds d. ds @ [d]) (unat (data ! (pos + 1))) [] data (pos + 2)) (\<lambda>(shape, pos).
                   load_bind (read_u64 data pos) (\<lambda>(data_len, pos).
                   if pos + data_len \<ge> 2 ^ 64 then Inl Panic
                   else if pos + data_len > length data then Inl Truncated
                   else Inr ((name, \<lparr>rc_dtype = dt, rc_shape = shape, rc_data = take data_len (drop pos data)\<rparr>), pos + data_len))))"

definition insert_entry :: "('k, 'v) dict \<Rightarrow> 'k \<times> 'v \<Rightarrow> ('k, 'v) dict" where
  "insert_entry d = (\<lambda>(k, v). AList.update k v d)"

definition load_registry :: "byte list \<Rightarrow> (weight_registry \<times> nat \<times> nat) load" where
  "load_registry data =
     (if length data < 8 then Inl Truncated
      else if take 4 data \<noteq> sfcf_magic then Inl BadMagic
      else let version = le_nat (take 4 (drop 4 data))
           in if version < 2 \<or> 4 < version then Inl BadVersion
              else load_bind (read_u32 data 8) (\<lambda>(nm_count, pos).
                   load_bind (read_many read_mapping insert_entry nm_count [] data pos) (\<lambda>(name_mapping, pos).
                   load_bind (read_u32 data pos) (\<lambda>(const_count, pos).
                   load_bind (read_many read_constant insert_entry const_count [] data pos) (\<lambda>(constants, pos).
                   Inr (\<lparr>wr_name_mapping = name_mapping, wr_constants = constants\<rparr>, pos, version))))))"


section \<open>Entries are read back\<close>

definition loaded :: "const_tensor \<Rightarrow> rust_constant" where
  "loaded t = \<lparr>rc_dtype = the (dtype_from_code (dtype_code t)), rc_shape = ct_shape t, rc_data = ct_data t\<rparr>"

lemma dtype_code_less: "dtype_code t < 7"
proof -
  have "n < 7" if "map_of dtype_to_code k = Some n" for k n
    using map_of_SomeD[OF that] by (auto simp: dtype_to_code_def)
  then show ?thesis by (auto simp: dtype_code_def dict_get_def split: option.split)
qed

interpretation name_field: field_codec pack_mapping read_mapping "\<lambda>e. e"
proof unfold_locales
  fix e :: "string \<times> string" and bs pre rest
  assume "pack_mapping e = Inr bs" and len: "length (pre @ bs @ rest) < 2 ^ 64"
  then obtain s f where e: "pack_string (fst e) = Inr s" "pack_string (snd e) = Inr f" "bs = s @ f"
    by (auto simp: pack_mapping_def res_bind_eq_Inr split: prod.splits)
  let ?data = "pre @ bs @ rest"
  have "read_string ?data (length pre) = Inr (fst e, length pre + length s)"
    by (rule str.read_at[OF e(1) len, of pre "f @ rest"]) (simp_all add: e(3))
  moreover have "read_string ?data (length pre + length s) = Inr (snd e, length pre + length bs)"
    by (rule str.read_at[OF e(2) len, of "pre @ s" rest]) (simp_all add: e(3))
  ultimately show "read_mapping ?data (length pre) = Inr (e, length pre + length bs)"
    by (simp add: read_mapping_def)
qed

lemma foldl_snoc: "foldl (\<lambda>ds d. ds @ [d]) acc xs = acc @ xs"
  by (induction xs arbitrary: acc) auto

lemma pack_u8_byte: "pack_u8 n = Inr bs \<Longrightarrow> \<exists>b. bs = [b] \<and> unat b = n"
  by (auto simp: pack_uint_def unat_of_nat split: if_splits)

interpretation const_field: field_codec pack_constant read_constant "\<lambda>(name, t). (name, loaded t)"
proof unfold_locales
  fix e :: "string \<times> const_tensor" and bs pre rest
  assume wr: "pack_constant e = Inr bs" and len: "length (pre @ bs @ rest) < 2 ^ 64"
  obtain name t where e: "e = (name, t)" by (cases e)
  obtain n d r dims l where p: "pack_string name = Inr n" "pack_u8 (dtype_code t) = Inr d" "pack_u8 (length (ct_shape t)) = Inr r"
      "pack_all pack_u64 (ct_shape t) = Inr dims" "pack_u64 (length (ct_data t)) = Inr l" "bs = n @ d @ r @ dims @ l @ ct_data t"
    using wr e by (auto simp: pack_constant_def res_bind_eq_Inr)
  obtain db where db: "d = [db]" "unat db = dtype_code t" using pack_u8_byte[OF p(2)] by blast
  obtain rb where rb: "r = [rb]" "unat rb = length (ct_shape t)" using pack_u8_byte[OF p(3)] by blast
  let ?data = "pre @ bs @ rest" and ?pos = "length pre + length n"
  have name: "read_string ?data (length pre) = Inr (name, ?pos)"
    by (rule str.read_at[OF p(1) len, of pre "d @ r @ dims @ l @ ct_data t @ rest"]) (simp_all add: p(6))
  have at: "?data ! ?pos = db" "?data ! (?pos + 1) = rb" "?pos + 1 < length ?data"
    using p(6) db(1) rb(1) by (simp_all add: nth_append)
  have dims: "read_many read_u64 (\<lambda>ds d. ds @ [d]) (length (ct_shape t)) [] ?data (?pos + 2) = Inr (ct_shape t, ?pos + 2 + length dims)"
    using u64.read_all_at[OF p(4) len, of "pre @ n @ d @ r" "l @ ct_data t @ rest" "?pos + 2" "?pos + 2 + length dims" "\<lambda>ds d. ds @ [d]" "[]"] p(6) db(1) rb(1)
    by (simp add: foldl_snoc)
  have l: "read_u64 ?data (?pos + 2 + length dims) = Inr (length (ct_data t), ?pos + 2 + length dims + length l)"
    by (rule u64.read_at[OF p(5) len, of "pre @ n @ d @ r @ dims" "ct_data t @ rest"]) (simp_all add: p(6) db(1) rb(1))
  let ?stop = "?pos + 2 + length dims + length l"
  have fits: "?stop + length (ct_data t) \<le> length ?data" using p(6) db(1) rb(1) by simp
  have data: "take (length (ct_data t)) (drop ?stop ?data) = ct_data t" using p(6) db(1) rb(1) by simp
  obtain dt where dt: "dtype_from_code (dtype_code t) = Some dt" using dtype_code_less[of t] by (simp add: dtype_from_code_def)
  have "read_constant ?data (length pre) = Inr ((name, loaded t), ?stop + length (ct_data t))"
    unfolding read_constant_def name load_bind_simps prod.case at db(2) rb(2) dt option.case dims l
    using at(3) fits len data dt by (simp add: loaded_def)
  moreover have "?stop + length (ct_data t) = length pre + length bs" using p(6) db(1) rb(1) by simp
  ultimately show "read_constant ?data (length pre) = Inr ((case e of (name, t) \<Rightarrow> (name, loaded t)), length pre + length bs)"
    using e by simp
qed

lemma map_of_inserts: "map_of (foldl insert_entry d xs) = map_of d ++ map_of (rev xs)"
proof (induction xs arbitrary: d)
  case (Cons x xs)
  obtain k v where x: "x = (k, v)" by (cases x)
  have "map_of (AList.update k v d) = (map_of d)(k \<mapsto> v)" by (simp add: update_conv')
  then show ?case using Cons.IH x by (simp add: insert_entry_def map_add_upd_left[symmetric] map_add_def fun_eq_iff split: option.split)
qed simp

lemma length_sfcf_magic [simp]: "length sfcf_magic = 4"
  by (simp add: sfcf_magic_def)

lemma le_nat_four: "pack_u32 4 = Inr version \<Longrightarrow> le_nat version = 4 \<and> length version = 4"
  by (auto simp: pack_uint_def le_nat_le_bytes split: if_splits)


text \<open>C22: The runtime reads back the embedded constants the compiler has written: every weight name maps to its checkpoint key, every constant has its sizes, its bytes and the type of its code (the last one written under a name), and the position it returns is where the call graph starts.\<close>

theorem constants_binary_roundtrip:
  assumes build: "build_constants_binary tensors compiler_version functions name_mapping skip = Inr bs"
    and dict: "distinct (map fst name_mapping)" and size: "length bs < 2 ^ 64"
  shows "\<exists>reg pos. load_registry bs = Inr (reg, pos, 4) \<and> map_of (wr_name_mapping reg) = map_of name_mapping
     \<and> map_of (wr_constants reg) = map_of (rev (map (\<lambda>(name, t). (name, loaded t)) (const_tensors tensors functions)))
     \<and> graph_and_contract compiler_version functions skip = Inr (drop pos bs)"
proof -
  obtain version n names k cbytes rest where w: "pack_u32 4 = Inr version" "pack_u32 (length name_mapping) = Inr n"
    "pack_all pack_mapping (sort_key fst name_mapping) = Inr names" "pack_u32 (length (const_tensors tensors functions)) = Inr k"
    "pack_all pack_constant (const_tensors tensors functions) = Inr cbytes"
    "graph_and_contract compiler_version functions skip = Inr rest" "bs = sfcf_magic @ version @ n @ names @ k @ cbytes @ rest"
    using build by (auto simp: build_constants_binary_def res_bind_eq_Inr)
  note v = le_nat_four[OF w(1)]
  let ?p0 = "sfcf_magic @ version"
  have r1: "read_u32 bs 8 = Inr (length name_mapping, 8 + length n)"
    by (rule u32.read_at[OF w(2) size, of ?p0 "names @ k @ cbytes @ rest"]) (simp_all add: w(7) v)
  have r2: "read_many read_mapping insert_entry (length name_mapping) [] bs (8 + length n) =
      Inr (foldl insert_entry [] (sort_key fst name_mapping), 8 + length n + length names)"
    using name_field.read_all_at[OF w(3) size, of "?p0 @ n" "k @ cbytes @ rest" "8 + length n" "8 + length n + length names" insert_entry "[]"] w(7) v
    by simp
  have r3: "read_u32 bs (8 + length n + length names) = Inr (length (const_tensors tensors functions), 8 + length n + length names + length k)"
    by (rule u32.read_at[OF w(4) size, of "?p0 @ n @ names" "cbytes @ rest"]) (simp_all add: w(7) v)
  let ?cs = "map (\<lambda>(name, t). (name, loaded t)) (const_tensors tensors functions)"
  let ?pos = "8 + length n + length names + length k + length cbytes"
  have r4: "read_many read_constant insert_entry (length (const_tensors tensors functions)) [] bs (8 + length n + length names + length k) =
      Inr (foldl insert_entry [] ?cs, ?pos)"
    using const_field.read_all_at[OF w(5) size, of "?p0 @ n @ names @ k" rest "8 + length n + length names + length k" ?pos insert_entry "[]"] w(7) v
    by (simp add: add.assoc)
  have hdr: "8 \<le> length bs" "take 4 bs = sfcf_magic" "take 4 (drop 4 bs) = version" using w(7) v by simp_all
  have load: "load_registry bs = Inr (\<lparr>wr_name_mapping = foldl insert_entry [] (sort_key fst name_mapping), wr_constants = foldl insert_entry [] ?cs\<rparr>, ?pos, 4)"
    unfolding load_registry_def hdr(2,3) Let_def v[THEN conjunct1] r1 load_bind_simps prod.case r2 r3 r4 using hdr(1) by simp
  have "distinct (map fst (rev (sort_key fst name_mapping)))" using dict
    by (simp add: rev_map[symmetric] distinct_map)
  then have "map_of (rev (sort_key fst name_mapping)) = map_of name_mapping" using dict
    by (subst map_of_inject_set) simp_all
  then have names: "map_of (foldl insert_entry [] (sort_key fst name_mapping)) = map_of name_mapping" by (simp add: map_of_inserts)
  have "drop ?pos bs = rest" using w(7) v by simp
  then show ?thesis using load names w(6) by (simp add: map_of_inserts)
qed


section \<open>The name mapping\<close>

text \<open>The names of weights in a module.\<close>

definition weight_op_names :: "mlir_function list \<Rightarrow> string set" where
  "weight_op_names functions = {s. s \<noteq> [] \<and> (\<exists>f \<in> set functions. \<exists>op \<in> set (mf_ops f).
     mo_op_name op = ''weight'' \<and> dict_get (mo_attributes op) ''name'' (JStr []) = JStr s)}"

definition mapped_from :: "(string \<Rightarrow> string option) \<Rightarrow> mlir_op list \<Rightarrow> string \<Rightarrow> string option" where
  "mapped_from g ops s =
     (if s \<noteq> [] \<and> (\<exists>op \<in> set ops. mo_op_name op = ''weight'' \<and> dict_get (mo_attributes op) ''name'' (JStr []) = JStr s) then g s else None)"

lemma mapped_from_snoc:
  "mapped_from g (ops @ [op]) s =
     (if s \<noteq> [] \<and> mo_op_name op = ''weight'' \<and> dict_get (mo_attributes op) ''name'' (JStr []) = JStr s then g s else mapped_from g ops s)"
  by (auto simp: mapped_from_def)

lemma name_weight_step:
  assumes "name_weight hf_map tied keys m op = Inr m'" and "\<forall>s. map_of m s = mapped_from (map_weight_name hf_map tied keys) ops s"
  shows "\<forall>s. map_of m' s = mapped_from (map_weight_name hf_map tied keys) (ops @ [op]) s"
proof -
  let ?g = "map_weight_name hf_map tied keys"
  let ?v = "dict_get (mo_attributes op) ''name'' (JStr [])"
  consider (other) "mo_op_name op \<noteq> ''weight'' \<or> (\<forall>s. s \<noteq> [] \<longrightarrow> ?v \<noteq> JStr s)" "m' = m"
    | (weight) s where "mo_op_name op = ''weight''" "?v = JStr s" "s \<noteq> []"
      "m' = (if dict_has m s then m else case ?g s of None \<Rightarrow> m | Some hf \<Rightarrow> AList.update s hf m)"
    using assms(1) by (cases ?v) (auto simp: name_weight_def Let_def split: if_splits)
  then show ?thesis
  proof cases
    case other
    then show ?thesis using assms(2) by (auto simp: mapped_from_snoc)
  next
    case weight
    have "map_of m s = None \<or> map_of m s = ?g s" using assms(2) by (auto simp: mapped_from_def split: if_splits)
    then show ?thesis using assms(2) weight by (auto simp: mapped_from_snoc split: option.split)
  qed
qed

lemma name_mapping_fold:
  "res_foldM (name_weight hf_map tied keys) m todo = Inr m' \<Longrightarrow> \<forall>s. map_of m s = mapped_from (map_weight_name hf_map tied keys) ops s \<Longrightarrow>
     \<forall>s. map_of m' s = mapped_from (map_weight_name hf_map tied keys) (ops @ todo) s"
proof (induction todo arbitrary: m ops)
  case (Cons op todo)
  obtain m1 where m1: "name_weight hf_map tied keys m op = Inr m1" "res_foldM (name_weight hf_map tied keys) m1 todo = Inr m'"
    using Cons.prems(1) by (auto simp: res_bind_eq_Inr)
  show ?case using Cons.IH[OF m1(2) name_weight_step[OF m1(1) Cons.prems(2)]] by simp
qed simp

lemma find_in: "find P xs = Some x \<Longrightarrow> x \<in> set xs"
  by (auto simp: find_Some_iff)

text \<open>C26: The name mapping of a module covers exactly its named weights: each is mapped to what the lookup gives for it (the key of the tensor it is tied to, or a key of the checkpoint, or one of the key map), so the mapped keys exist in one of the two, and a name that is the cleaned form of a checkpoint key and is not tied goes to the first such key.\<close>

theorem name_mapping_complete:
  assumes "build_name_mapping hf_map tied keys functions = Inr mapping"
  shows "map_of mapping s = (if s \<in> weight_op_names functions then map_weight_name hf_map tied keys s else None)
     \<and> (\<forall>hf. map_of mapping s = Some hf \<longrightarrow> hf \<in> set keys \<union> snd ` set hf_map)
     \<and> (s \<in> weight_op_names functions \<and> map_of tied s = None \<and> s \<in> clean_key ` set keys \<longrightarrow>
          (\<exists>hf. map_of mapping s = Some hf \<and> hf \<in> set keys \<and> clean_key hf = s))"
proof -
  have "\<forall>s. map_of mapping s = mapped_from (map_weight_name hf_map tied keys) ([] @ concat (map mf_ops functions)) s"
    using assms unfolding build_name_mapping_def by (rule name_mapping_fold) (simp add: mapped_from_def)
  then have m: "map_of mapping s = (if s \<in> weight_op_names functions then map_weight_name hf_map tied keys s else None)" for s
    by (simp add: mapped_from_def weight_op_names_def)
  have actual: "hf \<in> set keys" if "find_actual_hf_key t keys = Some hf" for t hf
    using that by (auto simp: find_actual_hf_key_def dest: find_in split: option.splits)
  have "hf \<in> set keys \<union> snd ` set hf_map" if "map_weight_name hf_map tied keys t = Some hf" for t hf
    using that by (auto simp: map_weight_name_def Let_def dest!: actual find_in map_of_SomeD split: option.splits intro: rev_image_eqI)
  then have "hf \<in> set keys \<union> snd ` set hf_map" if "map_of mapping s = Some hf" for hf
    using that m by (auto split: if_splits)
  moreover have "\<exists>hf. map_of mapping s = Some hf \<and> hf \<in> set keys \<and> clean_key hf = s"
    if s: "s \<in> weight_op_names functions" "map_of tied s = None" "s \<in> clean_key ` set keys"
  proof -
    have "find (\<lambda>hf. clean_key hf = s) keys \<noteq> None" using s(3) by (auto simp: find_None_iff)
    then obtain hf where hf: "find (\<lambda>hf. clean_key hf = s) keys = Some hf" by blast
    then have "map_of mapping s = Some hf" using m s by (simp add: map_weight_name_def find_actual_hf_key_def)
    then show ?thesis using hf by (auto simp: find_Some_iff)
  qed
  ultimately show ?thesis using m by blast
qed


section \<open>A small artifact\<close>

definition weight_op :: "string \<Rightarrow> mlir_op" where
  "weight_op w = \<lparr>mo_name = ''sf.weight'', mo_dialect = ''sf'', mo_op_name = ''weight'', mo_operands = [], mo_results = [w],
     mo_attributes = [(''name'', JStr w)], mo_input_types = [], mo_output_types = [''tensor<2x4xf32>'']\<rparr>"

definition demo_functions :: "mlir_function list" where
  "demo_functions = [\<lparr>mf_name = ''main_0'', mf_inputs = [(''%ids'', ''tensor<1x?xi64>'')], mf_outputs = [(''%y'', ''tensor<1x?x4xf32>'', False)],
     mf_ops = [weight_op ''fc_weight'', weight_op ''_const_1''], mf_weights = [''fc_weight'', ''_const_1''],
     mf_param_weight_names = [''fc_weight''], mf_const_weight_names = [''_const_1''], mf_weight_names = []\<rparr>]"

definition demo_tensors :: "string \<Rightarrow> nat \<Rightarrow> string \<Rightarrow> const_tensor" where
  "demo_tensors dt fi w = \<lparr>ct_dtype = dt, ct_shape = [1], ct_data = replicate 8 0\<rparr>"

lemma demo_mapping: "build_name_mapping [] [] [''model.fc.weight'', ''fc.weight''] demo_functions = Inr [(''fc_weight'', ''fc.weight'')]"
  by code_simp

lemma demo_shapes: "parse_type_shape ''tensor<1x?xi64>'' = [1, 0]" "parse_type_shape ''tensor<2x4xf32>'' = [2, 4]"
  by code_simp+

lemma demo_binary:
  "case build_constants_binary (demo_tensors ''int64'') ''v1'' demo_functions [(''fc_weight'', ''fc.weight'')] False of
     Inl _ \<Rightarrow> False | Inr bs \<Rightarrow> length bs < 1000"
  by (simp add: build_constants_binary_def const_tensors_def demo_functions_def demo_tensors_def weight_op_def graph_and_contract_def
      graph_section_def contract_section_def pack_all_def pack_mapping_def pack_constant_def pack_graph_function_def pack_graph_input_def
      pack_graph_weight_def graph_weights_def weight_attr_name_def pack_dims_def dict_get_def pack_string_def pack_uint_def utf8_encode_def
      utf8_char_def dtype_code_def dtype_to_code_def demo_shapes ssa_key_def Let_def
      string_of_nat.simps digit_char_def)

theorem name_mapping_complete_witness:
  "\<exists>mapping. build_name_mapping [] [] [''model.fc.weight'', ''fc.weight''] demo_functions = Inr mapping
     \<and> (\<exists>hf. map_of mapping ''fc_weight'' = Some hf \<and> clean_key hf = ''fc_weight'')"
proof -
  have w: "''fc_weight'' \<in> weight_op_names demo_functions" by (simp add: weight_op_names_def demo_functions_def weight_op_def dict_get_def)
  have "clean_key ''fc.weight'' = ''fc_weight''" by (simp add: clean_key_def)
  then have c: "''fc_weight'' \<in> clean_key ` set [''model.fc.weight'', ''fc.weight'']" by (metis imageI list.set_intros)
  show ?thesis using name_mapping_complete[OF demo_mapping, of "''fc_weight''"] w c demo_mapping by (metis (no_types, lifting) map_of.simps(1))
qed

theorem constants_binary_roundtrip_witness:
  "\<exists>bs reg pos. build_constants_binary (demo_tensors ''int64'') ''v1'' demo_functions [(''fc_weight'', ''fc.weight'')] False = Inr bs
     \<and> load_registry bs = Inr (reg, pos, 4) \<and> map_of (wr_name_mapping reg) ''fc_weight'' = Some ''fc.weight''"
proof -
  obtain bs where bs: "build_constants_binary (demo_tensors ''int64'') ''v1'' demo_functions [(''fc_weight'', ''fc.weight'')] False = Inr bs" "length bs < 1000"
    using demo_binary by (auto split: sum.splits)
  have "length bs < 2 ^ 64" using bs(2) by simp
  then show ?thesis using constants_binary_roundtrip[OF bs(1)] bs(1) by fastforce
qed

text \<open>
  A type without a code of its own is written with the code of 32-bit floats: a constant of one
  64-bit float is read back as one 32-bit float with eight bytes of data.
\<close>

lemma float64_read_as_float32: "loaded (demo_tensors ''float64'' fi w) = \<lparr>rc_dtype = F32, rc_shape = [1], rc_data = replicate 8 0\<rparr>"
  by (simp add: loaded_def demo_tensors_def dtype_code_def dtype_to_code_def dict_get_def dtype_from_code_def)

end
