(* ===== verification/Mlir_Text.thy ===== *)
theory Mlir_Text
  imports Op_Plan
begin

text \<open>
  The text form of a module: \<open>mlir_module_to_text\<close> of \<open>compiler/artifact/serialize.py\<close> and the
  line-based parser \<open>_parse_mlir_text\<close> of \<open>compiler/artifact/parse.py\<close>.  Positions are computed
  as the code does, with Python's \<open>find\<close> (\<open>-1\<close> when absent) and slices.  The text of floats and
  of containers (\<open>py_format\<close>) and \<open>float(s)\<close> (\<open>py_float\<close>) are parameters.  The parser also
  records a type for each value, which nothing reads; that is left out.  A weight whose quoted
  name reads as a number would put that number among the operands of later operations, which are
  strings here: it is reported as a \<open>TypeError\<close>.
\<close>


section \<open>Python's string functions\<close>

fun find_str :: "string \<Rightarrow> string \<Rightarrow> nat option" where
  "find_str [] p = (if p = [] then Some 0 else None)"
| "find_str (c # cs) p = (if starts_with (c # cs) p then Some 0 else map_option Suc (find_str cs p))"

definition find_from :: "string \<Rightarrow> string \<Rightarrow> nat \<Rightarrow> nat option" where
  "find_from s p k = map_option (\<lambda>i. k + i) (find_str (drop k s) p)"

definition py_find :: "string \<Rightarrow> string \<Rightarrow> int" where
  "py_find s p = (case find_str s p of None \<Rightarrow> -1 | Some i \<Rightarrow> int i)"

definition py_rfind :: "string \<Rightarrow> char \<Rightarrow> int" where
  "py_rfind s c = (case find_str (rev s) [c] of None \<Rightarrow> -1 | Some i \<Rightarrow> int (length s) - 1 - int i)"

definition slice_pos :: "nat \<Rightarrow> int \<Rightarrow> nat" where
  "slice_pos n i = (if i < 0 then nat (i + int n) else min (nat i) n)"

definition py_slice :: "'a list \<Rightarrow> int \<Rightarrow> int \<Rightarrow> 'a list" where
  "py_slice xs i j = drop (slice_pos (length xs) i) (take (slice_pos (length xs) j) xs)"

definition py_from :: "'a list \<Rightarrow> int \<Rightarrow> 'a list" where
  "py_from xs i = drop (slice_pos (length xs) i) xs"

definition inner :: "string \<Rightarrow> string" where
  "inner s = butlast (tl s)"

definition strip_chars :: "char list \<Rightarrow> string \<Rightarrow> string" where
  "strip_chars cs s = rev (dropWhile (\<lambda>c. c \<in> set cs) (rev (dropWhile (\<lambda>c. c \<in> set cs) s)))"

definition is_break :: "char \<Rightarrow> bool" where
  "is_break c \<longleftrightarrow> (of_char c :: nat) \<in> {10, 11, 12, 13, 28, 29, 30}"

text \<open>\<open>s.splitlines()\<close>: a carriage return and a line feed are one break; no line after the last break.\<close>

fun lines_from :: "string \<Rightarrow> string \<Rightarrow> string list" where
  "lines_from cur [] = (if cur = [] then [] else [cur])"
| "lines_from cur (c # cs) =
     (if is_break c then cur # lines_from [] (if c = CHR 13 \<and> cs \<noteq> [] \<and> hd cs = CHR 10 then tl cs else cs)
      else lines_from (cur @ [c]) cs)"

definition py_lines :: "string \<Rightarrow> string list" where
  "py_lines s = lines_from [] s"

definition to_lower :: "string \<Rightarrow> string" where
  "to_lower s = map (\<lambda>c. if 65 \<le> (of_char c :: nat) \<and> (of_char c :: nat) \<le> 90 then char_of ((of_char c :: nat) + 32) else c) s"

fun py_str :: "py_format \<Rightarrow> json \<Rightarrow> string" where
  "py_str F (JStr s) = s"
| "py_str F (JInt i) = string_of_int i"
| "py_str F (JBool b) = (if b then ''True'' else ''False'')"
| "py_str F (JFloat r) = repr_float F r"
| "py_str F JNull = ''None''"
| "py_str F v = str_other F v"

definition quoted :: "string \<Rightarrow> string" where
  "quoted s = ''\"'' @ s @ ''\"''"


section \<open>The serializer\<close>

fun format_item :: "py_format \<Rightarrow> json \<Rightarrow> string" where
  "format_item F (JStr s) = quoted s"
| "format_item F v = py_str F v"

fun format_value :: "py_format \<Rightarrow> json \<Rightarrow> string" where
  "format_value F (JBool b) = (if b then ''true'' else ''false'')"
| "format_value F (JInt i) = string_of_int i @ '' : i64''"
| "format_value F (JFloat r) = repr_float F r @ '' : f64''"
| "format_value F (JStr s) = quoted s"
| "format_value F (JList vs) = ''['' @ join_with '', '' (map (format_item F) vs) @ '']''"
| "format_value F JNull = ''none''"
| "format_value F v = quoted (str_other F v)"

definition format_attr :: "py_format \<Rightarrow> string \<times> json \<Rightarrow> string" where
  "format_attr F = (\<lambda>(k, v). k @ '' = '' @ format_value F v)"

definition comma_list :: "string list \<Rightarrow> string" where
  "comma_list = join_with '', ''"

definition one_or_tuple :: "string list \<Rightarrow> string" where
  "one_or_tuple ts = (case ts of [t] \<Rightarrow> t | _ \<Rightarrow> ''('' @ comma_list ts @ '')'')"

definition weight_line :: "py_format \<Rightarrow> mlir_op \<Rightarrow> string res" where
  "weight_line F op =
     (case mo_results op of
        [] \<Rightarrow> Inl IndexError
      | r # _ \<Rightarrow>
          let wname = dict_get (mo_attributes op) ''name'' (JStr []);
              tp = (case mo_output_types op of [] \<Rightarrow> ''tensor<f32>'' | t # _ \<Rightarrow> t);
              attrs = (if json_truthy wname then ''{name = '' @ quoted (py_str F wname) @ ''}'' else [])
          in Inr (''    '' @ ssa_format r @ '' = '' @ quoted (mo_name op) @ ''() '' @ attrs @ '' : () -> '' @ tp))"

definition attrs_text :: "py_format \<Rightarrow> (string, json) dict \<Rightarrow> string" where
  "attrs_text F d = (let parts = map (format_attr F) (filter (\<lambda>(k, _). k \<noteq> ''source_node'') d)
     in if parts = [] then [] else '' {'' @ comma_list parts @ ''}'')"

definition op_text :: "py_format \<Rightarrow> mlir_op \<Rightarrow> string" where
  "op_text F op =
     comma_list (map ssa_format (mo_results op)) @ '' = '' @ quoted (mo_name op) @ ''('' @ comma_list (map ssa_format (mo_operands op)) @ '')''
       @ attrs_text F (mo_attributes op)
       @ (if mo_output_types op = [] then []
          else '' : ('' @ comma_list (mo_input_types op) @ '') -> '' @ one_or_tuple (mo_output_types op))"

definition op_line :: "py_format \<Rightarrow> mlir_op \<Rightarrow> string res" where
  "op_line F op = (if mo_op_name op = ''weight'' then weight_line F op else Inr (''    '' @ op_text F op))"

definition func_attrs :: "py_format \<Rightarrow> mlir_function \<Rightarrow> string list" where
  "func_attrs F f =
     (let flags = map (\<lambda>(_, _, c). c) (mf_outputs f)
      in (if True \<in> set flags
          then [''sf.consumed_internally = ['' @ comma_list (map (\<lambda>c. if c then ''true'' else ''false'') flags) @ '']''] else [])
         @ (if mf_weight_names f \<noteq> []
            then [''sf.weight_names = ['' @ comma_list (map (\<lambda>n. quoted (py_str F n)) (mf_weight_names f)) @ '']''] else []))"

definition func_header :: "py_format \<Rightarrow> mlir_function \<Rightarrow> string" where
  "func_header F f =
     ''func.func @'' @ mf_name f @ ''('' @ comma_list (map (\<lambda>(n, t). ssa_format n @ '': '' @ t) (mf_inputs f)) @ '') -> ''
       @ one_or_tuple (map (\<lambda>(_, t, _). t) (mf_outputs f))
       @ (if func_attrs F f = [] then [] else '' attributes {'' @ join_with ''; '' (func_attrs F f) @ ''}'') @ '' {''"

definition return_lines :: "mlir_function \<Rightarrow> string list res" where
  "return_lines f =
     (if mf_outputs f = [] then Inr []
      else let ret_str = comma_list (map (\<lambda>(n, _, _). ssa_format n) (mf_outputs f))
           in if strip_chars '', '' ret_str = [] then Inl ValueError
              else Inr [''    func.return '' @ ret_str @ '' : '' @ comma_list (map (\<lambda>(_, t, _). t) (mf_outputs f))])"

definition func_lines :: "py_format \<Rightarrow> mlir_function \<Rightarrow> string list res" where
  "func_lines F f =
     res_bind (res_mapM (op_line F) (mf_ops f)) (\<lambda>ops.
     res_bind (return_lines f) (\<lambda>ret.
     Inr ((''  '' @ func_header F f) # ops @ ret @ [''  }''])))"

definition module_header :: "mlir_module \<Rightarrow> string" where
  "module_header m =
     ''module'' @ (if mm_chain_order m = [] then []
                   else '' attributes {sf.chain_order = ['' @ comma_list (map quoted (mm_chain_order m)) @ '']}'') @ '' {''"

definition mlir_module_to_text :: "py_format \<Rightarrow> mlir_module \<Rightarrow> string res" where
  "mlir_module_to_text F m =
     res_bind (res_mapM (func_lines F) (mm_functions m)) (\<lambda>fs.
     Inr (join_with [CHR 10] (module_header m # concat fs @ [''}'']) @ [CHR 10]))"


section \<open>Attributes and types\<close>

fun split_comma_from :: "int \<Rightarrow> string \<Rightarrow> string \<Rightarrow> string list" where
  "split_comma_from depth cur [] = (if cur = [] then [] else [py_strip cur])"
| "split_comma_from depth cur (c # cs) =
     (let d = (if c \<in> set ''<('' then depth + 1 else if c \<in> set ''>)'' then depth - 1 else depth)
      in if c = CHR '','' \<and> d = 0 then py_strip cur # split_comma_from d [] cs else split_comma_from d (cur @ [c]) cs)"

definition split_comma :: "string \<Rightarrow> string list" where
  "split_comma = split_comma_from 0 []"

fun split_attrs_from :: "int \<Rightarrow> bool \<Rightarrow> string \<Rightarrow> string \<Rightarrow> string list" where
  "split_attrs_from depth in_quote cur [] = (if cur = [] then [] else [py_strip cur])"
| "split_attrs_from depth in_quote cur (c # cs) =
     (let q = (if c = CHR ''\"'' then \<not> in_quote else in_quote);
          d = (if q then depth else if c \<in> set ''[{('' then depth + 1 else if c \<in> set '']})'' then depth - 1 else depth)
      in if (c = CHR '','' \<or> c = CHR '';'') \<and> d = 0 \<and> \<not> q then py_strip cur # split_attrs_from d q [] cs
         else split_attrs_from d q (cur @ [c]) cs)"

definition split_attrs :: "string \<Rightarrow> string list" where
  "split_attrs = split_attrs_from 0 False []"

definition parse_number :: "(string \<Rightarrow> json option) \<Rightarrow> string \<Rightarrow> json" where
  "parse_number py_float raw =
     (case int_of_string raw of Inr i \<Rightarrow> JInt i | Inl _ \<Rightarrow> (case py_float raw of Some v \<Rightarrow> v | None \<Rightarrow> JStr raw))"

definition before_type :: "string \<Rightarrow> string" where
  "before_type s = (case find_str s '' : '' of None \<Rightarrow> s | Some i \<Rightarrow> take i s)"

definition is_quoted :: "string \<Rightarrow> bool" where
  "is_quoted v \<longleftrightarrow> starts_with v ''\"'' \<and> ends_with v ''\"''"

definition parse_scalar :: "(string \<Rightarrow> json option) \<Rightarrow> string \<Rightarrow> json" where
  "parse_scalar py_float v =
     (if v = ''true'' then JBool True
      else if v = ''false'' then JBool False
      else if v = ''none'' then JNull
      else if is_quoted v
      then if contains_str (inner v) '' : '' then parse_number py_float (before_type (inner v)) else JStr (inner v)
      else parse_number py_float (before_type v))"

definition parse_attr_value :: "(string \<Rightarrow> json option) \<Rightarrow> string \<Rightarrow> json" where
  "parse_attr_value py_float v = parse_scalar py_float (py_strip v)"

definition parse_value :: "(string \<Rightarrow> json option) \<Rightarrow> string \<Rightarrow> json" where
  "parse_value py_float v =
     (if \<not> is_quoted v \<and> starts_with v ''['' \<and> ends_with v '']''
      then JList (map (parse_attr_value py_float) (filter (\<lambda>item. py_strip item \<noteq> []) (split_comma (inner v))))
      else parse_scalar py_float v)"

definition parse_attr :: "(string \<Rightarrow> json option) \<Rightarrow> (string, json) dict \<Rightarrow> string \<Rightarrow> (string, json) dict" where
  "parse_attr py_float d part =
     (let p = py_strip part
      in case find_str p ''='' of
           None \<Rightarrow> d
         | Some i \<Rightarrow> let k = py_strip (take i p)
                     in AList.update (if is_quoted k then inner k else k) (parse_value py_float (py_strip (drop (Suc i) p))) d)"

definition parse_attrs :: "(string \<Rightarrow> json option) \<Rightarrow> string \<Rightarrow> (string, json) dict" where
  "parse_attrs py_float s = (if py_strip s = [] then [] else foldl (parse_attr py_float) [] (split_attrs s))"

definition parse_type_list :: "string \<Rightarrow> string list" where
  "parse_type_list text =
     (let t = py_strip text;
          u = (if starts_with t ''('' \<and> ends_with t '')'' then inner t else t)
      in if u = [] then [] else map py_strip (split_comma u))"

definition split_qualified :: "string \<Rightarrow> string \<times> string" where
  "split_qualified q = (case find_str q ''.'' of None \<Rightarrow> (''sf'', q) | Some i \<Rightarrow> (take i q, drop (Suc i) q))"


section \<open>Operations\<close>

text \<open>The attribute block, when a brace follows the operands.\<close>

definition attr_block :: "(string \<Rightarrow> json option) \<Rightarrow> string \<Rightarrow> nat \<Rightarrow> (string, json) dict res" where
  "attr_block py_float rest paren_close =
     (case find_from rest ''{'' paren_close of
        None \<Rightarrow> Inr []
      | Some brace_open \<Rightarrow>
          res_bind (res_of_option ValueError (find_from rest ''}'' brace_open)) (\<lambda>brace_close.
          Inr (parse_attrs py_float (drop (Suc brace_open) (take brace_close rest)))))"

definition signature :: "string \<Rightarrow> string list \<times> string list" where
  "signature rest =
     (let colon = py_rfind rest CHR '':''
      in if colon < 0 then ([], [])
         else let type_part = py_strip (py_from rest (colon + 1)); arrow = py_find type_part ''->''
              in if arrow < 0 then ([], [type_part])
                 else let ins = py_strip (py_slice type_part 0 arrow);
                          in_types = (if starts_with ins ''('' \<and> ends_with ins '')'' then parse_type_list (inner ins)
                                      else if ins \<noteq> [] then [ins] else [])
                      in (filter (\<lambda>t. t \<noteq> ''...'') in_types,
                          filter (\<lambda>t. t \<noteq> ''...'') (parse_type_list (py_strip (py_from type_part (arrow + 2))))))"

definition resolve_operand :: "(string, json) dict \<Rightarrow> string \<Rightarrow> string res" where
  "resolve_operand ssa_to_name operand =
     (case map_of ssa_to_name (ssa_key operand) of
        None \<Rightarrow> Inr (ssa_key operand) | Some (JStr w) \<Rightarrow> Inr w | Some _ \<Rightarrow> Inl TypeError)"

definition parse_mlir_op :: "(string \<Rightarrow> json option) \<Rightarrow> string \<Rightarrow> (string, json) dict \<Rightarrow> (mlir_op \<times> (string, json) dict) res" where
  "parse_mlir_op py_float line ssa_to_name =
     res_bind (res_of_option ValueError (find_str line ''='')) (\<lambda>eq_idx.
     let results = map (\<lambda>r. ssa_key (py_strip r)) (split_on CHR '','' (py_strip (take eq_idx line)));
         rest = py_strip (drop (Suc eq_idx) line)
     in res_bind (res_of_option ValueError (find_str rest ''\"'')) (\<lambda>quote_start.
     res_bind (res_of_option ValueError (find_from rest ''\"'' (Suc quote_start))) (\<lambda>quote_end.
     let qualified = drop (Suc quote_start) (take quote_end rest)
     in res_bind (res_of_option ValueError (find_from rest ''('' quote_end)) (\<lambda>paren_open.
     res_bind (res_of_option ValueError (find_from rest '')'' paren_open)) (\<lambda>paren_close.
     let operands = filter (\<lambda>o'. o' \<noteq> []) (map py_strip (split_on CHR '','' (drop (Suc paren_open) (take paren_close rest))))
     in res_bind (attr_block py_float rest paren_close) (\<lambda>attrs.
     let names = (case map_of attrs ''name'' of
                    Some w \<Rightarrow> if qualified = ''sf.weight'' then AList.update (hd results) w ssa_to_name else ssa_to_name
                  | None \<Rightarrow> ssa_to_name)
     in res_bind (res_mapM (resolve_operand names) operands) (\<lambda>resolved.
     case (split_qualified qualified, signature rest) of ((dialect, op_name), (in_types, out_types)) \<Rightarrow>
       Inr (\<lparr>mo_name = qualified, mo_dialect = dialect, mo_op_name = op_name, mo_operands = resolved, mo_results = results,
             mo_attributes = attrs, mo_input_types = in_types, mo_output_types = out_types\<rparr>, names))))))))"


section \<open>Functions and modules\<close>

record parse_state =
  ps_functions :: "mlir_function list"
  ps_chain_order :: "string list"
  ps_exec_plan :: "int list"
  ps_current :: "mlir_function option"
  ps_names :: "(string, json) dict"

text \<open>The group of \<open>key\<s>*=\<s>*\[(.*?)\]\<close>, searched from the left.\<close>

definition bracket_here :: "string \<Rightarrow> string \<Rightarrow> string option" where
  "bracket_here key s =
     (if \<not> starts_with s key then None
      else case dropWhile is_blank (drop (length key) s) of
             [] \<Rightarrow> None
           | c # r \<Rightarrow> (case dropWhile is_blank r of
                          [] \<Rightarrow> None
                        | d # t \<Rightarrow> if c = CHR ''='' \<and> d = CHR ''['' \<and> CHR '']'' \<in> set t then Some (takeWhile (\<lambda>c. c \<noteq> CHR '']'') t) else None))"

fun bracket_list :: "string \<Rightarrow> string \<Rightarrow> string option" where
  "bracket_list key [] = None"
| "bracket_list key (c # cs) = (case bracket_here key (c # cs) of Some g \<Rightarrow> Some g | None \<Rightarrow> bracket_list key cs)"

definition module_attributes :: "string \<Rightarrow> parse_state \<Rightarrow> parse_state res" where
  "module_attributes stripped st =
     (let blk = py_strip (butlast (drop (length ''module attributes '') stripped))
      in if \<not> (starts_with blk ''{'' \<and> ends_with blk ''}'') then Inr st
         else let st1 = (case bracket_list ''sf.chain_order'' blk of
                           None \<Rightarrow> st
                         | Some g \<Rightarrow> st\<lparr>ps_chain_order := map (\<lambda>n. strip_chars ''\"'' (py_strip n)) (split_comma g)\<rparr>)
              in case bracket_list ''sf.exec_plan_data'' blk of
                   None \<Rightarrow> Inr st1
                 | Some g \<Rightarrow> res_bind (res_mapM (\<lambda>n. int_of_string (py_strip n)) (filter (\<lambda>n. py_strip n \<noteq> []) (split_comma g)))
                              (\<lambda>ns. Inr (st1\<lparr>ps_exec_plan := ns\<rparr>)))"

definition parse_input :: "string \<Rightarrow> (string \<times> string) option" where
  "parse_input arg = (let a = py_strip arg
     in map_option (\<lambda>i. (py_strip (take i a), py_strip (drop (Suc i) a))) (find_str a '':''))"

fun flag_value :: "json \<Rightarrow> bool" where
  "flag_value (JBool b) = b"
| "flag_value (JStr s) = (to_lower s = ''true'')"
| "flag_value _ = False"

text \<open>Return types, consumed flags and weight names of the part after the arrow.\<close>

definition parse_returns :: "py_format \<Rightarrow> (string \<Rightarrow> json option) \<Rightarrow> string \<Rightarrow> (string list \<times> bool list \<times> string list) res" where
  "parse_returns F py_float part =
     res_bind (case find_str part ''attributes {'' of
                 None \<Rightarrow> Inr (part, [], [])
               | Some start \<Rightarrow>
                   res_bind (res_of_option ValueError (find_from part ''}'' start)) (\<lambda>close.
                   let attrs = parse_attrs py_float (inner (drop (start + length ''attributes '') (take (Suc close) part)));
                       flags = (case map_of attrs ''sf.consumed_internally'' of Some (JList vs) \<Rightarrow> map flag_value vs | _ \<Rightarrow> []);
                       wnames = (case map_of attrs ''sf.weight_names'' of Some (JList vs) \<Rightarrow> map (py_str F) vs | _ \<Rightarrow> [])
                   in Inr (py_strip (take start part) @ '' '' @ py_strip (drop (Suc close) part), flags, wnames)))
       (\<lambda>(part, flags, wnames).
     let p = (if ends_with part ''{'' then py_strip (butlast part) else part);
         types = (if p = [] \<or> p = ''()'' then [] else map py_strip (split_comma (if starts_with p ''('' then inner p else p)))
     in Inr (types, flags, wnames))"

definition parse_func :: "py_format \<Rightarrow> (string \<Rightarrow> json option) \<Rightarrow> string \<Rightarrow> mlir_function res" where
  "parse_func F py_float stripped =
     (let rest = drop (length ''func.func @'') stripped;
          name_end = py_find rest ''('';
          inputs = List.map_filter parse_input (split_comma (py_slice rest (name_end + 1) (py_find rest '')'')));
          ret_start = py_find rest ''->''
      in res_bind (if ret_start > 0 then parse_returns F py_float (py_strip (py_from rest (ret_start + 2))) else Inr ([], [], []))
           (\<lambda>(types, flags, wnames).
           Inr \<lparr>mf_name = py_strip (py_slice rest 0 name_end), mf_inputs = inputs,
                mf_outputs = map (\<lambda>(i, tp). ([], tp, if i < length flags then flags ! i else False)) (enum_from 0 types),
                mf_ops = [], mf_weights = [], mf_param_weight_names = [], mf_const_weight_names = [],
                mf_weight_names = map JStr wnames\<rparr>))"

text \<open>More names than types: the third component of a missing output is asked for.\<close>

definition parse_return :: "string \<Rightarrow> mlir_function \<Rightarrow> mlir_function res" where
  "parse_return stripped f =
     (let content = py_strip (drop (length ''func.return'') stripped);
          content' = (if CHR '':'' \<in> set content then py_strip (py_slice content 0 (py_rfind content CHR '':'')) else content);
          names = map py_strip (filter (\<lambda>n. py_strip n \<noteq> []) (split_comma content'))
      in if mf_outputs f = [] \<or> names = [] then Inr f
         else if length names > length (mf_outputs f) then Inl IndexError
         else Inr (f\<lparr>mf_outputs := map (\<lambda>(n, (_, tp, c)). (n, tp, c)) (zip names (mf_outputs f))\<rparr>))"

definition parse_line :: "py_format \<Rightarrow> (string \<Rightarrow> json option) \<Rightarrow> parse_state \<Rightarrow> string \<Rightarrow> parse_state res" where
  "parse_line F py_float st line =
     (let s = py_strip line
      in if s = [] \<or> starts_with s ''//'' then Inr st
         else if s = ''module {'' then Inr st
         else if starts_with s ''module attributes {'' \<and> ends_with s ''{'' then module_attributes s st
         else if s = ''}''
         then Inr (case ps_current st of None \<Rightarrow> st | Some f \<Rightarrow> st\<lparr>ps_functions := ps_functions st @ [f], ps_current := None\<rparr>)
         else if starts_with s ''func.func @''
         then res_bind (parse_func F py_float s) (\<lambda>f. Inr (st\<lparr>ps_current := Some f, ps_names := []\<rparr>))
         else if starts_with s ''func.return''
         then (case ps_current st of None \<Rightarrow> Inr st
               | Some f \<Rightarrow> res_bind (parse_return s f) (\<lambda>f'. Inr (st\<lparr>ps_current := Some f'\<rparr>)))
         else if s = ''{'' then Inr st
         else if CHR ''='' \<in> set s \<and> CHR ''\"'' \<in> set s
         then (case ps_current st of None \<Rightarrow> Inr st
               | Some f \<Rightarrow> res_bind (parse_mlir_op py_float s (ps_names st)) (\<lambda>(op, names).
                             Inr (st\<lparr>ps_current := Some (f\<lparr>mf_ops := mf_ops f @ [op]\<rparr>), ps_names := names\<rparr>)))
         else Inr st)"

definition parse_mlir_text :: "py_format \<Rightarrow> (string \<Rightarrow> json option) \<Rightarrow> string \<Rightarrow> mlir_module res" where
  "parse_mlir_text F py_float text =
     res_bind (res_foldM (parse_line F py_float)
         \<lparr>ps_functions = [], ps_chain_order = [], ps_exec_plan = [], ps_current = None, ps_names = []\<rparr> (py_lines text)) (\<lambda>st.
     let functions = ps_functions st @ (case ps_current st of None \<Rightarrow> [] | Some f \<Rightarrow> [f])
     in if list_ex (\<lambda>f. mf_outputs f \<noteq> [] \<and> list_all (\<lambda>(n, _, _). n = []) (mf_outputs f)) functions then Inl ValueError
        else Inr \<lparr>mm_functions = functions, mm_metadata = [], mm_chain_order = ps_chain_order st, mm_exec_plan_data = ps_exec_plan st\<rparr>)"

end
