(* ===== verification/Text_Scan.thy ===== *)
theory Text_Scan
  imports Mlir_Text
begin

text \<open>
  Searching, stripping and splitting of printed text: where \<open>find\<close> and \<open>rfind\<close> stop in a
  concatenation, what \<open>strip\<close> leaves, and how the two splitters of the parser take a joined list
  apart again.
\<close>


section \<open>Searching\<close>

lemma starts_with_append [simp]: "starts_with (p @ s) p"
  by (induction p) auto

lemma starts_with_hd: "p \<noteq> [] \<Longrightarrow> s \<noteq> [] \<Longrightarrow> hd s \<noteq> hd p \<Longrightarrow> \<not> starts_with s p"
  by (cases p; cases s) auto

lemma starts_with_Cons: "p \<noteq> [] \<Longrightarrow> hd p \<noteq> c \<Longrightarrow> \<not> starts_with (c # s) p"
  by (cases p) auto

lemma starts_with_Nil [simp]: "starts_with [] p \<longleftrightarrow> p = []"
  by (cases p) auto

lemma find_str_skip: "p \<noteq> [] \<Longrightarrow> hd p \<notin> set a \<Longrightarrow> starts_with b p \<Longrightarrow> b \<noteq> [] \<Longrightarrow> find_str (a @ b) p = Some (length a)"
proof (induction a)
  case Nil
  then show ?case by (cases b) auto
next
  case (Cons c a)
  then have "\<not> starts_with (c # a @ b) p" by (intro starts_with_Cons) auto
  then show ?case using Cons by simp
qed

lemma find_str_none: "p \<noteq> [] \<Longrightarrow> hd p \<notin> set s \<Longrightarrow> find_str s p = None"
proof (induction s)
  case (Cons c s)
  then have "\<not> starts_with (c # s) p" by (intro starts_with_Cons) auto
  then show ?case using Cons by simp
qed simp

lemma find_char: "c \<notin> set a \<Longrightarrow> find_str (a @ c # b) [c] = Some (length a)"
  by (rule find_str_skip) auto

text \<open>A pattern whose last character occurs first at the end of the pattern.\<close>

lemma starts_with_take: "starts_with s p \<Longrightarrow> take (length p) s = p"
  by (simp add: starts_with_iff)

lemma find_str_last:
  assumes "d \<notin> set a" "d \<notin> set p"
  shows "find_str (a @ p @ d # b) (p @ [d]) = Some (length a)"
  using assms(1)
proof (induction a)
  case Nil
  have "starts_with ((p @ [d]) @ b) (p @ [d])" by (rule starts_with_append)
  then show ?case by (cases "p @ d # b") auto
next
  case (Cons c a)
  have "\<not> starts_with (c # a @ p @ d # b) (p @ [d])"
  proof
    assume "starts_with (c # a @ p @ d # b) (p @ [d])"
    then have t: "take (Suc (length p)) (c # a @ p @ d # b) = p @ [d]" using starts_with_take by fastforce
    have "length p < length (c # a @ p)" by simp
    moreover have "(c # a @ p @ d # b) ! length p = take (Suc (length p)) (c # a @ p @ d # b) ! length p" by (rule nth_take[symmetric]) simp
    then have dd: "(c # a @ p @ d # b) ! length p = d" unfolding t by simp
    moreover have "(c # a @ p @ d # b) ! length p = (c # a @ p) ! length p" using nth_append[of "c # a @ p" "d # b" "length p"] by simp
    ultimately have "d \<in> set (c # a @ p)" using dd by (metis nth_mem)
    then show False using Cons.prems assms(2) by auto
  qed
  then show ?case using Cons by simp
qed

lemma find_from_at: "find_str b p = Some n \<Longrightarrow> find_from (a @ b) p (length a) = Some (length a + n)"
  by (simp add: find_from_def)

lemma find_from_char: "k = length a \<Longrightarrow> c \<notin> set b \<Longrightarrow> find_from (a @ b @ c # d) [c] k = Some (length a + length b)"
  by (simp add: find_from_def find_char)

lemma find_from_none: "k = length a \<Longrightarrow> c \<notin> set b \<Longrightarrow> find_from (a @ b) [c] k = None"
  by (simp add: find_from_def find_str_none)

lemma py_rfind_char: "c \<notin> set b \<Longrightarrow> py_rfind (a @ c # b) c = int (length a)"
  using find_char[of c "rev b" "rev a"] by (simp add: py_rfind_def)

lemma py_rfind_none: "c \<notin> set s \<Longrightarrow> py_rfind s c = -1"
  using find_str_none[of "[c]" "rev s"] by (simp add: py_rfind_def)

lemma py_find_skip: "p \<noteq> [] \<Longrightarrow> hd p \<notin> set a \<Longrightarrow> starts_with b p \<Longrightarrow> b \<noteq> [] \<Longrightarrow> py_find (a @ b) p = int (length a)"
  using find_str_skip by (simp add: py_find_def)

lemma slice_pos_nat [simp]: "slice_pos n (int k) = min k n"
  by (simp add: slice_pos_def)

lemma py_from_nat: "py_from s (int k) = drop k s"
  by (cases "k \<le> length s") (simp_all add: py_from_def)

lemma py_slice_nat: "py_slice s (int i) (int j) = drop i (take j s)"
  by (cases "i \<le> length s"; cases "j \<le> length s") (simp_all add: py_slice_def)

lemma contains_none: "p \<noteq> [] \<Longrightarrow> hd p \<notin> set s \<Longrightarrow> \<not> contains_str s p"
proof (induction s)
  case (Cons c s)
  then have "\<not> starts_with (c # s) p" by (intro starts_with_Cons) auto
  then show ?case using Cons by simp
qed simp


section \<open>Stripping\<close>

definition trimmed :: "string \<Rightarrow> bool" where
  "trimmed s \<longleftrightarrow> s \<noteq> [] \<and> \<not> is_blank (hd s) \<and> \<not> is_blank (last s)"

lemma dropWhile_pad: "list_all P a \<Longrightarrow> dropWhile P (a @ b) = dropWhile P b"
  by (induction a) auto

lemma py_strip_pad:
  assumes "list_all is_blank a" "list_all is_blank b" "trimmed s"
  shows "py_strip (a @ s @ b) = s"
proof -
  have l: "dropWhile is_blank (s @ b) = s @ b" using assms(3) by (cases s) (auto simp: trimmed_def)
  obtain t x where s: "s = t @ [x]" using assms(3) by (cases s rule: rev_cases) (auto simp: trimmed_def)
  have "list_all is_blank (rev b)" using assms(2) by (simp add: list_all_iff)
  then have "dropWhile is_blank (rev b @ rev s) = rev s" using assms(3) s by (simp add: dropWhile_pad trimmed_def)
  then show ?thesis using l by (simp add: py_strip_def dropWhile_pad[OF assms(1)])
qed

lemma py_strip_trimmed: "trimmed s \<Longrightarrow> py_strip s = s"
  using py_strip_pad[of "[]" "[]" s] by simp

lemma trimmed_append: "trimmed a \<Longrightarrow> trimmed b \<Longrightarrow> trimmed (a @ m @ b)"
  by (simp add: trimmed_def)

lemma trimmed_ends: "s = c # t \<Longrightarrow> \<not> is_blank c \<Longrightarrow> \<not> is_blank (last s) \<Longrightarrow> trimmed s"
  by (simp add: trimmed_def)

lemma py_strip_Nil [simp]: "py_strip [] = []"
  by (simp add: py_strip_def)

lemma blank_space [simp]: "is_blank CHR '' ''"
  by (simp add: is_blank_def)


section \<open>Splitting at commas\<close>

definition bracket_count :: "string \<Rightarrow> int" where
  "bracket_count s = int (length (filter (\<lambda>c. c \<in> set ''<('') s)) - int (length (filter (\<lambda>c. c \<in> set ''>)'') s))"

definition item_ok :: "string \<Rightarrow> bool" where
  "item_ok p \<longleftrightarrow> trimmed p \<and> CHR '','' \<notin> set p \<and> bracket_count p = 0"

lemma split_comma_skip: "CHR '','' \<notin> set p \<Longrightarrow> split_comma_from d cur (p @ rest) = split_comma_from (d + bracket_count p) (cur @ p) rest"
proof (induction p arbitrary: d cur)
  case (Cons c p)
  have "c \<noteq> CHR '',''" using Cons.prems by auto
  then show ?case using Cons.IH[of _ "cur @ [c]"] Cons.prems by (auto simp: bracket_count_def Let_def algebra_simps)
qed (simp add: bracket_count_def)

lemma split_comma_items:
  "\<forall>p \<in> set ps. item_ok p \<Longrightarrow> ps \<noteq> [] \<Longrightarrow> list_all is_blank cur \<Longrightarrow> split_comma_from 0 cur (comma_list ps) = ps"
proof (induction ps arbitrary: cur)
  case (Cons p ps)
  have p: "trimmed p" "CHR '','' \<notin> set p" "bracket_count p = 0" using Cons.prems(1) by (auto simp: item_ok_def)
  have st: "py_strip (cur @ p) = p" using py_strip_pad[OF Cons.prems(3) _ p(1), of "[]"] by simp
  show ?case
  proof (cases ps)
    case Nil
    have "p \<noteq> []" using p(1) by (simp add: trimmed_def)
    then show ?thesis using split_comma_skip[OF p(2), of 0 cur "[]"] p(3) st Nil by (simp add: comma_list_def)
  next
    case (Cons p' ps')
    have "split_comma_from 0 cur (comma_list (p # ps)) = split_comma_from 0 (cur @ p) (CHR '','' # CHR '' '' # comma_list ps)"
      using split_comma_skip[OF p(2), of 0 cur "CHR '','' # CHR '' '' # comma_list ps"] p(3) Cons by (simp add: comma_list_def)
    also have "\<dots> = p # split_comma_from 0 '' '' (comma_list ps)" using st by (simp add: Let_def)
    also have "\<dots> = p # ps" using Cons.IH[of "'' ''"] Cons.prems(1) Cons by simp
    finally show ?thesis .
  qed
qed simp

lemma split_comma_list: "\<forall>p \<in> set ps. item_ok p \<Longrightarrow> split_comma (comma_list ps) = ps"
  using split_comma_items[of ps "[]"] by (cases "ps = []") (simp_all add: split_comma_def comma_list_def)

lemma map_strip_items: "\<forall>p \<in> set ps. item_ok p \<Longrightarrow> map py_strip ps = ps"
  by (induction ps) (auto simp: item_ok_def py_strip_trimmed)


section \<open>Splitting attributes\<close>

text \<open>Depth and quoting after a text that has no separator at depth 0 outside quotes.\<close>

fun attr_scan :: "int \<Rightarrow> bool \<Rightarrow> string \<Rightarrow> (int \<times> bool) option" where
  "attr_scan depth in_quote [] = Some (depth, in_quote)"
| "attr_scan depth in_quote (c # cs) =
     (let q = (if c = CHR ''\"'' then \<not> in_quote else in_quote);
          d = (if q then depth else if c \<in> set ''[{('' then depth + 1 else if c \<in> set '']})'' then depth - 1 else depth)
      in if (c = CHR '','' \<or> c = CHR '';'') \<and> d = 0 \<and> \<not> q then None else attr_scan d q cs)"

lemma split_attrs_scan:
  "attr_scan d q p = Some (d', q') \<Longrightarrow> split_attrs_from d q cur (p @ rest) = split_attrs_from d' q' (cur @ p) rest"
proof (induction p arbitrary: d q cur)
  case (Cons c p)
  then show ?case using Cons.IH[of _ _ "cur @ [c]"] by (auto simp: Let_def split: if_splits)
qed simp

lemma attr_scan_append: "attr_scan d q a = Some (d', q') \<Longrightarrow> attr_scan d q (a @ b) = attr_scan d' q' b"
proof (induction d q a rule: attr_scan.induct)
  case (2 d q c cs)
  then show ?case by (auto simp: Let_def split: if_splits)
qed simp

definition neutral :: "char \<Rightarrow> bool" where
  "neutral c \<longleftrightarrow> c \<notin> set ''\"[{(]}),;''"

lemma attr_scan_neutral: "list_all neutral s \<Longrightarrow> attr_scan d False s = Some (d, False)"
  by (induction s) (auto simp: neutral_def Let_def)

lemma attr_scan_quoted: "CHR ''\"'' \<notin> set s \<Longrightarrow> attr_scan d False (quoted s @ t) = attr_scan d False t"
proof -
  assume s: "CHR ''\"'' \<notin> set s"
  have "attr_scan d True s = Some (d, True)" using s by (induction s) (auto simp: Let_def)
  then show ?thesis by (simp add: quoted_def Let_def attr_scan_append)
qed

definition part_ok :: "string \<Rightarrow> bool" where
  "part_ok p \<longleftrightarrow> trimmed p \<and> attr_scan 0 False p = Some (0, False)"

lemma split_attrs_items:
  "\<forall>p \<in> set ps. part_ok p \<Longrightarrow> ps \<noteq> [] \<Longrightarrow> list_all is_blank cur \<Longrightarrow> sep = CHR '','' \<or> sep = CHR '';'' \<Longrightarrow>
     split_attrs_from 0 False cur (join_with [sep, CHR '' ''] ps) = ps"
proof (induction ps arbitrary: cur)
  case (Cons p ps)
  have p: "trimmed p" "attr_scan 0 False p = Some (0, False)" using Cons.prems(1) by (auto simp: part_ok_def)
  have st: "py_strip (cur @ p) = p" using py_strip_pad[OF Cons.prems(3) _ p(1), of "[]"] by simp
  show ?case
  proof (cases ps)
    case Nil
    have "p \<noteq> []" using p(1) by (simp add: trimmed_def)
    then show ?thesis using split_attrs_scan[OF p(2), of cur "[]"] st Nil by simp
  next
    case (Cons p' ps')
    have "split_attrs_from 0 False cur (join_with [sep, CHR '' ''] (p # ps)) = split_attrs_from 0 False (cur @ p) (sep # CHR '' '' # join_with [sep, CHR '' ''] ps)"
      using split_attrs_scan[OF p(2), of cur "sep # CHR '' '' # join_with [sep, CHR '' ''] ps"] Cons by simp
    also have "\<dots> = p # split_attrs_from 0 False '' '' (join_with [sep, CHR '' ''] ps)" using st Cons.prems(4) by (auto simp: Let_def)
    also have "\<dots> = p # ps" using Cons.IH[of "'' ''"] Cons.prems(1,4) Cons by simp
    finally show ?thesis .
  qed
qed simp

lemma split_attrs_list:
  "\<forall>p \<in> set ps. part_ok p \<Longrightarrow> ps \<noteq> [] \<Longrightarrow> sep = CHR '','' \<or> sep = CHR '';'' \<Longrightarrow> split_attrs (join_with [sep, CHR '' ''] ps) = ps"
  by (simp add: split_attrs_def split_attrs_items)


section \<open>Lines\<close>

lemma lines_skip: "list_all (\<lambda>c. \<not> is_break c) p \<Longrightarrow> lines_from cur (p @ rest) = lines_from (cur @ p) rest"
  by (induction p arbitrary: cur) auto

lemma py_lines_join:
  "\<forall>l \<in> set ls. list_all (\<lambda>c. \<not> is_break c) l \<Longrightarrow> ls \<noteq> [] \<Longrightarrow> py_lines (join_with [CHR 10] ls @ [CHR 10]) = ls"
proof (induction ls)
  case (Cons l ls)
  have nl: "is_break CHR 10" by (simp add: is_break_def)
  have l: "list_all (\<lambda>c. \<not> is_break c) l" using Cons.prems(1) by simp
  show ?case
  proof (cases ls)
    case Nil
    then show ?thesis using lines_skip[OF l, of "[]" "[CHR 10]"] nl by (simp add: py_lines_def)
  next
    case (Cons l' ls')
    have "py_lines (join_with [CHR 10] (l # ls) @ [CHR 10]) = lines_from l (CHR 10 # (join_with [CHR 10] ls @ [CHR 10]))"
      using lines_skip[OF l, of "[]" "CHR 10 # (join_with [CHR 10] ls @ [CHR 10])"] Cons by (simp add: py_lines_def)
    also have "\<dots> = l # ls" using Cons.IH Cons.prems(1) Cons nl by (simp add: py_lines_def)
    finally show ?thesis .
  qed
qed simp

end
