(* ===== verification/Text_Roundtrip.thy ===== *)
theory Text_Roundtrip
  imports Text_Scan
begin

text \<open>
  The parser of module text reads back what the serializer prints.  The first section says which
  names, types and attribute values survive; the others follow the text from characters to
  attributes, operations, functions and modules.
\<close>


section \<open>Modules that survive\<close>

text \<open>Characters of names; types may also have angle brackets.\<close>

definition plain :: "char \<Rightarrow> bool" where
  "plain c \<longleftrightarrow> \<not> is_blank c \<and> c \<notin> set ''\"%(){}[]<>,;:=-''"

definition word :: "string \<Rightarrow> bool" where
  "word s \<longleftrightarrow> s \<noteq> [] \<and> list_all plain s"

definition ssa_ok :: "string \<Rightarrow> bool" where
  "ssa_ok n \<longleftrightarrow> word (ssa_key n)"

definition type_ok :: "string \<Rightarrow> bool" where
  "type_ok t \<longleftrightarrow> t \<noteq> [] \<and> list_all (\<lambda>c. plain c \<or> c = CHR ''<'' \<or> c = CHR ''>'') t \<and> bracket_count t = 0 \<and> t \<noteq> ''...''
     \<and> \<not> ends_with t ''attributes''"

definition str_ok :: "string \<Rightarrow> bool" where
  "str_ok s \<longleftrightarrow> list_all (\<lambda>c. c \<noteq> CHR ''\"'' \<and> c \<noteq> CHR ''}'' \<and> \<not> is_break c) s \<and> \<not> contains_str s '' : ''"

definition num_char :: "char \<Rightarrow> bool" where
  "num_char c \<longleftrightarrow> is_digit c \<or> c \<in> set ''+-.e''"

text \<open>\<open>float(repr(r))\<close> is \<open>r\<close> and \<open>repr(r)\<close> is no integer literal.\<close>

definition float_ok :: "py_format \<Rightarrow> (string \<Rightarrow> json option) \<Rightarrow> rat \<Rightarrow> bool" where
  "float_ok F py_float r \<longleftrightarrow> repr_float F r \<noteq> [] \<and> list_all num_char (repr_float F r)
     \<and> (case int_of_string (repr_float F r) of Inl _ \<Rightarrow> True | Inr _ \<Rightarrow> False) \<and> py_float (repr_float F r) = Some (JFloat r)"

fun item_value_ok :: "json \<Rightarrow> bool" where
  "item_value_ok (JStr s) = word s"
| "item_value_ok (JInt i) = True"
| "item_value_ok _ = False"

fun value_ok :: "py_format \<Rightarrow> (string \<Rightarrow> json option) \<Rightarrow> json \<Rightarrow> bool" where
  "value_ok F fl (JStr s) = str_ok s"
| "value_ok F fl (JFloat r) = float_ok F fl r"
| "value_ok F fl (JList vs) = list_all item_value_ok vs"
| "value_ok F fl (JDict d) = False"
| "value_ok F fl (JObj d) = False"
| "value_ok F fl _ = True"

definition weight_op_ok :: "mlir_op \<Rightarrow> bool" where
  "weight_op_ok op \<longleftrightarrow> mo_name op = ''sf.weight'' \<and> mo_results op \<noteq> [] \<and> ssa_ok (hd (mo_results op)) \<and> list_all type_ok (mo_output_types op)
     \<and> (\<exists>w. map_of (mo_attributes op) ''name'' = Some (JStr w) \<and> word w)"

definition plain_op_ok :: "py_format \<Rightarrow> (string \<Rightarrow> json option) \<Rightarrow> mlir_op \<Rightarrow> bool" where
  "plain_op_ok F fl op \<longleftrightarrow> word (mo_name op) \<and> split_qualified (mo_name op) = (mo_dialect op, mo_op_name op) \<and> mo_name op \<noteq> ''sf.weight''
     \<and> mo_results op \<noteq> [] \<and> list_all ssa_ok (mo_results op) \<and> list_all ssa_ok (mo_operands op)
     \<and> list_all type_ok (mo_input_types op) \<and> mo_output_types op \<noteq> [] \<and> list_all type_ok (mo_output_types op)
     \<and> distinct (map fst (mo_attributes op)) \<and> list_all (\<lambda>(k, v). k \<noteq> ''source_node'' \<longrightarrow> word k \<and> value_ok F fl v) (mo_attributes op)"

definition op_ok :: "py_format \<Rightarrow> (string \<Rightarrow> json option) \<Rightarrow> mlir_op \<Rightarrow> bool" where
  "op_ok F fl op \<longleftrightarrow> (if mo_op_name op = ''weight'' then weight_op_ok op else plain_op_ok F fl op)"

definition func_ok :: "py_format \<Rightarrow> (string \<Rightarrow> json option) \<Rightarrow> mlir_function \<Rightarrow> bool" where
  "func_ok F fl f \<longleftrightarrow> word (mf_name f) \<and> list_all (\<lambda>(n, t). ssa_ok n \<and> type_ok t) (mf_inputs f)
     \<and> list_all (\<lambda>(n, t, _). ssa_ok n \<and> type_ok t) (mf_outputs f) \<and> list_all (op_ok F fl) (mf_ops f)
     \<and> list_all (\<lambda>w. \<exists>s. w = JStr s \<and> word s) (mf_weight_names f)"

definition text_ok :: "py_format \<Rightarrow> (string \<Rightarrow> json option) \<Rightarrow> mlir_module \<Rightarrow> bool" where
  "text_ok F fl m \<longleftrightarrow> list_all (func_ok F fl) (mm_functions m) \<and> list_all word (mm_chain_order m)"

text \<open>
  What is read back: values without their percent sign, operands that are weights replaced by the
  name of the weight, the attribute \<open>source_node\<close> and everything that is kept elsewhere gone.
\<close>

definition operand_name :: "(string, string) dict \<Rightarrow> string \<Rightarrow> string" where
  "operand_name ws o' = dict_get ws (ssa_key o') (ssa_key o')"

definition op_weights :: "(string, string) dict \<Rightarrow> mlir_op \<Rightarrow> (string, string) dict" where
  "op_weights ws op =
     (if mo_op_name op = ''weight''
      then (case map_of (mo_attributes op) ''name'' of Some (JStr w) \<Rightarrow> AList.update (ssa_key (hd (mo_results op))) w ws | _ \<Rightarrow> ws) else ws)"

definition reread_op :: "(string, string) dict \<Rightarrow> mlir_op \<Rightarrow> mlir_op" where
  "reread_op ws op =
     (if mo_op_name op = ''weight''
      then op\<lparr>mo_dialect := ''sf'', mo_operands := [], mo_results := [ssa_key (hd (mo_results op))],
             mo_attributes := [(''name'', the (map_of (mo_attributes op) ''name''))], mo_input_types := [],
             mo_output_types := [case mo_output_types op of [] \<Rightarrow> ''tensor<f32>'' | t # _ \<Rightarrow> t]\<rparr>
      else op\<lparr>mo_operands := map (operand_name ws) (mo_operands op), mo_results := map ssa_key (mo_results op),
             mo_attributes := filter (\<lambda>(k, _). k \<noteq> ''source_node'') (mo_attributes op)\<rparr>)"

fun reread_ops :: "(string, string) dict \<Rightarrow> mlir_op list \<Rightarrow> mlir_op list" where
  "reread_ops ws [] = []"
| "reread_ops ws (op # ops) = reread_op ws op # reread_ops (op_weights ws op) ops"

definition reread_function :: "mlir_function \<Rightarrow> mlir_function" where
  "reread_function f = \<lparr>mf_name = mf_name f, mf_inputs = map (\<lambda>(n, t). (ssa_format n, t)) (mf_inputs f),
     mf_outputs = map (\<lambda>(n, t, c). (ssa_format n, t, c)) (mf_outputs f), mf_ops = reread_ops [] (mf_ops f), mf_weights = [],
     mf_param_weight_names = [], mf_const_weight_names = [], mf_weight_names = mf_weight_names f\<rparr>"

definition reread :: "mlir_module \<Rightarrow> mlir_module" where
  "reread m = \<lparr>mm_functions = map reread_function (mm_functions m), mm_metadata = [], mm_chain_order = mm_chain_order m,
     mm_exec_plan_data = []\<rparr>"


section \<open>Characters\<close>

lemma plain_not [simp]:
  "\<not> plain CHR ''\"''" "\<not> plain CHR ''%''" "\<not> plain CHR ''(''" "\<not> plain CHR '')''" "\<not> plain CHR ''{''" "\<not> plain CHR ''}''"
  "\<not> plain CHR ''[''" "\<not> plain CHR '']''" "\<not> plain CHR ''<''" "\<not> plain CHR ''>''" "\<not> plain CHR '',''" "\<not> plain CHR '';''"
  "\<not> plain CHR '':''" "\<not> plain CHR ''=''" "\<not> plain CHR ''-''" "\<not> plain CHR '' ''"
  by (simp_all add: plain_def)

lemma break_blank: "is_break c \<Longrightarrow> is_blank c"
  by (auto simp: is_break_def is_blank_def)

lemma plain_blank: "plain c \<Longrightarrow> \<not> is_blank c"
  by (simp add: plain_def)

lemma digit_plain: "is_digit c \<Longrightarrow> plain c"
  by (auto simp: is_digit_def plain_def is_blank_def)

lemma num_char_plain: "num_char c \<Longrightarrow> plain c \<or> c = CHR ''-''"
  by (auto simp: num_char_def digit_plain) (simp_all add: plain_def is_blank_def)

lemma not_in_plain: "list_all plain s \<Longrightarrow> \<not> plain c \<Longrightarrow> c \<notin> set s"
  by (auto simp: list_all_iff)

lemma word_chars: "word s \<Longrightarrow> \<not> plain c \<Longrightarrow> c \<notin> set s"
  by (auto simp: word_def list_all_iff)

lemma word_trimmed: "word s \<Longrightarrow> trimmed s"
  by (auto simp: word_def trimmed_def list_all_iff dest: plain_blank)

lemma count_none: "\<forall>c \<in> set s. c \<notin> set ''<(>)'' \<Longrightarrow> bracket_count s = 0"
  by (auto simp: bracket_count_def filter_False)

lemma word_item: "word s \<Longrightarrow> item_ok s"
  using word_chars[of s] by (auto simp: item_ok_def word_trimmed intro!: count_none)

lemma word_neutral: "word s \<Longrightarrow> list_all neutral s"
  by (auto simp: word_def list_all_iff neutral_def plain_def)

lemma type_chars: "type_ok t \<Longrightarrow> \<not> plain c \<Longrightarrow> c \<noteq> CHR ''<'' \<Longrightarrow> c \<noteq> CHR ''>'' \<Longrightarrow> c \<notin> set t"
  by (auto simp: type_ok_def list_all_iff)

lemma type_trimmed: "type_ok t \<Longrightarrow> trimmed t"
proof -
  assume t: "type_ok t"
  then have "hd t \<in> set t" "last t \<in> set t" by (auto simp: type_ok_def)
  then have "(plain (hd t) \<or> hd t = CHR ''<'' \<or> hd t = CHR ''>'') \<and> (plain (last t) \<or> last t = CHR ''<'' \<or> last t = CHR ''>'')"
    using t by (auto simp: type_ok_def list_all_iff)
  moreover have "\<not> is_blank CHR ''<''" "\<not> is_blank CHR ''>''" by (simp_all add: is_blank_def)
  ultimately show "trimmed t" using t by (auto simp: trimmed_def type_ok_def dest: plain_blank)
qed

lemma type_item: "type_ok t \<Longrightarrow> item_ok t"
  using type_chars[of t "CHR '',''"] by (auto simp: item_ok_def type_trimmed) (simp add: type_ok_def)

text \<open>Printed values.\<close>

lemma ssa_format_chars: "ssa_ok n \<Longrightarrow> \<not> plain c \<Longrightarrow> c \<noteq> CHR ''%'' \<Longrightarrow> c \<notin> set (ssa_format n)"
proof -
  assume n: "ssa_ok n" and c: "\<not> plain c" "c \<noteq> CHR ''%''"
  have "c \<notin> set (ssa_key n)" using n c by (simp add: ssa_ok_def word_chars)
  then have "c \<notin> set n" using c(2) unfolding ssa_key_def by (induction n) (auto split: if_splits)
  then show ?thesis using c(2) by (auto simp: ssa_format_def)
qed

lemma ssa_format_hd: "ssa_ok n \<Longrightarrow> \<exists>t. ssa_format n = CHR ''%'' # t"
  by (cases n) (auto simp: ssa_ok_def ssa_format_def word_def ssa_key_def starts_with_iff)

lemma ssa_format_last: "ssa_ok n \<Longrightarrow> plain (last (ssa_format n))"
proof -
  assume n: "ssa_ok n"
  have k: "ssa_key n \<noteq> []" "plain (last (ssa_key n))" using n by (auto simp: ssa_ok_def word_def list_all_iff)
  then have "n \<noteq> []" by (auto simp: ssa_key_def)
  moreover have "last (ssa_key n) = last n" using k(1) unfolding ssa_key_def by (induction n) (auto split: if_splits)
  ultimately show ?thesis using k(2) by (simp add: ssa_format_def)
qed

lemma ssa_format_trimmed: "ssa_ok n \<Longrightarrow> trimmed (ssa_format n)"
  using ssa_format_hd[of n] ssa_format_last[of n] by (auto simp: trimmed_def dest: plain_blank) (simp add: is_blank_def)

lemma ssa_format_item: "ssa_ok n \<Longrightarrow> item_ok (ssa_format n)"
  using ssa_format_chars[of n] by (auto simp: item_ok_def ssa_format_trimmed intro!: count_none)


section \<open>Attribute values\<close>

lemma int_of_string_int: "int_of_string (string_of_int i) = Inr i"
proof (cases "i < 0")
  case True
  let ?d = "string_of_nat (nat (- i))"
  have dig: "list_all is_digit ?d" by (rule string_of_nat_digits)
  then have "is_digit (last ?d)" using string_of_nat_nonempty[of "nat (- i)"] by (auto simp: list_all_iff)
  then have "\<not> is_blank (last ?d)" by (simp add: digit_plain plain_blank)
  then have "trimmed (CHR ''-'' # ?d)" using string_of_nat_nonempty[of "nat (- i)"] by (simp add: trimmed_def is_blank_def)
  then have "py_strip (CHR ''-'' # ?d) = CHR ''-'' # ?d" by (rule py_strip_trimmed)
  then show ?thesis using True int_digits_string_of_nat[of "nat (- i)"] by (simp add: string_of_int_def int_of_string_def)
next
  case False
  then show ?thesis using int_of_string_nat[of "nat i"] by (simp add: string_of_int_def)
qed

lemma string_of_int_num: "list_all num_char (string_of_int i)" "string_of_int i \<noteq> []"
  using string_of_nat_digits string_of_nat_nonempty by (auto simp: string_of_int_def list_all_iff num_char_def)


lemma num_not: "list_all num_char s \<Longrightarrow> \<not> num_char c \<Longrightarrow> c \<notin> set s"
  by (auto simp: list_all_iff)

lemma not_num [simp]: "\<not> num_char CHR '' ''" "\<not> num_char CHR ''\"''" "\<not> num_char CHR ''[''" "\<not> num_char CHR ''t''" "\<not> num_char CHR ''f''"
  "\<not> num_char CHR ''n''" "\<not> num_char CHR ''}''" "\<not> num_char CHR '':''" "\<not> num_char CHR '',''" "\<not> num_char CHR ''<''"
  "\<not> num_char CHR ''>''" "\<not> num_char CHR ''(''" "\<not> num_char CHR '')''"
  by (simp_all add: num_char_def is_digit_def)

lemma num_blank: "num_char c \<Longrightarrow> \<not> is_blank c"
  using num_char_plain[of c] plain_blank[of c] by (auto simp: is_blank_def)

lemma num_hd: "list_all num_char s \<Longrightarrow> s \<noteq> [] \<Longrightarrow> num_char (hd s) \<and> num_char (last s)"
  by (auto simp: list_all_iff)

lemma num_trimmed: "list_all num_char s \<Longrightarrow> s \<noteq> [] \<Longrightarrow> trimmed s"
  using num_hd num_blank by (auto simp: trimmed_def)

lemma starts_with_single: "starts_with s [c] \<longleftrightarrow> s \<noteq> [] \<and> hd s = c"
  by (cases s) auto

lemma ends_with_single: "ends_with s [c] \<longleftrightarrow> s \<noteq> [] \<and> last s = c"
  by (cases s rule: rev_cases) (auto simp: ends_with_def starts_with_single)

lemma is_quoted_iff: "is_quoted v \<longleftrightarrow> v \<noteq> [] \<and> hd v = CHR ''\"'' \<and> last v = CHR ''\"''"
  by (auto simp: is_quoted_def starts_with_single ends_with_single)

lemma num_no_keyword: "num_char (hd v) \<Longrightarrow> v \<noteq> ''true'' \<and> v \<noteq> ''false'' \<and> v \<noteq> ''none'' \<and> \<not> (v \<noteq> [] \<and> hd v = CHR ''\"'') \<and> \<not> (v \<noteq> [] \<and> hd v = CHR ''['')"
  by auto

lemma before_type_num: "CHR '' '' \<notin> set s \<Longrightarrow> before_type (s @ '' : '' @ t) = s"
  using find_str_skip[of "'' : ''" s "'' : '' @ t"] by (simp add: before_type_def)

lemma before_type_none: "CHR '' '' \<notin> set s \<Longrightarrow> before_type s = s"
  by (simp add: before_type_def find_str_none)

lemma parse_number_int: "parse_number fl (string_of_int i) = JInt i"
  by (simp add: parse_number_def int_of_string_int)

lemma parse_number_float: "float_ok F fl r \<Longrightarrow> parse_number fl (repr_float F r) = JFloat r"
  by (auto simp: float_ok_def parse_number_def split: sum.splits)

lemma parse_value_number:
  assumes s: "list_all num_char s" "s \<noteq> []"
  shows "parse_value fl (s @ '' : '' @ t) = parse_number fl s"
proof -
  have h: "hd (s @ '' : '' @ t) = hd s" "num_char (hd s)" using s num_hd by auto
  then have q: "\<not> is_quoted (s @ '' : '' @ t)" "\<not> starts_with (s @ '' : '' @ t) ''[''"
    using num_no_keyword[of "s @ '' : '' @ t"] s(2) by (auto simp: is_quoted_iff starts_with_single)
  have "CHR '' '' \<notin> set s" using s(1) by (intro num_not) simp_all
  then show ?thesis using q num_no_keyword[of "s @ '' : '' @ t"] h
    by (simp add: parse_value_def parse_scalar_def before_type_num[simplified])
qed

lemma inner_quoted [simp]: "inner (quoted s) = s"
  by (simp add: inner_def quoted_def)

lemma inner_brackets [simp]: "inner (c # s @ [d]) = s"
  by (simp add: inner_def)

lemma quoted_quoted [simp]: "is_quoted (quoted s)"
  by (simp add: is_quoted_iff quoted_def)

lemma parse_scalar_quoted: "\<not> contains_str s '' : '' \<Longrightarrow> parse_scalar fl (quoted s) = JStr s"
  by (simp add: parse_scalar_def) (simp add: quoted_def)

lemma quoted_trimmed [simp]: "trimmed (quoted s)"
  by (simp add: trimmed_def quoted_def is_blank_def)

lemma item_value:
  assumes "item_value_ok v"
  shows "item_ok (format_item F v)" "parse_attr_value fl (format_item F v) = v"
proof -
  have "item_ok (format_item F v) \<and> parse_attr_value fl (format_item F v) = v"
  proof (cases v)
    case (JStr s)
    then have w: "word s" using assms by simp
    have "bracket_count (quoted s) = 0" using word_chars[OF w] by (intro count_none) (auto simp: quoted_def)
    moreover have "CHR '','' \<notin> set (quoted s)" using word_chars[OF w] by (auto simp: quoted_def)
    ultimately have "item_ok (quoted s)" by (simp add: item_ok_def)
    moreover have "\<not> contains_str s '' : ''" using word_chars[OF w] by (intro contains_none) auto
    ultimately show ?thesis using JStr by (simp add: parse_attr_value_def py_strip_trimmed parse_scalar_quoted)
  next
    case (JInt i)
    let ?s = "string_of_int i"
    note s = string_of_int_num[of i]
    have "item_ok ?s" using num_trimmed[OF s] num_not[OF s(1)] by (auto simp: item_ok_def intro!: count_none)
    moreover have "parse_scalar fl ?s = JInt i"
      using num_hd[OF s] num_no_keyword[of ?s] num_not[OF s(1), of "CHR '' ''"] s(2)
      by (simp add: parse_scalar_def is_quoted_iff before_type_none parse_number_int)
    ultimately show ?thesis using JInt num_trimmed[OF s] by (simp add: parse_attr_value_def py_strip_trimmed)
  qed (use assms in auto)
  then show "item_ok (format_item F v)" "parse_attr_value fl (format_item F v) = v" by auto
qed

lemma parse_value_items:
  assumes ok: "\<forall>p \<in> set ps. item_ok p"
  shows "parse_value fl (''['' @ comma_list ps @ '']'') = JList (map (parse_attr_value fl) ps)"
proof -
  have "filter (\<lambda>p. py_strip p \<noteq> []) ps = ps" using ok
    by (intro filter_True) (auto simp: item_ok_def py_strip_trimmed trimmed_def)
  then show ?thesis using split_comma_list[OF ok] by (simp add: parse_value_def is_quoted_iff starts_with_single ends_with_single)
qed

lemma parse_value_list:
  assumes "list_all item_value_ok vs"
  shows "parse_value fl (''['' @ comma_list (map (format_item F) vs) @ '']'') = JList vs"
proof -
  have ok: "\<forall>p \<in> set (map (format_item F) vs). item_ok p" using assms item_value(1) by (auto simp: list_all_iff)
  have "map (parse_attr_value fl) (map (format_item F) vs) = vs" using assms item_value(2) by (induction vs) auto
  then show ?thesis using parse_value_items[OF ok] by simp
qed

lemma parse_format_value: "value_ok F fl v \<Longrightarrow> parse_value fl (format_value F v) = v"
proof (cases v)
  case (JBool b)
  then show ?thesis by (simp add: parse_value_def parse_scalar_def is_quoted_iff starts_with_single)
next
  case (JFloat r)
  assume "value_ok F fl v"
  then have r: "float_ok F fl r" using JFloat by simp
  then have "parse_value fl (repr_float F r @ '' : '' @ ''f64'') = JFloat r"
    using parse_value_number[of "repr_float F r" fl "''f64''"] parse_number_float[OF r] by (simp add: float_ok_def)
  then show ?thesis using JFloat by simp
next
  case (JInt i)
  have "parse_value fl (string_of_int i @ '' : '' @ ''i64'') = JInt i"
    using parse_value_number[OF string_of_int_num, of fl i "''i64''"] parse_number_int by simp
  then show ?thesis using JInt by simp
next
  case (JStr s)
  assume "value_ok F fl v"
  then show ?thesis using JStr by (simp add: parse_value_def str_ok_def parse_scalar_quoted)
next
  case (JList vs)
  assume "value_ok F fl v"
  then show ?thesis using JList parse_value_list[of vs fl F] by (simp add: comma_list_def)
qed (simp_all add: parse_value_def parse_scalar_def is_quoted_iff starts_with_single)


text \<open>Printed values are trimmed, closed, and free of closing braces and line breaks.\<close>

definition inline :: "string \<Rightarrow> bool" where
  "inline s \<longleftrightarrow> list_all (\<lambda>c. c \<noteq> CHR ''}'' \<and> \<not> is_break c) s"

lemma inline_append [simp]: "inline (a @ b) \<longleftrightarrow> inline a \<and> inline b"
  by (simp add: inline_def)

lemma inline_Nil [simp]: "inline []"
  by (simp add: inline_def)

lemma inline_Cons [simp]: "inline (c # s) \<longleftrightarrow> c \<noteq> CHR ''}'' \<and> \<not> is_break c \<and> inline s"
  by (simp add: inline_def)

lemma no_break [simp]:
  "\<not> is_break CHR '' ''" "\<not> is_break CHR ''\"''" "\<not> is_break CHR ''=''" "\<not> is_break CHR ''{''" "\<not> is_break CHR ''}''"
  "\<not> is_break CHR ''[''" "\<not> is_break CHR '']''" "\<not> is_break CHR ''(''" "\<not> is_break CHR '')''" "\<not> is_break CHR '',''"
  "\<not> is_break CHR '';''" "\<not> is_break CHR '':''" "\<not> is_break CHR ''-''" "\<not> is_break CHR ''>''" "\<not> is_break CHR ''<''" "\<not> is_break CHR ''%''"
  by (simp_all add: is_break_def)

lemma plain_inline: "list_all plain s \<Longrightarrow> inline s"
  by (auto simp: inline_def list_all_iff dest: plain_blank break_blank)

lemma num_inline: "list_all num_char s \<Longrightarrow> inline s"
  by (auto simp: inline_def list_all_iff dest: num_blank break_blank)

lemma inline_quoted [simp]: "inline (quoted s) \<longleftrightarrow> inline s"
  by (simp add: quoted_def)

lemma inline_join: "inline sep \<Longrightarrow> \<forall>p \<in> set ps. inline p \<Longrightarrow> inline (join_with sep ps)"
  by (induction sep ps rule: join_with.induct) auto

lemma inline_comma: "\<forall>p \<in> set ps. inline p \<Longrightarrow> inline (comma_list ps)"
  by (simp add: comma_list_def inline_join)

lemma item_inline: "item_value_ok v \<Longrightarrow> inline (format_item F v)"
  by (cases v) (auto simp: word_def plain_inline num_inline string_of_int_num)

lemma num_neutral: "list_all num_char s \<Longrightarrow> list_all neutral s"
  by (auto simp: list_all_iff neutral_def num_char_def is_digit_def)

text \<open>Inside brackets commas do not separate.\<close>

lemma attr_scan_item: "item_value_ok v \<Longrightarrow> attr_scan d False (format_item F v @ t) = attr_scan d False t"
proof (cases v)
  case (JStr s)
  assume "item_value_ok v"
  then show ?thesis using JStr word_chars[of s "CHR ''\"''"] by (simp add: attr_scan_quoted)
next
  case (JInt i)
  then show ?thesis using attr_scan_append[OF attr_scan_neutral[OF num_neutral[OF string_of_int_num(1)]], of d i t] by simp
qed auto

lemma attr_scan_items:
  "d \<noteq> 0 \<Longrightarrow> \<forall>p \<in> set ps. \<forall>t. attr_scan d False (p @ t) = attr_scan d False t \<Longrightarrow> attr_scan d False (comma_list ps @ t) = attr_scan d False t"
proof (induction ps)
  case (Cons p ps)
  then show ?case by (cases ps) (simp_all add: comma_list_def Let_def)
qed (simp add: comma_list_def)

lemma attr_scan_list:
  "\<forall>p \<in> set ps. \<forall>t. attr_scan 1 False (p @ t) = attr_scan 1 False t \<Longrightarrow> attr_scan 0 False (''['' @ comma_list ps @ '']'') = Some (0, False)"
  using attr_scan_items[of 1 ps "'']''"] by (simp add: Let_def)

lemma attr_scan_value: "value_ok F fl v \<Longrightarrow> attr_scan 0 False (format_value F v) = Some (0, False)"
proof (cases v)
  case (JList vs)
  assume "value_ok F fl v"
  then have "\<forall>p \<in> set (map (format_item F) vs). \<forall>t. attr_scan 1 False (p @ t) = attr_scan 1 False t"
    using JList attr_scan_item by (auto simp: list_all_iff)
  then show ?thesis using JList attr_scan_list[of "map (format_item F) vs"] by (simp add: comma_list_def)
next
  case (JStr s)
  assume "value_ok F fl v"
  then have "CHR ''\"'' \<notin> set s" using JStr by (auto simp: str_ok_def list_all_iff)
  then show ?thesis using JStr attr_scan_quoted[of s 0 "[]"] by simp
next
  case (JInt i)
  have "list_all neutral (string_of_int i @ '' : i64'')" using num_neutral[OF string_of_int_num(1)] by (simp add: neutral_def)
  then show ?thesis using JInt by (simp add: attr_scan_neutral)
next
  case (JFloat r)
  assume "value_ok F fl v"
  then have "list_all neutral (repr_float F r @ '' : f64'')" using JFloat num_neutral by (simp add: neutral_def float_ok_def)
  then show ?thesis using JFloat by (simp add: attr_scan_neutral)
qed (simp_all add: Let_def)

lemma format_value_inline: "value_ok F fl v \<Longrightarrow> inline (format_value F v)"
proof (cases v)
  case (JList vs)
  assume "value_ok F fl v"
  then have "\<forall>p \<in> set (map (format_item F) vs). inline p" using JList item_inline by (auto simp: list_all_iff)
  then have "inline (comma_list (map (format_item F) vs))" by (rule inline_comma)
  then show ?thesis using JList by (simp add: comma_list_def)
next
  case (JInt i)
  then show ?thesis using num_inline[OF string_of_int_num(1), of i] by (simp add: is_break_def)
next
  case (JFloat r)
  assume "value_ok F fl v"
  then show ?thesis using JFloat num_inline[of "repr_float F r"] by (simp add: float_ok_def is_break_def)
next
  case (JStr s)
  assume "value_ok F fl v"
  then show ?thesis using JStr by (auto simp: str_ok_def inline_def list_all_iff quoted_def)
qed (auto simp: is_break_def)

lemma format_value_trimmed: "value_ok F fl v \<Longrightarrow> trimmed (format_value F v)"
proof (cases v)
  case (JInt i)
  then show ?thesis using num_hd[OF string_of_int_num, of i] string_of_int_num(2)[of i] by (simp add: trimmed_def num_blank) (simp add: is_blank_def)
next
  case (JFloat r)
  assume "value_ok F fl v"
  then show ?thesis using JFloat num_hd[of "repr_float F r"] by (simp add: float_ok_def trimmed_def num_blank) (simp add: is_blank_def)
qed (auto simp: trimmed_def is_blank_def quoted_def)


section \<open>Attribute lists\<close>

text \<open>A printed attribute that reads back as a key with a value.\<close>

definition reads :: "(string \<Rightarrow> json option) \<Rightarrow> string \<Rightarrow> string \<times> json \<Rightarrow> bool" where
  "reads fl p = (\<lambda>(k, v). part_ok p \<and> (\<forall>d. parse_attr fl d p = AList.update k v d))"

lemma attr_reads:
  assumes k: "word k" and x: "trimmed x" "attr_scan 0 False x = Some (0, False)" and v: "parse_value fl x = v"
  shows "reads fl (k @ '' = '' @ x) (k, v)"
proof -
  let ?p = "k @ '' = '' @ x"
  have t: "trimmed ?p" using trimmed_append[OF word_trimmed[OF k] x(1)] .
  have "list_all neutral (k @ '' = '')" using word_neutral[OF k] by (simp add: neutral_def)
  then have "attr_scan 0 False ((k @ '' = '') @ x) = Some (0, False)"
    using attr_scan_append[OF attr_scan_neutral, of "k @ '' = ''" 0 x] x(2) by simp
  then have part: "part_ok ?p" using t by (simp add: part_ok_def)
  have strip: "py_strip ?p = ?p" using t by (rule py_strip_trimmed)
  have p: "?p = (k @ '' '') @ CHR ''='' # '' '' @ x" by simp
  have "CHR ''='' \<notin> set (k @ '' '')" using word_chars[OF k] by simp
  then have i: "find_str ?p ''='' = Some (length (k @ '' ''))" unfolding p by (rule find_char)
  have key: "py_strip (k @ '' '') = k" using py_strip_pad[of "[]" "'' ''" k] word_trimmed[OF k] by simp
  have val: "py_strip ('' '' @ x) = x" using py_strip_pad[of "'' ''" "[]"] x(1) by simp
  have "CHR ''\"'' \<notin> set k" using word_chars[OF k] by simp
  then have nq: "\<not> is_quoted k" by (metis hd_in_set is_quoted_iff)
  have "take (length (k @ '' '')) ?p = k @ '' ''" "drop (Suc (length (k @ '' ''))) ?p = '' '' @ x" unfolding p by simp_all
  then have "parse_attr fl d ?p = AList.update k v d" for d unfolding parse_attr_def Let_def strip i option.case
    by (simp only: key val nq if_False v)
  then show ?thesis using part by (simp add: reads_def)
qed

definition entry_ok :: "py_format \<Rightarrow> (string \<Rightarrow> json option) \<Rightarrow> string \<times> json \<Rightarrow> bool" where
  "entry_ok F fl = (\<lambda>(k, v). word k \<and> value_ok F fl v)"

lemma format_attr_reads: "entry_ok F fl e \<Longrightarrow> reads fl (format_attr F e) e"
proof -
  assume e: "entry_ok F fl e"
  obtain k v where kv: "e = (k, v)" by (cases e)
  then have "word k" "value_ok F fl v" using e by (simp_all add: entry_ok_def)
  then show ?thesis using attr_reads[of k "format_value F v" fl v] kv
    by (simp add: format_attr_def format_value_trimmed attr_scan_value parse_format_value)
qed

lemma format_attr_inline: "entry_ok F fl e \<Longrightarrow> inline (format_attr F e)"
  by (cases e) (auto simp: entry_ok_def format_attr_def word_def plain_inline format_value_inline)

lemma py_strip_nonempty:
  assumes "c \<in> set s" "\<not> is_blank c"
  shows "py_strip s \<noteq> []"
proof -
  have "c \<notin> set (takeWhile is_blank s)" using assms(2) by (auto dest: set_takeWhileD)
  then have "c \<in> set (dropWhile is_blank s)" using assms(1) by (metis Un_iff set_append takeWhile_dropWhile_id)
  then show ?thesis using assms(2) by (auto simp: py_strip_def)
qed

lemma parse_attrs_printed:
  assumes ps: "list_all2 (reads fl) ps d" and dist: "distinct (map fst d)" and sep: "sep = CHR '','' \<or> sep = CHR '';''"
  shows "parse_attrs fl (join_with [sep, CHR '' ''] ps) = d"
proof (cases "ps = []")
  case False
  have parts: "\<forall>p \<in> set ps. part_ok p" using ps by (induction ps d rule: list_all2_induct) (auto simp: reads_def)
  obtain p ps' where p: "ps = p # ps'" using False by (cases ps) auto
  then have "\<exists>c \<in> set (join_with [sep, CHR '' ''] ps). \<not> is_blank c"
    using parts by (cases ps') (auto simp: part_ok_def trimmed_def intro!: bexI[of _ "hd p"])
  then have "py_strip (join_with [sep, CHR '' ''] ps) \<noteq> []" using py_strip_nonempty by blast
  moreover have "foldl (parse_attr fl) acc ps = foldl (\<lambda>d (k, v). AList.update k v d) acc d" for acc
    using ps by (induction ps d arbitrary: acc rule: list_all2_induct) (auto simp: reads_def)
  ultimately show ?thesis using split_attrs_list[OF parts False sep] foldl_update_fresh[of "[]" d] dist by (simp add: parse_attrs_def)
qed (use ps in \<open>simp add: parse_attrs_def\<close>)

lemma parse_attrs_dict:
  assumes ok: "list_all (entry_ok F fl) d" and dist: "distinct (map fst d)"
  shows "parse_attrs fl (comma_list (map (format_attr F) d)) = d"
proof -
  have "list_all2 (reads fl) (map (format_attr F) d) d"
    using ok format_attr_reads by (auto simp: list_all2_conv_all_nth list_all_length)
  then show ?thesis using parse_attrs_printed[OF _ dist] by (simp add: comma_list_def)
qed


section \<open>Operations\<close>

lemma comma_list_chars: "\<forall>p \<in> set ps. c \<notin> set p \<Longrightarrow> c \<noteq> CHR '','' \<Longrightarrow> c \<noteq> CHR '' '' \<Longrightarrow> c \<notin> set (comma_list ps)"
proof (induction ps)
  case (Cons p ps)
  then show ?case by (cases ps) (auto simp: comma_list_def)
qed (simp add: comma_list_def)

lemma comma_list_trimmed: "ps \<noteq> [] \<Longrightarrow> \<forall>p \<in> set ps. trimmed p \<Longrightarrow> trimmed (comma_list ps)"
proof (induction ps)
  case (Cons p ps)
  show ?case
  proof (cases ps)
    case (Cons q qs)
    then have "trimmed (comma_list ps)" using Cons.IH Cons.prems by simp
    then have "trimmed (p @ '', '' @ comma_list ps)" using Cons.prems(2) by (intro trimmed_append) simp_all
    then show ?thesis using Cons by (simp add: comma_list_def)
  qed (use Cons.prems in \<open>simp add: comma_list_def\<close>)
qed simp

lemma split_on_comma: "ps \<noteq> [] \<Longrightarrow> \<forall>p \<in> set ps. trimmed p \<and> CHR '','' \<notin> set p \<Longrightarrow> map py_strip (split_on CHR '','' (comma_list ps)) = ps"
proof (induction ps)
  case (Cons p ps)
  have p: "trimmed p" "CHR '','' \<notin> set p" using Cons.prems(2) by auto
  show ?case
  proof (cases ps)
    case Nil
    then show ?thesis using p by (simp add: comma_list_def split_on_single py_strip_trimmed)
  next
    case (Cons q qs)
    have "py_strip (CHR '' '' # t) = py_strip t" for t by (simp add: py_strip_def)
    then have "map py_strip (split_on CHR '','' (CHR '' '' # t)) = map py_strip (split_on CHR '','' t)" for t
      by (cases "split_on CHR '','' t") auto
    moreover have "map py_strip (split_on CHR '','' (comma_list ps)) = ps" using Cons.IH Cons.prems Cons by simp
    ultimately show ?thesis using Cons p by (simp add: comma_list_def split_on_prefix py_strip_trimmed)
  qed
qed simp

lemma split_operands: "\<forall>p \<in> set ps. trimmed p \<and> CHR '','' \<notin> set p \<Longrightarrow> filter (\<lambda>o'. o' \<noteq> []) (map py_strip (split_on CHR '','' (comma_list ps))) = ps"
proof (cases "ps = []")
  case False
  assume a: "\<forall>p \<in> set ps. trimmed p \<and> CHR '','' \<notin> set p"
  then have "filter (\<lambda>o'. o' \<noteq> []) ps = ps" by (intro filter_True) (auto simp: trimmed_def)
  then show ?thesis using split_on_comma[OF False a] by simp
qed (simp add: comma_list_def)

lemma ssa_list: "list_all ssa_ok ns \<Longrightarrow> \<forall>p \<in> set (map ssa_format ns). trimmed p \<and> CHR '','' \<notin> set p"
  using ssa_format_trimmed ssa_format_chars by (auto simp: list_all_iff)

lemma one_or_tuple_cases: "(\<exists>t. ts = [t] \<and> one_or_tuple ts = t) \<or> (length ts \<noteq> 1 \<and> one_or_tuple ts = ''('' @ comma_list ts @ '')'')"
  by (cases ts; cases "tl ts") (auto simp: one_or_tuple_def split: list.splits)

lemma one_or_tuple_trimmed: "list_all type_ok ts \<Longrightarrow> trimmed (one_or_tuple ts)"
proof -
  assume a: "list_all type_ok ts"
  from one_or_tuple_cases[of ts] show ?thesis
  proof (elim disjE exE conjE)
    fix t assume t: "ts = [t]" "one_or_tuple ts = t"
    then show ?thesis using a type_trimmed[of t] unfolding t(2) by simp
  qed (simp add: trimmed_def is_blank_def)
qed

lemma type_list_chars: "list_all type_ok ts \<Longrightarrow> \<not> plain c \<Longrightarrow> c \<notin> set ''<>, '' \<Longrightarrow> c \<notin> set (comma_list ts)"
  by (rule comma_list_chars) (auto simp: list_all_iff type_chars)

lemma one_or_tuple_chars: "list_all type_ok ts \<Longrightarrow> \<not> plain c \<Longrightarrow> c \<notin> set ''<>, ()'' \<Longrightarrow> c \<notin> set (one_or_tuple ts)"
proof -
  assume a: "list_all type_ok ts" "\<not> plain c" "c \<notin> set ''<>, ()''"
  from one_or_tuple_cases[of ts] show ?thesis
  proof (elim disjE exE conjE)
    fix t assume t: "ts = [t]" "one_or_tuple ts = t"
    then have "type_ok t" using a(1) by simp
    then show ?thesis using a(2,3) type_chars[of t c] unfolding t(2) by simp
  next
    assume "one_or_tuple ts = ''('' @ comma_list ts @ '')''"
    then show ?thesis using a type_list_chars[of ts c] by simp
  qed
qed

lemma types_items: "list_all type_ok ts \<Longrightarrow> \<forall>p \<in> set ts. item_ok p"
  by (auto simp: list_all_iff type_item)

lemma char_not_angle: "CHR ''('' \<notin> set ''<>, ''"
  by simp

lemma no_paren: "list_all type_ok ts \<Longrightarrow> \<not> starts_with (comma_list ts) ''(''"
  using type_list_chars[of ts "CHR ''(''"] hd_in_set[of "comma_list ts"] by (metis starts_with_single plain_not(3) char_not_angle)

lemma parse_type_list_comma: "list_all type_ok ts \<Longrightarrow> parse_type_list (comma_list ts) = ts"
proof (cases "ts = []")
  case False
  assume ts: "list_all type_ok ts"
  then have "trimmed (comma_list ts)" using False by (intro comma_list_trimmed) (auto simp: list_all_iff type_trimmed)
  then have "py_strip (comma_list ts) = comma_list ts" "comma_list ts \<noteq> []" by (simp_all add: py_strip_trimmed trimmed_def)
  then show ?thesis using no_paren[OF ts] split_comma_list[OF types_items[OF ts]] map_strip_items[OF types_items[OF ts]]
    by (simp add: parse_type_list_def)
qed (simp add: parse_type_list_def comma_list_def)

lemma parse_type_list_printed: "list_all type_ok ts \<Longrightarrow> parse_type_list (one_or_tuple ts) = ts"
proof -
  assume ts: "list_all type_ok ts"
  from one_or_tuple_cases[of ts] show ?thesis
  proof (elim disjE exE conjE)
    fix t assume "ts = [t]" "one_or_tuple ts = t"
    then show ?thesis using parse_type_list_comma[OF ts] by (simp add: comma_list_def)
  next
    assume tup: "one_or_tuple ts = ''('' @ comma_list ts @ '')''"
    then have strip: "py_strip (one_or_tuple ts) = one_or_tuple ts" using one_or_tuple_trimmed[OF ts] by (simp add: py_strip_trimmed)
    show ?thesis
    proof (cases "ts = []")
      case True
      then show ?thesis by (simp add: one_or_tuple_def comma_list_def parse_type_list_def) (simp add: py_strip_def is_blank_def starts_with_single ends_with_single inner_def)
    next
      case False
      then have "trimmed (comma_list ts)" using ts by (intro comma_list_trimmed) (auto simp: list_all_iff type_trimmed)
      then have "comma_list ts \<noteq> []" by (simp add: trimmed_def)
      then show ?thesis unfolding parse_type_list_def Let_def strip
        using tup split_comma_list[OF types_items[OF ts]] map_strip_items[OF types_items[OF ts]] by (simp add: starts_with_single ends_with_single)
    qed
  qed
qed

definition type_signature :: "string list \<Rightarrow> string list \<Rightarrow> string" where
  "type_signature ins outs = '' : ('' @ comma_list ins @ '') -> '' @ one_or_tuple outs"

lemma signature_printed:
  assumes ins: "list_all type_ok ins" and outs: "list_all type_ok outs"
  shows "signature (x @ type_signature ins outs) = (ins, outs)"
proof -
  let ?in = "''('' @ comma_list ins @ '')''" and ?out = "one_or_tuple outs"
  let ?y = "?in @ '' -> '' @ ?out"
  have s: "x @ type_signature ins outs = (x @ '' '') @ CHR '':'' # '' '' @ ?y" by (simp add: type_signature_def)
  have "CHR '':'' \<notin> set ('' '' @ ?y)" using type_list_chars[OF ins, of "CHR '':''"] one_or_tuple_chars[OF outs, of "CHR '':''"] by simp
  then have colon: "py_rfind (x @ type_signature ins outs) CHR '':'' = int (length (x @ '' ''))" unfolding s by (rule py_rfind_char)
  have "trimmed ?in" by (simp add: trimmed_def is_blank_def)
  then have ty: "trimmed ?y" "py_strip ?in = ?in" using trimmed_append[of ?in ?out "'' -> ''"] one_or_tuple_trimmed[OF outs] py_strip_trimmed by simp_all
  have "py_from (x @ type_signature ins outs) (int (length (x @ '' '')) + 1) = '' '' @ ?y"
    using py_from_nat[of "x @ type_signature ins outs" "Suc (length (x @ '' ''))"] unfolding s by simp
  then have part: "py_strip (py_from (x @ type_signature ins outs) (int (length (x @ '' '')) + 1)) = ?y"
    using py_strip_pad[of "'' ''" "[]" ?y] ty(1) by simp
  have "CHR ''-'' \<notin> set (?in @ '' '')" using type_list_chars[OF ins, of "CHR ''-''"] by simp
  then have arrow: "py_find ?y ''->'' = int (length (?in @ '' ''))"
    using py_find_skip[of "''->''" "?in @ '' ''" "''-> '' @ ?out"] by simp
  have "py_slice ?y 0 (int (length (?in @ '' ''))) = ?in @ '' ''" using py_slice_nat[of ?y 0 "length (?in @ '' '')"] by simp
  then have ip: "py_strip (py_slice ?y 0 (int (length (?in @ '' '')))) = ?in"
    using py_strip_pad[of "[]" "'' ''" ?in] \<open>trimmed ?in\<close> by simp
  have "py_from ?y (int (length (?in @ '' '')) + 2) = '' '' @ ?out" using py_from_nat[of ?y "Suc (Suc (length (?in @ '' '')))"] by simp
  then have op: "py_strip (py_from ?y (int (length (?in @ '' '')) + 2)) = ?out"
    using py_strip_pad[of "'' ''" "[]" ?out] one_or_tuple_trimmed[OF outs] by simp
  have f: "filter (\<lambda>t. t \<noteq> ''...'') ts = ts" if "list_all type_ok ts" for ts
    using that by (intro filter_True) (auto simp: list_all_iff type_ok_def)
  have "starts_with ?in ''(''" "ends_with ?in '')''" "inner ?in = comma_list ins" by (simp_all add: starts_with_single ends_with_single)
  then show ?thesis unfolding signature_def Let_def colon part arrow ip op
    using f[OF ins] f[OF outs] parse_type_list_comma[OF ins] parse_type_list_printed[OF outs] by simp
qed

text \<open>The attribute block.\<close>

definition attr_suffix :: "string \<Rightarrow> string" where
  "attr_suffix body = (if body = [] then [] else '' {'' @ body @ ''}'')"

lemma attr_block_printed:
  assumes body: "inline body" and t: "CHR ''{'' \<notin> set t"
  shows "attr_block fl (pre @ '')'' @ attr_suffix body @ t) (length pre) = Inr (parse_attrs fl body)"
proof (cases "body = []")
  case True
  have "find_from (pre @ '')'' @ attr_suffix body @ t) ''{'' (length pre) = None"
    using True t by (intro find_from_none) (auto simp: attr_suffix_def)
  then show ?thesis using True by (simp add: attr_block_def parse_attrs_def)
next
  case False
  let ?rest = "pre @ '')'' @ attr_suffix body @ t"
  have r: "?rest = pre @ '') '' @ CHR ''{'' # body @ ''}'' @ t" using False by (simp add: attr_suffix_def)
  have o1: "find_from ?rest ''{'' (length pre) = Some (length pre + 2)"
    unfolding r using find_from_char[of "length pre" pre "CHR ''{''" "'') ''"] by simp
  have "CHR ''}'' \<notin> set (CHR ''{'' # body)" using body by (auto simp: inline_def list_all_iff)
  then have c1: "find_from ?rest ''}'' (length pre + 2) = Some (length pre + 2 + Suc (length body))"
    unfolding r using find_from_char[of "length pre + 2" "pre @ '') ''" "CHR ''}''" "CHR ''{'' # body" t] by simp
  have "drop (Suc (length pre + 2)) (take (length pre + 2 + Suc (length body)) ?rest) = body" unfolding r by (simp add: numeral_eq_Suc)
  then show ?thesis unfolding attr_block_def o1 option.case c1 res_of_option_simps res_bind_Inr by (rule arg_cong)
qed

lemma parse_op_shape:
  assumes rs: "rs \<noteq> []" "list_all ssa_ok rs" and os: "list_all ssa_ok os" and nm: "word nm" and body: "inline body"
    and ins: "list_all type_ok ins" and outs: "list_all type_ok outs"
  shows "parse_mlir_op fl (comma_list (map ssa_format rs) @ '' = '' @ quoted nm @ ''('' @ comma_list (map ssa_format os) @ '')''
       @ attr_suffix body @ type_signature ins outs) names =
     (let attrs = parse_attrs fl body;
          names' = (case map_of attrs ''name'' of
                      Some w \<Rightarrow> if nm = ''sf.weight'' then AList.update (ssa_key (hd rs)) w names else names | None \<Rightarrow> names)
      in res_bind (res_mapM (resolve_operand names') (map ssa_format os)) (\<lambda>resolved.
         Inr (\<lparr>mo_name = nm, mo_dialect = fst (split_qualified nm), mo_op_name = snd (split_qualified nm), mo_operands = resolved,
               mo_results = map ssa_key rs, mo_attributes = attrs, mo_input_types = ins, mo_output_types = outs\<rparr>, names')))"
proof -
  let ?r = "comma_list (map ssa_format rs)" and ?o = "comma_list (map ssa_format os)"
  let ?pre = "''\"'' @ nm @ ''\"('' @ ?o"
  let ?rest = "?pre @ '')'' @ attr_suffix body @ type_signature ins outs"
  let ?line = "?r @ '' = '' @ quoted nm @ ''('' @ ?o @ '')'' @ attr_suffix body @ type_signature ins outs"
  have line: "?line = (?r @ '' '') @ CHR ''='' # '' '' @ ?rest" by (simp add: quoted_def)
  have fchars: "c \<notin> set (comma_list (map ssa_format ns))" if "list_all ssa_ok ns" "\<not> plain c" "c \<notin> set ''%, ''" for c ns
    using that by (intro comma_list_chars) (auto simp: list_all_iff ssa_format_chars)
  have eq: "find_str ?line ''='' = Some (length (?r @ '' ''))"
    unfolding line using fchars[OF rs(2), of "CHR ''=''"] by (intro find_char) simp
  have "trimmed ?r" using rs ssa_list[OF rs(2)] by (intro comma_list_trimmed) auto
  then have res: "py_strip (take (length (?r @ '' '')) ?line) = ?r"
    unfolding line using py_strip_pad[of "[]" "'' ''" ?r] by simp
  have results: "map (\<lambda>r. ssa_key (py_strip r)) (split_on CHR '','' ?r) = map ssa_key rs"
    using arg_cong[OF split_on_comma[OF _ ssa_list[OF rs(2)]], of "map ssa_key"] rs(1) by (simp add: comp_def)
  have "trimmed ?rest" using trimmed_append[of "''\"''" "one_or_tuple outs"] one_or_tuple_trimmed[OF outs]
    by (simp add: type_signature_def trimmed_def is_blank_def)
  then have rest: "py_strip (drop (Suc (length (?r @ '' ''))) ?line) = ?rest"
    unfolding line using py_strip_pad[of "'' ''" "[]" ?rest] by simp
  have q0: "find_str ?rest ''\"'' = Some 0" by simp
  have q1: "find_from ?rest ''\"'' (Suc 0) = Some (Suc (length nm))"
    using find_from_char[of "Suc 0" "''\"''" "CHR ''\"''" nm] word_chars[OF nm, of "CHR ''\"''"] by simp
  have qual: "drop (Suc 0) (take (Suc (length nm)) ?rest) = nm" by simp
  have p0: "find_from ?rest ''('' (Suc (length nm)) = Some (Suc (Suc (length nm)))"
    using find_from_char[of "Suc (length nm)" "''\"'' @ nm" "CHR ''(''" "''\"''"] by simp
  have "CHR '')'' \<notin> set (''('' @ ?o)" using fchars[OF os, of "CHR '')''"] by simp
  then have p1: "find_from ?rest '')'' (Suc (Suc (length nm))) = Some (length ?pre)"
    using find_from_char[of "Suc (Suc (length nm))" "''\"'' @ nm @ ''\"''" "CHR '')''" "''('' @ ?o"] by simp
  have ops: "drop (Suc (Suc (Suc (length nm)))) (take (length ?pre) ?rest) = ?o" by simp
  have "CHR ''{'' \<notin> set (type_signature ins outs)"
    using type_list_chars[OF ins, of "CHR ''{''"] one_or_tuple_chars[OF outs, of "CHR ''{''"] by (simp add: type_signature_def)
  then have attrs: "attr_block fl ?rest (length ?pre) = Inr (parse_attrs fl body)" using attr_block_printed[OF body] by blast
  have sig: "signature ?rest = (ins, outs)"
    using signature_printed[OF ins outs, of "?pre @ '')'' @ attr_suffix body"] by simp
  have "hd (map ssa_key rs) = ssa_key (hd rs)" using rs(1) by (simp add: list.map_sel)
  then show ?thesis
    unfolding parse_mlir_op_def eq res_of_option_simps res_bind_Inr Let_def res results rest q0 q1 qual p0 p1 ops split_operands[OF ssa_list[OF os]] attrs sig
      \<open>hd (map ssa_key rs) = ssa_key (hd rs)\<close>
    by (simp add: split_def)
qed

lemma attrs_inline: "list_all (entry_ok F fl) d \<Longrightarrow> inline (comma_list (map (format_attr F) d))"
  by (rule inline_comma) (auto simp only: list_all_iff set_map image_iff format_attr_inline)

text \<open>A line of an operation without its indentation.\<close>

definition line_ok :: "string \<Rightarrow> bool" where
  "line_ok s \<longleftrightarrow> trimmed s \<and> list_all (\<lambda>c. \<not> is_break c) s"

lemma inline_line: "inline s \<Longrightarrow> list_all (\<lambda>c. \<not> is_break c) s"
  by (auto simp: inline_def list_all_iff)

lemma ssa_list_inline: "list_all ssa_ok ns \<Longrightarrow> inline (comma_list (map ssa_format ns))"
proof (rule inline_comma)
  assume "list_all ssa_ok ns"
  moreover have "inline (ssa_format n)" if "ssa_ok n" for n
  proof -
    have "c \<noteq> CHR ''}'' \<and> \<not> is_break c" if c: "c \<in> set (ssa_format n)" for c
    proof (cases "plain c")
      case True
      then show ?thesis using plain_blank break_blank by auto
    next
      case False
      then have "c = CHR ''%''" using ssa_format_chars[OF \<open>ssa_ok n\<close>] c by blast
      then show ?thesis by simp
    qed
    then show ?thesis by (simp add: inline_def list_all_iff)
  qed
  ultimately show "\<forall>p \<in> set (map ssa_format ns). inline p" by (auto simp: list_all_iff)
qed

lemma type_inline: "type_ok t \<Longrightarrow> inline t"
proof -
  assume t: "type_ok t"
  have "c \<noteq> CHR ''}'' \<and> \<not> is_break c" if "c \<in> set t" for c
  proof -
    have "plain c \<or> c = CHR ''<'' \<or> c = CHR ''>''" using t that by (auto simp: type_ok_def list_all_iff)
    then show ?thesis using plain_blank break_blank by auto
  qed
  then show "inline t" by (simp add: inline_def list_all_iff)
qed

lemma types_inline: "list_all type_ok ts \<Longrightarrow> inline (comma_list ts)"
  by (rule inline_comma) (auto simp: list_all_iff type_inline)

lemma one_or_tuple_inline: "list_all type_ok ts \<Longrightarrow> inline (one_or_tuple ts)"
proof -
  assume a: "list_all type_ok ts"
  from one_or_tuple_cases[of ts] show ?thesis
  proof (elim disjE exE conjE)
    fix t assume t: "ts = [t]" "one_or_tuple ts = t"
    then show ?thesis using a type_inline[of t] unfolding t(2) by simp
  qed (use types_inline[OF a] in simp)
qed

lemma comma_list_hd: "ps \<noteq> [] \<Longrightarrow> hd ps = c # t \<Longrightarrow> \<exists>t'. comma_list ps = c # t'"
  by (cases ps; cases "tl ps") (auto simp: comma_list_def)

lemma op_shape_line:
  assumes rs: "rs \<noteq> []" "list_all ssa_ok rs" and os: "list_all ssa_ok os" and nm: "word nm" and body: "inline body"
    and ins: "list_all type_ok ins" and outs: "list_all type_ok outs"
    and s: "s = comma_list (map ssa_format rs) @ '' = '' @ quoted nm @ ''('' @ comma_list (map ssa_format os) @ '')''
       @ attr_suffix body @ type_signature ins outs"
  shows "line_ok s" "\<exists>t. s = CHR ''%'' # t" "CHR ''='' \<in> set s" "CHR ''\"'' \<in> set s"
proof -
  obtain t where "hd (map ssa_format rs) = CHR ''%'' # t" using rs ssa_format_hd by (cases rs) auto
  then obtain t' where t: "comma_list (map ssa_format rs) = CHR ''%'' # t'" using comma_list_hd rs(1) by blast
  then show "\<exists>t. s = CHR ''%'' # t" using s by simp
  show "CHR ''='' \<in> set s" "CHR ''\"'' \<in> set s" using s by (simp_all add: quoted_def)
  have "trimmed (comma_list (map ssa_format rs))" using rs ssa_list[OF rs(2)] by (intro comma_list_trimmed) auto
  then have "trimmed (comma_list (map ssa_format rs) @ ('' = '' @ quoted nm @ ''('' @ comma_list (map ssa_format os) @ '')''
       @ attr_suffix body @ '' : ('' @ comma_list ins @ '') -> '') @ one_or_tuple outs)"
    by (rule trimmed_append) (rule one_or_tuple_trimmed[OF outs])
  then have "trimmed s" by (simp add: s type_signature_def)
  moreover have "list_all (\<lambda>c. \<not> is_break c) (attr_suffix body)" using inline_line[OF body] by (simp add: attr_suffix_def)
  moreover have "list_all (\<lambda>c. \<not> is_break c) nm" using nm plain_inline inline_line by (auto simp: word_def)
  ultimately show "line_ok s"
    using inline_line[OF ssa_list_inline[OF rs(2)]] inline_line[OF ssa_list_inline[OF os]] inline_line[OF types_inline[OF ins]]
      inline_line[OF one_or_tuple_inline[OF outs]]
    by (simp add: line_ok_def s type_signature_def quoted_def)
qed

text \<open>Names of weights by SSA key, as the parser keeps them.\<close>

definition json_names :: "(string, string) dict \<Rightarrow> (string, json) dict" where
  "json_names ws = map (\<lambda>(k, w). (k, JStr w)) ws"

lemma json_names_update: "AList.update k (JStr w) (json_names ws) = json_names (AList.update k w ws)"
  by (induction ws) (auto simp: json_names_def)

lemma resolve_name: "resolve_operand (json_names ws) (ssa_format o') = Inr (operand_name ws o')"
proof -
  have "map_of (json_names ws) k = map_option JStr (map_of ws k)" for k
    by (induction ws) (auto simp: json_names_def)
  then show ?thesis by (cases "map_of ws (ssa_key o')") (simp_all add: resolve_operand_def operand_name_def dict_get_def)
qed

lemma resolve_names: "res_mapM (resolve_operand (json_names ws)) (map ssa_format os) = Inr (map (operand_name ws) os)"
  by (induction os) (simp_all add: resolve_name)

lemma kept_entries:
  assumes "plain_op_ok F fl op"
  shows "list_all (entry_ok F fl) (filter (\<lambda>(k, _). k \<noteq> ''source_node'') (mo_attributes op))"
    "distinct (map fst (filter (\<lambda>(k, _). k \<noteq> ''source_node'') (mo_attributes op)))"
  using assms by (auto simp: plain_op_ok_def entry_ok_def list_all_iff distinct_map intro: inj_on_subset)

lemma attrs_text_suffix:
  assumes "list_all (entry_ok F fl) (filter (\<lambda>(k, _). k \<noteq> ''source_node'') d)"
  shows "attrs_text F d = attr_suffix (comma_list (map (format_attr F) (filter (\<lambda>(k, _). k \<noteq> ''source_node'') d)))"
proof (cases "filter (\<lambda>(k, _). k \<noteq> ''source_node'') d")
  case (Cons e es)
  have "format_attr F e \<noteq> []" by (cases e) (simp add: format_attr_def)
  then obtain c t where "format_attr F e = c # t" by (cases "format_attr F e") auto
  then have "\<exists>t. comma_list (map (format_attr F) (e # es)) = c # t" by (intro comma_list_hd) auto
  then show ?thesis using Cons by (auto simp: attrs_text_def attr_suffix_def Let_def)
qed (simp add: attrs_text_def attr_suffix_def comma_list_def)

definition op_printed :: "py_format \<Rightarrow> (string \<Rightarrow> json option) \<Rightarrow> mlir_op \<Rightarrow> string \<Rightarrow> bool" where
  "op_printed F fl op s \<longleftrightarrow> op_line F op = Inr (''    '' @ s) \<and> line_ok s \<and> (\<exists>t. s = CHR ''%'' # t) \<and> CHR ''='' \<in> set s \<and> CHR ''\"'' \<in> set s
     \<and> (\<forall>ws. parse_mlir_op fl s (json_names ws) = Inr (reread_op ws op, json_names (op_weights ws op)))"

lemma weight_op_printed:
  assumes ok: "weight_op_ok op" and w: "mo_op_name op = ''weight''"
  shows "\<exists>s. op_printed F fl op s"
proof -
  obtain wn where wn: "map_of (mo_attributes op) ''name'' = Some (JStr wn)" "word wn" using ok by (auto simp: weight_op_ok_def)
  have nm: "mo_name op = ''sf.weight''" using ok by (simp add: weight_op_ok_def)
  obtain r rs where rs: "mo_results op = r # rs" "ssa_ok r" using ok by (cases "mo_results op") (auto simp: weight_op_ok_def)
  define tp where "tp = (case mo_output_types op of [] \<Rightarrow> ''tensor<f32>'' | t # _ \<Rightarrow> t)"
  have "type_ok ''tensor<f32>''" by (simp add: type_ok_def plain_def is_blank_def bracket_count_def ends_with_def)
  then have tp: "list_all type_ok [tp]" using ok by (cases "mo_output_types op") (auto simp: weight_op_ok_def tp_def)
  have e: "entry_ok F fl (''name'', JStr wn)"
  proof -
    have "c \<noteq> CHR ''\"'' \<and> c \<noteq> CHR ''}'' \<and> \<not> is_break c" if "c \<in> set wn" for c
      using wn(2) that plain_blank break_blank by (auto simp: word_def list_all_iff)
    moreover have "\<not> contains_str wn '' : ''" using word_chars[OF wn(2)] by (intro contains_none) auto
    moreover have "word ''name''" by (simp add: word_def plain_def is_blank_def)
    ultimately show ?thesis by (simp add: entry_ok_def str_ok_def list_all_iff)
  qed
  let ?body = "format_attr F (''name'', JStr wn)"
  have body: "inline ?body" by (rule format_attr_inline[OF e])
  have attrs: "parse_attrs fl ?body = [(''name'', JStr wn)]"
    using parse_attrs_dict[of F fl "[(''name'', JStr wn)]"] e by (simp add: comma_list_def)
  have word: "word ''sf.weight''" by (simp add: word_def plain_def is_blank_def)
  define s where "s = comma_list (map ssa_format [r]) @ '' = '' @ quoted ''sf.weight'' @ ''('' @ comma_list (map ssa_format []) @ '')''
       @ attr_suffix ?body @ type_signature [] [tp]"
  have r1: "list_all ssa_ok [r]" and e1: "list_all ssa_ok []" and i1: "list_all type_ok []" using rs(2) by simp_all
  note shape = op_shape_line[OF _ r1 e1 word body i1 tp s_def]
  have "op_line F op = Inr (''    '' @ s)"
    using wn rs w nm by (simp add: op_line_def weight_line_def s_def Let_def dict_get_def tp_def comma_list_def attr_suffix_def format_attr_def
        type_signature_def one_or_tuple_def word_def)
  moreover have "parse_mlir_op fl s (json_names ws) = Inr (reread_op ws op, json_names (op_weights ws op))" for ws
    unfolding s_def parse_op_shape[OF list.distinct(2) r1 e1 word body i1 tp] attrs
    using wn rs w nm by (simp add: Let_def reread_op_def op_weights_def tp_def json_names_update split_qualified_def)
  ultimately show ?thesis using shape by (auto simp: op_printed_def)
qed

lemma plain_op_printed:
  assumes ok: "plain_op_ok F fl op" and w: "mo_op_name op \<noteq> ''weight''"
  shows "\<exists>s. op_printed F fl op s"
proof -
  let ?d = "filter (\<lambda>(k, _). k \<noteq> ''source_node'') (mo_attributes op)"
  let ?body = "comma_list (map (format_attr F) ?d)"
  note kept = kept_entries[OF ok]
  have rs: "mo_results op \<noteq> []" "list_all ssa_ok (mo_results op)" and os: "list_all ssa_ok (mo_operands op)" and nm: "word (mo_name op)"
    and ins: "list_all type_ok (mo_input_types op)" and outs: "list_all type_ok (mo_output_types op)" "mo_output_types op \<noteq> []"
    and q: "split_qualified (mo_name op) = (mo_dialect op, mo_op_name op)" and nw: "mo_name op \<noteq> ''sf.weight''"
    using ok by (simp_all add: plain_op_ok_def)
  have body: "inline ?body" using kept(1) by (rule attrs_inline)
  define s where "s = comma_list (map ssa_format (mo_results op)) @ '' = '' @ quoted (mo_name op) @ ''('' @ comma_list (map ssa_format (mo_operands op)) @ '')''
       @ attr_suffix ?body @ type_signature (mo_input_types op) (mo_output_types op)"
  note shape = op_shape_line[OF rs os nm body ins outs(1) s_def]
  have "op_line F op = Inr (''    '' @ s)"
    using w outs(2) unfolding op_line_def op_text_def attrs_text_suffix[OF kept(1)] s_def type_signature_def by simp
  moreover have "parse_mlir_op fl s (json_names ws) = Inr (reread_op ws op, json_names (op_weights ws op))" for ws
    unfolding s_def parse_op_shape[OF rs os nm body ins outs(1)] parse_attrs_dict[OF kept]
    using w nw q by (simp add: Let_def reread_op_def op_weights_def resolve_names split: option.split)
  ultimately show ?thesis using shape by (auto simp: op_printed_def)
qed

lemma op_printed_ok: "op_ok F fl op \<Longrightarrow> \<exists>s. op_printed F fl op s"
  using weight_op_printed plain_op_printed by (simp add: op_ok_def split: if_splits)

end
