(* ===== verification/Text_Module.thy ===== *)
theory Text_Module
  imports Text_Roundtrip
begin

text \<open>
  From operations to modules: headers, returns and the fold of the parser over the lines.
\<close>


section \<open>Function headers\<close>

lemma find_str_Some: "find_str s p = Some i \<Longrightarrow> \<exists>b. s = take i s @ p @ b"
proof (induction s arbitrary: i)
  case Nil
  then show ?case by (simp split: if_splits)
next
  case (Cons c s)
  show ?case
  proof (cases "starts_with (c # s) p")
    case True
    then have "c # s = p @ drop (length p) (c # s)" using append_take_drop_id[of "length p" "c # s"] starts_with_take by metis
    then show ?thesis using Cons.prems True by auto
  next
    case False
    then obtain j where j: "find_str s p = Some j" "i = Suc j" using Cons.prems by auto
    then obtain b where "s = take j s @ p @ b" using Cons.IH by blast
    then show ?thesis using j(2) by auto
  qed
qed

lemma only_last: "A @ [x] = B @ x # b \<Longrightarrow> x \<notin> set A \<Longrightarrow> A = B"
  by (cases b rule: rev_cases) auto

lemma no_attributes:
  assumes T: "CHR ''{'' \<notin> set T" "\<not> ends_with T ''attributes''"
  shows "find_str (T @ '' {'') ''attributes {'' = None"
proof (rule ccontr)
  assume "find_str (T @ '' {'') ''attributes {'' \<noteq> None"
  then obtain a b where b: "T @ '' {'' = a @ ''attributes {'' @ b" using find_str_Some by blast
  then have "(T @ '' '') @ [CHR ''{''] = (a @ ''attributes '') @ CHR ''{'' # b" by simp
  moreover have "CHR ''{'' \<notin> set (T @ '' '')" using T(1) by simp
  ultimately have "T @ '' '' = a @ ''attributes ''" by (rule only_last)
  then have "T = a @ ''attributes''" by simp
  then show False using T(2) by (metis ends_with_def rev_append starts_with_append)
qed

definition input_text :: "string \<times> string \<Rightarrow> string" where
  "input_text = (\<lambda>(n, t). ssa_format n @ '': '' @ t)"

lemma input_item: "ssa_ok n \<Longrightarrow> type_ok t \<Longrightarrow> item_ok (input_text (n, t))"
proof -
  assume n: "ssa_ok n" and t: "type_ok t"
  have "bracket_count (ssa_format n @ '': '' @ t) = bracket_count (ssa_format n) + bracket_count t" by (simp add: bracket_count_def)
  moreover have "bracket_count (ssa_format n) = 0" "bracket_count t = 0" using ssa_format_item[OF n] type_item[OF t] by (simp_all add: item_ok_def)
  moreover have "trimmed (ssa_format n @ '': '' @ t)" by (rule trimmed_append[OF ssa_format_trimmed[OF n] type_trimmed[OF t]])
  ultimately show ?thesis using ssa_format_item[OF n] type_item[OF t] by (simp add: item_ok_def input_text_def)
qed

lemma input_parsed:
  assumes n: "ssa_ok n" and t: "type_ok t"
  shows "parse_input (input_text (n, t)) = Some (ssa_format n, t)"
proof -
  have "trimmed (input_text (n, t))" using input_item[OF n t] by (simp add: item_ok_def)
  then have st: "py_strip (input_text (n, t)) = ssa_format n @ CHR '':'' # '' '' @ t" by (simp add: py_strip_trimmed input_text_def)
  have "find_str (ssa_format n @ CHR '':'' # '' '' @ t) '':'' = Some (length (ssa_format n))"
    using ssa_format_chars[OF n, of "CHR '':''"] by (intro find_char) simp
  moreover have "py_strip ('' '' @ t) = t" using py_strip_pad[of "'' ''" "[]" t] type_trimmed[OF t] by simp
  ultimately show ?thesis using py_strip_trimmed[OF ssa_format_trimmed[OF n]] unfolding parse_input_def st Let_def by simp
qed

lemma inputs_parsed:
  assumes "list_all (\<lambda>(n, t). ssa_ok n \<and> type_ok t) xs"
  shows "List.map_filter parse_input (split_comma (comma_list (map input_text xs))) = map (\<lambda>(n, t). (ssa_format n, t)) xs"
proof -
  have "\<forall>p \<in> set (map input_text xs). item_ok p" using assms input_item by (auto simp: list_all_iff)
  then have "split_comma (comma_list (map input_text xs)) = map input_text xs" by (rule split_comma_list)
  moreover have "List.map_filter parse_input (map input_text xs) = map (\<lambda>(n, t). (ssa_format n, t)) xs"
    using assms by (induction xs) (auto simp: map_filter_def input_parsed)
  ultimately show ?thesis by simp
qed

text \<open>The attributes of a function and what is read from them.\<close>

definition header_dict :: "mlir_function \<Rightarrow> (string, json) dict" where
  "header_dict f =
     (let flags = map (\<lambda>(_, _, c). c) (mf_outputs f)
      in (if True \<in> set flags then [(''sf.consumed_internally'', JList (map JBool flags))] else [])
         @ (if mf_weight_names f \<noteq> [] then [(''sf.weight_names'', JList (mf_weight_names f))] else []))"

lemma words_list_reads:
  assumes k: "word k" and ps: "\<forall>p \<in> set ps. item_ok p \<and> (\<forall>t. attr_scan 1 False (p @ t) = attr_scan 1 False t)"
    and vs: "map (parse_attr_value fl) ps = vs"
  shows "reads fl (k @ '' = ['' @ comma_list ps @ '']'') (k, JList vs)"
proof -
  let ?x = "''['' @ comma_list ps @ '']''"
  have "trimmed ?x" by (simp add: trimmed_def is_blank_def)
  moreover have "attr_scan 0 False ?x = Some (0, False)" using ps by (intro attr_scan_list) simp
  moreover have "parse_value fl ?x = JList vs" using parse_value_items[of ps fl] ps vs by simp
  ultimately show ?thesis using attr_reads[OF k, of ?x fl "JList vs"] by simp
qed

lemma bool_item:
  "item_ok (if c then ''true'' else ''false'')" "attr_scan 1 False ((if c then ''true'' else ''false'') @ t) = attr_scan 1 False t"
  "parse_attr_value fl (if c then ''true'' else ''false'') = JBool c"
proof -
  have w: "word (if c then ''true'' else ''false'')" by (simp add: word_def plain_def is_blank_def)
  then show "item_ok (if c then ''true'' else ''false'')" by (rule word_item)
  show "attr_scan 1 False ((if c then ''true'' else ''false'') @ t) = attr_scan 1 False t"
    by (rule attr_scan_append[OF attr_scan_neutral[OF word_neutral[OF w]]])
  show "parse_attr_value fl (if c then ''true'' else ''false'') = JBool c"
    using py_strip_trimmed[OF word_trimmed[OF w]] by (simp add: parse_attr_value_def parse_scalar_def split: if_splits)
qed

lemma bool_items:
  "\<forall>p \<in> set (map (\<lambda>c. if c then ''true'' else ''false'') cs). item_ok p \<and> (\<forall>t. attr_scan 1 False (p @ t) = attr_scan 1 False t)"
  "map (parse_attr_value fl) (map (\<lambda>c. if c then ''true'' else ''false'') cs) = map JBool cs"
  using bool_item by (induction cs) (simp_all del: append.simps)

lemma header_attrs:
  assumes ok: "func_ok F fl f"
  shows "list_all2 (reads fl) (func_attrs F f) (header_dict f)"
proof -
  let ?flags = "map (\<lambda>(_, _, c). c) (mf_outputs f)"
  have k: "word ''sf.consumed_internally''" "word ''sf.weight_names''" by (simp_all add: word_def plain_def is_blank_def)
  have "reads fl (''sf.consumed_internally'' @ '' = ['' @ comma_list (map (\<lambda>c. if c then ''true'' else ''false'') ?flags) @ '']'')
      (''sf.consumed_internally'', JList (map JBool ?flags))"
    by (rule words_list_reads[OF k(1) bool_items])
  moreover have "reads fl (''sf.weight_names'' @ '' = ['' @ comma_list (map (\<lambda>n. quoted (py_str F n)) (mf_weight_names f)) @ '']'')
      (''sf.weight_names'', JList (mf_weight_names f))"
  proof (rule words_list_reads[OF k(2)])
    have w: "\<exists>s. w = JStr s \<and> word s" if "w \<in> set (mf_weight_names f)" for w
      using ok that by (auto simp: func_ok_def list_all_iff)
    have i: "item_value_ok w \<and> quoted (py_str F w) = format_item F w" if "w \<in> set (mf_weight_names f)" for w
      using w[OF that] by auto
    show "\<forall>p \<in> set (map (\<lambda>n. quoted (py_str F n)) (mf_weight_names f)). item_ok p \<and> (\<forall>t. attr_scan 1 False (p @ t) = attr_scan 1 False t)"
      using i item_value(1)[of _ F] attr_scan_item[of _ 1 F] by simp
    show "map (parse_attr_value fl) (map (\<lambda>n. quoted (py_str F n)) (mf_weight_names f)) = mf_weight_names f"
      using i item_value(2)[of _ fl F] by (simp add: map_idI)
  qed
  ultimately show ?thesis by (simp add: func_attrs_def header_dict_def Let_def)
qed

definition return_types :: "string \<Rightarrow> string list" where
  "return_types part =
     (let p = (if ends_with part ''{'' then py_strip (butlast part) else part)
      in if p = [] \<or> p = ''()'' then [] else map py_strip (split_comma (if starts_with p ''('' then inner p else p)))"

lemma return_types_printed:
  assumes ts: "list_all type_ok ts"
  shows "return_types (one_or_tuple ts @ '' {'') = ts"
proof -
  let ?T = "one_or_tuple ts"
  have "py_strip (?T @ '' '') = ?T" using py_strip_pad[of "[]" "'' ''" ?T] one_or_tuple_trimmed[OF ts] by simp
  then have p: "(if ends_with (?T @ '' {'') ''{'' then py_strip (butlast (?T @ '' {'')) else ?T @ '' {'') = ?T"
    by (simp add: ends_with_single butlast_append)
  have rt: "return_types (?T @ '' {'') = (if ?T = [] \<or> ?T = ''()'' then [] else map py_strip (split_comma (if starts_with ?T ''('' then inner ?T else ?T)))"
    unfolding return_types_def p by (simp only: Let_def)
  note items = split_comma_list[OF types_items[OF ts]] map_strip_items[OF types_items[OF ts]]
  from one_or_tuple_cases[of ts] show ?thesis
  proof (elim disjE exE conjE)
    fix t assume t: "ts = [t]" "?T = t"
    then have tt: "type_ok t" using ts by simp
    then have "t \<noteq> []" "CHR ''('' \<notin> set t" using type_chars[of t "CHR ''(''"] by (auto simp: type_ok_def)
    moreover from this have "hd t \<noteq> CHR ''(''" by (metis hd_in_set)
    ultimately have "t \<noteq> []" "t \<noteq> ''()''" "\<not> starts_with t ''(''" by (auto simp: starts_with_single)
    moreover have "split_comma t = [t]" "py_strip t = t" using items t(1) by (simp_all add: comma_list_def)
    ultimately show ?thesis using t(1) unfolding rt unfolding t(2) by simp
  next
    assume T: "?T = ''('' @ comma_list ts @ '')''"
    show ?thesis
    proof (cases "ts = []")
      case True
      then show ?thesis unfolding rt unfolding T by (simp add: comma_list_def)
    next
      case False
      then have "trimmed (comma_list ts)" using ts by (intro comma_list_trimmed) (auto simp: list_all_iff type_trimmed)
      then have "comma_list ts \<noteq> []" by (simp add: trimmed_def)
      then show ?thesis unfolding rt unfolding T using items by (simp add: starts_with_single)
    qed
  qed
qed

definition header_suffix :: "py_format \<Rightarrow> mlir_function \<Rightarrow> string" where
  "header_suffix F f = (if func_attrs F f = [] then [] else '' attributes {'' @ join_with ''; '' (func_attrs F f) @ ''}'')"

lemma func_attrs_inline: "func_ok F fl f \<Longrightarrow> inline (join_with ''; '' (func_attrs F f))"
proof (rule inline_join)
  assume ok: "func_ok F fl f"
  have "inline (quoted (py_str F w))" if "w \<in> set (mf_weight_names f)" for w
    using ok that by (auto simp: func_ok_def list_all_iff word_def intro!: plain_inline)
  then have "inline (comma_list (map (\<lambda>n. quoted (py_str F n)) (mf_weight_names f)))" by (intro inline_comma) auto
  then have "inline (''sf.weight_names = ['' @ comma_list (map (\<lambda>n. quoted (py_str F n)) (mf_weight_names f)) @ '']'')" by (simp add: is_break_def)
  moreover have "inline (''sf.consumed_internally = ['' @ comma_list (map (\<lambda>c. if c then ''true'' else ''false'') flags) @ '']'')" for flags
  proof -
    have "inline (comma_list (map (\<lambda>c. if c then ''true'' else ''false'') flags))" by (rule inline_comma) (auto simp: is_break_def)
    then show ?thesis by (simp add: is_break_def)
  qed
  ultimately show "\<forall>p \<in> set (func_attrs F f). inline p"
    by (auto simp only: func_attrs_def Let_def set_append list.set Un_iff empty_iff insert_iff split: if_splits)
qed simp

lemma returns_parsed:
  assumes ok: "func_ok F fl f"
  shows "\<exists>flags wnames. parse_returns F fl (one_or_tuple (map (\<lambda>(_, t, _). t) (mf_outputs f)) @ header_suffix F f @ '' {'')
       = Inr (map (\<lambda>(_, t, _). t) (mf_outputs f), flags, wnames)
     \<and> flags = (if True \<in> set (map (\<lambda>(_, _, c). c) (mf_outputs f)) then map (\<lambda>(_, _, c). c) (mf_outputs f) else [])
     \<and> map JStr wnames = mf_weight_names f"
proof -
  let ?ts = "map (\<lambda>(_, t, _). t) (mf_outputs f)" and ?flags = "map (\<lambda>(_, _, c). c) (mf_outputs f)"
  let ?T = "one_or_tuple ?ts" and ?A = "join_with ''; '' (func_attrs F f)"
  have ts: "list_all type_ok ?ts" using ok by (auto simp: func_ok_def list_all_iff)
  have brace: "CHR ''{'' \<notin> set ?T" using one_or_tuple_chars[OF ts, of "CHR ''{''"] by simp
  have types: "res_bind (Inr (?T @ '' {'', fl', wn')) (\<lambda>(part, flags, wnames). Inr (return_types part, flags, wnames)) = Inr (?ts, fl', wn')" for fl' wn'
    by (simp add: return_types_printed[OF ts])
  show ?thesis
  proof (cases "func_attrs F f = []")
    case True
    have "\<not> ends_with ?T ''attributes''"
      using one_or_tuple_cases[of ?ts] ts by (elim disjE exE conjE) (simp_all add: type_ok_def ends_with_def)
    then have "find_str (?T @ '' {'') ''attributes {'' = None" by (rule no_attributes[OF brace])
    moreover have "True \<notin> set ?flags" "mf_weight_names f = []" using True by (auto simp: func_attrs_def Let_def split: if_splits)
    ultimately show ?thesis using True types[of "[]" "[]"] by (simp add: header_suffix_def parse_returns_def return_types_def Let_def)
  next
    case False
    let ?part = "?T @ header_suffix F f @ '' {''"
    have part: "?part = (?T @ '' '') @ ''attributes '' @ CHR ''{'' # ?A @ ''} {''" using False by (simp add: header_suffix_def)
    have start: "find_str ?part ''attributes {'' = Some (Suc (length ?T))"
      unfolding part using find_str_last[of "CHR ''{''" "?T @ '' ''" "''attributes ''" "?A @ ''} {''"] brace by simp
    have "CHR ''}'' \<notin> set (''attributes {'' @ ?A)" using func_attrs_inline[OF ok] by (auto simp: inline_def list_all_iff)
    then have close: "find_from ?part ''}'' (Suc (length ?T)) = Some (length ?T + 13 + length ?A)"
      unfolding part using find_from_char[of "Suc (length ?T)" "?T @ '' ''" "CHR ''}''" "''attributes {'' @ ?A" "'' {''"] by simp
    have inn: "inner (drop (Suc (length ?T) + length ''attributes '') (take (Suc (length ?T + 13 + length ?A)) ?part)) = ?A"
      unfolding part by (simp add: numeral_eq_Suc inner_def)
    have before: "py_strip (take (Suc (length ?T)) ?part) = ?T"
      unfolding part using py_strip_pad[of "[]" "'' ''" ?T] one_or_tuple_trimmed[OF ts] by simp
    have after: "py_strip (drop (Suc (length ?T + 13 + length ?A)) ?part) = ''{''"
      unfolding part by (simp add: numeral_eq_Suc py_strip_def is_blank_def)
    have "distinct (map fst (header_dict f))" by (simp add: header_dict_def Let_def)
    then have attrs: "parse_attrs fl ?A = header_dict f" using parse_attrs_printed[OF header_attrs[OF ok], of "CHR '';''"] by simp
    have flags: "(case map_of (header_dict f) ''sf.consumed_internally'' of Some (JList vs) \<Rightarrow> map flag_value vs | _ \<Rightarrow> [])
       = (if True \<in> set ?flags then ?flags else [])"
      by (simp add: header_dict_def Let_def comp_def split_def)
    define wn where "wn = (case map_of (header_dict f) ''sf.weight_names'' of Some (JList vs) \<Rightarrow> map (py_str F) vs | _ \<Rightarrow> [])"
    have "map (\<lambda>w. JStr (py_str F w)) (mf_weight_names f) = mf_weight_names f"
      using ok by (intro map_idI) (auto simp: func_ok_def list_all_iff)
    then have "map JStr wn = mf_weight_names f" by (simp add: wn_def header_dict_def Let_def comp_def)
    moreover have "parse_returns F fl ?part = Inr (?ts, if True \<in> set ?flags then ?flags else [], wn)"
      unfolding parse_returns_def start option.case close res_of_option_simps res_bind_Inr Let_def inn before after attrs flags wn_def[symmetric]
      using types[of "if True \<in> set ?flags then ?flags else []" wn] by (simp add: return_types_def Let_def)
    ultimately show ?thesis by blast
  qed
qed

text \<open>A function after its header and after its return line.\<close>

definition header_function :: "mlir_function \<Rightarrow> mlir_function" where
  "header_function f = (reread_function f)\<lparr>mf_outputs := map (\<lambda>(_, t, c). ([], t, c)) (mf_outputs f), mf_ops := []\<rparr>"

lemma flags_back:
  "map (\<lambda>(i, tp). ([]::string, tp, if i < length flags then flags ! i else False)) (enum_from 0 (map (\<lambda>(_, t, _). t) os)) = map (\<lambda>(_, t, c). ([], t, c)) os"
  if "flags = (if True \<in> set (map (\<lambda>(_, _, c). c) os) then map (\<lambda>(_, _, c). c) os else [])"
proof (rule nth_equalityI)
  fix i assume i: "i < length (map (\<lambda>(i, tp). ([]::string, tp, if i < length flags then flags ! i else False)) (enum_from 0 (map (\<lambda>(_, t, _). t) os)))"
  then have i: "i < length os" by simp
  obtain n t c where o': "os ! i = (n, t, c)" by (cases "os ! i")
  have "(if i < length flags then flags ! i else False) = c"
  proof (cases "flags = []")
    case True
    then have "c \<notin> {True}" using that i o' by (force split: if_splits simp: set_conv_nth)
    then show ?thesis using True by simp
  next
    case False
    then have "flags = map (\<lambda>(_, _, c). c) os" using that by (simp split: if_splits)
    then show ?thesis using i o' by simp
  qed
  then show "map (\<lambda>(i, tp). ([], tp, if i < length flags then flags ! i else False)) (enum_from 0 (map (\<lambda>(_, t, _). t) os)) ! i
      = map (\<lambda>(_, t, c). ([]::string, t, c)) os ! i"
    using i o' by (simp add: nth_enum_from)
qed simp

lemma header_parsed:
  assumes ok: "func_ok F fl f"
  shows "parse_func F fl (func_header F f) = Inr (header_function f)"
proof -
  let ?args = "comma_list (map input_text (mf_inputs f))" and ?ts = "map (\<lambda>(_, t, _). t) (mf_outputs f)"
  let ?tail = "one_or_tuple ?ts @ header_suffix F f @ '' {''"
  let ?rest = "mf_name f @ ''('' @ ?args @ '') -> '' @ ?tail"
  have rest: "drop (length ''func.func @'') (func_header F f) = ?rest"
    by (simp add: func_header_def header_suffix_def input_text_def[abs_def])
  have name: "word (mf_name f)" and ins: "list_all (\<lambda>(n, t). ssa_ok n \<and> type_ok t) (mf_inputs f)" using ok by (simp_all add: func_ok_def)
  have args: "c \<notin> set ?args" if "\<not> plain c" "c \<notin> set ''%<>:, ''" for c
    using ins that ssa_format_chars type_chars by (intro comma_list_chars) (fastforce simp: list_all_iff input_text_def)+
  have open_paren: "py_find ?rest ''('' = int (length (mf_name f))"
    using word_chars[OF name, of "CHR ''(''"] by (intro py_find_skip) simp_all
  have close: "py_find ?rest '')'' = int (length (mf_name f) + Suc (length ?args))"
    using py_find_skip[of "'')''" "mf_name f @ ''('' @ ?args" "'') -> '' @ ?tail"] word_chars[OF name, of "CHR '')''"] args[of "CHR '')''"] by simp
  have arrow: "py_find ?rest ''->'' = int (length (mf_name f) + length ?args + 3)"
    using py_find_skip[of "''->''" "mf_name f @ ''('' @ ?args @ '') ''" "''-> '' @ ?tail"] word_chars[OF name, of "CHR ''-''"] args[of "CHR ''-''"] by simp
  have nm: "py_slice ?rest 0 (int (length (mf_name f))) = mf_name f" using py_slice_nat[of ?rest 0 "length (mf_name f)"] by simp
  have argp: "py_slice ?rest (int (length (mf_name f)) + 1) (int (length (mf_name f) + Suc (length ?args))) = ?args"
    using py_slice_nat[of ?rest "Suc (length (mf_name f))" "length (mf_name f) + Suc (length ?args)"] by (simp add: add.commute)
  have ts: "list_all type_ok ?ts" using ok by (auto simp: func_ok_def list_all_iff)
  have "trimmed ?tail" using trimmed_append[OF one_or_tuple_trimmed[OF ts], of "''{''" "header_suffix F f @ '' ''"] by (simp add: trimmed_def is_blank_def)
  then have "py_strip ('' '' @ ?tail) = ?tail" using py_strip_pad[of "'' ''" "[]" ?tail] by simp
  moreover have "py_from ?rest (int (length (mf_name f) + length ?args + 3) + 2) = '' '' @ ?tail"
    using py_from_nat[of ?rest "length (mf_name f) + length ?args + 5"] by (simp add: numeral_eq_Suc)
  ultimately have tail: "py_strip (py_from ?rest (int (length (mf_name f) + length ?args + 3) + 2)) = ?tail" by simp
  obtain flags wnames where r: "parse_returns F fl ?tail = Inr (?ts, flags, wnames)"
      "flags = (if True \<in> set (map (\<lambda>(_, _, c). c) (mf_outputs f)) then map (\<lambda>(_, _, c). c) (mf_outputs f) else [])"
      "map JStr wnames = mf_weight_names f"
    using returns_parsed[OF ok] by blast
  have pos: "int (length (mf_name f) + length ?args + 3) > 0" by simp
  show ?thesis
    unfolding parse_func_def rest Let_def open_paren close arrow nm argp tail r(1) if_P[OF pos] res_bind_Inr prod.case inputs_parsed[OF ins]
      flags_back[OF r(2)] r(3) py_strip_trimmed[OF word_trimmed[OF name]]
    by (simp add: header_function_def reread_function_def)
qed

lemma strip_chars_keeps:
  assumes "c \<in> set s" "c \<notin> set cs"
  shows "strip_chars cs s \<noteq> []"
proof -
  have keep: "c \<in> set (dropWhile (\<lambda>c. c \<in> set cs) x)" if "c \<in> set x" for x using that assms(2) by (induction x) auto
  have "c \<in> set (strip_chars cs s)" using keep[OF assms(1)] keep[of "rev (dropWhile (\<lambda>c. c \<in> set cs) s)"] by (simp add: strip_chars_def)
  then show ?thesis by auto
qed

lemma return_parsed:
  assumes ok: "func_ok F fl f" and out: "mf_outputs f \<noteq> []" and g: "mf_outputs g = map (\<lambda>(_, t, c). ([], t, c)) (mf_outputs f)"
  shows "\<exists>s. return_lines f = Inr [''    '' @ s] \<and> line_ok s \<and> (\<exists>t. s = ''func.return'' @ t)
     \<and> parse_return s g = Inr (g\<lparr>mf_outputs := mf_outputs (reread_function f)\<rparr>)"
proof -
  let ?ns = "map (\<lambda>(n, _, _). ssa_format n) (mf_outputs f)" and ?ts = "map (\<lambda>(_, t, _). t) (mf_outputs f)"
  let ?ret = "comma_list ?ns"
  have ts: "list_all type_ok ?ts" using ok by (auto simp: func_ok_def list_all_iff)
  have ns: "list_all ssa_ok (map fst (mf_outputs f))" and map_ns: "map ssa_format (map fst (mf_outputs f)) = ?ns"
    using ok by (auto simp: func_ok_def list_all_iff)
  have "\<forall>p \<in> set ?ns. item_ok p" using ok ssa_format_item by (auto simp: func_ok_def list_all_iff)
  note items = split_comma_list[OF this] map_strip_items[OF this]
  have ne: "?ns \<noteq> []" "?ts \<noteq> []" using out by simp_all
  have tr: "trimmed ?ret" "trimmed (comma_list ?ts)"
    using ne ok ssa_format_trimmed type_trimmed by (intro comma_list_trimmed; force simp: func_ok_def list_all_iff)+
  have "CHR ''%'' \<in> set ?ret"
    using ne(1) ns ssa_format_hd map_ns[symmetric] comma_list_hd[of ?ns "CHR ''%''"] by (cases "mf_outputs f") fastforce+
  then have sc: "strip_chars '', '' ?ret \<noteq> []" by (rule strip_chars_keeps) simp
  let ?s = "''func.return '' @ ?ret @ '' : '' @ comma_list ?ts"
  have "trimmed ?s" using trimmed_append[of "''func.return''" "comma_list ?ts" "'' '' @ ?ret @ '' : ''"] tr(2) by (simp add: trimmed_def is_blank_def)
  then have line: "line_ok ?s"
    using inline_line[OF ssa_list_inline[OF ns]] inline_line[OF types_inline[OF ts]] unfolding map_ns by (simp add: line_ok_def is_break_def)
  have "trimmed (?ret @ '' : '' @ comma_list ?ts)" using trimmed_append[OF tr] .
  then have content: "py_strip (drop (length ''func.return'') ?s) = (?ret @ '' '') @ CHR '':'' # '' '' @ comma_list ?ts"
    using py_strip_pad[of "'' ''" "[]" "?ret @ '' : '' @ comma_list ?ts"] by simp
  have "CHR '':'' \<notin> set ('' '' @ comma_list ?ts)" using type_list_chars[OF ts, of "CHR '':''"] by simp
  then have colon: "py_rfind ((?ret @ '' '') @ CHR '':'' # '' '' @ comma_list ?ts) CHR '':'' = int (length (?ret @ '' ''))" by (rule py_rfind_char)
  have "py_slice ((?ret @ '' '') @ CHR '':'' # '' '' @ comma_list ?ts) 0 (int (length (?ret @ '' ''))) = ?ret @ '' ''"
    using py_slice_nat[of "(?ret @ '' '') @ CHR '':'' # '' '' @ comma_list ?ts" 0 "length (?ret @ '' '')"] by simp
  then have part: "py_strip (py_slice ((?ret @ '' '') @ CHR '':'' # '' '' @ comma_list ?ts) 0 (int (length (?ret @ '' '')))) = ?ret"
    using py_strip_pad[of "[]" "'' ''" ?ret] tr(1) by simp
  have full: "filter (\<lambda>n. py_strip n \<noteq> []) ?ns = ?ns"
    using items(2) \<open>\<forall>p \<in> set ?ns. item_ok p\<close> by (intro filter_True) (auto simp: item_ok_def trimmed_def py_strip_trimmed)
  have zip: "map (\<lambda>(n, (_, tp, c)). (n, tp, c)) (zip ?ns (map (\<lambda>(_, t, c). ([]::string, t, c)) os)) = map (\<lambda>(n, t, c). (ssa_format n, t, c)) os"
    if "?ns = map (\<lambda>(n, _, _). ssa_format n) os" for os
    unfolding that by (induction os) auto
  have has: "CHR '':'' \<in> set ((?ret @ '' '') @ CHR '':'' # '' '' @ comma_list ?ts)" by simp
  have "parse_return ?s g = Inr (g\<lparr>mf_outputs := mf_outputs (reread_function f)\<rparr>)"
    unfolding parse_return_def content Let_def if_P[OF has] colon part items(1) full items(2) g
    using ne(1) zip[OF refl] by (simp add: reread_function_def)
  then show ?thesis using line out sc by (auto simp: return_lines_def)
qed



section \<open>Lines\<close>

lemma line_stripped:
  assumes "line_ok s" "list_all is_blank pad"
  shows "py_strip (pad @ s) = s"
  using py_strip_pad[of pad "[]" s] assms by (simp add: line_ok_def)

lemma parse_op_line:
  assumes s: "op_printed F fl op s"
  shows "parse_line F fl \<lparr>ps_functions = fs, ps_chain_order = c, ps_exec_plan = e, ps_current = Some g, ps_names = json_names ws\<rparr> (''    '' @ s)
     = Inr \<lparr>ps_functions = fs, ps_chain_order = c, ps_exec_plan = e, ps_current = Some (g\<lparr>mf_ops := mf_ops g @ [reread_op ws op]\<rparr>),
            ps_names = json_names (op_weights ws op)\<rparr>"
proof -
  have st: "py_strip (''    '' @ s) = s" using s by (intro line_stripped) (simp_all add: op_printed_def)
  obtain t where t: "s = CHR ''%'' # t" using s by (auto simp: op_printed_def)
  have p: "parse_mlir_op fl s (json_names ws) = Inr (reread_op ws op, json_names (op_weights ws op))" and q: "CHR ''='' \<in> set s \<and> CHR ''\"'' \<in> set s"
    using s by (auto simp: op_printed_def)
  have no: "s \<noteq> [] \<and> \<not> starts_with s ''//'' \<and> s \<noteq> ''module {'' \<and> \<not> starts_with s ''module attributes {'' \<and> s \<noteq> ''}''
      \<and> \<not> starts_with s ''func.func @'' \<and> \<not> starts_with s ''func.return'' \<and> s \<noteq> ''{''"
    unfolding t by simp
  show ?thesis unfolding parse_line_def st Let_def using no q p by simp
qed

lemma parse_op_lines:
  assumes "list_all2 (op_printed F fl) ops ss"
  shows "\<exists>ws'. res_foldM (parse_line F fl) \<lparr>ps_functions = fs, ps_chain_order = c, ps_exec_plan = e, ps_current = Some g, ps_names = json_names ws\<rparr>
       (map (\<lambda>s. ''    '' @ s) ss)
     = Inr \<lparr>ps_functions = fs, ps_chain_order = c, ps_exec_plan = e, ps_current = Some (g\<lparr>mf_ops := mf_ops g @ reread_ops ws ops\<rparr>), ps_names = ws'\<rparr>"
  using assms
proof (induction ops ss arbitrary: g ws rule: list_all2_induct)
  case (Cons op ops s ss)
  show ?case using Cons.IH[of "g\<lparr>mf_ops := mf_ops g @ [reread_op ws op]\<rparr>" "op_weights ws op"] parse_op_line[OF Cons.hyps(1), of fs c e g ws] by simp
qed simp

lemma parse_header_line:
  assumes ok: "func_ok F fl f"
  shows "parse_line F fl st (''  '' @ func_header F f) = Inr (st\<lparr>ps_current := Some (header_function f), ps_names := []\<rparr>)"
    "list_all (\<lambda>c. \<not> is_break c) (func_header F f)"
proof -
  let ?s = "func_header F f"
  obtain t where t: "?s = ''func.func @'' @ t @ ''{''" by (simp add: func_header_def)
  have "trimmed ?s" unfolding t by (simp add: trimmed_def is_blank_def)
  then have st: "py_strip (''  '' @ ?s) = ?s" using py_strip_pad[of "''  ''" "[]" ?s] by simp
  have no: "?s \<noteq> [] \<and> \<not> starts_with ?s ''//'' \<and> ?s \<noteq> ''module {'' \<and> \<not> starts_with ?s ''module attributes {'' \<and> ?s \<noteq> ''}''
      \<and> starts_with ?s ''func.func @''"
    unfolding t by simp
  show "parse_line F fl st (''  '' @ ?s) = Inr (st\<lparr>ps_current := Some (header_function f), ps_names := []\<rparr>)"
    unfolding parse_line_def st Let_def using no header_parsed[OF ok] by simp
  have name: "inline (mf_name f)" using ok plain_inline by (auto simp: func_ok_def word_def)
  have "inline (ssa_format n @ '': '' @ t)" if "ssa_ok n" "type_ok t" for n t
    using ssa_list_inline[of "[n]"] type_inline[OF that(2)] that(1) by (simp add: comma_list_def)
  then have args: "inline (comma_list (map (\<lambda>(n, t). ssa_format n @ '': '' @ t) (mf_inputs f)))"
    using ok by (intro inline_comma) (auto simp: func_ok_def list_all_iff simp del: inline_append)
  have "list_all type_ok (map (\<lambda>(_, t, _). t) (mf_outputs f))" using ok by (auto simp: func_ok_def list_all_iff)
  then have types: "inline (one_or_tuple (map (\<lambda>(_, t, _). t) (mf_outputs f)))" by (rule one_or_tuple_inline)
  show "list_all (\<lambda>c. \<not> is_break c) ?s"
    using inline_line[OF name] inline_line[OF args] inline_line[OF types] inline_line[OF func_attrs_inline[OF ok]]
    by (simp add: func_header_def) (simp add: is_break_def)
qed

lemma parse_return_line:
  assumes s: "line_ok s" "\<exists>t. s = ''func.return'' @ t" and p: "parse_return s g = Inr g'"
  shows "parse_line F fl \<lparr>ps_functions = fs, ps_chain_order = c, ps_exec_plan = e, ps_current = Some g, ps_names = ws\<rparr> (''    '' @ s)
     = Inr \<lparr>ps_functions = fs, ps_chain_order = c, ps_exec_plan = e, ps_current = Some g', ps_names = ws\<rparr>"
proof -
  have st: "py_strip (''    '' @ s) = s" using s(1) by (intro line_stripped) simp_all
  have no: "s \<noteq> [] \<and> \<not> starts_with s ''//'' \<and> s \<noteq> ''module {'' \<and> \<not> starts_with s ''module attributes {'' \<and> s \<noteq> ''}''
      \<and> \<not> starts_with s ''func.func @'' \<and> starts_with s ''func.return''"
    using s(2) by auto
  show ?thesis unfolding parse_line_def st Let_def using no p by simp
qed

lemma parse_brace_line:
  "list_all is_blank pad \<Longrightarrow> parse_line F fl st (pad @ ''}'') =
     Inr (case ps_current st of None \<Rightarrow> st | Some f \<Rightarrow> st\<lparr>ps_functions := ps_functions st @ [f], ps_current := None\<rparr>)"
proof -
  assume pad: "list_all is_blank pad"
  have "trimmed ''}''" by (simp add: trimmed_def is_blank_def)
  then have st: "py_strip (pad @ ''}'') = ''}''" using py_strip_pad[OF pad, of "[]" "''}''"] by simp
  show ?thesis unfolding parse_line_def st Let_def by simp
qed

lemma ops_printed:
  "list_all (op_ok F fl) ops \<Longrightarrow> \<exists>ss. list_all2 (op_printed F fl) ops ss \<and> res_mapM (op_line F) ops = Inr (map (\<lambda>s. ''    '' @ s) ss)"
proof (induction ops)
  case (Cons op ops)
  have "op_ok F fl op" "list_all (op_ok F fl) ops" using Cons.prems by simp_all
  then obtain ss s where "list_all2 (op_printed F fl) ops ss" "res_mapM (op_line F) ops = Inr (map (\<lambda>s. ''    '' @ s) ss)" "op_printed F fl op s"
    using Cons.IH op_printed_ok by blast
  moreover from this have "op_line F op = Inr (''    '' @ s)" by (simp add: op_printed_def)
  ultimately show ?case by (intro exI[of _ "s # ss"]) simp
qed simp

definition func_printed :: "py_format \<Rightarrow> (string \<Rightarrow> json option) \<Rightarrow> mlir_function \<Rightarrow> string list \<Rightarrow> bool" where
  "func_printed F fl f ls \<longleftrightarrow> func_lines F f = Inr ls \<and> (\<forall>l \<in> set ls. list_all (\<lambda>c. \<not> is_break c) l)
     \<and> (\<forall>fs c e ns. \<exists>ns'. res_foldM (parse_line F fl) \<lparr>ps_functions = fs, ps_chain_order = c, ps_exec_plan = e, ps_current = None, ps_names = ns\<rparr> ls
          = Inr \<lparr>ps_functions = fs @ [reread_function f], ps_chain_order = c, ps_exec_plan = e, ps_current = None, ps_names = ns'\<rparr>)"

lemma func_printed_ok:
  assumes ok: "func_ok F fl f"
  shows "\<exists>ls. func_printed F fl f ls"
proof -
  have "list_all (op_ok F fl) (mf_ops f)" using ok by (simp add: func_ok_def)
  then obtain ss where ss: "list_all2 (op_printed F fl) (mf_ops f) ss" "res_mapM (op_line F) (mf_ops f) = Inr (map (\<lambda>s. ''    '' @ s) ss)"
    using ops_printed by blast
  have ss_lines: "\<forall>l \<in> set (map (\<lambda>s. ''    '' @ s) ss). list_all (\<lambda>c. \<not> is_break c) l"
    using ss(1) by (auto simp: op_printed_def line_ok_def list_all2_conv_all_nth in_set_conv_nth)
  define g where "g = (header_function f)\<lparr>mf_ops := reread_ops [] (mf_ops f)\<rparr>"
  have g: "mf_outputs g = map (\<lambda>(_, t, c). ([], t, c)) (mf_outputs f)" "g\<lparr>mf_outputs := mf_outputs (reread_function f)\<rparr> = reread_function f"
    by (simp_all add: g_def header_function_def reread_function_def)
  have ops: "\<exists>ns'. res_foldM (parse_line F fl) \<lparr>ps_functions = fs, ps_chain_order = c, ps_exec_plan = e, ps_current = Some (header_function f), ps_names = []\<rparr>
       (map (\<lambda>s. ''    '' @ s) ss) = Inr \<lparr>ps_functions = fs, ps_chain_order = c, ps_exec_plan = e, ps_current = Some g, ps_names = ns'\<rparr>" for fs c e
    using parse_op_lines[OF ss(1), of fs c e "header_function f" "[]"] by (simp add: json_names_def g_def header_function_def)
  have "\<exists>rls. return_lines f = Inr rls \<and> (\<forall>l \<in> set rls. list_all (\<lambda>c. \<not> is_break c) l)
      \<and> (\<forall>fs c e ns. res_foldM (parse_line F fl) \<lparr>ps_functions = fs, ps_chain_order = c, ps_exec_plan = e, ps_current = Some g, ps_names = ns\<rparr> rls
         = Inr \<lparr>ps_functions = fs, ps_chain_order = c, ps_exec_plan = e, ps_current = Some (reread_function f), ps_names = ns\<rparr>)"
  proof (cases "mf_outputs f = []")
    case True
    then show ?thesis by (simp add: return_lines_def g_def header_function_def reread_function_def)
  next
    case False
    obtain s where s: "return_lines f = Inr [''    '' @ s]" "line_ok s" "\<exists>t. s = ''func.return'' @ t" "parse_return s g = Inr (reread_function f)"
      using return_parsed[OF ok False g(1)] g(2) by auto
    then show ?thesis using parse_return_line[OF s(2,3,4)] by (intro exI[of _ "[''    '' @ s]"]) (simp add: line_ok_def)
  qed
  then obtain rls where rls: "return_lines f = Inr rls" "\<forall>l \<in> set rls. list_all (\<lambda>c. \<not> is_break c) l"
      "res_foldM (parse_line F fl) \<lparr>ps_functions = fs, ps_chain_order = c, ps_exec_plan = e, ps_current = Some g, ps_names = ns\<rparr> rls
         = Inr \<lparr>ps_functions = fs, ps_chain_order = c, ps_exec_plan = e, ps_current = Some (reread_function f), ps_names = ns\<rparr>" for fs c e ns
    by blast
  note hdr = parse_header_line[OF ok]
  have pad: "list_all is_blank ''  ''" by simp
  let ?ls = "(''  '' @ func_header F f) # map (\<lambda>s. ''    '' @ s) ss @ rls @ [''  '' @ ''}'']"
  have lines: "func_lines F f = Inr ?ls" using ss(2) rls(1) by (simp add: func_lines_def)
  have breaks: "\<forall>l \<in> set ?ls. list_all (\<lambda>c. \<not> is_break c) l" using ss_lines rls(2) hdr(2) by auto
  have "\<exists>ns'. res_foldM (parse_line F fl) \<lparr>ps_functions = fs, ps_chain_order = c, ps_exec_plan = e, ps_current = None, ps_names = ns\<rparr> ?ls
      = Inr \<lparr>ps_functions = fs @ [reread_function f], ps_chain_order = c, ps_exec_plan = e, ps_current = None, ps_names = ns'\<rparr>" for fs c e ns
  proof -
    obtain ns' where o': "res_foldM (parse_line F fl) \<lparr>ps_functions = fs, ps_chain_order = c, ps_exec_plan = e, ps_current = Some (header_function f), ps_names = []\<rparr>
       (map (\<lambda>s. ''    '' @ s) ss) = Inr \<lparr>ps_functions = fs, ps_chain_order = c, ps_exec_plan = e, ps_current = Some g, ps_names = ns'\<rparr>"
      using ops by blast
    show ?thesis unfolding res_foldM.simps hdr(1) res_bind_Inr res_foldM_append parse_state.update_convs o' rls(3)
      parse_brace_line[OF pad] by simp
  qed
  then show ?thesis using lines breaks unfolding func_printed_def by blast
qed



section \<open>Modules\<close>

lemma bracket_here_Some:
  "bracket_here key s = Some g \<Longrightarrow> \<exists>blanks b. list_all is_blank blanks \<and> s = key @ blanks @ CHR ''='' # b"
proof -
  assume a: "bracket_here key s = Some g"
  then have "starts_with s key" by (simp add: bracket_here_def split: if_splits)
  then have s: "s = key @ drop (length key) s" using append_take_drop_id[of "length key" s] starts_with_take by metis
  obtain b where "dropWhile is_blank (drop (length key) s) = CHR ''='' # b"
    using a by (auto simp: bracket_here_def split: if_splits list.splits)
  then have "drop (length key) s = takeWhile is_blank (drop (length key) s) @ CHR ''='' # b" using takeWhile_dropWhile_id by metis
  moreover have "list_all is_blank (takeWhile is_blank (drop (length key) s))" by (auto simp: list_all_iff dest: set_takeWhileD)
  ultimately show ?thesis using s by metis
qed

lemma bracket_list_Some:
  "bracket_list key s = Some g \<Longrightarrow> \<exists>a blanks b. list_all is_blank blanks \<and> s = a @ key @ blanks @ CHR ''='' # b"
proof (induction s)
  case (Cons c s)
  show ?case
  proof (cases "bracket_here key (c # s)")
    case None
    then obtain a blanks b where "list_all is_blank blanks" "s = a @ key @ blanks @ CHR ''='' # b" using Cons by auto
    then show ?thesis by (metis append_Cons)
  next
    case (Some x)
    then show ?thesis using bracket_here_Some[OF Some] by (metis append_Nil)
  qed
qed simp

lemma last_word: "list_all is_blank blanks \<Longrightarrow> k \<noteq> [] \<Longrightarrow> \<not> is_blank (last k) \<Longrightarrow> hd (dropWhile is_blank (rev (a @ k @ blanks))) = last k"
  by (cases k rule: rev_cases) (simp_all add: dropWhile_pad list_all_iff)

lemma bracket_list_absent:
  assumes G: "CHR ''='' \<notin> set G" and p: "CHR ''='' \<notin> set p" "p \<noteq> []" "\<not> is_blank (last p)"
    and k: "CHR ''='' \<notin> set k" "k \<noteq> []" "\<not> is_blank (last k)" "last k \<noteq> last p"
  shows "bracket_list k (p @ '' '' @ CHR ''='' # G) = None"
proof (rule ccontr)
  assume "bracket_list k (p @ '' '' @ CHR ''='' # G) \<noteq> None"
  then obtain a blanks b where b: "list_all is_blank blanks" "p @ '' '' @ CHR ''='' # G = a @ k @ blanks @ CHR ''='' # b"
    using bracket_list_Some by blast
  have e: "(p @ '' '') @ CHR ''='' # G = (a @ k @ blanks) @ CHR ''='' # b" using b(2) by simp
  have np: "CHR ''='' \<notin> set (p @ '' '')" using p(1) by simp
  have "p @ '' '' = a @ k @ blanks" using e unfolding append_Cons_eq_iff[OF np G] by (elim conjE)
  then have "hd (dropWhile is_blank (rev (a @ k @ blanks))) = hd (dropWhile is_blank (rev ([] @ p @ '' '')))" by simp
  then have "last k = last p" using last_word[OF b(1) k(2,3), of a] last_word[of "'' ''" p "[]"] p(2,3) by simp
  then show False using k(4) by simp
qed

lemma strip_quotes: "word n \<Longrightarrow> strip_chars ''\"'' (quoted n) = n"
proof -
  assume n: "word n"
  have q: "CHR ''\"'' \<notin> set n" using word_chars[OF n] by simp
  have keep: "dropWhile (\<lambda>c. c \<in> {CHR ''\"''}) (x @ y) = x @ y" if "CHR ''\"'' \<notin> set x" "x \<noteq> []" for x y using that by (cases x) auto
  have "n \<noteq> []" using n by (simp add: word_def)
  then show ?thesis using keep[OF q, of "''\"''"] keep[of "rev n" "[]"] q by (simp add: strip_chars_def quoted_def)
qed

lemma module_header_parsed:
  assumes names: "list_all word (mm_chain_order m)" and st: "ps_chain_order st = []"
  shows "parse_line F fl st (module_header m) = Inr (st\<lparr>ps_chain_order := mm_chain_order m\<rparr>)"
    "list_all (\<lambda>c. \<not> is_break c) (module_header m)"
proof -
  have q: "\<forall>p \<in> set (map quoted (mm_chain_order m)). item_ok p \<and> inline p \<and> CHR '']'' \<notin> set p \<and> CHR ''='' \<notin> set p"
    using names item_value(1)[of "JStr _" undefined] word_chars[of _ "CHR '']''"] word_chars[of _ "CHR ''=''"] plain_inline
    by (auto simp: list_all_iff word_def) (auto simp: quoted_def)
  let ?G = "comma_list (map quoted (mm_chain_order m))"
  have G: "CHR '']'' \<notin> set ?G" "CHR ''='' \<notin> set ?G" "inline ?G"
    using q comma_list_chars[of "map quoted (mm_chain_order m)" "CHR '']''"] comma_list_chars[of "map quoted (mm_chain_order m)" "CHR ''=''"]
      inline_comma[of "map quoted (mm_chain_order m)"] by auto
  show "list_all (\<lambda>c. \<not> is_break c) (module_header m)" using inline_line[OF G(3)] by (simp add: module_header_def is_break_def)
  show "parse_line F fl st (module_header m) = Inr (st\<lparr>ps_chain_order := mm_chain_order m\<rparr>)"
  proof (cases "mm_chain_order m = []")
    case True
    have "py_strip ''module {'' = ''module {''" by (simp add: py_strip_def is_blank_def)
    then show ?thesis using True st by (cases st) (simp add: module_header_def parse_line_def)
  next
    case False
    let ?b = "''{sf.chain_order = ['' @ ?G @ '']}''"
    let ?s = "''module attributes '' @ ?b @ '' {''"
    have hdr: "module_header m = ?s" using False by (simp add: module_header_def)
    have strip: "py_strip ?s = ?s" by (rule py_strip_trimmed) (simp add: trimmed_def is_blank_def)
    have "py_strip (?b @ '' '') = ?b" using py_strip_pad[of "[]" "'' ''" ?b] by (simp add: trimmed_def is_blank_def)
    then have blk: "py_strip (butlast (drop (length ''module attributes '') ?s)) = ?b" by (simp add: butlast_append)
    have tw: "takeWhile (\<lambda>c. c \<noteq> CHR '']'') (?G @ '']}'') = ?G" using G(1) by (subst takeWhile_append2) auto
    have chain: "bracket_list ''sf.chain_order'' ?b = Some ?G" using tw by (simp add: bracket_here_def is_blank_def)
    have plan: "bracket_list ''sf.exec_plan_data'' ?b = None"
      using bracket_list_absent[of "'' ['' @ ?G @ '']}''" "''{sf.chain_order''" "''sf.exec_plan_data''"] G(2) by (simp add: is_blank_def)
    have items: "split_comma ?G = map quoted (mm_chain_order m)" using q by (intro split_comma_list) simp
    have "map (\<lambda>n. strip_chars ''\"'' (py_strip n)) (map quoted (mm_chain_order m)) = mm_chain_order m"
      using names by (simp add: list_all_iff py_strip_trimmed strip_quotes map_idI)
    then have attrs: "module_attributes ?s st = Inr (st\<lparr>ps_chain_order := mm_chain_order m\<rparr>)"
      unfolding module_attributes_def blk Let_def chain plan items option.case by (simp add: starts_with_single ends_with_single)
    have no: "?s \<noteq> [] \<and> \<not> starts_with ?s ''//'' \<and> ?s \<noteq> ''module {'' \<and> starts_with ?s ''module attributes {'' \<and> ends_with ?s ''{''"
      by (simp add: ends_with_single)
    show ?thesis unfolding parse_line_def hdr strip Let_def using no attrs by simp
  qed
qed

lemma funcs_printed:
  "list_all (func_ok F fl) gs \<Longrightarrow> \<exists>lss. list_all2 (func_printed F fl) gs lss \<and> res_mapM (func_lines F) gs = Inr lss"
proof (induction gs)
  case (Cons f gs)
  have "func_ok F fl f" "list_all (func_ok F fl) gs" using Cons.prems by simp_all
  then obtain ls lss where "func_printed F fl f ls" "list_all2 (func_printed F fl) gs lss" "res_mapM (func_lines F) gs = Inr lss"
    using Cons.IH func_printed_ok by blast
  moreover from this have "func_lines F f = Inr ls" by (simp add: func_printed_def)
  ultimately show ?case by (intro exI[of _ "ls # lss"]) simp
qed simp

lemma funcs_parsed:
  assumes "list_all2 (func_printed F fl) gs lss"
  shows "(\<exists>ns'. res_foldM (parse_line F fl) \<lparr>ps_functions = fs, ps_chain_order = c, ps_exec_plan = e, ps_current = None, ps_names = ns\<rparr> (concat lss)
     = Inr \<lparr>ps_functions = fs @ map reread_function gs, ps_chain_order = c, ps_exec_plan = e, ps_current = None, ps_names = ns'\<rparr>)
     \<and> (\<forall>l \<in> set (concat lss). list_all (\<lambda>c. \<not> is_break c) l)"
  using assms
proof (induction gs lss arbitrary: fs ns rule: list_all2_induct)
  case (Cons f gs ls lss)
  obtain ns1 where 1: "res_foldM (parse_line F fl) \<lparr>ps_functions = fs, ps_chain_order = c, ps_exec_plan = e, ps_current = None, ps_names = ns\<rparr> ls
      = Inr \<lparr>ps_functions = fs @ [reread_function f], ps_chain_order = c, ps_exec_plan = e, ps_current = None, ps_names = ns1\<rparr>"
    and ls: "\<forall>l \<in> set ls. list_all (\<lambda>c. \<not> is_break c) l"
    using Cons.hyps(1) unfolding func_printed_def by blast
  show ?case using Cons.IH[of "fs @ [reread_function f]" ns1] 1 ls by (auto simp: res_foldM_append)
qed simp

lemma reread_names:
  "func_ok F fl f \<Longrightarrow> mf_outputs (reread_function f) \<noteq> [] \<Longrightarrow> \<not> list_all (\<lambda>(n, _, _). n = []) (mf_outputs (reread_function f))"
proof -
  assume ok: "func_ok F fl f" and ne: "mf_outputs (reread_function f) \<noteq> []"
  then obtain n t c os where o': "mf_outputs f = (n, t, c) # os" by (cases "mf_outputs f") (auto simp: reread_function_def)
  then have "ssa_ok n" using ok by (simp add: func_ok_def)
  then have "ssa_format n \<noteq> []" using ssa_format_hd[of n] by auto
  then show ?thesis using o' by (simp add: reread_function_def)
qed

text \<open>C21: Writing a module as text and parsing the text gives the module back, for every module whose
  names and types are plain words and whose attribute values the notation can carry: no result
  without a type, no string with a quote, a closing brace, a line break or a colon between spaces,
  no nested list.  The names of weights replace the operands that refer to them, the attribute
  source_node and the module's metadata are gone.\<close>

theorem text_roundtrip:
  assumes ok: "text_ok F py_float m"
  shows "\<exists>s. mlir_module_to_text F m = Inr s \<and> parse_mlir_text F py_float s = Inr (reread m)"
proof -
  have fs: "list_all (func_ok F py_float) (mm_functions m)" and names: "list_all word (mm_chain_order m)" using ok by (simp_all add: text_ok_def)
  obtain lss where lss: "list_all2 (func_printed F py_float) (mm_functions m) lss" "res_mapM (func_lines F) (mm_functions m) = Inr lss"
    using funcs_printed[OF fs] by blast
  let ?ls = "module_header m # concat lss @ [''}'']"
  let ?init = "\<lparr>ps_functions = [], ps_chain_order = [], ps_exec_plan = [], ps_current = None, ps_names = []\<rparr>"
  have hdr: "parse_line F py_float ?init (module_header m) = Inr (?init\<lparr>ps_chain_order := mm_chain_order m\<rparr>)"
    and hb: "list_all (\<lambda>c. \<not> is_break c) (module_header m)"
    using module_header_parsed[OF names, of ?init] by simp_all
  have lines: "py_lines (join_with [CHR 10] ?ls @ [CHR 10]) = ?ls"
    using funcs_parsed[OF lss(1)] hb by (intro py_lines_join) auto
  obtain ns where body: "res_foldM (parse_line F py_float) \<lparr>ps_functions = [], ps_chain_order = mm_chain_order m, ps_exec_plan = [], ps_current = None, ps_names = []\<rparr> (concat lss)
     = Inr \<lparr>ps_functions = map reread_function (mm_functions m), ps_chain_order = mm_chain_order m, ps_exec_plan = [], ps_current = None, ps_names = ns\<rparr>"
    using funcs_parsed[OF lss(1), of "[]" "mm_chain_order m" "[]" "[]", unfolded append_Nil] by blast
  have last: "parse_line F py_float st ''}'' = Inr (case ps_current st of None \<Rightarrow> st | Some f \<Rightarrow> st\<lparr>ps_functions := ps_functions st @ [f], ps_current := None\<rparr>)" for st
    using parse_brace_line[of "[]" F py_float st] by simp
  have all: "res_foldM (parse_line F py_float) ?init ?ls
     = Inr \<lparr>ps_functions = map reread_function (mm_functions m), ps_chain_order = mm_chain_order m, ps_exec_plan = [], ps_current = None, ps_names = ns\<rparr>"
    unfolding res_foldM.simps hdr res_bind_Inr res_foldM_append parse_state.update_convs body last by simp
  have "\<not> list_ex (\<lambda>f. mf_outputs f \<noteq> [] \<and> list_all (\<lambda>(n, _, _). n = []) (mf_outputs f)) (map reread_function (mm_functions m))"
    using fs reread_names by (auto simp: list_all_iff list_ex_iff)
  then have "parse_mlir_text F py_float (join_with [CHR 10] ?ls @ [CHR 10]) = Inr (reread m)"
    unfolding parse_mlir_text_def lines all by (simp add: reread_def)
  then show ?thesis using lss(2) by (simp add: mlir_module_to_text_def)
qed

definition half_format :: py_format where
  "half_format = \<lparr>repr_float = (\<lambda>r. ''0.5''), str_other = (\<lambda>v. ''None'')\<rparr>"

definition half_float :: "string \<Rightarrow> json option" where
  "half_float s = (if s = ''0.5'' then Some (JFloat (1 / 2)) else None)"

definition sample_module :: mlir_module where
  "sample_module = \<lparr>mm_functions = [\<lparr>mf_name = ''block_0'', mf_inputs = [(''x'', ''tensor<?x4xf32>'')], mf_outputs = [(''%y'', ''tensor<?x4xf32>'', True)],
     mf_ops = [\<lparr>mo_name = ''sf.weight'', mo_dialect = ''sf'', mo_op_name = ''weight'', mo_operands = [], mo_results = [''w''],
                mo_attributes = [(''name'', JStr ''layers_0_w'')], mo_input_types = [], mo_output_types = [''tensor<4xf32>'']\<rparr>,
               \<lparr>mo_name = ''sf.rms_norm'', mo_dialect = ''sf'', mo_op_name = ''rms_norm'', mo_operands = [''x'', ''w''], mo_results = [''y''],
                mo_attributes = [(''eps'', JFloat (1 / 2)), (''axes'', JList [JInt 0, JInt (- 1)]), (''keep'', JBool True), (''mode'', JStr ''a, b'')],
                mo_input_types = [''tensor<?x4xf32>'', ''tensor<4xf32>''], mo_output_types = [''tensor<?x4xf32>'']\<rparr>],
     mf_weights = [], mf_param_weight_names = [], mf_const_weight_names = [], mf_weight_names = [JStr ''layers_0_w'']\<rparr>],
     mm_metadata = [], mm_chain_order = [''block_0''], mm_exec_plan_data = []\<rparr>"

lemma sample_text_ok: "text_ok half_format half_float sample_module"
  by (simp add: text_ok_def sample_module_def func_ok_def op_ok_def weight_op_ok_def plain_op_ok_def ssa_ok_def ssa_key_def word_def type_ok_def plain_def
      is_blank_def bracket_count_def ends_with_def split_qualified_def str_ok_def is_break_def float_ok_def half_format_def half_float_def
      num_char_def is_digit_def int_of_string_def py_strip_def digit_val_def)

theorem text_roundtrip_witness:
  "(\<exists>s. mlir_module_to_text half_format sample_module = Inr s \<and> parse_mlir_text half_format half_float s = Inr (reread sample_module))
     \<and> map mo_operands (mf_ops (mm_functions (reread sample_module) ! 0)) = [[], [''x'', ''layers_0_w'']]"
proof (rule conjI)
  show "\<exists>s. mlir_module_to_text half_format sample_module = Inr s \<and> parse_mlir_text half_format half_float s = Inr (reread sample_module)"
    by (rule text_roundtrip[OF sample_text_ok])
  show "map mo_operands (mf_ops (mm_functions (reread sample_module) ! 0)) = [[], [''x'', ''layers_0_w'']]"
    by (simp add: reread_def sample_module_def reread_function_def reread_op_def op_weights_def operand_name_def ssa_key_def dict_get_def)
qed



section \<open>What the notation loses\<close>

text \<open>
  An operation without output types is printed without a signature: the last colon is then the one
  of a number among the attributes, and what follows it is read as the type of the result.
\<close>

lemma untyped_op_gets_attribute_type:
  "op_line half_format \<lparr>mo_name = ''sf.pad'', mo_dialect = ''sf'', mo_op_name = ''pad'', mo_operands = [''x''], mo_results = [''y''],
       mo_attributes = [(''dim'', JInt 1)], mo_input_types = [], mo_output_types = []\<rparr> = Inr ''    %y = \"sf.pad\"(%x) {dim = 1 : i64}''"
  "map_option (\<lambda>(op, _). mo_output_types op) (case parse_mlir_op half_float ''%y = \"sf.pad\"(%x) {dim = 1 : i64}'' [] of Inl _ \<Rightarrow> None | Inr r \<Rightarrow> Some r)
     = Some [''i64}'']"
  by code_simp+

text \<open>Booleans inside a list are printed with Python's \<open>str\<close> and come back as strings.\<close>

lemma listed_bool_becomes_string:
  "format_value half_format (JList [JBool True]) = ''[True]''"
  "parse_value half_float ''[True]'' = JList [JStr ''True'']"
  by code_simp+

text \<open>A comma inside a string of a list splits the string; a closing brace in a string ends the attributes.\<close>

lemma listed_string_is_split:
  "format_value half_format (JList [JStr ''a,b'']) = ''[\"a,b\"]''"
  "parse_value half_float ''[\"a,b\"]'' = JList [JStr ''\"a'', JStr ''b\"'']"
  by code_simp+

lemma brace_ends_attributes:
  "(case parse_mlir_op half_float ''%y = \"sf.einsum\"(%x) {eq = \"{i}\", n = 1 : i64} : (f32) -> f32'' [] of Inl _ \<Rightarrow> None | Inr (op, _) \<Rightarrow> Some (mo_attributes op))
     = Some [(''eq'', JStr ''\"{i'')]"
  by code_simp

end
