(* ===== verification/Fx_Types.thy ===== *)
theory Fx_Types
  imports Mlir_Module
begin

text \<open>
  Types of converted operations, \<open>compiler/fx/utils.py\<close>: shapes and element types of graph values,
  printing and reading of type strings, the per-operation element type rules, and
  \<open>_resolve_op_types\<close>, which finds the types of the operands, promotes mixed element types, checks
  them and infers the types of the results.  A tensor is its sizes and element type, and its value
  as long as it is a scalar constant that has not been converted.  Warnings and debug messages are
  left out.
\<close>


section \<open>Values of the graph\<close>

text \<open>
  The \<open>node\<close> of a \<open>torch.SymInt\<close>: its text, whether it has an expression, its hint.  Arguments
  of a graph node: other nodes by name, numbers, symbolic integers, strings, dtypes (with memory
  formats and layouts, by their text), sequences.
\<close>

record sym_node =
  sn_text :: string
  sn_has_expr :: bool
  sn_hint :: "int option"

datatype fx_arg =
    FNode string
  | FBool bool
  | FInt int
  | FFloat rat
  | FSym "sym_node option"
  | FStr string
  | FDtype string
  | FSeq "fx_arg list"
  | FNone

record fake_tensor =
  fk_shape :: "fx_arg list"
  fk_dtype :: string

record fx_tensor =
  ft_shape :: "int list"
  ft_dtype :: string
  ft_scalar :: "json option"

type_synonym typed_shape = "dim list \<times> string"

definition not_sentinel :: "int \<Rightarrow> int option" where
  "not_sentinel i = (if i = int64_max then None else Some i)"

definition symint_to_name :: "fx_arg \<Rightarrow> string option" where
  "symint_to_name v = (case v of FSym (Some n) \<Rightarrow> if starts_with (sn_text n) ''s'' then Some (sn_text n) else None | _ \<Rightarrow> None)"

fun symint_to_int :: "fx_arg \<Rightarrow> int option" where
  "symint_to_int (FSym (Some n)) = (if sn_has_expr n then None else Option.bind (sn_hint n) not_sentinel)"
| "symint_to_int (FInt i) = not_sentinel i"
| "symint_to_int (FBool b) = Some (if b then 1 else 0)"
| "symint_to_int (FFloat r) = not_sentinel (py_trunc r)"
| "symint_to_int _ = None"

definition symint_for_view :: "fx_arg \<Rightarrow> int" where
  "symint_for_view v = (case symint_to_int v of Some i \<Rightarrow> i | None \<Rightarrow> -1)"

definition resolve_shape_tuple :: "fx_arg list \<Rightarrow> dim list" where
  "resolve_shape_tuple raw = map (\<lambda>d. case symint_to_int d of Some i \<Rightarrow> Dim i | None \<Rightarrow> Dyn) raw"

definition fake_to_shape_tuple :: "fake_tensor \<Rightarrow> typed_shape" where
  "fake_to_shape_tuple fake = (resolve_shape_tuple (fk_shape fake), fk_dtype fake)"


section \<open>Type strings\<close>

definition dtype_to_mlir :: "string \<Rightarrow> string" where
  "dtype_to_mlir dtype = dict_get elt_map dtype ''f32''"

fun size_str :: "dim \<Rightarrow> string" where
  "size_str (Dim i) = string_of_int i"
| "size_str Dyn = ''?''"
| "size_str (Sym s) = s"

definition tensor_type_str :: "string \<Rightarrow> dim list \<Rightarrow> string" where
  "tensor_type_str dtype shape =
     (let ds = join_with ''x'' (map size_str shape)
      in if ds \<noteq> [] then ''tensor<'' @ ds @ ''x'' @ dtype_to_mlir dtype @ ''>'' else ''tensor<'' @ dtype_to_mlir dtype @ ''>'')"

definition type_from_fake :: "fake_tensor \<Rightarrow> string" where
  "type_from_fake fake = tensor_type_str (fk_dtype fake) (resolve_shape_tuple (fk_shape fake))"

definition tensor_body :: "string \<Rightarrow> string" where
  "tensor_body type_str = butlast (drop 7 type_str)"

definition parse_size :: "string \<Rightarrow> dim res" where
  "parse_size p = (if p = ''?'' then Inr Dyn else res_bind (int_of_string p) (\<lambda>i. Inr (Dim i)))"

definition parse_mlir_type_to_shape :: "string \<Rightarrow> typed_shape res" where
  "parse_mlir_type_to_shape type_str =
     (if \<not> starts_with type_str ''tensor<'' then Inr ([Dim 1], ''f32'')
      else let parts = split_on CHR ''x'' (tensor_body type_str)
           in res_bind (res_mapM parse_size (butlast parts)) (\<lambda>shape. Inr (shape, last parts)))"

definition replace_element_type :: "string \<Rightarrow> string \<Rightarrow> string" where
  "replace_element_type type_str new_elt =
     (if \<not> starts_with type_str ''tensor<'' then type_str
      else ''tensor<'' @ join_with ''x'' (butlast (split_on CHR ''x'' (tensor_body type_str)) @ [new_elt]) @ ''>'')"


section \<open>Element type rules\<close>

text \<open>A \<open>torch.dtype\<close> as a value.\<close>

definition dtype_value :: "string \<Rightarrow> json" where
  "dtype_value d = JObj [(''torch.dtype'', JStr d)]"

definition dtype_map :: "(string, string) dict" where
  "dtype_map = [(''int64'', ''i64''), (''int32'', ''i32''), (''float32'', ''f32''), (''bool'', ''i1'')]"

definition code_to_dtype :: "(int, string) dict" where
  "code_to_dtype =
     [(0, ''uint8''), (1, ''int8''), (2, ''int16''), (3, ''int64''), (4, ''int32''), (5, ''int64''), (6, ''float32''), (7, ''float64''),
      (8, ''complex64''), (9, ''complex128''), (11, ''bool''), (12, ''qint8''), (13, ''quint8''), (14, ''qint32''), (15, ''bfloat16''),
      (16, ''float16'')]"

text \<open>A list or dictionary cannot be looked up in a table.\<close>

definition resolve_dtype_kwarg :: "(string, json) dict \<Rightarrow> string option res" where
  "resolve_dtype_kwarg kwargs =
     (let coded = (\<lambda>i. case map_of code_to_dtype i of None \<Rightarrow> None | Some d \<Rightarrow> map_of dtype_map d)
      in case dict_get kwargs ''dtype'' JNull of
           JNull \<Rightarrow> Inr None
         | JInt i \<Rightarrow> Inr (coded i)
         | JBool b \<Rightarrow> Inr (coded (if b then 1 else 0))
         | JObj d \<Rightarrow> Inr (case map_of d ''torch.dtype'' of Some (JStr n) \<Rightarrow> map_of dtype_map n | _ \<Rightarrow> None)
         | JList _ \<Rightarrow> Inl TypeError
         | JDict _ \<Rightarrow> Inl TypeError
         | _ \<Rightarrow> Inr None)"

definition dtype_ones_like :: "string list \<Rightarrow> (string, json) dict \<Rightarrow> string option res" where
  "dtype_ones_like elts kwargs = res_bind (resolve_dtype_kwarg kwargs) (\<lambda>d. Inr (case d of Some e \<Rightarrow> Some e | None \<Rightarrow> Some ''f32''))"

definition dtype_cumsum :: "string list \<Rightarrow> (string, json) dict \<Rightarrow> string option res" where
  "dtype_cumsum elts kwargs =
     res_bind (resolve_dtype_kwarg kwargs) (\<lambda>d.
     case d of
       Some e \<Rightarrow> Inr (Some e)
     | None \<Rightarrow> res_bind (elt0 elts) (\<lambda>elt.
         Inr (if starts_with elt ''i'' then Some ''i64'' else if starts_with elt ''f'' then Some elt else None)))"

definition dtype_arange :: "string list \<Rightarrow> (string, json) dict \<Rightarrow> string option res" where
  "dtype_arange elts kwargs = res_bind (resolve_dtype_kwarg kwargs) (\<lambda>d. Inr (case d of Some e \<Rightarrow> Some e | None \<Rightarrow> Some ''i64''))"

definition resolve_dtype :: "string \<Rightarrow> string list \<Rightarrow> (string, json) dict \<Rightarrow> string option res" where
  "resolve_dtype op_name elts kwargs =
     (if op_name = ''ones_like'' then dtype_ones_like elts kwargs
      else if op_name = ''cumsum'' then dtype_cumsum elts kwargs
      else if op_name = ''arange'' then dtype_arange elts kwargs
      else Inr None)"

definition apply_dtype_hook :: "string \<Rightarrow> string list \<Rightarrow> (string, json) dict \<Rightarrow> string list \<Rightarrow> string list res" where
  "apply_dtype_hook op_name elts kwargs outs =
     res_bind (resolve_dtype op_name elts kwargs) (\<lambda>elt.
     Inr (case (elt, outs) of (Some e, t # ts) \<Rightarrow> replace_element_type t e # ts | _ \<Rightarrow> outs))"


section \<open>Operands\<close>

definition tensor_sig :: "fx_tensor \<Rightarrow> typed_shape" where
  "tensor_sig t = (if ft_shape t \<noteq> [] then map Dim (ft_shape t) else [Dim 1], ft_dtype t)"

text \<open>The first of the longest names.\<close>

definition longest :: "string list \<Rightarrow> string option" where
  "longest ns = foldl (\<lambda>best n. case best of None \<Rightarrow> Some n | Some b \<Rightarrow> if length n > length b then Some n else Some b) None ns"

definition operand_node :: "(string, string) dict \<Rightarrow> string \<Rightarrow> string" where
  "operand_node ssa_map inp =
     (case find (\<lambda>(n, s). s = inp \<or> n = inp) ssa_map of
        Some (n, _) \<Rightarrow> n
      | None \<Rightarrow> (case longest (filter (\<lambda>n. starts_with inp (CHR ''%'' # n)) (map fst ssa_map)) of Some n \<Rightarrow> n | None \<Rightarrow> inp))"

definition operand_sig ::
    "(string, string) dict \<Rightarrow> (string, typed_shape) dict \<Rightarrow> (string, fx_tensor) dict \<Rightarrow> string \<Rightarrow> typed_shape" where
  "operand_sig ssa_map shape_map weights inp =
     (case map_of shape_map (operand_node ssa_map inp) of
        Some sig \<Rightarrow> sig
      | None \<Rightarrow>
          (case map_of weights inp of
             Some t \<Rightarrow> tensor_sig t
           | None \<Rightarrow>
               (case (if starts_with inp ''%'' then map_of weights (tl inp) else None) of
                  Some t \<Rightarrow> tensor_sig t
                | None \<Rightarrow> ([Dim 2, Dim 64], ''f32''))))"

definition pytorch_to_mlir :: "(string, string) dict" where
  "pytorch_to_mlir =
     [(''float32'', ''f32''), (''float'', ''f32''), (''float16'', ''f16''), (''half'', ''f16''), (''bfloat16'', ''bf16''), (''float64'', ''f64''),
      (''double'', ''f64''), (''int32'', ''i32''), (''int64'', ''i64''), (''long'', ''i64''), (''int8'', ''i8''), (''uint8'', ''ui8''),
      (''bool'', ''i1'')]"

definition normal_elt :: "string \<Rightarrow> string" where
  "normal_elt e = dict_get pytorch_to_mlir e e"


section \<open>Promotion\<close>

record promotion_state =
  pr_elts :: "string list"
  pr_weights :: "(string, fx_tensor) dict"
  pr_casts :: "(nat \<times> string \<times> string) list"

definition same_type_ops :: "string list" where
  "same_type_ops = [''add'', ''mul'', ''sub'', ''div'', ''max'', ''pow'']"

definition weight_key :: "(string, fx_tensor) dict \<Rightarrow> string \<Rightarrow> string option" where
  "weight_key weights n =
     (if starts_with n ''%'' \<and> dict_has weights (tl n) then Some (tl n) else if dict_has weights n then Some n else None)"

text \<open>\<open>t.float()\<close> and the like; the value is not followed through a conversion.\<close>

definition convert_weight :: "string \<Rightarrow> string \<Rightarrow> (string, fx_tensor) dict \<Rightarrow> (string, fx_tensor) dict" where
  "convert_weight key dtype weights =
     (case map_of weights key of None \<Rightarrow> weights | Some t \<Rightarrow> AList.update key (t\<lparr>ft_dtype := dtype, ft_scalar := None\<rparr>) weights)"

text \<open>The element type and dtype a constant operand is converted to, when it is.\<close>

definition const_target :: "string \<Rightarrow> string \<Rightarrow> (string \<times> string) option" where
  "const_target e0 e =
     (if e = ''i64'' \<and> e0 = ''f32'' then Some (''f32'', ''float32'')
      else if e = ''i64'' \<and> e0 = ''f16'' then Some (''f16'', ''float16'')
      else if e = ''f32'' \<and> e0 = ''f16'' then Some (''f16'', ''float16'')
      else if e = ''f32'' \<and> e0 = ''bf16'' then Some (''bf16'', ''bfloat16'')
      else None)"

definition cast_f32 :: "dim list list \<Rightarrow> promotion_state \<Rightarrow> nat \<Rightarrow> promotion_state" where
  "cast_f32 shapes st idx =
     (let e = pr_elts st ! idx
      in if e = ''f32'' then st
         else st\<lparr>pr_elts := (pr_elts st)[idx := ''f32''], pr_casts := pr_casts st @ [(idx, shape_to_mlir_type (shapes ! idx) e, ''f32'')]\<rparr>)"

definition promote_operand :: "string list \<Rightarrow> dim list list \<Rightarrow> promotion_state \<Rightarrow> nat \<Rightarrow> promotion_state res" where
  "promote_operand names shapes st i =
     (let e0 = pr_elts st ! 0; e = pr_elts st ! i; n = (if i < length names then names ! i else [])
      in if e = e0 then Inr st
         else if starts_with n ''_const_'' \<and> dict_has (pr_weights st) n
         then Inr (case const_target e0 e of
                     None \<Rightarrow> st
                   | Some (elt, dtype) \<Rightarrow> st\<lparr>pr_elts := (pr_elts st)[i := elt], pr_weights := convert_weight n dtype (pr_weights st)\<rparr>)
         else if weight_key (pr_weights st) n \<noteq> None \<and> e0 = ''f32'' \<and> e \<in> {''bf16'', ''f16''}
         then Inr (st\<lparr>pr_elts := (pr_elts st)[i := ''f32''],
                      pr_weights := convert_weight (the (weight_key (pr_weights st) n)) ''float32'' (pr_weights st)\<rparr>)
         else if {e0, e} \<subseteq> {''f32'', ''bf16'', ''f16''} then Inr (foldl (cast_f32 shapes) st [0, i])
         else Inl TypeError)"

definition promote_operands :: "string \<Rightarrow> string list \<Rightarrow> dim list list \<Rightarrow> promotion_state \<Rightarrow> promotion_state res" where
  "promote_operands hal_op names shapes st =
     (if hal_op \<in> set same_type_ops then res_foldM (promote_operand names shapes) st [1..<length (pr_elts st)] else Inr st)"


section \<open>Checks and inference\<close>

definition cmp_ops :: "string list" where
  "cmp_ops = [''le'', ''ge'', ''gt'', ''lt'', ''eq'', ''ne'']"

definition float_required_ops :: "string list" where
  "float_required_ops =
     [''linear'', ''layer_norm'', ''rms_norm'', ''softmax'', ''relu'', ''gelu'', ''silu'', ''sigmoid'', ''tanh'', ''exp'', ''neg'', ''matmul'',
      ''mean'', ''cumsum'']"

definition check_elts :: "string \<Rightarrow> string list \<Rightarrow> unit res" where
  "check_elts hal_op elts =
     (if hal_op \<in> set cmp_ops \<and> list_ex (\<lambda>e. e \<noteq> hd elts) (tl elts) then Inl TypeError
      else if hal_op \<in> set float_required_ops \<and> list_ex (\<lambda>e. e \<notin> {''f32'', ''f16'', ''bf16'', ''f64''}) elts then Inl TypeError
      else if hal_op = ''index'' \<and> list_ex (\<lambda>e. e \<notin> {''i64'', ''i32'', ''int64'', ''int32'', ''f32'', ''f64''}) (tl elts) then Inl TypeError
      else Inr ())"

text \<open>
  Keyword arguments as the inference functions see them.  Objects other than dtypes and entries of
  sequences that are neither numbers nor names do not matter to them.
\<close>

fun dim_of_json :: "json \<Rightarrow> dim" where
  "dim_of_json (JInt i) = Dim i"
| "dim_of_json (JBool b) = Dim (if b then 1 else 0)"
| "dim_of_json (JStr s) = Sym s"
| "dim_of_json _ = Dyn"

fun attr_of_json :: "json \<Rightarrow> attr" where
  "attr_of_json JNull = ANone"
| "attr_of_json (JBool b) = ABool b"
| "attr_of_json (JInt i) = AInt i"
| "attr_of_json (JFloat r) = AFloat r"
| "attr_of_json (JStr s) = AStr s"
| "attr_of_json (JList vs) = ASeq (map dim_of_json vs)"
| "attr_of_json (JObj d) = ADtype (case map_of d ''torch.dtype'' of Some (JStr n) \<Rightarrow> n | _ \<Rightarrow> [])"
| "attr_of_json (JDict d) = ADtype []"

definition attrs_of_kwargs :: "(string, json) dict \<Rightarrow> attrs" where
  "attrs_of_kwargs kwargs = map (\<lambda>(k, v). (k, attr_of_json v)) kwargs"

definition infer_or_fallback :: "string \<Rightarrow> dim list list \<Rightarrow> string list \<Rightarrow> (string, json) dict \<Rightarrow> sig list res" where
  "infer_or_fallback hal_op shapes elts kwargs =
     (case infer_output_shape hal_op (map Some shapes) elts (attrs_of_kwargs kwargs) of
        Inr out \<Rightarrow> Inr out
      | Inl e \<Rightarrow> if e \<in> {ValueError, TypeError, NotImplementedError}
                 then Inr [if elts \<noteq> [] then (Some (shapes ! 0), elts ! 0) else one_f32] else Inl e)"

definition sig_type :: "sig \<Rightarrow> string res" where
  "sig_type = (\<lambda>(s, e). res_bind (dims_of s) (\<lambda>ds. Inr (shape_to_mlir_type ds e)))"

record op_types =
  ot_inputs :: "string list"
  ot_outputs :: "string list"
  ot_weights :: "(string, fx_tensor) dict"
  ot_casts :: "(nat \<times> string \<times> string) list"

definition resolve_op_types ::
    "string \<Rightarrow> string list \<Rightarrow> (string, string) dict \<Rightarrow> (string, typed_shape) dict \<Rightarrow> (string, fx_tensor) dict
       \<Rightarrow> (string, json) dict \<Rightarrow> op_types res" where
  "resolve_op_types hal_op names ssa_map shape_map weights kwargs =
     (let sigs = map (operand_sig ssa_map shape_map weights) names;
          shapes = map fst sigs
      in res_bind (promote_operands hal_op names shapes \<lparr>pr_elts = map (normal_elt \<circ> snd) sigs, pr_weights = weights, pr_casts = []\<rparr>) (\<lambda>st.
         res_bind (check_elts hal_op (pr_elts st)) (\<lambda>_.
         res_bind (infer_or_fallback hal_op shapes (pr_elts st) kwargs) (\<lambda>out.
         res_bind (res_mapM sig_type out) (\<lambda>outs.
         res_bind (apply_dtype_hook hal_op (pr_elts st) kwargs outs) (\<lambda>outs'.
         Inr \<lparr>ot_inputs = map (\<lambda>(s, e). shape_to_mlir_type s e) (zip shapes (pr_elts st)), ot_outputs = outs',
              ot_weights = pr_weights st, ot_casts = pr_casts st\<rparr>))))))"


section \<open>Operands of element-wise operations\<close>

definition operand_elt :: "(string, string) dict \<Rightarrow> (string, typed_shape) dict \<Rightarrow> (string, fx_tensor) dict \<Rightarrow> string \<Rightarrow> string" where
  "operand_elt ssa_map shape_map weights n = normal_elt (snd (operand_sig ssa_map shape_map weights n))"

lemma const_target_elt: "const_target e0 e = Some (elt, d) \<Longrightarrow> elt = e0"
  by (auto simp: const_target_def split: if_splits)

lemma cast_pair:
  assumes "pr_elts st = [x, y]"
  shows "pr_elts (cast_f32 shapes (cast_f32 shapes st 0) 1) = [''f32'', ''f32'']"
proof -
  have "pr_elts (cast_f32 shapes st 0) = [''f32'', y]" using assms by (cases "x = ''f32''") (simp_all add: cast_f32_def Let_def del: list.inject)
  then show ?thesis by (cases "y = ''f32''") (simp_all add: cast_f32_def Let_def del: list.inject)
qed

lemma promote_pair:
  assumes run: "promote_operand [a, b] shapes \<lparr>pr_elts = [e0, e1], pr_weights = w, pr_casts = []\<rparr> 1 = Inr st"
  shows "(\<exists>e. pr_elts st = [e, e]) \<or> (starts_with b ''_const_'' \<and> dict_has w b \<and> const_target e0 e1 = None)"
proof -
  let ?st = "\<lparr>pr_elts = [e0, e1], pr_weights = w, pr_casts = []\<rparr>"
  let ?const = "starts_with b ''_const_'' \<and> dict_has w b"
  let ?weight = "weight_key w b \<noteq> None \<and> e0 = ''f32'' \<and> e1 \<in> {''bf16'', ''f16''}"
  let ?float = "{e0, e1} \<subseteq> {''f32'', ''bf16'', ''f16''}"
  have st: "promote_operand [a, b] shapes ?st 1 =
     (if e1 = e0 then Inr ?st
      else if ?const then Inr (case const_target e0 e1 of
                     None \<Rightarrow> ?st | Some (elt, dtype) \<Rightarrow> ?st\<lparr>pr_elts := [e0, elt], pr_weights := convert_weight b dtype w\<rparr>)
      else if ?weight then Inr (?st\<lparr>pr_elts := [e0, ''f32''], pr_weights := convert_weight (the (weight_key w b)) ''float32'' w\<rparr>)
      else if ?float then Inr (cast_f32 shapes (cast_f32 shapes ?st 0) 1)
      else Inl TypeError)"
    unfolding promote_operand_def Let_def by (simp only: list.size One_nat_def foldl_Cons foldl_Nil nth_Cons_0 nth_Cons_Suc
        list_update.simps nat.case promotion_state.simps lessI Suc_less_eq zero_less_Suc add_0_right add_Suc_right if_True)
  consider "e1 = e0" | "e1 \<noteq> e0" ?const | "e1 \<noteq> e0" "\<not> ?const" ?weight | "e1 \<noteq> e0" "\<not> ?const" "\<not> ?weight" ?float
    using run unfolding st by (cases "e1 = e0"; cases ?const; cases ?weight; cases ?float) (simp_all only: if_True if_False simp_thms sum.distinct)
  then show ?thesis
  proof cases
    case 1
    then have "st = ?st" using run unfolding st by simp
    then show ?thesis using 1 by simp
  next
    case 2
    then have st2: "st = (case const_target e0 e1 of
        None \<Rightarrow> ?st | Some (elt, dtype) \<Rightarrow> ?st\<lparr>pr_elts := [e0, elt], pr_weights := convert_weight b dtype w\<rparr>)"
      using run unfolding st by simp
    show ?thesis
    proof (cases "const_target e0 e1")
      case None
      then show ?thesis using 2(2) by blast
    next
      case (Some x)
      then have "pr_elts st = [e0, e0]" using st2 const_target_elt[of e0 e1 "fst x" "snd x"] by (cases x) simp
      then show ?thesis by blast
    qed
  next
    case 3
    then have "st = ?st\<lparr>pr_elts := [e0, ''f32''], pr_weights := convert_weight (the (weight_key w b)) ''float32'' w\<rparr>"
      using run unfolding st by (simp only: if_True if_False simp_thms sum.inject)
    then have "pr_elts st = [e0, ''f32'']" by simp
    then show ?thesis using 3(3) by blast
  next
    case 4
    then have "st = cast_f32 shapes (cast_f32 shapes ?st 0) 1"
      using run unfolding st by (simp only: if_True if_False simp_thms sum.inject)
    then have "pr_elts st = [''f32'', ''f32'']" using cast_pair[of ?st e0 e1] by (simp only: promotion_state.simps)
    then show ?thesis by blast
  qed
qed

text \<open>C17: An element-wise operation with two operands is emitted with one element type for both, after promotion and conversion of constants, unless its second operand is a scalar constant of a type for which no conversion is written; all other mixes of types raise an exception.\<close>

theorem operand_types_agree:
  assumes run: "resolve_op_types hal_op [a, b] ssa_map shape_map weights kwargs = Inr ts" and op: "hal_op \<in> set same_type_ops"
  shows "(\<exists>s0 s1 e. ot_inputs ts = [shape_to_mlir_type s0 e, shape_to_mlir_type s1 e])
    \<or> (starts_with b ''_const_'' \<and> dict_has weights b
       \<and> const_target (operand_elt ssa_map shape_map weights a) (operand_elt ssa_map shape_map weights b) = None)"
proof -
  let ?sig = "operand_sig ssa_map shape_map weights"
  obtain st where st: "promote_operands hal_op [a, b] [fst (?sig a), fst (?sig b)]
      \<lparr>pr_elts = [normal_elt (snd (?sig a)), normal_elt (snd (?sig b))], pr_weights = weights, pr_casts = []\<rparr> = Inr st"
    and ins: "ot_inputs ts = map (\<lambda>(s, e). shape_to_mlir_type s e) (zip [fst (?sig a), fst (?sig b)] (pr_elts st))"
    using run by (auto simp: resolve_op_types_def Let_def elim!: res_bindE)
  have "[1..<Suc (Suc 0)] = [1]" by simp
  then have "promote_operand [a, b] [fst (?sig a), fst (?sig b)]
      \<lparr>pr_elts = [normal_elt (snd (?sig a)), normal_elt (snd (?sig b))], pr_weights = weights, pr_casts = []\<rparr> 1 = Inr st"
    using st op by (auto simp: promote_operands_def elim!: res_bindE)
  then show ?thesis using promote_pair ins unfolding operand_elt_def by fastforce
qed

theorem operand_types_agree_witness:
  "case resolve_op_types ''add'' [''%x'', ''_const_0''] [(''x'', ''%x'')] [(''x'', ([Dim 2], ''bf16''))]
      [(''_const_0'', \<lparr>ft_shape = [], ft_dtype = ''float32'', ft_scalar = Some (JFloat 1)\<rparr>)] [] of
     Inl _ \<Rightarrow> False
   | Inr ts \<Rightarrow> (\<exists>s0 s1 e. ot_inputs ts = [shape_to_mlir_type s0 e, shape_to_mlir_type s1 e])"
proof -
  let ?w = "[(''_const_0'', \<lparr>ft_shape = [], ft_dtype = ''float32'', ft_scalar = Some (JFloat 1)\<rparr>)]"
  let ?run = "resolve_op_types ''add'' [''%x'', ''_const_0''] [(''x'', ''%x'')] [(''x'', ([Dim 2], ''bf16''))] ?w []"
  have ok: "is_ok ?run" by code_simp
  have add: "''add'' \<in> set same_type_ops" by (simp add: same_type_ops_def)
  have conv: "const_target (operand_elt [(''x'', ''%x'')] [(''x'', ([Dim 2], ''bf16''))] ?w ''%x'')
      (operand_elt [(''x'', ''%x'')] [(''x'', ([Dim 2], ''bf16''))] ?w ''_const_0'') \<noteq> None" by code_simp
  obtain ts where ts: "?run = Inr ts" using ok unfolding is_ok_iff by blast
  have "\<exists>s0 s1 e. ot_inputs ts = [shape_to_mlir_type s0 e, shape_to_mlir_type s1 e]"
    using operand_types_agree[OF ts add] by (rule disjE) (assumption, elim conjE, rule notE[OF conv], assumption)
  then show ?thesis unfolding ts sum.case .
qed

text \<open>An integer constant added to a bf16 value keeps its type; to an f32 or f16 value it is converted.\<close>

lemma bf16_integer_constant_unpromoted:
  "case resolve_op_types ''add'' [''%x'', ''_const_0''] [(''x'', ''%x'')] [(''x'', ([Dim 2], ''bf16''))]
      [(''_const_0'', \<lparr>ft_shape = [], ft_dtype = ''int64'', ft_scalar = Some (JInt 1)\<rparr>)] [] of
     Inl _ \<Rightarrow> False | Inr ts \<Rightarrow> ot_inputs ts = [''tensor<2xbf16>'', ''tensor<1xi64>'']"
  by code_simp

end
