(* ===== verification/Op_Table.thy ===== *)
theory Op_Table
  imports Prelude
begin

text \<open>
  The operator table of the converter, \<open>compiler/dialect/_op_defs.py\<close>: one entry for each
  operation of the \<open>sf\<close> dialect with the ATen operators it stands for, and the four lookup tables
  that \<open>_build_tables\<close> derives from it.
\<close>

record op_def =
  od_hal :: string
  od_aten :: "string list"
  od_list_arg :: "string option"
  od_scalar_kwargs :: "(nat, string) dict"
  od_scalar_skip :: "nat list"

text \<open>An entry with the defaults of the class, and one with every field given.\<close>

definition plain_def :: "string \<Rightarrow> string list \<Rightarrow> op_def" where
  "plain_def hal aten = \<lparr>od_hal = hal, od_aten = aten, od_list_arg = Some ''_SKIP_'', od_scalar_kwargs = [], od_scalar_skip = []\<rparr>"

definition full_def :: "string \<Rightarrow> string list \<Rightarrow> string option \<Rightarrow> (nat, string) dict \<Rightarrow> nat list \<Rightarrow> op_def" where
  "full_def hal aten list_arg kwargs skip =
     \<lparr>od_hal = hal, od_aten = aten, od_list_arg = list_arg, od_scalar_kwargs = kwargs, od_scalar_skip = skip\<rparr>"

definition op_defs :: "op_def list" where
  "op_defs =
     [
      plain_def ''add'' [''aten.add.Tensor'', ''aten.add.Scalar'', ''aten.add'', ''aten.add_.Tensor'', ''add''],
      plain_def ''mul'' [''aten.mul.Tensor'', ''aten.mul.Scalar'', ''aten.mul'', ''aten.mul_.Tensor'', ''aten.mul_.Scalar''],
      plain_def ''sub'' [''aten.sub'', ''aten.sub.Tensor'', ''aten.rsub'', ''aten.rsub.Scalar''],
      plain_def ''neg'' [''neg'', ''aten.neg.default'', ''aten.neg''],
      plain_def ''pow'' [''pow'', ''aten.pow.Tensor_Scalar'', ''aten.pow''],
      plain_def ''max'' [''aten.max'', ''aten.max.other''],
      plain_def ''relu'' [''aten.relu'', ''aten.relu.default''],
      plain_def ''gelu'' [''aten.gelu'', ''aten.gelu.default''],
      plain_def ''silu'' [''aten.silu'', ''aten.silu.default''],
      plain_def ''sigmoid'' [''aten.sigmoid.default'', ''aten.sigmoid''],
      plain_def ''softplus'' [''aten.softplus.default''],
      plain_def ''exp'' [''aten.exp.default''],
      full_def ''layer_norm'' [''aten.layer_norm'', ''aten.layer_norm.default'', ''aten.native_layer_norm'',
        ''aten.native_layer_norm.default''] (Some ''normalized_shape'') [] [],
      full_def ''rms_norm'' [''aten.rms_norm'', ''aten.rms_norm.default''] (Some ''normalized_shape'') [] [],
      full_def ''softmax'' [''aten._softmax'', ''aten._softmax.default'', ''aten.softmax.int''] (Some ''_SKIP_'') [(1, ''dim'')]
        [],
      plain_def ''matmul'' [''aten.matmul'', ''aten.matmul.default'', ''aten.mm'', ''aten.mm.default'', ''aten.bmm''],
      plain_def ''linear'' [''aten.linear'', ''aten.linear.default''],
      full_def ''view'' [''aten.view'', ''aten.view.default'', ''aten.reshape'', ''aten.reshape.default''] (Some ''shape'') [] [],
      full_def ''unsqueeze'' [''aten.unsqueeze'', ''aten.unsqueeze.default''] (Some ''_SKIP_'') [(1, ''dim'')] [],
      full_def ''expand'' [''aten.expand'', ''aten.expand.default''] None [] [],
      full_def ''permute'' [''aten.permute'', ''aten.permute.default''] (Some ''dims'') [] [],
      full_def ''transpose'' [''aten.transpose'', ''aten.transpose.int''] (Some ''_SKIP_'') [(1, ''dim0''), (2, ''dim1'')] [],
      full_def ''slice'' [''aten.slice.Tensor'', ''aten.slice_copy.Tensor''] (Some ''_SKIP_'') [(1, ''dim''), (2, ''start''), (3,
        ''end''), (4, ''step'')] [],
      full_def ''select'' [''aten.select.int'', ''aten.select''] (Some ''_SKIP_'') [(1, ''dim''), (2, ''index'')] [],
      full_def ''cat'' [''aten.cat'', ''aten.cat.default''] None [(1, ''dim'')] [],
      full_def ''split'' [''aten.split_with_sizes.default''] (Some ''split_sizes'') [(2, ''dim'')] [],
      full_def ''chunk'' [''aten.chunk.default''] (Some ''_SKIP_'') [(1, ''chunks''), (2, ''dim'')] [],
      full_def ''scaled_dot_product_attention'' [''aten.scaled_dot_product_attention'',
        ''aten.scaled_dot_product_attention.default''] (Some ''_SKIP_'') [(4, ''dropout_p''), (5, ''is_causal'')] [],
      plain_def ''gt'' [''gt'', ''aten.gt.Tensor'', ''aten.gt''],
      plain_def ''lt'' [''aten.lt'', ''aten.lt.Tensor''],
      plain_def ''eq'' [''aten.eq.Tensor''],
      plain_def ''ne'' [''aten.ne.Scalar'', ''aten.ne.Tensor''],
      plain_def ''le'' [''aten.le.Tensor''],
      plain_def ''logical_and'' [''aten.__and__.Tensor''],
      plain_def ''cos'' [''aten.cos.default'', ''aten.cos''],
      plain_def ''sin'' [''aten.sin.default'', ''aten.sin''],
      plain_def ''rsqrt'' [''rsqrt'', ''aten.rsqrt.default'', ''aten.rsqrt''],
      full_def ''mean'' [''mean'', ''aten.mean.dim'', ''aten.mean''] (Some ''_SKIP_'') [(2, ''keepdim'')] [],
      full_def ''triu'' [''triu'', ''aten.triu.default'', ''aten.triu''] (Some ''_SKIP_'') [(1, ''diagonal'')] [],
      full_def ''tril'' [''aten.tril.default'', ''aten.tril''] (Some ''_SKIP_'') [(1, ''diagonal'')] [],
      full_def ''cumsum'' [''aten.cumsum'', ''aten.cumsum.default''] (Some ''_SKIP_'') [(1, ''dim'')] [],
      full_def ''sum'' [''aten.sum.dim_IntList''] (Some ''dim'') [(1, ''dim''), (2, ''keepdim'')] [],
      full_def ''diff'' [''aten.diff.default''] (Some ''_SKIP_'') [(1, ''n''), (2, ''dim'')] [],
      plain_def ''arange'' [''aten.arange.start'', ''aten.arange'', ''aten.arange.default'', ''aten.arange.start_step''],
      full_def ''ones_like'' [''aten.ones'', ''aten.ones.default''] (Some ''shape'') [] [],
      full_def ''full_like'' [''aten.full'', ''aten.full.default''] (Some ''shape'') [(1, ''fill_value'')] [],
      full_def ''zeros'' [''aten.zeros.default''] (Some ''shape'') [] [],
      plain_def ''zeros_like'' [''aten.zeros_like.default''],
      plain_def ''new_ones'' [''aten.new_ones.default''],
      full_def ''eye'' [''aten.eye.default''] (Some ''_SKIP_'') [(0, ''n''), (1, ''m'')] [],
      full_def ''embedding'' [''aten.embedding'', ''aten.embedding.default''] (Some ''_SKIP_'') [] [2],
      plain_def ''masked_fill'' [''aten.masked_fill'', ''aten.masked_fill.Scalar'', ''aten.masked_fill_'',
        ''aten.masked_fill_.Scalar''],
      full_def ''conv1d'' [''aten.conv1d.default''] (Some ''__conv1d__'') [(2, ''bias''), (3, ''stride''), (4, ''padding''), (5,
        ''dilation''), (6, ''groups'')] [],
      full_def ''pad'' [''aten.pad.default''] (Some ''pad'') [] [1],
      full_def ''index'' [''aten.index.Tensor''] None [] [],
      full_def ''sym_size'' [''sym_size'', ''aten.sym_size.int'', ''aten.sym_size''] (Some ''_SKIP_'') [(1, ''dim'')] [],
      plain_def ''copy_'' [''aten.copy_.default''],
      plain_def ''type_as'' [''aten.type_as'', ''aten.type_as.default''],
      full_def ''identity'' [''_assert_tensor_metadata'', ''aten._assert_tensor_metadata.default'',
        ''aten._assert_tensor_metadata'', ''aten.to'', ''aten.to.dtype'', ''aten.to.dtype_layout'', ''aten.contiguous'',
        ''aten.contiguous.default'', ''aten.clone'', ''aten.clone.default'', ''aten.dropout'', ''aten.dropout.default'',
        ''aten.detach'', ''aten.detach.default'', ''aten.detach_'', ''aten.detach_.default'', ''aten.alias'',
        ''aten.alias.default'', ''aten.lift_fresh_copy'', ''aten.lift_fresh_copy.default''] (Some ''_SKIP_'') [(1, ''dtype'')] [],
      plain_def ''getitem'' [''getitem''],
      plain_def ''_skip_wrap'' [''wrap_with_set_grad_enabled''],
      plain_def ''div'' [''aten.div.Tensor'', ''aten.div.default''],
      plain_def ''tanh'' [''aten.tanh.default''],
      plain_def ''sqrt'' [''aten.sqrt.default''],
      plain_def ''clamp_min'' [''aten.clamp_min.default''],
      full_def ''einsum'' [''aten.einsum.default''] None [(0, ''equation'')] [],
      plain_def ''stack'' [''aten.stack.default''],
      plain_def ''linalg_norm'' [''aten.linalg_vector_norm.default''],
      plain_def ''var'' [''aten.var.dim''],
      plain_def ''view_as'' [''aten.view_as.default''],
      plain_def ''expand_as'' [''aten.expand_as.default'']
     ]"


section \<open>The derived tables\<close>

record op_tables =
  tb_aten_to_hal :: "(string, string) dict"
  tb_list_arg_attr :: "(string, string option) dict"
  tb_scalar_kwarg_names :: "(string, (nat, string) dict) dict"
  tb_scalar_int_positions :: "(string, nat list) dict"

definition add_aten :: "string \<Rightarrow> (string, string) dict \<Rightarrow> string \<Rightarrow> (string, string) dict res" where
  "add_aten hal d aten =
     (case map_of d aten of
        Some h \<Rightarrow> if h \<noteq> hal then Inl AssertionError else Inr (AList.update aten hal d)
      | None \<Rightarrow> Inr (AList.update aten hal d))"

definition add_op_def :: "op_tables \<Rightarrow> op_def \<Rightarrow> op_tables res" where
  "add_op_def T od =
     res_bind (res_foldM (add_aten (od_hal od)) (tb_aten_to_hal T) (od_aten od)) (\<lambda>aten.
     let positions = map fst (od_scalar_kwargs od) @ od_scalar_skip od
     in Inr \<lparr>tb_aten_to_hal = aten,
             tb_list_arg_attr = (if od_list_arg od \<noteq> Some ''_SKIP_'' then dict_setdefault (tb_list_arg_attr T) (od_hal od) (od_list_arg od)
                                 else tb_list_arg_attr T),
             tb_scalar_kwarg_names = (if od_scalar_kwargs od \<noteq> [] then dict_setdefault (tb_scalar_kwarg_names T) (od_hal od) (od_scalar_kwargs od)
                                      else tb_scalar_kwarg_names T),
             tb_scalar_int_positions =
               (if positions = [] then tb_scalar_int_positions T
                else AList.update (od_hal od)
                       (sort (remdups (dict_get (tb_scalar_int_positions T) (od_hal od) [] @ positions))) (tb_scalar_int_positions T))\<rparr>)"

definition build_tables :: "op_def list \<Rightarrow> op_tables res" where
  "build_tables defs =
     res_foldM add_op_def \<lparr>tb_aten_to_hal = [], tb_list_arg_attr = [], tb_scalar_kwarg_names = [], tb_scalar_int_positions = []\<rparr> defs"

text \<open>\<open>_map_aten_op\<close> on the text of the target: the name itself, or the name without a known overload.\<close>

definition overload_candidates :: "string list" where
  "overload_candidates =
     [''default'', ''int'', ''float'', ''str'', ''bool'', ''complex'', ''Scalar'', ''ScalarList'', ''Tensor'', ''dimname'', ''layout'',
      ''device'', ''memory_format'', ''generator'', ''dim'', ''start'', ''other'', ''dtype'', ''dtype_layout'', ''values'', ''copy'']"

fun dots_for_colons :: "string \<Rightarrow> string" where
  "dots_for_colons (a # b # cs) = (if a = CHR '':'' \<and> b = CHR '':'' then CHR ''.'' # dots_for_colons cs else a # dots_for_colons (b # cs))"
| "dots_for_colons s = s"

definition map_aten_op :: "op_tables \<Rightarrow> string \<Rightarrow> string option" where
  "map_aten_op T target =
     (let name = dots_for_colons target
      in case map_of (tb_aten_to_hal T) name of
           Some hal \<Rightarrow> Some hal
         | None \<Rightarrow>
             if CHR ''.'' \<notin> set name then None
             else let parts = split_on CHR ''.'' name; base = take (length name - Suc (length (last parts))) name
                  in if last parts \<in> set overload_candidates then map_of (tb_aten_to_hal T) base else None)"


section \<open>The tables agree with the entries\<close>

lemma add_aten_keeps:
  assumes "add_aten hal d aten = Inr d'" "map_of d a = Some h"
  shows "map_of d' a = Some h"
  using assms by (auto simp: add_aten_def map_of_update split: option.splits if_splits)

lemma add_aten_new: "add_aten hal d aten = Inr d' \<Longrightarrow> map_of d' aten = Some hal"
  by (auto simp: add_aten_def map_of_update split: option.splits if_splits)

lemma add_atens:
  "res_foldM (add_aten hal) d atens = Inr d' \<Longrightarrow>
     (\<forall>a h. map_of d a = Some h \<longrightarrow> map_of d' a = Some h) \<and> (\<forall>a \<in> set atens. map_of d' a = Some hal)"
proof (induction atens arbitrary: d)
  case (Cons a atens)
  then obtain d1 where d1: "add_aten hal d a = Inr d1" "res_foldM (add_aten hal) d1 atens = Inr d'" by (auto elim: res_bindE)
  then show ?case using Cons.IH[OF d1(2)] add_aten_keeps[OF d1(1)] add_aten_new[OF d1(1)] by auto
qed simp

lemma op_defs_fold:
  "res_foldM add_op_def T defs = Inr T' \<Longrightarrow>
     (\<forall>a h. map_of (tb_aten_to_hal T) a = Some h \<longrightarrow> map_of (tb_aten_to_hal T') a = Some h)
     \<and> (\<forall>od \<in> set defs. \<forall>a \<in> set (od_aten od). map_of (tb_aten_to_hal T') a = Some (od_hal od))"
proof (induction defs arbitrary: T)
  case (Cons od defs)
  then obtain T1 where T1: "add_op_def T od = Inr T1" "res_foldM add_op_def T1 defs = Inr T'" by (auto elim: res_bindE)
  obtain aten where "res_foldM (add_aten (od_hal od)) (tb_aten_to_hal T) (od_aten od) = Inr aten" "tb_aten_to_hal T1 = aten"
    using T1(1) by (auto simp: add_op_def_def Let_def elim!: res_bindE)
  then show ?case using Cons.IH[OF T1(2)] add_atens by fastforce
qed simp

lemma build_tables_maps:
  "build_tables defs = Inr T \<Longrightarrow> od \<in> set defs \<Longrightarrow> a \<in> set (od_aten od) \<Longrightarrow> map_of (tb_aten_to_hal T) a = Some (od_hal od)"
  using op_defs_fold unfolding build_tables_def by blast

end
