(* ===== verification/Fx_Convert.thy ===== *)
theory Fx_Convert
  imports Fx_Types Op_Table Func_Split Mlir_Text
begin

text \<open>
  The conversion of an exported \<open>torch.fx\<close> graph to a module, \<open>compiler/fx/converter.py\<close>.  A node
  has a name, a kind, the text of its target, its arguments, the \<open>val\<close> and the keys of
  \<open>nn_module_stack\<close> of its metadata; an argument node stands for its name.  The state of the walk
  is a record with the dictionaries the code keeps, and each handler of an operation is a function
  on it.  Sets of names are lists in order of insertion.
\<close>


section \<open>Programs and the state of the walk\<close>

datatype node_kind = Placeholder | GetAttr | CallFunction | Output | OtherNode

text \<open>The \<open>val\<close> of a node: absent, a tensor, or something without a shape, such as a symbolic integer.\<close>

datatype fx_meta = NoVal | TensorVal fake_tensor | OtherVal

record fx_node =
  fn_name :: string
  fn_kind :: node_kind
  fn_target :: string
  fn_args :: "fx_arg list"
  fn_kwargs :: "(string, fx_arg) dict"
  fn_val :: fx_meta
  fn_modules :: "string list"

record fx_program =
  fp_nodes :: "fx_node list"
  fp_user_inputs :: "string list"
  fp_input_specs :: "(string \<times> string \<times> int) list"
  fp_state_dict :: "(string \<times> fx_tensor) list"
  fp_constants :: "(string \<times> fx_tensor) list"

record conversion =
  cv_ops :: "mlir_op list"
  cv_ssa :: "(string, string) dict"
  cv_shapes :: "(string, typed_shape) dict"
  cv_tuples :: "(string, string list) dict"
  cv_weights :: "(string, fx_tensor) dict"
  cv_counter :: nat
  cv_layer :: string
  cv_boundaries :: "nat list"
  cv_node_layer :: "(string, string) dict"
  cv_outputs :: "(string \<times> string \<times> bool) list"

definition node_named :: "fx_program \<Rightarrow> string \<Rightarrow> fx_node option" where
  "node_named P name = find (\<lambda>n. fn_name n = name) (fp_nodes P)"

definition node_val :: "fx_program \<Rightarrow> string \<Rightarrow> fx_meta" where
  "node_val P name = (case node_named P name of None \<Rightarrow> NoVal | Some n \<Rightarrow> fn_val n)"

definition percent :: "string \<Rightarrow> string" where
  "percent s = CHR ''%'' # s"

definition clean_name :: "string \<Rightarrow> string" where
  "clean_name s = map (\<lambda>c. if c = CHR ''.'' then CHR ''_'' else c) s"

definition meta_type :: "fx_meta \<Rightarrow> string res" where
  "meta_type v = (case v of NoVal \<Rightarrow> Inr ''tensor<f32>'' | TensorVal f \<Rightarrow> Inr (type_from_fake f) | OtherVal \<Rightarrow> Inl AttributeError)"

text \<open>\<open>if "val" in node.meta: shape_map[node.name] = _fake_to_shape_tuple(node.meta["val"])\<close>\<close>

definition record_shape :: "fx_node \<Rightarrow> conversion \<Rightarrow> conversion res" where
  "record_shape n st =
     (case fn_val n of
        NoVal \<Rightarrow> Inr st
      | TensorVal f \<Rightarrow> Inr (st\<lparr>cv_shapes := AList.update (fn_name n) (fake_to_shape_tuple f) (cv_shapes st)\<rparr>)
      | OtherVal \<Rightarrow> Inl AttributeError)"

text \<open>\<open>ssa_map.get(name, name)\<close>\<close>

definition ssa_of :: "(string, string) dict \<Rightarrow> string \<Rightarrow> string" where
  "ssa_of ssa_map name = dict_get ssa_map name name"

definition set_ssa :: "string \<Rightarrow> string \<Rightarrow> conversion \<Rightarrow> conversion" where
  "set_ssa name v st = st\<lparr>cv_ssa := AList.update name v (cv_ssa st)\<rparr>"

definition emit :: "mlir_op \<Rightarrow> conversion \<Rightarrow> conversion" where
  "emit op st = st\<lparr>cv_ops := cv_ops st @ [op]\<rparr>"

definition sf_op :: "string \<Rightarrow> string list \<Rightarrow> string list \<Rightarrow> (string, json) dict \<Rightarrow> string list \<Rightarrow> string list \<Rightarrow> mlir_op" where
  "sf_op name operands results attributes ins outs =
     \<lparr>mo_name = ''sf.'' @ name, mo_dialect = ''sf'', mo_op_name = name, mo_operands = operands, mo_results = results,
      mo_attributes = attributes, mo_input_types = ins, mo_output_types = outs\<rparr>"


section \<open>Arguments\<close>

text \<open>An argument kept as an attribute; nodes and symbolic integers stay objects.\<close>

fun json_of_arg :: "fx_arg \<Rightarrow> json" where
  "json_of_arg (FNode n) = JObj [(''node'', JStr n)]"
| "json_of_arg (FBool b) = JBool b"
| "json_of_arg (FInt i) = JInt i"
| "json_of_arg (FFloat r) = JFloat r"
| "json_of_arg (FSym None) = JObj []"
| "json_of_arg (FSym (Some n)) = JObj [(''symint'', JStr (sn_text n))]"
| "json_of_arg (FStr s) = JStr s"
| "json_of_arg (FDtype s) = dtype_value (if starts_with s ''torch.'' then drop 6 s else s)"
| "json_of_arg (FSeq xs) = JList (map json_of_arg xs)"
| "json_of_arg FNone = JNull"

definition json_of_int :: "int option \<Rightarrow> json" where
  "json_of_int i = (case i of None \<Rightarrow> JNull | Some k \<Rightarrow> JInt k)"

text \<open>\<open>_symint_to_int(a) if isinstance(a, torch.SymInt) else a\<close>, as an attribute.\<close>

definition plain_json :: "fx_arg \<Rightarrow> json" where
  "plain_json a = (case a of FSym _ \<Rightarrow> json_of_int (symint_to_int a) | _ \<Rightarrow> json_of_arg a)"

text \<open>The same as an integer when it is one.\<close>

definition plain_int :: "fx_arg \<Rightarrow> int option" where
  "plain_int a = (case a of FSym _ \<Rightarrow> symint_to_int a | FInt i \<Rightarrow> Some i | FBool b \<Rightarrow> Some (if b then 1 else 0) | _ \<Rightarrow> None)"

text \<open>A dimension or count: symbolic ones without a value, or with the value 0, are the default.\<close>

definition int_or :: "int \<Rightarrow> fx_arg \<Rightarrow> int option" where
  "int_or d a = (case a of FSym _ \<Rightarrow> Some (case symint_to_int a of None \<Rightarrow> d | Some i \<Rightarrow> if i = 0 then d else i) | _ \<Rightarrow> plain_int a)"

definition arg_at :: "fx_node \<Rightarrow> nat \<Rightarrow> fx_arg \<Rightarrow> fx_arg" where
  "arg_at n i d = (if i < length (fn_args n) then fn_args n ! i else d)"

definition seq_items :: "fx_arg \<Rightarrow> fx_arg list res" where
  "seq_items a = (case a of FSeq xs \<Rightarrow> Inr xs | FStr s \<Rightarrow> Inr (map (\<lambda>c. FStr [c]) s) | _ \<Rightarrow> Inl TypeError)"

fun arg_truthy :: "fx_arg \<Rightarrow> bool" where
  "arg_truthy (FBool b) = b"
| "arg_truthy (FInt i) = (i \<noteq> 0)"
| "arg_truthy (FFloat r) = (r \<noteq> 0)"
| "arg_truthy (FStr s) = (s \<noteq> [])"
| "arg_truthy (FSeq xs) = (xs \<noteq> [])"
| "arg_truthy FNone = False"
| "arg_truthy _ = True"

text \<open>\<open>torch.tensor(v, dtype=...)\<close> of a scalar.\<close>

definition scalar_const :: "json \<Rightarrow> fx_tensor" where
  "scalar_const v = \<lparr>ft_shape = [], ft_dtype = (case v of JFloat _ \<Rightarrow> ''float32'' | _ \<Rightarrow> ''int64''), ft_scalar = Some v\<rparr>"

definition const_name :: "nat \<Rightarrow> string" where
  "const_name k = ''_const_'' @ string_of_nat k"


section \<open>Operand lists\<close>

record collected =
  co_names :: "string list"
  co_counter :: nat
  co_weights :: "(string, fx_tensor) dict"
  co_extra :: "(string, json) dict"

definition add_const :: "json \<Rightarrow> collected \<Rightarrow> collected" where
  "add_const v c = c\<lparr>co_names := co_names c @ [const_name (co_counter c)], co_counter := co_counter c + 1,
     co_weights := AList.update (const_name (co_counter c)) (scalar_const v) (co_weights c)\<rparr>"

definition add_name :: "string \<Rightarrow> collected \<Rightarrow> collected" where
  "add_name n c = c\<lparr>co_names := co_names c @ [n]\<rparr>"

text \<open>A scalar at a known position becomes a keyword argument, when the position has a name.\<close>

definition keep_kwarg :: "string option \<Rightarrow> json \<Rightarrow> collected \<Rightarrow> collected" where
  "keep_kwarg kwarg_name v c =
     (case kwarg_name of None \<Rightarrow> c
      | Some k \<Rightarrow> if k = [] then c else c\<lparr>co_extra := dict_setdefault (co_extra c) k v\<rparr>)"

text \<open>Sequences of operations without a sequence attribute: nodes are operands, all entries the shape.\<close>

definition shape_item :: "(string, string) dict \<Rightarrow> collected \<times> json list \<Rightarrow> fx_arg \<Rightarrow> collected \<times> json list" where
  "shape_item ssa_map = (\<lambda>(c, shape) item.
     case item of
       FNode n \<Rightarrow> (add_name (ssa_of ssa_map n) c, shape @ [JStr (ssa_of ssa_map n)])
     | _ \<Rightarrow> (c, shape @ [if plain_json item = JInt int64_max then JInt (-1) else plain_json item]))"

text \<open>Sequences with an attribute; in a view the dynamic sizes are numbered -2, -3, ...\<close>

definition view_ops :: "string list" where
  "view_ops = [''view'', ''ones_like'', ''full_like'', ''new_zeros'']"

definition attr_item :: "string \<Rightarrow> (string, string) dict \<Rightarrow> collected \<times> json list \<times> int \<Rightarrow> fx_arg \<Rightarrow> collected \<times> json list \<times> int" where
  "attr_item hal_op ssa_map = (\<lambda>(c, resolved, dyn_pos) s.
     case s of
       FNode n \<Rightarrow>
         let name = ssa_of ssa_map n;
             entry = (if hal_op = ''view'' then JInt (- (dyn_pos + 2)) else if hal_op \<in> set view_ops then JInt (-1) else JStr name)
         in (add_name name c, resolved @ [entry], if hal_op = ''view'' then dyn_pos + 1 else dyn_pos)
     | _ \<Rightarrow>
         if hal_op \<in> set view_ops then (c, resolved @ [JInt (symint_for_view s)], dyn_pos)
         else (c, resolved @ [case s of FSym _ \<Rightarrow> JInt (case symint_to_int s of None \<Rightarrow> 1 | Some i \<Rightarrow> if i = 0 then 1 else i)
                              | _ \<Rightarrow> json_of_arg s], dyn_pos))"

definition collect_seq :: "string \<Rightarrow> (string, string) dict \<Rightarrow> string option \<Rightarrow> string option \<Rightarrow> fx_arg list \<Rightarrow> collected \<Rightarrow> collected" where
  "collect_seq hal_op ssa_map list_arg_attr kwarg_name items c =
     (case list_arg_attr of
        None \<Rightarrow>
          (case foldl (shape_item ssa_map) (c, []) items of
             (c', shape) \<Rightarrow> if shape = [] then c' else c'\<lparr>co_extra := dict_setdefault (co_extra c') ''shape'' (JList shape)\<rparr>)
      | Some attr \<Rightarrow>
          if attr = ''__skip__'' then c
          else if attr = ''__conv1d__'' then keep_kwarg kwarg_name (JList (map json_of_arg items)) c
          else if dict_has (co_extra c) attr then c
          else (case foldl (attr_item hal_op ssa_map) (c, [], 0) items of
                  (c', resolved, _) \<Rightarrow> c'\<lparr>co_extra := AList.update attr (JList resolved) (co_extra c')\<rparr>))"

definition collect_arg ::
    "string \<Rightarrow> (string, string) dict \<Rightarrow> (nat, string) dict \<Rightarrow> nat list \<Rightarrow> string option \<Rightarrow> collected \<Rightarrow> nat \<times> fx_arg \<Rightarrow> collected" where
  "collect_arg hal_op ssa_map kwarg_names positions list_arg_attr c = (\<lambda>(i, arg).
     let kwarg_name = map_of kwarg_names i;
         number = (if i \<in> set positions then keep_kwarg kwarg_name (plain_json arg) c
                   else add_const (if plain_json arg = JNull then JInt 1 else plain_json arg) c)
     in case arg of
          FNode n \<Rightarrow> add_name (ssa_of ssa_map n) c
        | FBool b \<Rightarrow> if i \<in> set positions then keep_kwarg kwarg_name (JBool b) c else c
        | FInt _ \<Rightarrow> number
        | FFloat _ \<Rightarrow> number
        | FSym _ \<Rightarrow> number
        | FStr s \<Rightarrow> if kwarg_name = None \<or> kwarg_name = Some [] then add_const (JInt 0) c else keep_kwarg kwarg_name (JStr s) c
        | FDtype s \<Rightarrow> keep_kwarg kwarg_name (JStr s) c
        | FSeq items \<Rightarrow> collect_seq hal_op ssa_map list_arg_attr kwarg_name items c
        | FNone \<Rightarrow> c)"

definition collect_input_args ::
    "fx_node \<Rightarrow> string \<Rightarrow> (string, string) dict \<Rightarrow> nat \<Rightarrow> (string, fx_tensor) dict \<Rightarrow> (nat, string) dict \<Rightarrow> nat list \<Rightarrow> string option \<Rightarrow> collected" where
  "collect_input_args n hal_op ssa_map counter weights kwarg_names positions list_arg_attr =
     foldl (collect_arg hal_op ssa_map kwarg_names positions list_arg_attr)
       \<lparr>co_names = [], co_counter = counter, co_weights = weights, co_extra = []\<rparr> (enum_from 0 (fn_args n))"

text \<open>
  \<open>torch.arange\<close>: a start constant and a size, both scalars unless the end is a node.  Floats are
  rationals, so that the subtraction is exact.
\<close>

definition concrete :: "fx_arg \<Rightarrow> fx_arg" where
  "concrete a = (case a of FSym _ \<Rightarrow> (case symint_to_int a of None \<Rightarrow> FNone | Some i \<Rightarrow> FInt i) | _ \<Rightarrow> a)"

fun number_of :: "fx_arg \<Rightarrow> rat option" where
  "number_of (FInt i) = Some (of_int i)"
| "number_of (FBool b) = Some (if b then 1 else 0)"
| "number_of (FFloat r) = Some r"
| "number_of _ = None"

definition int_of_arg :: "fx_arg \<Rightarrow> int res" where
  "int_of_arg a = (case a of FStr s \<Rightarrow> int_of_string s | _ \<Rightarrow> (case number_of a of None \<Rightarrow> Inl TypeError | Some r \<Rightarrow> Inr (py_trunc r)))"

definition is_node :: "fx_arg \<Rightarrow> bool" where
  "is_node a = (case a of FNode _ \<Rightarrow> True | _ \<Rightarrow> False)"

definition arange_start :: "fx_arg \<Rightarrow> json res" where
  "arange_start v =
     (case v of FFloat r \<Rightarrow> Inr (JFloat r) | FNone \<Rightarrow> Inr (JInt 0) | _ \<Rightarrow> res_bind (int_of_arg v) (\<lambda>i. Inr (JInt i)))"

definition arange_size :: "fx_arg \<Rightarrow> fx_arg \<Rightarrow> int res" where
  "arange_size end_v start_v =
     (if end_v = FNone then Inl NotImplementedError
      else case (number_of end_v, if arg_truthy start_v then number_of start_v else Some 0) of
             (Some e, Some s) \<Rightarrow> Inr (py_trunc (e - s))
           | _ \<Rightarrow> Inl TypeError)"

definition collect_arange_args ::
    "fx_node \<Rightarrow> (string, string) dict \<Rightarrow> nat \<Rightarrow> (string, fx_tensor) dict \<Rightarrow> collected res" where
  "collect_arange_args n ssa_map counter weights =
     (let args = fn_args n;
          start = (if length args = 1 then FInt 0 else args ! 0);
          stop = (if length args = 1 then args ! 0 else args ! 1);
          step = arg_at n 2 (FInt 1);
          start_v = concrete start
      in if args = [] then Inl NotImplementedError
         else if number_of (concrete step) \<noteq> Some 1 then Inl NotImplementedError
         else if is_node start then Inl NotImplementedError
         else res_bind (arange_start start_v) (\<lambda>v.
              let c = add_const v \<lparr>co_names = [], co_counter = counter, co_weights = weights, co_extra = []\<rparr>
              in case stop of
                   FNode m \<Rightarrow> if number_of start_v \<noteq> Some 0 then Inl NotImplementedError else Inr (add_name (ssa_of ssa_map m) c)
                 | _ \<Rightarrow> res_bind (arange_size (concrete stop) start_v) (\<lambda>k. Inr (add_const (JInt k) c))))"


section \<open>Attributes and names of a call\<close>

definition update_all :: "(string, json) dict \<Rightarrow> (string, json) dict \<Rightarrow> (string, json) dict" where
  "update_all d extra = foldl (\<lambda>d (k, v). AList.update k v d) d extra"

definition int_args :: "fx_node \<Rightarrow> fx_arg list" where
  "int_args n = filter (\<lambda>a. case a of FInt _ \<Rightarrow> True | _ \<Rightarrow> False) (fn_args n)"

definition sym_int_args :: "fx_node \<Rightarrow> fx_arg list" where
  "sym_int_args n = filter (\<lambda>a. case a of FInt _ \<Rightarrow> True | FSym _ \<Rightarrow> True | _ \<Rightarrow> False) (fn_args n)"

text \<open>\<open>_symint_to_int(int_args[0]) or int_args[0]\<close>\<close>

definition dim_kwarg :: "fx_arg \<Rightarrow> json" where
  "dim_kwarg a = (case symint_to_int a of Some i \<Rightarrow> if i = 0 then json_of_arg a else JInt i | None \<Rightarrow> json_of_arg a)"

definition apply_post_kwargs :: "string \<Rightarrow> fx_node \<Rightarrow> string list \<Rightarrow> (string, json) dict \<Rightarrow> (string, json) dict" where
  "apply_post_kwargs hal_op n names kwargs =
     (if hal_op = ''ones_like'' \<and> names = [] then dict_setdefault kwargs ''shape'' (JList [JInt 1, JInt 1])
      else if hal_op = ''full_like'' \<and> names = []
      then let kw = dict_setdefault kwargs ''shape'' (JList [JInt 1])
           in (case map json_of_arg (int_args n) of
                 a # b # _ \<Rightarrow> AList.update ''dim1'' b (AList.update ''dim0'' a kw)
               | _ \<Rightarrow> kw)
      else if hal_op \<in> {''softmax'', ''unsqueeze''} \<and> \<not> dict_has kwargs ''dim''
      then (case sym_int_args n of [] \<Rightarrow> kwargs | a # _ \<Rightarrow> AList.update ''dim'' (dim_kwarg a) kwargs)
      else kwargs)"

definition semantic_ssa_name ::
    "py_format \<Rightarrow> string \<Rightarrow> fx_node \<Rightarrow> nat \<Rightarrow> (string, json) dict \<Rightarrow> (string, string) dict \<Rightarrow> string" where
  "semantic_ssa_name F hal_op n counter kwargs ssa_map =
     (if hal_op = ''sym_size''
      then percent (case fn_args n of FNode m # _ \<Rightarrow> ssa_key (ssa_of ssa_map m) | _ \<Rightarrow> ''tensor'')
             @ ''_dim_'' @ py_str F (dict_get kwargs ''dim'' (JStr ''?''))
      else if hal_op = ''arange''
      then ''%arange_'' @ (case fn_args n of FNode m # _ \<Rightarrow> filter (\<lambda>c. c \<noteq> CHR ''%'') (ssa_of ssa_map m) | _ \<Rightarrow> string_of_nat counter)
             @ ''_'' @ string_of_nat counter
      else if hal_op = ''le'' then ''%causal_mask''
      else if hal_op = ''expand'' then ''%attn_mask_'' @ string_of_nat counter
      else if hal_op = ''logical_and'' then ''%mask_and_'' @ string_of_nat counter
      else if hal_op = ''view'' then ''%reshape_'' @ string_of_nat counter
      else if fn_name n \<noteq> [] then percent (fn_name n) else ''%_out_'' @ string_of_nat counter)"


section \<open>Tuples: \<open>getitem\<close>, \<open>split\<close> and \<open>chunk\<close>\<close>

definition copy_shape :: "string \<Rightarrow> string \<Rightarrow> conversion \<Rightarrow> conversion" where
  "copy_shape to_name from_name st =
     (case map_of (cv_shapes st) from_name of
        None \<Rightarrow> st | Some s \<Rightarrow> st\<lparr>cv_shapes := AList.update to_name s (cv_shapes st)\<rparr>)"

definition tuple_item :: "conversion \<Rightarrow> fx_arg \<Rightarrow> fx_arg \<Rightarrow> string option" where
  "tuple_item st src_node idx =
     (case (src_node, idx, plain_int idx) of
        (FNode m, FSym _, _) \<Rightarrow> None
      | (FNode m, _, Some i) \<Rightarrow>
          (case map_of (cv_tuples st) m of
             None \<Rightarrow> None
           | Some outs \<Rightarrow> if 0 \<le> i \<and> i < int (length outs) then Some (outs ! nat i) else None)
      | _ \<Rightarrow> None)"

definition do_getitem :: "fx_node \<Rightarrow> conversion \<Rightarrow> conversion" where
  "do_getitem n st =
     (let src_node = arg_at n 0 FNone; idx = arg_at n 1 (FInt 0)
      in case tuple_item st src_node idx of
           Some v \<Rightarrow> copy_shape (fn_name n) v (set_ssa (fn_name n) v st)
         | None \<Rightarrow>
             (case src_node of
                FNode m \<Rightarrow>
                  let out = (if fn_name n \<noteq> [] then percent (fn_name n) else ''%_out_'' @ string_of_nat (length (cv_ops st)))
                  in emit (sf_op ''sym_size'' [ssa_of (cv_ssa st) m] [out]
                             [(''dim'', plain_json idx), (''source_node'', JStr (fn_name n))] [] [])
                       (set_ssa (fn_name n) out st)
              | _ \<Rightarrow> st))"

text \<open>One \<open>sf.slice\<close> per piece; \<open>piece\<close> is its shape, when known.\<close>

definition known_dim :: "dim \<Rightarrow> dim" where
  "known_dim x = (case x of Dim i \<Rightarrow> if i \<ge> 0 then Dim i else Dyn | _ \<Rightarrow> x)"

definition emit_slice ::
    "fx_node \<Rightarrow> string \<Rightarrow> string \<Rightarrow> int \<Rightarrow> string list \<Rightarrow> string \<Rightarrow> (int \<Rightarrow> dim list option)
       \<Rightarrow> conversion \<times> string list \<times> int \<Rightarrow> nat \<times> int \<Rightarrow> conversion \<times> string list \<times> int" where
  "emit_slice n tensor_ssa tag d src_types src_elt piece = (\<lambda>(st, outs, offset) (i, size).
     let out = percent (fn_name n) @ tag @ string_of_nat i;
         out_types = (case piece size of None \<Rightarrow> [] | Some s \<Rightarrow> [shape_to_mlir_type s src_elt]);
         st1 = emit (sf_op ''slice'' [tensor_ssa] [out]
                       [(''dim'', JInt d), (''start'', JInt offset), (''end'', JInt (offset + size)), (''source_node'', JStr (fn_name n))]
                       src_types out_types) st;
         st2 = (case piece size of
                  None \<Rightarrow> st1
                | Some s \<Rightarrow> st1\<lparr>cv_shapes := AList.update out (map known_dim s, src_elt) (cv_shapes st1)\<rparr>)
     in (st2, outs @ [out], offset + size))"

definition emit_slices ::
    "fx_node \<Rightarrow> string \<Rightarrow> string \<Rightarrow> int \<Rightarrow> string list \<Rightarrow> string \<Rightarrow> (int \<Rightarrow> dim list option) \<Rightarrow> int list \<Rightarrow> conversion \<Rightarrow> conversion" where
  "emit_slices n tensor_ssa tag d src_types src_elt piece sizes st =
     (case foldl (emit_slice n tensor_ssa tag d src_types src_elt piece) (st, [], 0) (enum_from 0 sizes) of
        (st1, outs, _) \<Rightarrow>
          let st2 = st1\<lparr>cv_tuples := AList.update (fn_name n) outs (cv_tuples st1)\<rparr>
          in case outs of
               [] \<Rightarrow> set_ssa (fn_name n) (ssa_of (cv_ssa st2) (fn_name n)) st2
             | out # _ \<Rightarrow> copy_shape (fn_name n) out (set_ssa (fn_name n) out st2))"

definition with_size :: "dim list \<Rightarrow> int \<Rightarrow> int \<Rightarrow> dim list" where
  "with_size shape norm_dim k = (if 0 \<le> norm_dim \<and> norm_dim < int (length shape) then shape[nat norm_dim := Dim k] else shape)"

definition norm_dim_in :: "dim list \<Rightarrow> int \<Rightarrow> int" where
  "norm_dim_in shape d = (if d < 0 then d + int (length shape) else d)"

definition do_split :: "fx_node \<Rightarrow> conversion \<Rightarrow> conversion res" where
  "do_split n st =
     (let raw = arg_at n 1 (FSeq [])
      in case arg_at n 0 FNone of
           FNode m \<Rightarrow>
             if \<not> arg_truthy raw then Inr st
             else (case int_or 0 (arg_at n 2 (FInt 0)) of
                     None \<Rightarrow> Inr st
                   | Some d \<Rightarrow>
                       res_bind (seq_items raw) (\<lambda>items.
                       let sizes = map plain_int items; src = map_of (cv_shapes st) m;
                           src_elt = (case src of None \<Rightarrow> ''f32'' | Some (_, e) \<Rightarrow> e);
                           src_types = (case src of None \<Rightarrow> [] | Some (s, e) \<Rightarrow> [shape_to_mlir_type s e]);
                           piece = (\<lambda>size. case src of
                                      None \<Rightarrow> None
                                    | Some (s, _) \<Rightarrow> if 0 \<le> norm_dim_in s d \<and> norm_dim_in s d < int (length s)
                                                     then Some (with_size s (norm_dim_in s d) size) else None)
                       in if sizes = [] \<or> None \<in> set sizes then Inr st
                          else Inr (emit_slices n (ssa_of (cv_ssa st) m) ''__split_'' d src_types src_elt piece (map the sizes) st)))
         | _ \<Rightarrow> Inr st)"

text \<open>The number of elements to divide: a size of the tracked shape, else of the graph's own shape.\<close>

definition size_at :: "dim list \<Rightarrow> int \<Rightarrow> int option res" where
  "size_at shape d =
     (if d < int (length shape)
      then res_bind (py_index shape d) (\<lambda>x. Inr (case x of Dim i \<Rightarrow> Some i | _ \<Rightarrow> None)) else Inr None)"

definition chunk_total :: "dim list \<Rightarrow> dim list \<Rightarrow> int \<Rightarrow> int option res" where
  "chunk_total src_shape fake_shape d =
     res_bind (size_at src_shape d) (\<lambda>total. case total of Some t \<Rightarrow> Inr (Some t) | None \<Rightarrow> size_at fake_shape d)"

definition chunk_sizes :: "int \<Rightarrow> int \<Rightarrow> int list" where
  "chunk_sizes t n = map (\<lambda>i. t div n + (if i < t mod n then 1 else 0)) [0..n - 1]"

definition chunk_count :: "fx_arg \<Rightarrow> int res" where
  "chunk_count a = (case a of FSym _ \<Rightarrow> Inr (case symint_to_int a of None \<Rightarrow> 2 | Some i \<Rightarrow> if i = 0 then 2 else i) | _ \<Rightarrow> int_of_arg a)"

definition do_chunk :: "fx_program \<Rightarrow> fx_node \<Rightarrow> conversion \<Rightarrow> conversion res" where
  "do_chunk P n st =
     (case arg_at n 0 FNone of
        FNode m \<Rightarrow>
          (case (node_val P m, int_or 0 (arg_at n 2 (FInt 0))) of
             (NoVal, _) \<Rightarrow> Inr st
           | (_, None) \<Rightarrow> Inr st
           | (OtherVal, _) \<Rightarrow> Inl AttributeError
           | (TensorVal fake, Some d) \<Rightarrow>
               let fake_shape = resolve_shape_tuple (fk_shape fake); src = map_of (cv_shapes st) m;
                   src_shape = (case src of None \<Rightarrow> fake_shape | Some (s, _) \<Rightarrow> s);
                   src_elt = (case src of None \<Rightarrow> snd (fake_to_shape_tuple fake) | Some (_, e) \<Rightarrow> e);
                   src_types = (case src of None \<Rightarrow> [] | Some (s, e) \<Rightarrow> [shape_to_mlir_type s e])
               in res_bind (chunk_total src_shape fake_shape d) (\<lambda>total.
                  case total of
                    None \<Rightarrow> Inr st
                  | Some t \<Rightarrow>
                      res_bind (chunk_count (arg_at n 1 (FInt 2))) (\<lambda>k.
                      Inr (emit_slices n (ssa_of (cv_ssa st) m) ''__chunk_'' d src_types src_elt
                             (\<lambda>size. Some (with_size src_shape (norm_dim_in src_shape d) size)) (chunk_sizes t k) st))))
      | _ \<Rightarrow> Inr st)"


section \<open>The walk\<close>

definition kwargs_of :: "fx_node \<Rightarrow> (string, json) dict" where
  "kwargs_of n = map (\<lambda>(k, a). (k, json_of_arg a)) (fn_kwargs n)"

definition collect_args :: "op_tables \<Rightarrow> fx_node \<Rightarrow> string \<Rightarrow> conversion \<Rightarrow> collected res" where
  "collect_args T n hal_op st =
     (if hal_op = ''arange'' then collect_arange_args n (cv_ssa st) (cv_counter st) (cv_weights st)
      else Inr (collect_input_args n hal_op (cv_ssa st) (cv_counter st) (cv_weights st)
                  (dict_get (tb_scalar_kwarg_names T) hal_op []) (dict_get (tb_scalar_int_positions T) hal_op [])
                  (dict_get (tb_list_arg_attr T) hal_op (Some ''__skip__''))))"

text \<open>An identity operation for each operand that is promoted; the operand is renamed.\<close>

definition emit_cast ::
    "string \<Rightarrow> string list \<Rightarrow> conversion \<times> string list \<Rightarrow> nat \<times> string \<times> string \<Rightarrow> conversion \<times> string list" where
  "emit_cast node_name in_types = (\<lambda>(st, names) (idx, src_type, target).
     let cast = ''%promote_'' @ string_of_nat (cv_counter st)
     in (emit (sf_op ''identity'' [names ! idx] [cast]
                 [(''dtype'', JStr (''torch.'' @ target)), (''source_node'', JStr node_name), (''dump_layer'', JStr (cv_layer st))]
                 [src_type] [in_types ! idx])
           (st\<lparr>cv_counter := cv_counter st + 1\<rparr>),
         names[idx := cast]))"

text \<open>The symbolic names of the sizes of the result of an indexing.\<close>

definition dim_names :: "fx_meta \<Rightarrow> json list" where
  "dim_names v =
     (case v of
        TensorVal fake \<Rightarrow> map (\<lambda>d. JStr (case symint_to_name d of Some s \<Rightarrow> if s \<noteq> [] then s else ''?'' | None \<Rightarrow> ''?'')) (fk_shape fake)
      | _ \<Rightarrow> [])"

definition with_dim_names :: "string \<Rightarrow> fx_node \<Rightarrow> (string, json) dict \<Rightarrow> (string, json) dict" where
  "with_dim_names hal_op n kwargs =
     (if hal_op = ''index'' \<and> dim_names (fn_val n) \<noteq> [] then AList.update ''dim_names'' (JList (dim_names (fn_val n))) kwargs else kwargs)"

text \<open>\<open>copy_\<close> and \<open>type_as\<close> become an identity of their first operand.\<close>

definition alias_ops :: "string list" where
  "alias_ops = [''copy_'', ''type_as'']"

definition call_op :: "string \<Rightarrow> string list \<Rightarrow> string \<Rightarrow> (string, json) dict \<Rightarrow> string list \<Rightarrow> string list \<Rightarrow> mlir_op" where
  "call_op hal_op names out kwargs in_types out_types =
     (if hal_op \<in> set alias_ops then sf_op ''identity'' (take 1 names) [out] kwargs (take 1 in_types) out_types
      else sf_op hal_op names [out] kwargs in_types out_types)"

definition record_output_shape :: "fx_node \<Rightarrow> string list \<Rightarrow> conversion \<Rightarrow> conversion res" where
  "record_output_shape n out_types st =
     (case out_types of
        [] \<Rightarrow> Inr st
      | t # _ \<Rightarrow> res_bind (parse_mlir_type_to_shape t) (\<lambda>s. Inr (st\<lparr>cv_shapes := AList.update (fn_name n) s (cv_shapes st)\<rparr>)))"

definition do_call :: "py_format \<Rightarrow> op_tables \<Rightarrow> fx_node \<Rightarrow> string \<Rightarrow> conversion \<Rightarrow> conversion res" where
  "do_call F T n hal_op st =
     res_bind (collect_args T n hal_op st) (\<lambda>c.
     let kw = apply_post_kwargs hal_op n (co_names c) (update_all (kwargs_of n) (co_extra c));
         out = semantic_ssa_name F hal_op n (co_counter c) kw (cv_ssa st);
         kwargs = AList.update ''dump_layer'' (JStr (cv_layer st)) (AList.update ''source_node'' (JStr (fn_name n)) kw);
         st1 = set_ssa (fn_name n) out (st\<lparr>cv_counter := co_counter c + 1, cv_weights := co_weights c\<rparr>)
     in res_bind (resolve_op_types hal_op (co_names c) (cv_ssa st1) (cv_shapes st1) (cv_weights st1) kwargs) (\<lambda>ts.
        case foldl (emit_cast (fn_name n) (ot_inputs ts)) (st1\<lparr>cv_weights := ot_weights ts\<rparr>, co_names c) (ot_casts ts) of
          (st2, names) \<Rightarrow>
            res_bind (record_output_shape n (ot_outputs ts) st2) (\<lambda>st3.
            Inr (emit (call_op hal_op names out (with_dim_names hal_op n kwargs) (ot_inputs ts) (ot_outputs ts)) st3))))"

definition enter_layer :: "fx_node \<Rightarrow> conversion \<Rightarrow> conversion" where
  "enter_layer n st =
     (let layer = (if fn_modules n = [] then cv_layer st else detect_layer (fn_modules n) (cv_layer st));
          st1 = (if layer = cv_layer st then st
                 else st\<lparr>cv_layer := layer, cv_boundaries := cv_boundaries st @ [length (cv_ops st)]\<rparr>)
      in st1\<lparr>cv_node_layer := AList.update (fn_name n) layer (cv_node_layer st1)\<rparr>)"

definition call_function ::
    "py_format \<Rightarrow> op_tables \<Rightarrow> fx_program \<Rightarrow> (string \<times> string) list \<Rightarrow> fx_node \<Rightarrow> conversion \<Rightarrow> conversion res" where
  "call_function F T P inputs n st =
     (case map_aten_op T (fn_target n) of
        None \<Rightarrow> record_shape n st
      | Some hal_op \<Rightarrow>
          let st1 = enter_layer n st
          in if hal_op = ''_skip_wrap'' then Inr (set_ssa (fn_name n) (if inputs = [] then fn_name n else fst (inputs ! 0)) st1)
             else if hal_op = ''getitem'' then Inr (do_getitem n st1)
             else if hal_op = ''split'' then do_split n st1
             else if hal_op = ''chunk'' then do_chunk P n st1
             else do_call F T n hal_op st1)"

definition output_args :: "fx_node \<Rightarrow> fx_arg list res" where
  "output_args n = (case fn_args n of [] \<Rightarrow> Inr [] | a # _ \<Rightarrow> seq_items a)"

definition add_output :: "fx_program \<Rightarrow> conversion \<Rightarrow> fx_arg \<Rightarrow> conversion res" where
  "add_output P st a =
     (case a of
        FNode m \<Rightarrow> res_bind (meta_type (node_val P m)) (\<lambda>tp. Inr (st\<lparr>cv_outputs := cv_outputs st @ [(ssa_of (cv_ssa st) m, tp, False)]\<rparr>))
      | _ \<Rightarrow> Inr st)"

definition convert_node ::
    "py_format \<Rightarrow> op_tables \<Rightarrow> fx_program \<Rightarrow> (string \<times> string) list \<Rightarrow> (string, string) dict \<Rightarrow> conversion \<Rightarrow> fx_node \<Rightarrow> conversion res" where
  "convert_node F T P inputs weight_map st n =
     (case fn_kind n of
        Placeholder \<Rightarrow> record_shape n (set_ssa (fn_name n) (percent (dict_get weight_map (fn_name n) (fn_name n))) st)
      | GetAttr \<Rightarrow> record_shape n (set_ssa (fn_name n) (percent (clean_name (fn_target n))) st)
      | CallFunction \<Rightarrow> call_function F T P inputs n st
      | Output \<Rightarrow> res_bind (output_args n) (\<lambda>as. res_foldM (add_output P) st as)
      | OtherNode \<Rightarrow> Inr st)"


section \<open>Outputs, weights and boundaries\<close>

text \<open>
  An output name without a result gets the next result of its type: \<open>pool\<close> holds the results per
  type, \<open>pos\<close> the next position per type.
\<close>

definition add_result :: "(string, string list) dict \<Rightarrow> string \<times> string \<Rightarrow> (string, string list) dict" where
  "add_result d = (\<lambda>(tp, r). AList.update tp (dict_get d tp [] @ [r]) d)"

definition type_to_results :: "mlir_op list \<Rightarrow> (string, string list) dict" where
  "type_to_results ops = foldl add_result [] (concat (map (\<lambda>op. zip (mo_output_types op) (mo_results op)) ops))"

definition has_result :: "mlir_op list \<Rightarrow> string \<Rightarrow> bool" where
  "has_result ops name = list_ex (\<lambda>op. list_ex (\<lambda>r. r = name \<or> ssa_key r = ssa_key name) (mo_results op)) ops"

definition fixup_output ::
    "mlir_op list \<Rightarrow> (string \<times> string \<times> bool) list \<times> (string, nat) dict \<Rightarrow> string \<times> string \<times> bool
       \<Rightarrow> (string \<times> string \<times> bool) list \<times> (string, nat) dict" where
  "fixup_output ops = (\<lambda>(outs, positions) (name, tp, consumed).
     if starts_with name ''%'' \<and> has_result ops name then (outs @ [(name, tp, consumed)], positions)
     else let results = dict_get (type_to_results ops) tp []; pos = dict_get positions tp 0
          in if pos < length results
             then (outs @ [(percent (results ! pos), tp, consumed)], AList.update tp (pos + 1) positions)
             else (outs @ [(name, tp, consumed)], positions))"

definition fixup_output_names :: "mlir_op list \<Rightarrow> (string \<times> string \<times> bool) list \<Rightarrow> (string \<times> string \<times> bool) list" where
  "fixup_output_names ops outs = fst (foldl (fixup_output ops) ([], []) outs)"

definition backfill_layer :: "(string, string) dict \<Rightarrow> mlir_op \<Rightarrow> mlir_op" where
  "backfill_layer node_layer op =
     (if dict_has (mo_attributes op) ''dump_layer'' then op
      else case dict_get (mo_attributes op) ''source_node'' (JStr []) of
             JStr src \<Rightarrow> (case map_of node_layer src of
                           Some l \<Rightarrow> if src = [] then op else op\<lparr>mo_attributes := AList.update ''dump_layer'' (JStr l) (mo_attributes op)\<rparr>
                         | None \<Rightarrow> op)
           | _ \<Rightarrow> op)"

definition weight_op :: "string \<times> fx_tensor \<Rightarrow> mlir_op" where
  "weight_op = (\<lambda>(w, t). sf_op ''weight'' [w] [percent w] [(''name'', JStr w)] []
     [shape_to_mlir_type (map Dim (if ft_shape t \<noteq> [] then ft_shape t else [1])) (ft_dtype t)])"

definition has_sdpa_intercept :: "cache_policy option \<Rightarrow> bool" where
  "has_sdpa_intercept policy =
     (case policy of None \<Rightarrow> False | Some p \<Rightarrow> list_ex (\<lambda>i. op_name i = JStr sdpa) (intercepts p))"

definition all_boundaries :: "string \<Rightarrow> cache_policy option \<Rightarrow> nat \<Rightarrow> nat list \<Rightarrow> mlir_op list \<Rightarrow> nat list" where
  "all_boundaries strategy policy offset layer_bounds ops =
     (let layers = (if strategy = ''layer'' then map (\<lambda>b. b + offset) layer_bounds else []);
          attention = (if has_sdpa_intercept policy then sdpa_cache_boundary_indices ops else [])
      in if attention = [] then layers else sort (remdups (layers @ attention)))"


section \<open>The whole conversion\<close>

definition function_inputs :: "fx_program \<Rightarrow> (string \<times> string) list res" where
  "function_inputs P =
     res_mapM (\<lambda>name. res_bind (meta_type (node_val P name)) (\<lambda>tp. Inr (percent name, tp))) (fp_user_inputs P)"

definition weight_name_map :: "fx_program \<Rightarrow> (string, string) dict" where
  "weight_name_map P =
     foldl (\<lambda>d (name, target, kind). if kind \<in> {2, 3, 4} \<and> target \<noteq> [] then AList.update name (clean_name target) d else d)
       [] (fp_input_specs P)"

definition state_weights :: "fx_program \<Rightarrow> (string, fx_tensor) dict" where
  "state_weights P = foldl (\<lambda>d (name, t). AList.update (clean_name name) t d) [] (fp_state_dict P)"

definition hf_key_map :: "fx_program \<Rightarrow> (string, json) dict" where
  "hf_key_map P = foldl (\<lambda>d (name, t). AList.update (clean_name name) (JStr name) d) [] (fp_state_dict P)"

definition program_weights :: "fx_program \<Rightarrow> (string, fx_tensor) dict" where
  "program_weights P = foldl (\<lambda>d (name, t). dict_setdefault d (clean_name name) t) (state_weights P) (fp_constants P)"

definition param_names :: "fx_program \<Rightarrow> string list" where
  "param_names P = remdups (map (clean_name \<circ> fst) (fp_state_dict P))"

definition const_names :: "fx_program \<Rightarrow> (string, fx_tensor) dict \<Rightarrow> string list" where
  "const_names P weights =
     remdups (map (clean_name \<circ> fst) (fp_constants P) @ filter (\<lambda>w. w \<notin> set (param_names P)) (map fst weights))"

definition start_conversion :: "fx_program \<Rightarrow> conversion" where
  "start_conversion P =
     \<lparr>cv_ops = [], cv_ssa = [], cv_shapes = [], cv_tuples = [], cv_weights = program_weights P, cv_counter = 0,
      cv_layer = ''embed_prefix'', cv_boundaries = [], cv_node_layer = [], cv_outputs = []\<rparr>"

definition convert_nodes :: "py_format \<Rightarrow> op_tables \<Rightarrow> fx_program \<Rightarrow> (string \<times> string) list \<Rightarrow> conversion res" where
  "convert_nodes F T P inputs = res_foldM (convert_node F T P inputs (weight_name_map P)) (start_conversion P) (fp_nodes P)"

definition graph_ops :: "conversion \<Rightarrow> mlir_op list" where
  "graph_ops st = map weight_op (cv_weights st) @ map (backfill_layer (cv_node_layer st)) (cv_ops st)"

definition graph_outputs :: "conversion \<Rightarrow> (string \<times> string \<times> bool) list" where
  "graph_outputs st = fixup_output_names (cv_ops st) (cv_outputs st)"

definition graph_args :: "fx_program \<Rightarrow> (string \<times> string) list \<Rightarrow> conversion \<Rightarrow> string \<Rightarrow> split_args" where
  "graph_args P inputs st name =
     \<lparr>sa_inputs = inputs, sa_outputs = graph_outputs st, sa_weights = map fst (cv_weights st), sa_params = param_names P,
      sa_consts = const_names P (cv_weights st), sa_base = name\<rparr>"

definition split_graph :: "string \<Rightarrow> cache_policy option \<Rightarrow> conversion \<Rightarrow> (mlir_op list \<times> int) res" where
  "split_graph strategy policy st =
     (let ops = graph_ops st;
          bounds = all_boundaries strategy policy (length (cv_weights st)) (cv_boundaries st) ops
      in if bounds \<noteq> [] then split_into_functions ops 500 (map int bounds)
         else if strategy = ''layer'' then Inr (ops, 1)
         else if length ops > 500 then split_into_functions ops 500 []
         else Inr (ops, 1))"

definition binding_json :: "nat \<times> nat \<times> json \<Rightarrow> json" where
  "binding_json = (\<lambda>(fi, oi, s). JList [JInt (int fi), JInt (int oi), s])"

definition base_metadata :: "fx_program \<Rightarrow> (string, json) dict" where
  "base_metadata P =
     [(''source'', JStr ''torch.export''), (''artifact_format'', JStr ''mlir'')]
       @ (if hf_key_map P = [] then [] else [(''hf_key_map'', JDict (hf_key_map P))]) @ [(''cache_bindings'', JList [])]"

definition assemble ::
    "(string list \<Rightarrow> string list) \<Rightarrow> fx_program \<Rightarrow> (string \<times> string) list \<Rightarrow> cache_policy option \<Rightarrow> string \<Rightarrow> conversion
       \<Rightarrow> mlir_op list \<times> int \<Rightarrow> mlir_module res" where
  "assemble iter P inputs policy name st = (\<lambda>(ops, func_count).
     let args = graph_args P inputs st name
     in if func_count = 1
        then Inr \<lparr>mm_functions = [single_function args ops\<lparr>mf_weight_names := []\<rparr>], mm_metadata = base_metadata P,
                  mm_chain_order = [name], mm_exec_plan_data = []\<rparr>
        else res_bind (make_multi_functions iter ops args policy) (\<lambda>r.
             Inr \<lparr>mm_functions = sr_functions r,
                  mm_metadata = update_all (base_metadata P)
                    [(''num_functions'', JInt func_count), (''cache_bindings'', JList (map binding_json (sr_bindings r)))],
                  mm_chain_order = sr_chain_order r, mm_exec_plan_data = map int (sr_exec_plan_data r)\<rparr>))"

definition fx_graph_to_mlir ::
    "py_format \<Rightarrow> (string list \<Rightarrow> string list) \<Rightarrow> op_tables \<Rightarrow> fx_program \<Rightarrow> string \<Rightarrow> string \<Rightarrow> cache_policy option \<Rightarrow> mlir_module res" where
  "fx_graph_to_mlir F iter T P name strategy policy =
     res_bind (function_inputs P) (\<lambda>inputs.
     res_bind (convert_nodes F T P inputs) (\<lambda>st.
     res_bind (split_graph strategy policy st) (\<lambda>split.
     assemble iter P inputs policy name st split)))"


section \<open>Chunks tile the dimension\<close>

definition slice_range :: "mlir_op \<Rightarrow> json \<times> json" where
  "slice_range op = (dict_get (mo_attributes op) ''start'' JNull, dict_get (mo_attributes op) ''end'' JNull)"

lemma chunk_sizes_sum_from:
  fixes t k :: int
  assumes "0 < k" "n \<le> nat k"
  shows "sum_list (take n (chunk_sizes t k)) = int n * (t div k) + min (int n) (t mod k)"
  using assms(2)
proof (induction n)
  case 0
  then show ?case using assms(1) by simp
next
  case (Suc n)
  have nth: "chunk_sizes t k ! n = t div k + (if int n < t mod k then 1 else 0)" using Suc.prems by (simp add: chunk_sizes_def)
  have "take (Suc n) (chunk_sizes t k) = take n (chunk_sizes t k) @ [chunk_sizes t k ! n]"
    using Suc.prems by (intro take_Suc_conv_app_nth) (simp add: chunk_sizes_def)
  then show ?case using Suc nth by (auto simp: algebra_simps min_def)
qed

lemma chunk_sizes_length [simp]: "length (chunk_sizes t k) = nat k"
  by (simp add: chunk_sizes_def)

lemma chunk_sizes_sum: "0 < k \<Longrightarrow> sum_list (chunk_sizes t k) = t"
  using chunk_sizes_sum_from[of k "nat k" t] pos_mod_bound[of k t] mult_div_mod_eq[of k t] by simp

lemma chunk_sizes_even: "0 < k \<Longrightarrow> k dvd t \<Longrightarrow> chunk_sizes t k = replicate (nat k) (t div k)"
  by (intro nth_equalityI) (simp_all add: chunk_sizes_def)

text \<open>\<open>torch.chunk\<close> documents equal chunks except the last, here 3, 3 and 1.\<close>

lemma chunk_sizes_uneven: "chunk_sizes 7 3 = [3, 2, 2]"
  by code_simp

lemma emit_slice_ranges:
  assumes "foldl (emit_slice n v tag d ts e piece) (st, outs, off) (enum_from j sizes) = (st', outs', off')"
  shows "\<exists>added. cv_ops st' = cv_ops st @ added \<and> list_all (\<lambda>op. mo_op_name op = ''slice'' \<and> mo_operands op = [v]) added
     \<and> map slice_range added = map (\<lambda>i. (JInt (off + sum_list (take i sizes)), JInt (off + sum_list (take (Suc i) sizes)))) [0..<length sizes]"
  using assms
proof (induction sizes arbitrary: st outs off j)
  case (Cons k sizes)
  obtain st1 outs1 op where step: "emit_slice n v tag d ts e piece (st, outs, off) (j, k) = (st1, outs1, off + k)"
    "cv_ops st1 = cv_ops st @ [op]" "mo_op_name op = ''slice''" "mo_operands op = [v]" "slice_range op = (JInt off, JInt (off + k))"
    by (cases "piece k") (auto simp: emit_slice_def Let_def emit_def sf_op_def slice_range_def dict_get_def)
  have "foldl (emit_slice n v tag d ts e piece) (st1, outs1, off + k) (enum_from (Suc j) sizes) = (st', outs', off')"
    using Cons.prems step(1) by simp
  from Cons.IH[OF this] obtain added where added: "cv_ops st' = cv_ops st1 @ added"
    "list_all (\<lambda>op. mo_op_name op = ''slice'' \<and> mo_operands op = [v]) added"
    "map slice_range added = map (\<lambda>i. (JInt (off + k + sum_list (take i sizes)), JInt (off + k + sum_list (take (Suc i) sizes)))) [0..<length sizes]"
    by blast
  have "map slice_range (op # added) = map (\<lambda>i. (JInt (off + sum_list (take i (k # sizes))), JInt (off + sum_list (take (Suc i) (k # sizes))))) [0..<length (k # sizes)]"
    unfolding list.map added(3) step(5) list.size One_nat_def add_Suc_right add_0_right upt_conv_Cons[OF zero_less_Suc] map_Suc_upt[symmetric]
    by (simp add: algebra_simps)
  then show ?case using added(1,2) step(2,3,4) by (intro exI[of _ "op # added"]) simp
qed simp

text \<open>C18: Converting \<open>torch.chunk\<close> of a dimension of known size appends exactly as many slices of the tensor as chunks are asked for; they follow each other without gap or overlap from 0 to the size of the dimension, and their lengths differ by at most one.\<close>

theorem chunk_slices_tile:
  assumes run: "do_chunk P n st = Inr st'" and node: "arg_at n 0 FNone = FNode m" "node_val P m = TensorVal fake"
    and d: "int_or 0 (arg_at n 2 (FInt 0)) = Some d" and k: "chunk_count (arg_at n 1 (FInt 2)) = Inr k" "0 < k"
    and total: "chunk_total (case map_of (cv_shapes st) m of None \<Rightarrow> resolve_shape_tuple (fk_shape fake) | Some (s, _) \<Rightarrow> s)
                  (resolve_shape_tuple (fk_shape fake)) d = Inr (Some t)"
  shows "\<exists>added sizes. cv_ops st' = cv_ops st @ added \<and> length sizes = nat k \<and> sum_list sizes = t
     \<and> set sizes \<subseteq> {t div k, t div k + 1}
     \<and> list_all (\<lambda>op. mo_op_name op = ''slice'' \<and> mo_operands op = [ssa_of (cv_ssa st) m]) added
     \<and> map slice_range added = map (\<lambda>i. (JInt (sum_list (take i sizes)), JInt (sum_list (take (Suc i) sizes)))) [0..<nat k]"
proof -
  obtain ts e piece where st': "st' = emit_slices n (ssa_of (cv_ssa st) m) ''__chunk_'' d ts e piece (chunk_sizes t k) st"
    using run node d k(1) total by (auto simp: do_chunk_def Let_def)
  obtain st1 outs off where fold: "foldl (emit_slice n (ssa_of (cv_ssa st) m) ''__chunk_'' d ts e piece) (st, [], 0)
      (enum_from 0 (chunk_sizes t k)) = (st1, outs, off)" by (metis prod_cases3)
  have "cv_ops st' = cv_ops st1"
    by (simp add: st' emit_slices_def fold Let_def set_ssa_def copy_shape_def split: list.split option.split)
  moreover have "set (chunk_sizes t k) \<subseteq> {t div k, t div k + 1}" by (auto simp: chunk_sizes_def split: if_splits)
  ultimately show ?thesis using emit_slice_ranges[OF fold] chunk_sizes_sum[OF k(2), of t]
    by (auto intro!: exI[of _ "chunk_sizes t k"])
qed

definition sample_node :: "string \<Rightarrow> node_kind \<Rightarrow> string \<Rightarrow> fx_arg list \<Rightarrow> int list \<Rightarrow> string list \<Rightarrow> fx_node" where
  "sample_node name kind target args sizes modules =
     \<lparr>fn_name = name, fn_kind = kind, fn_target = target, fn_args = args, fn_kwargs = [],
      fn_val = TensorVal \<lparr>fk_shape = map FInt sizes, fk_dtype = ''float32''\<rparr>, fn_modules = modules\<rparr>"

definition sample_program :: fx_program where
  "sample_program =
     \<lparr>fp_nodes =
        [sample_node ''w'' Placeholder ''w'' [] [4, 4] [], sample_node ''x'' Placeholder ''x'' [] [7, 4] [],
         sample_node ''c'' CallFunction ''aten.chunk.default'' [FNode ''x'', FInt 2] [] [''layers.0''],
         sample_node ''g'' CallFunction ''getitem'' [FNode ''c'', FInt 1] [3, 4] [''layers.0''],
         sample_node ''d'' CallFunction ''aten.chunk.default'' [FNode ''g'', FInt 1, FInt 1] [] [''layers.1''],
         sample_node ''e'' CallFunction ''aten.chunk.default'' [FNode ''w'', FInt 1] [] [''layers.1''],
         sample_node ''o'' Output ''output'' [FSeq [FNode ''d'', FNode ''e'']] [] []],
      fp_user_inputs = [''x''], fp_input_specs = [(''w'', ''m.w'', 2), (''x'', [], 1)],
      fp_state_dict = [(''m.w'', \<lparr>ft_shape = [4, 4], ft_dtype = ''float32'', ft_scalar = None\<rparr>)], fp_constants = []\<rparr>"

definition sample_tables :: op_tables where
  "sample_tables =
     \<lparr>tb_aten_to_hal = [(''aten.chunk.default'', ''chunk''), (''getitem'', ''getitem'')], tb_list_arg_attr = [],
      tb_scalar_kwarg_names = [(''chunk'', [(1, ''chunks''), (2, ''dim'')])], tb_scalar_int_positions = [(''chunk'', [1, 2])]\<rparr>"

definition sample_format :: py_format where
  "sample_format = \<lparr>repr_float = (\<lambda>_. ''0.5''), str_other = (\<lambda>_. ''?'')\<rparr>"

lemma sample_tables_built:
  "build_tables [full_def ''chunk'' [''aten.chunk.default''] (Some ''_SKIP_'') [(1, ''chunks''), (2, ''dim'')] [], plain_def ''getitem'' [''getitem'']]
     = Inr sample_tables"
  by code_simp

definition sample_chunk :: fx_node where
  "sample_chunk = sample_node ''c'' CallFunction ''aten.chunk.default'' [FNode ''x'', FInt 3] [7, 4] []"

theorem chunk_slices_tile_witness:
  "case do_chunk sample_program sample_chunk (start_conversion sample_program) of
     Inl _ \<Rightarrow> False
   | Inr st' \<Rightarrow> (\<exists>added sizes. cv_ops st' = [] @ added \<and> length sizes = 3 \<and> sum_list sizes = 7 \<and> set sizes \<subseteq> {2, 3}
       \<and> map slice_range added = map (\<lambda>i. (JInt (sum_list (take i sizes)), JInt (sum_list (take (Suc i) sizes)))) [0..<3])"
proof -
  let ?st = "start_conversion sample_program"
  have "is_ok (do_chunk sample_program sample_chunk ?st)" by code_simp
  then obtain st' where run: "do_chunk sample_program sample_chunk ?st = Inr st'" unfolding is_ok_iff by blast
  have a: "arg_at sample_chunk 0 FNone = FNode ''x''" by code_simp
  have b: "node_val sample_program ''x'' = TensorVal \<lparr>fk_shape = map FInt [7, 4], fk_dtype = ''float32''\<rparr>" by code_simp
  have c: "int_or 0 (arg_at sample_chunk 2 (FInt 0)) = Some 0" by code_simp
  have d: "chunk_count (arg_at sample_chunk 1 (FInt 2)) = Inr 3" by code_simp
  have e: "chunk_total (case map_of (cv_shapes ?st) ''x'' of None \<Rightarrow> resolve_shape_tuple (fk_shape \<lparr>fk_shape = map FInt [7, 4], fk_dtype = ''float32''\<rparr>)
      | Some (s, _) \<Rightarrow> s) (resolve_shape_tuple (fk_shape \<lparr>fk_shape = map FInt [7, 4], fk_dtype = ''float32''\<rparr>)) 0 = Inr (Some 7)" by code_simp
  have f: "cv_ops ?st = []" by (simp add: start_conversion_def)
  show ?thesis
    using chunk_slices_tile[OF run a b c d _ e] unfolding run sum.case f by fastforce
qed


section \<open>Names that clash\<close>

text \<open>Every comparison \<open>le\<close> has the result \<open>%causal_mask\<close>.\<close>

lemma le_results_clash: "semantic_ssa_name F ''le'' n k kw ssa = semantic_ssa_name F ''le'' n' k' kw' ssa'"
  by (simp add: semantic_ssa_name_def)

text \<open>A derived output name has two percent signs.\<close>

lemma derived_output_double_percent:
  "fixup_output_names [sf_op ''add'' [''%a''] [''%b''] [] [''t''] [''t'']] [(''x'', ''t'', False)] = [(''%%b'', ''t'', False)]"
  by code_simp

end
