(* ===== verification/Fx_Wiring.thy ===== *)
theory Fx_Wiring
  imports Fx_Convert Split_Wiring
begin

text \<open>
  The names of converted operations.  Every operand of an operation that \<open>fx_graph_to_mlir\<close> emits
  is a result of an earlier operation, a weight, the name of a placeholder or attribute node, or
  the bare name of a node that was not converted.  When result names are unique the operations are
  therefore in definition order, which is what the splitter's wiring theorem asks for.
\<close>


section \<open>Closed sequences of operations\<close>

fun closed_ops :: "string set \<Rightarrow> mlir_op list \<Rightarrow> bool" where
  "closed_ops E [] = True"
| "closed_ops E (op # ops) =
     ((\<forall>v \<in> set (mo_operands op). ssa_key v \<in> E) \<and> closed_ops (E \<union> ssa_key ` set (mo_results op)) ops)"

lemma results_Cons: "set (block_results (op # ops)) = ssa_key ` set (mo_results op) \<union> set (block_results ops)"
  by (simp add: block_results_Cons)

lemma closed_ops_append:
  "closed_ops E (xs @ ys) \<longleftrightarrow> closed_ops E xs \<and> closed_ops (E \<union> set (block_results xs)) ys"
  by (induction xs arbitrary: E) (auto simp: results_Cons Un_assoc block_results_def)

lemma closed_ops_mono: "closed_ops E ops \<Longrightarrow> E \<subseteq> E' \<Longrightarrow> closed_ops E' ops"
proof (induction ops arbitrary: E E')
  case (Cons op ops)
  have "closed_ops (E' \<union> ssa_key ` set (mo_results op)) ops" by (rule Cons.IH) (use Cons.prems in auto)
  then show ?case using Cons.prems by auto
qed simp

lemma closed_ops_nth:
  "closed_ops E ops \<Longrightarrow> i < length ops \<Longrightarrow> v \<in> set (mo_operands (ops ! i)) \<Longrightarrow> ssa_key v \<in> E \<union> set (block_results (take i ops))"
proof (induction ops arbitrary: E i)
  case (Cons op ops)
  then show ?case by (cases i) (fastforce simp: results_Cons)+
qed simp

lemma closed_ops_ordered:
  "closed_ops E ops \<Longrightarrow> distinct (block_results ops) \<Longrightarrow> E \<inter> set (block_results ops) = {} \<Longrightarrow> ssa_ordered ops"
proof (induction ops arbitrary: E)
  case (Cons op ops)
  have "ssa_ordered ops"
    by (rule Cons.IH[of "E \<union> ssa_key ` set (mo_results op)"]) (use Cons.prems in \<open>auto simp: block_results_Cons\<close>)
  then show ?case using Cons.prems by (auto simp: block_results_Cons list_all_iff)
qed simp


section \<open>The invariant of the walk\<close>

text \<open>
  What the operations so far may name: weights, the graph's own names \<open>G\<close>, and the bare names of the
  nodes \<open>N\<close> walked so far that have no value.
\<close>

definition weight_keys :: "conversion \<Rightarrow> string set" where
  "weight_keys st = ssa_key ` fst ` set (cv_weights st)"

definition bare_names :: "string set \<Rightarrow> conversion \<Rightarrow> string set" where
  "bare_names N st = ssa_key ` {m \<in> N. ssa_of (cv_ssa st) m = m}"

definition outer_names :: "string set \<Rightarrow> string set \<Rightarrow> conversion \<Rightarrow> string set" where
  "outer_names G N st = weight_keys st \<union> G \<union> bare_names N st"

definition scope :: "string set \<Rightarrow> string set \<Rightarrow> conversion \<Rightarrow> string set" where
  "scope G N st = outer_names G N st \<union> set (block_results (cv_ops st))"

definition walk_inv :: "string set \<Rightarrow> string set \<Rightarrow> conversion \<Rightarrow> bool" where
  "walk_inv G N st \<longleftrightarrow> closed_ops (outer_names G N st) (cv_ops st)
     \<and> (\<forall>m v. map_of (cv_ssa st) m = Some v \<longrightarrow> ssa_key v \<in> scope G N st)
     \<and> (\<forall>m vs. map_of (cv_tuples st) m = Some vs \<longrightarrow> ssa_key ` set vs \<subseteq> set (block_results (cv_ops st)))"

lemma ssa_in_scope: "walk_inv G N st \<Longrightarrow> m \<in> N \<Longrightarrow> ssa_key (ssa_of (cv_ssa st) m) \<in> scope G N st"
proof (cases "map_of (cv_ssa st) m")
  case None
  assume "m \<in> N"
  then have "ssa_key m \<in> bare_names N st" using None by (auto simp: bare_names_def ssa_of_def dict_get_def)
  then show ?thesis using None by (simp add: scope_def outer_names_def ssa_of_def dict_get_def)
qed (auto simp: walk_inv_def ssa_of_def dict_get_def)

text \<open>A step for a new node \<open>n\<close>: it adds operations, may give \<open>n\<close> a value and a tuple, and keeps the weights.\<close>

lemma walk_inv_step:
  assumes inv: "walk_inv G N st" and new: "n \<notin> N"
    and ops: "cv_ops st' = cv_ops st @ added" "closed_ops (scope G N st \<union> weight_keys st') added"
    and weights: "weight_keys st \<subseteq> weight_keys st'"
    and tuples: "cv_tuples st' = cv_tuples st \<or>
      (\<exists>vs. cv_tuples st' = AList.update n vs (cv_tuples st) \<and> ssa_key ` set vs \<subseteq> set (block_results added))"
    and ssa: "cv_ssa st' = cv_ssa st \<or>
      (\<exists>v. cv_ssa st' = AList.update n v (cv_ssa st) \<and> (v = n \<or> ssa_key v \<in> scope G N st \<union> set (block_results added)))"
  shows "walk_inv G (insert n N) st'"
proof -
  have same: "ssa_of (cv_ssa st') m = ssa_of (cv_ssa st) m" if "m \<in> N" for m
    using ssa new that by (auto simp: ssa_of_def dict_get_def map_of_update)
  have bare: "bare_names N st \<subseteq> bare_names (insert n N) st'" using same by (auto simp: bare_names_def)
  have outer: "outer_names G N st \<subseteq> outer_names G (insert n N) st'" using weights bare by (auto simp: outer_names_def)
  have sc: "scope G N st \<union> set (block_results added) \<subseteq> scope G (insert n N) st'" using outer ops(1) by (auto simp: scope_def)
  have closed: "closed_ops (outer_names G (insert n N) st') (cv_ops st')"
  proof -
    have "closed_ops (outer_names G (insert n N) st') (cv_ops st)" using inv outer closed_ops_mono unfolding walk_inv_def by blast
    moreover have "closed_ops (outer_names G (insert n N) st' \<union> set (block_results (cv_ops st))) added"
      by (rule closed_ops_mono[OF ops(2)]) (use outer in \<open>auto simp: scope_def outer_names_def\<close>)
    ultimately show ?thesis by (simp add: ops(1) closed_ops_append)
  qed
  have vals: "ssa_key v \<in> scope G (insert n N) st'" if m: "map_of (cv_ssa st') m = Some v" for m v
  proof (cases "map_of (cv_ssa st) m = Some v")
    case True
    then show ?thesis using inv sc unfolding walk_inv_def by blast
  next
    case False
    then have upd: "m = n" "v = n \<or> ssa_key v \<in> scope G N st \<union> set (block_results added)" "map_of (cv_ssa st') n = Some v"
      using ssa m by (auto simp: map_of_update split: if_splits)
    show ?thesis
    proof (cases "v = n")
      case True
      then have "ssa_key v \<in> bare_names (insert n N) st'" using upd(3) by (auto simp: bare_names_def ssa_of_def dict_get_def)
      then show ?thesis by (simp add: scope_def outer_names_def)
    qed (use upd(2) sc in blast)
  qed
  have tups: "ssa_key ` set vs \<subseteq> set (block_results (cv_ops st'))" if m: "map_of (cv_tuples st') m = Some vs" for m vs
  proof (cases "map_of (cv_tuples st) m = Some vs")
    case True
    then have "ssa_key ` set vs \<subseteq> set (block_results (cv_ops st))" using inv unfolding walk_inv_def by blast
    then show ?thesis using ops(1) by auto
  next
    case False
    then have "ssa_key ` set vs \<subseteq> set (block_results added)" using tuples m by (auto simp: map_of_update split: if_splits)
    then show ?thesis using ops(1) by auto
  qed
  show ?thesis unfolding walk_inv_def using closed vals tups by blast
qed


section \<open>Operands of a call\<close>

fun arg_refs :: "fx_arg \<Rightarrow> string list" where
  "arg_refs (FNode n) = [n]"
| "arg_refs (FSeq xs) = concat (map arg_refs xs)"
| "arg_refs _ = []"

definition node_refs :: "fx_node \<Rightarrow> string list" where
  "node_refs n = concat (map arg_refs (fn_args n))"

text \<open>A collection may name references of the node and the constants it added.\<close>

definition names_ok :: "(string, string) dict \<Rightarrow> string set \<Rightarrow> (string, fx_tensor) dict \<Rightarrow> collected \<Rightarrow> bool" where
  "names_ok ssa_map refs weights c \<longleftrightarrow>
     set (co_names c) \<subseteq> ssa_of ssa_map ` refs \<union> fst ` set (co_weights c) \<and> fst ` set weights \<subseteq> fst ` set (co_weights c)"

lemma keys_update: "fst ` set (AList.update k v d) = insert k (fst ` set d)"
  using dom_update[of k v d] by simp

lemma names_ok_const: "names_ok s refs w c \<Longrightarrow> names_ok s refs w (add_const v c)"
  by (auto simp: names_ok_def add_const_def keys_update)

lemma names_ok_name: "names_ok s refs w c \<Longrightarrow> m \<in> refs \<Longrightarrow> names_ok s refs w (add_name (ssa_of s m) c)"
  by (auto simp: names_ok_def add_name_def)

lemma names_ok_kwarg: "names_ok s refs w c \<Longrightarrow> names_ok s refs w (keep_kwarg k v c)"
  by (auto simp: names_ok_def keep_kwarg_def split: option.splits)

lemma names_ok_extra: "names_ok s refs w (c\<lparr>co_extra := e\<rparr>) = names_ok s refs w c"
  by (simp add: names_ok_def)

lemma names_ok_shape:
  "names_ok s refs w (fst x) \<Longrightarrow> (\<forall>a \<in> set items. set (arg_refs a) \<subseteq> refs) \<Longrightarrow> names_ok s refs w (fst (foldl (shape_item s) x items))"
proof (induction items arbitrary: x)
  case (Cons a items)
  have "names_ok s refs w (fst (shape_item s x a))"
    using Cons.prems by (auto simp: shape_item_def names_ok_name split: prod.splits fx_arg.splits)
  then show ?case using Cons.IH Cons.prems(2) by simp
qed simp

lemma names_ok_attr:
  "names_ok s refs w (fst x) \<Longrightarrow> (\<forall>a \<in> set items. set (arg_refs a) \<subseteq> refs) \<Longrightarrow> names_ok s refs w (fst (foldl (attr_item h s) x items))"
proof (induction items arbitrary: x)
  case (Cons a items)
  have "names_ok s refs w (fst (attr_item h s x a))"
    using Cons.prems by (auto simp: attr_item_def Let_def names_ok_name split: prod.splits fx_arg.splits)
  then show ?case using Cons.IH Cons.prems(2) by simp
qed simp

lemma names_ok_seq:
  assumes "names_ok s refs w c" "\<forall>a \<in> set items. set (arg_refs a) \<subseteq> refs"
  shows "names_ok s refs w (collect_seq h s la k items c)"
proof -
  have "names_ok s refs w (fst (foldl (shape_item s) (c, []) items))" using assms names_ok_shape[of s refs w "(c, [])"] by simp
  moreover have "names_ok s refs w (fst (foldl (attr_item h s) (c, [], 0) items))"
    using assms names_ok_attr[of s refs w "(c, [], 0)"] by simp
  ultimately show ?thesis
    using assms(1) by (auto simp: collect_seq_def names_ok_kwarg names_ok_extra split: option.splits prod.splits)
qed

lemma names_ok_arg:
  "names_ok s refs w c \<Longrightarrow> set (arg_refs a) \<subseteq> refs \<Longrightarrow> names_ok s refs w (collect_arg h s ks ps la c (i, a))"
  by (cases a) (auto simp: collect_arg_def Let_def names_ok_name names_ok_const names_ok_kwarg intro!: names_ok_seq split: option.splits)

lemma names_ok_args:
  "names_ok s refs w c \<Longrightarrow> (\<forall>(i, a) \<in> set ias. set (arg_refs a) \<subseteq> refs)
     \<Longrightarrow> names_ok s refs w (foldl (collect_arg h s ks ps la) c ias)"
proof (induction ias arbitrary: c)
  case (Cons ia ias)
  obtain i a where "ia = (i, a)" by (cases ia)
  then show ?case using Cons names_ok_arg by auto
qed simp

lemma names_ok_start: "names_ok s refs w \<lparr>co_names = [], co_counter = k, co_weights = w, co_extra = []\<rparr>"
  by (simp add: names_ok_def)

lemma arg_refs_at: "i < length (fn_args n) \<Longrightarrow> set (arg_refs (fn_args n ! i)) \<subseteq> set (node_refs n)"
  by (auto simp: node_refs_def intro!: bexI[of _ "fn_args n ! i"])

lemma collect_input_names: "names_ok s (set (node_refs n)) w (collect_input_args n h s k w ks ps la)"
  unfolding collect_input_args_def
  by (rule names_ok_args[OF names_ok_start]) (auto simp: set_enum_from arg_refs_at dest: subsetD[OF arg_refs_at])

lemma collect_arange_names:
  assumes "collect_arange_args n s k w = Inr c"
  shows "names_ok s (set (node_refs n)) w c"
proof -
  let ?c = "\<lambda>v. add_const v \<lparr>co_names = [], co_counter = k, co_weights = w, co_extra = []\<rparr>"
  let ?stop = "if length (fn_args n) = 1 then fn_args n ! 0 else fn_args n ! 1"
  have start: "names_ok s (set (node_refs n)) w (?c v)" for v by (simp add: names_ok_const names_ok_start)
  have step: "length (fn_args n) \<noteq> 0" using assms by (auto simp: collect_arange_args_def Let_def)
  have "set (arg_refs ?stop) \<subseteq> set (node_refs n)" using arg_refs_at[of 0 n] arg_refs_at[of 1 n] step by (cases "length (fn_args n) = 1") auto
  then show ?thesis
    using assms start by (auto simp: collect_arange_args_def Let_def names_ok_const names_ok_name
        elim!: res_bindE split: if_splits fx_arg.splits)
qed

lemma collect_args_names:
  "collect_args T n h st = Inr c \<Longrightarrow> names_ok (cv_ssa st) (set (node_refs n)) (cv_weights st) c"
  by (auto simp: collect_args_def collect_input_names collect_arange_names split: if_splits)


section \<open>Types of a call\<close>

text \<open>Promotion keeps the weights' names and casts only operands that exist.\<close>

definition promotion_ok :: "nat \<Rightarrow> string set \<Rightarrow> promotion_state \<Rightarrow> bool" where
  "promotion_ok k keys st \<longleftrightarrow> length (pr_elts st) = k \<and> fst ` set (pr_weights st) = keys \<and> (\<forall>(i, _) \<in> set (pr_casts st). i < k)"

lemma convert_weight_keys: "fst ` set (convert_weight key d w) = fst ` set w"
  by (auto simp: convert_weight_def keys_update insert_absorb split: option.splits dest: map_of_SomeD intro: rev_image_eqI)

lemma cast_f32_ok: "promotion_ok k keys st \<Longrightarrow> i < k \<Longrightarrow> promotion_ok k keys (cast_f32 shapes st i)"
  by (auto simp: promotion_ok_def cast_f32_def Let_def)

lemma promote_operand_ok:
  assumes "promote_operand names shapes st i = Inr st'" "promotion_ok k keys st" "i < k"
  shows "promotion_ok k keys st'"
proof -
  have "promotion_ok k keys (st\<lparr>pr_elts := (pr_elts st)[i := e], pr_weights := convert_weight key d (pr_weights st)\<rparr>)" for e key d
    using assms(2) by (auto simp: promotion_ok_def convert_weight_keys)
  moreover have "promotion_ok k keys (cast_f32 shapes (cast_f32 shapes st 0) i)" using assms(2,3) by (simp add: cast_f32_ok)
  ultimately show ?thesis
    using assms(1,2) by (auto simp: promote_operand_def Let_def split: if_splits option.splits)
qed

lemma promote_operands_ok:
  assumes "promote_operands h names shapes st = Inr st'" "promotion_ok k keys st"
  shows "promotion_ok k keys st'"
proof (cases "h \<in> set same_type_ops")
  case True
  then have fold: "res_foldM (promote_operand names shapes) st [1..<length (pr_elts st)] = Inr st'" using assms(1) by (simp add: promote_operands_def)
  have len: "length (pr_elts st) = k" using assms(2) by (simp add: promotion_ok_def)
  show ?thesis
    by (rule res_foldM_invariant[where P = "promotion_ok k keys", OF fold assms(2)]) (simp add: promote_operand_ok len)
qed (use assms in \<open>simp add: promote_operands_def\<close>)

lemma resolve_op_types_ok:
  assumes "resolve_op_types h names s shapes w kw = Inr ts"
  shows "fst ` set (ot_weights ts) = fst ` set w" "\<forall>(i, _) \<in> set (ot_casts ts). i < length names"
proof -
  let ?sigs = "map (operand_sig s shapes w) names"
  let ?st0 = "\<lparr>pr_elts = map (normal_elt \<circ> snd) ?sigs, pr_weights = w, pr_casts = []\<rparr>"
  obtain st where st: "promote_operands h names (map fst ?sigs) ?st0 = Inr st" "ot_weights ts = pr_weights st" "ot_casts ts = pr_casts st"
    using assms by (auto simp: resolve_op_types_def Let_def elim!: res_bindE)
  have "promotion_ok (length names) (fst ` set w) ?st0" by (simp add: promotion_ok_def)
  then have "promotion_ok (length names) (fst ` set w) st" by (rule promote_operands_ok[OF st(1)])
  then show "fst ` set (ot_weights ts) = fst ` set w" "\<forall>(i, _) \<in> set (ot_casts ts). i < length names"
    using st(2,3) by (simp_all add: promotion_ok_def)
qed

text \<open>Casts name the operand they convert and are named by the operation that follows.\<close>

lemma results_simps [simp]: "block_results [] = []" "block_results [op] = map ssa_key (mo_results op)"
  by (simp_all add: block_results_def)

lemma sf_op_simps [simp]:
  "mo_operands (sf_op n os rs as is ts) = os" "mo_results (sf_op n os rs as is ts) = rs" "mo_attributes (sf_op n os rs as is ts) = as"
  "mo_op_name (sf_op n os rs as is ts) = n" "mo_output_types (sf_op n os rs as is ts) = ts"
  by (simp_all add: sf_op_def)

lemma emit_simps [simp]:
  "cv_ops (emit op st) = cv_ops st @ [op]" "cv_ssa (emit op st) = cv_ssa st" "cv_weights (emit op st) = cv_weights st"
  "cv_tuples (emit op st) = cv_tuples st" "cv_shapes (emit op st) = cv_shapes st"
  by (simp_all add: emit_def)

lemma set_ssa_simps [simp]:
  "cv_ops (set_ssa n v st) = cv_ops st" "cv_ssa (set_ssa n v st) = AList.update n v (cv_ssa st)"
  "cv_weights (set_ssa n v st) = cv_weights st" "cv_tuples (set_ssa n v st) = cv_tuples st" "cv_shapes (set_ssa n v st) = cv_shapes st"
  by (simp_all add: set_ssa_def)

lemma copy_shape_simps [simp]:
  "cv_ops (copy_shape a b st) = cv_ops st" "cv_ssa (copy_shape a b st) = cv_ssa st" "cv_weights (copy_shape a b st) = cv_weights st"
  "cv_tuples (copy_shape a b st) = cv_tuples st"
  by (simp_all add: copy_shape_def split: option.split)

definition same_names :: "conversion \<Rightarrow> conversion \<Rightarrow> bool" where
  "same_names st st' \<longleftrightarrow> cv_ssa st' = cv_ssa st \<and> cv_tuples st' = cv_tuples st \<and> cv_weights st' = cv_weights st"

lemma emit_casts:
  assumes "foldl (emit_cast src ins) (st, names) casts = (st', names')" "\<forall>(i, _) \<in> set casts. i < length names"
    and "ssa_key ` set names \<subseteq> E"
  shows "\<exists>added. cv_ops st' = cv_ops st @ added \<and> closed_ops E added \<and> ssa_key ` set names' \<subseteq> E \<union> set (block_results added)
           \<and> same_names st st'"
  using assms
proof (induction casts arbitrary: st names E)
  case (Cons c casts)
  obtain i t e where c: "c = (i, t, e)" by (cases c) auto
  obtain st1 names1 where step: "emit_cast src ins (st, names) c = (st1, names1)" by fastforce
  define cast where "cast = ''%promote_'' @ string_of_nat (cv_counter st)"
  define op1 where "op1 = sf_op ''identity'' [names ! i] [cast]
    [(''dtype'', JStr (''torch.'' @ e)), (''source_node'', JStr src), (''dump_layer'', JStr (cv_layer st))] [t] [ins ! i]"
  have st1: "cv_ops st1 = cv_ops st @ [op1]" "names1 = names[i := cast]" "same_names st st1"
    using step by (auto simp: c emit_cast_def Let_def op1_def cast_def same_names_def)
  have i: "i < length names" using Cons.prems(2) c by auto
  have "ssa_key ` set names1 \<subseteq> E \<union> {ssa_key cast}"
    using Cons.prems(3) set_update_subset_insert[of names i cast] by (auto simp: st1(2))
  moreover have "\<forall>(j, _) \<in> set casts. j < length names1" using Cons.prems(2) by (simp add: st1(2))
  moreover have "foldl (emit_cast src ins) (st1, names1) casts = (st', names')" using Cons.prems(1) step by simp
  ultimately obtain added where added: "cv_ops st' = cv_ops st1 @ added" "closed_ops (E \<union> {ssa_key cast}) added"
    "ssa_key ` set names' \<subseteq> E \<union> {ssa_key cast} \<union> set (block_results added)" "same_names st1 st'"
    using Cons.IH by meson
  have "ssa_key (names ! i) \<in> E" using Cons.prems(3) i by auto
  then have "closed_ops E (op1 # added)" using added(2) by (simp add: op1_def)
  moreover have "ssa_key ` set names' \<subseteq> E \<union> set (block_results (op1 # added))" using added(3) by (auto simp: results_Cons op1_def)
  ultimately show ?case using added(1,4) st1(1,3) by (intro exI[of _ "op1 # added"]) (auto simp: same_names_def)
qed (auto simp: same_names_def block_results_def)


section \<open>Every step keeps the invariant\<close>

lemma record_output_shape_fields:
  assumes "record_output_shape n ts st = Inr st'"
  shows "cv_ops st' = cv_ops st" "same_names st st'"
  using assms by (auto simp: record_output_shape_def same_names_def elim!: res_bindE split: list.splits)

lemma record_shape_fields:
  assumes "record_shape n st = Inr st'"
  shows "cv_ops st' = cv_ops st" "same_names st st'"
  using assms by (auto simp: record_shape_def same_names_def split: fx_meta.splits)

lemma call_op_names: "set (mo_operands (call_op h names out kw ins outs)) \<subseteq> set names" "mo_results (call_op h names out kw ins outs) = [out]"
  by (auto simp: call_op_def dest: in_set_takeD)

lemma in_weight_keys: "fst ` set w \<subseteq> fst ` set (cv_weights st) \<Longrightarrow> k \<in> fst ` set w \<Longrightarrow> ssa_key k \<in> weight_keys st"
  unfolding weight_keys_def by blast

lemma do_call_keeps:
  assumes run: "do_call F T n h st = Inr st'" and inv: "walk_inv G N st" and new: "fn_name n \<notin> N" and refs: "set (node_refs n) \<subseteq> N"
  shows "walk_inv G (insert (fn_name n) N) st'"
proof -
  obtain c where c: "collect_args T n h st = Inr c" using run by (auto simp: do_call_def elim: res_bindE)
  define out where "out = semantic_ssa_name F h n (co_counter c) (apply_post_kwargs h n (co_names c) (update_all (kwargs_of n) (co_extra c))) (cv_ssa st)"
  define st1 where "st1 = set_ssa (fn_name n) out (st\<lparr>cv_counter := co_counter c + 1, cv_weights := co_weights c\<rparr>)"
  obtain kw kw' ts st2 names st3 where ts: "resolve_op_types h (co_names c) (cv_ssa st1) (cv_shapes st1) (cv_weights st1) kw = Inr ts"
    and casts: "foldl (emit_cast (fn_name n) (ot_inputs ts)) (st1\<lparr>cv_weights := ot_weights ts\<rparr>, co_names c) (ot_casts ts) = (st2, names)"
    and st3: "record_output_shape n (ot_outputs ts) st2 = Inr st3"
    and st': "st' = emit (call_op h names out kw' (ot_inputs ts) (ot_outputs ts)) st3"
    using run c by (auto simp: do_call_def Let_def out_def st1_def elim!: res_bindE split: prod.splits)
  define st1' where "st1' = st1\<lparr>cv_weights := ot_weights ts\<rparr>"
  have w1: "cv_weights st1 = co_weights c" by (simp add: st1_def)
  have names: "names_ok (cv_ssa st) (set (node_refs n)) (cv_weights st) c" by (rule collect_args_names[OF c])
  obtain added where added: "cv_ops st2 = cv_ops st1' @ added" "closed_ops (scope G N st \<union> weight_keys st1') added"
      "ssa_key ` set names \<subseteq> scope G N st \<union> weight_keys st1' \<union> set (block_results added)" "same_names st1' st2"
  proof -
    have "ssa_key v \<in> scope G N st \<union> weight_keys st1'" if "v \<in> set (co_names c)" for v
    proof -
      have "v \<in> ssa_of (cv_ssa st) ` set (node_refs n) \<or> v \<in> fst ` set (co_weights c)"
        using that names unfolding names_ok_def by blast
      then show ?thesis
        using ssa_in_scope[OF inv] refs resolve_op_types_ok(1)[OF ts] w1 by (auto simp: weight_keys_def st1'_def)
    qed
    then have "ssa_key ` set (co_names c) \<subseteq> scope G N st \<union> weight_keys st1'" by blast
    from emit_casts[OF casts resolve_op_types_ok(2)[OF ts] this] show ?thesis unfolding st1'_def[symmetric] using that by blast
  qed
  let ?op = "call_op h names out kw' (ot_inputs ts) (ot_outputs ts)"
  have fields: "cv_ops st' = cv_ops st @ added @ [?op]" "cv_ssa st' = AList.update (fn_name n) out (cv_ssa st)" "cv_tuples st' = cv_tuples st"
    "cv_weights st' = ot_weights ts"
    using st' added(1,4) record_output_shape_fields[OF st3] by (simp_all add: same_names_def st1_def st1'_def)
  have wk: "weight_keys st' = weight_keys st1'" using fields(4) by (simp add: weight_keys_def st1'_def)
  show ?thesis
  proof (rule walk_inv_step[OF inv new fields(1)])
    show "closed_ops (scope G N st \<union> weight_keys st') (added @ [?op])"
      using added(2,3) call_op_names(1)[of h names out kw' "ot_inputs ts" "ot_outputs ts"] by (auto simp: closed_ops_append wk)
    have "fst ` set (cv_weights st) \<subseteq> fst ` set (cv_weights st')"
      using names resolve_op_types_ok(1)[OF ts] w1 fields(4) by (simp add: names_ok_def)
    then show "weight_keys st \<subseteq> weight_keys st'" unfolding weight_keys_def by blast
    show "cv_ssa st' = cv_ssa st \<or> (\<exists>v. cv_ssa st' = AList.update (fn_name n) v (cv_ssa st) \<and>
        (v = fn_name n \<or> ssa_key v \<in> scope G N st \<union> set (block_results (added @ [?op]))))"
      using fields(2) by (auto simp: call_op_names(2))
  qed (simp add: fields(3))
qed

lemma emit_slice_step:
  "\<exists>st1 op. emit_slice n v tag d ts e piece (st, outs, off) (i, k) = (st1, outs @ [percent (fn_name n) @ tag @ string_of_nat i], off + k)
     \<and> cv_ops st1 = cv_ops st @ [op] \<and> mo_operands op = [v] \<and> mo_results op = [percent (fn_name n) @ tag @ string_of_nat i]
     \<and> same_names st st1"
  by (cases "piece k") (simp_all add: emit_slice_def Let_def same_names_def)

lemma emit_slice_fold:
  assumes "foldl (emit_slice n v tag d ts e piece) (st, outs, off) sizes = (st', outs', off')" "ssa_key v \<in> E"
  shows "\<exists>added. cv_ops st' = cv_ops st @ added \<and> closed_ops E added \<and> same_names st st'
    \<and> ssa_key ` set outs' \<subseteq> ssa_key ` set outs \<union> set (block_results added)"
  using assms
proof (induction sizes arbitrary: st outs off E)
  case (Cons x sizes)
  obtain i k where x: "x = (i, k)" by (cases x)
  define out where "out = percent (fn_name n) @ tag @ string_of_nat i"
  obtain st1 op where step: "emit_slice n v tag d ts e piece (st, outs, off) x = (st1, outs @ [out], off + k)"
    "cv_ops st1 = cv_ops st @ [op]" "mo_operands op = [v]" "mo_results op = [out]" "same_names st st1"
    using emit_slice_step[of n v tag d ts e piece st outs off i k] unfolding x out_def by blast
  have "foldl (emit_slice n v tag d ts e piece) (st1, outs @ [out], off + k) sizes = (st', outs', off')" using Cons.prems(1) step(1) by simp
  moreover have "ssa_key v \<in> E \<union> {ssa_key out}" using Cons.prems(2) by simp
  ultimately obtain added where added: "cv_ops st' = cv_ops st1 @ added" "closed_ops (E \<union> {ssa_key out}) added" "same_names st1 st'"
    "ssa_key ` set outs' \<subseteq> ssa_key ` set (outs @ [out]) \<union> set (block_results added)" using Cons.IH by meson
  have "closed_ops E (op # added)" using added(2) step(3,4) Cons.prems(2) by simp
  moreover have "ssa_key ` set outs' \<subseteq> ssa_key ` set outs \<union> set (block_results (op # added))"
    using added(4) step(4) by (auto simp: results_Cons)
  ultimately show ?case using added(1,3) step(2,5) by (intro exI[of _ "op # added"]) (simp add: same_names_def)
qed (auto simp: same_names_def block_results_def)

lemma emit_slices_keeps:
  assumes inv: "walk_inv G N st" and new: "fn_name n \<notin> N" and v: "ssa_key v \<in> scope G N st"
  shows "walk_inv G (insert (fn_name n) N) (emit_slices n v tag d ts e piece sizes st)"
proof -
  obtain st1 outs off where fold: "foldl (emit_slice n v tag d ts e piece) (st, [], 0) (enum_from 0 sizes) = (st1, outs, off)" by (metis prod_cases3)
  from emit_slice_fold[OF fold v] obtain added where added: "cv_ops st1 = cv_ops st @ added" "closed_ops (scope G N st) added"
    "same_names st st1" "ssa_key ` set outs \<subseteq> set (block_results added)" by auto
  define st' where "st' = emit_slices n v tag d ts e piece sizes st"
  have fields: "cv_ops st' = cv_ops st @ added" "cv_tuples st' = AList.update (fn_name n) outs (cv_tuples st)"
    "cv_weights st' = cv_weights st"
    using added(1,3) by (auto simp: st'_def emit_slices_def fold Let_def same_names_def split: list.splits)
  have ssa: "\<exists>w. cv_ssa st' = AList.update (fn_name n) w (cv_ssa st) \<and> (w = fn_name n \<or> ssa_key w \<in> scope G N st \<union> set (block_results added))"
  proof (cases outs)
    case Nil
    have "ssa_of (cv_ssa st) (fn_name n) = fn_name n \<or> ssa_key (ssa_of (cv_ssa st) (fn_name n)) \<in> scope G N st"
      using inv by (auto simp: walk_inv_def ssa_of_def dict_get_def split: option.splits)
    then show ?thesis using Nil added(3) by (auto simp: st'_def emit_slices_def fold Let_def same_names_def)
  next
    case (Cons w ws)
    have "cv_ssa st' = AList.update (fn_name n) w (cv_ssa st)"
      using added(3) by (simp add: st'_def emit_slices_def fold Let_def same_names_def Cons)
    then show ?thesis using added(4) by (auto simp: Cons)
  qed
  have closed: "closed_ops (scope G N st \<union> weight_keys st') added" using added(2) by (rule closed_ops_mono) blast
  have "walk_inv G (insert (fn_name n) N) st'"
    by (rule walk_inv_step[OF inv new fields(1) closed])
       (use fields(2,3) ssa added(4) in \<open>auto simp: weight_keys_def\<close>)
  then show ?thesis by (simp add: st'_def)
qed

text \<open>A step that emits nothing.\<close>

lemma walk_inv_quiet:
  assumes inv: "walk_inv G N st" and new: "n \<notin> N" and ops: "cv_ops st' = cv_ops st" "same_names st st'"
  shows "walk_inv G (insert n N) st'"
  by (rule walk_inv_step[OF inv new, of _ "[]"]) (use ops in \<open>auto simp: same_names_def weight_keys_def\<close>)

lemma walk_inv_value:
  assumes inv: "walk_inv G N st" and new: "n \<notin> N" and ops: "cv_ops st' = cv_ops st" "cv_tuples st' = cv_tuples st" "cv_weights st' = cv_weights st"
    and v: "cv_ssa st' = AList.update n v (cv_ssa st)" "v = n \<or> ssa_key v \<in> scope G N st"
  shows "walk_inv G (insert n N) st'"
  by (rule walk_inv_step[OF inv new, of _ "[]"]) (use ops v in \<open>auto simp: weight_keys_def\<close>)

lemma arg_at_ref: "arg_at n i FNone = FNode m \<Longrightarrow> m \<in> set (node_refs n)"
  using arg_refs_at[of i n] by (auto simp: arg_at_def split: if_splits)

lemma tuple_item_key:
  assumes "tuple_item st a idx = Some v" "walk_inv G N st"
  shows "ssa_key v \<in> scope G N st"
proof -
  obtain m outs i where "map_of (cv_tuples st) m = Some outs" "0 \<le> i" "i < int (length outs)" "v = outs ! nat i"
    using assms(1) by (auto simp: tuple_item_def split: fx_arg.splits option.splits if_splits)
  then have "ssa_key v \<in> ssa_key ` set outs" "ssa_key ` set outs \<subseteq> set (block_results (cv_ops st))"
    using assms(2) unfolding walk_inv_def by auto
  then show ?thesis by (auto simp: scope_def)
qed

lemma do_getitem_keeps:
  assumes inv: "walk_inv G N st" and new: "fn_name n \<notin> N" and refs: "set (node_refs n) \<subseteq> N"
  shows "walk_inv G (insert (fn_name n) N) (do_getitem n st)"
proof (cases "tuple_item st (arg_at n 0 FNone) (arg_at n 1 (FInt 0))")
  case (Some v)
  then show ?thesis by (intro walk_inv_value[OF inv new, of _ v]) (auto simp: do_getitem_def tuple_item_key[OF Some inv])
next
  case None
  show ?thesis
  proof (cases "arg_at n 0 FNone")
    case (FNode m)
    let ?out = "if fn_name n \<noteq> [] then percent (fn_name n) else ''%_out_'' @ string_of_nat (length (cv_ops st))"
    let ?op = "sf_op ''sym_size'' [ssa_of (cv_ssa st) m] [?out]
      [(''dim'', plain_json (arg_at n 1 (FInt 0))), (''source_node'', JStr (fn_name n))] [] []"
    have "do_getitem n st = emit ?op (set_ssa (fn_name n) ?out st)" using None FNode by (simp add: do_getitem_def Let_def)
    moreover have "ssa_key (ssa_of (cv_ssa st) m) \<in> scope G N st" using ssa_in_scope[OF inv] arg_at_ref[OF FNode] refs by blast
    ultimately show ?thesis
      by (intro walk_inv_step[OF inv new, of _ "[?op]"]) (auto simp: weight_keys_def)
  qed (use None in \<open>auto simp: do_getitem_def same_names_def intro!: walk_inv_quiet[OF inv new]\<close>)
qed

lemma quiet_same: "walk_inv G N st \<Longrightarrow> n \<notin> N \<Longrightarrow> walk_inv G (insert n N) st"
  by (rule walk_inv_quiet) (simp_all add: same_names_def)

text \<open>Handlers that leave the state alone or emit slices of their first argument.\<close>

definition sliced :: "fx_node \<Rightarrow> string \<Rightarrow> conversion \<Rightarrow> conversion \<Rightarrow> bool" where
  "sliced n tag st st' \<longleftrightarrow> st' = st \<or> (\<exists>m d ts e piece sizes. arg_at n 0 FNone = FNode m
     \<and> st' = emit_slices n (ssa_of (cv_ssa st) m) tag d ts e piece sizes st)"

lemma sliced_intros: "sliced n tag st st"
  "arg_at n 0 FNone = FNode m \<Longrightarrow> sliced n tag st (emit_slices n (ssa_of (cv_ssa st) m) tag d ts e piece sizes st)"
  unfolding sliced_def by blast+

lemma do_split_sliced: "do_split n st = Inr st' \<Longrightarrow> sliced n ''__split_'' st st'"
  by (auto simp: do_split_def Let_def elim!: res_bindE split: fx_arg.splits if_splits option.splits intro: sliced_intros)

lemma do_chunk_sliced: "do_chunk P n st = Inr st' \<Longrightarrow> sliced n ''__chunk_'' st st'"
  by (auto simp: do_chunk_def Let_def elim!: res_bindE split: fx_arg.splits fx_meta.splits option.splits intro: sliced_intros)

lemma sliced_keeps:
  assumes sl: "sliced n tag st st'" and inv: "walk_inv G N st" and new: "fn_name n \<notin> N" and refs: "set (node_refs n) \<subseteq> N"
  shows "walk_inv G (insert (fn_name n) N) st'"
proof (cases "st' = st")
  case False
  then obtain m d ts e piece sizes where m: "arg_at n 0 FNone = FNode m" "st' = emit_slices n (ssa_of (cv_ssa st) m) tag d ts e piece sizes st"
    using sl unfolding sliced_def by blast
  have "ssa_key (ssa_of (cv_ssa st) m) \<in> scope G N st" using ssa_in_scope[OF inv] arg_at_ref[OF m(1)] refs by blast
  then show ?thesis unfolding m(2) by (rule emit_slices_keeps[OF inv new])
qed (simp add: quiet_same[OF inv new])

lemma enter_layer_fields: "cv_ops (enter_layer n st) = cv_ops st" "same_names st (enter_layer n st)"
  by (simp_all add: enter_layer_def Let_def same_names_def)

lemma walk_inv_same: "walk_inv G N st \<Longrightarrow> cv_ops st' = cv_ops st \<Longrightarrow> same_names st st' \<Longrightarrow> walk_inv G N st'"
  by (simp add: walk_inv_def outer_names_def scope_def weight_keys_def bare_names_def same_names_def)

lemma call_function_keeps:
  assumes run: "call_function F T P inputs n st = Inr st'" and inv: "walk_inv G N st" and new: "fn_name n \<notin> N"
    and refs: "set (node_refs n) \<subseteq> N" and ins: "inputs \<noteq> [] \<Longrightarrow> ssa_key (fst (inputs ! 0)) \<in> G"
  shows "walk_inv G (insert (fn_name n) N) st'"
proof (cases "map_aten_op T (fn_target n)")
  case None
  then show ?thesis using run record_shape_fields[of n st st'] walk_inv_quiet[OF inv new, of st'] by (simp add: call_function_def)
next
  case (Some h)
  let ?st = "enter_layer n st"
  have inv1: "walk_inv G N ?st" using inv enter_layer_fields by (rule walk_inv_same)
  consider "h = ''_skip_wrap''" "st' = set_ssa (fn_name n) (if inputs = [] then fn_name n else fst (inputs ! 0)) ?st"
    | "st' = do_getitem n ?st" | "do_split n ?st = Inr st'" | "do_chunk P n ?st = Inr st'" | "do_call F T n h ?st = Inr st'"
    using run unfolding call_function_def Some option.case Let_def by (metis sum.inject(2))
  then show ?thesis
  proof cases
    case 1
    then show ?thesis using ins by (intro walk_inv_value[OF inv1 new]) (auto simp: scope_def outer_names_def)
  next
    case 2
    then show ?thesis using do_getitem_keeps[OF inv1 new refs] by simp
  next
    case 3
    then show ?thesis using sliced_keeps[OF do_split_sliced inv1 new refs] by simp
  next
    case 4
    then show ?thesis using sliced_keeps[OF do_chunk_sliced inv1 new refs] by simp
  next
    case 5
    then show ?thesis using do_call_keeps[OF _ inv1 new refs] by blast
  qed
qed

text \<open>The names the graph itself brings: placeholders, attributes and the first function input.\<close>

definition node_outer_name :: "fx_program \<Rightarrow> fx_node \<Rightarrow> string list" where
  "node_outer_name P n =
     (case fn_kind n of
        Placeholder \<Rightarrow> [dict_get (weight_name_map P) (fn_name n) (fn_name n)] | GetAttr \<Rightarrow> [clean_name (fn_target n)] | _ \<Rightarrow> [])"

definition graph_names :: "fx_program \<Rightarrow> string list" where
  "graph_names P = concat (map (node_outer_name P) (fp_nodes P)) @ take 1 (fp_user_inputs P)"

lemma ssa_key_percent_any [simp]: "ssa_key (percent s) = ssa_key s"
  by (simp add: ssa_key_def percent_def)

lemma add_outputs_fields:
  "res_foldM (add_output P) st as = Inr st' \<Longrightarrow> cv_ops st' = cv_ops st \<and> same_names st st'"
proof (induction as arbitrary: st)
  case (Cons a as)
  then obtain st1 where st1: "add_output P st a = Inr st1" "res_foldM (add_output P) st1 as = Inr st'" by (auto elim: res_bindE)
  have "cv_ops st1 = cv_ops st \<and> same_names st st1" using st1(1) by (auto simp: add_output_def same_names_def elim!: res_bindE split: fx_arg.splits)
  then show ?case using Cons.IH[OF st1(2)] by (auto simp: same_names_def)
qed (simp add: same_names_def)

lemma named_keeps:
  assumes "record_shape n (set_ssa (fn_name n) v st) = Inr st'" "walk_inv G N st" "fn_name n \<notin> N" "ssa_key v \<in> G"
  shows "walk_inv G (insert (fn_name n) N) st'"
  using record_shape_fields[OF assms(1)] assms(4)
  by (intro walk_inv_value[OF assms(2,3), of _ v]) (simp_all add: same_names_def scope_def outer_names_def)

lemma convert_node_keeps:
  assumes run: "convert_node F T P inputs (weight_name_map P) st n = Inr st'" and inv: "walk_inv G N st" and new: "fn_name n \<notin> N"
    and refs: "set (node_refs n) \<subseteq> N" and ins: "inputs \<noteq> [] \<Longrightarrow> ssa_key (fst (inputs ! 0)) \<in> G"
    and outer: "ssa_key ` set (node_outer_name P n) \<subseteq> G"
  shows "walk_inv G (insert (fn_name n) N) st'"
proof (cases "fn_kind n")
  case Placeholder
  then show ?thesis using run outer named_keeps[OF _ inv new] by (simp add: convert_node_def node_outer_name_def)
next
  case GetAttr
  then show ?thesis using run outer named_keeps[OF _ inv new] by (simp add: convert_node_def node_outer_name_def)
next
  case CallFunction
  then show ?thesis using run call_function_keeps[OF _ inv new refs ins] by (simp add: convert_node_def)
next
  case Output
  then obtain as where "res_foldM (add_output P) st as = Inr st'" using run by (auto simp: convert_node_def elim: res_bindE)
  then show ?thesis using add_outputs_fields walk_inv_quiet[OF inv new] by blast
next
  case OtherNode
  then show ?thesis using run quiet_same[OF inv new] by (simp add: convert_node_def)
qed

text \<open>A graph whose nodes have distinct names and refer to earlier nodes only.\<close>

fun refs_ordered :: "string set \<Rightarrow> fx_node list \<Rightarrow> bool" where
  "refs_ordered N [] = True"
| "refs_ordered N (n # ns) = (fn_name n \<notin> N \<and> set (node_refs n) \<subseteq> N \<and> refs_ordered (insert (fn_name n) N) ns)"

lemma convert_nodes_keep:
  "res_foldM (convert_node F T P inputs (weight_name_map P)) st ns = Inr st' \<Longrightarrow> walk_inv G N st \<Longrightarrow> refs_ordered N ns
     \<Longrightarrow> (inputs \<noteq> [] \<Longrightarrow> ssa_key (fst (inputs ! 0)) \<in> G) \<Longrightarrow> (\<And>n. n \<in> set ns \<Longrightarrow> ssa_key ` set (node_outer_name P n) \<subseteq> G)
     \<Longrightarrow> walk_inv G (fn_name ` set ns \<union> N) st'"
proof (induction ns arbitrary: st N)
  case (Cons n ns)
  then obtain st1 where st1: "convert_node F T P inputs (weight_name_map P) st n = Inr st1"
    "res_foldM (convert_node F T P inputs (weight_name_map P)) st1 ns = Inr st'" by (auto elim: res_bindE)
  have "walk_inv G (insert (fn_name n) N) st1" using convert_node_keeps[OF st1(1) Cons.prems(2)] Cons.prems(3,4,5) by simp
  moreover have "refs_ordered (insert (fn_name n) N) ns" using Cons.prems(3) by simp
  ultimately have "walk_inv G (fn_name ` set ns \<union> insert (fn_name n) N) st'"
    using Cons.prems(5) by (intro Cons.IH[OF st1(2) _ _ Cons.prems(4)]) auto
  then show ?case by simp
qed simp

lemma function_inputs_first:
  "function_inputs P = Inr inputs \<Longrightarrow> inputs \<noteq> [] \<Longrightarrow> ssa_key (fst (inputs ! 0)) \<in> ssa_key ` set (take 1 (fp_user_inputs P))"
  by (cases "fp_user_inputs P") (auto simp: function_inputs_def elim!: res_bindE)

lemma walk_inv_start: "walk_inv G {} (start_conversion P)"
  by (simp add: walk_inv_def start_conversion_def)

lemma converted_inv:
  assumes "function_inputs P = Inr inputs" "convert_nodes F T P inputs = Inr st" "refs_ordered {} (fp_nodes P)"
  shows "walk_inv (ssa_key ` set (graph_names P)) (fn_name ` set (fp_nodes P)) st"
  using convert_nodes_keep[OF assms(2)[unfolded convert_nodes_def] walk_inv_start assms(3), of "ssa_key ` set (graph_names P)"]
    function_inputs_first[OF assms(1)]
  by (auto simp: graph_names_def image_Un)


section \<open>Definition order of the converted operations\<close>

lemma weight_op_simps [simp]:
  "mo_operands (weight_op w) = [fst w]" "mo_results (weight_op w) = [percent (fst w)]" "mo_op_name (weight_op w) = ''weight''"
  by (simp_all add: weight_op_def split: prod.split)

lemma weight_ops_closed: "ssa_key ` fst ` set ws \<subseteq> E \<Longrightarrow> closed_ops E (map weight_op ws)"
proof (induction ws arbitrary: E)
  case (Cons w ws)
  have "closed_ops (E \<union> {ssa_key (fst w)}) (map weight_op ws)" by (rule Cons.IH) (use Cons.prems in auto)
  then show ?case using Cons.prems by simp
qed simp

lemma weight_op_results: "block_results (map weight_op ws) = map (ssa_key \<circ> fst) ws"
  by (induction ws) (simp_all add: block_results_def)

lemma backfill_simps [simp]: "mo_operands (backfill_layer d op) = mo_operands op" "mo_results (backfill_layer d op) = mo_results op"
  "mo_op_name (backfill_layer d op) = mo_op_name op"
  by (simp_all add: backfill_layer_def split: json.split option.split)

lemma backfill_closed [simp]: "closed_ops E (map (backfill_layer d) ops) = closed_ops E ops"
  by (induction ops arbitrary: E) auto

lemma backfill_results [simp]: "block_results (map (backfill_layer d) ops) = block_results ops"
  by (simp add: block_results_def comp_def)

lemma graph_ops_results: "block_results (graph_ops st) = map (ssa_key \<circ> fst) (cv_weights st) @ block_results (cv_ops st)"
  by (simp add: graph_ops_def weight_op_results)

definition open_names :: "fx_program \<Rightarrow> conversion \<Rightarrow> string list" where
  "open_names P st = map ssa_key (graph_names P @ filter (\<lambda>m. ssa_of (cv_ssa st) m = m) (map fn_name (fp_nodes P)))"

text \<open>
  Result names are unique and differ from the names the graph brings, other than those of weights.
\<close>

definition names_unique :: "fx_program \<Rightarrow> conversion \<Rightarrow> bool" where
  "names_unique P st \<longleftrightarrow> distinct (block_results (graph_ops st)) \<and> set (open_names P st) \<inter> set (block_results (cv_ops st)) = {}"

lemma outer_names_final:
  "outer_names (ssa_key ` set (graph_names P)) (fn_name ` set (fp_nodes P)) st = weight_keys st \<union> set (open_names P st)"
  by (auto simp: outer_names_def open_names_def bare_names_def)

lemma graph_ops_ordered:
  assumes "function_inputs P = Inr inputs" "convert_nodes F T P inputs = Inr st" "refs_ordered {} (fp_nodes P)" "names_unique P st"
  shows "ssa_ordered (graph_ops st)"
proof -
  have closed: "closed_ops (weight_keys st \<union> set (open_names P st)) (cv_ops st)"
    using converted_inv[OF assms(1,2,3)] by (simp add: walk_inv_def outer_names_final)
  have "ssa_ordered (map (backfill_layer (cv_node_layer st)) (cv_ops st))"
    by (rule closed_ops_ordered[of "weight_keys st \<union> set (open_names P st)"])
       (use closed assms(4) in \<open>auto simp: names_unique_def graph_ops_results weight_keys_def\<close>)
  moreover have "ssa_ordered (map weight_op (cv_weights st))"
  proof -
    have "distinct (map (ssa_key \<circ> fst) ws) \<Longrightarrow> ssa_ordered (map weight_op ws)" for ws
      by (induction ws) (auto simp: block_results_def)
    then show ?thesis using assms(4) by (simp add: names_unique_def graph_ops_results)
  qed
  moreover have "block_operands (map weight_op ws) = map (ssa_key \<circ> fst) ws" for ws
    by (induction ws) (simp_all add: block_operands_def)
  ultimately show ?thesis
    using assms(4) by (auto simp: graph_ops_def ssa_ordered_append names_unique_def weight_op_results)
qed


section \<open>Where a graph is split\<close>

lemma sdpa_boundary_op:
  "mo_op_name (ops ! i) = sdpa \<Longrightarrow> mo_op_name (ops ! sdpa_boundary ops ps i) \<in> {sdpa, ''unsqueeze''}"
proof -
  assume i: "mo_op_name (ops ! i) = sdpa"
  have chain: "mo_op_name (ops ! k) = ''unsqueeze''" if k: "gqa_repeat_chain_start ops i j ps = Some k" for j k
  proof -
    obtain path where path: "map (\<lambda>i. mo_op_name (ops ! i)) path = [''view'', ''expand'', ''unsqueeze'']" "k = last path"
      using k by (auto simp: gqa_repeat_chain_start_def Let_def split: if_splits)
    then have "mo_op_name (ops ! k) = last (map (\<lambda>i. mo_op_name (ops ! i)) path)" by (subst last_map) auto
    then show ?thesis using path(1) by simp
  qed
  show ?thesis using i chain by (auto simp: sdpa_boundary_def min_def split: option.split)
qed

lemma graph_op_weight: "i < length (cv_weights st) \<Longrightarrow> mo_op_name (graph_ops st ! i) = ''weight''"
  by (simp add: graph_ops_def nth_append)

lemma boundaries_after_weights:
  assumes "b \<in> set (all_boundaries strategy policy (length (cv_weights st)) bs (graph_ops st))"
  shows "length (cv_weights st) \<le> b"
proof (rule ccontr)
  assume "\<not> length (cv_weights st) \<le> b"
  then have "mo_op_name (graph_ops st ! b) = ''weight''" by (simp add: graph_op_weight)
  moreover have "length (cv_weights st) \<le> b \<or> b \<in> set (sdpa_cache_boundary_indices (graph_ops st))"
    using assms by (auto simp: all_boundaries_def Let_def split: if_splits)
  moreover have "mo_op_name (graph_ops st ! b) \<in> {sdpa, ''unsqueeze''}" if b: "b \<in> set (sdpa_cache_boundary_indices (graph_ops st))"
  proof -
    obtain i where "b = sdpa_boundary (graph_ops st) (producer_indices (graph_ops st)) i" "mo_op_name (graph_ops st ! i) = sdpa"
      using b unfolding sdpa_cache_boundary_indices_def by auto
    then show ?thesis by (simp only: sdpa_boundary_op)
  qed
  ultimately show False using \<open>\<not> length (cv_weights st) \<le> b\<close> by (auto simp: sdpa_def)
qed

lemma sentinels_prefix:
  "(\<And>i. i < k + length xs \<Longrightarrow> \<not> here i) \<Longrightarrow> sentinels_from k here (xs @ ys) = xs @ sentinels_from (k + length xs) here ys"
  by (induction xs arbitrary: k) auto

lemma sentinel_names: "mo_operands sentinel = []" "mo_results sentinel = []"
  by (simp_all add: sentinel_def)

lemma sentinels_results [simp]: "block_results (sentinels_from k here ops) = block_results ops"
  by (induction ops arbitrary: k) (simp_all add: block_results_Cons sentinel_names)

lemma sentinels_ordered: "ssa_ordered ops \<Longrightarrow> ssa_ordered (sentinels_from k here ops)"
  by (induction ops arbitrary: k) (simp_all add: sentinel_names)

lemma partition_results: "block_results (concat (partition_blocks cur ops)) = block_results cur @ block_results (filter (\<lambda>op. \<not> is_boundary op) ops)"
  by (simp add: concat_partition)

lemma partition_prefix:
  "list_all (\<lambda>op. \<not> is_boundary op) ws \<Longrightarrow> partition_blocks cur (ws @ rest) = partition_blocks (cur @ ws) rest"
  by (induction ws arbitrary: cur) auto

lemma partition_hd: "cur \<noteq> [] \<Longrightarrow> \<exists>ys. hd (partition_blocks cur ops) = cur @ ys"
proof (induction ops arbitrary: cur)
  case (Cons op ops)
  show ?case using Cons.IH[of "cur @ [op]"] by (cases "is_boundary op") (auto simp: Cons.prems)
qed simp

lemma filter_results_distinct: "distinct (block_results ops) \<Longrightarrow> distinct (block_results (filter P ops))"
proof (induction ops)
  case (Cons op ops)
  have "set (block_results (filter P ops)) \<subseteq> set (block_results ops)" by (auto simp: block_results_def)
  then show ?case using Cons by (auto simp: block_results_Cons)
qed simp

text \<open>The weight operations stay in the first block, so no later block defines a weight.\<close>

lemma weights_in_first_block:
  assumes "distinct (block_results (ws @ rest))" "list_all (\<lambda>op. \<not> is_boundary op) ws"
    and "b \<in> set (tl (partition_blocks [] (ws @ rest)))"
  shows "set (block_results b) \<inter> set (block_results ws) = {}"
proof (cases "ws = []")
  case False
  let ?bs = "partition_blocks [] (ws @ rest)"
  have bs: "?bs = partition_blocks ws rest" using partition_prefix[OF assms(2), of "[]" rest] by simp
  obtain ys where ys: "hd ?bs = ws @ ys" using partition_hd[OF False] bs by metis
  have "?bs \<noteq> []" using assms(3) by auto
  then have "?bs = (ws @ ys) # tl ?bs" using ys by (metis list.collapse)
  then have "concat ?bs = ws @ ys @ concat (tl ?bs)" by (metis append.assoc concat.simps(2))
  moreover have "distinct (block_results (concat ?bs))"
    using filter_results_distinct[OF assms(1)] by (simp add: concat_partition)
  ultimately have "set (block_results ws) \<inter> set (block_results (concat (tl ?bs))) = {}" by auto
  moreover have "set (block_results b) \<subseteq> set (block_results (concat (tl ?bs)))" using assms(3) block_results_concat by blast
  ultimately show ?thesis by blast
qed simp

lemma split_graph_ops:
  assumes split: "split_graph strategy policy st = Inr (ops, k)" and few: "strategy = ''layer'' \<or> length (cv_weights st) \<le> 500"
  obtains here where "ops = sentinels_from 0 here (graph_ops st)" "\<And>i. i < length (cv_weights st) \<Longrightarrow> \<not> here i"
proof -
  let ?bs = "all_boundaries strategy policy (length (cv_weights st)) (cv_boundaries st) (graph_ops st)"
  have none: "sentinels_from 0 (\<lambda>_. False) xs = xs" for xs
    using sentinels_prefix[of 0 xs "\<lambda>_. False" "[]"] by simp
  consider "?bs \<noteq> []" "ops = sentinels_from 0 (\<lambda>i. int i \<in> set (map int ?bs)) (graph_ops st)"
    | "ops = sentinels_from 0 (\<lambda>_. False) (graph_ops st)"
    | "strategy \<noteq> ''layer''" "ops = sentinels_from 0 (\<lambda>i. i > 0 \<and> int i mod 500 = 0) (graph_ops st)"
    using split by (auto simp: split_graph_def Let_def split_into_functions_def insert_sentinels_from none split: if_splits)
  then show thesis
  proof cases
    case 1
    have "int i \<notin> set (map int ?bs)" if "i < length (cv_weights st)" for i
      using boundaries_after_weights[of i strategy policy st] that by fastforce
    with 1 show ?thesis using that by blast
  next
    case 2
    then show ?thesis using that by blast
  next
    case 3
    have "\<not> (i > 0 \<and> int i mod 500 = 0)" if "i < length (cv_weights st)" for i using few 3(1) that by auto
    with 3 show ?thesis using that by blast
  qed
qed


section \<open>From the graph to the plan\<close>

lemma fx_plan_wired:
  assumes ins: "function_inputs P = Inr inputs" and conv: "convert_nodes F T P inputs = Inr st"
    and graph: "refs_ordered {} (fp_nodes P)" "names_unique P st" "list_all (\<lambda>(w, _). ssa_key w = w) (cv_weights st)"
    and split: "split_graph strategy policy st = Inr (ops, k)" "strategy = ''layer'' \<or> length (cv_weights st) \<le> 500"
    and run: "make_multi_functions iter ops (graph_args P inputs st name) policy = Inr r"
    and order: "\<And>xs. mset (iter xs) = mset xs" and fi: "0 < fi" "fi < length (sr_functions r)"
  shows "list_all2 (\<lambda>(name, _). edge_wired (sr_functions r) fi name)
     (mf_inputs (sr_functions r ! fi)) (ps_inputs (ep_steps (sr_plan r) ! fi))"
proof -
  obtain here where here: "ops = sentinels_from 0 here (graph_ops st)" "\<And>i. i < length (cv_weights st) \<Longrightarrow> \<not> here i"
    using split_graph_ops[OF split] by blast
  let ?ws = "map weight_op (cv_weights st)" and ?gs = "map (backfill_layer (cv_node_layer st)) (cv_ops st)"
  have ops: "ops = ?ws @ sentinels_from (length ?ws) here ?gs"
    using sentinels_prefix[of 0 ?ws here ?gs] here by (simp add: graph_ops_def)
  have "distinct (block_results (graph_ops st))" using graph(2) by (simp add: names_unique_def)
  then have dist: "distinct (block_results (?ws @ sentinels_from (length ?ws) here ?gs))"
    using here(1) ops sentinels_results by metis
  have nb: "list_all (\<lambda>op. \<not> is_boundary op) ?ws" by (simp add: list_all_iff is_boundary_def)
  have keys: "set (block_results ?ws) = set (sa_weights (graph_args P inputs st name))"
    using graph(3) by (force simp: weight_op_results graph_args_def list_all_iff)
  have "\<forall>b \<in> set (tl (partition_blocks [] ops)). set (block_results b) \<inter> set (sa_weights (graph_args P inputs st name)) = {}"
    using weights_in_first_block[OF dist nb] unfolding ops[symmetric] keys by blast
  moreover have "ssa_ordered ops" using graph_ops_ordered[OF ins conv graph(1,2)] sentinels_ordered here(1) by blast
  ultimately show ?thesis using plan_inputs_wired[OF run order _ _ fi] by blast
qed


section \<open>A sample graph\<close>

text \<open>The states of the walk over the sample graph, after two nodes and after each further one.\<close>

definition sample_state_2 :: conversion where
  "sample_state_2 =
     \<lparr>cv_ops = [],
      cv_ssa = [(''w'', ''%m_w''), (''x'', ''%x'')],
      cv_shapes = [(''w'', [Dim 4, Dim 4], ''float32''), (''x'', [Dim 7, Dim 4], ''float32'')],
      cv_tuples = [],
      cv_weights = [(''m_w'', \<lparr>ft_shape = [4, 4], ft_dtype = ''float32'', ft_scalar = None\<rparr>)], cv_counter = 0, cv_layer = ''embed_prefix'', cv_boundaries = [],
      cv_node_layer = [], cv_outputs = []\<rparr>"

definition sample_state_3 :: conversion where
  "sample_state_3 =
     \<lparr>cv_ops = [
        \<lparr>mo_name = ''sf.slice'', mo_dialect = ''sf'', mo_op_name = ''slice'', mo_operands = [''%x''], mo_results = [''%c__chunk_0''],
         mo_attributes = [(''dim'', JInt 0), (''start'', JInt 0), (''end'', JInt 4), (''source_node'', JStr ''c'')], mo_input_types = [''tensor<7x4xf32>''], mo_output_types = [''tensor<4x4xf32>'']\<rparr>, 
        \<lparr>mo_name = ''sf.slice'', mo_dialect = ''sf'', mo_op_name = ''slice'', mo_operands = [''%x''], mo_results = [''%c__chunk_1''],
         mo_attributes = [(''dim'', JInt 0), (''start'', JInt 4), (''end'', JInt 7), (''source_node'', JStr ''c'')], mo_input_types = [''tensor<7x4xf32>''], mo_output_types = [''tensor<3x4xf32>'']\<rparr>],
      cv_ssa = [(''w'', ''%m_w''), (''x'', ''%x''), (''c'', ''%c__chunk_0'')],
      cv_shapes = [(''w'', [Dim 4, Dim 4], ''float32''), (''x'', [Dim 7, Dim 4], ''float32''), (''%c__chunk_0'', [Dim 4, Dim 4], ''float32''), (''%c__chunk_1'', [Dim 3, Dim 4], ''float32''), (''c'', [Dim 4, Dim 4], ''float32'')],
      cv_tuples = [(''c'', [''%c__chunk_0'', ''%c__chunk_1''])],
      cv_weights = [(''m_w'', \<lparr>ft_shape = [4, 4], ft_dtype = ''float32'', ft_scalar = None\<rparr>)], cv_counter = 0, cv_layer = ''layer_0'', cv_boundaries = [0],
      cv_node_layer = [(''c'', ''layer_0'')], cv_outputs = []\<rparr>"

definition sample_state_4 :: conversion where
  "sample_state_4 =
     \<lparr>cv_ops = [
        \<lparr>mo_name = ''sf.slice'', mo_dialect = ''sf'', mo_op_name = ''slice'', mo_operands = [''%x''], mo_results = [''%c__chunk_0''],
         mo_attributes = [(''dim'', JInt 0), (''start'', JInt 0), (''end'', JInt 4), (''source_node'', JStr ''c'')], mo_input_types = [''tensor<7x4xf32>''], mo_output_types = [''tensor<4x4xf32>'']\<rparr>, 
        \<lparr>mo_name = ''sf.slice'', mo_dialect = ''sf'', mo_op_name = ''slice'', mo_operands = [''%x''], mo_results = [''%c__chunk_1''],
         mo_attributes = [(''dim'', JInt 0), (''start'', JInt 4), (''end'', JInt 7), (''source_node'', JStr ''c'')], mo_input_types = [''tensor<7x4xf32>''], mo_output_types = [''tensor<3x4xf32>'']\<rparr>],
      cv_ssa = [(''w'', ''%m_w''), (''x'', ''%x''), (''c'', ''%c__chunk_0''), (''g'', ''%c__chunk_1'')],
      cv_shapes = [(''w'', [Dim 4, Dim 4], ''float32''), (''x'', [Dim 7, Dim 4], ''float32''), (''%c__chunk_0'', [Dim 4, Dim 4], ''float32''), (''%c__chunk_1'', [Dim 3, Dim 4], ''float32''), (''c'', [Dim 4, Dim 4], ''float32''), (''g'', [Dim 3, Dim 4], ''float32'')],
      cv_tuples = [(''c'', [''%c__chunk_0'', ''%c__chunk_1''])],
      cv_weights = [(''m_w'', \<lparr>ft_shape = [4, 4], ft_dtype = ''float32'', ft_scalar = None\<rparr>)], cv_counter = 0, cv_layer = ''layer_0'', cv_boundaries = [0],
      cv_node_layer = [(''c'', ''layer_0''), (''g'', ''layer_0'')], cv_outputs = []\<rparr>"

definition sample_state_5 :: conversion where
  "sample_state_5 =
     \<lparr>cv_ops = [
        \<lparr>mo_name = ''sf.slice'', mo_dialect = ''sf'', mo_op_name = ''slice'', mo_operands = [''%x''], mo_results = [''%c__chunk_0''],
         mo_attributes = [(''dim'', JInt 0), (''start'', JInt 0), (''end'', JInt 4), (''source_node'', JStr ''c'')], mo_input_types = [''tensor<7x4xf32>''], mo_output_types = [''tensor<4x4xf32>'']\<rparr>, 
        \<lparr>mo_name = ''sf.slice'', mo_dialect = ''sf'', mo_op_name = ''slice'', mo_operands = [''%x''], mo_results = [''%c__chunk_1''],
         mo_attributes = [(''dim'', JInt 0), (''start'', JInt 4), (''end'', JInt 7), (''source_node'', JStr ''c'')], mo_input_types = [''tensor<7x4xf32>''], mo_output_types = [''tensor<3x4xf32>'']\<rparr>, 
        \<lparr>mo_name = ''sf.slice'', mo_dialect = ''sf'', mo_op_name = ''slice'', mo_operands = [''%c__chunk_1''], mo_results = [''%d__chunk_0''],
         mo_attributes = [(''dim'', JInt 1), (''start'', JInt 0), (''end'', JInt 4), (''source_node'', JStr ''d'')], mo_input_types = [''tensor<3x4xf32>''], mo_output_types = [''tensor<3x4xf32>'']\<rparr>],
      cv_ssa = [(''w'', ''%m_w''), (''x'', ''%x''), (''c'', ''%c__chunk_0''), (''g'', ''%c__chunk_1''), (''d'', ''%d__chunk_0'')],
      cv_shapes = [(''w'', [Dim 4, Dim 4], ''float32''), (''x'', [Dim 7, Dim 4], ''float32''), (''%c__chunk_0'', [Dim 4, Dim 4], ''float32''), (''%c__chunk_1'', [Dim 3, Dim 4], ''float32''), (''c'', [Dim 4, Dim 4], ''float32''), (''g'', [Dim 3, Dim 4], ''float32''), (''%d__chunk_0'', [Dim 3, Dim 4], ''float32''), (''d'', [Dim 3, Dim 4], ''float32'')],
      cv_tuples = [(''c'', [''%c__chunk_0'', ''%c__chunk_1'']), (''d'', [''%d__chunk_0''])],
      cv_weights = [(''m_w'', \<lparr>ft_shape = [4, 4], ft_dtype = ''float32'', ft_scalar = None\<rparr>)], cv_counter = 0, cv_layer = ''layer_1'', cv_boundaries = [0, 2],
      cv_node_layer = [(''c'', ''layer_0''), (''g'', ''layer_0''), (''d'', ''layer_1'')], cv_outputs = []\<rparr>"

definition sample_state_6 :: conversion where
  "sample_state_6 =
     \<lparr>cv_ops = [
        \<lparr>mo_name = ''sf.slice'', mo_dialect = ''sf'', mo_op_name = ''slice'', mo_operands = [''%x''], mo_results = [''%c__chunk_0''],
         mo_attributes = [(''dim'', JInt 0), (''start'', JInt 0), (''end'', JInt 4), (''source_node'', JStr ''c'')], mo_input_types = [''tensor<7x4xf32>''], mo_output_types = [''tensor<4x4xf32>'']\<rparr>, 
        \<lparr>mo_name = ''sf.slice'', mo_dialect = ''sf'', mo_op_name = ''slice'', mo_operands = [''%x''], mo_results = [''%c__chunk_1''],
         mo_attributes = [(''dim'', JInt 0), (''start'', JInt 4), (''end'', JInt 7), (''source_node'', JStr ''c'')], mo_input_types = [''tensor<7x4xf32>''], mo_output_types = [''tensor<3x4xf32>'']\<rparr>, 
        \<lparr>mo_name = ''sf.slice'', mo_dialect = ''sf'', mo_op_name = ''slice'', mo_operands = [''%c__chunk_1''], mo_results = [''%d__chunk_0''],
         mo_attributes = [(''dim'', JInt 1), (''start'', JInt 0), (''end'', JInt 4), (''source_node'', JStr ''d'')], mo_input_types = [''tensor<3x4xf32>''], mo_output_types = [''tensor<3x4xf32>'']\<rparr>, 
        \<lparr>mo_name = ''sf.slice'', mo_dialect = ''sf'', mo_op_name = ''slice'', mo_operands = [''%m_w''], mo_results = [''%e__chunk_0''],
         mo_attributes = [(''dim'', JInt 0), (''start'', JInt 0), (''end'', JInt 4), (''source_node'', JStr ''e'')], mo_input_types = [''tensor<4x4xf32>''], mo_output_types = [''tensor<4x4xf32>'']\<rparr>],
      cv_ssa = [(''w'', ''%m_w''), (''x'', ''%x''), (''c'', ''%c__chunk_0''), (''g'', ''%c__chunk_1''), (''d'', ''%d__chunk_0''), (''e'', ''%e__chunk_0'')],
      cv_shapes = [(''w'', [Dim 4, Dim 4], ''float32''), (''x'', [Dim 7, Dim 4], ''float32''), (''%c__chunk_0'', [Dim 4, Dim 4], ''float32''), (''%c__chunk_1'', [Dim 3, Dim 4], ''float32''), (''c'', [Dim 4, Dim 4], ''float32''), (''g'', [Dim 3, Dim 4], ''float32''), (''%d__chunk_0'', [Dim 3, Dim 4], ''float32''), (''d'', [Dim 3, Dim 4], ''float32''), (''%e__chunk_0'', [Dim 4, Dim 4], ''float32''), (''e'', [Dim 4, Dim 4], ''float32'')],
      cv_tuples = [(''c'', [''%c__chunk_0'', ''%c__chunk_1'']), (''d'', [''%d__chunk_0'']), (''e'', [''%e__chunk_0''])],
      cv_weights = [(''m_w'', \<lparr>ft_shape = [4, 4], ft_dtype = ''float32'', ft_scalar = None\<rparr>)], cv_counter = 0, cv_layer = ''layer_1'', cv_boundaries = [0, 2],
      cv_node_layer = [(''c'', ''layer_0''), (''g'', ''layer_0''), (''d'', ''layer_1''), (''e'', ''layer_1'')], cv_outputs = []\<rparr>"

definition sample_state_7 :: conversion where
  "sample_state_7 =
     \<lparr>cv_ops = [
        \<lparr>mo_name = ''sf.slice'', mo_dialect = ''sf'', mo_op_name = ''slice'', mo_operands = [''%x''], mo_results = [''%c__chunk_0''],
         mo_attributes = [(''dim'', JInt 0), (''start'', JInt 0), (''end'', JInt 4), (''source_node'', JStr ''c'')], mo_input_types = [''tensor<7x4xf32>''], mo_output_types = [''tensor<4x4xf32>'']\<rparr>, 
        \<lparr>mo_name = ''sf.slice'', mo_dialect = ''sf'', mo_op_name = ''slice'', mo_operands = [''%x''], mo_results = [''%c__chunk_1''],
         mo_attributes = [(''dim'', JInt 0), (''start'', JInt 4), (''end'', JInt 7), (''source_node'', JStr ''c'')], mo_input_types = [''tensor<7x4xf32>''], mo_output_types = [''tensor<3x4xf32>'']\<rparr>, 
        \<lparr>mo_name = ''sf.slice'', mo_dialect = ''sf'', mo_op_name = ''slice'', mo_operands = [''%c__chunk_1''], mo_results = [''%d__chunk_0''],
         mo_attributes = [(''dim'', JInt 1), (''start'', JInt 0), (''end'', JInt 4), (''source_node'', JStr ''d'')], mo_input_types = [''tensor<3x4xf32>''], mo_output_types = [''tensor<3x4xf32>'']\<rparr>, 
        \<lparr>mo_name = ''sf.slice'', mo_dialect = ''sf'', mo_op_name = ''slice'', mo_operands = [''%m_w''], mo_results = [''%e__chunk_0''],
         mo_attributes = [(''dim'', JInt 0), (''start'', JInt 0), (''end'', JInt 4), (''source_node'', JStr ''e'')], mo_input_types = [''tensor<4x4xf32>''], mo_output_types = [''tensor<4x4xf32>'']\<rparr>],
      cv_ssa = [(''w'', ''%m_w''), (''x'', ''%x''), (''c'', ''%c__chunk_0''), (''g'', ''%c__chunk_1''), (''d'', ''%d__chunk_0''), (''e'', ''%e__chunk_0'')],
      cv_shapes = [(''w'', [Dim 4, Dim 4], ''float32''), (''x'', [Dim 7, Dim 4], ''float32''), (''%c__chunk_0'', [Dim 4, Dim 4], ''float32''), (''%c__chunk_1'', [Dim 3, Dim 4], ''float32''), (''c'', [Dim 4, Dim 4], ''float32''), (''g'', [Dim 3, Dim 4], ''float32''), (''%d__chunk_0'', [Dim 3, Dim 4], ''float32''), (''d'', [Dim 3, Dim 4], ''float32''), (''%e__chunk_0'', [Dim 4, Dim 4], ''float32''), (''e'', [Dim 4, Dim 4], ''float32'')],
      cv_tuples = [(''c'', [''%c__chunk_0'', ''%c__chunk_1'']), (''d'', [''%d__chunk_0'']), (''e'', [''%e__chunk_0''])],
      cv_weights = [(''m_w'', \<lparr>ft_shape = [4, 4], ft_dtype = ''float32'', ft_scalar = None\<rparr>)], cv_counter = 0, cv_layer = ''layer_1'', cv_boundaries = [0, 2],
      cv_node_layer = [(''c'', ''layer_0''), (''g'', ''layer_0''), (''d'', ''layer_1''), (''e'', ''layer_1'')], cv_outputs = [(''%d__chunk_0'', ''tensor<f32>'', False), (''%e__chunk_0'', ''tensor<f32>'', False)]\<rparr>"

abbreviation sample_step :: "conversion \<Rightarrow> fx_node \<Rightarrow> conversion res" where
  "sample_step \<equiv> convert_node sample_format sample_tables sample_program [(''%x'', ''tensor<7x4xf32>'')] (weight_name_map sample_program)"

lemma sample_start: "res_foldM sample_step (start_conversion sample_program) (take 2 (fp_nodes sample_program)) = Inr sample_state_2"
  by code_simp

lemma sample_step_2: "sample_step sample_state_2 (fp_nodes sample_program ! 2) = Inr sample_state_3"
  by code_simp

lemma sample_step_3: "sample_step sample_state_3 (fp_nodes sample_program ! 3) = Inr sample_state_4"
  by code_simp

lemma sample_step_4: "sample_step sample_state_4 (fp_nodes sample_program ! 4) = Inr sample_state_5"
  by code_simp

lemma sample_step_5: "sample_step sample_state_5 (fp_nodes sample_program ! 5) = Inr sample_state_6"
  by code_simp

lemma sample_step_6: "sample_step sample_state_6 (fp_nodes sample_program ! 6) = Inr sample_state_7"
  by code_simp

lemma sample_converted:
  "convert_nodes sample_format sample_tables sample_program [(''%x'', ''tensor<7x4xf32>'')] = Inr sample_state_7"
proof -
  let ?ns = "fp_nodes sample_program"
  have "?ns = take 2 ?ns @ [?ns ! 2, ?ns ! 3, ?ns ! 4, ?ns ! 5, ?ns ! 6]" by (simp add: sample_program_def)
  then have "res_foldM sample_step (start_conversion sample_program) ?ns =
      res_bind (Inr sample_state_2) (\<lambda>s. res_foldM sample_step s [?ns ! 2, ?ns ! 3, ?ns ! 4, ?ns ! 5, ?ns ! 6])"
    using res_foldM_append[of sample_step "start_conversion sample_program" "take 2 ?ns"] sample_start by metis
  then show ?thesis
    by (simp only: convert_nodes_def res_bind_Inr res_foldM.simps sample_step_2 sample_step_3 sample_step_4 sample_step_5 sample_step_6)
qed

lemma sample_ordered: "refs_ordered {} (fp_nodes sample_program)"
  by code_simp

lemma sample_names: "names_unique sample_program sample_state_7" "list_all (\<lambda>(w, _). ssa_key w = w) (cv_weights sample_state_7)"
  by code_simp+

lemma sample_inputs: "function_inputs sample_program = Inr [(''%x'', ''tensor<7x4xf32>'')]"
  by code_simp

text \<open>The second function reads the module input \<open>%x\<close>, which is not among its inputs.\<close>

lemma module_input_not_passed:
  "case split_graph ''layer'' None sample_state_7 of Inl _ \<Rightarrow> False
   | Inr (ops, k) \<Rightarrow>
      (case make_multi_functions id ops (graph_args sample_program [(''%x'', ''tensor<7x4xf32>'')] sample_state_7 ''main'') None of
         Inl _ \<Rightarrow> False
       | Inr r \<Rightarrow> map (map fst \<circ> mf_inputs) (sr_functions r) = [[''%x''], [], [''%c__chunk_1'', ''%m_w'']]
           \<and> set (block_operands (mf_ops (sr_functions r ! 1))) = {''x''})"
  by code_simp


section \<open>Properties\<close>

text \<open>C8: Every operand of an operation of a converted graph is a result of an earlier operation, a weight, the name of a placeholder or attribute node or of the first input, or the bare name of a node that the walk gave no value; the nodes of the graph must have distinct names and refer to earlier nodes only.\<close>

theorem converted_operands_defined:
  assumes ins: "function_inputs P = Inr inputs" and conv: "convert_nodes F T P inputs = Inr st" and graph: "refs_ordered {} (fp_nodes P)"
    and op: "i < length (cv_ops st)" "v \<in> set (mo_operands (cv_ops st ! i))"
  shows "ssa_key v \<in> set (block_results (take i (cv_ops st))) \<union> ssa_key ` fst ` set (cv_weights st) \<union> ssa_key ` set (graph_names P)
    \<union> {ssa_key m |m. m \<in> fn_name ` set (fp_nodes P) \<and> ssa_of (cv_ssa st) m = m}"
proof -
  have "closed_ops (outer_names (ssa_key ` set (graph_names P)) (fn_name ` set (fp_nodes P)) st) (cv_ops st)"
    using converted_inv[OF ins conv graph] by (simp add: walk_inv_def)
  from closed_ops_nth[OF this op] show ?thesis by (auto simp: outer_names_def weight_keys_def bare_names_def)
qed

theorem converted_operands_defined_witness:
  "ssa_key ''%c__chunk_1'' \<in> set (block_results (take 2 (cv_ops sample_state_7))) \<union> ssa_key ` fst ` set (cv_weights sample_state_7)
     \<union> ssa_key ` set (graph_names sample_program)
     \<union> {ssa_key m |m. m \<in> fn_name ` set (fp_nodes sample_program) \<and> ssa_of (cv_ssa sample_state_7) m = m}"
proof -
  have "2 < length (cv_ops sample_state_7)" "''%c__chunk_1'' \<in> set (mo_operands (cv_ops sample_state_7 ! 2))"
    by (simp_all add: sample_state_7_def)
  from converted_operands_defined[OF sample_inputs sample_converted sample_ordered this] show ?thesis .
qed

text \<open>C7: From the graph to the plan: when a graph is converted, split and planned, every input of every function but the first is an edge to an output position of an earlier step that exists and carries the value of that name, provided the result names of the conversion are unique, weight names start with no percent sign, the module is split by layers or has at most 500 weights, and Python's order of set elements is an arbitrary permutation.\<close>

theorem converted_plan_wired:
  assumes ins: "function_inputs P = Inr inputs" and conv: "convert_nodes F T P inputs = Inr st"
    and graph: "refs_ordered {} (fp_nodes P)" "names_unique P st" "list_all (\<lambda>(w, _). ssa_key w = w) (cv_weights st)"
    and split: "split_graph strategy policy st = Inr (ops, k)" "strategy = ''layer'' \<or> length (cv_weights st) \<le> 500"
    and run: "make_multi_functions iter ops (graph_args P inputs st name) policy = Inr r"
    and order: "\<And>xs. mset (iter xs) = mset xs" and fi: "0 < fi" "fi < length (sr_functions r)"
  shows "list_all2 (\<lambda>(name, _). edge_wired (sr_functions r) fi name)
     (mf_inputs (sr_functions r ! fi)) (ps_inputs (ep_steps (sr_plan r) ! fi))"
  using assms by (rule fx_plan_wired)

theorem converted_plan_wired_witness:
  "\<exists>ops k r. split_graph ''layer'' None sample_state_7 = Inr (ops, k)
     \<and> make_multi_functions id ops (graph_args sample_program [(''%x'', ''tensor<7x4xf32>'')] sample_state_7 ''main'') None = Inr r
     \<and> map fst (mf_inputs (sr_functions r ! 2)) = [''%c__chunk_1'', ''%m_w'']
     \<and> list_all2 (\<lambda>(name, _). edge_wired (sr_functions r) 2 name) (mf_inputs (sr_functions r ! 2)) (ps_inputs (ep_steps (sr_plan r) ! 2))"
proof -
  let ?args = "graph_args sample_program [(''%x'', ''tensor<7x4xf32>'')] sample_state_7 ''main''"
  obtain x where x: "split_graph ''layer'' None sample_state_7 = Inr x" "case x of (ops, k) \<Rightarrow>
      (case make_multi_functions id ops ?args None of
         Inl _ \<Rightarrow> False
       | Inr r \<Rightarrow> map (map fst \<circ> mf_inputs) (sr_functions r) = [[''%x''], [], [''%c__chunk_1'', ''%m_w'']]
           \<and> set (block_operands (mf_ops (sr_functions r ! 1))) = {''x''})"
    using res_caseE[OF module_input_not_passed] by blast
  obtain ops k where ops: "x = (ops, k)" by (cases x)
  obtain r where r: "make_multi_functions id ops ?args None = Inr r"
    "map (map fst \<circ> mf_inputs) (sr_functions r) = [[''%x''], [], [''%c__chunk_1'', ''%m_w'']]"
    using res_caseE[OF x(2)[unfolded ops prod.case]] by (elim exE conjE) (rule that)
  have "length (map (map fst \<circ> mf_inputs) (sr_functions r)) = 3" unfolding r(2) by (simp only: list.size)
  then have len: "2 < length (sr_functions r)" by simp
  have "map (map fst \<circ> mf_inputs) (sr_functions r) ! 2 = [''%c__chunk_1'', ''%m_w'']"
    unfolding r(2) numeral_2_eq_2 nth_Cons_Suc nth_Cons_0 ..
  then have ins: "map fst (mf_inputs (sr_functions r ! 2)) = [''%c__chunk_1'', ''%m_w'']" using len by simp
  have "list_all2 (\<lambda>(name, _). edge_wired (sr_functions r) 2 name) (mf_inputs (sr_functions r ! 2)) (ps_inputs (ep_steps (sr_plan r) ! 2))"
    using converted_plan_wired[OF sample_inputs sample_converted sample_ordered sample_names x(1)[unfolded ops] _ r(1), of 2] len by simp
  with x(1)[unfolded ops] r(1) ins show ?thesis by (intro exI conjI)
qed

end
