(* ===== verification/Regexp.thy ===== *)
theory Regexp
  imports Prelude
begin

text \<open>
  Regular expressions as Python's \<open>re\<close> matches them: a backtracking match tries the alternatives
  in order and the first success counts, so a match is the head of the list of all ways to match
  at a position, in the order in which they are tried.  Repetitions are of single characters;
  captured groups are collected from left to right.  The character classes are those of ASCII text.
\<close>

datatype rx =
    Lit string
  | Many "char \<Rightarrow> bool" nat
  | Few "char \<Rightarrow> bool" nat
  | Cat "rx list"
  | Alt rx rx
  | Maybe rx
  | Grp rx
  | At_end

text \<open>\<open>Many p n\<close> is greedy and \<open>Few p n\<close> lazy, with at least \<open>n\<close> characters; \<open>At_end\<close> is \<open>$\<close>.\<close>

fun rx_match :: "rx \<Rightarrow> string \<Rightarrow> (string list \<times> string) list"
  and rx_seq :: "rx list \<Rightarrow> string \<Rightarrow> (string list \<times> string) list" where
  "rx_match (Lit p) s = (if starts_with s p then [([], drop (length p) s)] else [])"
| "rx_match (Many p n) s = map (\<lambda>j. ([], drop j s)) (rev [n ..< Suc (length (takeWhile p s))])"
| "rx_match (Few p n) s = map (\<lambda>j. ([], drop j s)) [n ..< Suc (length (takeWhile p s))]"
| "rx_match (Cat rs) s = rx_seq rs s"
| "rx_match (Alt a b) s = rx_match a s @ rx_match b s"
| "rx_match (Maybe r) s = rx_match r s @ [([], s)]"
| "rx_match (Grp r) s = map (\<lambda>(gs, rest). (take (length s - length rest) s # gs, rest)) (rx_match r s)"
| "rx_match At_end s = (if s = [] \<or> s = [CHR 10] then [([], s)] else [])"
| "rx_seq [] s = [([], s)]"
| "rx_seq (r # rs) s =
     concat (map (\<lambda>(gs, rest). map (\<lambda>(gs', rest'). (gs @ gs', rest')) (rx_seq rs rest)) (rx_match r s))"

text \<open>\<open>re.search\<close>: the text from the start of the match, its groups and the text after it.\<close>

fun rx_search :: "rx \<Rightarrow> string \<Rightarrow> (string \<times> string list \<times> string) option" where
  "rx_search r [] = (case rx_match r [] of (gs, rest) # _ \<Rightarrow> Some ([], gs, rest) | [] \<Rightarrow> None)"
| "rx_search r (c # cs) = (case rx_match r (c # cs) of (gs, rest) # _ \<Rightarrow> Some (c # cs, gs, rest) | [] \<Rightarrow> rx_search r cs)"

text \<open>
  \<open>re.finditer\<close> for expressions that do not match the empty text: successive matches that do not
  overlap.  A match of the empty text would end the iteration here.
\<close>

function rx_all :: "rx \<Rightarrow> string \<Rightarrow> (string \<times> string list) list" where
  "rx_all r s =
     (case rx_search r s of
        None \<Rightarrow> []
      | Some (start, gs, rest) \<Rightarrow> (start, gs) # (if length rest < length s then rx_all r rest else []))"
  by pat_completeness auto
termination
  by (relation "measure (\<lambda>(r, s). length s)") auto

declare rx_all.simps [simp del, code]

text \<open>\<open>r"\w"\<close>, \<open>r"\d"\<close> and \<open>r"\s"\<close>.\<close>

definition word_char :: "char \<Rightarrow> bool" where
  "word_char c = (let n = of_char c :: nat in n = 95 \<or> 48 \<le> n \<and> n \<le> 57 \<or> 65 \<le> n \<and> n \<le> 90 \<or> 97 \<le> n \<and> n \<le> 122)"

definition digit_char_rx :: "char \<Rightarrow> bool" where
  "digit_char_rx c = (digit_val c \<noteq> None)"

definition spaces :: rx where
  "spaces = Many is_blank 0"

definition blanks :: rx where
  "blanks = Many is_blank 1"

definition none_of :: "string \<Rightarrow> rx" where
  "none_of cs = Many (\<lambda>c. c \<notin> set cs) 0"

end
