(* ===== verification/Sfa_Abi.thy ===== *)
theory Sfa_Abi
  imports Regexp Split_Names Split_Wiring Mlir_Text
begin

text \<open>
  The function ABI header, \<open>compiler/sfa_abi.py\<close>: the readers of LLVM IR and lowered MLIR text,
  which work with regular expressions, the merge of what they find with the functions before
  lowering and the execution plan, and the fields of the \<open>SfaAbiHeader\<close> message with the ranges of
  their types.  A file that cannot be read is \<open>None\<close>; the bytes of the two messages are left out:
  the plan is the one the splitter built.
\<close>


section \<open>Reading lowered text\<close>

definition tensor_rx :: rx where
  "tensor_rx = Cat [Lit ''tensor<'', Grp (none_of ''>''), Lit ''>'']"

definition tensor_dtype :: "string \<Rightarrow> string" where
  "tensor_dtype txt = (if txt = [] then ''f32'' else py_strip (last (split_on CHR ''x'' (py_strip txt))))"

type_synonym lowered_type = "int list \<times> string"

definition is_size :: "string \<Rightarrow> bool" where
  "is_size d \<longleftrightarrow> d = ''?'' \<or> (d \<noteq> [] \<and> list_all digit_char_rx d)"

definition size_of_text :: "string \<Rightarrow> int" where
  "size_of_text d = (if d = ''?'' then 0 else case int_of_string d of Inr i \<Rightarrow> i | Inl _ \<Rightarrow> 0)"

text \<open>Sizes and element type of the text between the angle brackets; the rank is the number of sizes.\<close>

definition lowered_tensor :: "string \<Rightarrow> lowered_type" where
  "lowered_tensor body =
     (let txt = py_strip body
      in if txt = [] then ([], ''f32'')
         else (map size_of_text (filter is_size (map py_strip (split_on CHR ''x'' txt))), tensor_dtype txt))"

definition lowered_tensors :: "string \<Rightarrow> lowered_type list" where
  "lowered_tensors text = map (\<lambda>(_, gs). lowered_tensor (gs ! 0)) (rx_all tensor_rx text)"

definition func_name_rx :: rx where
  "func_name_rx = Cat [Lit ''func.func'', blanks, Lit ''@'', Grp (Many word_char 1)]"

definition args_rx :: rx where
  "args_rx = Cat [func_name_rx, spaces, Lit ''('', Grp (none_of '')''), Lit '')'',
     Maybe (Cat [spaces, Lit ''->'', spaces, none_of ''{'']), spaces, Lit ''{'']"

text \<open>Functions read twice keep their first entry.\<close>

definition first_entries :: "('k \<times> 'v) list \<Rightarrow> ('k, 'v) dict" where
  "first_entries kvs = foldl (\<lambda>d (k, v). dict_setdefault d k v) [] kvs"

definition parse_lowered_argument_types :: "string option \<Rightarrow> (string, lowered_type list) dict" where
  "parse_lowered_argument_types file =
     (case file of
        None \<Rightarrow> []
      | Some text \<Rightarrow> first_entries (map (\<lambda>(_, gs). (gs ! 0, lowered_tensors (gs ! 1))) (rx_all args_rx text)))"

definition weight_names_rx :: rx where
  "weight_names_rx = Cat [func_name_rx, none_of ''{'', Lit ''attributes'', spaces, Lit ''{'', none_of ''}'', Lit ''sf.weight_names'', spaces,
     Lit ''='', spaces, Maybe (Lit ''#sf<weight_names''), Lit ''['', Grp (none_of '']''), Lit '']'']"

definition weight_name_items :: "string \<Rightarrow> string list" where
  "weight_name_items names_str =
     map (\<lambda>n. strip_chars ''\"'' (py_strip n)) (filter (\<lambda>n. py_strip n \<noteq> []) (split_on CHR '','' names_str))"

definition parse_lowered_weight_names :: "string option \<Rightarrow> (string, string list) dict" where
  "parse_lowered_weight_names file =
     (case file of
        None \<Rightarrow> []
      | Some text \<Rightarrow> foldl (\<lambda>d (_, gs). AList.update (gs ! 0) (weight_name_items (gs ! 1)) d) [] (rx_all weight_names_rx text))"

definition results_rx :: rx where
  "results_rx = Cat [func_name_rx, spaces, Lit ''('', none_of '')'', Lit '')'', spaces, Lit ''->'', spaces, Grp (Few (\<lambda>_. True) 1), spaces,
     Alt (Cat [Lit ''attributes'', spaces, Lit ''{'']) (Lit ''{'')]"

definition parse_lowered_output_types :: "string option \<Rightarrow> (string, lowered_type list) dict" where
  "parse_lowered_output_types file =
     (case file of
        None \<Rightarrow> []
      | Some text \<Rightarrow> first_entries (map (\<lambda>(_, gs). (gs ! 0, lowered_tensors (py_strip (gs ! 1)))) (rx_all results_rx text)))"


section \<open>Reading LLVM IR\<close>

definition ciface_rx :: rx where
  "ciface_rx = Cat [Lit ''define'', blanks, Lit ''void'', blanks, Lit ''@'', Grp (Cat [Lit ''_mlir_ciface_'', Many word_char 1]), spaces,
     Lit ''('', Grp (none_of '')''), Lit '')'', spaces, Lit ''{'']"

definition call_rx :: "string \<Rightarrow> rx" where
  "call_rx name = Cat [Lit ''call'', blanks, Grp (Cat [Lit ''{'', none_of ''}'', Lit ''}'']), spaces, Lit ''@'', Lit name, spaces, Lit ''('']"

definition rank_rx :: rx where
  "rank_rx = Cat [Lit ''['', Grp (Many digit_char_rx 1), blanks, Lit ''x'', blanks, Lit ''i64'', Lit '']'']"

text \<open>\<open>s.count("ptr")\<close>; occurrences of this text cannot overlap.\<close>

fun count_ptr :: "string \<Rightarrow> nat" where
  "count_ptr [] = 0"
| "count_ptr (c # cs) = (if starts_with (c # cs) ''ptr'' then Suc (count_ptr cs) else count_ptr cs)"

definition body_from :: "string \<Rightarrow> string" where
  "body_from start = (case find_from start (CHR 10 # ''define '') 1 of None \<Rightarrow> start | Some k \<Rightarrow> take k start)"

definition output_rank_of :: "string \<Rightarrow> string \<Rightarrow> int" where
  "output_rank_of body inner_name =
     (let rank = (case rx_search (call_rx inner_name) body of
                    None \<Rightarrow> 0
                  | Some (_, gs, _) \<Rightarrow> (case rx_all rank_rx (gs ! 0) of [] \<Rightarrow> 0 | (_, rs) # _ \<Rightarrow> size_of_text (rs ! 0)))
      in if rank = 0 then 3 else rank)"

definition parse_ciface_signatures :: "string \<Rightarrow> (string, int \<times> int) dict" where
  "parse_ciface_signatures text =
     foldl (\<lambda>d (start, gs). AList.update (gs ! 0)
         (int (count_ptr (gs ! 1)) - 1, output_rank_of (body_from start) (remove_all ''_mlir_ciface_'' (gs ! 0))) d)
       [] (rx_all ciface_rx text)"


section \<open>Routing of inputs\<close>

datatype input_binding = GlobalInput | WeightInput string | SsaInput nat nat

record pre_function =
  pf_name :: string
  pf_inputs :: "(string \<times> string) list"
  pf_outputs :: "(string \<times> string \<times> bool) list"

record abi_input =
  ai_binding :: input_binding
  ai_type :: "lowered_type option"

record abi_output =
  ao_dims :: "int list"
  ao_rank :: int
  ao_consumed :: bool
  ao_dtype :: string

record abi_func =
  af_symbol :: string
  af_num_inputs :: nat
  af_output_rank :: int
  af_inputs :: "abi_input list"
  af_outputs :: "abi_output list"
  af_flags :: "bool list"

definition plain_input :: "input_binding \<Rightarrow> abi_input" where
  "plain_input b = \<lparr>ai_binding = b, ai_type = None\<rparr>"

text \<open>Edges of the plan; other sources are skipped.\<close>

definition edge_binding :: "edge_input \<Rightarrow> input_binding option" where
  "edge_binding e =
     (if ei_source e = GLOBAL_INPUT then Some GlobalInput
      else if ei_source e = STEP_OUTPUT then Some (SsaInput (ei_source_index e) (ei_producer_step e)) else None)"

text \<open>Weights of the first function, each once, without constants.\<close>

definition weight_inputs :: "string list \<Rightarrow> input_binding list" where
  "weight_inputs names =
     map WeightInput (foldl (\<lambda>seen w. if w \<in> set seen \<or> starts_with w ''_const_'' then seen else seen @ [w]) [] names)"

definition planned_inputs :: "execution_plan \<Rightarrow> (string, string list) dict \<Rightarrow> nat \<Rightarrow> pre_function \<Rightarrow> input_binding list" where
  "planned_inputs plan weight_names fi f =
     (case find (\<lambda>s. ps_func_name s = pf_name f) (ep_steps plan) of
        None \<Rightarrow> []
      | Some s \<Rightarrow> List.map_filter edge_binding (ps_inputs s)
          @ (if fi = 0 then weight_inputs (dict_get weight_names (pf_name f) []) else []))"


section \<open>Routing without a plan\<close>

definition producer_map :: "pre_function list \<Rightarrow> (string, nat \<times> nat) dict" where
  "producer_map funcs =
     foldl (\<lambda>d (fi, f). foldl (\<lambda>d (oi, name, _). AList.update (ssa_key name) (fi, oi) d) d (enum_from 0 (pf_outputs f)))
       [] (enum_from 0 funcs)"

definition func_name_to_idx :: "pre_function list \<Rightarrow> (string, nat) dict" where
  "func_name_to_idx funcs = foldl (\<lambda>d (fi, f). AList.update (pf_name f) fi d) [] (enum_from 0 funcs)"

definition lowered_to_type_str :: "int list \<Rightarrow> string" where
  "lowered_to_type_str ds = ''tensor<'' @ join_with ''x'' (map (\<lambda>d. if d > 0 then string_of_int d else ''?'') ds) @ ''>''"

definition type_indices :: "lowered_type list \<Rightarrow> (string, nat list) dict" where
  "type_indices outs =
     foldl (\<lambda>d (idx, ds, _). AList.update (lowered_to_type_str ds) (dict_get d (lowered_to_type_str ds) [] @ [idx]) d)
       [] (enum_from 0 outs)"

text \<open>A printed type without its element type, as \<open>lowered_to_type_str\<close> prints one.\<close>

definition match_type :: "string \<Rightarrow> string res" where
  "match_type tp =
     (if CHR ''x'' \<in> set tp \<and> CHR ''>'' \<in> set tp
      then res_bind (py_index (split_on CHR ''<'' tp) 1) (\<lambda>t.
           let parts = split_on CHR ''x'' (hd (split_on CHR ''>'' t)); dims_only = join_with ''x'' (butlast parts)
           in Inr (''tensor<'' @ (if dims_only \<noteq> [] then dims_only else hd parts) @ ''>''))
      else Inr tp)"

type_synonym type_counter = "(string \<times> string, nat) dict"

definition guess_by_type ::
    "pre_function list \<Rightarrow> (string, lowered_type list) dict \<Rightarrow> nat \<Rightarrow> string \<Rightarrow> type_counter \<Rightarrow> (input_binding \<times> type_counter) res" where
  "guess_by_type funcs outs fi tp counter =
     (let prod = pf_name (funcs ! (fi - 1)); table = (case map_of outs prod of None \<Rightarrow> [] | Some ts \<Rightarrow> type_indices ts)
      in res_bind (match_type tp) (\<lambda>mt.
         let matching = dict_get table mt []; pos = dict_get counter (prod, mt) 0
         in Inr (if pos < length matching then (SsaInput (fi - 1) (matching ! pos), AList.update (prod, mt) (pos + 1) counter)
                 else (SsaInput (fi - 1) 0, counter))))"

definition guess_input ::
    "pre_function list \<Rightarrow> (string, lowered_type list) dict \<Rightarrow> nat \<Rightarrow> input_binding list \<times> type_counter \<Rightarrow> nat \<times> string \<times> string
       \<Rightarrow> (input_binding list \<times> type_counter) res" where
  "guess_input funcs outs fi = (\<lambda>(bs, counter) (idx, name, tp).
     let key = ssa_key name
     in if fi = 0 \<and> idx \<le> 1 then Inr (bs @ [GlobalInput], counter)
        else if key = [] then Inr (bs, counter)
        else case map_of (producer_map funcs) key of
               Some (p, o') \<Rightarrow> Inr (bs @ [SsaInput p o'], counter)
             | None \<Rightarrow>
                 (case find (\<lambda>(fname, _). contains_str key fname) (func_name_to_idx funcs) of
                    Some (_, fni) \<Rightarrow> Inr (bs @ [SsaInput fni 0], counter)
                  | None \<Rightarrow> res_bind (guess_by_type funcs outs fi tp counter) (\<lambda>(b, counter'). Inr (bs @ [b], counter'))))"

definition guessed_inputs ::
    "pre_function list \<Rightarrow> (string, lowered_type list) dict \<Rightarrow> (string, string list) dict \<Rightarrow> type_counter \<Rightarrow> nat \<Rightarrow> pre_function
       \<Rightarrow> (input_binding list \<times> type_counter) res" where
  "guessed_inputs funcs outs weight_names counter fi f =
     res_bind (res_foldM (guess_input funcs outs fi) ([], counter) (enum_from 0 (pf_inputs f))) (\<lambda>(bs, counter').
     Inr (bs @ (if fi = 0 then weight_inputs (dict_get weight_names (pf_name f) []) else []), counter'))"


section \<open>The functions of the header\<close>

definition output_descs :: "(string, lowered_type list) dict \<Rightarrow> string \<Rightarrow> int \<Rightarrow> abi_output list" where
  "output_descs outs name rank =
     (case map_of outs name of
        Some ts \<Rightarrow> map (\<lambda>(ds, dt). \<lparr>ao_dims = ds, ao_rank = int (length ds), ao_consumed = False, ao_dtype = dt\<rparr>) ts
      | None \<Rightarrow> [\<lparr>ao_dims = replicate (nat rank) 0, ao_rank = rank, ao_consumed = False, ao_dtype = ''f32''\<rparr>])"

definition mark_consumed :: "(string \<times> string \<times> bool) list \<Rightarrow> abi_output list \<Rightarrow> abi_output list" where
  "mark_consumed pre descs =
     (if pre = [] \<or> descs = [] then descs
      else if length pre = length descs then map (\<lambda>((_, _, c), od). od\<lparr>ao_consumed := c\<rparr>) (zip pre descs)
      else descs[0 := (descs ! 0)\<lparr>ao_consumed := list_ex (\<lambda>(_, _, c). c) pre\<rparr>])"

definition add_types :: "(string, lowered_type list) dict \<Rightarrow> string \<Rightarrow> abi_input list \<Rightarrow> abi_input list" where
  "add_types args name ins =
     (case map_of args name of
        None \<Rightarrow> ins
      | Some ts \<Rightarrow> map (\<lambda>(i, f). if i < length ts then f\<lparr>ai_type := Some (ts ! i)\<rparr> else f) (enum_from 0 ins))"

definition merge_function ::
    "(string, int \<times> int) dict \<Rightarrow> pre_function list \<Rightarrow> (string, lowered_type list) dict \<Rightarrow> (string, lowered_type list) dict
       \<Rightarrow> (string, string list) dict \<Rightarrow> execution_plan option \<Rightarrow> abi_func list \<times> type_counter \<Rightarrow> nat \<times> pre_function
       \<Rightarrow> (abi_func list \<times> type_counter) res" where
  "merge_function signatures funcs args outs weight_names plan = (\<lambda>(metas, counter) (fi, f).
     let symbol = ''_mlir_ciface_'' @ pf_name f
     in case map_of signatures symbol of
          None \<Rightarrow> Inr (metas, counter)
        | Some (num_args, rank) \<Rightarrow>
            res_bind (case plan of
                        Some p \<Rightarrow> Inr (planned_inputs p weight_names fi f, counter)
                      | None \<Rightarrow> guessed_inputs funcs outs weight_names counter fi f) (\<lambda>(bs, counter').
            let ins = add_types args (pf_name f) (map plain_input bs)
            in Inr (metas @ [\<lparr>af_symbol = symbol, af_num_inputs = length ins, af_output_rank = rank, af_inputs = ins,
                              af_outputs = mark_consumed (pf_outputs f) (output_descs outs (pf_name f) rank),
                              af_flags = map (\<lambda>(_, _, c). c) (pf_outputs f)\<rparr>], counter')))"

definition merge_with_semantics ::
    "(string, int \<times> int) dict \<Rightarrow> pre_function list \<Rightarrow> (string, lowered_type list) dict \<Rightarrow> (string, lowered_type list) dict
       \<Rightarrow> (string, string list) dict \<Rightarrow> execution_plan option \<Rightarrow> abi_func list res" where
  "merge_with_semantics signatures funcs args outs weight_names plan =
     res_bind (res_foldM (merge_function signatures funcs args outs weight_names plan) ([], []) (enum_from 0 funcs))
       (\<lambda>(metas, _). Inr metas)"


section \<open>The message\<close>

record proto_input =
  pi_kind :: nat
  pi_weight :: string
  pi_ref :: "32 word \<times> 32 word"
  pi_rank :: "32 word"
  pi_dims :: "64 word list"
  pi_dtype :: string

record proto_output =
  po_rank :: "32 word"
  po_dims :: "64 word list"
  po_consumed :: bool
  po_dtype :: string

record proto_func =
  pu_symbol :: string
  pu_num_inputs :: "32 word"
  pu_output_rank :: "32 word"
  pu_inputs :: "proto_input list"
  pu_outputs :: "proto_output list"
  pu_flags :: "bool list"

record abi_header =
  hd_magic :: "32 word"
  hd_version :: "32 word"
  hd_funcs :: "proto_func list"

definition SFA_MAGIC :: int where
  "SFA_MAGIC = 0x41464253"

definition SFA_VERSION :: int where
  "SFA_VERSION = 1"

definition proto_u64 :: "int \<Rightarrow> 64 word res" where
  "proto_u64 i = (if 0 \<le> i \<and> i < 2 ^ 64 then Inr (word_of_int i) else Inl ValueError)"

definition binding_fields :: "input_binding \<Rightarrow> (nat \<times> string \<times> 32 word \<times> 32 word) res" where
  "binding_fields b =
     (case b of
        GlobalInput \<Rightarrow> Inr (0, [], 0, 0)
      | WeightInput w \<Rightarrow> Inr (1, w, 0, 0)
      | SsaInput p k \<Rightarrow> res_bind (proto_u32 (int p)) (\<lambda>p'. res_bind (proto_u32 (int k)) (\<lambda>k'. Inr (2, [], p', k'))))"

definition input_to_proto :: "abi_input \<Rightarrow> proto_input res" where
  "input_to_proto f =
     res_bind (binding_fields (ai_binding f)) (\<lambda>(kind, weight, ref).
     case ai_type f of
       None \<Rightarrow> Inr \<lparr>pi_kind = kind, pi_weight = weight, pi_ref = ref, pi_rank = 0, pi_dims = [], pi_dtype = []\<rparr>
     | Some (ds, dt) \<Rightarrow>
         res_bind (proto_u32 (int (length ds))) (\<lambda>rank.
         res_bind (res_mapM proto_u64 ds) (\<lambda>dims.
         Inr \<lparr>pi_kind = kind, pi_weight = weight, pi_ref = ref, pi_rank = rank, pi_dims = dims, pi_dtype = dt\<rparr>)))"

definition output_to_proto :: "abi_output \<Rightarrow> proto_output res" where
  "output_to_proto od =
     res_bind (proto_u32 (ao_rank od)) (\<lambda>rank.
     res_bind (res_mapM proto_u64 (ao_dims od)) (\<lambda>dims.
     Inr \<lparr>po_rank = rank, po_dims = dims, po_consumed = ao_consumed od, po_dtype = ao_dtype od\<rparr>))"

definition func_to_proto :: "abi_func \<Rightarrow> proto_func res" where
  "func_to_proto meta =
     res_bind (proto_u32 (int (af_num_inputs meta))) (\<lambda>num.
     res_bind (proto_u32 (af_output_rank meta)) (\<lambda>rank.
     res_bind (res_mapM input_to_proto (af_inputs meta)) (\<lambda>ins.
     res_bind (res_mapM output_to_proto (af_outputs meta)) (\<lambda>outs.
     Inr \<lparr>pu_symbol = af_symbol meta, pu_num_inputs = num, pu_output_rank = rank, pu_inputs = ins, pu_outputs = outs,
          pu_flags = af_flags meta\<rparr>))))"

definition serialize_abi :: "abi_func list \<Rightarrow> abi_header res" where
  "serialize_abi metas =
     res_bind (proto_u32 SFA_MAGIC) (\<lambda>magic.
     res_bind (proto_u32 SFA_VERSION) (\<lambda>version.
     res_bind (res_mapM func_to_proto metas) (\<lambda>fs.
     Inr \<lparr>hd_magic = magic, hd_version = version, hd_funcs = fs\<rparr>)))"


section \<open>Routing follows the plan\<close>

definition planned_func ::
    "(string, int \<times> int) dict \<Rightarrow> (string, lowered_type list) dict \<Rightarrow> (string, lowered_type list) dict \<Rightarrow> (string, string list) dict
       \<Rightarrow> execution_plan \<Rightarrow> nat \<times> pre_function \<Rightarrow> abi_func" where
  "planned_func signatures args outs weight_names plan = (\<lambda>(fi, f).
     let symbol = ''_mlir_ciface_'' @ pf_name f; rank = snd (the (map_of signatures symbol));
         ins = add_types args (pf_name f) (map plain_input (planned_inputs plan weight_names fi f))
     in \<lparr>af_symbol = symbol, af_num_inputs = length ins, af_output_rank = rank, af_inputs = ins,
         af_outputs = mark_consumed (pf_outputs f) (output_descs outs (pf_name f) rank), af_flags = map (\<lambda>(_, _, c). c) (pf_outputs f)\<rparr>)"

lemma merge_fold:
  "\<forall>(_, f) \<in> set ifs. dict_has signatures (''_mlir_ciface_'' @ pf_name f) \<Longrightarrow>
   res_foldM (merge_function signatures funcs args outs weight_names (Some plan)) (metas, counter) ifs
     = Inr (metas @ map (planned_func signatures args outs weight_names plan) ifs, counter)"
proof (induction ifs arbitrary: metas)
  case (Cons x ifs)
  obtain fi f where x: "x = (fi, f)" by (cases x)
  obtain sg where "map_of signatures (''_mlir_ciface_'' @ pf_name f) = Some sg" using Cons.prems x by auto
  then have "merge_function signatures funcs args outs weight_names (Some plan) (metas, counter) x
      = Inr (metas @ [planned_func signatures args outs weight_names plan x], counter)"
    by (simp add: x merge_function_def planned_func_def Let_def split: prod.split)
  then show ?case using Cons by simp
qed simp

lemma merge_planned:
  assumes "\<forall>f \<in> set funcs. dict_has signatures (''_mlir_ciface_'' @ pf_name f)"
  shows "merge_with_semantics signatures funcs args outs weight_names (Some plan)
     = Inr (map (planned_func signatures args outs weight_names plan) (enum_from 0 funcs))"
proof -
  have "\<forall>(_, f) \<in> set (enum_from 0 funcs). dict_has signatures (''_mlir_ciface_'' @ pf_name f)"
    using assms by (auto simp: set_enum_from)
  from merge_fold[OF this] show ?thesis by (simp add: merge_with_semantics_def)
qed

lemma add_types_bindings [simp]: "map ai_binding (add_types args name ins) = map ai_binding ins"
proof -
  have "map ai_binding (map (\<lambda>(i, f). if i < length ts then f\<lparr>ai_type := Some (ts ! i)\<rparr> else f) (enum_from k ins)) = map ai_binding ins" for ts k
    by (induction ins arbitrary: k) auto
  then show ?thesis by (simp add: add_types_def split: option.split)
qed

lemma planned_func_bindings:
  "map ai_binding (af_inputs (planned_func signatures args outs weight_names plan (fi, f))) = planned_inputs plan weight_names fi f"
  by (simp add: planned_func_def Let_def comp_def plain_input_def)

lemma find_distinct: "distinct (map g xs) \<Longrightarrow> i < length xs \<Longrightarrow> find (\<lambda>x. g x = g (xs ! i)) xs = Some (xs ! i)"
proof (induction xs arbitrary: i)
  case (Cons x xs)
  show ?case
  proof (cases i)
    case (Suc j)
    then have "g x \<noteq> g (xs ! j)" using Cons.prems by auto
    then show ?thesis using Cons Suc by simp
  qed simp
qed simp

text \<open>A binding that names an earlier function's output with the right name.\<close>

definition ref_wired :: "mlir_function list \<Rightarrow> nat \<Rightarrow> string \<Rightarrow> nat \<Rightarrow> nat \<Rightarrow> bool" where
  "ref_wired funcs fi name p k \<longleftrightarrow> p < fi \<and> k < length (mf_outputs (funcs ! p)) \<and> ssa_key (fst (mf_outputs (funcs ! p) ! k)) = ssa_key name"

definition binding_wired :: "mlir_function list \<Rightarrow> nat \<Rightarrow> string \<Rightarrow> input_binding \<Rightarrow> bool" where
  "binding_wired funcs fi name b = (case b of SsaInput p k \<Rightarrow> ref_wired funcs fi name p k | _ \<Rightarrow> False)"

lemma wired_bindings:
  "list_all2 (\<lambda>(name, _). edge_wired funcs fi name) ins es \<Longrightarrow>
     list_all2 (\<lambda>(name, _). binding_wired funcs fi name) ins (List.map_filter edge_binding es)"
proof (induction rule: list_all2_induct)
  case (Cons x ins e es)
  then have "edge_binding e = Some (SsaInput (ei_source_index e) (ei_producer_step e))"
    "binding_wired funcs fi (fst x) (SsaInput (ei_source_index e) (ei_producer_step e))"
    by (auto simp: edge_wired_def edge_binding_def binding_wired_def ref_wired_def GLOBAL_INPUT_def STEP_OUTPUT_def split: prod.splits)
  then show ?case using Cons by (cases x) (simp add: map_filter_simps)
qed (simp add: map_filter_simps)

definition pre_function_of :: "mlir_function \<Rightarrow> pre_function" where
  "pre_function_of f = \<lparr>pf_name = mf_name f, pf_inputs = mf_inputs f, pf_outputs = mf_outputs f\<rparr>"

lemma planned_inputs_wired:
  assumes run: "make_multi_functions iter ops args policy = Inr r"
    and wired: "list_all2 (\<lambda>(name, _). edge_wired (sr_functions r) fi name)
      (mf_inputs (sr_functions r ! fi)) (ps_inputs (ep_steps (sr_plan r) ! fi))"
    and fi: "0 < fi" "fi < length (sr_functions r)"
  shows "list_all2 (\<lambda>(name, _). binding_wired (sr_functions r) fi name) (mf_inputs (sr_functions r ! fi))
     (planned_inputs (sr_plan r) weight_names fi (pre_function_of (sr_functions r ! fi)))"
proof -
  have big: "1 < length (sr_functions r)" using fi by simp
  note shape = plan_shape[OF run big]
  have names: "map ps_func_name (ep_steps (sr_plan r)) = map mf_name (sr_functions r)"
    using shape(2) run big by (auto simp: make_multi_functions_def Let_def res_bind_eq_Inr split: if_splits)
  have "distinct (map ps_func_name (ep_steps (sr_plan r)))" using chain_names_distinct[OF run] shape(2) by simp
  moreover have "ps_func_name (ep_steps (sr_plan r) ! fi) = mf_name (sr_functions r ! fi)"
    using arg_cong[OF names, of "\<lambda>xs. xs ! fi"] fi shape(1) by simp
  ultimately have "find (\<lambda>s. ps_func_name s = mf_name (sr_functions r ! fi)) (ep_steps (sr_plan r)) = Some (ep_steps (sr_plan r) ! fi)"
    using find_distinct[of ps_func_name "ep_steps (sr_plan r)" fi] fi shape(1) by simp
  then show ?thesis using wired_bindings[OF wired] fi(1) by (simp add: planned_inputs_def pre_function_of_def)
qed


section \<open>The message carries the routing\<close>

definition proto_wired :: "mlir_function list \<Rightarrow> nat \<Rightarrow> string \<Rightarrow> proto_input \<Rightarrow> bool" where
  "proto_wired funcs fi name pin \<longleftrightarrow> pi_kind pin = 2 \<and> ref_wired funcs fi name (unat (fst (pi_ref pin))) (unat (snd (pi_ref pin)))"

lemma proto_u32_nat: "proto_u32 (int n) = Inr w \<Longrightarrow> unat w = n"
  using proto_u32_value[of "int n" w] by (metis nat_int unat_eq_nat_uint)

lemma input_to_proto_wired:
  "input_to_proto a = Inr pin \<Longrightarrow> binding_wired funcs fi name (ai_binding a) \<Longrightarrow> proto_wired funcs fi name pin"
  by (cases "ai_binding a")
     (auto simp: input_to_proto_def binding_fields_def binding_wired_def proto_wired_def dest!: proto_u32_nat elim!: res_bindE split: option.splits)

lemma res_mapM_list_all2: "res_mapM g xs = Inr ys \<Longrightarrow> list_all2 (\<lambda>x y. g x = Inr y) xs ys"
  by (induction xs arbitrary: ys) (auto elim!: res_bindE)

lemma serialize_func:
  assumes "serialize_abi metas = Inr h" "i < length metas"
  shows "length (hd_funcs h) = length metas" "func_to_proto (metas ! i) = Inr (hd_funcs h ! i)"
proof -
  have "list_all2 (\<lambda>x y. func_to_proto x = Inr y) metas (hd_funcs h)"
    using assms(1) by (auto simp: serialize_abi_def intro!: res_mapM_list_all2 elim!: res_bindE)
  then show "length (hd_funcs h) = length metas" "func_to_proto (metas ! i) = Inr (hd_funcs h ! i)"
    using assms(2) by (auto simp: list_all2_conv_all_nth)
qed

lemma func_to_proto_parts:
  assumes "func_to_proto meta = Inr pf"
  shows "pu_symbol pf = af_symbol meta" "list_all2 (\<lambda>a pin. input_to_proto a = Inr pin) (af_inputs meta) (pu_inputs pf)"
  using assms by (auto simp: func_to_proto_def intro!: res_mapM_list_all2 elim!: res_bindE)

text \<open>C11: From the splitter to the ABI header of the compiled library: when every function has a wrapper symbol, the header has one entry per function in order, and every input of every function but the first is a reference to an output position of an earlier entry that exists and carries the value of that input's name; the numbers in the message are the exact ones. The operations must define names before they use them, weights must be defined in the first block, and Python's order of set elements is an arbitrary permutation.\<close>

theorem abi_header_wired:
  assumes run: "make_multi_functions iter ops sargs policy = Inr r"
    and order: "\<And>xs. mset (iter xs) = mset xs" and ssa: "ssa_ordered ops"
    and weights: "\<forall>b \<in> set (tl (partition_blocks [] ops)). set (block_results b) \<inter> set (sa_weights sargs) = {}"
    and symbols: "\<forall>f \<in> set (sr_functions r). dict_has signatures (''_mlir_ciface_'' @ mf_name f)"
    and merged: "merge_with_semantics signatures (map pre_function_of (sr_functions r)) args outs weight_names (Some (sr_plan r)) = Inr metas"
    and message: "serialize_abi metas = Inr h" and fi: "0 < fi" "fi < length (sr_functions r)"
  shows "length (hd_funcs h) = length (sr_functions r) \<and> pu_symbol (hd_funcs h ! fi) = ''_mlir_ciface_'' @ mf_name (sr_functions r ! fi)
     \<and> list_all2 (\<lambda>(name, _). proto_wired (sr_functions r) fi name) (mf_inputs (sr_functions r ! fi)) (pu_inputs (hd_funcs h ! fi))"
proof -
  let ?meta = "planned_func signatures args outs weight_names (sr_plan r)"
  let ?f = "pre_function_of (sr_functions r ! fi)"
  have "metas = map ?meta (enum_from 0 (map pre_function_of (sr_functions r)))"
    using merged merge_planned[of "map pre_function_of (sr_functions r)" signatures args outs weight_names "sr_plan r"] symbols
    by (simp add: pre_function_of_def)
  then have metas: "length metas = length (sr_functions r)" "metas ! fi = ?meta (fi, ?f)"
    using fi by (simp_all add: nth_enum_from)
  note h = serialize_func[OF message, of fi]
  have "list_all2 (\<lambda>(name, _). binding_wired (sr_functions r) fi name) (mf_inputs (sr_functions r ! fi)) (map ai_binding (af_inputs (metas ! fi)))"
    using planned_inputs_wired[OF run plan_inputs_wired[OF run order ssa weights fi] fi] by (simp add: metas(2) planned_func_bindings)
  then have "list_all2 (\<lambda>(name, _) a. binding_wired (sr_functions r) fi name (ai_binding a)) (mf_inputs (sr_functions r ! fi)) (af_inputs (metas ! fi))"
    by (simp add: list_all2_map2 case_prod_unfold)
  moreover have "list_all2 (\<lambda>a pin. input_to_proto a = Inr pin) (af_inputs (metas ! fi)) (pu_inputs (hd_funcs h ! fi))"
    using func_to_proto_parts(2) h(2) fi(2) metas(1) by simp
  ultimately have "list_all2 (\<lambda>(name, _). proto_wired (sr_functions r) fi name) (mf_inputs (sr_functions r ! fi)) (pu_inputs (hd_funcs h ! fi))"
    by (rule list_all2_trans[rotated]) (auto intro: input_to_proto_wired)
  moreover have "pu_symbol (hd_funcs h ! fi) = af_symbol (metas ! fi)" using func_to_proto_parts(1) h(2) fi(2) metas(1) by simp
  ultimately show ?thesis using h(1) fi(2) metas by (simp add: planned_func_def Let_def pre_function_of_def)
qed

lemma sfa_magic_bytes: "map (\<lambda>k. (SFA_MAGIC div 256 ^ k) mod 256) [0, 1, 2, 3] = map (\<lambda>c. int (of_char c)) ''SBFA''"
  by code_simp

text \<open>The element type \<open>index\<close> contains the separator.\<close>

lemma lowered_index_type: "lowered_tensor ''4xindex'' = ([4], [])"
  by code_simp

text \<open>A function without a wrapper is skipped, the producers of the others keep the indices of the plan: the only entry of the
  header names entry 0, itself, as the producer of its input.\<close>

lemma skipped_function_shifts_producers:
  "(case merge_with_semantics [(''_mlir_ciface_b'', (2, 3))]
      [\<lparr>pf_name = ''a'', pf_inputs = [], pf_outputs = []\<rparr>, \<lparr>pf_name = ''b'', pf_inputs = [], pf_outputs = []\<rparr>] [] [] []
      (Some \<lparr>ep_global_inputs = [], ep_steps = [\<lparr>ps_func_name = ''a'', ps_inputs = []\<rparr>,
         \<lparr>ps_func_name = ''b'', ps_inputs = [\<lparr>ei_source = STEP_OUTPUT, ei_source_index = 0, ei_producer_step = 0\<rparr>]\<rparr>]\<rparr>)
    of Inl _ \<Rightarrow> None | Inr ms \<Rightarrow> Some (map (\<lambda>m. (af_symbol m, map ai_binding (af_inputs m))) ms))
   = Some [(''_mlir_ciface_b'', [SsaInput 0 0])]"
  by code_simp

definition layer_signatures :: "(string, int \<times> int) dict" where
  "layer_signatures = [(''_mlir_ciface_main_0a'', (4, 3)), (''_mlir_ciface_main_0b'', (3, 3))]"

lemma layer_header:
  "case make_multi_functions id layer_ops layer_args (Some (for_llama 1 1 4 16)) of Inl _ \<Rightarrow> False
   | Inr r \<Rightarrow> length (sr_functions r) = 2 \<and> list_all (\<lambda>f. dict_has layer_signatures (''_mlir_ciface_'' @ mf_name f)) (sr_functions r)
       \<and> is_ok (res_bind (merge_with_semantics layer_signatures (map pre_function_of (sr_functions r)) [] [] [] (Some (sr_plan r))) serialize_abi)"
  by code_simp

theorem abi_header_wired_witness:
  "\<exists>r (h :: abi_header). make_multi_functions id layer_ops layer_args (Some (for_llama 1 1 4 16)) = Inr r \<and>
     list_all2 (\<lambda>(name, _). proto_wired (sr_functions r) 1 name) (mf_inputs (sr_functions r ! 1)) (pu_inputs (hd_funcs h ! 1))"
proof -
  obtain r where r: "make_multi_functions id layer_ops layer_args (Some (for_llama 1 1 4 16)) = Inr r" and two: "length (sr_functions r) = 2"
    and symbols: "list_all (\<lambda>f. dict_has layer_signatures (''_mlir_ciface_'' @ mf_name f)) (sr_functions r)"
    and ok: "is_ok (res_bind (merge_with_semantics layer_signatures (map pre_function_of (sr_functions r)) [] [] [] (Some (sr_plan r))) serialize_abi)"
    using res_caseE[OF layer_header] by (elim exE conjE)
  obtain metas where metas: "merge_with_semantics layer_signatures (map pre_function_of (sr_functions r)) [] [] [] (Some (sr_plan r)) = Inr metas"
    using ok by (cases "merge_with_semantics layer_signatures (map pre_function_of (sr_functions r)) [] [] [] (Some (sr_plan r))") simp_all
  obtain h where h: "serialize_abi metas = Inr h" using ok by (cases "serialize_abi metas") (simp_all add: metas)
  have "\<forall>f \<in> set (sr_functions r). dict_has layer_signatures (''_mlir_ciface_'' @ mf_name f)"
    using symbols by (simp only: list_all_iff)
  note wired = abi_header_wired[OF r _ layer_ssa layer_weights this metas h, of 1]
  have "list_all2 (\<lambda>(name, _). proto_wired (sr_functions r) 1 name) (mf_inputs (sr_functions r ! 1)) (pu_inputs (hd_funcs h ! 1))"
    using wired two by simp
  with r have "make_multi_functions id layer_ops layer_args (Some (for_llama 1 1 4 16)) = Inr r \<and> list_all2 (\<lambda>(name, _). proto_wired (sr_functions r) 1 name) (mf_inputs (sr_functions r ! 1)) (pu_inputs (hd_funcs h ! 1))"
    by (rule conjI)
  then show ?thesis by (intro exI)
qed


section \<open>Routing without a plan agrees\<close>

definition output_entries :: "nat \<Rightarrow> pre_function list \<Rightarrow> (string \<times> nat \<times> nat) list" where
  "output_entries k funcs =
     concat (map (\<lambda>(fi, f). map (\<lambda>(oi, name, _). (ssa_key name, fi, oi)) (enum_from 0 (pf_outputs f))) (enum_from k funcs))"

lemma map_of_updates: "map_of (foldl (\<lambda>d (k, v). AList.update k v d) d kvs) = map_of d ++ map_of (rev kvs)"
  by (induction kvs arbitrary: d) (auto simp: update_conv' map_add_def fun_eq_iff split: option.splits)

lemma producer_map_entries: "map_of (producer_map funcs) = map_of (rev (output_entries 0 funcs))"
proof -
  have inner: "foldl (\<lambda>d (oi, name, _). AList.update (ssa_key name) (fi, oi) d) d outs
      = foldl (\<lambda>d (k, v). AList.update k v d) d (map (\<lambda>(oi, name, _). (ssa_key name, fi, oi)) outs)" for fi d and outs :: "(nat \<times> string \<times> string \<times> bool) list"
    by (induction outs arbitrary: d) auto
  have "foldl (\<lambda>d (fi, f). foldl (\<lambda>d (oi, name, _). AList.update (ssa_key name) (fi, oi) d) d (enum_from 0 (pf_outputs f))) d (enum_from k funcs)
      = foldl (\<lambda>d (k, v). AList.update k v d) d (output_entries k funcs)" for k d
    by (induction funcs arbitrary: k d) (simp_all add: output_entries_def inner)
  then show ?thesis by (simp add: producer_map_def map_of_updates)
qed

definition output_keys :: "mlir_function list \<Rightarrow> string list" where
  "output_keys funcs = concat (map (\<lambda>f. map (ssa_key \<circ> fst) (mf_outputs f)) funcs)"

lemma entry_keys: "map fst (map (\<lambda>(oi, name, _). (ssa_key name, fi, oi)) (enum_from j outs)) = map (ssa_key \<circ> fst) outs"
  by (induction outs arbitrary: j) auto

lemma output_entries_keys: "map fst (output_entries k (map pre_function_of funcs)) = output_keys funcs"
proof (induction funcs arbitrary: k)
  case (Cons f funcs)
  have "output_entries k (map pre_function_of (f # funcs))
      = map (\<lambda>(oi, name, _). (ssa_key name, k, oi)) (enum_from 0 (mf_outputs f)) @ output_entries (Suc k) (map pre_function_of funcs)"
    by (simp add: output_entries_def pre_function_of_def)
  then show ?case by (simp only: map_append entry_keys Cons.IH) (simp add: output_keys_def)
qed (simp add: output_entries_def output_keys_def)

lemma output_entries_mem:
  "(p, f) \<in> set (enum_from 0 funcs) \<Longrightarrow> (k, out) \<in> set (enum_from 0 (pf_outputs f)) \<Longrightarrow> ssa_key (fst out) = key \<Longrightarrow>
     (key, p, k) \<in> set (output_entries 0 funcs)"
  unfolding output_entries_def by (cases out) (auto intro!: bexI[of _ "(p, f)"] image_eqI[of _ _ "(k, out)"])

lemma producer_map_wired:
  assumes "distinct (output_keys funcs)" and wired: "ref_wired funcs fi name p k" and fi: "fi < length funcs"
  shows "map_of (producer_map (map pre_function_of funcs)) (ssa_key name) = Some (p, k)"
proof -
  let ?outs = "mf_outputs (funcs ! p)"
  have p: "p < length funcs" "k < length ?outs" "ssa_key (fst (?outs ! k)) = ssa_key name" using wired fi by (auto simp: ref_wired_def)
  have "(p, pre_function_of (funcs ! p)) \<in> set (enum_from 0 (map pre_function_of funcs))" using p(1) by (simp add: set_enum_from)
  moreover have "(k, ?outs ! k) \<in> set (enum_from 0 (pf_outputs (pre_function_of (funcs ! p))))"
    using p(2) by (simp add: set_enum_from pre_function_of_def)
  ultimately have "(ssa_key name, p, k) \<in> set (output_entries 0 (map pre_function_of funcs))"
    by (rule output_entries_mem) (use p(3) in simp)
  moreover have "distinct (map fst (rev (output_entries 0 (map pre_function_of funcs))))"
    using assms(1) by (simp only: rev_map[symmetric] distinct_rev output_entries_keys)
  ultimately show ?thesis by (simp add: producer_map_entries)
qed

lemma ref_wired_key: "ref_wired funcs fi name p k \<Longrightarrow> fi < length funcs \<Longrightarrow> ssa_key name \<in> set (output_keys funcs)"
proof -
  assume w: "ref_wired funcs fi name p k" and fi: "fi < length funcs"
  have "funcs ! p \<in> set funcs" "mf_outputs (funcs ! p) ! k \<in> set (mf_outputs (funcs ! p))" using w fi by (auto simp: ref_wired_def)
  then show ?thesis using w unfolding output_keys_def ref_wired_def
    by (auto intro!: bexI[of _ "funcs ! p"] image_eqI[of _ _ "mf_outputs (funcs ! p) ! k"])
qed

lemma guess_wired:
  assumes "distinct (output_keys funcs)" "[] \<notin> set (output_keys funcs)" and fi: "0 < fi" "fi < length funcs"
  shows "list_all2 (\<lambda>(name, _). binding_wired funcs fi name) ins bs \<Longrightarrow>
    res_foldM (guess_input (map pre_function_of funcs) outs fi) (acc, counter) (enum_from j ins) = Inr (acc @ bs, counter)"
proof (induction ins bs arbitrary: acc j rule: list_all2_induct)
  case (Cons x ins b bs)
  obtain name tp p k where x: "x = (name, tp)" "b = SsaInput p k" "ref_wired funcs fi name p k"
    using Cons.hyps(1) by (cases x; cases b) (auto simp: binding_wired_def)
  have "ssa_key name \<noteq> []" using ref_wired_key[OF x(3) fi(2)] assms(2) by auto
  then have "guess_input (map pre_function_of funcs) outs fi (acc, counter) (j, x) = Inr (acc @ [b], counter)"
    using producer_map_wired[OF assms(1) x(3) fi(2)] fi(1) by (simp add: guess_input_def x Let_def)
  then show ?case using Cons.IH by simp
qed simp

text \<open>C12: Routing agrees: when the output names of all functions differ and none is empty, the search by name that runs without a plan gives every later function the inputs of the plan.\<close>
theorem name_routing_agrees:
  assumes run: "make_multi_functions iter ops sargs policy = Inr r"
    and order: "\<And>xs. mset (iter xs) = mset xs" and ssa: "ssa_ordered ops"
    and weights: "\<forall>b \<in> set (tl (partition_blocks [] ops)). set (block_results b) \<inter> set (sa_weights sargs) = {}"
    and names: "distinct (output_keys (sr_functions r))" "[] \<notin> set (output_keys (sr_functions r))"
    and fi: "0 < fi" "fi < length (sr_functions r)"
  shows "guessed_inputs (map pre_function_of (sr_functions r)) outs weight_names counter fi (pre_function_of (sr_functions r ! fi))
     = Inr (planned_inputs (sr_plan r) weight_names fi (pre_function_of (sr_functions r ! fi)), counter)"
  using guess_wired[OF names fi planned_inputs_wired[OF run plan_inputs_wired[OF run order ssa weights fi] fi], of outs "[]" counter 0 weight_names] fi(1)
  by (simp add: guessed_inputs_def pre_function_of_def)

lemma layer_names:
  "case make_multi_functions id layer_ops layer_args (Some (for_llama 1 1 4 16)) of Inl _ \<Rightarrow> False
   | Inr r \<Rightarrow> length (sr_functions r) = 2 \<and> distinct (output_keys (sr_functions r)) \<and> [] \<notin> set (output_keys (sr_functions r))"
  by code_simp

theorem name_routing_agrees_witness:
  "\<exists>r. make_multi_functions id layer_ops layer_args (Some (for_llama 1 1 4 16)) = Inr r \<and>
     guessed_inputs (map pre_function_of (sr_functions r)) [] [] [] 1 (pre_function_of (sr_functions r ! 1))
       = Inr (planned_inputs (sr_plan r) [] 1 (pre_function_of (sr_functions r ! 1)), [])"
proof -
  obtain r where r: "make_multi_functions id layer_ops layer_args (Some (for_llama 1 1 4 16)) = Inr r" "length (sr_functions r) = 2"
    "distinct (output_keys (sr_functions r))" "[] \<notin> set (output_keys (sr_functions r))"
    using res_caseE[OF layer_names] by (elim exE conjE)
  have "1 < length (sr_functions r)" using r(2) by simp
  then show ?thesis using name_routing_agrees[OF r(1) _ layer_ssa layer_weights r(3,4), of 1] r(1) by simp
qed

end
