(* ===== verification/Ir_Build.thy ===== *)
theory Ir_Build
  imports Regexp Shape_MLIR Mlir_Module
begin

text \<open>
  \<open>compiler/artifact/ir.py\<close>: from the operations of a module, which name their operands, to the
  module of the MLIR bindings, whose operations refer to values.  The bindings are a parameter, as in
  \<open>Shape_MLIR\<close>; what they are called with is recorded in \<open>ir_op\<close> and \<open>ir_func\<close>.  Exceptions the
  bindings raise and the code does not catch are \<open>ValueError\<close>.  The main result is that a built
  function computes what the function computes whose operands are looked up by name.
\<close>


section \<open>Values, attributes and operations of the bindings\<close>

datatype ir_value = BlockArg nat | OpResult nat nat

datatype 'e ir_attr =
    BoolAttr bool
  | IntegerAttr 'e int
  | FloatAttr 'e rat
  | StringAttr string
  | ArrayAttr "'e ir_attr list"
  | UnitAttr
  | SplatAttr "'e ir_attr"

type_synonym 'e ir_attrs = "(string \<times> 'e ir_attr) list"

record ('t, 'e) ir_op =
  io_name :: string
  io_operands :: "ir_value list"
  io_types :: "'t list"
  io_attrs :: "'e ir_attrs"
  io_loc :: "string list"

record ('t, 'e) ir_func =
  if_name :: string
  if_weight_names :: "string list"
  if_args :: "'t list"
  if_ops :: "('t, 'e) ir_op list"
  if_returns :: "ir_value list"
  if_types :: "'t list"
  if_loc :: string

record ('t, 'e) ir_module =
  im_funcs :: "('t, 'e) ir_func list"
  im_chain_order :: "'e ir_attr list"
  im_plan_data :: "'e ir_attr list"

text \<open>
  What else the code uses of the bindings: the marker of dynamic sizes, unsigned integers, which
  attributes and operations are accepted, and \<open>str\<close> of an attribute value that is not a string.
\<close>

record ('t, 'e) ir_lib = "('t, 'e) mlir" +
  dynamic_size :: int
  uint_type :: "nat \<Rightarrow> 'e"
  int_attr_ok :: "'e \<Rightarrow> int \<Rightarrow> bool"
  float_attr_ok :: "'e \<Rightarrow> bool"
  splat_ok :: "'t \<Rightarrow> 'e ir_attr \<Rightarrow> bool"
  create_ok :: "('t, 'e) ir_op \<Rightarrow> 't list \<Rightarrow> bool"
  value_str :: "json \<Rightarrow> string"


section \<open>Types and attributes\<close>

definition init_elt_map :: "('t, 'e) ir_lib \<Rightarrow> (string, 'e) dict" where
  "init_elt_map L =
     [(''f32'', f32_type L), (''f64'', f64_type L), (''f16'', f16_type L), (''bf16'', bf16_type L), (''i1'', int_type L 1),
      (''i8'', int_type L 8), (''i32'', int_type L 32), (''i64'', int_type L 64), (''ui8'', uint_type L 8)]"

definition type_rx :: rx where
  "type_rx = Cat [Lit ''tensor<'', spaces, Grp (Few (\<lambda>c. c \<noteq> CHR 10) 1), spaces, Lit ''>'', At_end]"

definition type_str_to_ir_type :: "('t, 'e) ir_lib \<Rightarrow> string \<Rightarrow> 't res" where
  "type_str_to_ir_type L type_str =
     (let txt = py_strip type_str
      in case rx_match type_rx txt of
           [] \<Rightarrow> Inr (unranked_get L (dict_get (init_elt_map L) txt (f32_type L)))
         | (gs, _) # _ \<Rightarrow>
             (let parts = split_on CHR ''x'' (py_strip (gs ! 0));
                  elt = dict_get (init_elt_map L) (py_strip (last parts)) (f32_type L);
                  ds = map py_strip (butlast parts);
                  dims = map (\<lambda>d. case int_of_string d of Inr i \<Rightarrow> i | Inl _ \<Rightarrow> dynamic_size L) ds
              in if ''*'' \<in> set ds then Inr (unranked_get L elt)
                 else if dims = [] then ranked_get L [] elt
                 else case ranked_get L dims elt of Inr t \<Rightarrow> Inr t | Inl _ \<Rightarrow> Inl RuntimeError))"

definition int_attr :: "('t, 'e) ir_lib \<Rightarrow> 'e \<Rightarrow> int \<Rightarrow> 'e ir_attr res" where
  "int_attr L e i = (if int_attr_ok L e i then Inr (IntegerAttr e i) else Inl ValueError)"

definition attr_text :: "('t, 'e) ir_lib \<Rightarrow> json \<Rightarrow> string" where
  "attr_text L v = (case v of JStr s \<Rightarrow> s | _ \<Rightarrow> value_str L v)"

fun python_to_attr_ir :: "('t, 'e) ir_lib \<Rightarrow> json \<Rightarrow> 'e ir_attr res"
  and python_to_attrs_ir :: "('t, 'e) ir_lib \<Rightarrow> json list \<Rightarrow> 'e ir_attr list res" where
  "python_to_attr_ir L (JBool b) = Inr (BoolAttr b)"
| "python_to_attr_ir L (JInt i) = int_attr L (int_type L 64) i"
| "python_to_attr_ir L (JFloat r) = Inr (FloatAttr (f64_type L) r)"
| "python_to_attr_ir L (JStr s) = Inr (StringAttr s)"
| "python_to_attr_ir L (JList vs) = res_bind (python_to_attrs_ir L vs) (\<lambda>xs. Inr (ArrayAttr xs))"
| "python_to_attr_ir L JNull = Inr UnitAttr"
| "python_to_attr_ir L (JDict d) = Inr (StringAttr (attr_text L (JDict d)))"
| "python_to_attr_ir L (JObj d) = Inr (StringAttr (attr_text L (JObj d)))"
| "python_to_attrs_ir L [] = Inr []"
| "python_to_attrs_ir L (v # vs) =
     res_bind (python_to_attr_ir L v) (\<lambda>x. res_bind (python_to_attrs_ir L vs) (\<lambda>xs. Inr (x # xs)))"

definition build_mlir_attrs :: "('t, 'e) ir_lib \<Rightarrow> mlir_op \<Rightarrow> 'e ir_attrs res" where
  "build_mlir_attrs L op =
     res_mapM (\<lambda>(k, v). res_bind (python_to_attr_ir L v) (\<lambda>a. Inr (k, a)))
       (filter (\<lambda>(k, _). k \<noteq> ''source_node'') (mo_attributes op))"

text \<open>Nested locations, the outermost first.\<close>

definition dump_loc :: "('t, 'e) ir_lib \<Rightarrow> mlir_op \<Rightarrow> string list" where
  "dump_loc L op = (case map_of (mo_attributes op) ''dump_layer'' of Some v \<Rightarrow> [attr_text L v] | None \<Rightarrow> [])"


section \<open>Operations\<close>

type_synonym ir_map = "(string, ir_value) dict"

type_synonym ('t, 'e) ir_block = "('t, 'e) ir_op list \<times> ir_map"

text \<open>A name is entered as written and without its percent signs.\<close>

definition enter_name :: "string \<Rightarrow> ir_value \<Rightarrow> ir_map \<Rightarrow> ir_map" where
  "enter_name name v m = AList.update (ssa_key name) v (AList.update name v m)"

definition build_ssa_map :: "mlir_function \<Rightarrow> ir_map" where
  "build_ssa_map f = foldl (\<lambda>m (i, name, _). enter_name name (BlockArg i) m) [] (enum_from 0 (mf_inputs f))"

definition map_op_results :: "mlir_op \<Rightarrow> nat \<Rightarrow> nat \<Rightarrow> ir_map \<Rightarrow> ir_map" where
  "map_op_results op j n m =
     foldl (\<lambda>m (i, r). if i < n then enter_name r (OpResult j i) m else m) m (enum_from 0 (mo_results op))"

definition lookup_name :: "ir_map \<Rightarrow> string \<Rightarrow> ir_value option" where
  "lookup_name m name = (case map_of m name of Some v \<Rightarrow> Some v | None \<Rightarrow> map_of m (ssa_key name))"

definition resolve_operands :: "ir_map \<Rightarrow> mlir_op \<Rightarrow> ir_value list res" where
  "resolve_operands m op = res_mapM (\<lambda>name. res_of_option KeyError (lookup_name m name)) (mo_operands op)"

definition value_type :: "'t list \<Rightarrow> ('t, 'e) ir_op list \<Rightarrow> ir_value \<Rightarrow> 't" where
  "value_type args ops v = (case v of BlockArg i \<Rightarrow> args ! i | OpResult j k \<Rightarrow> io_types (ops ! j) ! k)"

text \<open>\<open>op.attributes.get("name")\<close>, \<open>None\<close> when it is missing or empty.\<close>

definition weight_op_name :: "mlir_op \<Rightarrow> string option res" where
  "weight_op_name op =
     (case map_of (mo_attributes op) ''name'' of
        None \<Rightarrow> Inr None
      | Some v \<Rightarrow> if json_truthy v then (case v of JStr n \<Rightarrow> Inr (Some n) | _ \<Rightarrow> Inl AttributeError) else Inr None)"

text \<open>\<open>items\<close> gives the value of a weight with a single element, \<open>wt.item()\<close>.\<close>

definition folded_const :: "(string \<Rightarrow> json option) \<Rightarrow> string list \<Rightarrow> string option \<Rightarrow> json option" where
  "folded_const items weights wname =
     (case wname of None \<Rightarrow> None | Some n \<Rightarrow> if starts_with n ''_const_'' \<and> n \<in> set weights then items n else None)"

definition scalar_attr :: "('t, 'e) ir_lib \<Rightarrow> 'e \<Rightarrow> json \<Rightarrow> 'e ir_attr res" where
  "scalar_attr L e v =
     (case v of
        JFloat r \<Rightarrow> if float_attr_ok L e then Inr (FloatAttr e r) else Inl ValueError
      | _ \<Rightarrow> res_bind (json_int v) (int_attr L e))"

definition create_weight_op :: "('t, 'e) ir_lib \<Rightarrow> json option \<Rightarrow> mlir_op \<Rightarrow> ('t, 'e) ir_op res" where
  "create_weight_op L folded op =
     res_bind (case folded of
         Some v \<Rightarrow>
           res_bind (py_index (mo_output_types op) 0) (\<lambda>ts.
           res_bind (type_str_to_ir_type L ts) (\<lambda>t.
           res_bind (scalar_attr L (element_type L t) v) (\<lambda>a.
           if splat_ok L t a
           then Inr \<lparr>io_name = ''arith.constant'', io_operands = [], io_types = [t], io_attrs = [(''value'', SplatAttr a)], io_loc = []\<rparr>
           else Inl ValueError)))
       | None \<Rightarrow>
           res_bind (build_mlir_attrs L op) (\<lambda>attrs.
           res_bind (if mo_output_types op \<noteq> [] then res_mapM (type_str_to_ir_type L) (mo_output_types op)
                     else Inr [unranked_get L (f32_type L)]) (\<lambda>types.
           Inr \<lparr>io_name = mo_name op, io_operands = [], io_types = types, io_attrs = attrs, io_loc = dump_loc L op\<rparr>)))
       (\<lambda>io. if create_ok L io [] then Inr io else Inl ValueError)"

definition emit_weight_op ::
    "('t, 'e) ir_lib \<Rightarrow> (string \<Rightarrow> json option) \<Rightarrow> string list \<Rightarrow> ('t, 'e) ir_block \<Rightarrow> mlir_op \<Rightarrow> ('t, 'e) ir_block res" where
  "emit_weight_op L items weights = (\<lambda>(ops, m) op.
     res_bind (weight_op_name op) (\<lambda>wname.
     res_bind (create_weight_op L (folded_const items weights wname) op) (\<lambda>io.
     let j = length ops; m' = map_op_results op j (length (io_types io)) m
     in Inr (ops @ [io], case wname of Some n \<Rightarrow> AList.update n (OpResult j 0) m' | None \<Rightarrow> m'))))"

definition infer_result_types :: "('t, 'e) ir_lib \<Rightarrow> mlir_op \<Rightarrow> 't list \<Rightarrow> 't list res" where
  "infer_result_types L op operand_types =
     (if mo_output_types op \<noteq> [] then res_mapM (type_str_to_ir_type L) (mo_output_types op)
      else if mo_op_name op = ''sym_size'' then res_bind (ranked_get L [] (f32_type L)) (\<lambda>t. Inr [t])
      else case operand_types of
             t # _ \<Rightarrow> if is_ranked L t then Inr [t] else res_bind (ranked_get L [1] (element_type L t)) (\<lambda>u. Inr [u])
           | [] \<Rightarrow> res_bind (ranked_get L [1] (f32_type L)) (\<lambda>t. Inr [t]))"

definition emit_compute_op :: "('t, 'e) ir_lib \<Rightarrow> 't list \<Rightarrow> ('t, 'e) ir_block \<Rightarrow> mlir_op \<Rightarrow> ('t, 'e) ir_block res" where
  "emit_compute_op L args = (\<lambda>(ops, m) op.
     res_bind (resolve_operands m op) (\<lambda>operands.
     res_bind (build_mlir_attrs L op) (\<lambda>attrs.
     let operand_types = map (value_type args ops) operands
     in res_bind (infer_result_types L op operand_types) (\<lambda>types.
        let result_loc = (case mo_results op of r # _ \<Rightarrow> if r \<noteq> [] then [ssa_key r] else [] | [] \<Rightarrow> []);
            io = \<lparr>io_name = mo_name op, io_operands = operands, io_types = types, io_attrs = attrs, io_loc = result_loc @ dump_loc L op\<rparr>
        in if create_ok L io operand_types then Inr (ops @ [io], map_op_results op (length ops) (length types) m)
           else Inl RuntimeError))))"

definition build_op ::
    "('t, 'e) ir_lib \<Rightarrow> (string \<Rightarrow> json option) \<Rightarrow> string list \<Rightarrow> 't list \<Rightarrow> ('t, 'e) ir_block \<Rightarrow> mlir_op \<Rightarrow> ('t, 'e) ir_block res" where
  "build_op L items weights args b op =
     (if mo_op_name op \<in> {''weight'', ''constant''} then emit_weight_op L items weights b op else emit_compute_op L args b op)"


section \<open>Functions and modules\<close>

definition resolve_output_values :: "mlir_function \<Rightarrow> ir_map \<Rightarrow> ir_value list" where
  "resolve_output_values f m =
     (let vs = List.map_filter (\<lambda>(name, _, _). lookup_name m name) (mf_outputs f)
      in if vs = [] \<and> mf_ops f \<noteq> [] \<and> mo_results (last (mf_ops f)) \<noteq> []
         then (case map_of m (last (mo_results (last (mf_ops f)))) of Some v \<Rightarrow> [v] | None \<Rightarrow> [])
         else vs)"

definition return_loc :: "(string \<times> string \<times> bool) list \<Rightarrow> string" where
  "return_loc outputs =
     join_with '', '' (map (\<lambda>(i, name, _). ''out'' @ string_of_nat i @ '':'' @ ssa_key name) (enum_from 0 outputs))"

definition string_attr :: "json \<Rightarrow> string res" where
  "string_attr v = (case v of JStr s \<Rightarrow> Inr s | _ \<Rightarrow> Inl TypeError)"

definition build_mlir_function :: "('t, 'e) ir_lib \<Rightarrow> (string \<Rightarrow> json option) \<Rightarrow> mlir_function \<Rightarrow> ('t, 'e) ir_func res" where
  "build_mlir_function L items f =
     res_bind (res_mapM (\<lambda>(_, tp). type_str_to_ir_type L tp) (mf_inputs f)) (\<lambda>args.
     res_bind (res_mapM string_attr (mf_weight_names f)) (\<lambda>weight_names.
     res_bind (res_foldM (build_op L items (mf_weights f) args) ([], build_ssa_map f) (mf_ops f)) (\<lambda>(ops, m).
     let vs = resolve_output_values f m
     in Inr \<lparr>if_name = mf_name f, if_weight_names = weight_names, if_args = args, if_ops = ops, if_returns = vs,
             if_types = map (value_type args ops) vs, if_loc = return_loc (mf_outputs f)\<rparr>)))"

definition mlir_module_to_ir_module ::
    "('t, 'e) ir_lib \<Rightarrow> (mlir_function \<Rightarrow> string \<Rightarrow> json option) \<Rightarrow> mlir_module \<Rightarrow> ('t, 'e) ir_module res" where
  "mlir_module_to_ir_module L items m =
     res_bind (res_mapM (\<lambda>f. build_mlir_function L (items f) f) (mm_functions m)) (\<lambda>funcs.
     res_bind (res_mapM (int_attr L (int_type L 64)) (mm_exec_plan_data m)) (\<lambda>plan.
     Inr \<lparr>im_funcs = funcs, im_chain_order = map StringAttr (mm_chain_order m), im_plan_data = plan\<rparr>))"


section \<open>What functions compute\<close>

text \<open>
  An operation of the bindings computes values from its name, its attributes and the values of its
  operands.  A built function is run with a table of the values of its operations.
\<close>

type_synonym ('e, 'v) ir_sem = "string \<Rightarrow> 'e ir_attrs \<Rightarrow> 'v list \<Rightarrow> 'v list"

definition value_of :: "'v list \<Rightarrow> 'v list list \<Rightarrow> ir_value \<Rightarrow> 'v" where
  "value_of args vals v = (case v of BlockArg i \<Rightarrow> args ! i | OpResult j k \<Rightarrow> vals ! j ! k)"

fun run_ops :: "('e, 'v) ir_sem \<Rightarrow> 'v list \<Rightarrow> 'v list list \<Rightarrow> ('t, 'e) ir_op list \<Rightarrow> 'v list list" where
  "run_ops sem args vals [] = vals"
| "run_ops sem args vals (op # ops) =
     run_ops sem args (vals @ [sem (io_name op) (io_attrs op) (map (value_of args vals) (io_operands op))]) ops"

definition run_built :: "('e, 'v) ir_sem \<Rightarrow> ('t, 'e) ir_func \<Rightarrow> 'v list \<Rightarrow> 'v list" where
  "run_built sem g args = map (value_of args (run_ops sem args [] (if_ops g))) (if_returns g)"

text \<open>
  The reference: names are bound in an environment, without their percent signs; a weight is also
  bound under its own name.  A folded constant has one result, other operations as many as output
  types, or one when they have none.
\<close>

definition own_name :: "mlir_op \<Rightarrow> string option" where
  "own_name op = (if mo_op_name op \<in> {''weight'', ''constant''} then case weight_op_name op of Inr n \<Rightarrow> n | Inl _ \<Rightarrow> None else None)"

definition is_folded :: "(string \<Rightarrow> json option) \<Rightarrow> string list \<Rightarrow> mlir_op \<Rightarrow> bool" where
  "is_folded items weights op \<longleftrightarrow> folded_const items weights (own_name op) \<noteq> None"

definition result_count :: "(string \<Rightarrow> json option) \<Rightarrow> string list \<Rightarrow> mlir_op \<Rightarrow> nat" where
  "result_count items weights op =
     (if is_folded items weights op \<or> mo_output_types op = [] then 1 else length (mo_output_types op))"

definition result_binds :: "nat \<Rightarrow> mlir_op \<Rightarrow> (string \<times> nat) list" where
  "result_binds n op = map (\<lambda>(i, r). (ssa_key r, i)) (filter (\<lambda>(i, _). i < n) (enum_from 0 (mo_results op)))"

definition op_binds :: "nat \<Rightarrow> mlir_op \<Rightarrow> (string \<times> nat) list" where
  "op_binds n op = result_binds n op @ (case own_name op of Some k \<Rightarrow> [(ssa_key k, 0)] | None \<Rightarrow> [])"

type_synonym 'v env = "string \<Rightarrow> 'v option"

definition bind_values :: "(string \<times> nat) list \<Rightarrow> 'v list \<Rightarrow> 'v env \<Rightarrow> 'v env" where
  "bind_values binds vs env = foldl (\<lambda>e (k, i). e(k \<mapsto> vs ! i)) env binds"

text \<open>Weights and constants take no operands.\<close>

definition used_operands :: "mlir_op \<Rightarrow> string list" where
  "used_operands op = (if mo_op_name op \<in> {''weight'', ''constant''} then [] else mo_operands op)"

fun run_named :: "(mlir_op \<Rightarrow> 'v list \<Rightarrow> 'v list) \<Rightarrow> (mlir_op \<Rightarrow> nat) \<Rightarrow> 'v env \<Rightarrow> mlir_op list \<Rightarrow> 'v env" where
  "run_named nsem count env [] = env"
| "run_named nsem count env (op # ops) =
     run_named nsem count
       (bind_values (op_binds (count op) op) (nsem op (map (\<lambda>name. the (env (ssa_key name))) (used_operands op))) env) ops"

definition input_env :: "mlir_function \<Rightarrow> 'v list \<Rightarrow> 'v env" where
  "input_env f args = map_of (zip (map (ssa_key \<circ> fst) (mf_inputs f)) args)"

text \<open>No key is defined twice, except that a weight may have its name as its result.\<close>

definition names_apart :: "(mlir_op \<Rightarrow> nat) \<Rightarrow> mlir_function \<Rightarrow> bool" where
  "names_apart count f \<longleftrightarrow>
     distinct (map (ssa_key \<circ> fst) (mf_inputs f) @ concat (map (\<lambda>op. map fst (remdups (op_binds (count op) op))) (mf_ops f)))"

text \<open>The name and the attributes of the operation that is built.\<close>

definition built_as :: "('t, 'e) ir_lib \<Rightarrow> (string \<Rightarrow> json option) \<Rightarrow> string list \<Rightarrow> mlir_op \<Rightarrow> string \<Rightarrow> 'e ir_attrs \<Rightarrow> bool" where
  "built_as L items weights op name attrs \<longleftrightarrow>
     (case folded_const items weights (own_name op) of
        Some v \<Rightarrow> name = ''arith.constant'' \<and>
          (\<exists>t a. type_str_to_ir_type L (hd (mo_output_types op)) = Inr t \<and> scalar_attr L (element_type L t) v = Inr a
             \<and> attrs = [(''value'', SplatAttr a)])
      | None \<Rightarrow> name = mo_name op \<and> build_mlir_attrs L op = Inr attrs)"


section \<open>Names and values\<close>

lemma map_of_enter_name:
  "map_of (enter_name name v m) s = (if s = name \<or> s = ssa_key name then Some v else map_of m s)"
  by (simp add: enter_name_def)

lemma map_op_results_Some:
  assumes "map_of (map_op_results op j n m) s = Some v"
  shows "map_of m s = Some v \<or> (\<exists>i. (ssa_key s, i) \<in> set (result_binds n op) \<and> v = OpResult j i)"
proof -
  have "map_of (foldl (\<lambda>m (i, r). if i < n then enter_name r (OpResult j i) m else m) m irs) s = Some v \<Longrightarrow>
      map_of m s = Some v \<or> (\<exists>i r. (i, r) \<in> set irs \<and> i < n \<and> ssa_key s = ssa_key r \<and> v = OpResult j i)" for irs
    by (induction irs arbitrary: m) (fastforce simp: map_of_enter_name split: if_splits)+
  from this[of "enum_from 0 (mo_results op)"] assms show ?thesis
    by (auto simp: map_op_results_def result_binds_def)
qed

lemma map_op_results_keeps: "map_of m s \<noteq> None \<Longrightarrow> map_of (map_op_results op j n m) s \<noteq> None"
proof -
  have "map_of m s \<noteq> None \<Longrightarrow> map_of (foldl (\<lambda>m (i, r). if i < n then enter_name r (OpResult j i) m else m) m irs) s \<noteq> None" for irs
    by (induction irs arbitrary: m) (auto simp: map_of_enter_name split: prod.splits)
  then show "map_of m s \<noteq> None \<Longrightarrow> ?thesis" by (simp add: map_op_results_def)
qed

lemma map_op_results_has: "k \<in> fst ` set (result_binds n op) \<Longrightarrow> map_of (map_op_results op j n m) k \<noteq> None"
proof -
  have "(i, r) \<in> set irs \<Longrightarrow> i < n \<Longrightarrow>
      map_of (foldl (\<lambda>m (i, r). if i < n then enter_name r (OpResult j i) m else m) m irs) (ssa_key r) \<noteq> None" for i r irs m
  proof (induction irs rule: rev_induct)
    case (snoc x irs)
    then show ?case by (cases x) (auto simp: map_of_enter_name)
  qed simp
  then show "k \<in> fst ` set (result_binds n op) \<Longrightarrow> ?thesis"
    by (fastforce simp: map_op_results_def result_binds_def)
qed

lemma bind_values_other: "k \<notin> fst ` set binds \<Longrightarrow> bind_values binds vs env k = env k"
  unfolding bind_values_def by (induction binds arbitrary: env) auto

lemma bind_values_bound:
  assumes "distinct (map fst (remdups binds))" "(k, i) \<in> set binds"
  shows "bind_values binds vs env k = Some (vs ! i)"
proof -
  have functional: "i' = i" if "(k, i') \<in> set binds" for i'
    using assms that eq_key_imp_eq_value[of "remdups binds" k i i'] by simp
  have "(k, i) \<in> set bs \<Longrightarrow> \<forall>i'. (k, i') \<in> set bs \<longrightarrow> i' = i \<Longrightarrow> bind_values bs vs env k = Some (vs ! i)" for bs
  proof (induction bs rule: rev_induct)
    case (snoc x bs)
    obtain k' i' where x: "x = (k', i')" by (cases x)
    show ?case
    proof (cases "(k, i) \<in> set bs")
      case True
      moreover have "\<forall>i'. (k, i') \<in> set bs \<longrightarrow> i' = i" using snoc.prems(2) unfolding set_append by blast
      ultimately have "bind_values bs vs env k = Some (vs ! i)" by (rule snoc.IH)
      moreover have "k' = k \<Longrightarrow> i' = i" using snoc.prems(2) x by simp
      ultimately show ?thesis by (simp add: bind_values_def x)
    next
      case False
      then have "k' = k" "i' = i" using snoc.prems(1) x by simp_all
      then show ?thesis by (simp add: bind_values_def x)
    qed
  qed simp
  from this[OF assms(2)] show ?thesis using functional by simp
qed


section \<open>Building keeps names and values together\<close>

definition tracks :: "'v list \<Rightarrow> 'v list list \<Rightarrow> 'v env \<Rightarrow> ir_map \<Rightarrow> bool" where
  "tracks args vals env m \<longleftrightarrow>
     (\<forall>s v. map_of m s = Some v \<longrightarrow> env (ssa_key s) = Some (value_of args vals v) \<and> (case v of OpResult j _ \<Rightarrow> j < length vals | _ \<Rightarrow> True))"

definition grows :: "ir_map \<Rightarrow> (string \<times> nat) list \<Rightarrow> nat \<Rightarrow> ir_map \<Rightarrow> bool" where
  "grows m binds j m' \<longleftrightarrow>
     (\<forall>s v. map_of m' s = Some v \<longrightarrow> map_of m s = Some v \<or> (\<exists>i. (ssa_key s, i) \<in> set binds \<and> v = OpResult j i))"

lemma value_of_snoc:
  "(case v of OpResult j _ \<Rightarrow> j < length vals | _ \<Rightarrow> True) \<Longrightarrow> value_of args (vals @ [vs]) v = value_of args vals v"
  by (cases v) (simp_all add: value_of_def nth_append)

lemma tracks_step:
  assumes t: "tracks args vals env m" and g: "grows m binds (length vals) m'"
    and d: "distinct (map fst (remdups binds))" and fresh: "fst ` set binds \<inter> dom env = {}"
  shows "tracks args (vals @ [vs]) (bind_values binds vs env) m'"
  unfolding tracks_def
proof (intro allI impI)
  fix s v
  assume "map_of m' s = Some v"
  then consider "map_of m s = Some v" | i where "(ssa_key s, i) \<in> set binds" "v = OpResult (length vals) i"
    using g by (auto simp: grows_def)
  then show "bind_values binds vs env (ssa_key s) = Some (value_of args (vals @ [vs]) v) \<and>
      (case v of OpResult j _ \<Rightarrow> j < length (vals @ [vs]) | _ \<Rightarrow> True)"
  proof cases
    case 1
    then have old: "env (ssa_key s) = Some (value_of args vals v)" "case v of OpResult j _ \<Rightarrow> j < length vals | _ \<Rightarrow> True"
      using t by (auto simp: tracks_def)
    moreover have "ssa_key s \<notin> fst ` set binds" using fresh old(1) by blast
    ultimately show ?thesis by (auto simp: bind_values_other value_of_snoc split: ir_value.splits)
  next
    case 2
    then show ?thesis using bind_values_bound[OF d 2(1), of vs env] by (simp add: value_of_def)
  qed
qed

lemma tracks_lookup: "tracks args vals env m \<Longrightarrow> lookup_name m name = Some v \<Longrightarrow> env (ssa_key name) = Some (value_of args vals v)"
  unfolding tracks_def lookup_name_def by (cases "map_of m name") (auto dest: spec[of _ "ssa_key name"])

lemma infer_result_types_length:
  "infer_result_types L op ts = Inr types \<Longrightarrow> length types = (if mo_output_types op = [] then 1 else length (mo_output_types op))"
  by (auto simp: infer_result_types_def res_mapM_length elim!: res_bindE split: if_splits list.splits)

lemma own_name_weight: "mo_op_name op \<in> {''weight'', ''constant''} \<Longrightarrow> weight_op_name op = Inr n \<Longrightarrow> own_name op = n"
  by (simp add: own_name_def)

lemma create_weight_op_result:
  assumes "create_weight_op L (folded_const items weights (own_name op)) op = Inr io"
  shows "io_operands io = []" "length (io_types io) = result_count items weights op" "built_as L items weights op (io_name io) (io_attrs io)"
  using assms
  by (auto simp: create_weight_op_def result_count_def is_folded_def built_as_def py_index_def py_pos_def hd_conv_nth res_mapM_length
      elim!: res_bindE split: option.splits if_splits)

lemma resolve_operands_all: "resolve_operands m op = Inr vs \<Longrightarrow> list_all2 (\<lambda>name v. lookup_name m name = Some v) (mo_operands op) vs"
proof -
  have "res_mapM (\<lambda>name. res_of_option KeyError (lookup_name m name)) ns = Inr vs \<Longrightarrow>
      list_all2 (\<lambda>name v. lookup_name m name = Some v) ns vs" for ns
    by (induction ns arbitrary: vs) (auto simp: res_of_option_eq_Inr elim!: res_bindE)
  then show "resolve_operands m op = Inr vs \<Longrightarrow> ?thesis" by (simp add: resolve_operands_def)
qed

lemma grows_results: "set (result_binds n op) \<subseteq> set binds \<Longrightarrow> grows m binds j (map_op_results op j n m)"
  unfolding grows_def using map_op_results_Some by blast

lemma build_op_step:
  assumes "build_op L items weights args (ops, m) op = Inr (ops', m')"
  shows "\<exists>io. ops' = ops @ [io] \<and> built_as L items weights op (io_name io) (io_attrs io) \<and>
     list_all2 (\<lambda>name v. lookup_name m name = Some v) (used_operands op) (io_operands io) \<and>
     length (io_types io) = result_count items weights op \<and> grows m (op_binds (result_count items weights op) op) (length ops) m'"
proof (cases "mo_op_name op \<in> {''weight'', ''constant''}")
  case True
  obtain wname io where w: "weight_op_name op = Inr wname" "create_weight_op L (folded_const items weights wname) op = Inr io" "ops' = ops @ [io]"
    "m' = (case wname of Some n \<Rightarrow> AList.update n (OpResult (length ops) 0) (map_op_results op (length ops) (length (io_types io)) m)
       | None \<Rightarrow> map_op_results op (length ops) (length (io_types io)) m)"
    using assms True by (auto simp: build_op_def emit_weight_op_def Let_def elim!: res_bindE)
  have n: "own_name op = wname" using own_name_weight[OF True w(1)] .
  note c = create_weight_op_result[of L items weights op io, unfolded n, OF w(2)]
  have "grows m (op_binds (length (io_types io)) op) (length ops) (map_op_results op (length ops) (length (io_types io)) m)"
    by (rule grows_results) (simp add: op_binds_def)
  then have "grows m (op_binds (length (io_types io)) op) (length ops) m'"
    using w(4) n by (auto simp: grows_def op_binds_def split: option.splits if_splits)
  then show ?thesis using w(3) c True n by (auto simp: used_operands_def)
next
  case False
  obtain operands attrs types where e: "resolve_operands m op = Inr operands" "build_mlir_attrs L op = Inr attrs"
      "infer_result_types L op (map (value_type args ops) operands) = Inr types"
      "\<exists>io. ops' = ops @ [io] \<and> io_name io = mo_name op \<and> io_operands io = operands \<and> io_types io = types \<and> io_attrs io = attrs"
      "m' = map_op_results op (length ops) (length types) m"
    using assms False by (auto simp: build_op_def emit_compute_op_def Let_def elim!: res_bindE split: if_splits)
  have own: "own_name op = None" using False by (simp add: own_name_def)
  have count: "length types = result_count items weights op"
    using infer_result_types_length[OF e(3)] own by (simp add: result_count_def is_folded_def folded_const_def)
  have "grows m (op_binds (length types) op) (length ops) m'" unfolding e(5) by (rule grows_results) (simp add: op_binds_def)
  then show ?thesis
    using e False own count resolve_operands_all[OF e(1)] by (auto simp: used_operands_def built_as_def folded_const_def)
qed


lemma dom_bind_values: "dom (bind_values binds vs env) = dom env \<union> fst ` set binds"
  unfolding bind_values_def by (induction binds arbitrary: env) (auto simp: case_prod_unfold)

lemma distinct_concat_apart: "distinct (concat (map g (x # xs))) \<Longrightarrow> y \<in> set xs \<Longrightarrow> set (g x) \<inter> set (g y) = {}"
  by (induction xs) auto

lemma build_ops_run:
  assumes "res_foldM (build_op L items weights types) (ops0, m) ops = Inr (ops', m')"
    and "tracks args vals env m" "length ops0 = length vals"
    and "distinct (concat (map (\<lambda>op. map fst (remdups (op_binds (result_count items weights op) op))) ops))"
    and "\<forall>op \<in> set ops. fst ` set (op_binds (result_count items weights op) op) \<inter> dom env = {}"
    and "\<forall>op \<in> set ops. \<forall>name attrs. built_as L items weights op name attrs \<longrightarrow> sem name attrs = nsem op"
  shows "\<exists>new. ops' = ops0 @ new \<and>
     tracks args (run_ops sem args vals new) (run_named nsem (result_count items weights) env ops) m'"
  using assms
proof (induction ops arbitrary: ops0 m vals env)
  case (Cons op ops)
  let ?binds = "op_binds (result_count items weights op) op"
  obtain ops1 m1 where s: "build_op L items weights types (ops0, m) op = Inr (ops1, m1)"
      "res_foldM (build_op L items weights types) (ops1, m1) ops = Inr (ops', m')"
    using Cons.prems(1) by (auto elim!: res_bindE)
  obtain io where io: "ops1 = ops0 @ [io]" "built_as L items weights op (io_name io) (io_attrs io)"
      "list_all2 (\<lambda>name v. lookup_name m name = Some v) (used_operands op) (io_operands io)" "grows m ?binds (length vals) m1"
    using build_op_step[OF s(1)] Cons.prems(3) by auto
  have "list_all2 (\<lambda>name v. the (env (ssa_key name)) = value_of args vals v) (used_operands op) (io_operands io)"
    using io(3) by (rule list_all2_mono) (simp add: tracks_lookup[OF Cons.prems(2)])
  then have operands: "map (\<lambda>name. the (env (ssa_key name))) (used_operands op) = map (value_of args vals) (io_operands io)"
    by (simp add: list_all2_conv_all_nth list_eq_iff_nth_eq)
  define vs where "vs = sem (io_name io) (io_attrs io) (map (value_of args vals) (io_operands io))"
  have vs: "vs = nsem op (map (\<lambda>name. the (env (ssa_key name))) (used_operands op))"
    using Cons.prems(6) io(2) unfolding vs_def operands by simp
  have fresh: "fst ` set ?binds \<inter> dom env = {}" using Cons.prems(5) by simp
  have d: "distinct (map fst (remdups ?binds))" using Cons.prems(4) by simp
  have t: "tracks args (vals @ [vs]) (bind_values ?binds vs env) m1"
    by (rule tracks_step[OF Cons.prems(2) io(4) d fresh])
  have later: "\<forall>op' \<in> set ops. fst ` set (op_binds (result_count items weights op') op') \<inter> dom (bind_values ?binds vs env) = {}"
  proof
    fix op'
    assume op': "op' \<in> set ops"
    let ?keys = "\<lambda>op. map fst (remdups (op_binds (result_count items weights op) op))"
    have "set (?keys op) \<inter> set (?keys op') = {}" by (rule distinct_concat_apart[OF Cons.prems(4) op'])
    then have "fst ` set ?binds \<inter> fst ` set (op_binds (result_count items weights op') op') = {}"
      by (simp only: set_map set_remdups)
    moreover have "fst ` set (op_binds (result_count items weights op') op') \<inter> dom env = {}" using Cons.prems(5) op' by simp
    ultimately show "fst ` set (op_binds (result_count items weights op') op') \<inter> dom (bind_values ?binds vs env) = {}"
      unfolding dom_bind_values by blast
  qed
  have len: "length ops1 = length (vals @ [vs])" using io(1) Cons.prems(3) by simp
  have dist: "distinct (concat (map (\<lambda>op. map fst (remdups (op_binds (result_count items weights op) op))) ops))"
    using Cons.prems(4) by simp
  obtain new where new: "ops' = ops1 @ new"
      "tracks args (run_ops sem args (vals @ [vs]) new) (run_named nsem (result_count items weights) (bind_values ?binds vs env) ops) m'"
    using Cons.IH[OF s(2) t len dist later] Cons.prems(6) by auto
  have "ops' = ops0 @ (io # new)" using new(1) io(1) by simp
  moreover have "tracks args (run_ops sem args vals (io # new)) (run_named nsem (result_count items weights) env (op # ops)) m'"
    using new(2) by (simp add: vs[symmetric]) (simp add: vs_def)
  ultimately show ?case by blast
qed simp

lemma build_ssa_map_Some:
  assumes "map_of (build_ssa_map f) s = Some v"
  shows "\<exists>i < length (mf_inputs f). ssa_key s = ssa_key (fst (mf_inputs f ! i)) \<and> v = BlockArg i"
proof -
  have "map_of (foldl (\<lambda>m (i, name, _). enter_name name (BlockArg i) m) m irs) s = Some v \<Longrightarrow>
      map_of m s = Some v \<or> (\<exists>i x. (i, x) \<in> set irs \<and> ssa_key s = ssa_key (fst x) \<and> v = BlockArg i)"
    for m and irs :: "(nat \<times> string \<times> string) list"
    by (induction irs arbitrary: m) (fastforce simp: map_of_enter_name split: if_splits)+
  from this[of "[]" "enum_from 0 (mf_inputs f)"] assms show ?thesis
    by (auto simp: build_ssa_map_def set_enum_from)
qed

lemma build_ssa_map_has:
  assumes "k \<in> ssa_key ` fst ` set (mf_inputs f)"
  shows "map_of (build_ssa_map f) k \<noteq> None"
proof -
  have entered: "(i, x) \<in> set irs \<Longrightarrow> map_of (foldl (\<lambda>m (i, name, _). enter_name name (BlockArg i) m) m irs) (ssa_key (fst x)) \<noteq> None"
    for m i x and irs :: "(nat \<times> string \<times> string) list"
  proof (induction irs rule: rev_induct)
    case (snoc y irs)
    then show ?case by (cases y) (auto simp: map_of_enter_name)
  qed simp
  obtain i where i: "i < length (mf_inputs f)" "k = ssa_key (fst (mf_inputs f ! i))"
    using assms by (metis imageE in_set_conv_nth)
  then have "(i, mf_inputs f ! i) \<in> set (enum_from 0 (mf_inputs f))" by (simp add: set_enum_from)
  from entered[OF this, of "[]"] show ?thesis by (simp add: build_ssa_map_def i(2))
qed

lemma input_env_at:
  assumes "distinct (map (ssa_key \<circ> fst) (mf_inputs f))" "length args = length (mf_inputs f)" "i < length (mf_inputs f)"
  shows "input_env f args (ssa_key (fst (mf_inputs f ! i))) = Some (args ! i)"
  using map_of_zip_nth[of "map (ssa_key \<circ> fst) (mf_inputs f)" args i] assms by (simp add: input_env_def)

lemma tracks_start:
  assumes "distinct (map (ssa_key \<circ> fst) (mf_inputs f))" "length args = length (mf_inputs f)"
  shows "tracks args [] (input_env f args) (build_ssa_map f)"
  unfolding tracks_def
proof (intro allI impI)
  fix s v
  assume "map_of (build_ssa_map f) s = Some v"
  from build_ssa_map_Some[OF this] obtain i where i: "i < length (mf_inputs f)" "ssa_key s = ssa_key (fst (mf_inputs f ! i))" "v = BlockArg i"
    by blast
  then show "input_env f args (ssa_key s) = Some (value_of args [] v) \<and> (case v of OpResult j _ \<Rightarrow> j < length [] | _ \<Rightarrow> True)"
    using input_env_at[OF assms i(1)] by (simp add: value_of_def)
qed

lemma dom_input_env: "length args = length (mf_inputs f) \<Longrightarrow> dom (input_env f args) = set (map (ssa_key \<circ> fst) (mf_inputs f))"
  by (simp add: input_env_def)


section \<open>Names in scope\<close>

lemma build_op_scope:
  assumes "build_op L items weights args (ops, m) op = Inr (ops', m')"
  shows "map_of m s \<noteq> None \<Longrightarrow> map_of m' s \<noteq> None"
    and "k \<in> fst ` set (result_binds (result_count items weights op) op) \<Longrightarrow> map_of m' k \<noteq> None"
    and "own_name op = Some n \<Longrightarrow> map_of m' n \<noteq> None"
proof -
  have "(\<forall>s. map_of m s \<noteq> None \<longrightarrow> map_of m' s \<noteq> None) \<and>
      (\<forall>k \<in> fst ` set (result_binds (result_count items weights op) op). map_of m' k \<noteq> None) \<and>
      (\<forall>n. own_name op = Some n \<longrightarrow> map_of m' n \<noteq> None)"
  proof (cases "mo_op_name op \<in> {''weight'', ''constant''}")
    case True
    obtain wname io where w: "weight_op_name op = Inr wname" "create_weight_op L (folded_const items weights wname) op = Inr io"
      "m' = (case wname of Some n \<Rightarrow> AList.update n (OpResult (length ops) 0) (map_op_results op (length ops) (length (io_types io)) m)
         | None \<Rightarrow> map_op_results op (length ops) (length (io_types io)) m)"
      using assms True by (auto simp: build_op_def emit_weight_op_def Let_def elim!: res_bindE)
    have n: "own_name op = wname" using own_name_weight[OF True w(1)] .
    have c: "length (io_types io) = result_count items weights op" using create_weight_op_result(2)[of L items weights op io] n w(2) by simp
    have "map_of m' s \<noteq> None" if "map_of (map_op_results op (length ops) (length (io_types io)) m) s \<noteq> None" for s
      using that w(3) by (auto split: option.splits)
    then show ?thesis
      using map_op_results_keeps[of m] map_op_results_has[of _ "length (io_types io)" op "length ops" m] n w(3) c
      by (auto split: option.splits)
  next
    case False
    obtain operands types where e: "infer_result_types L op (map (value_type args ops) operands) = Inr types"
        "m' = map_op_results op (length ops) (length types) m"
      using assms False by (auto simp: build_op_def emit_compute_op_def Let_def elim!: res_bindE split: if_splits)
    have own: "own_name op = None" using False by (simp add: own_name_def)
    have "length types = result_count items weights op"
      using infer_result_types_length[OF e(1)] own by (simp add: result_count_def is_folded_def folded_const_def)
    then show ?thesis
      using map_op_results_keeps[of m] map_op_results_has[of _ "length types" op "length ops" m] own e(2) by auto
  qed
  then show "map_of m s \<noteq> None \<Longrightarrow> map_of m' s \<noteq> None"
    and "k \<in> fst ` set (result_binds (result_count items weights op) op) \<Longrightarrow> map_of m' k \<noteq> None"
    and "own_name op = Some n \<Longrightarrow> map_of m' n \<noteq> None" by blast+
qed

definition defined_keys :: "(mlir_op \<Rightarrow> nat) \<Rightarrow> mlir_function \<Rightarrow> string set" where
  "defined_keys count f = ssa_key ` fst ` set (mf_inputs f) \<union> (\<Union>op \<in> set (mf_ops f). fst ` set (result_binds (count op) op))"

lemma build_ops_scope:
  assumes "res_foldM (build_op L items weights types) (ops0, m) ops = Inr (ops', m')"
    and "map_of m k \<noteq> None \<or> (\<exists>op \<in> set ops. k \<in> fst ` set (result_binds (result_count items weights op) op))"
  shows "map_of m' k \<noteq> None"
  using assms
proof (induction ops arbitrary: ops0 m)
  case (Cons op ops)
  obtain ops1 m1 where s: "build_op L items weights types (ops0, m) op = Inr (ops1, m1)"
      "res_foldM (build_op L items weights types) (ops1, m1) ops = Inr (ops', m')"
    using Cons.prems(1) by (auto elim!: res_bindE)
  have "map_of m1 k \<noteq> None \<or> (\<exists>op \<in> set ops. k \<in> fst ` set (result_binds (result_count items weights op) op))"
  proof (cases "map_of m k \<noteq> None \<or> k \<in> fst ` set (result_binds (result_count items weights op) op)")
    case True
    then show ?thesis using build_op_scope(1,2)[OF s(1), of k] by (elim disjE) simp_all
  next
    case False
    then show ?thesis using Cons.prems(2) by (simp only: list.set bex_simps) blast
  qed
  then show ?case by (rule Cons.IH[OF s(2)])
qed simp

lemma set_concat_member: "x \<in> set xs \<Longrightarrow> set (g x) \<subseteq> set (concat (map g xs))"
  by auto

lemma resolved_outputs:
  assumes "\<forall>(name, _) \<in> set outs. lookup_name m name \<noteq> None"
  shows "List.map_filter (\<lambda>(name, _, _). lookup_name m name) outs = map (\<lambda>(name, _, _). the (lookup_name m name)) outs"
  using assms by (induction outs) (auto simp: map_filter_simps)

text \<open>A built function computes what its source computes with operands looked up by name, for every meaning of the operations, when no key is defined twice and the outputs are defined.\<close>
theorem built_function_computes:
  assumes built: "build_mlir_function L items f = Inr g"
    and apart: "names_apart (result_count items (mf_weights f)) f" and args: "length args = length (mf_inputs f)"
    and meaning: "\<forall>op \<in> set (mf_ops f). \<forall>name attrs. built_as L items (mf_weights f) op name attrs \<longrightarrow> sem name attrs = nsem op"
    and outputs: "mf_outputs f \<noteq> []" "ssa_key ` fst ` set (mf_outputs f) \<subseteq> defined_keys (result_count items (mf_weights f)) f"
  shows "run_built sem g args =
     map (\<lambda>(name, _, _). the (run_named nsem (result_count items (mf_weights f)) (input_env f args) (mf_ops f) (ssa_key name))) (mf_outputs f)"
proof -
  let ?count = "result_count items (mf_weights f)"
  let ?keys = "\<lambda>op. map fst (remdups (op_binds (?count op) op))"
  obtain types ops m where b: "res_foldM (build_op L items (mf_weights f) types) ([], build_ssa_map f) (mf_ops f) = Inr (ops, m)"
      "if_ops g = ops" "if_returns g = resolve_output_values f m"
    using built by (auto simp: build_mlir_function_def Let_def elim!: res_bindE)
  have inputs: "distinct (map (ssa_key \<circ> fst) (mf_inputs f))" and ops: "distinct (concat (map ?keys (mf_ops f)))"
    and disjoint: "set (map (ssa_key \<circ> fst) (mf_inputs f)) \<inter> set (concat (map ?keys (mf_ops f))) = {}"
    using apart by (simp_all only: names_apart_def distinct_append)
  have fresh: "\<forall>op \<in> set (mf_ops f). fst ` set (op_binds (?count op) op) \<inter> dom (input_env f args) = {}"
  proof
    fix op
    assume "op \<in> set (mf_ops f)"
    then have "set (?keys op) \<subseteq> set (concat (map ?keys (mf_ops f)))" by (rule set_concat_member)
    then have "set (?keys op) \<inter> set (map (ssa_key \<circ> fst) (mf_inputs f)) = {}" using disjoint by blast
    then show "fst ` set (op_binds (?count op) op) \<inter> dom (input_env f args) = {}"
      by (simp only: set_map set_remdups dom_input_env[OF args])
  qed
  from build_ops_run[OF b(1) tracks_start[OF inputs args] _ ops fresh meaning]
  have t: "tracks args (run_ops sem args [] ops) (run_named nsem ?count (input_env f args) (mf_ops f)) m" by auto
  have "map_of m (ssa_key name) \<noteq> None" if "(name, rest) \<in> set (mf_outputs f)" for name rest
  proof -
    have "ssa_key name \<in> ssa_key ` fst ` set (mf_outputs f)" using that by (metis fst_conv imageI)
    then have "ssa_key name \<in> defined_keys ?count f" using outputs(2) by blast
    then show ?thesis using build_ops_scope[OF b(1), of "ssa_key name"] build_ssa_map_has[of "ssa_key name" f]
      unfolding defined_keys_def by (simp only: Un_iff UN_iff) blast
  qed
  then have found: "lookup_name m name \<noteq> None" if "(name, rest) \<in> set (mf_outputs f)" for name rest
    using that by (auto simp: lookup_name_def split: option.splits)
  then have "List.map_filter (\<lambda>(name, _, _). lookup_name m name) (mf_outputs f) = map (\<lambda>(name, _, _). the (lookup_name m name)) (mf_outputs f)"
    by (intro resolved_outputs) auto
  then have returns: "if_returns g = map (\<lambda>(name, _, _). the (lookup_name m name)) (mf_outputs f)"
    using b(3) outputs(1) by (simp add: resolve_output_values_def)
  have same: "value_of args (run_ops sem args [] ops) (the (lookup_name m name))
      = the (run_named nsem ?count (input_env f args) (mf_ops f) (ssa_key name))" if out: "(name, rest) \<in> set (mf_outputs f)" for name rest
  proof -
    obtain v where v: "lookup_name m name = Some v" using found[OF out] by blast
    show ?thesis using tracks_lookup[OF t v] by (simp add: v)
  qed
  show ?thesis
  proof (simp add: run_built_def returns b(2) case_prod_unfold, intro ballI)
    fix x
    assume "x \<in> set (mf_outputs f)"
    then show "value_of args (run_ops sem args [] ops) (the (lookup_name m (fst x)))
        = the (run_named nsem ?count (input_env f args) (mf_ops f) (ssa_key (fst x)))"
      using same[of "fst x" "snd x"] by simp
  qed
qed

fun operands_defined :: "(mlir_op \<Rightarrow> nat) \<Rightarrow> string list \<Rightarrow> mlir_op list \<Rightarrow> bool" where
  "operands_defined count ks [] = True"
| "operands_defined count ks (op # ops) =
     (list_all (\<lambda>name. ssa_key name \<in> set ks) (used_operands op) \<and>
      operands_defined count (ks @ map fst (result_binds (count op) op) @ (case own_name op of Some n \<Rightarrow> [n] | None \<Rightarrow> [])) ops)"

definition no_key_error :: "'a res \<Rightarrow> bool" where
  "no_key_error r \<longleftrightarrow> r \<noteq> Inl KeyError"

lemma no_key_error_bind: "no_key_error r \<Longrightarrow> (\<And>x. r = Inr x \<Longrightarrow> no_key_error (g x)) \<Longrightarrow> no_key_error (res_bind r g)"
  by (cases r) (auto simp: no_key_error_def)

lemma no_key_error_mapM: "(\<And>x. no_key_error (g x)) \<Longrightarrow> no_key_error (res_mapM g xs)"
  by (induction xs) (auto intro!: no_key_error_bind simp: no_key_error_def[of "Inr _"])

lemma no_key_error_simps [simp]:
  "no_key_error (Inr x)" "e \<noteq> KeyError \<Longrightarrow> no_key_error (Inl e)"
  by (simp_all add: no_key_error_def)

lemma no_key_error_type:
  assumes "\<forall>ds e. no_key_error (ranked_get L ds e)"
  shows "no_key_error (type_str_to_ir_type L ts)"
  using assms by (auto simp: type_str_to_ir_type_def Let_def split: list.split sum.split)

lemma no_key_error_attr:
  "no_key_error (python_to_attr_ir L v)" "no_key_error (python_to_attrs_ir L vs)"
  by (induction L v and L vs rule: python_to_attr_ir_python_to_attrs_ir.induct) (auto simp: int_attr_def intro!: no_key_error_bind)

lemma no_key_error_int: "no_key_error (int_of_string txt)"
  by (auto simp: int_of_string_def no_key_error_def res_of_option_def split: list.split option.split)

lemma no_key_error_scalar: "no_key_error (scalar_attr L e v)"
  by (cases v) (auto simp: scalar_attr_def int_attr_def intro!: no_key_error_bind no_key_error_int)

lemma no_key_error_attrs: "no_key_error (build_mlir_attrs L op)"
  unfolding build_mlir_attrs_def by (auto intro!: no_key_error_mapM no_key_error_bind no_key_error_attr split: prod.split)

lemma no_key_error_weight:
  assumes "\<forall>ds e. no_key_error (ranked_get L ds e)"
  shows "no_key_error (create_weight_op L folded op)"
  unfolding create_weight_op_def
  by (auto intro!: no_key_error_bind no_key_error_mapM no_key_error_type[OF assms] no_key_error_scalar no_key_error_attrs
      simp: py_index_def split: option.split)

lemma no_key_error_types:
  assumes "\<forall>ds e. no_key_error (ranked_get L ds e)"
  shows "no_key_error (infer_result_types L op ts)"
  unfolding infer_result_types_def
  by (auto intro!: no_key_error_bind no_key_error_mapM no_key_error_type[OF assms] simp: assms split: list.split)

lemma no_key_error_op:
  assumes lib: "\<forall>ds e. no_key_error (ranked_get L ds e)" and scope: "\<forall>name \<in> set (used_operands op). map_of m (ssa_key name) \<noteq> None"
  shows "no_key_error (build_op L items weights args (ops, m) op)"
proof (cases "mo_op_name op \<in> {''weight'', ''constant''}")
  case True
  have "no_key_error (weight_op_name op)" by (auto simp: weight_op_name_def split: option.split json.split)
  then show ?thesis
    using True no_key_error_weight[OF lib] by (auto simp: build_op_def emit_weight_op_def Let_def intro!: no_key_error_bind)
next
  case False
  have "no_key_error (res_mapM (\<lambda>name. res_of_option KeyError (lookup_name m name)) ns)"
    if "\<forall>name \<in> set ns. map_of m (ssa_key name) \<noteq> None" for ns
    using that by (induction ns) (auto intro!: no_key_error_bind simp: lookup_name_def split: option.split)
  then have "no_key_error (resolve_operands m op)" using scope False by (simp add: resolve_operands_def used_operands_def)
  then show ?thesis
    using False no_key_error_types[OF lib] no_key_error_attrs
    by (auto simp: build_op_def emit_compute_op_def Let_def intro!: no_key_error_bind)
qed

lemma no_key_error_ops:
  assumes lib: "\<forall>ds e. no_key_error (ranked_get L ds e)"
  shows "operands_defined (result_count items weights) ks ops \<Longrightarrow> \<forall>k \<in> set ks. map_of m k \<noteq> None \<Longrightarrow>
     no_key_error (res_foldM (build_op L items weights args) (ops0, m) ops)"
proof (induction ops arbitrary: ks ops0 m)
  case (Cons op ops)
  have "no_key_error (build_op L items weights args (ops0, m) op)"
    using Cons.prems by (intro no_key_error_op[OF lib]) (auto simp: list_all_iff)
  moreover have "no_key_error (res_foldM (build_op L items weights args) (ops1, m1) ops)"
    if s: "build_op L items weights args (ops0, m) op = Inr (ops1, m1)" for ops1 m1
  proof (rule Cons.IH)
    show "operands_defined (result_count items weights)
        (ks @ map fst (result_binds (result_count items weights op) op) @ (case own_name op of Some n \<Rightarrow> [n] | None \<Rightarrow> [])) ops"
      using Cons.prems(1) by simp
    show "\<forall>k \<in> set (ks @ map fst (result_binds (result_count items weights op) op) @ (case own_name op of Some n \<Rightarrow> [n] | None \<Rightarrow> [])).
        map_of m1 k \<noteq> None"
    proof -
      have "\<forall>k \<in> set ks. map_of m1 k \<noteq> None" using Cons.prems(2) build_op_scope(1)[OF s] by blast
      moreover have "\<forall>k \<in> set (map fst (result_binds (result_count items weights op) op)). map_of m1 k \<noteq> None"
        using build_op_scope(2)[OF s] unfolding set_map by blast
      moreover have "\<forall>k \<in> set (case own_name op of Some n \<Rightarrow> [n] | None \<Rightarrow> []). map_of m1 k \<noteq> None"
        using build_op_scope(3)[OF s] by (cases "own_name op") auto
      ultimately show ?thesis unfolding set_append ball_Un by blast
    qed
  qed
  ultimately show ?case by (auto intro: no_key_error_bind)
qed simp

text \<open>When every operand is the key of an input, of an earlier result or of an earlier weight, building the function never fails to find an operand.\<close>
theorem built_operands_found:
  assumes lib: "\<forall>ds e. ranked_get L ds e \<noteq> Inl KeyError"
    and scope: "operands_defined (result_count items (mf_weights f)) (map (ssa_key \<circ> fst) (mf_inputs f)) (mf_ops f)"
  shows "build_mlir_function L items f \<noteq> Inl KeyError"
proof -
  have lib': "\<forall>ds e. no_key_error (ranked_get L ds e)" using lib by (simp add: no_key_error_def)
  have "\<forall>k \<in> set (map (ssa_key \<circ> fst) (mf_inputs f)). map_of (build_ssa_map f) k \<noteq> None"
    using build_ssa_map_has by force
  note ops = no_key_error_ops[OF lib' scope this]
  have "no_key_error (build_mlir_function L items f)"
    unfolding build_mlir_function_def Let_def
    by (intro no_key_error_bind no_key_error_mapM)
       (auto simp: string_attr_def intro: no_key_error_type[OF lib'] ops split: prod.split json.split)
  then show ?thesis by (simp add: no_key_error_def)
qed


section \<open>Operands come before their uses\<close>

definition dominated :: "'t list \<Rightarrow> ('t, 'e) ir_op list \<Rightarrow> ir_value \<Rightarrow> bool" where
  "dominated args ops v =
     (case v of BlockArg i \<Rightarrow> i < length args | OpResult j k \<Rightarrow> j < length ops \<and> k < length (io_types (ops ! j)))"

definition in_block :: "'t list \<Rightarrow> ('t, 'e) ir_block \<Rightarrow> bool" where
  "in_block args b \<longleftrightarrow>
     (\<forall>s v. map_of (snd b) s = Some v \<longrightarrow> dominated args (fst b) v) \<and>
     (\<forall>j < length (fst b). \<forall>v \<in> set (io_operands (fst b ! j)). dominated args (take j (fst b)) v)"

lemma dominated_append: "dominated args ops v \<Longrightarrow> dominated args (ops @ more_ops) v"
  by (cases v) (auto simp: dominated_def nth_append)

lemma result_binds_range: "(k, i) \<in> set (result_binds n op) \<Longrightarrow> i < n"
  by (auto simp: result_binds_def)

lemma build_op_in_block:
  assumes b: "in_block args (ops, m)" and step: "build_op L items weights args (ops, m) op = Inr (ops', m')"
  shows "in_block args (ops', m')"
proof -
  obtain io where io: "ops' = ops @ [io]" "list_all2 (\<lambda>name v. lookup_name m name = Some v) (used_operands op) (io_operands io)"
      "length (io_types io) = result_count items weights op" "grows m (op_binds (result_count items weights op) op) (length ops) m'"
    using build_op_step[OF step] by blast
  have one: "0 < result_count items weights op" by (simp add: result_count_def)
  have old: "dominated args ops v" if "map_of m s = Some v" for s v using b that by (simp add: in_block_def)
  have "dominated args ops v" if "v \<in> set (io_operands io)" for v
    using io(2) that old by (auto simp: list_all2_conv_all_nth in_set_conv_nth lookup_name_def split: option.splits)
  moreover have "dominated args ops' v" if "map_of m' s = Some v" for s v
  proof -
    have "map_of m s = Some v \<or> (\<exists>i. (ssa_key s, i) \<in> set (op_binds (result_count items weights op) op) \<and> v = OpResult (length ops) i)"
      using io(4) that by (simp add: grows_def)
    then show ?thesis
    proof
      assume "map_of m s = Some v"
      then show ?thesis using dominated_append[OF old] io(1) by simp
    next
      assume "\<exists>i. (ssa_key s, i) \<in> set (op_binds (result_count items weights op) op) \<and> v = OpResult (length ops) i"
      then show ?thesis
        using io(1,3) one by (auto simp: dominated_def op_binds_def split: option.splits dest: result_binds_range)
    qed
  qed
  ultimately show ?thesis using b io(1) by (auto simp: in_block_def nth_append less_Suc_eq)
qed

lemma build_ops_in_block:
  "res_foldM (build_op L items weights args) b ops = Inr b' \<Longrightarrow> in_block args b \<Longrightarrow> in_block args b'"
proof (induction ops arbitrary: b)
  case (Cons op ops)
  obtain b1 where s: "build_op L items weights args b op = Inr b1" "res_foldM (build_op L items weights args) b1 ops = Inr b'"
    using Cons.prems(1) by (auto elim!: res_bindE)
  have "in_block args b1" using build_op_in_block[of args "fst b" "snd b" L items weights op "fst b1" "snd b1"] Cons.prems(2) s(1) by simp
  then show ?case by (rule Cons.IH[OF s(2)])
qed simp

text \<open>In a built function every operand is an argument of the function or an existing result of an earlier operation, and so is every returned value.\<close>
theorem built_operands_dominate:
  assumes built: "build_mlir_function L items f = Inr g"
  shows "(\<forall>j < length (if_ops g). \<forall>v \<in> set (io_operands (if_ops g ! j)). dominated (if_args g) (take j (if_ops g)) v) \<and>
     (\<forall>v \<in> set (if_returns g). dominated (if_args g) (if_ops g) v)"
proof -
  obtain args ops m where b: "res_mapM (\<lambda>(_, tp). type_str_to_ir_type L tp) (mf_inputs f) = Inr args"
      "res_foldM (build_op L items (mf_weights f) args) ([], build_ssa_map f) (mf_ops f) = Inr (ops, m)"
      "if_args g = args" "if_ops g = ops" "if_returns g = resolve_output_values f m"
    using built by (auto simp: build_mlir_function_def Let_def elim!: res_bindE)
  have "length args = length (mf_inputs f)" using res_mapM_length[OF b(1)] .
  then have "in_block args ([], build_ssa_map f)"
    using build_ssa_map_Some[of f] by (fastforce simp: in_block_def dominated_def)
  then have ib: "in_block args (ops, m)" by (rule build_ops_in_block[OF b(2)])
  have "\<exists>s. map_of m s = Some v" if "v \<in> set (resolve_output_values f m)" for v
    using that by (auto simp: resolve_output_values_def Let_def lookup_name_def List.map_filter_def split: if_splits option.splits)
  then show ?thesis using ib b(3-5) by (auto simp: in_block_def)
qed


section \<open>A concrete function\<close>

definition toy_lib :: "((int list \<times> string) option, string) ir_lib" where
  "toy_lib = \<lparr>is_ranked = (\<lambda>t. t \<noteq> None), is_unranked = (\<lambda>t. t = None), type_shape = (\<lambda>t. fst (the t)),
     element_type = (\<lambda>t. case t of Some (_, e) \<Rightarrow> e | None \<Rightarrow> ''f32''), elt_str = (\<lambda>e. e), ranked_get = (\<lambda>ds e. Inr (Some (ds, e))),
     unranked_get = (\<lambda>e. None), unranked_shape = (\<lambda>t. Inl ValueError), f32_type = ''f32'', f64_type = ''f64'', f16_type = ''f16'',
     bf16_type = ''bf16'', int_type = (\<lambda>n. CHR ''i'' # string_of_nat n), dynamic_size = -1, uint_type = (\<lambda>n. ''ui8''),
     int_attr_ok = (\<lambda>_ _. True), float_attr_ok = (\<lambda>_. True), splat_ok = (\<lambda>_ _. True), create_ok = (\<lambda>_ _. True),
     value_str = (\<lambda>_. [])\<rparr>"

definition sample_op :: "string \<Rightarrow> string list \<Rightarrow> string \<Rightarrow> (string, json) dict \<Rightarrow> mlir_op" where
  "sample_op name operands result attrs =
     \<lparr>mo_name = ''sf.'' @ name, mo_dialect = ''sf'', mo_op_name = name, mo_operands = operands, mo_results = [result],
      mo_attributes = attrs, mo_input_types = [], mo_output_types = [''tensor<4xf32>'']\<rparr>"

definition sample_func :: mlir_function where
  "sample_func =
     \<lparr>mf_name = ''main'', mf_inputs = [(''%x'', ''tensor<4xf32>'')], mf_outputs = [(''%z'', ''tensor<4xf32>'', False)],
      mf_ops = [sample_op ''weight'' [] ''%w'' [(''name'', JStr ''w'')], sample_op ''weight'' [] ''%c'' [(''name'', JStr ''_const_0'')],
        sample_op ''linear'' [''%x'', ''w''] ''%y'' [(''layer'', JInt 3)], sample_op ''add'' [''%y'', ''_const_0''] ''%z'' []],
      mf_weights = [''w'', ''_const_0''], mf_param_weight_names = [''w''], mf_const_weight_names = [''_const_0''], mf_weight_names = []\<rparr>"

definition sample_items :: "string \<Rightarrow> json option" where
  "sample_items n = (if n = ''_const_0'' then Some (JFloat 7) else None)"

definition sample_sem :: "(string, nat) ir_sem" where
  "sample_sem name attrs vs =
     (if name = ''sf.weight'' then [3] else if name = ''arith.constant'' then [7] else if name = ''sf.linear'' then [prod_list vs] else [sum_list vs])"

definition sample_nsem :: "mlir_op \<Rightarrow> nat list \<Rightarrow> nat list" where
  "sample_nsem op = sample_sem (if own_name op = Some ''_const_0'' then ''arith.constant'' else mo_name op) []"

lemma defined_keys_list:
  "defined_keys count f =
     set (map (ssa_key \<circ> fst) (mf_inputs f) @ concat (map (\<lambda>op. map fst (result_binds (count op) op)) (mf_ops f)))"
  by (simp add: defined_keys_def image_comp)

lemma sample_built:
  "case build_mlir_function toy_lib sample_items sample_func of
     Inl _ \<Rightarrow> False
   | Inr g \<Rightarrow> map io_name (if_ops g) = [''sf.weight'', ''arith.constant'', ''sf.linear'', ''sf.add''] \<and>
       map io_operands (if_ops g) = [[], [], [BlockArg 0, OpResult 0 0], [OpResult 2 0, OpResult 1 0]] \<and> if_returns g = [OpResult 3 0]"
  by code_simp

lemma sample_folded:
  "list_all (\<lambda>op. is_folded sample_items (mf_weights sample_func) op = (own_name op = Some ''_const_0'')) (mf_ops sample_func)"
  by code_simp

lemma sample_apart:
  "names_apart (result_count sample_items (mf_weights sample_func)) sample_func \<and>
   operands_defined (result_count sample_items (mf_weights sample_func)) (map (ssa_key \<circ> fst) (mf_inputs sample_func)) (mf_ops sample_func)"
  by code_simp

lemma sample_keys:
  "list_all (\<lambda>k. k \<in> set (map (ssa_key \<circ> fst) (mf_inputs sample_func)
       @ concat (map (\<lambda>op. map fst (result_binds (result_count sample_items (mf_weights sample_func) op) op)) (mf_ops sample_func))))
     (map (ssa_key \<circ> fst) (mf_outputs sample_func))"
  by code_simp

lemma sample_named:
  "the (run_named sample_nsem (result_count sample_items (mf_weights sample_func)) (input_env sample_func [5]) (mf_ops sample_func) ''z'') = 22"
  by code_simp

theorem built_function_computes_witness:
  "\<exists>g. build_mlir_function toy_lib sample_items sample_func = Inr g \<and> run_built sample_sem g [5] = [22]"
proof -
  obtain g where g: "build_mlir_function toy_lib sample_items sample_func = Inr g" using res_caseE[OF sample_built] by (elim exE conjE)
  have "name = (if own_name op = Some ''_const_0'' then ''arith.constant'' else mo_name op)"
    if "op \<in> set (mf_ops sample_func)" "built_as toy_lib sample_items (mf_weights sample_func) op name attrs" for op name attrs
    using sample_folded that by (auto simp: list_all_iff is_folded_def built_as_def split: option.splits)
  then have "\<forall>op \<in> set (mf_ops sample_func). \<forall>name attrs.
      built_as toy_lib sample_items (mf_weights sample_func) op name attrs \<longrightarrow> sample_sem name attrs = sample_nsem op"
    by (simp add: sample_nsem_def sample_sem_def fun_eq_iff)
  moreover have "ssa_key ` fst ` set (mf_outputs sample_func) \<subseteq> defined_keys (result_count sample_items (mf_weights sample_func)) sample_func"
  proof -
    have outs: "ssa_key ` fst ` set (mf_outputs sample_func) = set (map (ssa_key \<circ> fst) (mf_outputs sample_func))" by (simp add: image_comp)
    show ?thesis unfolding outs defined_keys_list using sample_keys unfolding list_all_iff subset_iff Ball_def .
  qed
  ultimately show ?thesis
    using built_function_computes[OF g conjunct1[OF sample_apart], of "[5]" sample_sem sample_nsem] g sample_named
    by (simp add: sample_func_def ssa_key_def)
qed

theorem built_operands_found_witness: "build_mlir_function toy_lib sample_items sample_func \<noteq> Inl KeyError"
  by (rule built_operands_found[OF _ conjunct2[OF sample_apart]]) (simp add: toy_lib_def)

theorem built_operands_dominate_witness:
  "\<exists>g. build_mlir_function toy_lib sample_items sample_func = Inr g \<and>
     (\<forall>j < length (if_ops g). \<forall>v \<in> set (io_operands (if_ops g ! j)). dominated (if_args g) (take j (if_ops g)) v)"
proof -
  obtain g where g: "build_mlir_function toy_lib sample_items sample_func = Inr g" using res_caseE[OF sample_built] by (elim exE conjE)
  show ?thesis using built_operands_dominate[OF g] g by blast
qed

text \<open>An output that no operation defines is left out without an error: the function returns fewer values than it declares.\<close>

lemma unknown_output_dropped:
  "(case build_mlir_function toy_lib sample_items
      (sample_func\<lparr>mf_outputs := [(''%missing'', ''tensor<4xf32>'', False), (''%z'', ''tensor<4xf32>'', False)]\<rparr>) of
      Inl _ \<Rightarrow> None | Inr g \<Rightarrow> Some (if_returns g)) = Some [OpResult 3 0]"
  by code_simp

text \<open>The element type \<open>index\<close> becomes a dynamic size and \<open>f32\<close>.\<close>

lemma index_becomes_dynamic: "type_str_to_ir_type toy_lib ''tensor<4xindex>'' = Inr (Some ([4, -1], ''f32''))"
  by code_simp

end
