(* ===== verification/Spec2Isabelle.thy ===== *)
theory Spec2Isabelle
  imports Radix_Cache Shape_MLIR Op_Plan Kv_Cache Rwkv_State Speculative Split_Names Chain_Wrapper Engine_Live Const_Binary Text_Module Fx_Wiring Sfa_Abi Ir_Build
begin

text \<open>
  Verification library of LLM-CompileForge, an LLM compiler (Python, with passes in C++) and an
  inference runtime (Python and Rust).

  \<^bold>\<open>The program.\<close>  The compiler turns a \<open>torch.export\<close> graph into operations of the \<open>sf\<close> dialect
  (\<open>compiler/fx/converter.py\<close>, \<open>compiler/fx/utils.py\<close>),
  infers their types (\<open>compiler/shape\<close>), derives a cache policy from the model configuration
  (\<open>compiler/cache_policy.py\<close>), splits the operations into a chain of functions at layer and
  attention boundaries (\<open>compiler/fx/split.py\<close>), binds the policy to the functions' outputs, and
  writes an execution plan, which the chain wrapper pass and the ABI header
  (\<open>compiler/sfa_abi.py\<close>) follow, and an operation plan (\<open>compiler/op_plan.py\<close>).  The runtime keeps key/value blocks in a block manager
  (\<open>runtime/src/cache/block.rs\<close>) shared through a radix prefix cache
  (\<open>python_runtime/engine/cache/radix_cache.py\<close>), stores keys and values in slabs laid out by the
  policy (\<open>cache_manager.py\<close>, \<open>_kv_cache.py\<close>), recurrent states in slots
  (\<open>rwkv_state_manager.py\<close>), and decodes speculatively (\<open>python_runtime/engine/speculative\<close>).
  The engine (\<open>llm_engine.py\<close>) drives requests through the scheduler
  (\<open>runtime/src/engine/scheduler.rs\<close>), the executor and the sampler, one step at a time
  (\<open>_inference_loop.py\<close>), with the block manager and the prefix cache behind a bridge
  (\<open>_scheduling_bridge.py\<close>).

  \<^bold>\<open>Theories and sources.\<close>
  \<^item> \<open>Prelude\<close>, \<open>Json_Value\<close>, \<open>Type_Strings\<close>, \<open>Mlir_Module\<close>: Python exceptions as values
    (\<open>res\<close>), indexing, dictionaries as ordered association lists, untyped values, tensor type
    strings (\<open>_shape_to_mlir_type\<close>, \<open>parse_tensor_type\<close>), and \<open>MlirOp\<close>/\<open>MlirFunction\<close>.
  \<^item> \<open>Block_Manager\<close> (\<open>block.rs\<close>): pool, tables, reference counts; \<open>Radix_Cache\<close>: the tree
    operations over the interface \<open>ref_pool\<close>/\<open>cache_pool\<close> that the block manager implements.
  \<^item> \<open>Shape_Pure\<close> (\<open>shape_inference_pure.py\<close>) and \<open>Shape_MLIR\<close> (\<open>shape_inference_activations.py\<close>,
    \<open>shape_inference_matmul.py\<close>, \<open>shape_inference_utils.py\<close>): one definition per inference
    function and the dispatch tables.
  \<^item> \<open>Cache_Policy\<close>: factories, dictionary and protobuf forms, binding.  \<open>Func_Split\<close>,
    \<open>Split_Wiring\<close>, \<open>Split_Names\<close> (\<open>split.py\<close>): the splitter and what its plan, bindings and names
    promise.  \<open>Chain_Wrapper\<close> (\<open>SfChainWrapper.cpp\<close>): the reader of the plan.  \<open>Op_Plan\<close>:
    generation and validation of the operation plan.
  \<^item> \<open>Op_Table\<close> (\<open>dialect/_op_defs.py\<close>), \<open>Fx_Types\<close> (\<open>fx/utils.py\<close>) and \<open>Fx_Convert\<close>
    (\<open>fx/converter.py\<close>): the table of operators, the types of operands and results with their
    promotion, and the walk over the graph with its handlers, up to the assembled module;
    \<open>Fx_Wiring\<close>: which names converted operations may use, and the plan of a converted graph.
  \<^item> \<open>Regexp\<close> (Python's \<open>re\<close>) and \<open>Sfa_Abi\<close> (\<open>sfa_abi.py\<close>): what is read from lowered text, the merge
    with the functions and the plan, and the fields of the ABI header.
  \<^item> \<open>Ir_Build\<close> (\<open>artifact/ir.py\<close>): from operations that name their operands to operations of the
    MLIR bindings that refer to values.
  \<^item> \<open>Mlir_Text\<close> (\<open>artifact/serialize.py\<close>, \<open>artifact/parse.py\<close>): printing and parsing of module
    text; \<open>Text_Scan\<close>, \<open>Text_Roundtrip\<close>, \<open>Text_Module\<close>: searching and splitting, attributes and
    operations, functions and modules of the round trip.  \<open>Byte_Codec\<close>, \<open>Const_Binary\<close>
    (\<open>artifact/binary.py\<close>, \<open>runtime/src/model/weight_loader.rs\<close>): integers, strings and tensors as
    bytes, over the interface \<open>field_codec\<close>; the embedded constants as written and as read.
  \<^item> \<open>Tensor\<close>: torch as a parameter with the laws the caches use.  \<open>Paged_Store\<close>: the loops shared
    by \<open>Cache_Manager\<close> and \<open>Kv_Cache\<close>, over the interfaces \<open>cell_store\<close> and \<open>row_copy\<close>, which
    both caches provide as sublocales.  \<open>Rwkv_State\<close>: slots of recurrent states.
  \<^item> \<open>Scheduler\<close> (\<open>scheduler.rs\<close>, \<open>types.rs\<close>): admission, chunked prefill, decode steps and the
    recording of output.  \<open>Engine\<close>: bridge, inference loop, engine interface.  \<open>Engine_Live\<close>: when
    generation returns, and when it does not.
  \<^item> \<open>Speculative\<close>: verifier, draft proposers (interface \<open>draft_proposer\<close>, provided by the MTP
    and EAGLE proposers), adaptive draft length, runner.

  \<^bold>\<open>What the lemmas show.\<close>  Pool and tree invariants in every state the engine calls reach, so that
  a cached block is never free; the tree refines a prefix-closed set of token sequences; inferred
  shapes describe the results of every run, on both levels of inference; converted operations use
  only names defined before them, so the plan of a converted graph is wired; a model configuration
  is refused with the right exception or yields the slabs it asks for; a policy survives its
  dictionary form, and both serialisers agree but for the number of blocks, which the JSON fallback
  drops; the function built from named operations computes what looking its operands up by name
  computes; splitting keeps every operation, wires every input
  of a later function to the earlier output that carries its value, which the chain wrapper
  resolves without an out-of-range reference and the ABI header records, names functions apart, and binds the cache exactly
  to the outputs marked as consumed; a generated operation plan is structurally valid, and its
  generation succeeds exactly when the outputs of the covered functions fit the cache bindings, each
  then owned by its slab; module text is parsed back to the module it was printed from, and the
  runtime reads back the constants the compiler embeds; rows written to a cache are read back, and where several requests are
  concerned, which request is served; recurrent states of requests are isolated; greedy
  speculative decoding yields the target's tokens; draft lengths stay within bounds; entries of a
  scheduled batch are right for their requests; the pool is consistent in every state of the
  engine; generation returns within one step per prompt and output token when both fit the pool.  Where the
  code deviates from what it means to do, the deviation is proved and named as a finding.

  \<^bold>\<open>Parameters.\<close>  Torch (\<open>torch\<close>), the MLIR Python bindings (\<open>mlir\<close>), number formatting
  (\<open>py_format\<close>) and \<open>float(s)\<close> (\<open>py_float\<close>), the keys of the checkpoint file, neural modules, random draws and byte encodings of protobuf messages are
  arguments of the definitions, with their documented laws as hypotheses or locales; an exported
  program is a record of what the converter reads of it;
  \<open>fun_torch\<close> and a toy binding show that the laws can hold.  The order in which Python iterates
  over a set is a parameter too, as are the executor and the sampler (\<open>executor\<close>), and which of
  several equal entries the scheduler's heap pops (\<open>pick\<close>).

  \<^bold>\<open>Numbers, bounds, termination.\<close>  Python integers are \<open>int\<close> or \<open>nat\<close>; protobuf \<open>uint32\<close> fields
  and the \<open>unsigned\<close> fields of the chain wrapper are 32-bit words; probabilities are elements of an
  ordered field, not floats.  All recursive definitions terminate; the only bounded search, the
  trace of a repeat chain, is bounded by 8 in the source as well.  The loop of \<open>generate\<close> may run
  forever: \<open>generate_loop\<close> takes a number of steps, is \<open>None\<close> while it has not returned, and
  \<open>generate_returns\<close> gives a number that is enough.

  \<^bold>\<open>Not modelled.\<close>  The dialect builder and the graph passes
  (they work on objects of the MLIR bindings), quantisation and kernels
  (floating-point arithmetic), pipeline and backend drivers (external tools), the reading and
  writing of artifact directories,
  the executor's foreign-function interface, the server, scripts, and the Rust runtime other than
  the block manager, the scheduler and the reader of embedded constants.
\<close>


section \<open>The cache contract from the splitter to the bound policy\<close>

text \<open>The binding table of the splitter as \<open>bind_cache_policy\<close> takes it.\<close>

definition binding_triples :: "(nat \<times> nat \<times> json) list \<Rightarrow> (int \<times> int \<times> string) list" where
  "binding_triples bs = map (\<lambda>(fi, oi, s). (int fi, int oi, case s of JStr t \<Rightarrow> t | _ \<Rightarrow> [])) bs"

lemma bound_intercepts:
  "set (intercepts (bind_cache_policy (for_llama layers heads head_dim bs) bnd)) =
     (if bnd = [] then set (intercepts (for_llama layers heads head_dim bs))
      else bound_intercept (sdpa_templates (for_llama layers heads head_dim bs)) ` set bnd)"
  by (simp add: bind_cache_policy_def for_llama_def rw_intercept_def is_sdpa_def)

lemma bound_intercept_fields:
  "icpt_slab_id (bound_intercept t (fi, oi, sid)) = JStr sid"
  "func_index (bound_intercept t (fi, oi, sid)) = JInt fi" "output_index (bound_intercept t (fi, oi, sid)) = JInt oi"
  by (simp_all add: bound_intercept_def Let_def)

text \<open>C10: The cache contract of a compiled Llama model is consistent from end to end: after the splitter's binding table has been applied to the policy, an intercept is bound to an output of a function if and only if that output is marked as consumed by the cache, and every intercept names a slab of the policy.\<close>

theorem bound_policy_matches_outputs:
  assumes run: "make_multi_functions iter ops args (Some (for_llama layers heads head_dim bs)) = Inr r"
    and fi: "fi < length (sr_functions r)" "1 < length (sr_functions r)"
  shows "((\<exists>i \<in> set (intercepts (bind_cache_policy (for_llama layers heads head_dim bs) (binding_triples (sr_bindings r)))).
             func_index i = JInt (int fi) \<and> output_index i = JInt (int oi))
          \<longleftrightarrow> oi < length (mf_outputs (sr_functions r ! fi)) \<and> snd (snd (mf_outputs (sr_functions r ! fi) ! oi)))
       \<and> (\<forall>i \<in> set (intercepts (bind_cache_policy (for_llama layers heads head_dim bs) (binding_triples (sr_bindings r)))).
             func_index i = JInt (int fi) \<and> output_index i = JInt (int oi)
             \<longrightarrow> icpt_slab_id i \<in> slab_id ` set (slabs (for_llama layers heads head_dim bs)))"
proof -
  let ?p = "for_llama layers heads head_dim bs"
  let ?at = "\<lambda>i. func_index i = JInt (int fi) \<and> output_index i = JInt (int oi)"
  note exact = bindings_exact_llama[OF run fi, of oi]
  have at: "(\<exists>i \<in> set (intercepts (bind_cache_policy ?p (binding_triples (sr_bindings r)))). ?at i \<and> P (icpt_slab_id i))
      \<longleftrightarrow> (\<exists>s. (fi, oi, s) \<in> set (sr_bindings r) \<and> P (JStr (case s of JStr t \<Rightarrow> t | _ \<Rightarrow> [])))" for P
  proof (cases "sr_bindings r = []")
    case True
    then show ?thesis by (simp add: bind_cache_policy_def binding_triples_def for_llama_def rw_intercept_def)
  next
    case False
    then show ?thesis
      by (force simp: bound_intercepts binding_triples_def bound_intercept_fields)
  qed
  have "\<not> (\<exists>i \<in> set (intercepts (bind_cache_policy ?p (binding_triples (sr_bindings r)))).
      ?at i \<and> icpt_slab_id i \<notin> slab_id ` set (slabs ?p))"
  proof
    assume "\<exists>i \<in> set (intercepts (bind_cache_policy ?p (binding_triples (sr_bindings r)))).
      ?at i \<and> icpt_slab_id i \<notin> slab_id ` set (slabs ?p)"
    then obtain s where "(fi, oi, s) \<in> set (sr_bindings r)" "JStr (case s of JStr t \<Rightarrow> t | _ \<Rightarrow> []) \<notin> slab_id ` set (slabs ?p)"
      using at[of "\<lambda>s. s \<notin> slab_id ` set (slabs ?p)"] by blast
    then show False using exact by (auto simp: for_llama_def paged_slab_def)
  qed
  moreover have "(\<exists>i \<in> set (intercepts (bind_cache_policy ?p (binding_triples (sr_bindings r)))). ?at i)
      \<longleftrightarrow> (\<exists>s. (fi, oi, s) \<in> set (sr_bindings r))" using at[of "\<lambda>_. True"] by simp
  ultimately show ?thesis using exact by blast
qed

theorem bound_policy_matches_outputs_witness:
  "\<exists>r. make_multi_functions id layer_ops layer_args (Some (for_llama 1 1 4 16)) = Inr r \<and>
     ((\<exists>i \<in> set (intercepts (bind_cache_policy (for_llama 1 1 4 16) (binding_triples (sr_bindings r)))).
         func_index i = JInt (int 0) \<and> output_index i = JInt (int 1))
      \<longleftrightarrow> 1 < length (mf_outputs (sr_functions r ! 0)) \<and> snd (snd (mf_outputs (sr_functions r ! 0) ! 1)))"
proof -
  obtain r where r: "make_multi_functions id layer_ops layer_args (Some (for_llama 1 1 4 16)) = Inr r" "length (sr_functions r) = 2"
    using layer_result by (elim exE conjE) (rule that; assumption)
  have "0 < length (sr_functions r)" "1 < length (sr_functions r)" using r(2) by simp_all
  then show ?thesis using bound_policy_matches_outputs[OF r(1), of 0 1] r(1) by blast
qed

end
